(* ===== verification/Vend_Prelude.thy ===== *)
theory Vend_Prelude
  imports Main "HOL-Library.Word" "HOL-Library.Monad_Syntax"
begin

text \<open>
  Shared vocabulary of the VEND development.

  \<^item> C++ integer types are words: \<open>u8\<close>, \<open>u32\<close>, \<open>u64\<close>; sizes and bit positions
    (\<^verbatim>\<open>size_t\<close>) are natural numbers, and a subtraction of the source that can pass below zero
    is written with \<open>wsub32\<close> or \<open>wsub64\<close>, which wrap as the machine does.
  \<^item> A C++ operation that has no defined result for some inputs (an access outside an allocated
    array, a shift by the full width, a division by zero, a failed \<^verbatim>\<open>assert\<close>, flowing off the
    end of a function that returns a value) is a function into \<open>option\<close>; \<^term>\<open>None\<close> is
    exactly that case. A theorem whose conclusion is \<open>f x = Some y\<close> therefore says that the code
    stays inside its arrays, too.
  \<^item> The named collections are the simp sets the component theories extend and use.
\<close>

unbundle bit_operations_syntax

section \<open>Machine types\<close>

type_synonym u8 = "8 word"
type_synonym u32 = "32 word"
type_synonym u64 = "64 word"

named_theorems array_simps \<open>checked array accesses\<close>
named_theorems bitset_simps \<open>bit sets seen as functions from positions to bits\<close>
named_theorems encode_simps \<open>fields of an encoded vertex\<close>

text \<open>Subtraction of unsigned integers held in 32 and 64 bits.\<close>

definition wsub :: "nat \<Rightarrow> nat \<Rightarrow> nat \<Rightarrow> nat" where
  "wsub w a b = (if b \<le> a then a - b else 2 ^ w + a - b)"

abbreviation wsub32 :: "nat \<Rightarrow> nat \<Rightarrow> nat" where
  "wsub32 \<equiv> wsub 32"

abbreviation wsub64 :: "nat \<Rightarrow> nat \<Rightarrow> nat" where
  "wsub64 \<equiv> wsub 64"

text \<open>Left shift of a 32 bit value: shifting by 32 or more has no defined result in C++.\<close>

definition shl32 :: "u32 \<Rightarrow> nat \<Rightarrow> u32 option" where
  "shl32 x n = (if n < 32 then Some (push_bit n x) else None)"

text \<open>\<^verbatim>\<open>assert(c)\<close>.\<close>

definition assert_that :: "bool \<Rightarrow> unit option" where
  "assert_that c = (if c then Some () else None)"

section \<open>Arrays\<close>

text \<open>Reading and writing one cell of an allocated array.\<close>

definition aget :: "'a list \<Rightarrow> nat \<Rightarrow> 'a option" where
  "aget xs i = (if i < length xs then Some (xs ! i) else None)"

definition aput :: "'a list \<Rightarrow> nat \<Rightarrow> 'a \<Rightarrow> 'a list option" where
  "aput xs i v = (if i < length xs then Some (xs[i := v]) else None)"

text \<open>A loop over a fixed sequence whose body may have no defined result.\<close>

fun foldo :: "('a \<Rightarrow> 's \<Rightarrow> 's option) \<Rightarrow> 'a list \<Rightarrow> 's \<Rightarrow> 's option" where
  "foldo f [] s = Some s"
| "foldo f (x # xs) s = do { s' \<leftarrow> f x s; foldo f xs s' }"

section \<open>Lemmas on arrays and loops\<close>

lemma wsub_le [simp]: "b \<le> a \<Longrightarrow> wsub w a b = a - b"
  by (simp add: wsub_def)

lemma shl32_lt [simp]: "n < 32 \<Longrightarrow> shl32 x n = Some (push_bit n x)"
  by (simp add: shl32_def)

lemma assert_that_simps [simp]:
  "assert_that True = Some ()" "assert_that False = None"
  by (simp_all add: assert_that_def)

lemma aget_Some [simp, array_simps]: "i < length xs \<Longrightarrow> aget xs i = Some (xs ! i)"
  by (simp add: aget_def)

lemma aget_None [array_simps]: "\<not> i < length xs \<Longrightarrow> aget xs i = None"
  by (simp add: aget_def)

lemma aget_eq_Some_iff: "aget xs i = Some v \<longleftrightarrow> i < length xs \<and> xs ! i = v"
  by (simp add: aget_def)

lemma aput_Some [simp, array_simps]: "i < length xs \<Longrightarrow> aput xs i v = Some (xs[i := v])"
  by (simp add: aput_def)

lemma aput_eq_Some_iff: "aput xs i v = Some ys \<longleftrightarrow> i < length xs \<and> ys = xs[i := v]"
  by (auto simp: aput_def)

lemma foldo_append: "foldo f (xs @ ys) s = Option.bind (foldo f xs s) (foldo f ys)"
  by (induction xs arbitrary: s) (auto simp: Option.bind_assoc split: bind_splits)

text \<open>The loop rule: an invariant kept by every step that the loop makes holds at its end, and
  the loop ends with a result.\<close>

lemma foldo_invariant:
  assumes "P xs s"
    and "\<And>x ys s. P (x # ys) s \<Longrightarrow> \<exists>s'. f x s = Some s' \<and> P ys s'"
  shows "\<exists>s'. foldo f xs s = Some s' \<and> P [] s'"
  using assms(1)
proof (induction xs arbitrary: s)
  case Nil
  then show ?case by simp
next
  case (Cons x xs)
  from assms(2) [OF Cons.prems] obtain s' where "f x s = Some s'" "P xs s'" by blast
  with Cons.IH show ?case by simp
qed

lemma foldo_total:
  assumes "\<And>x s. x \<in> set xs \<Longrightarrow> f x s = Some (g x s)"
  shows "foldo f xs s = Some (fold g xs s)"
  using assms by (induction xs arbitrary: s) auto

lemma foldo_cong:
  assumes "\<And>x s. x \<in> set xs \<Longrightarrow> f x s = g x s"
  shows "foldo f xs s = foldo g xs s"
  using assms by (induction xs arbitrary: s) (auto split: bind_splits)

lemma foldo_single [simp]: "foldo f [x] = f x"
  by (rule ext, case_tac "f x xa") simp_all

lemma foldo_upt_Suc: "foldo f [0..<Suc n] s = do { s' \<leftarrow> foldo f [0..<n] s; f n s' }"
  by (simp add: foldo_append)

lemma foldo_aput_upt:
  "n \<le> length d \<Longrightarrow> foldo (\<lambda>i d. aput d i (f i)) [0..<n] d = Some (map f [0..<n] @ drop n d)"
proof (induction n)
  case (Suc n)
  then have "map f [0..<n] @ drop n d = map f [0..<n] @ d ! n # drop (Suc n) d"
    by (simp add: Cons_nth_drop_Suc)
  with Suc show ?case by (simp add: foldo_append nth_append list_update_append)
qed simp

lemma foldo_collect:
  assumes "\<And>i. i < n \<Longrightarrow> g i = Some (h i)"
  shows "foldo (\<lambda>i out. do { x \<leftarrow> g i; Some (out @ [x]) }) [0..<n] out = Some (out @ map h [0..<n])"
  using assms by (induction n) (simp_all add: foldo_append)

section \<open>Lemmas on words\<close>

lemma bit_u32_lt_two_power:
  assumes "unat (v :: u32) < 2 ^ n" "n \<le> k"
  shows "\<not> bit v k"
proof -
  have "unat v < 2 ^ k"
    using assms(1) power_increasing [OF assms(2), of "2 :: nat"] by linarith
  then have "\<not> bit (unat v) k" by (simp add: bit_iff_odd)
  then show ?thesis by (auto simp: bit_unsigned_iff dest: bit_imp_le_length)
qed

lemma unat_u32_lt: "unat (x :: u32) < 2 ^ 32"
  using unsigned_less [of x] by simp

lemma bit_u32_ge_32 [simp]: "32 \<le> k \<Longrightarrow> \<not> bit (v :: u32) k"
  by (auto dest: bit_imp_le_length)

lemma bit_u8_ge_8 [simp]: "8 \<le> k \<Longrightarrow> \<not> bit (v :: u8) k"
  by (auto dest: bit_imp_le_length)

lemma u32_ltI_bits:
  assumes "\<And>k. n \<le> k \<Longrightarrow> \<not> bit (v :: u32) k"
  shows "unat v < 2 ^ n"
proof -
  have "take_bit n v = v"
    by (rule bit_word_eqI) (use assms not_le in \<open>auto simp: bit_take_bit_iff\<close>)
  then have "unat v = take_bit n (unat v)"
    by (metis unsigned_take_bit_eq)
  then show ?thesis by (metis take_bit_nat_less_exp)
qed

section \<open>Searching a sequence of blocks\<close>

text \<open>
  The answer of a linear search that stops at the first value that is equal to or above the one
  it looks for, as every scan of the encodings does.
\<close>

fun scan :: "'a::linorder list \<Rightarrow> 'a \<Rightarrow> bool" where
  "scan [] v = False"
| "scan (x # xs) v = (if x = v then True else if v < x then False else scan xs v)"

lemma scan_sorted: "sorted xs \<Longrightarrow> scan xs v \<longleftrightarrow> v \<in> set xs"
  by (induction xs) (auto simp: not_less dest: leD)

lemma scan_imp_mem: "scan xs v \<Longrightarrow> v \<in> set xs"
  by (induction xs) (auto split: if_splits)

lemma scan_append_small:
  assumes "\<forall>y \<in> set ys. y < v"
  shows "scan (xs @ ys) v = scan xs v"
proof -
  have "scan ys v = False"
    using assms by (induction ys) auto
  then show ?thesis by (induction xs) auto
qed

end
