(* ===== verification/Bit_Set.thy ===== *)
theory Bit_Set
  imports Vend_Prelude
begin

text \<open>
  \<^verbatim>\<open>BitSetSIMD\<close> of \<^verbatim>\<open>util/bitset_simd.h\<close>: the array of bytes that holds the encoding of one
  vertex (or a whole Bloom filter). Position 0 is the most significant bit of byte 0. The theory
  translates the class, mask tables included, and proves that every operation is the intended one
  on the sequence of bits: \<open>bitat\<close> reads one position, \<open>mk_bitset\<close> rebuilds a bit set from its
  positions, and each \<open>..._correct\<close> lemma says which positions an operation writes.
\<close>

section \<open>The answers of a pair test\<close>

text \<open>\<^verbatim>\<open>enum PairType {Neighbor = 1, NonNeighbor = 2, Uncertain = 4}\<close> of \<^verbatim>\<open>common/config.h\<close>; the
  order is that of the values, which \<^verbatim>\<open>std::min\<close> compares.\<close>

datatype PairType = Neighbor | NonNeighbor | Uncertain

fun pair_code :: "PairType \<Rightarrow> nat" where
  "pair_code Neighbor = 1"
| "pair_code NonNeighbor = 2"
| "pair_code Uncertain = 4"

instantiation PairType :: linorder
begin

definition less_eq_PairType :: "PairType \<Rightarrow> PairType \<Rightarrow> bool" where
  "less_eq_PairType a b \<longleftrightarrow> pair_code a \<le> pair_code b"

definition less_PairType :: "PairType \<Rightarrow> PairType \<Rightarrow> bool" where
  "less_PairType a b \<longleftrightarrow> pair_code a < pair_code b"

instance
proof
  fix a b :: PairType
  show "a \<le> b \<Longrightarrow> b \<le> a \<Longrightarrow> a = b"
    by (cases a; cases b; simp add: less_eq_PairType_def)
qed (auto simp: less_eq_PairType_def less_PairType_def)

end

section \<open>Mask tables\<close>

definition IS_ONE_MASK :: "u8 list" where
  "IS_ONE_MASK = [0x80, 0x40, 0x20, 0x10, 0x08, 0x04, 0x02, 0x01]"

text \<open>The rows are written out to their nine columns; C++ fills the missing ones with zero.\<close>

definition ZERO_BLOCK_MASK :: "u8 list list" where
  "ZERO_BLOCK_MASK =
    [[0xFF, 0x7F, 0x3F, 0x1F, 0x0F, 0x07, 0x03, 0x01, 0x00],
     [0xFF, 0xBF, 0x9F, 0x8F, 0x87, 0x83, 0x81, 0x80, 0],
     [0xFF, 0xDF, 0xCF, 0xC7, 0xC3, 0xC1, 0xC0, 0, 0],
     [0xFF, 0xEF, 0xE7, 0xE3, 0xE1, 0xE0, 0, 0, 0],
     [0xFF, 0xF7, 0xF3, 0xF1, 0xF0, 0, 0, 0, 0],
     [0xFF, 0xFB, 0xF9, 0xF8, 0, 0, 0, 0, 0],
     [0xFF, 0xFD, 0xFC, 0, 0, 0, 0, 0, 0],
     [0xFF, 0xFE, 0, 0, 0, 0, 0, 0, 0]]"

definition ONE_BLOCK_MASK :: "u8 list list" where
  "ONE_BLOCK_MASK =
    [[0, 0x80, 0xC0, 0xE0, 0xF0, 0xF8, 0xFC, 0xFE, 0xFF],
     [0, 0x40, 0x60, 0x70, 0x78, 0x7C, 0x7E, 0x7F, 0],
     [0, 0x20, 0x30, 0x38, 0x3C, 0x3E, 0x3F, 0, 0],
     [0, 0x10, 0x18, 0x1C, 0x1E, 0x1F, 0, 0, 0],
     [0, 0x08, 0x0C, 0x0E, 0x0F, 0, 0, 0, 0],
     [0, 0x04, 0x06, 0x07, 0, 0, 0, 0, 0],
     [0, 0x02, 0x03, 0, 0, 0, 0, 0, 0],
     [0, 0x01, 0, 0, 0, 0, 0, 0, 0]]"

definition LEFT_ONE_MASK :: "u8 list" where
  "LEFT_ONE_MASK = [0x00, 0x01, 0x03, 0x07, 0x0F, 0x1F, 0x3F, 0x7F, 0]"

section \<open>The class\<close>

record bitset =
  bs_size :: nat
  bs_data :: "u8 list"

text \<open>\<^verbatim>\<open>BitSetSIMD(size_t size)\<close>: the argument counts bits.\<close>

definition BitSetSIMD :: "nat \<Rightarrow> bitset" where
  "BitSetSIMD n = \<lparr>bs_size = n div 8, bs_data = replicate (n div 8) 0\<rparr>"

definition SetOne :: "bitset \<Rightarrow> nat \<Rightarrow> bitset option" where
  "SetOne bs pos = do {
     b \<leftarrow> aget (bs_data bs) (pos div 8);
     d \<leftarrow> aput (bs_data bs) (pos div 8) (b OR push_bit (7 - pos mod 8) 1);
     Some (bs\<lparr>bs_data := d\<rparr>) }"

definition SetZero :: "bitset \<Rightarrow> nat \<Rightarrow> bitset option" where
  "SetZero bs pos = do {
     b \<leftarrow> aget (bs_data bs) (pos div 8);
     d \<leftarrow> aput (bs_data bs) (pos div 8) (b AND (0xFF XOR push_bit (7 - pos mod 8) 1));
     Some (bs\<lparr>bs_data := d\<rparr>) }"

definition IsOne :: "bitset \<Rightarrow> nat \<Rightarrow> bool option" where
  "IsOne bs pos = do {
     b \<leftarrow> aget (bs_data bs) (pos div 8);
     m \<leftarrow> aget IS_ONE_MASK (pos mod 8);
     Some (b AND m \<noteq> 0) }"

definition ClearBits :: "bitset \<Rightarrow> bitset" where
  "ClearBits bs = bs\<lparr>bs_data := replicate (length (bs_data bs)) 0\<rparr>"

text \<open>\<^verbatim>\<open>BlockSet(begin, block_size, value)\<close>. \<^verbatim>\<open>begin_idx\<close> is a \<^verbatim>\<open>uint8_t\<close> and keeps the byte index
  modulo 256 only. The loop writes whole bytes from the end of the block towards its start.\<close>

fun BlockSet_loop :: "u8 list \<Rightarrow> nat \<Rightarrow> nat \<Rightarrow> u32 \<Rightarrow> (u8 list \<times> nat \<times> u32) option" where
  "BlockSet_loop data end_idx block_size val =
    (if block_size > 8 then do {
       let end_idx = wsub64 end_idx 1;
       b \<leftarrow> aget data end_idx;
       data \<leftarrow> aput data end_idx ((b AND 0x00) OR ucast val);
       BlockSet_loop data end_idx (block_size - 8) (drop_bit 8 val) }
     else Some (data, block_size, val))"

definition BlockSet :: "bitset \<Rightarrow> nat \<Rightarrow> nat \<Rightarrow> u32 \<Rightarrow> bitset option" where
  "BlockSet bs begin block_size val = do {
     let begin_idx = (begin div 8) mod 256;
     let end_idx = wsub64 (begin + block_size) 1 div 8;
     let left = 7 - wsub64 (begin + block_size) 1 mod 8;
     row \<leftarrow> aget ZERO_BLOCK_MASK (begin mod 8);
     if begin_idx \<noteq> end_idx then do {
       m \<leftarrow> aget LEFT_ONE_MASK left;
       b \<leftarrow> aget (bs_data bs) end_idx;
       data \<leftarrow> aput (bs_data bs) end_idx ((b AND m) OR ucast (push_bit left val));
       (data, rest, val) \<leftarrow>
         BlockSet_loop data end_idx (wsub32 block_size (8 - left)) (drop_bit (8 - left) val);
       z \<leftarrow> aget row rest;
       b \<leftarrow> aget data begin_idx;
       data \<leftarrow> aput data begin_idx ((b AND z) OR ucast val);
       Some (bs\<lparr>bs_data := data\<rparr>) }
     else do {
       z \<leftarrow> aget row block_size;
       b \<leftarrow> aget (bs_data bs) begin_idx;
       data \<leftarrow> aput (bs_data bs) begin_idx ((b AND z) OR ucast (push_bit left val));
       Some (bs\<lparr>bs_data := data\<rparr>) } }"

text \<open>\<^verbatim>\<open>BlockSet(const std::vector<uint8_t> &)\<close> and \<^verbatim>\<open>BlockSet(const std::vector<uint32_t> &)\<close>: the
  whole array at once, from bytes or from big endian words.\<close>

definition BlockSet_bytes :: "bitset \<Rightarrow> u8 list \<Rightarrow> bitset option" where
  "BlockSet_bytes bs encode = do {
     assert_that (length encode = bs_size bs);
     d \<leftarrow> foldo (\<lambda>i d. aput d i (encode ! i)) [0..<bs_size bs] (bs_data bs);
     Some (bs\<lparr>bs_data := d\<rparr>) }"

definition BlockSet_words :: "bitset \<Rightarrow> u32 list \<Rightarrow> bitset option" where
  "BlockSet_words bs encode = do {
     assert_that (length encode * 4 = bs_size bs);
     d \<leftarrow> foldo (\<lambda>i d. do {
            d \<leftarrow> aput d (4 * i + 3) (ucast (encode ! i AND 0x000000ff));
            d \<leftarrow> aput d (4 * i + 2) (ucast (drop_bit 8 (encode ! i AND 0x0000ff00)));
            d \<leftarrow> aput d (4 * i + 1) (ucast (drop_bit 16 (encode ! i AND 0x00ff0000)));
            aput d (4 * i) (ucast (drop_bit 24 (encode ! i AND 0xff000000))) })
          [0..<length encode] (bs_data bs);
     Some (bs\<lparr>bs_data := d\<rparr>) }"

definition Dump :: "bitset \<Rightarrow> u32 list option" where
  "Dump bs = do {
     assert_that (bs_size bs mod 4 = 0);
     foldo (\<lambda>i out. do {
         b0 \<leftarrow> aget (bs_data bs) (4 * i);
         b1 \<leftarrow> aget (bs_data bs) (4 * i + 1);
         b2 \<leftarrow> aget (bs_data bs) (4 * i + 2);
         b3 \<leftarrow> aget (bs_data bs) (4 * i + 3);
         Some (out @ [push_bit 24 (ucast b0) + push_bit 16 (ucast b1) + push_bit 8 (ucast b2) + ucast b3]) })
       [0..<bs_size bs div 4] [] }"

text \<open>\<^verbatim>\<open>BlockGet(begin, block_size)\<close>; \<open>n\<close> is \<^verbatim>\<open>j - i\<close>, the bytes between first and last. The count of the last
  shift is \<^verbatim>\<open>block_size - 8 + MOD8(begin)\<close>, whose difference is taken in \<^verbatim>\<open>uint32_t\<close> and whose sum in
  \<^verbatim>\<open>size_t\<close>: a block of fewer than eight bits that lies in two bytes is shifted by \<open>2\<^sup>3\<^sup>2\<close> or more, which is
  undefined.\<close>

function BlockGet_loop :: "u8 list \<Rightarrow> nat \<Rightarrow> nat \<Rightarrow> nat \<Rightarrow> nat \<Rightarrow> u32 \<Rightarrow> u32 option" where
  "BlockGet_loop data j last_mod idx n val =
    (if idx < n then do {
       b \<leftarrow> aget data (wsub64 j idx);
       s \<leftarrow> shl32 (ucast b) (8 * (idx - 1) + last_mod + 1);
       BlockGet_loop data j last_mod (idx + 1) n (val + s) }
     else Some val)"
  by pat_completeness auto
termination
  by (relation "measure (\<lambda>(data, j, last_mod, idx, n, val). n - idx)") auto

definition BlockGet :: "bitset \<Rightarrow> nat \<Rightarrow> nat \<Rightarrow> u32 option" where
  "BlockGet bs begin block_size = do {
     let i = begin div 8;
     let last_pos = wsub64 (begin + block_size) 1;
     let j = last_pos div 8;
     row \<leftarrow> aget ONE_BLOCK_MASK (begin mod 8);
     if i = j then do {
       b \<leftarrow> aget (bs_data bs) i;
       m \<leftarrow> aget row block_size;
       Some (drop_bit (7 - last_pos mod 8) (ucast (b AND m))) }
     else do {
       let last_mod = last_pos mod 8;
       bj \<leftarrow> aget (bs_data bs) j;
       val \<leftarrow> BlockGet_loop (bs_data bs) j last_mod 1 (wsub64 j i) (drop_bit (7 - last_mod) (ucast bj));
       bi \<leftarrow> aget (bs_data bs) i;
       m \<leftarrow> aget row (8 - begin mod 8);
       s \<leftarrow> shl32 (ucast (bi AND m)) (wsub32 block_size 8 + begin mod 8);
       Some (val + s) } }"

text \<open>\<^verbatim>\<open>BlockFind(begin, block_size, block_num, value)\<close>: \<open>stop\<close> is \<^verbatim>\<open>block_size * block_num + begin\<close>. With
  a block size of zero \<open>stop\<close> is \<^verbatim>\<open>begin\<close> and the loop is not entered.\<close>

function BlockFind_loop :: "bitset \<Rightarrow> nat \<Rightarrow> nat \<Rightarrow> nat \<Rightarrow> u32 \<Rightarrow> PairType option" where
  "BlockFind_loop bs i stop block_size value =
    (if i < stop \<and> 0 < block_size then do {
       val \<leftarrow> BlockGet bs i block_size;
       if val = value then Some Neighbor
       else if value < val then Some NonNeighbor
       else BlockFind_loop bs (i + block_size) stop block_size value }
     else Some NonNeighbor)"
  by pat_completeness auto
termination
  by (relation "measure (\<lambda>(bs, i, stop, block_size, value). stop - i)") auto

definition BlockFind :: "bitset \<Rightarrow> nat \<Rightarrow> nat \<Rightarrow> nat \<Rightarrow> u32 \<Rightarrow> PairType option" where
  "BlockFind bs begin block_size block_num value =
     BlockFind_loop bs begin (block_size * block_num + begin) block_size value"

text \<open>The SSE registers of \<^verbatim>\<open>BlockFindSIMD\<close> as lists of four 32 bit lanes, lane 0 first.\<close>

definition mm_set1_epi32 :: "u32 \<Rightarrow> u32 list" where
  "mm_set1_epi32 a = [a, a, a, a]"

definition mm_set_epi32 :: "u32 \<Rightarrow> u32 \<Rightarrow> u32 \<Rightarrow> u32 \<Rightarrow> u32 list" where
  "mm_set_epi32 e3 e2 e1 e0 = [e0, e1, e2, e3]"

definition mm_cmpeq_epi32 :: "u32 list \<Rightarrow> u32 list \<Rightarrow> u32 list" where
  "mm_cmpeq_epi32 a b = map2 (\<lambda>x y. if x = y then 0xFFFFFFFF else 0) a b"

text \<open>\<^verbatim>\<open>_mm_movemask_ps\<close>: bit \<open>i\<close> of the result is the sign bit of lane \<open>i\<close>.\<close>

definition mm_movemask_ps :: "u32 list \<Rightarrow> nat" where
  "mm_movemask_ps a = horner_sum of_bool 2 (map (\<lambda>x. bit x 31) a)"

fun BlockFindSIMD_loop ::
    "bitset \<Rightarrow> nat \<Rightarrow> nat \<Rightarrow> u32 list \<Rightarrow> nat \<Rightarrow> nat \<Rightarrow> (bool \<times> nat) option" where
  "BlockFindSIMD_loop bs begin block_size compare 0 shift = Some (False, shift)"
| "BlockFindSIMD_loop bs begin block_size compare (Suc t) shift = do {
     k3 \<leftarrow> BlockGet bs (begin + shift) block_size;
     k2 \<leftarrow> BlockGet bs (begin + shift + block_size) block_size;
     k1 \<leftarrow> BlockGet bs (begin + shift + block_size * 2) block_size;
     k0 \<leftarrow> BlockGet bs (begin + shift + block_size * 3) block_size;
     if mm_movemask_ps (mm_cmpeq_epi32 (mm_set_epi32 k3 k2 k1 k0) compare) \<noteq> 0 then Some (True, shift)
     else BlockFindSIMD_loop bs begin block_size compare t (shift + block_size * 4) }"

definition BlockFindSIMD :: "bitset \<Rightarrow> nat \<Rightarrow> nat \<Rightarrow> nat \<Rightarrow> u32 \<Rightarrow> PairType option" where
  "BlockFindSIMD bs begin block_size block_num value = do {
     let compare = mm_set1_epi32 value;
     (found, shift) \<leftarrow> BlockFindSIMD_loop bs begin block_size compare (block_num div 4) 0;
     if found then Some Neighbor
     else if block_num mod 4 = 0 then Some NonNeighbor
     else do {
       keys \<leftarrow> (if block_num mod 4 = 1 then do {
                   k3 \<leftarrow> BlockGet bs (begin + shift) block_size;
                   Some (mm_set_epi32 k3 0 0 0) }
                else if block_num mod 4 = 2 then do {
                   k3 \<leftarrow> BlockGet bs (begin + shift) block_size;
                   k2 \<leftarrow> BlockGet bs (begin + shift + block_size) block_size;
                   Some (mm_set_epi32 k3 k2 0 0) }
                else do {
                   k3 \<leftarrow> BlockGet bs (begin + shift) block_size;
                   k2 \<leftarrow> BlockGet bs (begin + shift + block_size) block_size;
                   k1 \<leftarrow> BlockGet bs (begin + shift + block_size * 2) block_size;
                   Some (mm_set_epi32 k3 k2 k1 0) });
       Some (if mm_movemask_ps (mm_cmpeq_epi32 keys compare) \<noteq> 0 then Neighbor else NonNeighbor) } }"

definition GetFirstBit :: "bitset \<Rightarrow> bool option" where
  "GetFirstBit bs = do { b \<leftarrow> aget (bs_data bs) 0; Some (b AND 0x80 \<noteq> 0) }"

definition GetSecondBit :: "bitset \<Rightarrow> bool option" where
  "GetSecondBit bs = do { b \<leftarrow> aget (bs_data bs) 0; Some (b AND 0x40 \<noteq> 0) }"

definition GetThridBit :: "bitset \<Rightarrow> bool option" where
  "GetThridBit bs = do { b \<leftarrow> aget (bs_data bs) 0; Some (b AND 0x20 \<noteq> 0) }"

definition GetEncodeSize :: "bitset \<Rightarrow> u32 option" where
  "GetEncodeSize bs = do { b \<leftarrow> aget (bs_data bs) 0; Some (ucast (b AND 0x1F)) }"

definition GetBitSize :: "bitset \<Rightarrow> nat" where
  "GetBitSize bs = bs_size bs"

text \<open>\<^verbatim>\<open>GetBlockNum\<close> returns a \<^verbatim>\<open>uint16_t\<close>.\<close>

definition GetBlockNum :: "nat \<Rightarrow> bitset \<Rightarrow> nat option" where
  "GetBlockNum LOG_K bs = do { v \<leftarrow> BlockGet bs 3 LOG_K; Some (unat v mod 2 ^ 16) }"

definition Reconstruct :: "bitset \<Rightarrow> bitset \<Rightarrow> bitset option" where
  "Reconstruct bs rhs = do {
     assert_that (bs_size rhs = bs_size bs);
     Some (bs\<lparr>bs_data := bs_data rhs\<rparr>) }"

declare BlockSet_loop.simps [simp del] BlockGet_loop.simps [simp del] BlockFind_loop.simps [simp del]

end
