(* ===== verification/Bit_Set_Laws.thy ===== *)
theory Bit_Set_Laws
  imports Bit_Set
begin

text \<open>
  What the operations of \<^verbatim>\<open>BitSetSIMD\<close> do to the sequence of bits. A bit set is determined by its
  size and its bits (\<open>bitset_eqI\<close>), and every operation is an update of that sequence:
  \<open>SetOne_correct\<close>, \<open>SetZero_correct\<close>, \<open>BlockSet_correct\<close> and \<open>BlockGet_correct\<close> give each
  operation's result in closed form, whatever path the byte-level code takes. The block laws
  (what is read after a write, what a write leaves alone) follow, and they are all that the encoders
  rely on.
\<close>

section \<open>A bit set as a sequence of bits\<close>

definition wf_bs :: "bitset \<Rightarrow> bool" where
  "wf_bs bs \<longleftrightarrow> length (bs_data bs) = bs_size bs"

definition bitat :: "bitset \<Rightarrow> nat \<Rightarrow> bool" where
  "bitat bs p = bit (bs_data bs ! (p div 8)) (7 - p mod 8)"

definition byte_of :: "(nat \<Rightarrow> bool) \<Rightarrow> nat \<Rightarrow> u8" where
  "byte_of f i = horner_sum of_bool 2 (map (\<lambda>k. f (8 * i + 7 - k)) [0..<8])"

definition mk_bitset :: "nat \<Rightarrow> (nat \<Rightarrow> bool) \<Rightarrow> bitset" where
  "mk_bitset n f = \<lparr>bs_size = n, bs_data = map (byte_of f) [0..<n]\<rparr>"

text \<open>The value of the \<open>n\<close> bits from position \<open>b\<close> on, most significant bit first.\<close>

definition block_val :: "bitset \<Rightarrow> nat \<Rightarrow> nat \<Rightarrow> u32" where
  "block_val bs b n = horner_sum of_bool 2 (map (\<lambda>k. bitat bs (b + n - 1 - k)) [0..<n])"

text \<open>The bit set with the block from \<open>b\<close> of length \<open>n\<close> replaced by the bits of \<open>v\<close>.\<close>

definition block_upd :: "bitset \<Rightarrow> nat \<Rightarrow> nat \<Rightarrow> u32 \<Rightarrow> bitset" where
  "block_upd bs b n v = mk_bitset (bs_size bs)
     (\<lambda>p. if b \<le> p \<and> p < b + n then bit v (b + n - 1 - p) else bitat bs p)"

text \<open>What \<^verbatim>\<open>BlockSet\<close> makes of a value of any size: the bits above the block are not masked, they are
  added to the bits in front of the block, as far as its first byte goes.\<close>

definition block_spill :: "bitset \<Rightarrow> nat \<Rightarrow> nat \<Rightarrow> u32 \<Rightarrow> bitset" where
  "block_spill bs b n v = mk_bitset (bs_size bs)
     (\<lambda>p. if b \<le> p \<and> p < b + n then bit v (b + n - 1 - p)
           else bitat bs p \<or> p < b \<and> p div 8 = b div 8 \<and> bit v (b + n - 1 - p))"

definition bit_upd :: "bitset \<Rightarrow> nat \<Rightarrow> bool \<Rightarrow> bitset" where
  "bit_upd bs q c = mk_bitset (bs_size bs) (\<lambda>p. if p = q then c else bitat bs p)"

lemma seven_minus_less [simp]: "7 - n < (8 :: nat)"
  by simp

lemma wf_bs_length [simp]: "wf_bs bs \<Longrightarrow> length (bs_data bs) = bs_size bs"
  by (simp add: wf_bs_def)

lemma wf_mk_bitset [simp]: "wf_bs (mk_bitset n f)"
  by (simp add: wf_bs_def mk_bitset_def)

lemma size_mk_bitset [simp]: "bs_size (mk_bitset n f) = n"
  by (simp add: mk_bitset_def)

lemma bit_byte_of: "bit (byte_of f i) k \<longleftrightarrow> k < 8 \<and> f (8 * i + 7 - k)"
  by (auto simp: byte_of_def bit_horner_sum_bit_word_iff)

lemma bitat_mk_bitset [simp]:
  assumes "p < 8 * n"
  shows "bitat (mk_bitset n f) p = f p"
proof -
  have "p div 8 < n" using assms by linarith
  moreover have "8 * (p div 8) + 7 - (7 - p mod 8) = p" by presburger
  ultimately show ?thesis by (simp add: bitat_def mk_bitset_def bit_byte_of)
qed

lemma bitat_byte: "t < 8 \<Longrightarrow> bitat bs (8 * i + t) = bit (bs_data bs ! i) (7 - t)"
  by (simp add: bitat_def)

lemma bitset_eqI:
  assumes "wf_bs a" "wf_bs b" "bs_size a = bs_size b"
    and "\<And>p. p < 8 * bs_size a \<Longrightarrow> bitat a p = bitat b p"
  shows "a = b"
proof -
  have "bs_data a ! i = bs_data b ! i" if "i < bs_size a" for i
  proof (rule bit_word_eqI)
    fix k :: nat assume "k < LENGTH(8)"
    then have "7 - k < 8 \<and> k = 7 - (7 - k)" by simp
    then obtain t where t: "t < 8" "k = 7 - t" by blast
    with that have "8 * i + t < 8 * bs_size a" by linarith
    from assms(4) [OF this] t show "bit (bs_data a ! i) k = bit (bs_data b ! i) k"
      by (simp add: bitat_def)
  qed
  with assms(1-3) have "bs_data a = bs_data b"
    by (intro nth_equalityI) simp_all
  with assms(3) show ?thesis by simp
qed

lemma bit_block_val [bitset_simps]:
  "bit (block_val bs b n) k \<longleftrightarrow> k < 32 \<and> k < n \<and> bitat bs (b + n - 1 - k)"
  by (auto simp: block_val_def bit_horner_sum_bit_word_iff)

lemma block_upd_simps [simp, bitset_simps]:
  "wf_bs (block_upd bs b n v)" "bs_size (block_upd bs b n v) = bs_size bs"
  by (simp_all add: block_upd_def)

lemma bitat_block_upd [simp, bitset_simps]:
  "p < 8 * bs_size bs \<Longrightarrow> bitat (block_upd bs b n v) p =
     (if b \<le> p \<and> p < b + n then bit v (b + n - 1 - p) else bitat bs p)"
  by (simp add: block_upd_def)

lemma block_spill_simps [simp]:
  "wf_bs (block_spill bs b n v)" "bs_size (block_spill bs b n v) = bs_size bs"
  by (simp_all add: block_spill_def)

lemma bitat_block_spill [simp]:
  "p < 8 * bs_size bs \<Longrightarrow> bitat (block_spill bs b n v) p =
     (if b \<le> p \<and> p < b + n then bit v (b + n - 1 - p)
      else bitat bs p \<or> p < b \<and> p div 8 = b div 8 \<and> bit v (b + n - 1 - p))"
  by (simp add: block_spill_def)

lemma bit_upd_simps [simp, bitset_simps]:
  "wf_bs (bit_upd bs q c)" "bs_size (bit_upd bs q c) = bs_size bs"
  by (simp_all add: bit_upd_def)

lemma bitat_bit_upd [simp, bitset_simps]:
  "p < 8 * bs_size bs \<Longrightarrow> bitat (bit_upd bs q c) p = (if p = q then c else bitat bs p)"
  by (simp add: bit_upd_def)

section \<open>The mask tables\<close>

lemma IS_ONE_MASK_eq: "IS_ONE_MASK = map (\<lambda>i. push_bit (7 - i) 1) [0..<8]"
  by (simp add: IS_ONE_MASK_def upt_rec)

lemma ONE_BLOCK_MASK_eq:
  "ONE_BLOCK_MASK = map (\<lambda>a. map (\<lambda>n. if a + n \<le> 8 then push_bit (8 - a - n) (mask n) else 0) [0..<9]) [0..<8]"
  by (simp add: ONE_BLOCK_MASK_def upt_rec mask_eq_exp_minus_1)

lemma ZERO_BLOCK_MASK_eq:
  "ZERO_BLOCK_MASK =
     map (\<lambda>a. map (\<lambda>n. if a + n \<le> 8 then NOT (push_bit (8 - a - n) (mask n)) else 0) [0..<9]) [0..<8]"
  by (simp add: ZERO_BLOCK_MASK_def upt_rec mask_eq_exp_minus_1)

lemma LEFT_ONE_MASK_eq: "LEFT_ONE_MASK = map mask [0..<8] @ [0]"
  by (simp add: LEFT_ONE_MASK_def upt_rec mask_eq_exp_minus_1)

lemma IS_ONE_MASK_nth: "i < 8 \<Longrightarrow> IS_ONE_MASK ! i = push_bit (7 - i) 1"
  by (simp add: IS_ONE_MASK_eq)

lemma ONE_BLOCK_MASK_bit:
  assumes "a < 8" "a + n \<le> 8"
  shows "bit (ONE_BLOCK_MASK ! a ! n) k \<longleftrightarrow> k < 8 \<and> a \<le> 7 - k \<and> 7 - k < a + n"
  using assms by (auto simp: ONE_BLOCK_MASK_eq bit_push_bit_iff bit_mask_iff)

lemma ZERO_BLOCK_MASK_bit:
  assumes "a < 8" "a + n \<le> 8"
  shows "bit (ZERO_BLOCK_MASK ! a ! n) k \<longleftrightarrow> k < 8 \<and> \<not> (a \<le> 7 - k \<and> 7 - k < a + n)"
  using assms by (auto simp: ZERO_BLOCK_MASK_eq bit_not_iff bit_push_bit_iff bit_mask_iff)

lemma LEFT_ONE_MASK_bit: "l < 8 \<Longrightarrow> bit (LEFT_ONE_MASK ! l) k \<longleftrightarrow> k < l"
  by (auto simp: LEFT_ONE_MASK_eq nth_append bit_mask_iff)

lemma mask_lengths [simp]:
  "length IS_ONE_MASK = 8" "length LEFT_ONE_MASK = 9"
  "length ONE_BLOCK_MASK = 8" "length ZERO_BLOCK_MASK = 8"
  "a < 8 \<Longrightarrow> length (ONE_BLOCK_MASK ! a) = 9" "a < 8 \<Longrightarrow> length (ZERO_BLOCK_MASK ! a) = 9"
  by (simp_all add: IS_ONE_MASK_eq LEFT_ONE_MASK_eq ONE_BLOCK_MASK_eq ZERO_BLOCK_MASK_eq)

section \<open>Single bits\<close>

lemma BitSetSIMD_simps [simp]:
  "wf_bs (BitSetSIMD n)" "bs_size (BitSetSIMD n) = n div 8"
  by (simp_all add: BitSetSIMD_def wf_bs_def)

lemma bitat_BitSetSIMD [simp]: "p < 8 * (n div 8) \<Longrightarrow> bitat (BitSetSIMD n) p = False"
  by (simp add: BitSetSIMD_def bitat_def less_mult_imp_div_less mult.commute)

lemma ClearBits_simps [simp]:
  "wf_bs bs \<Longrightarrow> wf_bs (ClearBits bs)" "bs_size (ClearBits bs) = bs_size bs"
  by (simp_all add: ClearBits_def wf_bs_def)

lemma bitat_ClearBits [simp]: "wf_bs bs \<Longrightarrow> p < 8 * bs_size bs \<Longrightarrow> bitat (ClearBits bs) p = False"
  by (simp add: ClearBits_def bitat_def less_mult_imp_div_less mult.commute)

text \<open>A bit set whose byte \<open>i\<close> alone is rewritten, seen position by position.\<close>

lemma bitat_byte_upd:
  assumes "wf_bs bs" "p < 8 * bs_size bs"
  shows "bitat (bs\<lparr>bs_data := (bs_data bs)[i := w]\<rparr>) p =
    (if p div 8 = i then bit w (7 - p mod 8) else bitat bs p)"
  using assms by (auto simp: bitat_def nth_list_update less_mult_imp_div_less mult.commute)

lemma wf_byte_upd [simp]: "wf_bs bs \<Longrightarrow> wf_bs (bs\<lparr>bs_data := (bs_data bs)[i := w]\<rparr>)"
  by (simp add: wf_bs_def)

lemma pos_eq_iff:
  assumes "p div 8 = q div (8 :: nat)"
  shows "7 - p mod 8 = 7 - q mod 8 \<longleftrightarrow> p = q"
proof -
  have "p mod 8 \<le> 7" "q mod 8 \<le> 7" by (simp_all add: less_Suc_eq_le [symmetric])
  moreover have "p = 8 * (p div 8) + p mod 8" "q = 8 * (q div 8) + q mod 8" by simp_all
  ultimately show ?thesis using assms by linarith
qed

lemma SetOne_correct [simp, bitset_simps]:
  assumes "wf_bs bs" "q < 8 * bs_size bs"
  shows "SetOne bs q = Some (bit_upd bs q True)"
proof -
  have i: "q div 8 < bs_size bs" using assms(2) by linarith
  have "bs\<lparr>bs_data := (bs_data bs)[q div 8 := bs_data bs ! (q div 8) OR push_bit (7 - q mod 8) 1]\<rparr>
      = bit_upd bs q True"
    using assms
    by (intro bitset_eqI)
      (auto simp: bitat_byte_upd bit_or_iff bit_exp_iff pos_eq_iff bitat_def [of bs])
  with assms(1) i show ?thesis by (simp add: SetOne_def)
qed

lemma SetZero_correct [simp, bitset_simps]:
  assumes "wf_bs bs" "q < 8 * bs_size bs"
  shows "SetZero bs q = Some (bit_upd bs q False)"
proof -
  have i: "q div 8 < bs_size bs" using assms(2) by linarith
  have m: "bit (0xFF XOR push_bit (7 - q mod 8) 1 :: u8) k \<longleftrightarrow> k < 8 \<and> k \<noteq> 7 - q mod 8" for k
  proof -
    have "(0xFF :: u8) = mask 8" by (simp add: mask_eq_exp_minus_1)
    then show ?thesis
      by (simp only: bit_xor_iff bit_mask_iff push_bit_of_1 bit_exp_iff) auto
  qed
  have "bs\<lparr>bs_data := (bs_data bs)[q div 8 :=
      bs_data bs ! (q div 8) AND (0xFF XOR push_bit (7 - q mod 8) 1)]\<rparr> = bit_upd bs q False"
    using assms
    by (intro bitset_eqI) (auto simp: bitat_byte_upd bit_and_iff m [simplified] pos_eq_iff bitat_def [of bs])
  with assms(1) i show ?thesis by (simp add: SetZero_def)
qed

lemma and_single_bit: "(b AND push_bit k 1 \<noteq> 0) \<longleftrightarrow> bit b k" if "k < 8" for b :: u8
proof -
  have "bit (b AND push_bit k 1) n \<longleftrightarrow> n = k \<and> bit b k" for n
    using that by (auto simp: bit_and_iff bit_exp_iff)
  then show ?thesis by (metis bit_0_eq bot_apply bot_bool_def bit_word_eqI)
qed

lemma IsOne_correct [simp, bitset_simps]:
  assumes "wf_bs bs" "q < 8 * bs_size bs"
  shows "IsOne bs q = Some (bitat bs q)"
proof -
  have "q div 8 < bs_size bs" using assms(2) by linarith
  with assms(1) show ?thesis
    by (simp add: IsOne_def bitat_def IS_ONE_MASK_nth and_single_bit [simplified])
qed

section \<open>Reading a block\<close>

text \<open>The blocks that can be read: those of at least eight bits, and the narrow ones inside one byte.\<close>

definition readable :: "nat \<Rightarrow> nat \<Rightarrow> bool" where
  "readable b n \<longleftrightarrow> 8 \<le> n \<or> b mod 8 + n \<le> 8"

lemma readable_wide [simp]: "8 \<le> n \<Longrightarrow> readable b n"
  by (simp add: readable_def)

lemma readable_aligned: "b mod 8 = 0 \<Longrightarrow> readable b n"
  by (auto simp: readable_def)

lemma readable_numeral [simp]:
  "readable (numeral p) (numeral q) \<longleftrightarrow> 8 \<le> (numeral q :: nat) \<or> numeral p mod 8 + numeral q \<le> (8 :: nat)"
  "readable 0 n"
  by (auto simp: readable_def)

text \<open>Blocks of a width that divides eight, one after the other from a byte boundary, never leave a byte.\<close>

lemma readable_dvd:
  assumes "n dvd 8" "b mod 8 = 0"
  shows "readable (b + i * n) n"
proof -
  obtain k where k: "8 = n * k" using assms(1) by blast
  then have n: "0 < n" by (cases n) auto
  have "(b + i * n) mod 8 = (i * n) mod 8" using assms(2) by (metis add.left_neutral mod_add_left_eq)
  also have "\<dots> = n * (i mod k)" unfolding k mult_mod_right by (simp only: mult.commute)
  finally have "(b + i * n) mod 8 + n = n * (i mod k + 1)" by simp
  also have "\<dots> \<le> n * k"
    using k by (intro mult_le_mono2) (metis Suc_eq_plus1 Suc_leI mod_less_divisor mult_0_right neq0_conv zero_neq_numeral)
  finally show ?thesis using k by (simp add: readable_def)
qed

text \<open>The loop of \<^const>\<open>BlockGet\<close> adds one byte after the other; the bits it adds are above those
  already there, so the sum is a union of bits.\<close>

lemma BlockGet_loop_correct:
  assumes "wf_bs bs" "j < bs_size bs" "n \<le> j + 1" "lm < 8" "8 * (n - 1) + lm < 32" "1 \<le> idx" "idx \<le> n"
    and "\<And>k. bit val k \<longleftrightarrow> k < 8 * (idx - 1) + lm + 1 \<and> bitat bs (8 * j + lm - k)"
  shows "\<exists>r. BlockGet_loop (bs_data bs) j lm idx n val = Some r \<and>
    (\<forall>k. bit r k \<longleftrightarrow> k < 8 * (n - 1) + lm + 1 \<and> bitat bs (8 * j + lm - k))"
  using assms
proof (induction "n - idx" arbitrary: idx val)
  case 0
  then have "idx = n" by simp
  with 0 show ?case by (subst BlockGet_loop.simps) auto
next
  case (Suc d)
  then have lt: "idx < n" by simp
  define s where "s = 8 * (idx - 1) + lm + 1"
  define w :: u32 where "w = push_bit s (ucast (bs_data bs ! (j - idx)))"
  have s32: "s < 32" and ji: "idx \<le> j" using lt Suc.prems by (auto simp: s_def)
  have w_bit: "bit w k \<longleftrightarrow> s \<le> k \<and> k < s + 8 \<and> bitat bs (8 * j + lm - k)" for k
  proof (cases "s \<le> k \<and> k < s + 8")
    case True
    then obtain t where t: "t < 8" "k = s + t" using le_Suc_ex by (metis nat_add_left_cancel_less)
    have pos: "8 * j + lm - k = 8 * (j - idx) + (7 - t)"
      using t ji Suc.prems(6) by (simp add: s_def)
    have "k < 32" using True lt Suc.prems(5,6) unfolding s_def by linarith
    then have "bit w k = bit (bs_data bs ! (j - idx)) t"
      using t by (simp add: w_def bit_push_bit_iff bit_ucast_iff)
    also have "\<dots> = bitat bs (8 * (j - idx) + (7 - t))"
      unfolding bitat_def using t(1) by (simp del: add_diff_assoc diff_add_assoc)
    finally show ?thesis using True pos by simp
  next
    case False
    then show ?thesis
      by (auto simp: w_def bit_push_bit_iff bit_ucast_iff dest: bit_imp_le_length)
  qed
  have add: "bit (val + w) k \<longleftrightarrow> bit val k \<or> bit w k" for k
    by (rule bit_disjunctive_add_iff) (auto simp: w_bit Suc.prems(8) s_def)
  have s8: "8 * (Suc idx - 1) + lm + 1 = s + 8"
    using Suc.prems(6) by (cases idx) (simp_all add: s_def)
  have step: "bit (val + w) k \<longleftrightarrow> k < 8 * (Suc idx - 1) + lm + 1 \<and> bitat bs (8 * j + lm - k)" for k
    unfolding add w_bit Suc.prems(8) s8 s_def [symmetric] by auto
  have eq: "BlockGet_loop (bs_data bs) j lm idx n val = BlockGet_loop (bs_data bs) j lm (Suc idx) n (val + w)"
    using lt ji s32 Suc.prems by (subst BlockGet_loop.simps) (simp add: w_def s_def)
  have "d = n - Suc idx" "1 \<le> Suc idx" "Suc idx \<le> n" using Suc.hyps(2) lt by simp_all
  from Suc.hyps(1) [OF this(1) Suc.prems(1-5) this(2,3) step] show ?case
    unfolding eq .
qed

lemma last_byte_bits:
  assumes "lm < 8"
  shows "bit (drop_bit (7 - lm) (ucast (bs_data bs ! j) :: u32)) k \<longleftrightarrow>
    k < lm + 1 \<and> bitat bs (8 * j + lm - k)"
proof (cases "k \<le> lm")
  case True
  then obtain t where lm: "lm = k + t" using le_Suc_ex by blast
  with assms have "7 - (k + t) + k = 7 - t" by simp
  moreover have "7 - t < 32" by simp
  ultimately show ?thesis using lm assms bitat_byte [of t bs j]
    by (simp add: bit_drop_bit_eq bit_ucast_iff)
next
  case False
  then show ?thesis using assms
    by (auto simp: bit_drop_bit_eq bit_ucast_iff dest: bit_imp_le_length)
qed

lemma BlockGet_one_byte:
  assumes "wf_bs bs" "8 * i + a + n \<le> 8 * bs_size bs" "0 < n" "a + n \<le> 8"
  shows "BlockGet bs (8 * i + a) n = Some (block_val bs (8 * i + a) n)"
proof -
  have last_pos: "8 * i + a + n - 1 = 8 * i + (a + n - 1)" "a + n - 1 < 8" "a < 8"
    using assms(3,4) by simp_all
  have "drop_bit (7 - (a + n - 1)) (ucast (bs_data bs ! i AND ONE_BLOCK_MASK ! a ! n) :: u32)
      = block_val bs (8 * i + a) n"
  proof (rule bit_word_eqI)
    fix k :: nat
    show "bit (drop_bit (7 - (a + n - 1)) (ucast (bs_data bs ! i AND ONE_BLOCK_MASK ! a ! n) :: u32)) k
      = bit (block_val bs (8 * i + a) n) k"
    proof (cases "k < n")
      case True
      then have "8 * i + a + n - 1 - k = 8 * i + (a + n - 1 - k)" "a + n - 1 - k < 8"
        "7 - (a + n - 1) + k = 7 - (a + n - 1 - k)" using assms(3,4) by simp_all
      with True assms(3,4) last_pos bitat_byte [of "a + n - 1 - k" bs i] show ?thesis
        by (auto simp: bit_block_val bit_drop_bit_eq bit_ucast_iff bit_and_iff ONE_BLOCK_MASK_bit)
    next
      case False
      then show ?thesis using assms(3,4) last_pos
        by (auto simp: bit_block_val bit_drop_bit_eq bit_ucast_iff bit_and_iff ONE_BLOCK_MASK_bit)
    qed
  qed
  moreover have "i < bs_size bs" using assms(2,3) by linarith
  moreover have "(8 * i + a + n - 1) div 8 = i" "(8 * i + a + n - 1) mod 8 = a + n - 1"
    unfolding last_pos(1) using last_pos(2) by simp_all
  ultimately show ?thesis using assms last_pos(2,3) unfolding BlockGet_def Let_def by simp
qed

lemma BlockGet_many_bytes:
  assumes "wf_bs bs" "a < 8" "lm < 8" "i < j" "8 * j + lm + 1 = 8 * i + a + n" "j < bs_size bs" "n \<le> 32"
    "8 \<le> n"
  shows "BlockGet bs (8 * i + a) n = Some (block_val bs (8 * i + a) n)"
proof -
  define val0 :: u32 where "val0 = drop_bit (7 - lm) (ucast (bs_data bs ! j))"
  define s where "s = 8 * (j - i - 1) + lm + 1"
  have s: "n - 8 + a = s" "s < 32" "8 \<le> n" using assms by (simp_all add: s_def)
  have "8 * (j - i - 1) + lm < 32" "j - i \<le> j + 1" "1 \<le> j - i" using assms by simp_all
  from BlockGet_loop_correct [OF assms(1,6) this(2) assms(3) this(1) _ this(3), of val0]
  obtain r where r: "BlockGet_loop (bs_data bs) j lm 1 (j - i) val0 = Some r"
    "\<And>k. bit r k \<longleftrightarrow> k < s \<and> bitat bs (8 * j + lm - k)"
    using assms(3) by (auto simp: val0_def last_byte_bits s_def)
  define w :: u32 where "w = push_bit s (ucast (bs_data bs ! i AND ONE_BLOCK_MASK ! a ! (8 - a)))"
  have w_bit: "bit w k \<longleftrightarrow> s \<le> k \<and> k < n \<and> bitat bs (8 * j + lm - k)" for k
  proof (cases "s \<le> k \<and> k < n")
    case True
    then obtain t where t: "k = s + t" using le_Suc_ex by blast
    with True s have ta: "t < 8 - a" by simp
    have "8 * j + lm - k = 8 * i + (7 - t)" using t ta assms by (simp add: s_def)
    moreover have "k < 32" using True assms(7) by simp
    ultimately show ?thesis using True t ta assms(2) bitat_byte [of "7 - t" bs i]
      by (auto simp: w_def bit_push_bit_iff bit_ucast_iff bit_and_iff ONE_BLOCK_MASK_bit)
  next
    case False
    then show ?thesis using s assms(2)
      by (auto simp: w_def bit_push_bit_iff bit_ucast_iff bit_and_iff ONE_BLOCK_MASK_bit)
  qed
  have "r + w = block_val bs (8 * i + a) n"
  proof (rule bit_word_eqI)
    fix k :: nat assume "k < LENGTH(32)"
    have "bit (r + w) k \<longleftrightarrow> bit r k \<or> bit w k"
      by (rule bit_disjunctive_add_iff) (auto simp: w_bit r(2))
    moreover have "8 * i + a + n - 1 - k = 8 * j + lm - k" using assms(5) by simp
    ultimately show "bit (r + w) k = bit (block_val bs (8 * i + a) n) k"
      using s \<open>k < LENGTH(32)\<close> assms(2) by (auto simp: bit_block_val w_bit r(2))
  qed
  moreover have "8 * i + a + n - 1 = 8 * j + lm" using assms(5) by simp
  then have "wsub64 (8 * i + a + n) 1 div 8 = j" "wsub64 (8 * i + a + n) 1 mod 8 = lm"
    using assms(3,5) by simp_all
  ultimately show ?thesis using assms(1-4,6) r(1) s unfolding BlockGet_def Let_def
    by (simp add: val0_def w_def)
qed

theorem BlockGet_correct [simp, bitset_simps]:
  assumes "wf_bs bs" "b + n \<le> 8 * bs_size bs" "0 < n" "n \<le> 32" "readable b n"
  shows "BlockGet bs b n = Some (block_val bs b n)"
proof -
  define i a j lm where "i = b div 8" "a = b mod 8" "j = (b + n - 1) div 8" "lm = (b + n - 1) mod 8"
  note d = this
  have b: "b = 8 * i + a" "a < 8" and e: "8 * j + lm + 1 = b + n" "lm < 8"
    using assms(3) by (simp_all add: d)
  have "i \<le> j" using assms(3) by (simp add: d div_le_mono)
  show ?thesis
  proof (cases "i = j")
    case True
    then have "a + n \<le> 8" using b e by linarith
    with BlockGet_one_byte [of bs i a n] assms b show ?thesis by simp
  next
    case False
    have "8 \<le> n" using assms(5) b e False \<open>i \<le> j\<close> unfolding readable_def d [symmetric] by linarith
    moreover have "j < bs_size bs" using e assms(2) by linarith
    ultimately show ?thesis
      using BlockGet_many_bytes [of bs a lm i j n] False assms b e \<open>i \<le> j\<close> by simp
  qed
qed

text \<open>The other blocks are not read: the last shift is undefined.\<close>

theorem BlockGet_straddling:
  assumes "\<not> readable b n"
  shows "BlockGet bs b n = None"
proof -
  have n: "n < 8" "8 < b mod 8 + n" using assms by (auto simp: readable_def)
  then have "wsub32 n 8 + b mod 8 \<ge> 2 ^ 32" by (simp add: wsub_def)
  then have "shl32 x (wsub32 n 8 + b mod 8) = None" for x by (simp add: shl32_def)
  moreover have "b div 8 \<noteq> wsub64 (b + n) 1 div 8"
  proof -
    have "b = 8 * (b div 8) + b mod 8" by simp
    then have "8 * (b div 8 + 1) \<le> b + n - 1" using n by presburger
    then have "b div 8 + 1 \<le> (b + n - 1) div 8" by (simp add: less_eq_div_iff_mult_less_eq mult.commute)
    moreover have "wsub64 (b + n) 1 = b + n - 1" using n by simp
    ultimately show ?thesis by simp
  qed
  ultimately show ?thesis by (simp add: BlockGet_def Let_def split: bind_split)
qed

text \<open>So a block that is read has its value.\<close>

corollary BlockGet_SomeD:
  assumes "BlockGet bs b n = Some v" "wf_bs bs" "b + n \<le> 8 * bs_size bs" "0 < n" "n \<le> 32"
  shows "readable b n" "v = block_val bs b n"
proof -
  from BlockGet_straddling assms(1) show r: "readable b n" by fastforce
  with BlockGet_correct [OF assms(2-5)] assms(1) show "v = block_val bs b n" by simp
qed

section \<open>Writing a block\<close>

text \<open>The loop of \<^const>\<open>BlockSet\<close> fills the bytes strictly between the first and the last one.\<close>

lemma BlockSet_loop_correct:
  assumes "a < 8" "i < e" "e \<le> length data" "r = 8 * (e - i) - a"
  shows "\<exists>data'. BlockSet_loop data e r val = Some (data', 8 - a, drop_bit (8 * (e - 1 - i)) val) \<and>
    length data' = length data \<and>
    (\<forall>x. data' ! x = (if i < x \<and> x < e then ucast (drop_bit (8 * (e - 1 - x)) val) else data ! x))"
  using assms
proof (induction "e - i" arbitrary: e r data val)
  case 0
  then show ?case by simp
next
  case (Suc d)
  show ?case
  proof (cases "e = Suc i")
    case True
    with Suc.prems show ?thesis by (subst BlockSet_loop.simps) auto
  next
    case False
    with Suc.prems have e: "Suc i < e" by simp
    define data1 where "data1 = data[e - 1 := ucast val]"
    have r8: "r > 8" using e Suc.prems(1,4) by simp
    have "d = e - 1 - i" "i < e - 1" "e - 1 \<le> length data1" "r - 8 = 8 * (e - 1 - i) - a"
      using Suc.hyps(2) e Suc.prems by (simp_all add: data1_def)
    from Suc.hyps(1) [OF this(1) Suc.prems(1) this(2-4), of "drop_bit 8 val"]
    obtain data' where d: "BlockSet_loop data1 (e - 1) (r - 8) (drop_bit 8 val) =
        Some (data', 8 - a, drop_bit (8 * (e - 1 - 1 - i)) (drop_bit 8 val))"
      "length data' = length data1"
      "\<And>x. data' ! x = (if i < x \<and> x < e - 1
         then ucast (drop_bit (8 * (e - 1 - 1 - x)) (drop_bit 8 val)) else data1 ! x)" by blast
    have sh: "8 * (e - 1 - 1 - x) + 8 = 8 * (e - 1 - x)" if "x < e - 1" for x using that by simp
    have "BlockSet_loop data e r val = BlockSet_loop data1 (e - 1) (r - 8) (drop_bit 8 val)"
      using r8 e Suc.prems(3) by (subst BlockSet_loop.simps) (simp add: data1_def Let_def)
    moreover have "drop_bit (8 * (e - 1 - 1 - i)) (drop_bit 8 val) = drop_bit (8 * (e - 1 - i)) val"
      using sh [of i] e by (simp add: drop_bit_drop_bit)
    moreover have "data' ! x = (if i < x \<and> x < e then ucast (drop_bit (8 * (e - 1 - x)) val) else data ! x)" for x
    proof -
      consider "x < e - 1" | "x = e - 1" | "e \<le> x" by linarith
      then show ?thesis
      proof cases
        case 1
        with sh [of x] show ?thesis unfolding d(3) by (auto simp: data1_def drop_bit_drop_bit)
      next
        case 2
        with e Suc.prems(3) show ?thesis unfolding d(3) by (auto simp: data1_def)
      next
        case 3
        with e show ?thesis unfolding d(3) by (auto simp: data1_def)
      qed
    qed
    ultimately show ?thesis using d(1,2) by (intro exI [of _ data']) (simp add: data1_def)
  qed
qed

lemma BlockSet_one_byte:
  assumes "wf_bs bs" "8 * i + a + n \<le> 8 * bs_size bs" "0 < n" "a + n \<le> 8" "i < 256"
  shows "BlockSet bs (8 * i + a) n v = Some (block_spill bs (8 * i + a) n v)"
proof -
  define w where "w = (bs_data bs ! i AND ZERO_BLOCK_MASK ! a ! n) OR ucast (push_bit (8 - (a + n)) v)"
  have w_bit: "bit w (7 - t) \<longleftrightarrow> (if a \<le> t \<and> t < a + n then bit v (a + n - 1 - t)
      else bit (bs_data bs ! i) (7 - t) \<or> t < a \<and> bit v (a + n - 1 - t))" if "t < 8" for t
  proof -
    have "7 - t - (8 - (a + n)) = a + n - 1 - t" using assms(4) by simp
    then show ?thesis using that assms(3,4)
      by (auto simp: w_def bit_or_iff bit_and_iff ZERO_BLOCK_MASK_bit bit_ucast_iff bit_push_bit_iff)
  qed
  have i: "i < bs_size bs" using assms(2,3) by linarith
  have "bs\<lparr>bs_data := (bs_data bs)[i := w]\<rparr> = block_spill bs (8 * i + a) n v"
  proof (rule bitset_eqI)
    fix p assume "p < 8 * bs_size (bs\<lparr>bs_data := (bs_data bs)[i := w]\<rparr>)"
    then have p: "p < 8 * bs_size bs" by simp
    obtain x t where pt: "p = 8 * x + t" "t < 8" by (metis mod_less_divisor mult_div_mod_eq zero_less_numeral)
    show "bitat (bs\<lparr>bs_data := (bs_data bs)[i := w]\<rparr>) p = bitat (block_spill bs (8 * i + a) n v) p"
    proof (cases "x = i")
      case True
      have "a < 8" using assms(3,4) by simp
      with True pt p w_bit [of t] assms(1) show ?thesis
        by (auto simp: bitat_byte_upd bitat_byte [of t bs i])
    next
      case False
      then have "\<not> (8 * i + a \<le> p \<and> p < 8 * i + a + n)" using pt assms(4) by linarith
      moreover have "p div 8 \<noteq> i" "(8 * i + a) div 8 = i" using False pt assms(3,4) by simp_all
      ultimately show ?thesis using p assms(1) by (simp only: bitat_byte_upd bitat_block_spill if_False simp_thms)
    qed
  qed (use assms(1) in simp_all)
  moreover have "(8 * i + a + n - 1) div 8 = i" "(8 * i + a + n - 1) mod 8 = a + n - 1" "a < 8"
  proof -
    have "8 * i + a + n - 1 = 8 * i + (a + n - 1)" "a + n - 1 < 8" using assms(3,4) by simp_all
    then show "(8 * i + a + n - 1) div 8 = i" "(8 * i + a + n - 1) mod 8 = a + n - 1" by simp_all
    show "a < 8" using assms(3,4) by simp
  qed
  moreover have "7 - (a + n - 1) = 8 - (a + n)" using assms(3) by simp
  ultimately show ?thesis using assms i unfolding BlockSet_def Let_def w_def by simp
qed

lemma BlockSet_many_bytes:
  assumes "wf_bs bs" "a < 8" "lm < 8" "i < j" "8 * j + lm + 1 = 8 * i + a + n" "j < bs_size bs"
    "n \<le> 32" "i < 256"
  shows "BlockSet bs (8 * i + a) n v = Some (block_spill bs (8 * i + a) n v)"
proof -
  define w where "w = (bs_data bs ! j AND LEFT_ONE_MASK ! (7 - lm)) OR ucast (push_bit (7 - lm) v)"
  define data1 where "data1 = (bs_data bs)[j := w]"
  define v1 where "v1 = drop_bit (lm + 1) v"
  define r where "r = n - (lm + 1)"
  have len1: "j \<le> length data1" and r: "r = 8 * (j - i) - a" "lm + 1 \<le> n"
    using assms by (simp_all add: data1_def r_def)
  obtain data2 where d2: "BlockSet_loop data1 j r v1 = Some (data2, 8 - a, drop_bit (8 * (j - 1 - i)) v1)"
    "length data2 = length data1"
    "\<And>x. data2 ! x = (if i < x \<and> x < j then ucast (drop_bit (8 * (j - 1 - x)) v1) else data1 ! x)"
    using BlockSet_loop_correct [OF assms(2,4) len1 r(1), of v1] by blast
  define z where "z = (data2 ! i AND ZERO_BLOCK_MASK ! a ! (8 - a)) OR ucast (drop_bit (8 * (j - 1 - i)) v1)"
  define bs' where "bs' = bs\<lparr>bs_data := data2[i := z]\<rparr>"
  have len2: "length data2 = bs_size bs" using d2(2) assms(1) by (simp add: data1_def)
  have data2_i: "data2 ! i = bs_data bs ! i" using assms(4) by (simp add: d2(3) data1_def)
  have w_bit: "bit w (7 - t) \<longleftrightarrow> (if t \<le> lm then bit v (lm - t) else bit (bs_data bs ! j) (7 - t))"
    if "t < 8" for t
    using that assms(3)
    by (auto simp: w_def bit_or_iff bit_and_iff LEFT_ONE_MASK_bit bit_ucast_iff bit_push_bit_iff)
  have v1_bit: "bit (ucast (drop_bit (8 * (j - 1 - x)) v1) :: u8) (7 - t) \<longleftrightarrow> bit v (8 * j + lm - (8 * x + t))"
    if "x < j" "t < 8" for x t
  proof -
    have "(lm + 1) + (8 * (j - 1 - x) + (7 - t)) = 8 * j + lm - (8 * x + t)" using that by simp
    moreover have "7 - t < LENGTH(8)" by simp
    ultimately show ?thesis unfolding v1_def bit_ucast_iff bit_drop_bit_eq comp_def by metis
  qed
  have z_bit: "bit z (7 - t) \<longleftrightarrow> (if a \<le> t then bit v (8 * j + lm - (8 * i + t))
      else bit (bs_data bs ! i) (7 - t) \<or> bit v (8 * j + lm - (8 * i + t)))" if "t < 8" for t
    using that assms(2,4) v1_bit [of i t]
    by (auto simp: z_def bit_or_iff bit_and_iff ZERO_BLOCK_MASK_bit data2_i)
  have "bs' = block_spill bs (8 * i + a) n v"
  proof (rule bitset_eqI)
    fix p assume "p < 8 * bs_size bs'"
    then have p: "p < 8 * bs_size bs" by (simp add: bs'_def)
    obtain x t where pt: "p = 8 * x + t" "t < 8" by (metis mod_less_divisor mult_div_mod_eq zero_less_numeral)
    have x: "x < bs_size bs" using p pt by linarith
    have old: "bitat bs p = bit (bs_data bs ! x) (7 - t)" using pt bitat_byte by simp
    have new: "bitat bs' p = bit (data2[i := z] ! x) (7 - t)" using pt by (simp add: bs'_def bitat_def)
    have idx: "8 * i + a + n - 1 - p = 8 * j + lm - (8 * x + t)" using pt assms(5) by simp
    consider "x < i" | "x = i" | "i < x" "x < j" | "x = j" | "j < x" by linarith
    then have "bitat bs' p = (if 8 * i + a \<le> p \<and> p < 8 * i + a + n
      then bit v (8 * j + lm - (8 * x + t))
      else bitat bs p \<or> p < 8 * i + a \<and> x = i \<and> bit v (8 * j + lm - (8 * x + t)))"
    proof cases
      case 1
      then have "\<not> 8 * i + a \<le> p" using pt by linarith
      moreover have "data2[i := z] ! x = bs_data bs ! x" using 1 assms(4) by (simp add: d2(3) data1_def)
      ultimately show ?thesis using 1 by (simp add: new old)
    next
      case 2
      then have "8 * i + a \<le> p \<and> p < 8 * i + a + n \<longleftrightarrow> a \<le> t" "p < 8 * i + a \<longleftrightarrow> \<not> a \<le> t" using pt assms by linarith+
      with 2 pt(2) x len2 z_bit show ?thesis unfolding new old by simp
    next
      case 3
      then have "8 * i + a \<le> p \<and> p < 8 * i + a + n" using pt assms by linarith
      moreover have "data2[i := z] ! x = ucast (drop_bit (8 * (j - 1 - x)) v1)" using 3 d2(3) by simp
      ultimately show ?thesis using 3(2) pt(2) v1_bit unfolding new by simp
    next
      case 4
      then have "8 * i + a \<le> p \<and> p < 8 * i + a + n \<longleftrightarrow> t \<le> lm" using pt assms by linarith
      moreover have "data2[i := z] ! x = w" using 4 assms(1,4,6) by (simp add: d2(3) data1_def)
      moreover have "8 * j + lm - (8 * x + t) = lm - t" using 4 by simp
      ultimately show ?thesis using 4 pt(2) w_bit assms(4) unfolding new old by simp
    next
      case 5
      then have "\<not> p < 8 * i + a + n" using pt assms by linarith
      moreover have "data2[i := z] ! x = bs_data bs ! x" using 5 assms(4) by (simp add: d2(3) data1_def)
      ultimately show ?thesis using 5 assms(4) by (simp add: new old)
    qed
    moreover have "p div 8 = x" "(8 * i + a) div 8 = i" using pt assms(2) by simp_all
    ultimately show "bitat bs' p = bitat (block_spill bs (8 * i + a) n v) p"
      using p idx by (simp only: bitat_block_spill)
  qed (use len2 in \<open>simp_all add: bs'_def wf_bs_def [of "bs\<lparr>bs_data := _\<rparr>"]\<close>)
  moreover have "(8 * i + a + n - 1) div 8 = j" "(8 * i + a + n - 1) mod 8 = lm"
  proof -
    have "8 * i + a + n - 1 = 8 * j + lm" using assms(5) by simp
    then show "(8 * i + a + n - 1) div 8 = j" "(8 * i + a + n - 1) mod 8 = lm" using assms(3) by simp_all
  qed
  moreover have "8 - (7 - lm) = lm + 1" "i < bs_size bs" using assms(3,4,6) by simp_all
  ultimately show ?thesis using assms(1-8) d2(1) len2 r(2)
    unfolding BlockSet_def Let_def w_def [symmetric] bs'_def
    by (simp add: w_def [symmetric] data1_def [symmetric] v1_def [symmetric, simplified]
      r_def [symmetric, simplified] z_def [symmetric, simplified])
qed

theorem BlockSet_spill:
  assumes "wf_bs bs" "b + n \<le> 8 * bs_size bs" "0 < n" "n \<le> 32" "b < 2048"
  shows "BlockSet bs b n v = Some (block_spill bs b n v)"
proof -
  define i a j lm where "i = b div 8" "a = b mod 8" "j = (b + n - 1) div 8" "lm = (b + n - 1) mod 8"
  note d = this
  have b: "b = 8 * i + a" "a < 8" "i < 256" and e: "8 * j + lm + 1 = b + n" "lm < 8"
    using assms(3,5) by (simp_all add: d)
  have "i \<le> j" using assms(3) by (simp add: d div_le_mono)
  show ?thesis
  proof (cases "i = j")
    case True
    then have "a + n \<le> 8" using b e by linarith
    with BlockSet_one_byte [of bs i a n v] assms b show ?thesis by simp
  next
    case False
    moreover have "j < bs_size bs" using e assms(2) by linarith
    ultimately show ?thesis
      using BlockSet_many_bytes [of bs a lm i j n v] assms b e \<open>i \<le> j\<close> by simp
  qed
qed

text \<open>A value that fits the block is written to the block and nowhere else.\<close>

lemma block_spill_fits:
  assumes "unat v < 2 ^ n"
  shows "block_spill bs b n v = block_upd bs b n v"
proof (rule bitset_eqI)
  fix p assume "p < 8 * bs_size (block_spill bs b n v)"
  moreover have "\<not> bit v (b + n - 1 - p)" if "p < b"
    using that by (intro bit_u32_lt_two_power [OF assms]) simp
  ultimately show "bitat (block_spill bs b n v) p = bitat (block_upd bs b n v) p" by auto
qed simp_all

theorem BlockSet_correct [simp, bitset_simps]:
  assumes "wf_bs bs" "b + n \<le> 8 * bs_size bs" "0 < n" "n \<le> 32" "b < 2048" "unat v < 2 ^ n"
  shows "BlockSet bs b n v = Some (block_upd bs b n v)"
  using BlockSet_spill [OF assms(1-5)] by (simp add: block_spill_fits [OF assms(6)])

section \<open>Laws of blocks\<close>

lemma block_val_lt [simp]: "unat (block_val bs b n) < 2 ^ n"
  by (rule u32_ltI_bits) (simp add: bit_block_val)

lemma block_val_upd_same [simp, bitset_simps]:
  assumes "b + n \<le> 8 * bs_size bs" "n \<le> 32" "unat v < 2 ^ n"
  shows "block_val (block_upd bs b n v) b n = v"
proof (rule bit_word_eqI)
  fix k :: nat assume "k < LENGTH(32)"
  then show "bit (block_val (block_upd bs b n v) b n) k = bit v k"
    using assms bit_u32_lt_two_power [OF assms(3), of k] by (cases "k < n") (auto simp: bit_block_val)
qed

text \<open>A change of the bits outside a block leaves the value of the block.\<close>

lemma block_val_cong:
  assumes "\<And>p. b \<le> p \<Longrightarrow> p < b + n \<Longrightarrow> bitat bs p = bitat bs' p"
  shows "block_val bs b n = block_val bs' b n"
proof (rule bit_word_eqI)
  fix k :: nat
  show "bit (block_val bs b n) k = bit (block_val bs' b n) k"
    using assms [of "b + n - 1 - k"] by (auto simp: bit_block_val)
qed

lemma block_val_upd_other [simp, bitset_simps]:
  assumes "q + m \<le> b \<or> b + n \<le> q" "q + m \<le> 8 * bs_size bs"
  shows "block_val (block_upd bs b n v) q m = block_val bs q m"
  by (rule block_val_cong) (use assms in auto)

lemma block_val_bit_upd [simp, bitset_simps]:
  assumes "q < b \<or> b + n \<le> q" "b + n \<le> 8 * bs_size bs"
  shows "block_val (bit_upd bs q c) b n = block_val bs b n"
  by (rule block_val_cong) (use assms in auto)

lemma block_val_bound: "unat x < 2 ^ n \<Longrightarrow> n \<le> m \<Longrightarrow> unat x < 2 ^ m"
  by (meson less_le_trans one_le_numeral power_increasing)

section \<open>Searching a sequence of blocks\<close>

definition blocks_val :: "bitset \<Rightarrow> nat \<Rightarrow> nat \<Rightarrow> nat \<Rightarrow> u32 list" where
  "blocks_val bs b n k = map (\<lambda>i. block_val bs (b + i * n) n) [0..<k]"

lemma length_blocks_val [simp]: "length (blocks_val bs b n k) = k"
  by (simp add: blocks_val_def)

lemma nth_blocks_val [simp]: "i < k \<Longrightarrow> blocks_val bs b n k ! i = block_val bs (b + i * n) n"
  by (simp add: blocks_val_def)

lemma blocks_val_0 [simp]: "blocks_val bs b n 0 = []"
  by (simp add: blocks_val_def)

lemma blocks_val_Suc: "blocks_val bs b n (Suc k) = block_val bs b n # blocks_val bs (b + n) n k"
  by (rule nth_equalityI) (auto simp: nth_Cons algebra_simps split: nat.split)

lemma blocks_val_add: "blocks_val bs b n (j + k) = blocks_val bs b n j @ blocks_val bs (b + j * n) n k"
  by (rule nth_equalityI) (auto simp: nth_append algebra_simps)

lemma blocks_val_few:
  "blocks_val bs b n (Suc 0) = [block_val bs b n]"
  "blocks_val bs b n 2 = [block_val bs b n, block_val bs (b + n) n]"
  "blocks_val bs b n 3 = [block_val bs b n, block_val bs (b + n) n, block_val bs (b + n * 2) n]"
  "blocks_val bs b n 4 = [block_val bs b n, block_val bs (b + n) n, block_val bs (b + n * 2) n,
     block_val bs (b + n * 3) n]"
  by (simp_all add: eval_nat_numeral blocks_val_Suc ac_simps)

text \<open>A sequence of blocks that can all be read.\<close>

definition readables :: "nat \<Rightarrow> nat \<Rightarrow> nat \<Rightarrow> bool" where
  "readables b n k \<longleftrightarrow> (\<forall>i < k. readable (b + i * n) n)"

lemma readables_wide [simp]: "8 \<le> n \<Longrightarrow> readables b n k"
  by (simp add: readables_def)

lemma readables_0 [simp]: "readables b n 0"
  by (simp add: readables_def)

lemma readables_Suc: "readables b n (Suc k) \<longleftrightarrow> readable b n \<and> readables (b + n) n k"
  unfolding readables_def by (auto simp: All_less_Suc2 algebra_simps)

lemma readables_add: "readables b n (j + k) \<longleftrightarrow> readables b n j \<and> readables (b + j * n) n k"
  by (induction j arbitrary: b) (simp_all add: readables_Suc algebra_simps)

lemma readables_few:
  "readables b n (Suc 0) \<longleftrightarrow> readable b n"
  "readables b n 2 \<longleftrightarrow> readable b n \<and> readable (b + n) n"
  "readables b n 3 \<longleftrightarrow> readable b n \<and> readable (b + n) n \<and> readable (b + n * 2) n"
  "readables b n 4 \<longleftrightarrow> readable b n \<and> readable (b + n) n \<and> readable (b + n * 2) n \<and> readable (b + n * 3) n"
  by (simp_all add: eval_nat_numeral readables_Suc ac_simps)

lemma BlockFind_loop_correct:
  assumes "wf_bs bs" "i + n * k \<le> 8 * bs_size bs" "0 < n" "n \<le> 32" "readables i n k"
  shows "BlockFind_loop bs i (n * k + i) n v =
    Some (if scan (blocks_val bs i n k) v then Neighbor else NonNeighbor)"
  using assms(2,5)
proof (induction k arbitrary: i)
  case 0
  then show ?case by (subst BlockFind_loop.simps) simp
next
  case (Suc k)
  have get: "BlockGet bs i n = Some (block_val bs i n)"
    using assms(1,3,4) Suc.prems by (intro BlockGet_correct) (simp_all add: readables_Suc)
  have "BlockFind_loop bs (i + n) (n * k + (i + n)) n v =
      Some (if scan (blocks_val bs (i + n) n k) v then Neighbor else NonNeighbor)"
    by (rule Suc.IH) (use Suc.prems in \<open>simp_all add: algebra_simps readables_Suc\<close>)
  moreover have "n * Suc k + i = n * k + (i + n)" by simp
  ultimately show ?case using assms(3) get
    by (subst BlockFind_loop.simps) (simp add: blocks_val_Suc ac_simps)
qed

lemma BlockFind_eq_scan [simp, bitset_simps]:
  assumes "wf_bs bs" "b + n * k \<le> 8 * bs_size bs" "0 < n" "n \<le> 32" "readables b n k"
  shows "BlockFind bs b n k v = Some (if scan (blocks_val bs b n k) v then Neighbor else NonNeighbor)"
  using BlockFind_loop_correct [OF assms] by (simp add: BlockFind_def)

text \<open>The vector search compares four blocks at a time and knows no order.\<close>

lemma movemask_cmpeq:
  "mm_movemask_ps (mm_cmpeq_epi32 (mm_set_epi32 k3 k2 k1 k0) (mm_set1_epi32 v)) = 0 \<longleftrightarrow> v \<notin> {k0, k1, k2, k3}"
proof -
  have "(0xFFFFFFFF :: u32) = mask 32" by (simp add: mask_eq_exp_minus_1)
  then have b: "bit (0xFFFFFFFF :: u32) 31" by (simp only: bit_mask_iff) simp
  show ?thesis
    by (simp add: mm_movemask_ps_def mm_cmpeq_epi32_def mm_set_epi32_def mm_set1_epi32_def b)
qed

lemma BlockFindSIMD_loop_correct:
  assumes "wf_bs bs" "0 < n" "n \<le> 32" "b + s + n * (4 * t) \<le> 8 * bs_size bs" "readables (b + s) n (4 * t)"
  shows "\<exists>s'. BlockFindSIMD_loop bs b n (mm_set1_epi32 v) t s =
    Some (v \<in> set (blocks_val bs (b + s) n (4 * t)), s') \<and>
    (v \<notin> set (blocks_val bs (b + s) n (4 * t)) \<longrightarrow> s' = s + n * (4 * t))"
  using assms(4,5)
proof (induction t arbitrary: s)
  case 0
  then show ?case by simp
next
  case (Suc t)
  have four: "4 * Suc t = 4 + 4 * t" by simp
  have blocks: "blocks_val bs (b + s) n (4 * Suc t) =
    [block_val bs (b + s) n, block_val bs (b + s + n) n, block_val bs (b + s + n * 2) n,
     block_val bs (b + s + n * 3) n] @ blocks_val bs (b + (s + n * 4)) n (4 * t)"
    unfolding four blocks_val_add blocks_val_few by (simp add: ac_simps)
  have "b + (s + n * 4) + n * (4 * t) \<le> 8 * bs_size bs"
    using Suc.prems by (simp add: algebra_simps)
  moreover have rd: "readable (b + s) n" "readable (b + s + n) n" "readable (b + s + n * 2) n" "readable (b + s + n * 3) n"
    "readables (b + (s + n * 4)) n (4 * t)"
    using Suc.prems(2) unfolding four readables_add readables_few by (simp_all add: ac_simps)
  ultimately show ?case using Suc.IH [of "s + n * 4"] assms(1-3) Suc.prems
    unfolding blocks BlockFindSIMD_loop.simps by (auto simp del: neq0_conv simp: movemask_cmpeq algebra_simps)
qed

lemma BlockFindSIMD_eq_mem [simp, bitset_simps]:
  assumes "wf_bs bs" "b + n * k \<le> 8 * bs_size bs" "0 < n" "n \<le> 32" "v \<noteq> 0" "readables b n k"
  shows "BlockFindSIMD bs b n k v =
    Some (if v \<in> set (blocks_val bs b n k) then Neighbor else NonNeighbor)"
proof -
  define r where "r = k mod 4"
  define p where "p = b + n * (4 * (k div 4))"
  have "k = 4 * (k div 4) + r" by (simp add: r_def)
  then have nk: "n * k = n * (4 * (k div 4)) + n * r" by (metis distrib_left)
  have blocks: "blocks_val bs b n k = blocks_val bs b n (4 * (k div 4)) @ blocks_val bs p n r"
    using blocks_val_add [of bs b n "4 * (k div 4)" r] by (simp add: p_def r_def mult.commute mult.left_commute)
  have rd: "readables b n (4 * (k div 4))" "readables p n r"
    using assms(6) readables_add [of b n "4 * (k div 4)" r] by (simp_all add: p_def r_def mult.commute mult.left_commute)
  obtain s where s: "BlockFindSIMD_loop bs b n (mm_set1_epi32 v) (k div 4) 0 =
      Some (v \<in> set (blocks_val bs b n (4 * (k div 4))), s)"
    "v \<notin> set (blocks_val bs b n (4 * (k div 4))) \<longrightarrow> b + s = p"
    using BlockFindSIMD_loop_correct [of bs n b 0 "k div 4" v] assms(1-4) nk rd(1) by (auto simp: p_def)
  have room: "p + n * r \<le> 8 * bs_size bs" using assms(2) nk by (simp add: p_def)
  have "r < 4" by (simp add: r_def)
  then consider "r = 0" | "r = Suc 0" | "r = 2" | "r = 3" by linarith
  then have tail: "BlockFindSIMD bs b n k v =
      Some (if v \<in> set (blocks_val bs p n r) then Neighbor else NonNeighbor)"
    if "v \<notin> set (blocks_val bs b n (4 * (k div 4)))"
    using s that assms(1,3-5) room rd(2) unfolding BlockFindSIMD_def r_def [symmetric]
    by cases (simp_all del: neq0_conv add: movemask_cmpeq blocks_val_few readables_few)
  then show ?thesis using s(1) unfolding blocks
    by (cases "v \<in> set (blocks_val bs b n (4 * (k div 4)))")
      (simp_all add: BlockFindSIMD_def r_def [symmetric])
qed

end
