(* ===== verification/Bit_Set_Words.thy ===== *)
theory Bit_Set_Words
  imports Bit_Set_Laws
begin

text \<open>
  Whole-array transfers of \<^verbatim>\<open>BitSetSIMD\<close>: \<^verbatim>\<open>Dump\<close> writes the array as big endian 32 bit words,
  \<^verbatim>\<open>BlockSet(vector)\<close> reads words or bytes back. The persisted encodings are these words, so the
  round trips proved here are what makes a saved encoding usable.
\<close>

definition be_bytes :: "u32 \<Rightarrow> u8 list" where
  "be_bytes w = [ucast (drop_bit 24 w), ucast (drop_bit 16 w), ucast (drop_bit 8 w), ucast w]"

definition be_word :: "u8 list \<Rightarrow> nat \<Rightarrow> u32" where
  "be_word d i = push_bit 24 (ucast (d ! (4 * i))) + push_bit 16 (ucast (d ! (4 * i + 1)))
     + push_bit 8 (ucast (d ! (4 * i + 2))) + ucast (d ! (4 * i + 3))"

lemma length_be_bytes [simp]: "length (be_bytes w) = 4"
  by (simp add: be_bytes_def)

lemma length_concat_be_bytes [simp]: "length (concat (map be_bytes ws)) = 4 * length ws"
  by (induction ws) simp_all

lemma byte_mask_ucast:
  "ucast (w AND 0x000000ff :: u32) = (ucast w :: u8)"
  "ucast (drop_bit 8 (w AND 0x0000ff00 :: u32)) = (ucast (drop_bit 8 w) :: u8)"
  "ucast (drop_bit 16 (w AND 0x00ff0000 :: u32)) = (ucast (drop_bit 16 w) :: u8)"
  "ucast (drop_bit 24 (w AND 0xff000000 :: u32)) = (ucast (drop_bit 24 w) :: u8)"
proof -
  have m: "(0x000000ff :: u32) = mask 8" "(0x0000ff00 :: u32) = push_bit 8 (mask 8)"
    "(0x00ff0000 :: u32) = push_bit 16 (mask 8)" "(0xff000000 :: u32) = push_bit 24 (mask 8)"
    by (simp_all add: mask_eq_exp_minus_1)
  show "ucast (w AND 0x000000ff :: u32) = (ucast w :: u8)"
    "ucast (drop_bit 8 (w AND 0x0000ff00 :: u32)) = (ucast (drop_bit 8 w) :: u8)"
    "ucast (drop_bit 16 (w AND 0x00ff0000 :: u32)) = (ucast (drop_bit 16 w) :: u8)"
    "ucast (drop_bit 24 (w AND 0xff000000 :: u32)) = (ucast (drop_bit 24 w) :: u8)"
    unfolding m
    by (rule bit_word_eqI;
        auto simp del: push_bit_mask_eq simp: bit_ucast_iff bit_and_iff bit_drop_bit_eq bit_push_bit_iff bit_mask_iff)+
qed

lemma BlockSet_words_step:
  assumes "length xs = 4 * i" "4 * i + 4 \<le> length (xs @ d)"
  shows "do { d \<leftarrow> aput (xs @ d) (4 * i + 3) b3; d \<leftarrow> aput d (4 * i + 2) b2;
      d \<leftarrow> aput d (4 * i + 1) b1; aput d (4 * i) b0 } = Some (xs @ [b0, b1, b2, b3] @ drop 4 d)"
proof -
  have "4 \<le> length d" using assms by simp
  then obtain c0 c1 c2 c3 e where "d = c0 # c1 # c2 # c3 # e"
    by (auto simp: eval_nat_numeral Suc_le_length_iff)
  with assms show ?thesis by (simp add: list_update_append)
qed

lemma BlockSet_words_loop:
  assumes "4 * n \<le> length d" "n \<le> length ws"
  shows "foldo (\<lambda>i d. do {
            d \<leftarrow> aput d (4 * i + 3) (ucast (ws ! i AND 0x000000ff));
            d \<leftarrow> aput d (4 * i + 2) (ucast (drop_bit 8 (ws ! i AND 0x0000ff00)));
            d \<leftarrow> aput d (4 * i + 1) (ucast (drop_bit 16 (ws ! i AND 0x00ff0000)));
            aput d (4 * i) (ucast (drop_bit 24 (ws ! i AND 0xff000000))) }) [0..<n] d
    = Some (concat (map be_bytes (take n ws)) @ drop (4 * n) d)"
  using assms
proof (induction n)
  case (Suc n)
  then have IH: "4 * n \<le> length d" "n \<le> length ws" by simp_all
  have "concat (map be_bytes (take (Suc n) ws)) = concat (map be_bytes (take n ws)) @ be_bytes (ws ! n)"
    using Suc.prems by (simp add: take_Suc_conv_app_nth)
  with Suc.prems show ?case unfolding foldo_upt_Suc Suc.IH [OF IH, unfolded byte_mask_ucast] byte_mask_ucast Option.bind.bind_lunit
    by (subst BlockSet_words_step) (simp_all add: be_bytes_def add.commute)
qed simp

lemma BlockSet_words_eq:
  assumes "wf_bs bs" "length ws * 4 = bs_size bs"
  shows "BlockSet_words bs ws = Some (bs\<lparr>bs_data := concat (map be_bytes ws)\<rparr>)"
  using assms BlockSet_words_loop [of "length ws" "bs_data bs" ws] by (simp add: BlockSet_words_def)

lemma BlockSet_bytes_eq:
  assumes "wf_bs bs" "length d = bs_size bs"
  shows "BlockSet_bytes bs d = Some (bs\<lparr>bs_data := d\<rparr>)"
proof -
  have "map ((!) d) [0..<bs_size bs] = d" using assms(2) map_nth [of d] by simp
  with assms show ?thesis by (simp add: BlockSet_bytes_def foldo_aput_upt)
qed

lemma Dump_eq:
  assumes "wf_bs bs" "bs_size bs mod 4 = 0"
  shows "Dump bs = Some (map (be_word (bs_data bs)) [0..<bs_size bs div 4])"
proof -
  have "4 * i + 3 < bs_size bs" if "i < bs_size bs div 4" for i using that assms(2) by presburger
  then have "foldo (\<lambda>i out. do { x \<leftarrow> do {
         b0 \<leftarrow> aget (bs_data bs) (4 * i);
         b1 \<leftarrow> aget (bs_data bs) (4 * i + 1);
         b2 \<leftarrow> aget (bs_data bs) (4 * i + 2);
         b3 \<leftarrow> aget (bs_data bs) (4 * i + 3);
         Some (push_bit 24 (ucast b0) + push_bit 16 (ucast b1) + push_bit 8 (ucast b2) + ucast b3) };
         Some (out @ [x]) }) [0..<bs_size bs div 4] [] =
      Some ([] @ map (be_word (bs_data bs)) [0..<bs_size bs div 4])"
    using assms(1) by (intro foldo_collect) (simp add: be_word_def)
  with assms(2) show ?thesis by (simp add: Dump_def Option.bind_assoc)
qed

text \<open>The four bytes of a word fill disjoint bit ranges, so the sum of the source is their union.\<close>

lemma bit_shifted_byte:
  "bit (push_bit s (ucast (w :: u8)) :: u32) j \<longleftrightarrow> s \<le> j \<and> j < s + 8 \<and> j < 32 \<and> bit w (j - s)"
proof -
  have "bit w (j - s) \<Longrightarrow> j - s < 8" using bit_imp_le_length by force
  then show ?thesis by (auto simp: bit_push_bit_iff bit_ucast_iff)
qed

lemma bit_be_word:
  "bit (be_word d i) k \<longleftrightarrow> k < 32 \<and> bit (d ! (4 * i + 3 - k div 8)) (k mod 8)"
proof (cases "k < 32")
  case True
  define u v :: u32 where "u = push_bit 24 (ucast (d ! (4 * i)))" and "v = push_bit 16 (ucast (d ! (4 * i + 1)))"
  define x y :: u32 where "x = push_bit 8 (ucast (d ! (4 * i + 2)))" and "y = ucast (d ! (4 * i + 3))"
  have b: "bit u j \<longleftrightarrow> 24 \<le> j \<and> j < 32 \<and> bit (d ! (4 * i)) (j - 24)"
    "bit v j \<longleftrightarrow> 16 \<le> j \<and> j < 24 \<and> bit (d ! (4 * i + 1)) (j - 16)"
    "bit x j \<longleftrightarrow> 8 \<le> j \<and> j < 16 \<and> bit (d ! (4 * i + 2)) (j - 8)"
    "bit y j \<longleftrightarrow> j < 8 \<and> bit (d ! (4 * i + 3)) j" for j
    using bit_shifted_byte [of 24 _ j] bit_shifted_byte [of 16 _ j] bit_shifted_byte [of 8 _ j]
      bit_shifted_byte [of 0 _ j] unfolding u_def v_def x_def y_def by simp_all linarith+
  have r: "bit u j \<Longrightarrow> 24 \<le> j" "bit v j \<Longrightarrow> 16 \<le> j \<and> j < 24" "bit x j \<Longrightarrow> 8 \<le> j \<and> j < 16" "bit y j \<Longrightarrow> j < 8" for j
    using b by blast+
  have s1: "bit (u + v) j \<longleftrightarrow> bit u j \<or> bit v j" for j
    by (rule bit_disjunctive_add_iff) (auto dest!: r)
  have s2: "bit (u + v + x) j \<longleftrightarrow> bit (u + v) j \<or> bit x j" for j
    by (rule bit_disjunctive_add_iff) (auto simp: s1 dest!: r)
  have s3: "bit (u + v + x + y) j \<longleftrightarrow> bit (u + v + x) j \<or> bit y j" for j
    by (rule bit_disjunctive_add_iff) (auto simp: s1 s2 dest!: r)
  have "bit (be_word d i) k \<longleftrightarrow> bit u k \<or> bit v k \<or> bit x k \<or> bit y k"
    using s1 s2 s3 by (simp add: be_word_def u_def v_def x_def y_def)
  moreover obtain q t where k: "k = 8 * q + t" "t < 8" by (metis mod_less_divisor mult_div_mod_eq zero_less_numeral)
  have "q = 0 \<or> q = 1 \<or> q = 2 \<or> q = 3" using True k by linarith
  then have "(bit u k \<or> bit v k \<or> bit x k \<or> bit y k) \<longleftrightarrow> bit (d ! (4 * i + 3 - q)) t"
    using k(2) unfolding b k(1) by (elim disjE) simp_all
  moreover have "k div 8 = q" "k mod 8 = t" using k by simp_all
  ultimately show ?thesis using True by simp
qed simp

lemma be_word_be_bytes:
  assumes "i < length ws"
  shows "be_word (concat (map be_bytes ws)) i = ws ! i"
proof -
  have byte: "concat (map be_bytes ws) ! (4 * i + j) = be_bytes (ws ! i) ! j" if "j < 4" for j
    using assms that
  proof (induction ws arbitrary: i)
    case (Cons w ws)
    then show ?case by (cases i) (simp_all add: nth_append)
  qed simp
  show ?thesis
  proof (rule bit_word_eqI)
    fix k :: nat assume "k < LENGTH(32)"
    then have k: "k < 32" and "4 * i + 3 - k div 8 = 4 * i + (3 - k div 8)" by simp_all
    moreover have "be_bytes w ! (3 - k div 8) = ucast (drop_bit (8 * (k div 8)) w)" for w
    proof -
      have "k div 8 \<in> {0, 1, 2, 3}" using k by auto
      then show ?thesis by (auto simp: be_bytes_def)
    qed
    ultimately show "bit (be_word (concat (map be_bytes ws)) i) k = bit (ws ! i) k"
      by (simp only: bit_be_word byte) (simp add: bit_ucast_iff bit_drop_bit_eq)
  qed
qed

lemma be_bytes_be_word:
  "be_bytes (be_word d i) = [d ! (4 * i), d ! (4 * i + 1), d ! (4 * i + 2), d ! (4 * i + 3)]"
proof -
  have "ucast (drop_bit (8 * j) (be_word d i)) = d ! (4 * i + 3 - j)" if "j < 4" for j
  proof (rule bit_word_eqI)
    fix k :: nat assume "k < LENGTH(8)"
    moreover from this that have "8 * j + k < 32" "(8 * j + k) div 8 = j" "(8 * j + k) mod 8 = k" by simp_all
    ultimately show "bit (ucast (drop_bit (8 * j) (be_word d i)) :: u8) k = bit (d ! (4 * i + 3 - j)) k"
      by (simp add: bit_ucast_iff bit_drop_bit_eq bit_be_word)
  qed
  from this [of 3] this [of 2] this [of 1] this [of 0] show ?thesis
    by (simp add: be_bytes_def)
qed

lemma concat_be_bytes_Dump:
  "4 * n \<le> length d \<Longrightarrow> concat (map (\<lambda>i. be_bytes (be_word d i)) [0..<n]) = take (4 * n) d"
proof (induction n)
  case (Suc n)
  have "take (4 * Suc n) d = take (4 * n) d @ [d ! (4 * n), d ! (4 * n + 1), d ! (4 * n + 2), d ! (4 * n + 3)]"
    using Suc.prems by (simp add: eval_nat_numeral take_Suc_conv_app_nth)
  with Suc show ?case by (simp add: be_bytes_be_word)
qed simp

text \<open>Saving and loading an array.\<close>

lemma Dump_BlockSet_words:
  assumes "wf_bs bs" "bs_size bs mod 4 = 0" "wf_bs bs0" "bs_size bs0 = bs_size bs"
  shows "\<exists>us. Dump bs = Some us \<and> length us * 4 = bs_size bs \<and> BlockSet_words bs0 us = Some bs"
proof -
  define us where "us = map (be_word (bs_data bs)) [0..<bs_size bs div 4]"
  have len: "length us * 4 = bs_size bs" using assms(2) by (auto simp: us_def)
  have "concat (map be_bytes us) = take (4 * (bs_size bs div 4)) (bs_data bs)"
    using concat_be_bytes_Dump [of "bs_size bs div 4" "bs_data bs"] assms(1) by (simp add: us_def comp_def)
  also have "\<dots> = bs_data bs" using assms(1,2) by (auto simp: mod_0_imp_dvd)
  finally have "BlockSet_words bs0 us = Some bs"
    using BlockSet_words_eq [OF assms(3), of us] len assms(4) by simp
  with Dump_eq [OF assms(1,2)] len show ?thesis by (simp add: us_def)
qed

lemma BlockSet_words_Dump:
  assumes "wf_bs bs" "length ws * 4 = bs_size bs"
  shows "\<exists>bs1. BlockSet_words bs ws = Some bs1 \<and> Dump bs1 = Some ws"
proof -
  define bs1 where "bs1 = bs\<lparr>bs_data := concat (map be_bytes ws)\<rparr>"
  have "wf_bs bs1" "bs_size bs1 mod 4 = 0" "bs_size bs1 div 4 = length ws"
    using assms(2) by (simp_all add: bs1_def wf_bs_def flip: assms(2))
  moreover have "map (be_word (bs_data bs1)) [0..<length ws] = ws"
    by (rule nth_equalityI) (simp_all add: bs1_def be_word_be_bytes)
  ultimately have "Dump bs1 = Some ws" using Dump_eq [of bs1] by simp
  with BlockSet_words_eq [OF assms] show ?thesis by (simp add: bs1_def)
qed

end
