(* ===== verification/Block_Store.thy ===== *)
theory Block_Store
  imports Bit_Set_Words
begin

text \<open>
  The interface between the encoders and the bit set: a store of bits that can be written and read
  in blocks (\<^verbatim>\<open>BlockSet\<close>, \<^verbatim>\<open>BlockGet\<close>) and bit by bit (\<^verbatim>\<open>SetOne\<close>). The locale \<open>bit_store\<close> states the
  laws and derives what the loops of the encoders do with them: a sequence of blocks written one
  after the other reads back, setting the bits of a list of positions sets exactly these, and both
  leave the rest alone. \<^verbatim>\<open>BitSetSIMD\<close> is an instance: \<open>lim\<close> says where a block may start to be written (below
  bit 2048) and \<open>rd\<close> which blocks can be read (not the narrow ones that lie in two bytes).
\<close>

text \<open>Consecutive blocks from \<open>index\<close> on, the loop of \<^verbatim>\<open>EncodeVertex\<close> and \<^verbatim>\<open>SetNonDecodable\<close>.\<close>

fun put_blocks :: "('b \<Rightarrow> nat \<Rightarrow> nat \<Rightarrow> u32 \<Rightarrow> 'b option) \<Rightarrow> 'b \<Rightarrow> nat \<Rightarrow> nat \<Rightarrow> u32 list \<Rightarrow> 'b option" where
  "put_blocks put bs index n [] = Some bs"
| "put_blocks put bs index n (x # xs) = do {
     bs \<leftarrow> put bs index n x;
     put_blocks put bs (index + n) n xs }"

locale bit_store =
  fixes wf :: "'b \<Rightarrow> bool"
    and cap :: "'b \<Rightarrow> nat"
    and look :: "'b \<Rightarrow> nat \<Rightarrow> bool"
    and lim :: nat
    and rd :: "nat \<Rightarrow> nat \<Rightarrow> bool"
    and put :: "'b \<Rightarrow> nat \<Rightarrow> nat \<Rightarrow> u32 \<Rightarrow> 'b option"
    and get :: "'b \<Rightarrow> nat \<Rightarrow> nat \<Rightarrow> u32 option"
    and one :: "'b \<Rightarrow> nat \<Rightarrow> 'b option"
  assumes put_law: "\<lbrakk>wf b; p + n \<le> cap b; 0 < n; n \<le> 32; p < lim; unat v < 2 ^ n\<rbrakk> \<Longrightarrow>
      \<exists>b'. put b p n v = Some b' \<and> wf b' \<and> cap b' = cap b \<and>
        (\<forall>q < cap b. look b' q = (if p \<le> q \<and> q < p + n then bit v (p + n - 1 - q) else look b q))"
    and get_law: "\<lbrakk>wf b; p + n \<le> cap b; 0 < n; n \<le> 32; rd p n\<rbrakk> \<Longrightarrow>
      \<exists>v. get b p n = Some v \<and> (\<forall>k. bit v k \<longleftrightarrow> k < n \<and> look b (p + n - 1 - k))"
    and one_law: "\<lbrakk>wf b; p < cap b\<rbrakk> \<Longrightarrow>
      \<exists>b'. one b p = Some b' \<and> wf b' \<and> cap b' = cap b \<and> (\<forall>q < cap b. look b' q = (q = p \<or> look b q))"
begin

definition same_outside :: "nat \<Rightarrow> nat \<Rightarrow> 'b \<Rightarrow> 'b \<Rightarrow> bool" where
  "same_outside p n b b' \<longleftrightarrow> wf b' \<and> cap b' = cap b \<and>
     (\<forall>q < cap b. \<not> (p \<le> q \<and> q < p + n) \<longrightarrow> look b' q = look b q)"

text \<open>The block at \<open>p\<close> holds the bits of \<open>v\<close>, whether or not it can be read in one piece.\<close>

definition holds :: "'b \<Rightarrow> nat \<Rightarrow> nat \<Rightarrow> u32 \<Rightarrow> bool" where
  "holds b p n v \<longleftrightarrow> (\<forall>k < n. look b (p + n - 1 - k) = bit v k)"

lemma get_holds:
  assumes "wf b" "p + n \<le> cap b" "0 < n" "n \<le> 32" "rd p n" "unat v < 2 ^ n" "holds b p n v"
  shows "get b p n = Some v"
proof -
  obtain w where w: "get b p n = Some w" "\<And>k. bit w k \<longleftrightarrow> k < n \<and> look b (p + n - 1 - k)"
    using get_law [OF assms(1-5)] by blast
  have "bit w k \<longleftrightarrow> bit v k" for k
    using assms(7) bit_u32_lt_two_power [OF assms(6), of k] by (cases "k < n") (simp_all add: w(2) holds_def)
  then have "w = v" by (intro bit_word_eqI) blast
  with w(1) show ?thesis by simp
qed

lemma get_cong:
  assumes "wf b" "wf b'" "cap b' = cap b" "p + n \<le> cap b" "0 < n" "n \<le> 32" "rd p n"
    and "\<And>q. p \<le> q \<Longrightarrow> q < p + n \<Longrightarrow> look b' q = look b q"
  shows "get b' p n = get b p n"
proof -
  obtain v where v: "get b p n = Some v" "\<And>k. bit v k \<longleftrightarrow> k < n \<and> look b (p + n - 1 - k)"
    using get_law assms by meson
  obtain v' where v': "get b' p n = Some v'" "\<And>k. bit v' k \<longleftrightarrow> k < n \<and> look b' (p + n - 1 - k)"
    using get_law [of b' p n] assms(2-7) by auto
  have "bit v' k \<longleftrightarrow> bit v k" for k unfolding v(2) v'(2) using assms(8) by auto
  then have "v' = v" by (intro bit_word_eqI) blast
  with v v' show ?thesis by simp
qed

lemma get_same_outside:
  assumes "wf b" "same_outside p n b b'" "q + m \<le> p \<or> p + n \<le> q" "q + m \<le> cap b" "0 < m" "m \<le> 32" "rd q m"
  shows "get b' q m = get b q m"
  using assms by (intro get_cong) (auto simp: same_outside_def)

lemma holds_same_outside:
  assumes "same_outside p n b b'" "q + m \<le> p \<or> p + n \<le> q" "q + m \<le> cap b" "holds b q m v"
  shows "holds b' q m v"
  unfolding holds_def
proof (intro allI impI)
  fix k assume "k < m"
  then have "q \<le> q + m - 1 - k" "q + m - 1 - k < q + m" by linarith+
  then have "look b' (q + m - 1 - k) = look b (q + m - 1 - k)"
    using assms(1-3) unfolding same_outside_def by (meson le_trans less_le_trans not_le)
  with assms(4) \<open>k < m\<close> show "look b' (q + m - 1 - k) = bit v k" by (simp add: holds_def)
qed

lemma put_holds:
  assumes "wf b" "p + n \<le> cap b" "0 < n" "n \<le> 32" "p < lim" "unat v < 2 ^ n"
  shows "\<exists>b'. put b p n v = Some b' \<and> holds b' p n v \<and> same_outside p n b b'"
proof -
  obtain b' where b': "put b p n v = Some b'" "wf b'" "cap b' = cap b"
    "\<And>q. q < cap b \<Longrightarrow> look b' q = (if p \<le> q \<and> q < p + n then bit v (p + n - 1 - q) else look b q)"
    using put_law [OF assms] by blast
  have "look b' (p + n - 1 - k) = bit v k" if "k < n" for k
  proof -
    have "p + n - 1 - k < cap b" "p \<le> p + n - 1 - k" "p + n - 1 - k < p + n" "p + n - 1 - (p + n - 1 - k) = k"
      using that assms(2) by linarith+
    with b'(4) show ?thesis by (simp only: if_True simp_thms)
  qed
  moreover have "same_outside p n b b'" using b'(2-4) by (simp add: same_outside_def)
  ultimately show ?thesis using b'(1) by (auto simp: holds_def)
qed

lemma get_after_put:
  assumes "wf b" "p + n \<le> cap b" "0 < n" "n \<le> 32" "p < lim" "unat v < 2 ^ n" "rd p n"
  shows "\<exists>b'. put b p n v = Some b' \<and> get b' p n = Some v \<and> same_outside p n b b'"
  using put_holds [OF assms(1-6)] get_holds [of _ p n v] assms(2-4,6,7) by (metis same_outside_def)

lemma same_outside_trans:
  assumes "same_outside p n b b1" "same_outside q m b1 b2" "p \<le> q" "q + m \<le> p + k" "n \<le> k"
  shows "same_outside p k b b2"
  using assms by (fastforce simp: same_outside_def)

lemma put_blocks_law:
  assumes "wf b" "p + n * length xs \<le> cap b" "0 < n" "n \<le> 32" "cap b \<le> lim" "\<forall>x \<in> set xs. unat x < 2 ^ n"
  shows "\<exists>b'. put_blocks put b p n xs = Some b' \<and> same_outside p (n * length xs) b b' \<and>
    (\<forall>i < length xs. holds b' (p + i * n) n (xs ! i))"
  using assms
proof (induction xs arbitrary: b p)
  case Nil
  then show ?case by (simp add: same_outside_def)
next
  case (Cons x xs)
  from Cons.prems have room: "p + n \<le> cap b" "p < lim" by auto
  with put_holds [of b p n x] Cons.prems obtain b1 where b1: "put b p n x = Some b1" "holds b1 p n x"
    "same_outside p n b b1" by auto
  then have b1': "wf b1" "cap b1 = cap b" by (auto simp: same_outside_def)
  have "\<exists>b'. put_blocks put b1 (p + n) n xs = Some b' \<and> same_outside (p + n) (n * length xs) b1 b' \<and>
    (\<forall>i < length xs. holds b' (p + n + i * n) n (xs ! i))"
    using Cons.prems b1' by (intro Cons.IH) (auto simp: algebra_simps)
  then obtain b2 where b2: "put_blocks put b1 (p + n) n xs = Some b2"
    "same_outside (p + n) (n * length xs) b1 b2" "\<And>i. i < length xs \<Longrightarrow> holds b2 (p + n + i * n) n (xs ! i)"
    by blast
  have "holds b2 p n x"
    using holds_same_outside [OF b2(2), of p n x] b1(2) b1'(2) room by simp
  then have "\<forall>i < length (x # xs). holds b2 (p + i * n) n ((x # xs) ! i)"
    using b2(3) by (auto simp: nth_Cons ac_simps split: nat.split)
  moreover have "same_outside p (n * length (x # xs)) b b2"
    by (rule same_outside_trans [OF b1(3) b2(2)]) simp_all
  ultimately show ?case using b1(1) b2(1) by auto
qed

lemma set_positions_law:
  assumes "wf b" "\<And>x. x \<in> set xs \<Longrightarrow> \<exists>p. f x = Some p \<and> p < cap b"
  shows "\<exists>b'. foldo (\<lambda>x b. do { p \<leftarrow> f x; one b p }) xs b = Some b' \<and> wf b' \<and> cap b' = cap b \<and>
    (\<forall>q < cap b. look b' q \<longleftrightarrow> look b q \<or> (\<exists>x \<in> set xs. f x = Some q))"
  using assms
proof (induction xs arbitrary: b)
  case (Cons x xs)
  from Cons.prems(2) [of x] obtain p where p: "f x = Some p" "p < cap b" by auto
  from one_law [OF Cons.prems(1) p(2)] obtain b1 where b1: "one b p = Some b1" "wf b1" "cap b1 = cap b"
    "\<And>q. q < cap b \<Longrightarrow> look b1 q = (q = p \<or> look b q)" by auto
  with Cons.IH [OF b1(2)] Cons.prems(2) obtain b2 where
    "foldo (\<lambda>x b. do { p \<leftarrow> f x; one b p }) xs b1 = Some b2" "wf b2" "cap b2 = cap b1"
    "\<forall>q < cap b1. look b2 q \<longleftrightarrow> look b1 q \<or> (\<exists>x \<in> set xs. f x = Some q)" by auto
  with p b1 show ?case by auto
qed simp

end

interpretation bs: bit_store wf_bs "\<lambda>b. 8 * bs_size b" bitat 2048 readable BlockSet BlockGet SetOne
proof
  fix b :: bitset and p n :: nat
  assume *: "wf_bs b" "p + n \<le> 8 * bs_size b" "0 < n" "n \<le> 32" "readable p n"
  then show "\<exists>v. BlockGet b p n = Some v \<and> (\<forall>k. bit v k \<longleftrightarrow> k < n \<and> bitat b (p + n - 1 - k))"
    by (auto simp: bit_block_val)
qed auto

lemma holds_block_val:
  assumes "bs.holds b p n v" "n \<le> 32" "unat v < 2 ^ n"
  shows "block_val b p n = v"
proof (rule bit_word_eqI)
  fix k :: nat assume "k < LENGTH(32)"
  then show "bit (block_val b p n) k = bit v k"
    using assms(1) bit_u32_lt_two_power [OF assms(3), of k]
    by (cases "k < n") (simp_all add: bit_block_val bs.holds_def)
qed

text \<open>The loop of the encoders on \<^verbatim>\<open>BitSetSIMD\<close>: the blocks hold the list.\<close>

lemma put_blocks_BlockSet:
  assumes "wf_bs b" "p + n * length xs \<le> 8 * bs_size b" "0 < n" "n \<le> 32" "bs_size b \<le> 256"
    "\<forall>x \<in> set xs. unat x < 2 ^ n"
  shows "\<exists>b'. put_blocks BlockSet b p n xs = Some b' \<and> wf_bs b' \<and> bs_size b' = bs_size b \<and>
    (\<forall>q < 8 * bs_size b. \<not> (p \<le> q \<and> q < p + n * length xs) \<longrightarrow> bitat b' q = bitat b q) \<and>
    blocks_val b' p n (length xs) = xs"
proof -
  obtain b' where b': "put_blocks BlockSet b p n xs = Some b'" "bs.same_outside p (n * length xs) b b'"
    "\<And>i. i < length xs \<Longrightarrow> bs.holds b' (p + i * n) n (xs ! i)"
    using bs.put_blocks_law [of b p n xs] assms by auto
  moreover have "blocks_val b' p n (length xs) = xs"
    using b'(3) assms(4,6) by (intro nth_equalityI) (simp_all add: holds_block_val)
  ultimately show ?thesis by (auto simp: bs.same_outside_def)
qed

end
