(* ===== verification/Bit_Set_Spec.thy ===== *)
theory Bit_Set_Spec
  imports Block_Store
begin

text \<open>
  The properties of \<^verbatim>\<open>BitSetSIMD\<close>: blocks read back what was written and disturb nothing else, the two
  searches agree, and the array survives being dumped to words and loaded again.
\<close>

text \<open>C13. A block written with \<^verbatim>\<open>BlockSet\<close> inside the array (and starting below bit 2048) keeps every bit
  outside the block, whatever its alignment and however many bytes it spans. It is read back by
  \<^verbatim>\<open>BlockGet\<close> exactly if it has at least eight bits or lies in one byte; the reading of a narrow block that
  lies in two bytes is undefined (the count of the last shift wraps). All other accesses stay inside
  the array and the mask tables.\<close>

theorem block_write_read:
  assumes "wf_bs bs" "b + n \<le> 8 * bs_size bs" "0 < n" "n \<le> 32" "b < 2048" "unat v < 2 ^ n"
  shows "\<exists>bs'. BlockSet bs b n v = Some bs' \<and> wf_bs bs' \<and> bs_size bs' = bs_size bs \<and>
    BlockGet bs' b n = (if 8 \<le> n \<or> b mod 8 + n \<le> 8 then Some v else None) \<and>
    (\<forall>p < 8 * bs_size bs. IsOne bs' p =
       (if b \<le> p \<and> p < b + n then Some (bit v (b + n - 1 - p)) else IsOne bs p))"
proof -
  have "BlockGet (block_upd bs b n v) b n = (if 8 \<le> n \<or> b mod 8 + n \<le> 8 then Some v else None)"
    using assms BlockGet_straddling [of b n] by (auto simp: readable_def)
  moreover have "IsOne (block_upd bs b n v) p =
      (if b \<le> p \<and> p < b + n then Some (bit v (b + n - 1 - p)) else IsOne bs p)" if "p < 8 * bs_size bs" for p
    using that assms(1) by auto
  ultimately show ?thesis using assms by auto
qed

lemma block_write_read_witness:
  "(\<exists>bs'. BlockSet (BitSetSIMD 64) 5 17 0x1ABCD = Some bs' \<and> BlockGet bs' 5 17 = Some 0x1ABCD) \<and>
   (\<exists>bs'. BlockSet (BitSetSIMD 64) 5 4 9 = Some bs' \<and> BlockGet bs' 5 4 = None \<and> IsOne bs' 5 = Some True)"
  using block_write_read [of "BitSetSIMD 64" 5 17 "0x1ABCD"] block_write_read [of "BitSetSIMD 64" 5 4 9]
  by (auto dest: spec [of _ 5])

text \<open>A block that starts at bit 2048 and spans two bytes is not written where it belongs: the
  byte index of its first byte is kept in a \<^verbatim>\<open>uint8_t\<close>, so the bytes 0 and 257 are changed instead of
  256 and 257.\<close>

theorem block_write_high_corrupts:
  "\<exists>bs'. BlockSet (BitSetSIMD 2064) 2048 16 0xFFFF = Some bs' \<and>
     BlockGet bs' 2048 16 = Some 0x00FF \<and> BlockGet (BitSetSIMD 2064) 0 8 = Some 0 \<and> BlockGet bs' 0 8 = Some 0xFF"
  by (simp add: BlockSet_def BlockGet_def BlockSet_loop.simps BlockGet_loop.simps BitSetSIMD_def Let_def wsub_def
      ZERO_BLOCK_MASK_def ONE_BLOCK_MASK_def LEFT_ONE_MASK_def nth_list_update)

text \<open>Blocks that are read one by one are readable and hold what is read.\<close>

lemma blocks_read:
  assumes "wf_bs bs" "b + n * k \<le> 8 * bs_size bs" "0 < n" "n \<le> 32"
    "length xs = k" "\<And>i. i < k \<Longrightarrow> BlockGet bs (b + i * n) n = Some (xs ! i)"
  shows "blocks_val bs b n k = xs \<and> readables b n k"
proof -
  have "readable (b + i * n) n \<and> xs ! i = block_val bs (b + i * n) n" if "i < k" for i
  proof -
    have "n * (i + 1) \<le> n * k" using that by (intro mult_le_mono2) simp
    then have "b + i * n + n \<le> 8 * bs_size bs" using assms(2) by (simp add: algebra_simps)
    with BlockGet_SomeD [OF assms(6) [OF that]] assms(1,3,4) show ?thesis by blast
  qed
  then show ?thesis using assms(5) by (auto simp: readables_def intro: nth_equalityI)
qed

text \<open>C16. On blocks that hold a sorted sequence, \<^verbatim>\<open>BlockFind\<close> decides membership.\<close>

theorem BlockFind_decides:
  assumes "wf_bs bs" "b + n * k \<le> 8 * bs_size bs" "0 < n" "n \<le> 32"
    "length xs = k" "\<And>i. i < k \<Longrightarrow> BlockGet bs (b + i * n) n = Some (xs ! i)" "sorted xs"
  shows "BlockFind bs b n k v = Some (if v \<in> set xs then Neighbor else NonNeighbor)"
  using blocks_read [OF assms(1-6)] assms(1-4,7) by (simp add: scan_sorted)

lemma BlockFind_decides_witness:
  "BlockFind \<lparr>bs_size = 4, bs_data = [1, 3, 7, 32]\<rparr> 0 8 4 7 = Some Neighbor \<and>
   BlockFind \<lparr>bs_size = 4, bs_data = [1, 3, 7, 32]\<rparr> 0 8 4 8 = Some NonNeighbor"
proof -
  let ?bs = "\<lparr>bs_size = 4, bs_data = [1, 3, 7, 32]\<rparr>"
  have wf: "wf_bs ?bs" by (simp add: wf_bs_def)
  have "BlockGet ?bs (0 + i * 8) 8 = Some ([1, 3, 7, 32] ! i)" if "i < 4" for i
  proof -
    from that consider "i = 0" | "i = 1" | "i = 2" | "i = 3" by linarith
    then show ?thesis by cases (simp_all add: BlockGet_def ONE_BLOCK_MASK_def Let_def del: BlockGet_correct)
  qed
  from BlockFind_decides [OF wf _ _ _ _ this, of 4 7] BlockFind_decides [OF wf _ _ _ _ this, of 4 8]
  show ?thesis by simp
qed

text \<open>C17. The vector search and the scalar search agree on blocks that read back a sorted sequence, for
  every number of blocks, as long as the value is not zero (the unused lanes of the last register are
  zero).\<close>

theorem BlockFindSIMD_eq_BlockFind:
  assumes "wf_bs bs" "b + n * k \<le> 8 * bs_size bs" "0 < n" "n \<le> 32"
    "length xs = k" "\<And>i. i < k \<Longrightarrow> BlockGet bs (b + i * n) n = Some (xs ! i)" "sorted xs" "v \<noteq> 0"
  shows "BlockFindSIMD bs b n k v = BlockFind bs b n k v \<and> BlockFindSIMD bs b n k v \<noteq> None"
  using blocks_read [OF assms(1-6)] assms(1-4,7,8) by (simp add: scan_sorted)

lemma BlockFindSIMD_eq_BlockFind_witness:
  "BlockFindSIMD \<lparr>bs_size = 7, bs_data = [1, 3, 7, 32, 33, 34, 99]\<rparr> 0 8 7 34 = Some Neighbor"
proof -
  let ?bs = "\<lparr>bs_size = 7, bs_data = [1, 3, 7, 32, 33, 34, 99]\<rparr>"
  have "BlockGet ?bs (0 + i * 8) 8 = Some ([1, 3, 7, 32, 33, 34, 99] ! i)" if "i < 7" for i
  proof -
    from that consider "i = 0" | "i = 1" | "i = 2" | "i = 3" | "i = 4" | "i = 5" | "i = 6" by linarith
    then show ?thesis by cases (simp_all add: BlockGet_def ONE_BLOCK_MASK_def Let_def del: BlockGet_correct)
  qed
  from BlockFindSIMD_eq_BlockFind [OF _ _ _ _ _ this, of 7 34]
  have "BlockFindSIMD ?bs 0 8 7 34 = BlockFind ?bs 0 8 7 34" by (simp add: wf_bs_def)
  also have "\<dots> = Some Neighbor" by code_simp
  finally show ?thesis .
qed

text \<open>C18. \<^verbatim>\<open>Dump\<close> followed by \<^verbatim>\<open>BlockSet\<close> of the words on any bit set of the same size restores the bit
  set, and \<^verbatim>\<open>Dump\<close> returns the words that were loaded.\<close>

theorem dump_load_roundtrip:
  assumes "wf_bs bs" "bs_size bs mod 4 = 0" "wf_bs bs0" "bs_size bs0 = bs_size bs" "length ws * 4 = bs_size bs"
  shows "(\<exists>us. Dump bs = Some us \<and> BlockSet_words bs0 us = Some bs) \<and>
    (\<exists>bs1. BlockSet_words bs ws = Some bs1 \<and> Dump bs1 = Some ws)"
  using Dump_BlockSet_words [OF assms(1-4)] BlockSet_words_Dump [OF assms(1,5)] by blast

lemma dump_load_roundtrip_witness:
  "(\<exists>us. Dump (BitSetSIMD 64) = Some us \<and> BlockSet_words (BitSetSIMD 64) us = Some (BitSetSIMD 64)) \<and>
   (\<exists>bs1. BlockSet_words (BitSetSIMD 64) [0xDEADBEEF, 7] = Some bs1 \<and> Dump bs1 = Some [0xDEADBEEF, 7])"
  using dump_load_roundtrip [of "BitSetSIMD 64" "BitSetSIMD 64" "[0xDEADBEEF, 7]"] by simp

end
