(* ===== verification/Vend_Config.thy ===== *)
theory Vend_Config
  imports Vend_Prelude
begin

text \<open>
  The global configuration of \<^verbatim>\<open>common/config.cpp\<close> and \<^verbatim>\<open>common/hash_config.cpp\<close>. The globals are the
  fields of one record that every operation takes; \<open>InitCommonVariables\<close> computes them from the
  three command line parameters, and \<open>wf_config\<close> collects what the layouts of the encoders need
  of them. \<open>clog2\<close> is \<^verbatim>\<open>ceil(log2((double) n))\<close>, which doubles compute exactly for 32 bit arguments.
\<close>

section \<open>The globals\<close>

record config =
  K_SIZE :: nat
  VERTEX_SIZE :: nat
  DEGREE :: nat
  B_FILTER_ENCODE_BITS :: nat
  PER_ENCODE_BIT_SIZE :: nat
  VERTEX_BIT_SIZE :: nat
  MAX_K_CORE_SIZE :: nat
  LOG_K :: nat
  MAX_INTEGER_SIZE :: nat
  BLOCK_BEGIN_INDEX :: nat
  BLOCK_NUMS :: nat
  ELEMENT_SIZE :: nat
  BIT_HASH_BEST_NUMS :: nat
  INT_HASH_BEST_NUMS :: nat
  COUNT_HASH_BEST_NUMS :: nat
  PREFIX_BIT_SIZE :: nat
  HSIMD :: bool

fun clog2 :: "nat \<Rightarrow> nat" where
  "clog2 n = (if n \<le> 1 then 0 else Suc (clog2 ((n + 1) div 2)))"

declare clog2.simps [simp del]

text \<open>Integer division of C++: no result for a divisor of zero.\<close>

definition cdiv :: "nat \<Rightarrow> nat \<Rightarrow> nat option" where
  "cdiv a b = (if b = 0 then None else Some (a div b))"

text \<open>\<^verbatim>\<open>InitCommonVariables\<close>. \<^verbatim>\<open>PER_ENCODE_BIT_SIZE\<close> is an \<^verbatim>\<open>int\<close> and must not overflow; the product
  of \<^verbatim>\<open>B_FILTER_ENCODE_BITS\<close> wraps. \<^verbatim>\<open>log2\<close> of \<^verbatim>\<open>DEGREE * VERTEX_SIZE / 2\<close> is one less than the one
  of the product; with a product of one it is negative and has no conversion to \<^verbatim>\<open>uint32_t\<close>. The
  hash variables keep their initial zero.\<close>

definition InitCommonVariables :: "bool \<Rightarrow> nat \<Rightarrow> nat \<Rightarrow> nat \<Rightarrow> config option" where
  "InitCommonVariables hsimd k_size vertex_size degree = do {
     assert_that (k_size \<noteq> 0);
     assert_that (vertex_size \<noteq> 0);
     assert_that (degree \<noteq> 0);
     let b_filter_encode_bits = (vertex_size * k_size) mod 2 ^ 32;
     assert_that (k_size * 32 < 2 ^ 31);
     let per_encode_bit_size = k_size * 32;
     let vertex_bit_size = clog2 vertex_size;
     max_k_core_size \<leftarrow> cdiv (per_encode_bit_size - 1) vertex_bit_size;
     let log_k = clog2 (max_k_core_size + 1);
     max_integer_size \<leftarrow> cdiv (wsub32 (per_encode_bit_size - 3) log_k) vertex_bit_size;
     let block_begin_index = 3 + log_k;
     let block_nums = (b_filter_encode_bits * 32 div 512) mod 2 ^ 32;
     assert_that (1 < degree * vertex_size);
     let element_size = clog2 (degree * vertex_size) - 1;
     Some \<lparr>K_SIZE = k_size, VERTEX_SIZE = vertex_size, DEGREE = degree,
       B_FILTER_ENCODE_BITS = b_filter_encode_bits, PER_ENCODE_BIT_SIZE = per_encode_bit_size,
       VERTEX_BIT_SIZE = vertex_bit_size, MAX_K_CORE_SIZE = max_k_core_size, LOG_K = log_k,
       MAX_INTEGER_SIZE = max_integer_size, BLOCK_BEGIN_INDEX = block_begin_index,
       BLOCK_NUMS = block_nums, ELEMENT_SIZE = element_size, BIT_HASH_BEST_NUMS = 0,
       INT_HASH_BEST_NUMS = 0, COUNT_HASH_BEST_NUMS = 0, PREFIX_BIT_SIZE = 0, HSIMD = hsimd\<rparr> }"

definition UP_TO_ONE :: "nat \<Rightarrow> nat" where
  "UP_TO_ONE x = (if x \<le> 1 then 1 else x)"

text \<open>\<^verbatim>\<open>InitHashConfig\<close>. The two counts are computed in floating point from \<^verbatim>\<open>log(2)\<close>; the arguments
  \<open>int_nums\<close> and \<open>count_nums\<close> are the truncated products. The division by \<^verbatim>\<open>ELEMENT_SIZE\<close> is one of
  integers. The first assignment to \<^verbatim>\<open>BIT_HASH_BEST_NUMS\<close> is overwritten by the last.\<close>

definition InitHashConfig :: "nat \<Rightarrow> nat \<Rightarrow> config \<Rightarrow> config option" where
  "InitHashConfig int_nums count_nums cfg = do {
     _ \<leftarrow> cdiv 32 (ELEMENT_SIZE cfg);
     Some (cfg\<lparr>BIT_HASH_BEST_NUMS := 1,
       INT_HASH_BEST_NUMS := UP_TO_ONE int_nums,
       COUNT_HASH_BEST_NUMS := UP_TO_ONE count_nums,
       PREFIX_BIT_SIZE := LOG_K cfg + 3\<rparr>) }"

text \<open>\<^verbatim>\<open>vertex_id_upper_\<close> of every encoder.\<close>

definition vertex_id_upper :: "config \<Rightarrow> u32" where
  "vertex_id_upper cfg = of_nat (VERTEX_SIZE cfg) + 1"

definition HASH_PARAM1 :: "u32 list" where
  "HASH_PARAM1 = [
     9191891, 1635947, 6893911, 2908361, 3877817, 5170427,
     2703929, 9961873, 8702593, 6795587, 3838903, 1609511,
     3838903, 3712831, 1609511, 2717593, 1434539, 7085971,
     2339639, 1316767, 2734321, 3274367, 3911749, 1300769,
     9871111, 1141061, 5974999, 2021081, 1123597, 9063707,
     5727739, 5218243, 2209747, 7445869, 7982327, 3739793,
     1803349, 9859697, 4833379, 7049219, 7919623, 7731103,
     4184641, 2627057, 3807691, 3044791, 7665613, 5529673,
     7904591, 9065003, 9416543, 9616279, 8034209, 8383213,
     2609339, 7587001, 2895359, 7402631, 1797161, 7542971]"

definition HASH_PARAM2 :: "u32 list" where
  "HASH_PARAM2 = [
     1282517, 6659501, 7581941, 4050433, 7283071, 5793467,
     9692027, 4554733, 3448817, 9099731, 2797793, 9255167,
     4282727, 8699567, 9842081, 6976267, 7877509, 2042107,
     4404161, 4295609, 3455113, 2989673, 9410483, 7036109,
     9559609, 5945413, 4152943, 8736919, 8832641, 3201251,
     7251823, 3375391, 8783759, 1203077, 6746209, 8190113,
     3458687, 9673919, 2210567, 2698727, 5789227, 9444763,
     2628107, 4365827, 6898621, 4875253, 9633563, 4943333,
     4214123, 6162077, 6528673, 3763867, 6954799, 3726403,
     4801627, 1597961, 4228381, 9210757, 5584463, 8847067]"

section \<open>What the encoders rely on\<close>

text \<open>The flag bit and all integers of a decodable encoding fit, so do the header and the integers of
  a partial one, and the number of integers fits its field. \<open>PER_ENCODE_BIT_SIZE \<le> 2048\<close> keeps every
  block inside the first 256 bytes, which is all that \<^verbatim>\<open>BlockSet\<close> can address.\<close>

definition wf_config :: "config \<Rightarrow> bool" where
  "wf_config cfg \<longleftrightarrow>
     0 < K_SIZE cfg \<and> PER_ENCODE_BIT_SIZE cfg = K_SIZE cfg * 32 \<and> PER_ENCODE_BIT_SIZE cfg \<le> 2048 \<and>
     0 < VERTEX_SIZE cfg \<and> VERTEX_SIZE cfg < 2 ^ 32 - 1 \<and>
     0 < VERTEX_BIT_SIZE cfg \<and> VERTEX_BIT_SIZE cfg \<le> 32 \<and> VERTEX_SIZE cfg \<le> 2 ^ VERTEX_BIT_SIZE cfg \<and>
     1 + MAX_K_CORE_SIZE cfg * VERTEX_BIT_SIZE cfg \<le> PER_ENCODE_BIT_SIZE cfg \<and>
     BLOCK_BEGIN_INDEX cfg = 3 + LOG_K cfg \<and> PREFIX_BIT_SIZE cfg = 3 + LOG_K cfg \<and>
     3 + LOG_K cfg + MAX_INTEGER_SIZE cfg * VERTEX_BIT_SIZE cfg \<le> PER_ENCODE_BIT_SIZE cfg \<and>
     MAX_INTEGER_SIZE cfg \<le> MAX_K_CORE_SIZE cfg \<and> MAX_K_CORE_SIZE cfg < 2 ^ LOG_K cfg \<and>
     LOG_K cfg \<le> 16 \<and> 3 + LOG_K cfg < PER_ENCODE_BIT_SIZE cfg"

section \<open>The logarithm\<close>

lemma clog2_le_power: "n \<le> 2 ^ clog2 n"
proof (induction n rule: clog2.induct)
  case (1 n)
  show ?case
  proof (cases "n \<le> 1")
    case True
    then show ?thesis by (subst clog2.simps) simp
  next
    case False
    have "n \<le> 2 * ((n + 1) div 2)" by presburger
    also have "\<dots> \<le> 2 * 2 ^ clog2 ((n + 1) div 2)" using 1 False by simp
    finally show ?thesis using False by (subst clog2.simps) simp
  qed
qed

lemma power_clog2_less: "0 < n \<Longrightarrow> 2 ^ clog2 n < 2 * n"
proof (induction n rule: clog2.induct)
  case (1 n)
  show ?case
  proof (cases "n \<le> 1")
    case True
    then show ?thesis using 1 by (subst clog2.simps) simp
  next
    case False
    then have "2 ^ clog2 ((n + 1) div 2) < 2 * ((n + 1) div 2)" using 1 by simp
    then have le: "2 ^ clog2 ((n + 1) div 2) \<le> 2 * ((n + 1) div 2) - 1" by simp
    have le': "2 * ((n + 1) div 2) - 1 \<le> n" by presburger
    have "2 ^ clog2 ((n + 1) div 2) < n"
    proof (cases "clog2 ((n + 1) div 2)")
      case 0
      then show ?thesis using False by simp
    next
      case (Suc k)
      then have "even (2 ^ clog2 ((n + 1) div 2) :: nat)" by simp
      moreover have "odd (2 * ((n + 1) div 2) - 1 :: nat)" using False by simp
      then have "2 ^ clog2 ((n + 1) div 2) \<noteq> 2 * ((n + 1) div 2) - 1"
        using calculation by metis
      with le le' show ?thesis by linarith
    qed
    then show ?thesis using False by (subst clog2.simps) simp
  qed
qed

lemma clog2_le: "n \<le> 2 ^ k \<Longrightarrow> clog2 n \<le> k"
proof (cases "n = 0")
  case False
  assume "n \<le> 2 ^ k"
  with False power_clog2_less [of n] have "(2 :: nat) ^ clog2 n < 2 ^ Suc k" by simp
  then have "clog2 n < Suc k" by (rule power_less_imp_less_exp [rotated]) simp
  then show ?thesis by simp
qed (simp add: clog2.simps)

lemma clog2_unique:
  assumes "n \<le> 2 ^ k" "2 ^ k < 2 * n"
  shows "clog2 n = k"
proof (rule antisym)
  show "clog2 n \<le> k" using assms(1) by (rule clog2_le)
  have "(2 :: nat) ^ k < 2 ^ Suc (clog2 n)" using assms(2) clog2_le_power [of n] by simp
  then have "k < Suc (clog2 n)" by (rule power_less_imp_less_exp [rotated]) simp
  then show "k \<le> clog2 n" by simp
qed

lemma clog2_pos: "1 < n \<Longrightarrow> 0 < clog2 n"
  by (subst clog2.simps) simp

lemma InitCommonVariables_fields:
  assumes "InitCommonVariables hsimd k v d = Some cfg"
  shows "K_SIZE cfg = k" "VERTEX_SIZE cfg = v" "PER_ENCODE_BIT_SIZE cfg = k * 32" "0 < k" "0 < v"
    "VERTEX_BIT_SIZE cfg = clog2 v" "0 < clog2 v" "HSIMD cfg = hsimd" "DEGREE cfg = d"
    "MAX_K_CORE_SIZE cfg = (k * 32 - 1) div clog2 v" "LOG_K cfg = clog2 (MAX_K_CORE_SIZE cfg + 1)"
    "MAX_INTEGER_SIZE cfg = wsub32 (k * 32 - 3) (LOG_K cfg) div clog2 v"
    "BLOCK_BEGIN_INDEX cfg = 3 + LOG_K cfg"
  using assms
  by (auto simp: InitCommonVariables_def assert_that_def cdiv_def Let_def split: if_splits)

lemma LOG_K_small:
  assumes "0 < (k :: nat)" "k \<le> 64"
  shows "clog2 ((k * 32 - 1) div b + 1) + 3 < k * 32" "clog2 ((k * 32 - 1) div b + 1) \<le> 11"
proof -
  have "(k * 32 - 1) div b \<le> k * 32 - 1" by (rule div_le_dividend)
  then have le: "(k * 32 - 1) div b + 1 \<le> k * 32" using assms(1) by linarith
  then have "clog2 ((k * 32 - 1) div b + 1) \<le> 11" using assms(2) by (intro clog2_le) simp
  then show "clog2 ((k * 32 - 1) div b + 1) \<le> 11" .
  then show "clog2 ((k * 32 - 1) div b + 1) + 3 < k * 32" using assms(1) by linarith
qed

lemma InitHashConfig_wf:
  assumes "InitCommonVariables hsimd k v d = Some cfg" "InitHashConfig ni nc cfg = Some cfg'"
    "k \<le> 64" "v < 2 ^ 32 - 1"
  shows "wf_config cfg'"
proof -
  note f = InitCommonVariables_fields [OF assms(1)]
  define b l where "b = clog2 v" and "l = LOG_K cfg"
  have l: "l = clog2 ((k * 32 - 1) div b + 1)" using f by (simp add: b_def l_def)
  have small: "l + 3 < k * 32" "l \<le> 11" unfolding l using LOG_K_small [OF f(4) assms(3)] by auto
  have M: "MAX_INTEGER_SIZE cfg = (k * 32 - 3 - l) div b" using f(12) small(1) by (simp add: b_def l_def)
  have "b \<le> 32" unfolding b_def using assms(4) by (intro clog2_le) simp
  moreover have "b * ((k * 32 - 1) div b) \<le> k * 32 - 1" "b * ((k * 32 - 3 - l) div b) \<le> k * 32 - 3 - l"
    by (rule times_div_less_eq_dividend)+
  moreover have "(k * 32 - 3 - l) div b \<le> (k * 32 - 1) div b" by (rule div_le_mono) simp
  moreover have "(k * 32 - 1) div b < 2 ^ l"
    using clog2_le_power [of "(k * 32 - 1) div b + 1"] by (simp add: l)
  moreover have "v \<le> 2 ^ b" unfolding b_def by (rule clog2_le_power)
  ultimately have arith: "b \<le> 32" "b * ((k * 32 - 1) div b) \<le> k * 32 - 1"
    "b * ((k * 32 - 3 - l) div b) \<le> k * 32 - 3 - l" "(k * 32 - 3 - l) div b \<le> (k * 32 - 1) div b"
    "(k * 32 - 1) div b < 2 ^ l" "v \<le> 2 ^ b" by blast+
  have cfg': "cfg' = cfg\<lparr>BIT_HASH_BEST_NUMS := 1, INT_HASH_BEST_NUMS := UP_TO_ONE ni,
      COUNT_HASH_BEST_NUMS := UP_TO_ONE nc, PREFIX_BIT_SIZE := l + 3\<rparr>"
    using assms(2) by (simp add: InitHashConfig_def l_def split: bind_splits)
  have "K_SIZE cfg' = k" "VERTEX_SIZE cfg' = v" "PER_ENCODE_BIT_SIZE cfg' = k * 32"
    "VERTEX_BIT_SIZE cfg' = b" "MAX_K_CORE_SIZE cfg' = (k * 32 - 1) div b" "LOG_K cfg' = l"
    "MAX_INTEGER_SIZE cfg' = (k * 32 - 3 - l) div b" "BLOCK_BEGIN_INDEX cfg' = 3 + l" "PREFIX_BIT_SIZE cfg' = 3 + l"
    unfolding cfg' using f(1-3,6,10,13) M by (simp_all add: b_def l_def)
  moreover have "1 + (k * 32 - 1) div b * b \<le> k * 32" "3 + l + (k * 32 - 3 - l) div b * b \<le> k * 32"
    using arith(2,3) small(1) f(4) unfolding mult.commute [of _ b] by linarith+
  ultimately show ?thesis using f(4,5,7) assms(3,4) small arith
    unfolding wf_config_def b_def [symmetric] by (simp add: add.commute)
qed

lemma wf_configD:
  assumes "wf_config cfg"
  shows "PER_ENCODE_BIT_SIZE cfg = K_SIZE cfg * 32" "PER_ENCODE_BIT_SIZE cfg \<le> 2048"
    "0 < VERTEX_BIT_SIZE cfg" "VERTEX_BIT_SIZE cfg \<le> 32"
    "1 + MAX_K_CORE_SIZE cfg * VERTEX_BIT_SIZE cfg \<le> PER_ENCODE_BIT_SIZE cfg"
    "BLOCK_BEGIN_INDEX cfg = 3 + LOG_K cfg" "PREFIX_BIT_SIZE cfg = 3 + LOG_K cfg"
    "3 + LOG_K cfg + MAX_INTEGER_SIZE cfg * VERTEX_BIT_SIZE cfg \<le> PER_ENCODE_BIT_SIZE cfg"
    "MAX_INTEGER_SIZE cfg \<le> MAX_K_CORE_SIZE cfg" "MAX_K_CORE_SIZE cfg < 2 ^ LOG_K cfg"
    "LOG_K cfg \<le> 16" "3 + LOG_K cfg < PER_ENCODE_BIT_SIZE cfg" "0 < K_SIZE cfg"
    "0 < VERTEX_SIZE cfg" "VERTEX_SIZE cfg < 2 ^ 32 - 1"
    "unat (vertex_id_upper cfg) = VERTEX_SIZE cfg + 1"
proof -
  have "VERTEX_SIZE cfg < 2 ^ 32 - 1" using assms by (simp add: wf_config_def)
  then show "unat (vertex_id_upper cfg) = VERTEX_SIZE cfg + 1"
    by (simp add: vertex_id_upper_def unat_word_ariths unat_of_nat)
qed (use assms in \<open>simp_all add: wf_config_def\<close>)

end
