(* ===== verification/Hash_Count.thy ===== *)
theory Hash_Count
  imports Vend_Config "HOL-Library.Multiset"
begin

text \<open>
  \<^verbatim>\<open>HashCount\<close> of \<^verbatim>\<open>encode/hash_count.h\<close> and \<^verbatim>\<open>encode/hash_count.cpp\<close>: for every position of the
  hash part of an encoding, how many neighbours fall there, and how many positions are taken. The
  encoders use it to score the possible encodings of a vertex. The abstract value of a \<^verbatim>\<open>HashCount\<close>
  is the multiset of the positions hashed so far (\<open>hc_rel\<close>); adding and removing a key add and remove
  its position.
\<close>

datatype BlockType = FullHash | LeftMost | RightMost | Middle

record HashCount =
  hash_array :: "u32 list"
  hash_size :: u32
  hash_count :: u32

definition HashCount_new :: "config \<Rightarrow> HashCount" where
  "HashCount_new cfg = \<lparr>hash_array = replicate (PER_ENCODE_BIT_SIZE cfg) 0, hash_size = 0, hash_count = 0\<rparr>"

definition HashCount_sized :: "nat \<Rightarrow> HashCount" where
  "HashCount_sized block_size =
     \<lparr>hash_array = replicate block_size 0, hash_size = of_nat block_size, hash_count = 0\<rparr>"

definition Hash :: "HashCount \<Rightarrow> u32 \<Rightarrow> u32" where
  "Hash hc key = (if hash_size hc = 0 then 0 else key mod hash_size hc)"

definition SetHashSize :: "HashCount \<Rightarrow> u32 \<Rightarrow> HashCount" where
  "SetHashSize hc n = hc\<lparr>hash_size := n\<rparr>"

definition RemoveHash :: "u32 \<Rightarrow> HashCount \<Rightarrow> HashCount option" where
  "RemoveHash key hc = do {
     let hash_val = unat (Hash hc key);
     c \<leftarrow> aget (hash_array hc) hash_val;
     if c > 0 then do {
       a \<leftarrow> aput (hash_array hc) hash_val (c - 1);
       Some (hc\<lparr>hash_array := a,
         hash_count := (if c - 1 = 0 then hash_count hc - 1 else hash_count hc)\<rparr>) }
     else Some hc }"

definition AddHash :: "u32 \<Rightarrow> HashCount \<Rightarrow> HashCount option" where
  "AddHash key hc = do {
     let hash_val = unat (Hash hc key);
     c \<leftarrow> aget (hash_array hc) hash_val;
     a \<leftarrow> aput (hash_array hc) hash_val (c + 1);
     Some (hc\<lparr>hash_array := a,
       hash_count := (if c = 0 then hash_count hc + 1 else hash_count hc)\<rparr>) }"

text \<open>\<^verbatim>\<open>ReConstruct\<close>; the bodies of its two loops are the one of \<^verbatim>\<open>AddHash\<close>. The bound of the reverse
  loop is computed in 32 bits.\<close>

definition ReConstruct :: "config \<Rightarrow> u32 list \<Rightarrow> nat \<Rightarrow> bool \<Rightarrow> HashCount \<Rightarrow> HashCount option" where
  "ReConstruct cfg neighbors block_size reverse hc = do {
     let hc = hc\<lparr>hash_array := replicate (length (hash_array hc)) 0, hash_count := 0,
       hash_size := of_nat (PER_ENCODE_BIT_SIZE cfg) - of_nat (PREFIX_BIT_SIZE cfg)
         - of_nat block_size * of_nat (VERTEX_BIT_SIZE cfg)\<rparr>;
     let neighbor_size = length neighbors mod 2 ^ 32;
     if reverse then
       foldo (\<lambda>i hc. do { v \<leftarrow> aget neighbors i; AddHash v hc })
         [0..<wsub32 (wsub32 neighbor_size block_size) 1] hc
     else
       foldo (\<lambda>i hc. do { v \<leftarrow> aget neighbors i; AddHash v hc }) [block_size..<neighbor_size] hc }"

text \<open>The interval that a block claims: first and last vertex of \<^verbatim>\<open>GetScore\<close> and \<^verbatim>\<open>GetVal\<close>.\<close>

fun block_bounds :: "config \<Rightarrow> u32 list \<Rightarrow> nat \<Rightarrow> nat \<Rightarrow> BlockType \<Rightarrow> (u32 \<times> u32) option" where
  "block_bounds cfg neighbors block_size first_idx FullHash = Some (0, 0)"
| "block_bounds cfg neighbors block_size first_idx LeftMost = do {
     l \<leftarrow> aget neighbors (wsub32 (first_idx + block_size) 1);
     Some (0, l) }"
| "block_bounds cfg neighbors block_size first_idx RightMost = do {
     f \<leftarrow> aget neighbors first_idx;
     Some (f, of_nat (VERTEX_SIZE cfg)) }"
| "block_bounds cfg neighbors block_size first_idx Middle = do {
     f \<leftarrow> aget neighbors first_idx;
     l \<leftarrow> aget neighbors (wsub32 (first_idx + block_size) 1);
     Some (f, l) }"

definition GetScore :: "config \<Rightarrow> HashCount \<Rightarrow> u32 list \<Rightarrow> nat \<Rightarrow> nat \<Rightarrow> BlockType \<Rightarrow> u32 option" where
  "GetScore cfg hc neighbors block_size first_idx type =
     (if type = FullHash then
        if hash_size hc = 0 then None
        else Some (of_nat (VERTEX_SIZE cfg) div hash_size hc * (hash_size hc - hash_count hc))
      else do {
        (first_neighbor, last_neighbor) \<leftarrow> block_bounds cfg neighbors block_size first_idx type;
        let score = last_neighbor - first_neighbor + 1;
        Some (score + (if hash_size hc = 0 then 0
          else (of_nat (VERTEX_SIZE cfg) - last_neighbor + first_neighbor) div hash_size hc
               * (hash_size hc - hash_count hc))) })"

definition Construct :: "u32 list \<Rightarrow> HashCount \<Rightarrow> HashCount option" where
  "Construct neighbors = foldo AddHash neighbors"

text \<open>The loop of \<^verbatim>\<open>GetVal\<close> works on a copy of the first \<^verbatim>\<open>hash_size_\<close> counters.\<close>

fun GetVal_loop :: "HashCount \<Rightarrow> u32 list \<Rightarrow> nat list \<Rightarrow> u32 list \<Rightarrow> u32 \<Rightarrow> u32 option" where
  "GetVal_loop hc neighbors [] hash_copy zero_count = Some zero_count"
| "GetVal_loop hc neighbors (i # is) hash_copy zero_count = do {
     v \<leftarrow> aget neighbors i;
     let val = unat (Hash hc v);
     c \<leftarrow> aget hash_copy val;
     hash_copy \<leftarrow> aput hash_copy val (c - 1);
     GetVal_loop hc neighbors is hash_copy (if c = 1 then zero_count + 1 else zero_count) }"

definition GetVal :: "config \<Rightarrow> HashCount \<Rightarrow> u32 list \<Rightarrow> nat \<Rightarrow> nat \<Rightarrow> BlockType \<Rightarrow> u32 option" where
  "GetVal cfg hc neighbors first_idx block_size type = do {
     assert_that (unat (hash_size hc) \<le> length (hash_array hc));
     let hash_copy = take (unat (hash_size hc)) (hash_array hc);
     zero_count \<leftarrow> GetVal_loop hc neighbors [first_idx..<first_idx + block_size] hash_copy
       (hash_size hc - hash_count hc);
     if type = FullHash then
       Some (if hash_size hc = 0 then 0 else of_nat (VERTEX_SIZE cfg) div hash_size hc * zero_count)
     else do {
       (first_neighbor, last_neighbor) \<leftarrow> block_bounds cfg neighbors block_size first_idx type;
       let score = last_neighbor - first_neighbor + 1;
       Some (if hash_size hc = 0 then score
         else score + (of_nat (VERTEX_SIZE cfg) - last_neighbor + first_neighbor) div hash_size hc * zero_count) } }"

section \<open>The counters as a multiset of positions\<close>

definition hc_rel :: "HashCount \<Rightarrow> nat multiset \<Rightarrow> bool" where
  "hc_rel hc M \<longleftrightarrow> unat (hash_size hc) \<le> length (hash_array hc) \<and> hash_array hc \<noteq> [] \<and> size M < 2 ^ 32 \<and>
     (\<forall>i < length (hash_array hc). unat (hash_array hc ! i) = count M i) \<and>
     (\<forall>i \<in># M. i < length (hash_array hc)) \<and> unat (hash_count hc) = card (set_mset M)"

text \<open>The position of a key, and the geometry that all operations keep.\<close>

abbreviation hash_pos :: "HashCount \<Rightarrow> u32 \<Rightarrow> nat" where
  "hash_pos hc key \<equiv> unat (Hash hc key)"

definition same_geometry :: "HashCount \<Rightarrow> HashCount \<Rightarrow> bool" where
  "same_geometry hc hc' \<longleftrightarrow>
     hash_size hc' = hash_size hc \<and> length (hash_array hc') = length (hash_array hc)"

lemma same_geometry_Hash: "same_geometry hc hc' \<Longrightarrow> Hash hc' = Hash hc"
  by (rule ext) (simp add: same_geometry_def Hash_def)

lemma same_geometry_refl [simp]: "same_geometry hc hc"
  by (simp add: same_geometry_def)

lemma same_geometry_trans: "same_geometry a b \<Longrightarrow> same_geometry b c \<Longrightarrow> same_geometry a c"
  by (simp add: same_geometry_def)

lemma unat_mod_u32: "unat (a mod b) = unat a mod unat (b :: u32)"
  by (simp add: unat_mod)

lemma hash_pos_less:
  assumes "hc_rel hc M"
  shows "hash_pos hc key < length (hash_array hc)"
proof (cases "hash_size hc = 0")
  case True
  then show ?thesis using assms by (simp add: Hash_def hc_rel_def)
next
  case False
  then have "unat key mod unat (hash_size hc) < unat (hash_size hc)"
    by (intro mod_less_divisor) (simp add: unat_gt_0)
  then show ?thesis using False assms by (simp add: Hash_def hc_rel_def unat_mod_u32)
qed

lemma hash_pos_less_size: "0 < hash_size hc \<Longrightarrow> hash_pos hc key < unat (hash_size hc)"
  by (auto simp: Hash_def unat_mod_u32 unat_gt_0 word_gt_0 intro!: mod_less_divisor)

lemma card_set_mset_le_size: "card (set_mset M) \<le> size M"
proof -
  obtain xs where "M = mset xs" by (metis ex_mset)
  then show ?thesis by (simp add: card_length)
qed

lemma unat_add_1_u32: "unat (c :: u32) + 1 < 2 ^ 32 \<Longrightarrow> unat (c + 1) = unat c + 1"
  by (simp add: unat_word_ariths)

lemma unat_minus_1_u32: "0 < (c :: u32) \<Longrightarrow> unat (c - 1) = unat c - 1"
  by (simp add: unat_minus_one word_gt_0)

lemma hc_relD:
  assumes "hc_rel hc M"
  shows "i < length (hash_array hc) \<Longrightarrow> unat (hash_array hc ! i) = count M i"
    "unat (hash_count hc) = card (set_mset M)" "unat (hash_size hc) \<le> length (hash_array hc)"
    "size M < 2 ^ 32"
  using assms by (simp_all add: hc_rel_def)

lemma AddHash_refines:
  assumes "hc_rel hc M" "size M + 1 < 2 ^ 32"
  shows "\<exists>hc'. AddHash key hc = Some hc' \<and> same_geometry hc hc' \<and> hc_rel hc' (add_mset (hash_pos hc key) M)"
proof -
  define p c where "p = hash_pos hc key" and "c = hash_array hc ! p"
  have p: "p < length (hash_array hc)" unfolding p_def using assms(1) by (rule hash_pos_less)
  then have c: "unat c = count M p" using hc_relD(1) [OF assms(1)] by (simp add: c_def)
  have c1: "unat (c + 1) = count M p + 1"
    using c count_le_size [of M p] assms(2) by (subst unat_add_1_u32) simp_all
  have z: "c = 0 \<longleftrightarrow> p \<notin># M" using c by (metis count_eq_zero_iff unat_eq_zero)
  define hc' where "hc' = hc\<lparr>hash_array := (hash_array hc)[p := c + 1],
    hash_count := (if c = 0 then hash_count hc + 1 else hash_count hc)\<rparr>"
  have "unat (hash_count hc') = card (set_mset (add_mset p M))"
    using hc_relD(2) [OF assms(1)] card_set_mset_le_size [of M] assms(2) z
    by (auto simp: hc'_def card_insert_if unat_add_1_u32 insert_absorb)
  then have "hc_rel hc' (add_mset p M)" using assms p c1
    by (auto simp: hc_rel_def hc'_def nth_list_update)
  moreover have "AddHash key hc = Some hc'" "same_geometry hc hc'"
    using p by (simp_all add: AddHash_def hc'_def p_def [symmetric] c_def [symmetric] same_geometry_def)
  ultimately show ?thesis by (auto simp: p_def)
qed

lemma RemoveHash_refines:
  assumes "hc_rel hc M"
  shows "\<exists>hc'. RemoveHash key hc = Some hc' \<and> same_geometry hc hc' \<and> hc_rel hc' (M - {#hash_pos hc key#})"
proof -
  define p c where "p = hash_pos hc key" and "c = hash_array hc ! p"
  have p: "p < length (hash_array hc)" unfolding p_def using assms(1) by (rule hash_pos_less)
  then have c: "unat c = count M p" using hc_relD(1) [OF assms(1)] by (simp add: c_def)
  show ?thesis
  proof (cases "c > 0")
    case True
    define hc' where "hc' = hc\<lparr>hash_array := (hash_array hc)[p := c - 1],
      hash_count := (if c - 1 = 0 then hash_count hc - 1 else hash_count hc)\<rparr>"
    have c1: "unat (c - 1) = count M p - 1" using True c by (simp add: unat_minus_1_u32)
    have mem: "p \<in># M" using True c by (metis count_eq_zero_iff unat_eq_zero word_less_nat_alt unat_0 less_irrefl)
    have z: "c - 1 = 0 \<longleftrightarrow> p \<notin># M - {#p#}"
      using c1 by (metis count_diff count_eq_zero_iff count_single unat_eq_zero)
    have cc: "unat (hash_count hc) = card (set_mset M)" using hc_relD(2) [OF assms] .
    have "unat (hash_count hc') = card (set_mset (M - {#p#}))"
    proof (cases "p \<in># M - {#p#}")
      case True
      then have "set_mset (M - {#p#}) = set_mset M" by (metis insert_DiffM mem set_mset_add_mset_insert insert_absorb)
      then show ?thesis using True cc z by (simp add: hc'_def)
    next
      case False
      then have "set_mset M = insert p (set_mset (M - {#p#}))" by (metis insert_DiffM mem set_mset_add_mset_insert)
      with False have "card (set_mset M) = Suc (card (set_mset (M - {#p#})))" by simp
      moreover from this cc have "0 < hash_count hc" by (metis unat_gt_0 word_gt_0 zero_less_Suc)
      ultimately show ?thesis using False cc z by (simp add: hc'_def unat_minus_1_u32)
    qed
    then have "hc_rel hc' (M - {#p#})" using assms p c1
      by (auto simp: hc_rel_def hc'_def nth_list_update size_Diff_submset dest: in_diffD)
        (meson diff_subset_eq_self le_less_trans size_mset_mono)
    moreover have "RemoveHash key hc = Some hc'" "same_geometry hc hc'"
      using p True by (simp_all add: RemoveHash_def hc'_def p_def [symmetric] c_def [symmetric] same_geometry_def)
    ultimately show ?thesis by (auto simp: p_def)
  next
    case False
    then have "c = 0" by (simp add: word_gt_0)
    then have "p \<notin># M" using c by (simp add: not_in_iff)
    then have "M - {#p#} = M" by simp
    moreover have "RemoveHash key hc = Some hc"
      using p False by (simp add: RemoveHash_def p_def [symmetric] c_def [symmetric])
    ultimately show ?thesis using assms by (auto simp: p_def)
  qed
qed

text \<open>Hashing a sequence of keys.\<close>

lemma foldo_AddHash_refines:
  assumes "hc_rel hc M" "size M + length keys < 2 ^ 32"
  shows "\<exists>hc'. foldo AddHash keys hc = Some hc' \<and> same_geometry hc hc' \<and>
    hc_rel hc' (mset (map (hash_pos hc) keys) + M)"
  using assms
proof (induction keys arbitrary: hc M)
  case (Cons k keys)
  from AddHash_refines [OF Cons.prems(1), of k] Cons.prems(2)
  obtain hc1 where 1: "AddHash k hc = Some hc1" "same_geometry hc hc1"
    "hc_rel hc1 (add_mset (hash_pos hc k) M)" by auto
  from Cons.IH [OF 1(3)] Cons.prems(2) obtain hc2 where
    "foldo AddHash keys hc1 = Some hc2" "same_geometry hc1 hc2"
    "hc_rel hc2 (mset (map (hash_pos hc1) keys) + add_mset (hash_pos hc k) M)" by auto
  with 1 show ?case by (auto simp: same_geometry_Hash intro: same_geometry_trans)
qed simp

lemma foldo_aget:
  assumes "b \<le> length xs" "a \<le> b"
  shows "foldo (\<lambda>i s. do { v \<leftarrow> aget xs i; f v s }) [a..<b] s = foldo f (take (b - a) (drop a xs)) s"
  using assms
proof (induction "b - a" arbitrary: a s)
  case 0
  then show ?case by simp
next
  case (Suc n)
  then have a: "a < b" "a < length xs" by simp_all
  then have "take (b - a) (drop a xs) = xs ! a # take (b - Suc a) (drop (Suc a) xs)"
    using Suc.hyps(2) by (metis Cons_nth_drop_Suc diff_Suc_Suc Suc_diff_Suc take_Suc_Cons)
  moreover have "foldo (\<lambda>i s. do { v \<leftarrow> aget xs i; f v s }) [Suc a..<b]
      = foldo f (take (b - Suc a) (drop (Suc a) xs))"
    using Suc a by (intro ext Suc.hyps(1)) simp_all
  ultimately show ?case using a by (simp add: upt_conv_Cons)
qed

text \<open>The state after \<^verbatim>\<open>ReConstruct\<close>, and while the middle loop moves the block: exactly the
  neighbours outside the block of \<open>n\<close> integers from index \<open>f\<close> on are counted.\<close>

definition hc_fits :: "config \<Rightarrow> nat \<Rightarrow> HashCount \<Rightarrow> bool" where
  "hc_fits cfg n hc \<longleftrightarrow> length (hash_array hc) = PER_ENCODE_BIT_SIZE cfg \<and>
     unat (hash_size hc) = PER_ENCODE_BIT_SIZE cfg - (3 + LOG_K cfg + n * VERTEX_BIT_SIZE cfg)"

definition hc_counts :: "HashCount \<Rightarrow> u32 list \<Rightarrow> bool" where
  "hc_counts hc keys \<longleftrightarrow> hc_rel hc (mset (map (hash_pos hc) keys))"

lemma hc_counts_distinct:
  "hc_counts hc keys \<Longrightarrow> unat (hash_count hc) = card (hash_pos hc ` set keys)"
  by (auto simp: hc_counts_def dest: hc_relD(2))

lemma count_mset_map: "count (mset (map f xs)) i = length (filter (\<lambda>v. f v = i) xs)"
  by (induction xs) auto

lemma same_geometry_hc_fits: "same_geometry hc hc' \<Longrightarrow> hc_fits cfg n hc \<Longrightarrow> hc_fits cfg n hc'"
  by (simp add: same_geometry_def hc_fits_def)

lemma ReConstruct_size:
  assumes "wf_config cfg" "n \<le> MAX_INTEGER_SIZE cfg"
  shows "unat (of_nat (PER_ENCODE_BIT_SIZE cfg) - of_nat (PREFIX_BIT_SIZE cfg)
    - of_nat n * of_nat (VERTEX_BIT_SIZE cfg) :: u32)
    = PER_ENCODE_BIT_SIZE cfg - (3 + LOG_K cfg + n * VERTEX_BIT_SIZE cfg)"
proof -
  note wc = wf_configD [OF assms(1)]
  have "n * VERTEX_BIT_SIZE cfg \<le> MAX_INTEGER_SIZE cfg * VERTEX_BIT_SIZE cfg" using assms(2) by (rule mult_le_mono1)
  with wc(8) have le: "3 + LOG_K cfg + n * VERTEX_BIT_SIZE cfg \<le> PER_ENCODE_BIT_SIZE cfg" by linarith
  then have "of_nat (PER_ENCODE_BIT_SIZE cfg) - of_nat (PREFIX_BIT_SIZE cfg) - of_nat n * of_nat (VERTEX_BIT_SIZE cfg)
    = (of_nat (PER_ENCODE_BIT_SIZE cfg - (3 + LOG_K cfg + n * VERTEX_BIT_SIZE cfg)) :: u32)"
    by (simp add: wc(7) of_nat_diff algebra_simps)
  with wc(2) show ?thesis by (simp only: unat_of_nat) simp
qed

lemma hash_pos_geometry: "same_geometry hc hc' \<Longrightarrow> hash_pos hc' = hash_pos hc"
  by (simp add: same_geometry_Hash)

lemma ReConstruct_refines:
  assumes "wf_config cfg" "n \<le> MAX_INTEGER_SIZE cfg" "length (hash_array hc) = PER_ENCODE_BIT_SIZE cfg"
    "n \<le> length ns" "length ns < 2 ^ 32"
  shows "\<exists>hc'. ReConstruct cfg ns n False hc = Some hc' \<and> hc_fits cfg n hc' \<and> hc_counts hc' (drop n ns)"
    "n + 1 \<le> length ns \<Longrightarrow>
     \<exists>hc'. ReConstruct cfg ns n True hc = Some hc' \<and> hc_fits cfg n hc' \<and> hc_counts hc' (take (length ns - n - 1) ns)"
proof -
  define hc0 where "hc0 = hc\<lparr>hash_array := replicate (length (hash_array hc)) 0, hash_count := 0,
       hash_size := of_nat (PER_ENCODE_BIT_SIZE cfg) - of_nat (PREFIX_BIT_SIZE cfg)
         - of_nat n * of_nat (VERTEX_BIT_SIZE cfg)\<rparr>"
  have fits: "hc_fits cfg n hc0"
    unfolding hc_fits_def using assms(3) ReConstruct_size [OF assms(1,2)] by (simp add: hc0_def)
  have "PER_ENCODE_BIT_SIZE cfg \<noteq> 0" using wf_configD(12) [OF assms(1)] by simp
  with fits assms(3) have rel: "hc_rel hc0 {#}"
    by (auto simp: hc_rel_def hc_fits_def hc0_def)
  have run: "\<exists>hc'. foldo AddHash keys hc0 = Some hc' \<and> hc_fits cfg n hc' \<and> hc_counts hc' keys"
    if len: "length keys < 2 ^ 32" for keys
  proof -
    from len have "size ({#} :: nat multiset) + length keys < 2 ^ 32" by simp
    from foldo_AddHash_refines [OF rel this] obtain hc' where
      "foldo AddHash keys hc0 = Some hc'" "same_geometry hc0 hc'" "hc_rel hc' (mset (map (hash_pos hc0) keys))"
      by auto
    with fits show ?thesis by (auto simp: hc_counts_def hash_pos_geometry same_geometry_hc_fits)
  qed
  show "\<exists>hc'. ReConstruct cfg ns n False hc = Some hc' \<and> hc_fits cfg n hc' \<and> hc_counts hc' (drop n ns)"
    using run [of "drop n ns"] assms(4,5)
    by (simp add: ReConstruct_def Let_def hc0_def [symmetric] foldo_aget)
  assume "n + 1 \<le> length ns"
  then show "\<exists>hc'. ReConstruct cfg ns n True hc = Some hc' \<and> hc_fits cfg n hc' \<and>
      hc_counts hc' (take (length ns - n - 1) ns)"
    using run [of "take (length ns - n - 1) ns"] assms(4,5) foldo_aget [of "length ns - n - 1" ns 0 AddHash hc0]
    by (simp add: ReConstruct_def Let_def hc0_def [symmetric])
qed

text \<open>Moving the block of \<open>n\<close> integers by one.\<close>

lemma shift_block_mset:
  assumes "f + n < length ns"
  shows "mset (take (Suc f) ns @ drop (Suc f + n) ns) = add_mset (ns ! f) (mset (take f ns @ drop (f + n) ns)) - {#ns ! (f + n)#}"
proof -
  have "drop (f + n) ns = ns ! (f + n) # drop (Suc f + n) ns" using assms by (simp add: Cons_nth_drop_Suc)
  moreover have "take (Suc f) ns = take f ns @ [ns ! f]" using assms by (simp add: take_Suc_conv_app_nth)
  ultimately show ?thesis by simp
qed

lemma shift_block_counts:
  assumes "hc_counts hc (take f ns @ drop (f + n) ns)" "f + n < length ns" "length ns < 2 ^ 32" "0 < n"
  shows "\<exists>hc1 hc2. AddHash (ns ! f) hc = Some hc1 \<and> RemoveHash (ns ! (f + n)) hc1 = Some hc2 \<and>
    same_geometry hc hc2 \<and> hc_counts hc2 (take (Suc f) ns @ drop (Suc f + n) ns)"
proof -
  let ?out = "take f ns @ drop (f + n) ns"
  have "size (mset (map (hash_pos hc) ?out)) + 1 < 2 ^ 32" using assms(2-4) by simp
  from AddHash_refines [OF assms(1) [unfolded hc_counts_def] this, of "ns ! f"] obtain hc1 where
    1: "AddHash (ns ! f) hc = Some hc1" "same_geometry hc hc1"
    "hc_rel hc1 (add_mset (hash_pos hc (ns ! f)) (mset (map (hash_pos hc) ?out)))" by blast
  from RemoveHash_refines [OF 1(3), of "ns ! (f + n)"] obtain hc2 where
    2: "RemoveHash (ns ! (f + n)) hc1 = Some hc2" "same_geometry hc1 hc2"
    "hc_rel hc2 (add_mset (hash_pos hc (ns ! f)) (mset (map (hash_pos hc) ?out)) - {#hash_pos hc1 (ns ! (f + n))#})"
    by blast
  have g: "same_geometry hc hc2" using 1(2) 2(2) by (rule same_geometry_trans)
  have "ns ! (f + n) \<in># add_mset (ns ! f) (mset ?out)"
    using assms(2) by (simp add: Cons_nth_drop_Suc [symmetric])
  then have "image_mset (hash_pos hc) (add_mset (ns ! f) (mset ?out) - {#ns ! (f + n)#})
      = add_mset (hash_pos hc (ns ! f)) (image_mset (hash_pos hc) (mset ?out)) - {#hash_pos hc (ns ! (f + n))#}"
    by (simp add: image_mset_Diff)
  then have "mset (map (hash_pos hc2) (take (Suc f) ns @ drop (Suc f + n) ns))
      = add_mset (hash_pos hc (ns ! f)) (mset (map (hash_pos hc) ?out)) - {#hash_pos hc1 (ns ! (f + n))#}"
    unfolding mset_map shift_block_mset [OF assms(2)] same_geometry_Hash [OF g] same_geometry_Hash [OF 1(2)] .
  with 2(3) have "hc_counts hc2 (take (Suc f) ns @ drop (Suc f + n) ns)" by (simp only: hc_counts_def)
  with 1(1) 2(1) g show ?thesis by blast
qed

text \<open>The score of a block that starts at the first neighbour is not zero: it counts the vertices up to
  the last one of the block, and no sum or product of it leaves 32 bits.\<close>

lemma hash_count_le_size:
  assumes "hc_counts hc keys" "hash_size hc \<noteq> 0"
  shows "hash_count hc \<le> hash_size hc"
proof -
  have "hash_pos hc ` set keys \<subseteq> {..<unat (hash_size hc)}"
    using assms(2) by (auto intro: hash_pos_less_size simp: word_gt_0)
  then have "card (hash_pos hc ` set keys) \<le> card {..<unat (hash_size hc)}" by (intro card_mono) simp_all
  with hc_counts_distinct [OF assms(1)] show ?thesis by (simp add: word_le_nat_alt)
qed

lemma LeftMost_score_pos:
  assumes "hc_counts hc keys" "wf_config cfg" "0 < n" "n \<le> length ns" "length ns < 2 ^ 32"
    "unat (ns ! (n - 1)) \<le> VERTEX_SIZE cfg"
  shows "\<exists>s. GetScore cfg hc ns n 0 LeftMost = Some s \<and> 0 < s"
proof -
  define l V :: u32 where "l = ns ! (n - 1)" and "V = of_nat (VERTEX_SIZE cfg)"
  have V: "unat V = VERTEX_SIZE cfg" "unat V + 1 < 2 ^ 32"
    using wf_configD(15) [OF assms(2)] by (simp_all add: V_def unat_of_nat)
  have lV: "unat l \<le> unat V" using assms(6) V(1) by (simp add: l_def)
  define t where "t = (if hash_size hc = 0 then 0 else (V - l) div hash_size hc * (hash_size hc - hash_count hc))"
  have t: "unat t \<le> unat V - unat l"
  proof (cases "hash_size hc = 0")
    case False
    define s c where "s = hash_size hc" and "c = hash_count hc"
    have "c \<le> s" unfolding s_def c_def using assms(1) False by (rule hash_count_le_size)
    have Vl: "unat (V - l) = unat V - unat l" using lV by (simp add: unat_sub word_le_nat_alt)
    have "unat ((V - l) div s) * unat (s - c) \<le> (unat V - unat l) div unat s * unat s"
      using \<open>c \<le> s\<close> Vl by (simp add: unat_div unat_sub word_le_nat_alt)
    also have "\<dots> \<le> unat V - unat l" by (simp add: div_times_less_eq_dividend)
    finally have le: "unat ((V - l) div s) * unat (s - c) \<le> unat V - unat l" .
    then have "unat ((V - l) div s * (s - c)) = unat ((V - l) div s) * unat (s - c)"
      using V(2) by (subst unat_mult_lem [symmetric]) simp
    with le False show ?thesis by (simp add: t_def s_def c_def)
  qed (simp add: t_def)
  have "unat (l + 1) = unat l + 1" using lV V(2) by (intro unat_add_1_u32) simp
  moreover from this have "unat (l + 1 + t) = unat (l + 1) + unat t"
    using t lV V(2) by (subst unat_add_lem [symmetric]) simp
  ultimately have "0 < l + 1 + t" by (simp add: word_less_nat_alt)
  moreover have "GetScore cfg hc ns n 0 LeftMost = Some (l + 1 + t)"
    using assms(3-5) by (simp add: GetScore_def Let_def l_def t_def V_def)
  ultimately show ?thesis by blast
qed

end
