(* ===== verification/Hybrid_Encode.thy ===== *)
theory Hybrid_Encode
  imports Block_Store Hash_Count
begin

text \<open>
  \<^verbatim>\<open>HybridEncode\<close> of \<^verbatim>\<open>encode/single/hybrid_encode.h\<close> and \<^verbatim>\<open>.cpp\<close>, on the array of bit sets that its base
  class \<^verbatim>\<open>EncodeBitSet\<close> owns. One bit set per vertex, in one of two formats:

  \<^item> decodable: flag bit 1, then all neighbours, \<open>VERTEX_BIT_SIZE\<close> bits each;
  \<^item> partial: flag bit 0, two bits for the kind of block, \<open>LOG_K\<close> bits for the number of integers,
    the integers (a run of consecutive neighbours), and a hash bitmap of the other neighbours.

  \<open>DynamicChoose\<close> searches for the run with the best score. The array \<^verbatim>\<open>encode_bitset_\<close> is a list of bit
  sets indexed by vertex id, and \<open>db\<close> is what \<^verbatim>\<open>DbQuery\<close> returns for a vertex.
\<close>

section \<open>The base class\<close>

type_synonym encoding = "bitset list"

definition EncodeBitSet :: "config \<Rightarrow> encoding" where
  "EncodeBitSet cfg = map (\<lambda>i. BitSetSIMD (PER_ENCODE_BIT_SIZE cfg)) [0..<VERTEX_SIZE cfg + 1]"

definition EncodeBitSet_sized :: "nat \<Rightarrow> nat \<Rightarrow> encoding" where
  "EncodeBitSet_sized bit_size vertex_size = map (\<lambda>i. BitSetSIMD bit_size) [0..<vertex_size + 1]"

datatype EncodeType = UnFull | Full | NonDecodable

fun encode_type_code :: "EncodeType \<Rightarrow> nat" where
  "encode_type_code UnFull = 0"
| "encode_type_code Full = 1"
| "encode_type_code NonDecodable = 2"

record DecodeInfo =
  decodable :: bool
  di_block_num :: nat
  di_hash_begin :: nat
  di_min :: u32
  di_max :: u32

text \<open>One line of the file that \<^verbatim>\<open>EncodePersistent\<close> writes: a key and the words of its encoding. The
  text format (decimal numbers, tabs, line feeds) is that of the C++ streams.\<close>

type_synonym encode_line = "nat \<times> u32 list"

definition EncodePersistent :: "config \<Rightarrow> encoding \<Rightarrow> encode_line list option" where
  "EncodePersistent cfg st =
     foldo (\<lambda>i out. do { e \<leftarrow> aget st i; ws \<leftarrow> Dump e; Some (out @ [(i, ws)]) })
       [1..<VERTEX_SIZE cfg + 1] []"

definition LoadFromDb :: "encode_line list \<Rightarrow> encoding \<Rightarrow> encoding option" where
  "LoadFromDb lines st =
     foldo (\<lambda>(key, ws) st. do { e \<leftarrow> aget st key; e \<leftarrow> BlockSet_words e ws; aput st key e }) lines st"

section \<open>Reading an encoding\<close>

definition IsDecodable :: "encoding \<Rightarrow> u32 \<Rightarrow> bool option" where
  "IsDecodable st vertex = do { e \<leftarrow> aget st (unat vertex); IsOne e 0 }"

definition GetBlockModel :: "encoding \<Rightarrow> u32 \<Rightarrow> BlockType option" where
  "GetBlockModel st vertex = do {
     e \<leftarrow> aget st (unat vertex);
     b1 \<leftarrow> IsOne e 1;
     if b1 then Some RightMost
     else do {
       b2 \<leftarrow> IsOne e 2;
       if \<not> b2 then Some LeftMost else Some Middle } }"

definition GetBlockModel_enc :: "bitset \<Rightarrow> BlockType option" where
  "GetBlockModel_enc e = do {
     b1 \<leftarrow> GetSecondBit e;
     if b1 then Some RightMost
     else do {
       b2 \<leftarrow> GetThridBit e;
       if b2 then Some Middle else Some LeftMost } }"

fun SetBlockModel :: "bitset \<Rightarrow> BlockType \<Rightarrow> bitset option" where
  "SetBlockModel bs LeftMost = BlockSet bs 1 2 0"
| "SetBlockModel bs FullHash = BlockSet bs 1 2 1"
| "SetBlockModel bs Middle = BlockSet bs 1 2 1"
| "SetBlockModel bs RightMost = BlockSet bs 1 2 3"

definition IsFull :: "config \<Rightarrow> encoding \<Rightarrow> u32 \<Rightarrow> bool option" where
  "IsFull cfg st vertex = do {
     e \<leftarrow> aget st (unat vertex);
     v \<leftarrow> BlockGet e (wsub32 (PER_ENCODE_BIT_SIZE cfg) (VERTEX_BIT_SIZE cfg)) (VERTEX_BIT_SIZE cfg);
     Some (v \<noteq> 0) }"

definition GetBlockSize :: "config \<Rightarrow> encoding \<Rightarrow> u32 \<Rightarrow> u32 option" where
  "GetBlockSize cfg st vertex = do { e \<leftarrow> aget st (unat vertex); BlockGet e 3 (LOG_K cfg) }"

definition GetHashBegin :: "config \<Rightarrow> encoding \<Rightarrow> u32 \<Rightarrow> nat option" where
  "GetHashBegin cfg st vertex = do {
     n \<leftarrow> GetBlockSize cfg st vertex;
     Some ((unat n * VERTEX_BIT_SIZE cfg + 3 + LOG_K cfg) mod 2 ^ 32) }"

definition GetEncodeType :: "config \<Rightarrow> encoding \<Rightarrow> u32 \<Rightarrow> EncodeType option" where
  "GetEncodeType cfg st vertex = do {
     d \<leftarrow> IsDecodable st vertex;
     if \<not> d then Some NonDecodable
     else do {
       f \<leftarrow> IsFull cfg st vertex;
       if f then Some Full else Some UnFull } }"

text \<open>\<^verbatim>\<open>HybridEncode::Hash\<close>: the position of a vertex in the hash part.\<close>

definition HybridHash :: "config \<Rightarrow> u32 \<Rightarrow> nat \<Rightarrow> nat option" where
  "HybridHash cfg vertex_id hash_begin =
     (let d = wsub32 (PER_ENCODE_BIT_SIZE cfg) hash_begin in
      if d = 0 then None else Some ((unat vertex_id mod d + hash_begin) mod 2 ^ 32))"

definition hash_answer :: "config \<Rightarrow> bitset \<Rightarrow> u32 \<Rightarrow> nat \<Rightarrow> PairType option" where
  "hash_answer cfg e vertex2 hash_begin =
     (if hash_begin = PER_ENCODE_BIT_SIZE cfg then Some Uncertain
      else do {
        p \<leftarrow> HybridHash cfg vertex2 hash_begin;
        b \<leftarrow> IsOne e p;
        if b then Some Uncertain else Some NonNeighbor })"

definition find_block :: "config \<Rightarrow> bitset \<Rightarrow> nat \<Rightarrow> nat \<Rightarrow> u32 \<Rightarrow> PairType option" where
  "find_block cfg e begin block_num v =
     (if \<not> HSIMD cfg then BlockFind e begin (VERTEX_BIT_SIZE cfg) block_num v
      else BlockFindSIMD e begin (VERTEX_BIT_SIZE cfg) block_num v)"

definition NonNeighborTest :: "config \<Rightarrow> encoding \<Rightarrow> u32 \<Rightarrow> u32 \<Rightarrow> PairType option" where
  "NonNeighborTest cfg st vertex1 vertex2 = do {
     e \<leftarrow> aget st (unat vertex1);
     dec \<leftarrow> IsDecodable st vertex1;
     if dec then find_block cfg e 1 (MAX_K_CORE_SIZE cfg) vertex2
     else do {
       block_num \<leftarrow> GetBlockNum (LOG_K cfg) e;
       type \<leftarrow> GetBlockModel st vertex1;
       let hash_begin = block_num * VERTEX_BIT_SIZE cfg + 3 + LOG_K cfg;
       mi \<leftarrow> (if type \<noteq> LeftMost then
               (if block_num = 0 then Some 0 else BlockGet e (3 + LOG_K cfg) (VERTEX_BIT_SIZE cfg))
              else Some 0);
       ma \<leftarrow> (if type \<noteq> RightMost then
               (if block_num = 0 then Some 0
                else BlockGet e (3 + LOG_K cfg + (block_num - 1) * VERTEX_BIT_SIZE cfg) (VERTEX_BIT_SIZE cfg))
              else Some (vertex_id_upper cfg));
       if vertex2 < mi \<or> vertex2 > ma then hash_answer cfg e vertex2 hash_begin
       else find_block cfg e (BLOCK_BEGIN_INDEX cfg) block_num vertex2 } }"

text \<open>\<^verbatim>\<open>Decode\<close> and the test on decoded information; the fields that the source leaves alone keep the
  value of \<open>di\<close>.\<close>

definition Decode :: "config \<Rightarrow> encoding \<Rightarrow> u32 \<Rightarrow> DecodeInfo \<Rightarrow> DecodeInfo option" where
  "Decode cfg st vertex di = do {
     e \<leftarrow> aget st (unat vertex);
     b0 \<leftarrow> IsOne e 0;
     if b0 then Some (di\<lparr>decodable := True\<rparr>)
     else do {
       n \<leftarrow> GetBlockNum (LOG_K cfg) e;
       let di = di\<lparr>decodable := False, di_block_num := n\<rparr>;
       if n = 0 then Some (di\<lparr>di_hash_begin := BLOCK_BEGIN_INDEX cfg mod 2 ^ 16, di_max := 0, di_min := 0\<rparr>)
       else do {
         type \<leftarrow> GetBlockModel_enc e;
         mi \<leftarrow> (if type \<noteq> LeftMost then BlockGet e (BLOCK_BEGIN_INDEX cfg) (VERTEX_BIT_SIZE cfg) else Some 0);
         ma \<leftarrow> (if type \<noteq> RightMost
                 then BlockGet e (BLOCK_BEGIN_INDEX cfg + (n - 1) * VERTEX_BIT_SIZE cfg) (VERTEX_BIT_SIZE cfg)
                 else Some (vertex_id_upper cfg));
         Some (di\<lparr>di_min := mi, di_max := ma,
           di_hash_begin := (BLOCK_BEGIN_INDEX cfg + n * VERTEX_BIT_SIZE cfg) mod 2 ^ 16\<rparr>) } } }"

definition NonNeighborTest_info :: "config \<Rightarrow> encoding \<Rightarrow> u32 \<Rightarrow> DecodeInfo \<Rightarrow> u32 \<Rightarrow> PairType option" where
  "NonNeighborTest_info cfg st vertex1 di vertex2 = do {
     e \<leftarrow> aget st (unat vertex1);
     if decodable di then BlockFind e 1 (VERTEX_BIT_SIZE cfg) (MAX_K_CORE_SIZE cfg) vertex2
     else if vertex2 - di_min di \<le> di_max di - di_min di
     then BlockFind e (BLOCK_BEGIN_INDEX cfg) (VERTEX_BIT_SIZE cfg) (di_block_num di) vertex2
     else hash_answer cfg e vertex2 (di_hash_begin di) }"

definition NEpairTest_info ::
    "config \<Rightarrow> encoding \<Rightarrow> u32 \<Rightarrow> DecodeInfo \<Rightarrow> u32 \<Rightarrow> DecodeInfo \<Rightarrow> PairType option" where
  "NEpairTest_info cfg st vertex1 di1 vertex2 di2 =
     (if decodable di1 \<and> \<not> decodable di2 then NonNeighborTest_info cfg st vertex1 di1 vertex2
      else if \<not> decodable di1 \<and> decodable di2 then NonNeighborTest_info cfg st vertex2 di2 vertex1
      else if decodable di1 \<and> decodable di2 then do {
        type1 \<leftarrow> NonNeighborTest_info cfg st vertex1 di1 vertex2;
        if type1 = Neighbor then Some Neighbor
        else NonNeighborTest_info cfg st vertex2 di2 vertex1 }
      else do {
        type1 \<leftarrow> NonNeighborTest_info cfg st vertex1 di1 vertex2;
        if type1 \<noteq> Uncertain then Some type1
        else NonNeighborTest_info cfg st vertex2 di2 vertex1 })"

text \<open>\<^verbatim>\<open>NEpairTest\<close> with \<^verbatim>\<open>UNDIRECTED == 1\<close>.\<close>

definition NEpairTest :: "config \<Rightarrow> encoding \<Rightarrow> u32 \<Rightarrow> u32 \<Rightarrow> PairType option" where
  "NEpairTest cfg st vertex1 vertex2 = do {
     t1 \<leftarrow> IsDecodable st vertex1;
     t2 \<leftarrow> IsDecodable st vertex2;
     let swap = (\<not> t1 \<and> t2);
     let (t1, t2) = (if swap then (t2, t1) else (t1, t2));
     let (vertex1, vertex2) = (if swap then (vertex2, vertex1) else (vertex1, vertex2));
     type1 \<leftarrow> NonNeighborTest cfg st vertex1 vertex2;
     if t1 \<and> \<not> t2 then Some type1
     else do {
       type2 \<leftarrow> NonNeighborTest cfg st vertex2 vertex1;
       Some (min type1 type2) } }"

section \<open>Writing an encoding\<close>

definition SetNonDecodable :: "config \<Rightarrow> u32 list \<Rightarrow> u32 list \<Rightarrow> BlockType \<Rightarrow> bitset \<Rightarrow> bitset option" where
  "SetNonDecodable cfg neighbor_encode neighbor_left type bs = do {
     let bs = ClearBits bs;
     bs \<leftarrow> SetZero bs 0;
     bs \<leftarrow> SetBlockModel bs type;
     bs \<leftarrow> BlockSet bs 3 (LOG_K cfg) (of_nat (length neighbor_encode));
     bs \<leftarrow> put_blocks BlockSet bs (3 + LOG_K cfg) (VERTEX_BIT_SIZE cfg) neighbor_encode;
     let hash_begin = (length neighbor_encode * VERTEX_BIT_SIZE cfg + LOG_K cfg + 3) mod 2 ^ 32;
     if hash_begin = PER_ENCODE_BIT_SIZE cfg then Some bs
     else foldo (\<lambda>v bs. do { p \<leftarrow> HybridHash cfg v hash_begin; SetOne bs p }) neighbor_left bs }"

text \<open>A half open range of the neighbours; iterators past the end have no defined result.\<close>

definition slice :: "nat \<Rightarrow> nat \<Rightarrow> 'a list \<Rightarrow> 'a list option" where
  "slice a b xs = (if a \<le> b \<and> b \<le> length xs then Some (take (b - a) (drop a xs)) else None)"

definition ChooseHighest :: "config \<Rightarrow> u32 list \<Rightarrow> HashCount \<Rightarrow> nat \<Rightarrow> nat \<Rightarrow> BlockType \<Rightarrow>
    u32 \<times> bitset \<Rightarrow> (u32 \<times> bitset) option" where
  "ChooseHighest cfg neighbors hc block_size first_idx type = (\<lambda>(max_score, best_bitset). do {
     score \<leftarrow> GetScore cfg hc neighbors block_size first_idx type;
     if max_score < score then do {
       neighbor_encode \<leftarrow> slice first_idx (first_idx + block_size) neighbors;
       left1 \<leftarrow> (if first_idx > 0 then slice 0 first_idx neighbors else Some []);
       left2 \<leftarrow> (if wsub32 (first_idx + block_size) 1 \<noteq> length neighbors
                  then slice (first_idx + block_size) (length neighbors) neighbors else Some []);
       bs \<leftarrow> SetNonDecodable cfg neighbor_encode (left1 @ left2) type best_bitset;
       Some (score, bs) }
     else Some (max_score, best_bitset) })"

text \<open>The loop over \<^verbatim>\<open>first_idx\<close> for the blocks that contain neither end.\<close>

definition middle_step :: "config \<Rightarrow> u32 list \<Rightarrow> nat \<Rightarrow> nat \<Rightarrow>
    HashCount \<times> u32 \<times> bitset \<Rightarrow> (HashCount \<times> u32 \<times> bitset) option" where
  "middle_step cfg neighbors block_size first_idx = (\<lambda>(hc, best). do {
     a \<leftarrow> aget neighbors (first_idx - 1);
     hc \<leftarrow> AddHash a hc;
     r \<leftarrow> aget neighbors (first_idx + block_size - 1);
     hc \<leftarrow> RemoveHash r hc;
     best \<leftarrow> ChooseHighest cfg neighbors hc block_size first_idx Middle best;
     Some (hc, best) })"

definition block_size_step :: "config \<Rightarrow> u32 list \<Rightarrow> nat \<Rightarrow>
    HashCount \<times> u32 \<times> bitset \<Rightarrow> (HashCount \<times> u32 \<times> bitset) option" where
  "block_size_step cfg neighbors block_size = (\<lambda>(hc, best). do {
     let neighbor_size = length neighbors mod 2 ^ 32;
     hc \<leftarrow> ReConstruct cfg neighbors block_size False hc;
     best \<leftarrow> ChooseHighest cfg neighbors hc block_size 0 LeftMost best;
     if block_size = 1 then do {
       hc \<leftarrow> ReConstruct cfg neighbors block_size True hc;
       best \<leftarrow> ChooseHighest cfg neighbors hc block_size (wsub32 neighbor_size block_size) RightMost best;
       Some (hc, best) }
     else do {
       let bound = wsub32 (wsub32 neighbor_size block_size) 1;
       (hc, best) \<leftarrow> foldo (middle_step cfg neighbors block_size) [1..<bound + 1] (hc, best);
       best \<leftarrow> ChooseHighest cfg neighbors hc block_size (bound + 1) RightMost best;
       Some (hc, best) } })"

definition DynamicChoose :: "config \<Rightarrow> encoding \<Rightarrow> u32 \<Rightarrow> u32 list \<Rightarrow> (encoding \<times> u32) option" where
  "DynamicChoose cfg st vertex neighbors = do {
     bs \<leftarrow> aget st (unat vertex);
     hc \<leftarrow> ReConstruct cfg neighbors 0 False (HashCount_new cfg);
     best \<leftarrow> ChooseHighest cfg neighbors hc 0 0 FullHash (0, bs);
     (_, max_score, bs) \<leftarrow> foldo (block_size_step cfg neighbors) [1..<MAX_INTEGER_SIZE cfg + 1] (hc, best);
     st \<leftarrow> aput st (unat vertex) bs;
     Some (st, max_score) }"

definition EncodeVertex :: "config \<Rightarrow> u32 \<Rightarrow> u32 list \<Rightarrow> encoding \<Rightarrow> encoding option" where
  "EncodeVertex cfg vertex_id neighbors st =
     (if length neighbors \<le> MAX_K_CORE_SIZE cfg then do {
        e \<leftarrow> aget st (unat vertex_id);
        e \<leftarrow> SetOne e 0;
        e \<leftarrow> put_blocks BlockSet e 1 (VERTEX_BIT_SIZE cfg) neighbors;
        aput st (unat vertex_id) e }
      else do {
        (st, _) \<leftarrow> DynamicChoose cfg st vertex_id neighbors;
        Some st })"

section \<open>Updates\<close>

definition InsertPair :: "config \<Rightarrow> (u32 \<Rightarrow> u32 list) \<Rightarrow> u32 \<Rightarrow> u32 \<Rightarrow> encoding \<Rightarrow> encoding option" where
  "InsertPair cfg db vertex1 vertex2 st = do {
     t \<leftarrow> NEpairTest cfg st vertex1 vertex2;
     if t = Uncertain then Some st
     else do {
       t1 \<leftarrow> GetEncodeType cfg st vertex1;
       t2 \<leftarrow> GetEncodeType cfg st vertex2;
       let (vertex1, vertex2) =
         (if encode_type_code t1 > encode_type_code t2 then (vertex2, vertex1) else (vertex1, vertex2));
       let neighbor2 = db vertex2;
       let neighbor1 = db vertex1 @ [vertex2];
       st \<leftarrow> EncodeVertex cfg vertex1 neighbor1 st;
       EncodeVertex cfg vertex2 neighbor2 st } }"

definition RestructChoose :: "config \<Rightarrow> u32 \<Rightarrow> u32 list \<Rightarrow> u32 \<Rightarrow> u32 list \<Rightarrow> encoding \<Rightarrow> encoding option" where
  "RestructChoose cfg vertex1 neighbor1 vertex2 neighbor2 st = do {
     (st, _) \<leftarrow> DynamicChoose cfg st vertex1 neighbor1;
     (st, _) \<leftarrow> DynamicChoose cfg st vertex2 neighbor2;
     Some st }"

definition RemoveNeighbor :: "config \<Rightarrow> (u32 \<Rightarrow> u32 list) \<Rightarrow> u32 \<Rightarrow> u32 \<Rightarrow> encoding \<Rightarrow> encoding option" where
  "RemoveNeighbor cfg db vertex1 vertex2 st =
     EncodeVertex cfg vertex1 (filter (\<lambda>v. v \<noteq> vertex2) (db vertex1)) st"

definition DeletePair :: "config \<Rightarrow> (u32 \<Rightarrow> u32 list) \<Rightarrow> u32 \<Rightarrow> u32 \<Rightarrow> encoding \<Rightarrow> encoding option" where
  "DeletePair cfg db vertex1 vertex2 st = do {
     t \<leftarrow> NonNeighborTest cfg st vertex1 vertex2;
     st \<leftarrow> (if t \<noteq> NonNeighbor then RemoveNeighbor cfg db vertex1 vertex2 st else Some st);
     t \<leftarrow> NonNeighborTest cfg st vertex2 vertex1;
     if t = NonNeighbor then RemoveNeighbor cfg db vertex2 vertex1 st else Some st }"

text \<open>\<^verbatim>\<open>GetBlockInteger\<close>. The first loop stops at the first zero block.\<close>

function GetBlockInteger_loop :: "config \<Rightarrow> bitset \<Rightarrow> nat \<Rightarrow> u32 list \<Rightarrow> u32 list option" where
  "GetBlockInteger_loop cfg e index out =
     (if index \<le> wsub32 (PER_ENCODE_BIT_SIZE cfg) (VERTEX_BIT_SIZE cfg) + 1 \<and> 0 < VERTEX_BIT_SIZE cfg then do {
        v \<leftarrow> BlockGet e index (VERTEX_BIT_SIZE cfg);
        if v = 0 then Some out
        else GetBlockInteger_loop cfg e (index + VERTEX_BIT_SIZE cfg) (out @ [v]) }
      else Some out)"
  by pat_completeness auto
termination
  by (relation "measure (\<lambda>(cfg, e, index, out).
        wsub32 (PER_ENCODE_BIT_SIZE cfg) (VERTEX_BIT_SIZE cfg) + 2 - index)") auto

definition GetBlockInteger :: "config \<Rightarrow> encoding \<Rightarrow> u32 \<Rightarrow> u32 list option" where
  "GetBlockInteger cfg st vertex = do {
     e \<leftarrow> aget st (unat vertex);
     d \<leftarrow> IsDecodable st vertex;
     if d then GetBlockInteger_loop cfg e 1 []
     else do {
       n \<leftarrow> GetBlockSize cfg st vertex;
       foldo (\<lambda>i out. do {
           v \<leftarrow> BlockGet e (3 + LOG_K cfg + i * VERTEX_BIT_SIZE cfg) (VERTEX_BIT_SIZE cfg);
           Some (out @ [v]) }) [0..<unat n] [] } }"

declare GetBlockInteger_loop.simps [simp del]

end
