(* ===== verification/Encoder_Interface.thy ===== *)
theory Encoder_Interface
  imports Bit_Set
begin

text \<open>
  The contract that every vertex encoder of VEND promises to the rest of the program. \<open>encode v ns\<close>
  is \<^verbatim>\<open>EncodeVertex\<close>, \<open>test v u\<close> is \<^verbatim>\<open>NonNeighborTest\<close>; \<open>holds s v ns\<close> says that the state encodes the
  neighbours \<open>ns\<close> at \<open>v\<close>. From the two laws (encoding a vertex establishes its content and leaves
  the other vertices alone; the test is sound for the content) follow the properties of the
  clients: a whole graph encoded vertex by vertex, and the tests of pairs.
\<close>

text \<open>What an answer promises: \<^verbatim>\<open>Uncertain\<close> nothing, the other two the truth.\<close>

definition answer_ok :: "PairType \<Rightarrow> bool \<Rightarrow> bool" where
  "answer_ok r adj \<longleftrightarrow> (r = Neighbor \<longrightarrow> adj) \<and> (r = NonNeighbor \<longrightarrow> \<not> adj)"

lemma answer_ok_simps [simp]:
  "answer_ok Neighbor adj = adj" "answer_ok NonNeighbor adj = (\<not> adj)" "answer_ok Uncertain adj"
  by (simp_all add: answer_ok_def)

lemma answer_ok_min: "answer_ok a p \<Longrightarrow> answer_ok b p \<Longrightarrow> answer_ok (min a b) p"
  by (simp add: min_def)

text \<open>Encoding the vertices of a graph one after the other, the loop of every \<^verbatim>\<open>BuildEncoding\<close>.\<close>

definition build_all :: "('v \<Rightarrow> 'n \<Rightarrow> 's \<Rightarrow> 's option) \<Rightarrow> ('v \<Rightarrow> 'n) \<Rightarrow> 'v list \<Rightarrow> 's \<Rightarrow> 's option" where
  "build_all encode adj vs s = foldo (\<lambda>v s. encode v (adj v) s) vs s"

locale vertex_encoder =
  fixes inv :: "'s \<Rightarrow> bool"
    and ready :: "'s \<Rightarrow> u32 \<Rightarrow> bool"
    and holds :: "'s \<Rightarrow> u32 \<Rightarrow> u32 list \<Rightarrow> bool"
    and vertex :: "'s \<Rightarrow> u32 \<Rightarrow> bool"
    and valid :: "'s \<Rightarrow> u32 list \<Rightarrow> bool"
    and encode :: "u32 \<Rightarrow> u32 list \<Rightarrow> 's \<Rightarrow> 's option"
    and test :: "'s \<Rightarrow> u32 \<Rightarrow> u32 \<Rightarrow> PairType option"
    and conf :: "'s \<Rightarrow> 'c"
  assumes encode_law: "\<lbrakk>inv s; vertex s v; valid s ns; ready s v\<rbrakk> \<Longrightarrow>
      \<exists>s'. encode v ns s = Some s' \<and> inv s' \<and> holds s' v ns \<and> conf s' = conf s \<and>
        (\<forall>w. vertex s w \<longrightarrow> w \<noteq> v \<longrightarrow> (ready s w \<longrightarrow> ready s' w) \<and> (\<forall>ms. holds s w ms \<longrightarrow> holds s' w ms))"
    and test_law: "\<lbrakk>inv s; vertex s v; vertex s u; holds s v ns; valid s ns\<rbrakk> \<Longrightarrow>
      \<exists>r. test s v u = Some r \<and> answer_ok r (u \<in> set ns)"
    and vertex_conf: "conf s' = conf s \<Longrightarrow> vertex s' v = vertex s v"
    and valid_conf: "conf s' = conf s \<Longrightarrow> valid s' ns = valid s ns"
begin

lemma build_law:
  assumes "inv s" "distinct vs" "\<forall>v \<in> set vs. vertex s v \<and> valid s (adj v) \<and> ready s v"
  shows "\<exists>s'. build_all encode adj vs s = Some s' \<and> inv s' \<and> conf s' = conf s \<and>
    (\<forall>v \<in> set vs. holds s' v (adj v)) \<and>
    (\<forall>w ms. vertex s w \<longrightarrow> w \<notin> set vs \<longrightarrow> holds s w ms \<longrightarrow> holds s' w ms)"
  using assms
proof (induction vs arbitrary: s)
  case Nil
  then show ?case by (simp add: build_all_def)
next
  case (Cons v vs)
  then obtain s1 where s1: "encode v (adj v) s = Some s1" "inv s1" "holds s1 v (adj v)" "conf s1 = conf s"
    "\<And>w. vertex s w \<Longrightarrow> w \<noteq> v \<Longrightarrow> (ready s w \<longrightarrow> ready s1 w) \<and> (\<forall>ms. holds s w ms \<longrightarrow> holds s1 w ms)"
    using encode_law [of s v "adj v"] by auto
  note same = vertex_conf [OF s1(4)] valid_conf [OF s1(4)]
  have "\<forall>w \<in> set vs. vertex s1 w \<and> valid s1 (adj w) \<and> ready s1 w"
  proof
    fix w assume "w \<in> set vs"
    with Cons.prems(2,3) have "vertex s w" "w \<noteq> v" "ready s w" "valid s (adj w)" by auto
    with s1(5) [of w] same show "vertex s1 w \<and> valid s1 (adj w) \<and> ready s1 w" by simp
  qed
  with Cons.IH [OF s1(2)] Cons.prems(2) obtain s2 where s2: "build_all encode adj vs s1 = Some s2" "inv s2"
    "conf s2 = conf s1" "\<forall>w \<in> set vs. holds s2 w (adj w)"
    "\<forall>w ms. vertex s1 w \<longrightarrow> w \<notin> set vs \<longrightarrow> holds s1 w ms \<longrightarrow> holds s2 w ms" by auto
  have "holds s2 v (adj v)" using s2(5) s1(3) Cons.prems(2,3) same by simp
  with s1 s2 same show ?case by (auto simp: build_all_def)
qed

text \<open>In an undirected graph both tests of a pair speak of the same edge.\<close>

definition encodes_graph :: "'s \<Rightarrow> (u32 \<Rightarrow> u32 list) \<Rightarrow> bool" where
  "encodes_graph s adj \<longleftrightarrow> inv s \<and>
     (\<forall>v. vertex s v \<longrightarrow> holds s v (adj v) \<and> valid s (adj v)) \<and>
     (\<forall>u v. vertex s u \<longrightarrow> vertex s v \<longrightarrow> (u \<in> set (adj v) \<longleftrightarrow> v \<in> set (adj u)))"

lemma both_tests_sound:
  assumes "encodes_graph s adj" "vertex s v" "vertex s u"
  shows "\<exists>r. test s v u = Some r \<and> answer_ok r (u \<in> set (adj v))"
    and "\<exists>r. test s u v = Some r \<and> answer_ok r (u \<in> set (adj v))"
  using test_law [of s v u "adj v"] test_law [of s u v "adj u"] assms
  by (auto simp: encodes_graph_def)

lemma build_graph:
  assumes "inv s" "\<And>v. vertex s v \<Longrightarrow> v \<in> set vs" "distinct vs"
    "\<forall>v \<in> set vs. vertex s v \<and> valid s (adj v) \<and> ready s v"
    "\<And>u v. vertex s u \<Longrightarrow> vertex s v \<Longrightarrow> u \<in> set (adj v) \<longleftrightarrow> v \<in> set (adj u)"
  shows "\<exists>s'. build_all encode adj vs s = Some s' \<and> conf s' = conf s \<and> encodes_graph s' adj"
proof -
  obtain s' where s': "build_all encode adj vs s = Some s'" "inv s'" "conf s' = conf s" "\<forall>v \<in> set vs. holds s' v (adj v)"
    using build_law [OF assms(1,3,4)] by blast
  have "encodes_graph s' adj"
    using s' assms vertex_conf [OF s'(3)] valid_conf [OF s'(3)] by (auto simp: encodes_graph_def)
  with s' show ?thesis by blast
qed

end

end
