(* ===== verification/Hybrid_Laws.thy ===== *)
theory Hybrid_Laws
  imports Hybrid_Encode Encoder_Interface
begin

text \<open>
  Correctness of the hybrid encoding. \<open>partial_fields\<close> says what \<open>SetNonDecodable\<close> leaves in the bit
  set, \<open>encodes\<close> what any encoding of a list of neighbours looks like, and the test is sound on
  everything that satisfies \<open>encodes\<close>; then \<open>DynamicChoose\<close> and \<open>EncodeVertex\<close> are shown to produce it.
\<close>

section \<open>The fields of an encoding\<close>

definition good_ids :: "config \<Rightarrow> u32 list \<Rightarrow> bool" where
  "good_ids cfg ns \<longleftrightarrow> sorted ns \<and> length ns \<le> VERTEX_SIZE cfg \<and>
     (\<forall>x \<in> set ns. 0 < x \<and> unat x < 2 ^ VERTEX_BIT_SIZE cfg \<and> unat x \<le> VERTEX_SIZE cfg)"

definition good_config :: "config \<Rightarrow> bool" where
  "good_config cfg \<longleftrightarrow> wf_config cfg \<and> 0 < MAX_INTEGER_SIZE cfg"

text \<open>The tests read the number of integers from bit 3 on and the ids one after the other. They are defined when
  these blocks can be read: ids of at least eight bits, and a count of at most five bits (one byte with
  the flags in front of it) or of at least eight.\<close>

definition readable_config :: "config \<Rightarrow> bool" where
  "readable_config cfg \<longleftrightarrow> good_config cfg \<and> 8 \<le> VERTEX_BIT_SIZE cfg \<and> readable 3 (LOG_K cfg)"

definition wf_enc :: "config \<Rightarrow> bitset \<Rightarrow> bool" where
  "wf_enc cfg e \<longleftrightarrow> wf_bs e \<and> bs_size e = K_SIZE cfg * 4"

definition hash_start :: "config \<Rightarrow> nat \<Rightarrow> nat" where
  "hash_start cfg n = 3 + LOG_K cfg + n * VERTEX_BIT_SIZE cfg"

definition hash_slot :: "config \<Rightarrow> nat \<Rightarrow> u32 \<Rightarrow> nat" where
  "hash_slot cfg h v = unat v mod (PER_ENCODE_BIT_SIZE cfg - h) + h"

fun model_bits :: "BlockType \<Rightarrow> bool \<times> bool" where
  "model_bits LeftMost = (False, False)"
| "model_bits FullHash = (False, True)"
| "model_bits Middle = (False, True)"
| "model_bits RightMost = (True, True)"

definition partial_fields :: "config \<Rightarrow> bitset \<Rightarrow> BlockType \<Rightarrow> u32 list \<Rightarrow> u32 list \<Rightarrow> bool" where
  "partial_fields cfg e type m left \<longleftrightarrow> wf_enc cfg e \<and> \<not> bitat e 0 \<and>
     (bitat e 1, bitat e 2) = model_bits type \<and>
     block_val e 3 (LOG_K cfg) = of_nat (length m) \<and>
     blocks_val e (3 + LOG_K cfg) (VERTEX_BIT_SIZE cfg) (length m) = m \<and>
     (let h = hash_start cfg (length m) in h < PER_ENCODE_BIT_SIZE cfg \<longrightarrow>
        (\<forall>v \<in> set left. bitat e (hash_slot cfg h v)))"

text \<open>A run \<open>m\<close> of the neighbours \<open>a @ m @ c\<close> that its type allows.\<close>

definition type_ok :: "BlockType \<Rightarrow> 'a list \<Rightarrow> 'a list \<Rightarrow> 'a list \<Rightarrow> bool" where
  "type_ok type a m c \<longleftrightarrow> (case type of
     FullHash \<Rightarrow> m = []
   | LeftMost \<Rightarrow> a = [] \<and> m \<noteq> []
   | RightMost \<Rightarrow> c = [] \<and> m \<noteq> []
   | Middle \<Rightarrow> m \<noteq> [])"

definition encodes :: "config \<Rightarrow> bitset \<Rightarrow> u32 list \<Rightarrow> bool" where
  "encodes cfg e ns \<longleftrightarrow>
     (wf_enc cfg e \<and> bitat e 0 \<and> (\<exists>k. blocks_val e 1 (VERTEX_BIT_SIZE cfg) (MAX_K_CORE_SIZE cfg) = ns @ replicate k 0))
   \<or> (\<exists>type a m c. ns = a @ m @ c \<and> type_ok type a m c \<and> length m \<le> MAX_INTEGER_SIZE cfg \<and>
        partial_fields cfg e type m (a @ c))"

lemma good_configD:
  assumes "good_config cfg"
  shows "wf_config cfg" "0 < MAX_INTEGER_SIZE cfg" "0 < LOG_K cfg" "0 < MAX_K_CORE_SIZE cfg"
proof -
  show "wf_config cfg" "0 < MAX_INTEGER_SIZE cfg" using assms by (simp_all add: good_config_def)
  with wf_configD(9,10) [of cfg] show "0 < LOG_K cfg" "0 < MAX_K_CORE_SIZE cfg"
    by (cases "LOG_K cfg"; simp)+
qed

lemma readable_configD:
  assumes "readable_config cfg"
  shows "good_config cfg" "8 \<le> VERTEX_BIT_SIZE cfg" "readable 3 (LOG_K cfg)"
  using assms by (simp_all add: readable_config_def)

lemma wf_encD:
  assumes "wf_config cfg" "wf_enc cfg e"
  shows "wf_bs e" "8 * bs_size e = PER_ENCODE_BIT_SIZE cfg" "bs_size e \<le> 256"
proof -
  show "wf_bs e" using assms(2) by (simp add: wf_enc_def)
  show "8 * bs_size e = PER_ENCODE_BIT_SIZE cfg" using assms(2) wf_configD(1) [OF assms(1)] by (simp add: wf_enc_def)
  with wf_configD(2) [OF assms(1)] show "bs_size e \<le> 256" by linarith
qed

lemma hash_start_le:
  assumes "wf_config cfg" "n \<le> MAX_INTEGER_SIZE cfg"
  shows "hash_start cfg n \<le> PER_ENCODE_BIT_SIZE cfg"
proof -
  have "n * VERTEX_BIT_SIZE cfg \<le> MAX_INTEGER_SIZE cfg * VERTEX_BIT_SIZE cfg" using assms(2) by (rule mult_le_mono1)
  with wf_configD(8) [OF assms(1)] show ?thesis unfolding hash_start_def by linarith
qed

lemma hash_slot_bounds:
  assumes "h < PER_ENCODE_BIT_SIZE cfg"
  shows "h \<le> hash_slot cfg h v" "hash_slot cfg h v < PER_ENCODE_BIT_SIZE cfg"
proof -
  have "unat v mod (PER_ENCODE_BIT_SIZE cfg - h) < PER_ENCODE_BIT_SIZE cfg - h" using assms by simp
  then show "h \<le> hash_slot cfg h v" "hash_slot cfg h v < PER_ENCODE_BIT_SIZE cfg"
    by (simp_all add: hash_slot_def)
qed

lemma HybridHash_eq:
  assumes "wf_config cfg" "h < PER_ENCODE_BIT_SIZE cfg"
  shows "HybridHash cfg v h = Some (hash_slot cfg h v)"
proof -
  have "hash_slot cfg h v < 2 ^ 32"
    using hash_slot_bounds(2) [OF assms(2), of v] wf_configD(2) [OF assms(1)] by simp
  with assms(2) show ?thesis by (simp add: HybridHash_def hash_slot_def Let_def)
qed

section \<open>Writing a partial encoding\<close>

lemma SetBlockModel_correct:
  assumes "wf_bs e" "1 \<le> bs_size e"
  shows "\<exists>v. unat v < 2 ^ 2 \<and> SetBlockModel e type = Some (block_upd e 1 2 v) \<and> model_bits type = (bit v 1, bit v 0)"
proof -
  define v :: u32 where "v = (case type of LeftMost \<Rightarrow> 0 | RightMost \<Rightarrow> 3 | _ \<Rightarrow> 1)"
  have "\<not> bit (1 :: u32) (Suc 0)" "bit (3 :: u32) (Suc 0)" "bit (3 :: u32) 0"
    by (simp_all add: bit_iff_odd)
  with assms have "unat v < 2 ^ 2 \<and> SetBlockModel e type = Some (block_upd e 1 2 v) \<and>
      model_bits type = (bit v 1, bit v 0)"
    by (cases type) (auto simp: v_def)
  then show ?thesis by blast
qed

lemma of_nat_length_fits:
  assumes "wf_config cfg" "n \<le> MAX_INTEGER_SIZE cfg"
  shows "unat (of_nat n :: u32) = n" "n < 2 ^ LOG_K cfg" "n < 2 ^ 16"
proof -
  show lt: "n < 2 ^ LOG_K cfg" using wf_configD(9,10) [OF assms(1)] assms(2) by simp
  also have "(2 :: nat) ^ LOG_K cfg \<le> 2 ^ 16" using wf_configD(11) [OF assms(1)] by (intro power_increasing) simp_all
  finally show "n < 2 ^ 16" .
  then show "unat (of_nat n :: u32) = n" by (simp add: unat_of_nat)
qed

lemma SetNonDecodable_split:
  assumes "wf_config cfg" "length m \<le> MAX_INTEGER_SIZE cfg"
  shows "SetNonDecodable cfg m left type e = do {
    e \<leftarrow> SetNonDecodable cfg m [] type e;
    if hash_start cfg (length m) = PER_ENCODE_BIT_SIZE cfg then Some e
    else foldo (\<lambda>v bs. do { p \<leftarrow> HybridHash cfg v (hash_start cfg (length m)); SetOne bs p }) left e }"
proof -
  have hb: "(length m * VERTEX_BIT_SIZE cfg + LOG_K cfg + 3) mod 2 ^ 32 = hash_start cfg (length m)"
    using hash_start_le [OF assms] wf_configD(2) [OF assms(1)] by (simp add: hash_start_def)
  show ?thesis unfolding SetNonDecodable_def Let_def hb
    by (cases "hash_start cfg (length m) = PER_ENCODE_BIT_SIZE cfg") (simp_all add: Option.bind_assoc)
qed

lemma SetNonDecodable_header:
  assumes "good_config cfg" "wf_enc cfg e" "length m \<le> MAX_INTEGER_SIZE cfg" "\<forall>x \<in> set m. unat x < 2 ^ VERTEX_BIT_SIZE cfg"
  shows "\<exists>e'. SetNonDecodable cfg m [] type e = Some e' \<and> partial_fields cfg e' type m []"
proof -
  note cfg = good_configD [OF assms(1)]
  note wc = wf_configD [OF cfg(1)]
  note we = wf_encD [OF cfg(1) assms(2)]
  have big: "3 + LOG_K cfg < 8 * bs_size e" using wc(12) we(2) by simp
  define e0 where "e0 = bit_upd (ClearBits e) 0 False"
  have e0: "wf_bs e0" "bs_size e0 = bs_size e" "\<And>p. p < 8 * bs_size e \<Longrightarrow> \<not> bitat e0 p"
    "SetZero (ClearBits e) 0 = Some e0"
    using we(1) big by (simp_all add: e0_def)
  obtain v where v: "unat v < 2 ^ 2" "SetBlockModel e0 type = Some (block_upd e0 1 2 v)" "model_bits type = (bit v 1, bit v 0)"
    using SetBlockModel_correct [OF e0(1)] e0(2) big by auto
  define e1 where "e1 = block_upd e0 1 2 v"
  note n = of_nat_length_fits [OF cfg(1) assms(3)]
  define e2 where "e2 = block_upd e1 3 (LOG_K cfg) (of_nat (length m))"
  have set2: "BlockSet e1 3 (LOG_K cfg) (of_nat (length m)) = Some e2"
    unfolding e2_def using e0 big cfg(3) wc(11) n by (intro BlockSet_correct) (simp_all add: e1_def)
  have s2: "wf_bs e2" "bs_size e2 = bs_size e" by (simp_all add: e2_def e1_def e0)
  have fit: "3 + LOG_K cfg + VERTEX_BIT_SIZE cfg * length m \<le> 8 * bs_size e2"
    using hash_start_le [OF cfg(1) assms(3)] we(2) s2(2) by (simp add: hash_start_def mult.commute)
  obtain e3 where e3: "put_blocks BlockSet e2 (3 + LOG_K cfg) (VERTEX_BIT_SIZE cfg) m = Some e3"
    "wf_bs e3" "bs_size e3 = bs_size e2" "blocks_val e3 (3 + LOG_K cfg) (VERTEX_BIT_SIZE cfg) (length m) = m"
    "\<And>q. q < 3 + LOG_K cfg \<Longrightarrow> bitat e3 q = bitat e2 q"
    using put_blocks_BlockSet [OF s2(1) fit wc(3,4)] s2(2) we(3) assms(4) big by auto
  have low: "bitat e3 0 = False" "bitat e3 1 = bit v 1" "bitat e3 2 = bit v 0"
    using e3(5) [of 0] e3(5) [of 1] e3(5) [of 2] e0 big s2(2) by (simp_all add: e2_def e1_def)
  have "block_val e3 3 (LOG_K cfg) = block_val e2 3 (LOG_K cfg)"
    by (rule block_val_cong) (use e3(5) in auto)
  also have "\<dots> = of_nat (length m)" unfolding e2_def
    using n wc(11) big e0(2) by (intro block_val_upd_same) (simp_all add: e1_def)
  finally have "partial_fields cfg e3 type m []"
    using e3(2-4) low s2 v(3) assms(2) by (simp add: partial_fields_def wf_enc_def Let_def)
  moreover have "SetNonDecodable cfg m [] type e = Some e3"
    unfolding SetNonDecodable_def Let_def e0(4) by (simp add: v(2) e1_def [symmetric] set2 e3(1) del: One_nat_def)
  ultimately show ?thesis by blast
qed

lemma blocks_val_cong:
  assumes "\<And>q. b \<le> q \<Longrightarrow> q < b + k * n \<Longrightarrow> bitat e q = bitat e' q"
  shows "blocks_val e b n k = blocks_val e' b n k"
proof -
  have "block_val e (b + i * n) n = block_val e' (b + i * n) n" if "i < k" for i
  proof (rule block_val_cong, rule assms)
    fix p assume p: "b + i * n \<le> p" "p < b + i * n + n"
    then show "b \<le> p" by simp
    have "(i + 1) * n \<le> k * n" using that by (intro mult_le_mono1) simp
    with p(2) show "p < b + k * n" by simp
  qed
  then show ?thesis by (simp add: blocks_val_def)
qed

lemma partial_fields_hash:
  assumes "wf_config cfg" "partial_fields cfg e type m []" "h = hash_start cfg (length m)" "h < PER_ENCODE_BIT_SIZE cfg"
  shows "\<exists>e'. foldo (\<lambda>v bs. do { p \<leftarrow> HybridHash cfg v h; SetOne bs p }) left e = Some e' \<and>
    partial_fields cfg e' type m left"
proof -
  note slot = hash_slot_bounds [OF assms(4)] and hash = HybridHash_eq [OF assms(1,4)]
  have we: "wf_enc cfg e" using assms(2) by (simp add: partial_fields_def)
  note we' = wf_encD [OF assms(1) we]
  obtain e4 where e4: "foldo (\<lambda>v bs. do { p \<leftarrow> HybridHash cfg v h; SetOne bs p }) left e = Some e4"
    "wf_bs e4" "8 * bs_size e4 = 8 * bs_size e"
    "\<And>q. q < 8 * bs_size e \<Longrightarrow> bitat e4 q \<longleftrightarrow> bitat e q \<or> (\<exists>v \<in> set left. HybridHash cfg v h = Some q)"
    using bs.set_positions_law [OF we'(1), of left "\<lambda>v. HybridHash cfg v h"] hash slot(2) we'(2) by auto
  have same: "bitat e4 q = bitat e q" if "q < h" for q
    using e4(4) [of q] that assms(4) we'(2) slot(1) hash by (fastforce dest: leD)
  have h3: "3 + LOG_K cfg + length m * VERTEX_BIT_SIZE cfg = h" by (simp add: assms(3) hash_start_def)
  have "bitat e4 0 = bitat e 0" "bitat e4 1 = bitat e 1" "bitat e4 2 = bitat e 2" using same h3 by simp_all
  moreover have "block_val e4 3 (LOG_K cfg) = block_val e 3 (LOG_K cfg)"
    by (rule block_val_cong) (use same h3 in simp)
  moreover have "blocks_val e4 (3 + LOG_K cfg) (VERTEX_BIT_SIZE cfg) (length m) =
      blocks_val e (3 + LOG_K cfg) (VERTEX_BIT_SIZE cfg) (length m)"
    by (rule blocks_val_cong) (use same h3 in simp)
  moreover have "bitat e4 (hash_slot cfg h x)" if "x \<in> set left" for x
    using that e4(4) [of "hash_slot cfg h x"] slot(2) [of x] hash [of x] we'(2) by auto
  ultimately have "partial_fields cfg e4 type m left"
    using assms(2) e4(2,3) we by (simp add: partial_fields_def wf_enc_def assms(3) [symmetric] Let_def)
  with e4(1) show ?thesis by blast
qed

lemma SetNonDecodable_correct:
  assumes "good_config cfg" "wf_enc cfg e" "length m \<le> MAX_INTEGER_SIZE cfg" "\<forall>x \<in> set m. unat x < 2 ^ VERTEX_BIT_SIZE cfg"
  shows "\<exists>e'. SetNonDecodable cfg m left type e = Some e' \<and> partial_fields cfg e' type m left"
proof -
  note cfg = good_configD(1) [OF assms(1)]
  obtain e1 where e1: "SetNonDecodable cfg m [] type e = Some e1" "partial_fields cfg e1 type m []"
    using SetNonDecodable_header [OF assms] by blast
  have eq: "SetNonDecodable cfg m left type e = (if hash_start cfg (length m) = PER_ENCODE_BIT_SIZE cfg then Some e1
    else foldo (\<lambda>v bs. do { p \<leftarrow> HybridHash cfg v (hash_start cfg (length m)); SetOne bs p }) left e1)"
    by (subst SetNonDecodable_split [OF cfg assms(3)]) (simp add: e1(1))
  show ?thesis
  proof (cases "hash_start cfg (length m) = PER_ENCODE_BIT_SIZE cfg")
    case True
    with e1(2) have "partial_fields cfg e1 type m left" by (simp add: partial_fields_def Let_def)
    with True eq show ?thesis by simp
  next
    case False
    then have "hash_start cfg (length m) < PER_ENCODE_BIT_SIZE cfg"
      using hash_start_le [OF cfg assms(3)] by simp
    from partial_fields_hash [OF cfg e1(2) refl this] False eq show ?thesis by simp
  qed
qed

section \<open>The test is sound on every encoding\<close>

lemma find_block_correct:
  assumes "wf_config cfg" "wf_enc cfg e" "b + VERTEX_BIT_SIZE cfg * k \<le> PER_ENCODE_BIT_SIZE cfg" "v \<noteq> 0"
    and "blocks_val e b (VERTEX_BIT_SIZE cfg) k = xs @ replicate j 0" "sorted xs" "8 \<le> VERTEX_BIT_SIZE cfg"
  shows "find_block cfg e b k v = Some (if v \<in> set xs then Neighbor else NonNeighbor)"
proof -
  note wc = wf_configD(3,4) [OF assms(1)] and we = wf_encD [OF assms(1,2)]
  have "scan (xs @ replicate j 0) v = scan xs v"
    using assms(4) by (intro scan_append_small) (simp add: word_gt_0)
  then have "scan (xs @ replicate j 0) v \<longleftrightarrow> v \<in> set xs" using scan_sorted [OF assms(6)] by simp
  moreover have "v \<in> set (xs @ replicate j 0) \<longleftrightarrow> v \<in> set xs" using assms(4) by auto
  ultimately show ?thesis using we wc assms(3-5,7) by (simp add: find_block_def)
qed

lemma hash_answer_correct:
  assumes "wf_config cfg" "partial_fields cfg e type m left" "length m \<le> MAX_INTEGER_SIZE cfg"
    and "v \<in> set ns \<Longrightarrow> v \<in> set left"
  shows "\<exists>r. hash_answer cfg e v (hash_start cfg (length m)) = Some r \<and> r \<noteq> Neighbor \<and> answer_ok r (v \<in> set ns)"
proof (cases "hash_start cfg (length m) = PER_ENCODE_BIT_SIZE cfg")
  case False
  define h where "h = hash_start cfg (length m)"
  have h: "h < PER_ENCODE_BIT_SIZE cfg" using False hash_start_le [OF assms(1,3)] by (simp add: h_def)
  have e: "wf_enc cfg e" "\<And>x. x \<in> set left \<Longrightarrow> bitat e (hash_slot cfg h x)"
    using assms(2) h by (simp_all add: partial_fields_def h_def Let_def)
  have "hash_answer cfg e v h = Some (if bitat e (hash_slot cfg h v) then Uncertain else NonNeighbor)"
    using wf_encD [OF assms(1) e(1)] hash_slot_bounds [OF h, of v] HybridHash_eq [OF assms(1) h, of v] h
    by (simp add: hash_answer_def)
  with e(2) assms(4) show ?thesis by (auto simp: h_def)
qed (simp add: hash_answer_def)

lemma run_covers:
  assumes "sorted (a @ m @ c)" "m \<noteq> []" "a = [] \<or> hd m \<le> v" "c = [] \<or> v \<le> last m"
  shows "v \<in> set (a @ m @ c) \<longleftrightarrow> v \<in> set m"
proof
  assume v: "v \<in> set (a @ m @ c)"
  have hd: "\<forall>x \<in> set a. x \<le> hd m" and last: "\<forall>x \<in> set c. last m \<le> x"
    using assms(1,2) by (auto simp: sorted_append)
  from v consider "v \<in> set a" | "v \<in> set m" | "v \<in> set c" by auto
  then show "v \<in> set m"
  proof cases
    case 1
    with hd assms(3) have "v = hd m" by (metis antisym empty_iff list.set(1))
    with assms(2) show ?thesis by simp
  next
    case 3
    with last assms(4) have "v = last m" by (metis antisym empty_iff list.set(1))
    with assms(2) show ?thesis by simp
  qed
qed auto

lemma run_excludes:
  assumes "sorted (a @ m @ c)" "m \<noteq> []" "v < hd m \<or> last m < v"
  shows "v \<notin> set m"
proof -
  have "sorted m" using assms(1) by (simp add: sorted_append)
  have "hd m \<le> x \<and> x \<le> last m" if "x \<in> set m" for x
  proof -
    from that obtain i where i: "i < length m" "x = m ! i" by (auto simp: in_set_conv_nth)
    then have "m ! 0 \<le> m ! i" "m ! i \<le> m ! (length m - 1)" using \<open>sorted m\<close>
      by (auto intro: sorted_nth_mono)
    with i assms(2) show ?thesis by (simp add: hd_conv_nth last_conv_nth)
  qed
  with assms(3) show ?thesis by (meson leD)
qed

text \<open>What the test reads from a partial encoding.\<close>

lemma partial_reads:
  assumes "readable_config cfg" "unat v1 < length st" "st ! unat v1 = e" "partial_fields cfg e type m left"
    "length m \<le> MAX_INTEGER_SIZE cfg"
  shows "IsDecodable st v1 = Some False" "GetBlockNum (LOG_K cfg) e = Some (length m)"
    "GetBlockModel st v1 = Some (if type = FullHash then Middle else type)"
    "i < length m \<Longrightarrow> BlockGet e (3 + LOG_K cfg + i * VERTEX_BIT_SIZE cfg) (VERTEX_BIT_SIZE cfg) = Some (m ! i)"
proof -
  note rc = readable_configD [OF assms(1)]
  note cfg = good_configD [OF rc(1)]
  note wc = wf_configD [OF cfg(1)] and n = of_nat_length_fits [OF cfg(1) assms(5)]
  have e: "wf_enc cfg e" "\<not> bitat e 0" "(bitat e 1, bitat e 2) = model_bits type"
    "block_val e 3 (LOG_K cfg) = of_nat (length m)"
    "blocks_val e (3 + LOG_K cfg) (VERTEX_BIT_SIZE cfg) (length m) = m"
    using assms(4) by (simp_all add: partial_fields_def)
  note we = wf_encD [OF cfg(1) e(1)]
  have big: "3 + LOG_K cfg \<le> 8 * bs_size e" using wc(12) we(2) by simp
  show "IsDecodable st v1 = Some False" using assms(2,3) e(2) we(1) big by (simp add: IsDecodable_def)
  show "GetBlockNum (LOG_K cfg) e = Some (length m)"
    using we(1) big cfg(3) wc(11) n e(4) rc(3) by (simp add: GetBlockNum_def)
  show "GetBlockModel st v1 = Some (if type = FullHash then Middle else type)"
    using assms(2,3) we(1) big e(3) by (cases type) (simp_all add: GetBlockModel_def)
  assume i: "i < length m"
  then have "(i + 1) * VERTEX_BIT_SIZE cfg \<le> length m * VERTEX_BIT_SIZE cfg" by (intro mult_le_mono1) simp
  then have "3 + LOG_K cfg + i * VERTEX_BIT_SIZE cfg + VERTEX_BIT_SIZE cfg \<le> 8 * bs_size e"
    using hash_start_le [OF cfg(1) assms(5)] we(2) by (simp add: hash_start_def)
  then show "BlockGet e (3 + LOG_K cfg + i * VERTEX_BIT_SIZE cfg) (VERTEX_BIT_SIZE cfg) = Some (m ! i)"
    using we(1) wc(3,4) rc(2) i nth_blocks_val [of i "length m" e "3 + LOG_K cfg" "VERTEX_BIT_SIZE cfg"] e(5) by simp
qed

lemma partial_test_eq:
  assumes "readable_config cfg" "unat v1 < length st" "st ! unat v1 = e" "partial_fields cfg e type m left"
    "length m \<le> MAX_INTEGER_SIZE cfg" "sorted m" "v2 \<noteq> 0" "type \<noteq> FullHash \<longleftrightarrow> m \<noteq> []"
  shows "NonNeighborTest cfg st v1 v2 =
    (if m = [] \<or> v2 < (if type = LeftMost then 0 else hd m) \<or>
        v2 > (if type = RightMost then vertex_id_upper cfg else last m)
     then hash_answer cfg e v2 (hash_start cfg (length m))
     else Some (if v2 \<in> set m then Neighbor else NonNeighbor))"
proof -
  note rc = readable_configD [OF assms(1)]
  note cfg = good_configD [OF rc(1)]
  note wc = wf_configD [OF cfg(1)] and reads = partial_reads [OF assms(1-5)]
  have e: "wf_enc cfg e" "blocks_val e (3 + LOG_K cfg) (VERTEX_BIT_SIZE cfg) (length m) = m @ replicate 0 0"
    using assms(4) by (simp_all add: partial_fields_def)
  have find: "find_block cfg e (3 + LOG_K cfg) (length m) v2 = Some (if v2 \<in> set m then Neighbor else NonNeighbor)"
    using find_block_correct [OF cfg(1) e(1) _ assms(7) e(2) assms(6)] rc(2) hash_start_le [OF cfg(1) assms(5)]
    by (simp add: hash_start_def mult.commute)
  have hs: "length m * VERTEX_BIT_SIZE cfg + 3 + LOG_K cfg = hash_start cfg (length m)"
    by (simp add: hash_start_def)
  show ?thesis
  proof (cases "m = []")
    case True
    with assms(2,3,7,8) reads(1-3) hs show ?thesis by (simp add: NonNeighborTest_def Let_def word_gt_0)
  next
    case False
    with reads(4) [of 0] reads(4) [of "length m - 1"] assms(2,3,8) reads(1-3) find hs wc(6) show ?thesis
      by (cases type) (simp_all add: NonNeighborTest_def Let_def hd_conv_nth last_conv_nth)
  qed
qed

lemma partial_test_correct:
  assumes "readable_config cfg" "unat v1 < length st" "st ! unat v1 = e"
    and "partial_fields cfg e type m (a @ c)" "type_ok type a m c" "length m \<le> MAX_INTEGER_SIZE cfg"
    and "good_ids cfg (a @ m @ c)" "v2 \<noteq> 0"
  shows "\<exists>r. NonNeighborTest cfg st v1 v2 = Some r \<and> answer_ok r (v2 \<in> set (a @ m @ c))"
proof -
  note rc = readable_configD [OF assms(1)]
  note cfg = good_configD [OF rc(1)]
  define mi ma where "mi = (if type = LeftMost then 0 else hd m)"
    and "ma = (if type = RightMost then vertex_id_upper cfg else last m)"
  have sorted: "sorted (a @ m @ c)" and empty: "type \<noteq> FullHash \<longleftrightarrow> m \<noteq> []"
    using assms(5,7) by (auto simp: good_ids_def type_ok_def split: BlockType.splits)
  then have eq: "NonNeighborTest cfg st v1 v2 =
    (if m = [] \<or> v2 < mi \<or> v2 > ma then hash_answer cfg e v2 (hash_start cfg (length m))
     else Some (if v2 \<in> set m then Neighbor else NonNeighbor))"
    using partial_test_eq [OF assms(1-4,6) _ assms(8) empty] by (simp add: mi_def ma_def sorted_append)
  have inside: "v2 \<in> set (a @ m @ c) \<longleftrightarrow> v2 \<in> set m" if "m \<noteq> []" "\<not> (v2 < mi \<or> v2 > ma)"
    using that assms(5) by (intro run_covers [OF sorted that(1)])
      (auto simp: mi_def ma_def type_ok_def split: BlockType.splits if_splits)
  have outside: "v2 \<notin> set m" if "m = [] \<or> v2 < mi \<or> v2 > ma"
  proof (cases "m = [] \<or> (type = RightMost \<and> v2 > ma)")
    case True
    then have "unat v2 > VERTEX_SIZE cfg \<or> m = []"
      using wf_configD(16) [OF cfg(1)] by (auto simp: ma_def word_less_nat_alt)
    moreover have "unat v2 \<le> VERTEX_SIZE cfg" if "v2 \<in> set m" using assms(7) that by (simp add: good_ids_def)
    ultimately show ?thesis by auto
  next
    case False
    with that show ?thesis
      by (intro run_excludes [OF sorted]) (auto simp: mi_def ma_def split: if_splits)
  qed
  have hash: "\<exists>r. hash_answer cfg e v2 (hash_start cfg (length m)) = Some r \<and> answer_ok r (v2 \<in> set (a @ m @ c))"
    if "v2 \<notin> set m"
    using hash_answer_correct [OF cfg(1) assms(4,6), of v2 "a @ m @ c"] that by auto
  show ?thesis
  proof (cases "m = [] \<or> v2 < mi \<or> v2 > ma")
    case True
    with hash outside eq show ?thesis by auto
  next
    case False
    with inside eq show ?thesis by auto
  qed
qed

lemma NonNeighborTest_sound:
  assumes "readable_config cfg" "unat v1 < length st" "encodes cfg (st ! unat v1) ns" "good_ids cfg ns" "v2 \<noteq> 0"
  shows "\<exists>r. NonNeighborTest cfg st v1 v2 = Some r \<and> answer_ok r (v2 \<in> set ns)"
proof -
  note rc = readable_configD [OF assms(1)]
  note cfg = good_configD [OF rc(1)]
  define e where "e = st ! unat v1"
  from assms(3) consider
      k where "wf_enc cfg e" "bitat e 0" "blocks_val e 1 (VERTEX_BIT_SIZE cfg) (MAX_K_CORE_SIZE cfg) = ns @ replicate k 0"
    | type a m c where "ns = a @ m @ c" "type_ok type a m c" "length m \<le> MAX_INTEGER_SIZE cfg"
        "partial_fields cfg e type m (a @ c)"
    unfolding encodes_def e_def by blast
  then show ?thesis
  proof cases
    case 1
    note we = wf_encD [OF cfg(1) 1(1)]
    have dec: "IsDecodable st v1 = Some True" using assms(2) 1(2) we wf_configD(12) [OF cfg(1)]
      by (simp add: IsDecodable_def e_def)
    have "find_block cfg e 1 (MAX_K_CORE_SIZE cfg) v2 = Some (if v2 \<in> set ns then Neighbor else NonNeighbor)"
      using find_block_correct [OF cfg(1) 1(1) _ assms(5) 1(3)] rc(2) wf_configD(5) [OF cfg(1)] assms(4)
      by (simp add: good_ids_def mult.commute)
    with dec assms(2) show ?thesis by (simp add: NonNeighborTest_def e_def)
  next
    case 2
    with partial_test_correct [OF assms(1,2) e_def [symmetric] 2(4,2,3)] assms(4,5) show ?thesis by simp
  qed
qed

section \<open>The search for the best block\<close>

text \<open>The invariant of \<open>DynamicChoose\<close>: once a score has been accepted, the bit set encodes the
  neighbours.\<close>

definition best_ok :: "config \<Rightarrow> u32 list \<Rightarrow> u32 \<times> bitset \<Rightarrow> bool" where
  "best_ok cfg ns best \<longleftrightarrow> wf_enc cfg (snd best) \<and> (0 < fst best \<longrightarrow> encodes cfg (snd best) ns)"

lemma ChooseHighest_ok:
  assumes "good_config cfg" "good_ids cfg ns" "best_ok cfg ns best" "f + n \<le> length ns" "n \<le> MAX_INTEGER_SIZE cfg"
    and "GetScore cfg hc ns n f type = Some score"
    and "type_ok type (take f ns) (take n (drop f ns)) (drop (f + n) ns)"
  shows "\<exists>best'. ChooseHighest cfg ns hc n f type best = Some best' \<and> best_ok cfg ns best' \<and>
    fst best \<le> fst best' \<and> score \<le> fst best'"
proof (cases "fst best < score")
  case True
  define a m c where "a = take f ns" and "m = take n (drop f ns)" and "c = drop (f + n) ns"
  have amc: "ns = a @ m @ c" unfolding a_def m_def c_def
    by (metis add.commute append_take_drop_id drop_drop)
  have m: "length m \<le> MAX_INTEGER_SIZE cfg" using assms(5) by (simp add: m_def)
  have "set m \<subseteq> set ns" using amc by auto
  then have fit: "\<forall>x \<in> set m. unat x < 2 ^ VERTEX_BIT_SIZE cfg" using assms(2) by (auto simp: good_ids_def)
  obtain e where e: "SetNonDecodable cfg m (a @ c) type (snd best) = Some e" "partial_fields cfg e type m (a @ c)"
    using SetNonDecodable_correct [OF assms(1) _ m fit, of "snd best"] assms(3) unfolding best_ok_def by blast
  have "length ns < 2 ^ 32 - 1"
    using assms(2) wf_configD(15) [OF good_configD(1) [OF assms(1)]] by (simp add: good_ids_def)
  then have "wsub32 (f + n) 1 \<noteq> length ns"
    using assms(4) by (auto simp: wsub_def)
  then have "ChooseHighest cfg ns hc n f type best = Some (score, e)"
    using assms(4,6) True e(1)
    by (cases best) (auto simp: ChooseHighest_def slice_def a_def m_def c_def)
  moreover have "best_ok cfg ns (score, e)"
  proof -
    have "encodes cfg e ns" unfolding encodes_def
      using amc m e(2) assms(7) [folded a_def m_def c_def] by blast
    with e(2) show ?thesis by (simp add: best_ok_def partial_fields_def)
  qed
  ultimately show ?thesis using True by auto
next
  case False
  then have "ChooseHighest cfg ns hc n f type best = Some best"
    using assms(6) by (cases best) (simp add: ChooseHighest_def)
  with False assms(3) show ?thesis by auto
qed

text \<open>Every kind of block has a score when its indices are in range.\<close>

lemma GetScore_defined:
  assumes "f + n \<le> length ns" "0 < n" "length ns < 2 ^ 32" "type \<noteq> FullHash"
  shows "\<exists>s. GetScore cfg hc ns n f type = Some s"
proof -
  have "f < length ns" "f + n - 1 < length ns" using assms by simp_all
  with assms(2,4) show ?thesis by (cases type) (simp_all add: GetScore_def Let_def)
qed

lemma ChooseHighest_block:
  assumes "good_config cfg" "good_ids cfg ns" "best_ok cfg ns best" "f + n \<le> length ns" "n \<le> MAX_INTEGER_SIZE cfg"
    "0 < n" "type = LeftMost \<and> f = 0 \<or> type = Middle \<or> type = RightMost \<and> f + n = length ns"
  shows "\<exists>best'. ChooseHighest cfg ns hc n f type best = Some best' \<and> best_ok cfg ns best' \<and> fst best \<le> fst best'"
proof -
  have len: "length ns < 2 ^ 32"
    using assms(2) wf_configD(15) [OF good_configD(1) [OF assms(1)]] by (simp add: good_ids_def)
  obtain score where "GetScore cfg hc ns n f type = Some score"
    using GetScore_defined [OF assms(4,6) len] assms(7) by blast
  moreover have "type_ok type (take f ns) (take n (drop f ns)) (drop (f + n) ns)"
    using assms(4,6,7) by (auto simp: type_ok_def)
  ultimately show ?thesis using ChooseHighest_ok [OF assms(1-5)] by blast
qed

lemma middle_loop_ok:
  assumes "good_config cfg" "good_ids cfg ns" "0 < n" "n \<le> MAX_INTEGER_SIZE cfg" "n + k < length ns"
    "best_ok cfg ns best" "hc_counts hc (drop n ns)"
  shows "\<exists>hc' best'. foldo (middle_step cfg ns n) [1..<k + 1] (hc, best) = Some (hc', best') \<and>
    hc_counts hc' (take k ns @ drop (k + n) ns) \<and> same_geometry hc hc' \<and>
    best_ok cfg ns best' \<and> fst best \<le> fst best'"
  using assms(5)
proof (induction k)
  case 0
  then show ?case using assms(6,7) by simp
next
  case (Suc k)
  then obtain hc1 best1 where 1: "foldo (middle_step cfg ns n) [1..<k + 1] (hc, best) = Some (hc1, best1)"
    "hc_counts hc1 (take k ns @ drop (k + n) ns)" "same_geometry hc hc1" "best_ok cfg ns best1" "fst best \<le> fst best1"
    by auto
  have len: "length ns < 2 ^ 32"
    using assms(2) wf_configD(15) [OF good_configD(1) [OF assms(1)]] by (simp add: good_ids_def)
  from shift_block_counts [OF 1(2) _ len assms(3)] Suc.prems obtain hc2 hc3 where
    2: "AddHash (ns ! k) hc1 = Some hc2" "RemoveHash (ns ! (k + n)) hc2 = Some hc3" "same_geometry hc1 hc3"
    "hc_counts hc3 (take (Suc k) ns @ drop (Suc k + n) ns)" by auto
  from ChooseHighest_block [OF assms(1,2) 1(4) _ assms(4,3), of "Suc k" Middle hc3] Suc.prems obtain best2 where
    3: "ChooseHighest cfg ns hc3 n (Suc k) Middle best1 = Some best2" "best_ok cfg ns best2" "fst best1 \<le> fst best2"
    by auto
  have "middle_step cfg ns n (Suc k) (hc1, best1) = Some (hc3, best2)"
    using 2(1,2) 3(1) Suc.prems by (simp add: middle_step_def)
  moreover have "[1..<Suc k + 1] = [1..<k + 1] @ [Suc k]" by simp
  ultimately have "foldo (middle_step cfg ns n) [1..<Suc k + 1] (hc, best) = Some (hc3, best2)"
    using 1(1) by (simp only: foldo_append foldo_single bind.bind_lunit)
  moreover have "same_geometry hc hc3" using 1(3) 2(3) by (rule same_geometry_trans)
  moreover have "fst best \<le> fst best2" using 1(5) 3(3) by (rule order_trans)
  ultimately show ?case using 2(4) 3(2) by blast
qed

text \<open>One round of the outer loop, and the round for blocks of one integer, which always accepts a
  score.\<close>

lemma block_size_step_ok:
  assumes "good_config cfg" "good_ids cfg ns" "MAX_K_CORE_SIZE cfg < length ns" "0 < n" "n \<le> MAX_INTEGER_SIZE cfg"
    "best_ok cfg ns best" "length (hash_array hc) = PER_ENCODE_BIT_SIZE cfg"
  shows "\<exists>hc' best'. block_size_step cfg ns n (hc, best) = Some (hc', best') \<and>
    length (hash_array hc') = PER_ENCODE_BIT_SIZE cfg \<and> best_ok cfg ns best' \<and> fst best \<le> fst best' \<and> 0 < fst best'"
proof -
  note cfg = good_configD [OF assms(1)]
  have n: "n + 1 \<le> length ns" using assms(3,5) wf_configD(9) [OF cfg(1)] by simp
  have V: "length ns \<le> VERTEX_SIZE cfg" "\<And>x. x \<in> set ns \<Longrightarrow> unat x \<le> VERTEX_SIZE cfg"
    using assms(2) by (simp_all add: good_ids_def)
  have len: "length ns < 2 ^ 32" using V(1) wf_configD(15) [OF cfg(1)] by simp
  note re = ReConstruct_refines [OF cfg(1) assms(5) _ _ len]
  obtain hc1 where hc1: "ReConstruct cfg ns n False hc = Some hc1" "hc_fits cfg n hc1" "hc_counts hc1 (drop n ns)"
    using re(1) [of hc] assms(7) n by auto
  obtain s1 where s1: "GetScore cfg hc1 ns n 0 LeftMost = Some s1" "0 < s1"
    using LeftMost_score_pos [OF hc1(3) cfg(1) assms(4) _ len] n V(2) [of "ns ! (n - 1)"] by auto
  have "type_ok LeftMost (take 0 ns) (take n (drop 0 ns)) (drop (0 + n) ns)"
    using n assms(4) by (auto simp: type_ok_def)
  then obtain best1 where best1: "ChooseHighest cfg ns hc1 n 0 LeftMost best = Some best1" "best_ok cfg ns best1"
    "fst best \<le> fst best1" "0 < fst best1"
    using ChooseHighest_ok [OF assms(1,2,6) _ assms(5) s1(1)] n s1(2) by fastforce
  show ?thesis
  proof (cases "n = 1")
    case True
    obtain hc2 where hc2: "ReConstruct cfg ns n True hc1 = Some hc2" "hc_fits cfg n hc2"
      using re(2) [of hc1] hc1(2) n by (auto simp: hc_fits_def)
    obtain best2 where "ChooseHighest cfg ns hc2 n (length ns - n) RightMost best1 = Some best2" "best_ok cfg ns best2"
      "fst best1 \<le> fst best2"
      using ChooseHighest_block [OF assms(1,2) best1(2) _ assms(5,4), of "length ns - n" RightMost hc2] n by auto
    with True hc1(1) hc2 best1 len n show ?thesis
      by (auto simp: block_size_step_def Let_def hc_fits_def)
  next
    case False
    define k where "k = length ns - n - 1"
    have k: "n + k < length ns" "k + 1 + n = length ns" using n by (simp_all add: k_def)
    obtain hc2 best2 where 2: "foldo (middle_step cfg ns n) [1..<k + 1] (hc1, best1) = Some (hc2, best2)"
      "same_geometry hc1 hc2" "best_ok cfg ns best2" "fst best1 \<le> fst best2"
      using middle_loop_ok [OF assms(1,2,4,5) k(1) best1(2) hc1(3)] by blast
    obtain best3 where 3: "ChooseHighest cfg ns hc2 n (k + 1) RightMost best2 = Some best3" "best_ok cfg ns best3"
      "fst best2 \<le> fst best3"
      using ChooseHighest_block [OF assms(1,2) 2(3) _ assms(5,4), of "k + 1" RightMost hc2] k by auto
    have "wsub32 (wsub32 (length ns mod 2 ^ 32) n) 1 = k" using len n by (simp add: k_def)
    then have "block_size_step cfg ns n (hc, best) = Some (hc2, best3)"
      using False hc1(1) best1(1) 2(1) 3(1) unfolding block_size_step_def Let_def by (simp del: upt_Suc)
    moreover have "0 < fst best3" "fst best \<le> fst best3" using best1(3,4) 2(4) 3(3) by order+
    moreover have "length (hash_array hc2) = PER_ENCODE_BIT_SIZE cfg"
      using hc1(2) 2(2) by (simp add: hc_fits_def same_geometry_def)
    ultimately show ?thesis using 3(2) by blast
  qed
qed

lemma block_size_loop_ok:
  assumes "good_config cfg" "good_ids cfg ns" "MAX_K_CORE_SIZE cfg < length ns"
    "best_ok cfg ns best" "length (hash_array hc) = PER_ENCODE_BIT_SIZE cfg" "n \<le> MAX_INTEGER_SIZE cfg"
  shows "\<exists>hc' best'. foldo (block_size_step cfg ns) [1..<n + 1] (hc, best) = Some (hc', best') \<and>
    length (hash_array hc') = PER_ENCODE_BIT_SIZE cfg \<and> best_ok cfg ns best' \<and> (0 < n \<longrightarrow> 0 < fst best')"
  using assms(6)
proof (induction n)
  case 0
  then show ?case using assms(4,5) by simp
next
  case (Suc n)
  then obtain hc1 best1 where 1: "foldo (block_size_step cfg ns) [1..<n + 1] (hc, best) = Some (hc1, best1)"
    "length (hash_array hc1) = PER_ENCODE_BIT_SIZE cfg" "best_ok cfg ns best1" by auto
  obtain hc2 best2 where 2: "block_size_step cfg ns (Suc n) (hc1, best1) = Some (hc2, best2)"
    "length (hash_array hc2) = PER_ENCODE_BIT_SIZE cfg" "best_ok cfg ns best2" "0 < fst best2"
    using block_size_step_ok [OF assms(1-3) _ Suc.prems 1(3,2)] by auto
  have "[1..<Suc n + 1] = [1..<n + 1] @ [Suc n]" by simp
  then have "foldo (block_size_step cfg ns) [1..<Suc n + 1] (hc, best) = Some (hc2, best2)"
    using 1(1) 2(1) by (simp only: foldo_append foldo_single bind.bind_lunit)
  with 2 show ?case by blast
qed

lemma FullHash_defined:
  assumes "wf_config cfg" "hc_fits cfg 0 hc"
  shows "\<exists>s. GetScore cfg hc ns 0 0 FullHash = Some s"
proof -
  have "0 < unat (hash_size hc)" using assms(2) wf_configD(12) [OF assms(1)] by (simp add: hc_fits_def)
  then have "hash_size hc \<noteq> 0" by (metis less_irrefl unat_0)
  then show ?thesis by (simp add: GetScore_def)
qed

lemma DynamicChoose_encodes:
  assumes "good_config cfg" "good_ids cfg ns" "MAX_K_CORE_SIZE cfg < length ns" "unat v < length st" "wf_enc cfg (st ! unat v)"
  shows "\<exists>e score. DynamicChoose cfg st v ns = Some (st[unat v := e], score) \<and> wf_enc cfg e \<and> encodes cfg e ns"
proof -
  note cfg = good_configD [OF assms(1)]
  have len: "length ns < 2 ^ 32" using assms(2) wf_configD(15) [OF cfg(1)] by (simp add: good_ids_def)
  obtain hc0 where hc0: "ReConstruct cfg ns 0 False (HashCount_new cfg) = Some hc0" "hc_fits cfg 0 hc0"
    using ReConstruct_refines(1) [OF cfg(1) _ _ _ len, of 0 "HashCount_new cfg"] by (auto simp: HashCount_new_def)
  obtain s where s: "GetScore cfg hc0 ns 0 0 FullHash = Some s" using FullHash_defined [OF cfg(1) hc0(2)] by blast
  have "best_ok cfg ns (0, st ! unat v)" using assms(5) by (simp add: best_ok_def)
  then obtain best where best: "ChooseHighest cfg ns hc0 0 0 FullHash (0, st ! unat v) = Some best" "best_ok cfg ns best"
    using ChooseHighest_ok [OF assms(1,2) _ _ _ s, of "(0, st ! unat v)"] by (auto simp: type_ok_def)
  have "length (hash_array hc0) = PER_ENCODE_BIT_SIZE cfg" using hc0(2) by (simp add: hc_fits_def)
  then obtain hc ms e where loop: "foldo (block_size_step cfg ns) [1..<MAX_INTEGER_SIZE cfg + 1] (hc0, best) = Some (hc, ms, e)"
    "best_ok cfg ns (ms, e)" "0 < ms"
    using block_size_loop_ok [OF assms(1-3) best(2) _ order_refl] cfg(2) by fastforce
  have "DynamicChoose cfg st v ns = Some (st[unat v := e], ms)"
    using assms(4) hc0(1) best(1) loop(1) unfolding DynamicChoose_def by (simp del: upt_Suc)
  moreover have "wf_enc cfg e" "encodes cfg e ns" using loop(2,3) by (simp_all add: best_ok_def)
  ultimately show ?thesis by blast
qed

section \<open>Encoding a vertex\<close>

text \<open>A vertex that has not been encoded since the constructor cleared it.\<close>

definition fresh :: "config \<Rightarrow> bitset \<Rightarrow> bool" where
  "fresh cfg e \<longleftrightarrow> wf_enc cfg e \<and> (\<forall>p < PER_ENCODE_BIT_SIZE cfg. \<not> bitat e p)"

lemma blocks_val_zero:
  assumes "\<And>q. b \<le> q \<Longrightarrow> q < b + k * n \<Longrightarrow> \<not> bitat e q"
  shows "blocks_val e b n k = replicate k 0"
proof (rule nth_equalityI)
  fix i assume "i < length (blocks_val e b n k)"
  then have i: "i < k" by simp
  have "block_val e (b + i * n) n = 0"
  proof (rule bit_word_eqI)
    fix j :: nat
    have "(i + 1) * n \<le> k * n" using i by (intro mult_le_mono1) simp
    then have "\<not> (j < n \<and> bitat e (b + i * n + n - 1 - j))" using assms by auto
    then show "bit (block_val e (b + i * n) n) j = bit (0 :: u32) j" by (auto simp: bit_block_val)
  qed
  with i show "blocks_val e b n k ! i = replicate k 0 ! i" by simp
qed simp

lemma decodable_encodes:
  assumes "good_config cfg" "good_ids cfg ns" "length ns \<le> MAX_K_CORE_SIZE cfg" "fresh cfg e"
  shows "\<exists>e0 e1. SetOne e 0 = Some e0 \<and> put_blocks BlockSet e0 1 (VERTEX_BIT_SIZE cfg) ns = Some e1 \<and>
    wf_enc cfg e1 \<and> bitat e1 0 \<and> (\<exists>k. blocks_val e1 1 (VERTEX_BIT_SIZE cfg) (MAX_K_CORE_SIZE cfg) = ns @ replicate k 0)"
proof -
  note cfg = good_configD [OF assms(1)]
  note wc = wf_configD [OF cfg(1)]
  define b where "b = VERTEX_BIT_SIZE cfg"
  have e: "wf_enc cfg e" "\<And>p. p < PER_ENCODE_BIT_SIZE cfg \<Longrightarrow> \<not> bitat e p" using assms(4) by (simp_all add: fresh_def)
  note we = wf_encD [OF cfg(1) e(1)]
  have one: "SetOne e 0 = Some (bit_upd e 0 True)" using we wc(12) by (intro SetOne_correct) simp_all
  have "length ns * b \<le> MAX_K_CORE_SIZE cfg * b" using assms(3) by (rule mult_le_mono1)
  with wc(5) have fit: "1 + b * length ns \<le> PER_ENCODE_BIT_SIZE cfg"
    unfolding b_def mult.commute [of _ "length ns"] by linarith
  have ids: "\<forall>x \<in> set ns. unat x < 2 ^ b" using assms(2) by (simp add: good_ids_def b_def)
  have up: "wf_bs (bit_upd e 0 True)" "bs_size (bit_upd e 0 True) = bs_size e" by simp_all
  have "1 + b * length ns \<le> 8 * bs_size (bit_upd e 0 True)" "bs_size (bit_upd e 0 True) \<le> 256"
    using fit we by simp_all
  from put_blocks_BlockSet [OF up(1) this(1) _ _ this(2) ids] wc(3,4)
  obtain e1 where e1: "put_blocks BlockSet (bit_upd e 0 True) 1 b ns = Some e1" "wf_bs e1" "bs_size e1 = bs_size e"
    "\<And>q. q < PER_ENCODE_BIT_SIZE cfg \<Longrightarrow> \<not> (1 \<le> q \<and> q < 1 + b * length ns) \<Longrightarrow> bitat e1 q = bitat (bit_upd e 0 True) q"
    "blocks_val e1 1 b (length ns) = ns"
    using up we by (auto simp: b_def)
  have flag: "bitat e1 0" using e1(4) [of 0] wc(12) we(2) by simp
  have zero: "\<not> bitat e1 q" if "1 + b * length ns \<le> q" "q < PER_ENCODE_BIT_SIZE cfg" for q
    using that e1(4) [of q] e(2) [of q] we(2) by simp
  define j where "j = MAX_K_CORE_SIZE cfg - length ns"
  have j: "MAX_K_CORE_SIZE cfg = length ns + j" using assms(3) by (simp add: j_def)
  then have "1 + b * length ns + j * b \<le> PER_ENCODE_BIT_SIZE cfg" using wc(5) by (simp add: b_def algebra_simps)
  then have "blocks_val e1 (1 + b * length ns) b j = replicate j 0" by (intro blocks_val_zero zero) simp_all
  then have "blocks_val e1 1 b (MAX_K_CORE_SIZE cfg) = ns @ replicate j 0"
    unfolding j blocks_val_add using e1(5) by (simp add: mult.commute)
  moreover have "wf_enc cfg e1" using e(1) e1(2,3) by (simp add: wf_enc_def)
  ultimately show ?thesis using one e1(1) flag unfolding b_def by blast
qed

lemma EncodeVertex_encodes:
  assumes "good_config cfg" "good_ids cfg ns" "unat v < length st" "wf_enc cfg (st ! unat v)"
    "length ns \<le> MAX_K_CORE_SIZE cfg \<Longrightarrow> fresh cfg (st ! unat v)"
  shows "\<exists>e. EncodeVertex cfg v ns st = Some (st[unat v := e]) \<and> wf_enc cfg e \<and> encodes cfg e ns"
proof (cases "length ns \<le> MAX_K_CORE_SIZE cfg")
  case True
  with decodable_encodes [OF assms(1,2) True, of "st ! unat v"] assms(3,5) show ?thesis
    by (auto simp: EncodeVertex_def encodes_def)
next
  case False
  then have "MAX_K_CORE_SIZE cfg < length ns" by simp
  from DynamicChoose_encodes [OF assms(1,2) this assms(3,4)] obtain e score where
    "DynamicChoose cfg st v ns = Some (st[unat v := e], score)" "wf_enc cfg e" "encodes cfg e ns" by blast
  with False show ?thesis by (auto simp: EncodeVertex_def)
qed

lemma encodes_wf_enc: "encodes cfg e ns \<Longrightarrow> wf_enc cfg e"
  by (auto simp: encodes_def partial_fields_def)

lemma IsDecodable_encodes:
  assumes "good_config cfg" "unat v < length st" "encodes cfg (st ! unat v) ns"
  shows "\<exists>d. IsDecodable st v = Some d"
  using wf_encD [OF good_configD(1) [OF assms(1)] encodes_wf_enc [OF assms(3)]]
    wf_configD(12) [OF good_configD(1) [OF assms(1)]] assms(2) by (simp add: IsDecodable_def)

section \<open>The hybrid encoding as a vertex encoder\<close>

definition wf_encoding :: "config \<Rightarrow> encoding \<Rightarrow> bool" where
  "wf_encoding cfg st \<longleftrightarrow> length st = VERTEX_SIZE cfg + 1 \<and> (\<forall>e \<in> set st. wf_enc cfg e)"

definition is_vertex :: "config \<Rightarrow> u32 \<Rightarrow> bool" where
  "is_vertex cfg v \<longleftrightarrow> 0 < v \<and> unat v \<le> VERTEX_SIZE cfg"

lemma is_vertex_index: "wf_encoding cfg st \<Longrightarrow> is_vertex cfg v \<Longrightarrow> unat v < length st"
  by (simp add: wf_encoding_def is_vertex_def)

lemma EncodeVertex_interface:
  assumes "good_config cfg" "wf_encoding cfg st" "is_vertex cfg v" "good_ids cfg ns" "fresh cfg (st ! unat v)"
  shows "\<exists>st'. EncodeVertex cfg v ns st = Some st' \<and> wf_encoding cfg st' \<and> encodes cfg (st' ! unat v) ns \<and>
    (\<forall>w. w \<noteq> v \<longrightarrow> st' ! unat w = st ! unat w)"
proof -
  have v: "unat v < length st" using is_vertex_index [OF assms(2,3)] .
  then have "wf_enc cfg (st ! unat v)" using assms(2) by (simp add: wf_encoding_def)
  from EncodeVertex_encodes [OF assms(1,4) v this] assms(5) obtain e where
    e: "EncodeVertex cfg v ns st = Some (st[unat v := e])" "wf_enc cfg e" "encodes cfg e ns" by blast
  have "wf_encoding cfg (st[unat v := e])"
    using assms(2) e(2) by (auto simp: wf_encoding_def dest!: subsetD [OF set_update_subset_insert])
  moreover have "st[unat v := e] ! unat w = st ! unat w" if "w \<noteq> v" for w
    using that by (simp add: nth_list_update word_unat_eq_iff)
  ultimately show ?thesis using e v by auto
qed

text \<open>The constructor leaves every vertex ready to be encoded.\<close>

lemma EncodeBitSet_wf:
  assumes "wf_config cfg"
  shows "wf_encoding cfg (EncodeBitSet cfg)" "is_vertex cfg v \<Longrightarrow> fresh cfg (EncodeBitSet cfg ! unat v)"
proof -
  have p: "PER_ENCODE_BIT_SIZE cfg = K_SIZE cfg * 32" using wf_configD(1) [OF assms] .
  then have e: "wf_enc cfg (BitSetSIMD (PER_ENCODE_BIT_SIZE cfg))" by (simp add: wf_enc_def)
  then show "wf_encoding cfg (EncodeBitSet cfg)" by (simp add: wf_encoding_def EncodeBitSet_def)
  assume "is_vertex cfg v"
  then have "EncodeBitSet cfg ! unat v = BitSetSIMD (PER_ENCODE_BIT_SIZE cfg)"
    unfolding EncodeBitSet_def is_vertex_def by (subst nth_map) (simp_all del: upt_Suc)
  with e p show "fresh cfg (EncodeBitSet cfg ! unat v)" by (simp add: fresh_def)
qed

text \<open>The encoder of one good configuration.\<close>

interpretation hybrid: vertex_encoder
  "\<lambda>st. readable_config (fst st) \<and> wf_encoding (fst st) (snd st)"
  "\<lambda>st v. fresh (fst st) (snd st ! unat v)"
  "\<lambda>st v ns. encodes (fst st) (snd st ! unat v) ns"
  "\<lambda>st v. is_vertex (fst st) v"
  "\<lambda>st ns. good_ids (fst st) ns"
  "\<lambda>v ns st. map_option (Pair (fst st)) (EncodeVertex (fst st) v ns (snd st))"
  "\<lambda>st v u. NonNeighborTest (fst st) (snd st) v u"
  fst
proof
  fix st :: "config \<times> encoding" and v ns
  assume "readable_config (fst st) \<and> wf_encoding (fst st) (snd st)" "is_vertex (fst st) v" "good_ids (fst st) ns"
    "fresh (fst st) (snd st ! unat v)"
  with EncodeVertex_interface [of "fst st" "snd st" v ns] readable_configD(1) obtain st' where
    "EncodeVertex (fst st) v ns (snd st) = Some st'" "wf_encoding (fst st) st'" "encodes (fst st) (st' ! unat v) ns"
    "\<forall>w. w \<noteq> v \<longrightarrow> st' ! unat w = snd st ! unat w" "readable_config (fst st)" by auto
  then show "\<exists>st'. map_option (Pair (fst st)) (EncodeVertex (fst st) v ns (snd st)) = Some st' \<and>
      (readable_config (fst st') \<and> wf_encoding (fst st') (snd st')) \<and> encodes (fst st') (snd st' ! unat v) ns \<and> fst st' = fst st \<and>
      (\<forall>w. is_vertex (fst st) w \<longrightarrow> w \<noteq> v \<longrightarrow>
        (fresh (fst st) (snd st ! unat w) \<longrightarrow> fresh (fst st') (snd st' ! unat w)) \<and>
        (\<forall>ms. encodes (fst st) (snd st ! unat w) ms \<longrightarrow> encodes (fst st') (snd st' ! unat w) ms))"
    by simp
next
  fix st :: "config \<times> encoding" and v u ns
  assume "readable_config (fst st) \<and> wf_encoding (fst st) (snd st)" "is_vertex (fst st) v" "is_vertex (fst st) u"
    "encodes (fst st) (snd st ! unat v) ns" "good_ids (fst st) ns"
  then show "\<exists>r. NonNeighborTest (fst st) (snd st) v u = Some r \<and> answer_ok r (u \<in> set ns)"
    using is_vertex_index by (intro NonNeighborTest_sound) (auto simp: is_vertex_def word_gt_0)
qed (auto simp: is_vertex_def)

text \<open>A vertex with few neighbours keeps all of them.\<close>

lemma decodable_exact:
  assumes "good_config cfg" "wf_encoding cfg st" "is_vertex cfg v" "good_ids cfg ns" "fresh cfg (st ! unat v)"
    "length ns \<le> MAX_K_CORE_SIZE cfg" "8 \<le> VERTEX_BIT_SIZE cfg"
  shows "\<exists>st'. EncodeVertex cfg v ns st = Some st' \<and> IsDecodable st' v = Some True \<and>
    (\<forall>u. u \<noteq> 0 \<longrightarrow> NonNeighborTest cfg st' v u = Some (if u \<in> set ns then Neighbor else NonNeighbor))"
proof -
  note cfg = good_configD [OF assms(1)]
  have v: "unat v < length st" using is_vertex_index [OF assms(2,3)] .
  obtain e0 e where e: "SetOne (st ! unat v) 0 = Some e0" "put_blocks BlockSet e0 1 (VERTEX_BIT_SIZE cfg) ns = Some e"
    "wf_enc cfg e" "bitat e 0" "\<exists>k. blocks_val e 1 (VERTEX_BIT_SIZE cfg) (MAX_K_CORE_SIZE cfg) = ns @ replicate k 0"
    using decodable_encodes [OF assms(1,4,6,5)] by blast
  have st': "EncodeVertex cfg v ns st = Some (st[unat v := e])"
    using v e(1,2) assms(6) by (simp add: EncodeVertex_def)
  note we = wf_encD [OF cfg(1) e(3)]
  have dec: "IsDecodable (st[unat v := e]) v = Some True" using v e(4) we wf_configD(12) [OF cfg(1)]
    by (simp add: IsDecodable_def)
  have "find_block cfg e 1 (MAX_K_CORE_SIZE cfg) u = Some (if u \<in> set ns then Neighbor else NonNeighbor)"
    if "u \<noteq> 0" for u
    using find_block_correct [OF cfg(1) e(3) _ that] assms(7) e(5) wf_configD(5) [OF cfg(1)] assms(4)
    by (auto simp: good_ids_def mult.commute)
  with st' dec v show ?thesis by (simp add: NonNeighborTest_def)
qed

text \<open>The program keeps the configuration outside the encoder; with it, building a graph is the loop
  of the interface.\<close>

lemma build_all_pair:
  "build_all (\<lambda>v ns st. map_option (Pair (fst st)) (EncodeVertex (fst st) v ns (snd st))) adj vs (cfg, st)
     = map_option (Pair cfg) (build_all (EncodeVertex cfg) adj vs st)"
  unfolding build_all_def
proof (induction vs arbitrary: st)
  case (Cons v vs)
  then show ?case by (cases "EncodeVertex cfg v (adj v) st") simp_all
qed simp

text \<open>The loop \<^verbatim>\<open>for (i = 1; i <= VERTEX_SIZE; ++i)\<close>.\<close>

definition vertex_list :: "config \<Rightarrow> u32 list" where
  "vertex_list cfg = map of_nat [1..<VERTEX_SIZE cfg + 1]"

lemma vertex_list_all:
  assumes "wf_config cfg"
  shows "set (vertex_list cfg) = {v. is_vertex cfg v}" "distinct (vertex_list cfg)"
proof -
  have V: "unat (of_nat i :: u32) = i" if "i < VERTEX_SIZE cfg + 1" for i
    using that wf_configD(15) [OF assms] by (simp add: unat_of_nat)
  show "set (vertex_list cfg) = {v. is_vertex cfg v}"
  proof (rule set_eqI)
    fix v :: u32
    show "v \<in> set (vertex_list cfg) \<longleftrightarrow> v \<in> {v. is_vertex cfg v}"
    proof
      assume "v \<in> set (vertex_list cfg)"
      then obtain i where "1 \<le> i" "i < VERTEX_SIZE cfg + 1" "v = of_nat i"
        by (auto simp: vertex_list_def simp del: upt_Suc)
      with V [of i] show "v \<in> {v. is_vertex cfg v}" by (simp add: is_vertex_def word_less_nat_alt)
    next
      assume "v \<in> {v. is_vertex cfg v}"
      then have "unat v \<in> set [1..<VERTEX_SIZE cfg + 1]" by (simp add: is_vertex_def word_less_nat_alt del: upt_Suc)
      then have "of_nat (unat v) \<in> set (vertex_list cfg)" unfolding vertex_list_def set_map by (rule imageI)
      then show "v \<in> set (vertex_list cfg)" by simp
    qed
  qed
  have "inj_on (of_nat :: nat \<Rightarrow> u32) (set [1..<VERTEX_SIZE cfg + 1])"
    by (rule inj_onI) (metis V atLeastLessThan_iff set_upt)
  then show "distinct (vertex_list cfg)" unfolding vertex_list_def by (simp add: distinct_map del: upt_Suc)
qed

lemma hybrid_build_graph:
  assumes "readable_config cfg" "\<And>v. is_vertex cfg v \<Longrightarrow> good_ids cfg (adj v)"
    "\<And>u v. is_vertex cfg u \<Longrightarrow> is_vertex cfg v \<Longrightarrow> u \<in> set (adj v) \<longleftrightarrow> v \<in> set (adj u)"
  shows "\<exists>st. build_all (EncodeVertex cfg) adj (vertex_list cfg) (EncodeBitSet cfg) = Some st \<and> hybrid.encodes_graph (cfg, st) adj"
proof -
  note vs = vertex_list_all [OF good_configD(1) [OF readable_configD(1) [OF assms(1)]]]
  note wf = EncodeBitSet_wf [OF good_configD(1) [OF readable_configD(1) [OF assms(1)]]]
  have "\<exists>s'. build_all (\<lambda>v ns st. map_option (Pair (fst st)) (EncodeVertex (fst st) v ns (snd st))) adj (vertex_list cfg) (cfg, EncodeBitSet cfg) = Some s' \<and>
      fst s' = fst (cfg, EncodeBitSet cfg) \<and> hybrid.encodes_graph s' adj"
    by (rule hybrid.build_graph) (use assms wf vs in auto)
  then show ?thesis unfolding build_all_pair by auto
qed

section \<open>Pairs\<close>

text \<open>\<open>NEpairTest\<close> asks one or both vertices and is as sound as these answers.\<close>

lemma NEpairTest_answer:
  assumes "IsDecodable st v1 = Some d1" "IsDecodable st v2 = Some d2"
    "NonNeighborTest cfg st v1 v2 = Some r1" "answer_ok r1 p" "NonNeighborTest cfg st v2 v1 = Some r2" "answer_ok r2 p"
  shows "\<exists>r. NEpairTest cfg st v1 v2 = Some r \<and> answer_ok r p"
  using assms by (cases d1; cases d2) (auto simp: NEpairTest_def Let_def answer_ok_min)

lemma NEpairTest_sound:
  assumes "hybrid.encodes_graph (cfg, st) adj" "is_vertex cfg v" "is_vertex cfg u"
  shows "\<exists>r. NEpairTest cfg st v u = Some r \<and> answer_ok r (u \<in> set (adj v))"
proof -
  have g: "readable_config cfg" "wf_encoding cfg st" "\<And>w. is_vertex cfg w \<Longrightarrow> encodes cfg (st ! unat w) (adj w)"
    using assms(1) by (simp_all add: hybrid.encodes_graph_def)
  obtain d1 d2 where "IsDecodable st v = Some d1" "IsDecodable st u = Some d2"
    using IsDecodable_encodes [OF readable_configD(1) [OF g(1)] is_vertex_index [OF g(2)] g(3)] assms(2,3) by meson
  moreover obtain r1 r2 where "NonNeighborTest cfg st v u = Some r1" "answer_ok r1 (u \<in> set (adj v))"
    "NonNeighborTest cfg st u v = Some r2" "answer_ok r2 (u \<in> set (adj v))"
    using hybrid.both_tests_sound [OF assms(1), of v u] assms(2,3) by auto
  ultimately show ?thesis by (rule NEpairTest_answer)
qed

text \<open>The tests of decoded information do what the direct tests do.\<close>

lemma unsigned_interval: "lo \<le> hi \<Longrightarrow> x - lo \<le> hi - lo \<longleftrightarrow> lo \<le> x \<and> x \<le> (hi :: u32)"
proof -
  assume le: "lo \<le> hi"
  show ?thesis
  proof (cases "lo \<le> x")
    case True
    then show ?thesis using le by (simp add: word_le_nat_alt unat_sub) linarith
  next
    case False
    then have "x < lo" by simp
    have "unat (x - lo) = 2 ^ 32 + unat x - unat lo"
      using \<open>x < lo\<close> by (simp add: unat_sub_if' word_less_nat_alt)
    moreover have "unat (hi - lo) = unat hi - unat lo" using le by (simp add: unat_sub word_le_nat_alt)
    moreover have "unat hi < 2 ^ 32" using unsigned_less [of hi] by simp
    ultimately show ?thesis using False \<open>x < lo\<close> le by (simp add: word_le_nat_alt word_less_nat_alt)
  qed
qed

lemma GetBlockModel_enc_eq:
  assumes "wf_bs e" "1 \<le> bs_size e"
  shows "GetBlockModel_enc e = Some (if bitat e 1 then RightMost else if bitat e 2 then Middle else LeftMost)"
proof -
  have m: "(0x40 :: u8) = push_bit 6 1" "(0x20 :: u8) = push_bit 5 1" by simp_all
  have "0 < length (bs_data e)" using assms by simp
  then show ?thesis unfolding GetBlockModel_enc_def GetSecondBit_def GetThridBit_def
    by (simp only: aget_Some bind.bind_lunit m and_single_bit) (simp add: bitat_def)
qed

lemma partial_Decode:
  assumes "readable_config cfg" "unat v < length st" "st ! unat v = e" "partial_fields cfg e type m left"
    "length m \<le> MAX_INTEGER_SIZE cfg" "type \<noteq> FullHash \<longleftrightarrow> m \<noteq> []"
  shows "\<exists>di'. Decode cfg st v di = Some di' \<and> \<not> decodable di' \<and> di_block_num di' = length m \<and>
    di_hash_begin di' = hash_start cfg (length m) \<and>
    di_min di' = (if m = [] \<or> type = LeftMost then 0 else hd m) \<and>
    di_max di' = (if m = [] then 0 else if type = RightMost then vertex_id_upper cfg else last m)"
proof -
  note rc = readable_configD [OF assms(1)]
  note cfg = good_configD [OF rc(1)]
  note wc = wf_configD [OF cfg(1)] and reads = partial_reads [OF assms(1-5)]
  have e: "wf_enc cfg e" "\<not> bitat e 0" "(bitat e 1, bitat e 2) = model_bits type"
    using assms(4) by (simp_all add: partial_fields_def)
  note we = wf_encD [OF cfg(1) e(1)]
  have "hash_start cfg (length m) \<le> 2048" using hash_start_le [OF cfg(1) assms(5)] wc(2) by simp
  then have h: "hash_start cfg (length m) mod 2 ^ 16 = hash_start cfg (length m)" by simp
  have "1 \<le> bs_size e" using wc(12) we(2) by simp
  then have model: "GetBlockModel_enc e = Some (if type = FullHash then Middle else type)"
    using GetBlockModel_enc_eq [OF we(1)] e(3) by (cases type) simp_all
  have zero: "IsOne e 0 = Some False" using e(2) we(1) \<open>1 \<le> bs_size e\<close> by simp
  show ?thesis
  proof (cases "m = []")
    case True
    with assms(2,3) zero reads(2) h wc(6) show ?thesis
      by (simp add: Decode_def Let_def hash_start_def)
  next
    case False
    have "BLOCK_BEGIN_INDEX cfg + length m * VERTEX_BIT_SIZE cfg = hash_start cfg (length m)"
      using wc(6) by (simp add: hash_start_def)
    with False h reads(2) reads(4) [of 0] reads(4) [of "length m - 1"] assms(2,3,6) zero model wc(6) show ?thesis
      by (cases type) (simp_all add: Decode_def Let_def hd_conv_nth last_conv_nth)
  qed
qed

lemma run_ends_le:
  assumes "sorted m" "m \<noteq> []"
  shows "hd m \<le> last m"
  using assms by (cases m) auto

lemma Decode_test_eq:
  assumes "readable_config cfg" "\<not> HSIMD cfg" "unat v1 < length st" "encodes cfg (st ! unat v1) ns" "good_ids cfg ns" "v2 \<noteq> 0"
  shows "\<exists>di'. Decode cfg st v1 di = Some di' \<and>
    NonNeighborTest_info cfg st v1 di' v2 = NonNeighborTest cfg st v1 v2"
proof -
  note rc = readable_configD [OF assms(1)]
  note cfg = good_configD [OF rc(1)]
  define e where "e = st ! unat v1"
  from assms(4) consider "wf_enc cfg e" "bitat e 0"
    | type a m c where "ns = a @ m @ c" "type_ok type a m c" "length m \<le> MAX_INTEGER_SIZE cfg"
        "partial_fields cfg e type m (a @ c)"
    unfolding encodes_def e_def by blast
  then show ?thesis
  proof cases
    case 1
    note we = wf_encD [OF cfg(1) 1(1)]
    have "IsOne e 0 = Some True" using 1 we wf_configD(12) [OF cfg(1)] by simp
    with assms(2,3) show ?thesis
      by (simp add: Decode_def NonNeighborTest_info_def NonNeighborTest_def IsDecodable_def find_block_def e_def)
  next
    case 2
    define mi ma where "mi = (if m = [] \<or> type = LeftMost then 0 else hd m)"
      and "ma = (if m = [] then 0 else if type = RightMost then vertex_id_upper cfg else last m)"
    have sorted: "sorted m" and empty: "type \<noteq> FullHash \<longleftrightarrow> m \<noteq> []"
      using assms(5) 2(1,2) by (auto simp: good_ids_def sorted_append type_ok_def split: BlockType.splits)
    note eq = partial_test_eq [OF assms(1,3) e_def [symmetric] 2(4,3) sorted assms(6) empty]
    from partial_Decode [OF assms(1,3) e_def [symmetric] 2(4,3) empty, of di] obtain di' where
      di': "Decode cfg st v1 di = Some di'" "\<not> decodable di'" "di_block_num di' = length m"
      "di_hash_begin di' = hash_start cfg (length m)" "di_min di' = mi" "di_max di' = ma"
      by (auto simp: mi_def ma_def)
    have le: "mi \<le> ma"
    proof (cases "m = [] \<or> type = LeftMost \<or> type \<noteq> RightMost")
      case True
      then show ?thesis using run_ends_le [OF sorted] by (auto simp: mi_def ma_def)
    next
      case False
      then have "hd m \<in> set ns" using 2(1) by simp
      then have "unat (hd m) \<le> VERTEX_SIZE cfg" using assms(5) by (simp add: good_ids_def)
      then show ?thesis using False wf_configD(16) [OF cfg(1)] by (simp add: mi_def ma_def word_le_nat_alt)
    qed
    have e: "wf_enc cfg e" "blocks_val e (3 + LOG_K cfg) (VERTEX_BIT_SIZE cfg) (length m) = m @ replicate 0 0"
      using 2(4) by (simp_all add: partial_fields_def)
    have find: "BlockFind e (BLOCK_BEGIN_INDEX cfg) (VERTEX_BIT_SIZE cfg) (length m) v2 =
        Some (if v2 \<in> set m then Neighbor else NonNeighbor)"
      using find_block_correct [OF cfg(1) e(1) _ assms(6) e(2) sorted] rc(2) hash_start_le [OF cfg(1) 2(3)] assms(2)
        wf_configD(6) [OF cfg(1)] by (simp add: find_block_def hash_start_def mult.commute)
    have "NonNeighborTest_info cfg st v1 di' v2 = (if mi \<le> v2 \<and> v2 \<le> ma
        then Some (if v2 \<in> set m then Neighbor else NonNeighbor) else hash_answer cfg e v2 (hash_start cfg (length m)))"
      using di' assms(3) unsigned_interval [OF le, of v2] find by (simp add: NonNeighborTest_info_def e_def)
    also have "\<dots> = NonNeighborTest cfg st v1 v2"
      unfolding eq using assms(6) by (auto simp: mi_def ma_def not_less)
    finally show ?thesis using di'(1) by blast
  qed
qed

section \<open>Persistence\<close>

lemma foldo_collect_from:
  assumes "\<And>i. a \<le> i \<Longrightarrow> i < b \<Longrightarrow> g i = Some (h i)"
  shows "foldo (\<lambda>i out. do { x \<leftarrow> g i; Some (out @ [x]) }) [a..<b] out = Some (out @ map h [a..<b])"
  using assms
proof (induction "b - a" arbitrary: a out)
  case (Suc n)
  then have "a < b" by simp
  with Suc show ?case by (simp add: upt_conv_Cons)
qed simp

lemma EncodePersistent_lines:
  assumes "wf_config cfg" "wf_encoding cfg st"
  shows "EncodePersistent cfg st = Some (map (\<lambda>i. (i, the (Dump (st ! i)))) [1..<VERTEX_SIZE cfg + 1])"
proof -
  have "aget st i = Some (st ! i)" "\<exists>ws. Dump (st ! i) = Some ws" if "i < VERTEX_SIZE cfg + 1" for i
  proof -
    have "wf_enc cfg (st ! i)" using assms(2) that by (simp add: wf_encoding_def)
    then have "wf_bs (st ! i)" "bs_size (st ! i) mod 4 = 0" by (simp_all add: wf_enc_def)
    then show "\<exists>ws. Dump (st ! i) = Some ws" by (simp add: Dump_eq)
    show "aget st i = Some (st ! i)" using assms(2) that by (simp add: wf_encoding_def)
  qed
  then have "do { e \<leftarrow> aget st i; ws \<leftarrow> Dump e; Some (i, ws) } = Some (i, the (Dump (st ! i)))"
    if "1 \<le> i" "i < VERTEX_SIZE cfg + 1" for i using that by fastforce
  then have "foldo (\<lambda>i out. do { x \<leftarrow> do { e \<leftarrow> aget st i; ws \<leftarrow> Dump e; Some (i, ws) }; Some (out @ [x]) })
      [1..<VERTEX_SIZE cfg + 1] [] = Some ([] @ map (\<lambda>i. (i, the (Dump (st ! i)))) [1..<VERTEX_SIZE cfg + 1])"
    by (rule foldo_collect_from)
  then show ?thesis unfolding EncodePersistent_def Option.bind_assoc bind.bind_lunit append_Nil .
qed

lemma LoadFromDb_lines:
  assumes "wf_config cfg" "wf_encoding cfg st" "wf_encoding cfg st0" "n \<le> VERTEX_SIZE cfg"
  shows "\<exists>st'. LoadFromDb (map (\<lambda>i. (i, the (Dump (st ! i)))) [1..<n + 1]) st0 = Some st' \<and> wf_encoding cfg st' \<and>
    (\<forall>i. 1 \<le> i \<longrightarrow> i \<le> n \<longrightarrow> st' ! i = st ! i)"
  using assms(4)
proof (induction n)
  case 0
  then show ?case using assms(3) by (simp add: LoadFromDb_def)
next
  case (Suc n)
  then obtain st1 where st1: "LoadFromDb (map (\<lambda>i. (i, the (Dump (st ! i)))) [1..<n + 1]) st0 = Some st1"
    "wf_encoding cfg st1" "\<And>i. 1 \<le> i \<Longrightarrow> i \<le> n \<Longrightarrow> st1 ! i = st ! i" by auto
  have "wf_enc cfg (st ! Suc n)" "wf_enc cfg (st1 ! Suc n)"
    using assms(2) st1(2) Suc.prems by (simp_all add: wf_encoding_def)
  then obtain us where us: "Dump (st ! Suc n) = Some us" "BlockSet_words (st1 ! Suc n) us = Some (st ! Suc n)"
    using Dump_BlockSet_words [of "st ! Suc n" "st1 ! Suc n"] by (auto simp: wf_enc_def)
  have len: "Suc n < length st1" using st1(2) Suc.prems by (simp add: wf_encoding_def)
  have "[1..<Suc n + 1] = [1..<n + 1] @ [Suc n]" by simp
  then have "LoadFromDb (map (\<lambda>i. (i, the (Dump (st ! i)))) [1..<Suc n + 1]) st0 = Some (st1[Suc n := st ! Suc n])"
    using st1(1) us len unfolding LoadFromDb_def map_append foldo_append
    by (simp only: foldo_append map_append list.map foldo_single bind.bind_lunit case_prod_conv aget_Some aput_Some
        option.sel)
  moreover have "wf_encoding cfg (st1[Suc n := st ! Suc n])"
    using st1(2) \<open>wf_enc cfg (st ! Suc n)\<close> by (auto simp: wf_encoding_def dest!: subsetD [OF set_update_subset_insert])
  ultimately show ?case using st1(3) len by (auto simp: nth_list_update le_Suc_eq)
qed

end
