(* ===== verification/Hybrid_Spec.thy ===== *)
theory Hybrid_Spec
  imports Hybrid_Laws
begin

text \<open>
  The properties of the hybrid encoding and of what it rests on: the layout that the configuration
  computes, the counters that score a block, the encoding of one vertex, the encoding of a whole
  graph with the test of pairs, and its persistence.
\<close>

text \<open>A graph of ten vertices and encodings of 32 bits, the configuration of the examples.\<close>

definition demo_config :: config where
  "demo_config = \<lparr>K_SIZE = 1, VERTEX_SIZE = 10, DEGREE = 4, B_FILTER_ENCODE_BITS = 10,
     PER_ENCODE_BIT_SIZE = 32, VERTEX_BIT_SIZE = 4, MAX_K_CORE_SIZE = 7, LOG_K = 3,
     MAX_INTEGER_SIZE = 6, BLOCK_BEGIN_INDEX = 6, BLOCK_NUMS = 0, ELEMENT_SIZE = 5,
     BIT_HASH_BEST_NUMS = 1, INT_HASH_BEST_NUMS = 1, COUNT_HASH_BEST_NUMS = 1, PREFIX_BIT_SIZE = 6, HSIMD = False\<rparr>"

lemma demo_config_Init:
  "do { cfg \<leftarrow> InitCommonVariables False 1 10 4; InitHashConfig 0 1 cfg } = Some demo_config"
proof -
  have "clog2 10 = 4" "clog2 8 = 3" "clog2 40 = 6" by (rule clog2_unique; simp)+
  then show ?thesis
    by (simp add: InitCommonVariables_def InitHashConfig_def demo_config_def cdiv_def UP_TO_ONE_def Let_def)
qed

lemma demo_config_good: "good_config demo_config"
  by (simp add: good_config_def wf_config_def demo_config_def)

text \<open>And a graph: vertex 1 is a neighbour of 2 and of 10.\<close>

definition demo_adj :: "u32 \<Rightarrow> u32 list" where
  "demo_adj v = (if v = 1 then [2, 10] else if v = 2 \<or> v = 10 then [1] else [])"

lemma demo_adj_ids: "good_ids demo_config (demo_adj v)"
  by (simp add: demo_adj_def good_ids_def demo_config_def)

lemma demo_adj_sym: "u \<in> set (demo_adj v) \<longleftrightarrow> v \<in> set (demo_adj u)"
  by (auto simp: demo_adj_def)

text \<open>A graph of two hundred vertices, whose ids have eight bits. Three of them fit an encoding, so that vertex 1
  of the star below is stored in part.\<close>

definition byte_config :: config where
  "byte_config = \<lparr>K_SIZE = 1, VERTEX_SIZE = 200, DEGREE = 4, B_FILTER_ENCODE_BITS = 200,
     PER_ENCODE_BIT_SIZE = 32, VERTEX_BIT_SIZE = 8, MAX_K_CORE_SIZE = 3, LOG_K = 2,
     MAX_INTEGER_SIZE = 3, BLOCK_BEGIN_INDEX = 5, BLOCK_NUMS = 12, ELEMENT_SIZE = 9,
     BIT_HASH_BEST_NUMS = 1, INT_HASH_BEST_NUMS = 1, COUNT_HASH_BEST_NUMS = 1, PREFIX_BIT_SIZE = 5, HSIMD = False\<rparr>"

lemma byte_config_Init:
  "do { cfg \<leftarrow> InitCommonVariables False 1 200 4; InitHashConfig 0 1 cfg } = Some byte_config"
proof -
  have "clog2 200 = 8" "clog2 4 = 2" "clog2 800 = 10" by (rule clog2_unique; simp)+
  then show ?thesis
    by (simp add: InitCommonVariables_def InitHashConfig_def byte_config_def cdiv_def UP_TO_ONE_def Let_def)
qed

lemma byte_config_readable: "readable_config byte_config"
  by (simp add: readable_config_def good_config_def wf_config_def byte_config_def)

lemmas byte_config_good = readable_configD(1) [OF byte_config_readable]
lemmas byte_config_wf = good_configD(1) [OF byte_config_good]

definition star_adj :: "u32 \<Rightarrow> u32 list" where
  "star_adj v = (if v = 1 then [2, 3, 5, 8, 13, 200] else if v \<in> {2, 3, 5, 8, 13, 200} then [1] else [])"

lemma star_adj_ids: "good_ids byte_config (star_adj v)"
  by (simp add: star_adj_def good_ids_def byte_config_def)

lemma star_adj_sym: "u \<in> set (star_adj v) \<longleftrightarrow> v \<in> set (star_adj u)"
  by (auto simp: star_adj_def)

text \<open>C19. The layout. Whenever the initialisation succeeds for at most 64 words per vertex, the flag and
  \<^verbatim>\<open>MAX_K_CORE_SIZE\<close> integers fit into an encoding, so do the header and \<^verbatim>\<open>MAX_INTEGER_SIZE\<close> integers,
  every number of integers fits its \<^verbatim>\<open>LOG_K\<close> bits, and no 32 bit computation wraps.\<close>

theorem config_layout:
  assumes "InitCommonVariables hsimd k v d = Some cfg0" "InitHashConfig ni nc cfg0 = Some cfg"
    "k \<le> 64" "v < 2 ^ 32 - 1"
  shows "PER_ENCODE_BIT_SIZE cfg = 32 * k \<and> 0 < VERTEX_BIT_SIZE cfg \<and> VERTEX_BIT_SIZE cfg \<le> 32 \<and>
    v \<le> 2 ^ VERTEX_BIT_SIZE cfg \<and>
    1 + MAX_K_CORE_SIZE cfg * VERTEX_BIT_SIZE cfg \<le> PER_ENCODE_BIT_SIZE cfg \<and>
    BLOCK_BEGIN_INDEX cfg = PREFIX_BIT_SIZE cfg \<and>
    BLOCK_BEGIN_INDEX cfg + MAX_INTEGER_SIZE cfg * VERTEX_BIT_SIZE cfg \<le> PER_ENCODE_BIT_SIZE cfg \<and>
    MAX_INTEGER_SIZE cfg \<le> MAX_K_CORE_SIZE cfg \<and> MAX_K_CORE_SIZE cfg < 2 ^ LOG_K cfg"
proof -
  have wf: "wf_config cfg" using InitHashConfig_wf [OF assms] .
  have "VERTEX_SIZE cfg = v" "K_SIZE cfg = k"
    using InitCommonVariables_fields(1,2) [OF assms(1)] assms(2)
    by (auto simp: InitHashConfig_def split: bind_splits)
  with wf show ?thesis by (simp add: wf_config_def)
qed

lemma config_layout_witness:
  "BLOCK_BEGIN_INDEX demo_config + MAX_INTEGER_SIZE demo_config * VERTEX_BIT_SIZE demo_config
     \<le> PER_ENCODE_BIT_SIZE demo_config"
proof -
  obtain cfg0 where "InitCommonVariables False 1 10 4 = Some cfg0" "InitHashConfig 0 1 cfg0 = Some demo_config"
    using demo_config_Init by (auto split: bind_splits)
  from config_layout [OF this] show ?thesis by simp
qed

text \<open>\<^verbatim>\<open>VERTEX_BIT_SIZE\<close> bits hold every id below the number of vertices, but when that number is a power
  of two they do not hold the last id, which is the number itself. Written as a block it leaves the
  block zero and, unless the block starts a byte, sets the bit in front of the block; no other bit changes.\<close>

theorem last_id_does_not_fit:
  assumes "InitCommonVariables hsimd k (2 ^ m) d = Some cfg" "m < 32"
    "wf_bs bs" "b + m \<le> 8 * bs_size bs" "b < 2048"
  shows "VERTEX_BIT_SIZE cfg = m \<and> (\<exists>bs'. BlockSet bs b (VERTEX_BIT_SIZE cfg) (of_nat (VERTEX_SIZE cfg)) = Some bs' \<and>
    (\<forall>p < 8 * bs_size bs. IsOne bs' p = (if b \<le> p \<and> p < b + m then Some False
       else if p + 1 = b \<and> b mod 8 \<noteq> 0 then Some True else IsOne bs p)))"
proof -
  have "clog2 (2 ^ m) = m" by (rule clog2_unique) simp_all
  then have m: "VERTEX_BIT_SIZE cfg = m" "VERTEX_SIZE cfg = 2 ^ m" "0 < m"
    using InitCommonVariables_fields [OF assms(1)] assms(1)
    by (auto simp: InitCommonVariables_def cdiv_def Let_def split: bind_splits if_splits)
  let ?v = "of_nat (2 ^ m) :: u32"
  have bit: "bit ?v i \<longleftrightarrow> i = m" for i using assms(2) by (auto simp: bit_exp_iff)
  have one: "IsOne (block_spill bs b m ?v) p = (if b \<le> p \<and> p < b + m then Some False
      else if p + 1 = b \<and> b mod 8 \<noteq> 0 then Some True else IsOne bs p)" if p: "p < 8 * bs_size bs" for p
  proof -
    have "p < b \<and> p div 8 = b div 8 \<and> b + m - 1 - p = m \<longleftrightarrow> p + 1 = b \<and> b mod 8 \<noteq> 0"
    proof -
      have "Suc q div 8 = q div 8 \<longleftrightarrow> Suc q mod 8 \<noteq> 0" for q :: nat by (simp add: div_Suc mod_Suc)
      then have "p div 8 = b div 8 \<longleftrightarrow> b mod 8 \<noteq> 0" if "b = Suc p" using that by metis
      moreover have "p < b \<and> b + m - 1 - p = m \<longleftrightarrow> b = Suc p" using m(3) by linarith
      ultimately show ?thesis by (metis Suc_eq_plus1)
    qed
    with p assms(3) show ?thesis unfolding IsOne_correct [OF block_spill_simps(1), unfolded block_spill_simps, OF p]
      by (simp only: bitat_block_spill bit) auto
  qed
  have "BlockSet bs b m ?v = Some (block_spill bs b m ?v)"
    using assms(2-5) m(3) by (intro BlockSet_spill) simp_all
  with m(1,2) one show ?thesis by metis
qed

lemma last_id_does_not_fit_witness:
  "\<exists>cfg bs'. InitCommonVariables False 2 16 4 = Some cfg \<and>
     BlockSet (BitSetSIMD 64) 10 (VERTEX_BIT_SIZE cfg) (of_nat (VERTEX_SIZE cfg)) = Some bs' \<and>
     IsOne (BitSetSIMD 64) 9 = Some False \<and> IsOne bs' 9 = Some True \<and> IsOne bs' 10 = Some False"
proof -
  have "clog2 16 = 4" "clog2 64 = 6" "clog2 (Suc 15) = 4" by (rule clog2_unique; simp)+
  then have "InitCommonVariables False 2 (2 ^ 4) 4 \<noteq> None"
    by (simp add: InitCommonVariables_def cdiv_def Let_def)
  then obtain cfg where cfg: "InitCommonVariables False 2 (2 ^ 4) 4 = Some cfg" by blast
  with last_id_does_not_fit [OF cfg, of "BitSetSIMD 64" 10] obtain bs' where
    "BlockSet (BitSetSIMD 64) 10 (VERTEX_BIT_SIZE cfg) (of_nat (VERTEX_SIZE cfg)) = Some bs'"
    "\<forall>p < 64. IsOne bs' p = (if 10 \<le> p \<and> p < 14 then Some False else if p + 1 = 10 then Some True else IsOne (BitSetSIMD 64) p)"
    by auto
  with cfg show ?thesis by (intro exI [of _ cfg] exI [of _ bs']) simp
qed

text \<open>Blocks of any values: a bit in front of them is never cleared.\<close>

lemma put_blocks_any:
  assumes "wf_bs e" "b + n * length xs \<le> 8 * bs_size e" "0 < n" "n \<le> 32" "bs_size e \<le> 256"
  shows "\<exists>e'. put_blocks BlockSet e b n xs = Some e' \<and> wf_bs e' \<and> bs_size e' = bs_size e \<and>
    (\<forall>p < b. bitat e p \<longrightarrow> bitat e' p)"
  using assms
proof (induction xs arbitrary: e b)
  case (Cons x xs)
  have set: "BlockSet e b n x = Some (block_spill e b n x)"
    using Cons.prems by (intro BlockSet_spill) auto
  have "b + n + n * length xs \<le> 8 * bs_size (block_spill e b n x)" using Cons.prems by (simp add: algebra_simps)
  with Cons.IH [of "block_spill e b n x" "b + n"] Cons.prems obtain e' where
    "put_blocks BlockSet (block_spill e b n x) (b + n) n xs = Some e'" "wf_bs e'" "bs_size e' = bs_size e"
    "\<forall>p < b + n. bitat (block_spill e b n x) p \<longrightarrow> bitat e' p" by auto
  moreover have "bitat (block_spill e b n x) p" if "p < b" "bitat e p" for p
    using that Cons.prems(2) by simp
  ultimately show ?case using set by auto
qed simp

text \<open>C20. So with a power of two of vertices the last vertex is denied as a neighbour: whatever list with few
  elements holds it, and whatever else the list holds, \<^verbatim>\<open>EncodeVertex\<close> succeeds and \<^verbatim>\<open>NonNeighborTest\<close> answers
  \<^verbatim>\<open>NonNeighbor\<close> for the last id, in both searches.\<close>

theorem last_neighbor_lost:
  assumes "readable_config cfg" "VERTEX_SIZE cfg = 2 ^ VERTEX_BIT_SIZE cfg" "wf_encoding cfg st" "is_vertex cfg v"
    "length ns \<le> MAX_K_CORE_SIZE cfg" "of_nat (VERTEX_SIZE cfg) \<in> set ns"
  shows "\<exists>st'. EncodeVertex cfg v ns st = Some st' \<and> NonNeighborTest cfg st' v (of_nat (VERTEX_SIZE cfg)) = Some NonNeighbor"
proof -
  note rc = readable_configD [OF assms(1)] and cfg = good_configD [OF readable_configD(1) [OF assms(1)]]
  note wc = wf_configD [OF cfg(1)] and v = is_vertex_index [OF assms(3,4)]
  let ?n = "VERTEX_BIT_SIZE cfg" and ?u = "of_nat (VERTEX_SIZE cfg) :: u32" and ?k = "MAX_K_CORE_SIZE cfg"
  let ?e0 = "bit_upd (st ! unat v) 0 True"
  have e: "wf_enc cfg (st ! unat v)" using assms(3) v by (simp add: wf_encoding_def)
  note we = wf_encD [OF cfg(1) e]
  have room: "1 + ?n * ?k \<le> 8 * bs_size ?e0" "?n * length ns \<le> ?n * ?k"
    using wc(5) we(2) assms(5) by (simp_all add: mult.commute)
  then have "1 + ?n * length ns \<le> 8 * bs_size ?e0" by linarith
  then obtain e1 where e1: "put_blocks BlockSet ?e0 1 ?n ns = Some e1" "wf_bs e1" "bs_size e1 = bs_size (st ! unat v)" "bitat e1 0"
    using put_blocks_any [of ?e0 1 ?n ns] we wc(3,4,12) by auto
  have st': "EncodeVertex cfg v ns st = Some (st[unat v := e1])"
    using v assms(5) e1(1) we wc(12) by (simp add: EncodeVertex_def)
  have "VERTEX_SIZE cfg < 2 ^ 32" using wc(15) by simp
  then have "unat ?u = VERTEX_SIZE cfg" by (simp add: unat_of_nat)
  then have u: "unat ?u = 2 ^ ?n" by (simp only: assms(2))
  have "?u \<notin> set (blocks_val e1 1 ?n ?k)"
  proof
    assume "?u \<in> set (blocks_val e1 1 ?n ?k)"
    then obtain i where "?u = block_val e1 (1 + i * ?n) ?n" by (auto simp: blocks_val_def)
    with block_val_lt [of e1 "1 + i * ?n" ?n] u show False by (metis less_irrefl)
  qed
  moreover have "\<not> scan (blocks_val e1 1 ?n ?k) ?u" using calculation scan_imp_mem by blast
  moreover have "?u \<noteq> 0" using u by (metis power_not_zero unat_0 zero_neq_numeral)
  ultimately have "find_block cfg e1 1 ?k ?u = Some NonNeighbor"
    using e1(2,3) room(1) rc(2) wc(3,4) by (simp add: find_block_def)
  moreover have "IsDecodable (st[unat v := e1]) v = Some True"
    using v e1(2-4) we wc(12) by (simp add: IsDecodable_def)
  ultimately show ?thesis using st' v by (simp add: NonNeighborTest_def)
qed

lemma last_neighbor_lost_witness:
  "\<exists>cfg st'. (do { cfg \<leftarrow> InitCommonVariables False 1 256 4; InitHashConfig 0 1 cfg }) = Some cfg \<and>
     EncodeVertex cfg 7 [9, 256] (EncodeBitSet cfg) = Some st' \<and> NonNeighborTest cfg st' 7 256 = Some NonNeighbor"
proof -
  let ?cfg = "byte_config\<lparr>VERTEX_SIZE := 256, B_FILTER_ENCODE_BITS := 256, BLOCK_NUMS := 16\<rparr>"
  have "clog2 256 = 8" "clog2 4 = 2" "clog2 1024 = 10" by (rule clog2_unique; simp)+
  then have init: "(do { cfg \<leftarrow> InitCommonVariables False 1 256 4; InitHashConfig 0 1 cfg }) = Some ?cfg"
    by (simp add: InitCommonVariables_def InitHashConfig_def byte_config_def cdiv_def UP_TO_ONE_def Let_def)
  have r: "readable_config ?cfg" by (simp add: readable_config_def good_config_def wf_config_def byte_config_def)
  from last_neighbor_lost [OF r _ EncodeBitSet_wf(1) [OF good_configD(1) [OF readable_configD(1) [OF r]]], of 7 "[9, 256]"]
  obtain st' where "EncodeVertex ?cfg 7 [9, 256] (EncodeBitSet ?cfg) = Some st'" "NonNeighborTest ?cfg st' 7 256 = Some NonNeighbor"
    by (auto simp: is_vertex_def byte_config_def)
  with init show ?thesis by blast
qed

text \<open>The counters of \<^verbatim>\<open>HashCount\<close>. After \<^verbatim>\<open>ReConstruct\<close> the counter of every position is the number of
  neighbours behind the block that hash there, and \<^verbatim>\<open>hash_count_\<close> is the number of distinct positions.\<close>

theorem ReConstruct_counts:
  assumes "wf_config cfg" "n \<le> MAX_INTEGER_SIZE cfg" "n \<le> length ns" "length ns < 2 ^ 32"
  shows "\<exists>hc. ReConstruct cfg ns n False (HashCount_new cfg) = Some hc \<and>
    (\<forall>i < PER_ENCODE_BIT_SIZE cfg. unat (hash_array hc ! i) = length (filter (\<lambda>v. unat (Hash hc v) = i) (drop n ns))) \<and>
    unat (hash_count hc) = card ((\<lambda>v. unat (Hash hc v)) ` set (drop n ns))"
proof -
  have "length (hash_array (HashCount_new cfg)) = PER_ENCODE_BIT_SIZE cfg" by (simp add: HashCount_new_def)
  from ReConstruct_refines(1) [OF assms(1,2) this assms(3,4)] obtain hc where
    hc: "ReConstruct cfg ns n False (HashCount_new cfg) = Some hc" "hc_fits cfg n hc" "hc_counts hc (drop n ns)" by blast
  have "unat (hash_array hc ! i) = length (filter (\<lambda>v. unat (Hash hc v) = i) (drop n ns))"
    if "i < PER_ENCODE_BIT_SIZE cfg" for i
  proof -
    have "unat (hash_array hc ! i) = count (mset (map (\<lambda>v. unat (Hash hc v)) (drop n ns))) i"
      using hc(2,3) that by (auto simp: hc_counts_def hc_fits_def dest: hc_relD(1))
    then show ?thesis by (simp only: count_mset_map)
  qed
  with hc(1) hc_counts_distinct [OF hc(3)] show ?thesis by blast
qed

lemma ReConstruct_counts_witness:
  "\<exists>hc. ReConstruct demo_config [1, 2, 3, 5, 8] 2 False (HashCount_new demo_config) = Some hc \<and>
     unat (hash_count hc) = card ((\<lambda>v. unat (Hash hc v)) ` {3, 5, 8})"
  using ReConstruct_counts [of demo_config 2 "[1, 2, 3, 5, 8]"] demo_config_good
  by (auto simp: good_config_def demo_config_def)

text \<open>C9. The hybrid encoding is sound. After \<^verbatim>\<open>EncodeVertex\<close> of a fresh vertex with a sorted list of
  neighbours, \<^verbatim>\<open>NonNeighborTest\<close> returns, and \<^verbatim>\<open>Neighbor\<close> means a neighbour, \<^verbatim>\<open>NonNeighbor\<close> none; the
  encodings of the other vertices are untouched. This covers both formats, all four kinds of block
  and both searches, for every configuration in which the blocks can be read (ids of at least eight
  bits, and a count inside its byte or of at least eight bits).\<close>

theorem hybrid_encode_sound:
  assumes "readable_config cfg" "wf_encoding cfg st" "is_vertex cfg v" "good_ids cfg ns" "fresh cfg (st ! unat v)"
    "is_vertex cfg u"
  shows "\<exists>st' r. EncodeVertex cfg v ns st = Some st' \<and> NonNeighborTest cfg st' v u = Some r \<and>
    (r = Neighbor \<longrightarrow> u \<in> set ns) \<and> (r = NonNeighbor \<longrightarrow> u \<notin> set ns) \<and>
    (\<forall>w. w \<noteq> v \<longrightarrow> st' ! unat w = st ! unat w)"
proof -
  from EncodeVertex_interface [OF readable_configD(1) [OF assms(1)] assms(2-5)] obtain st' where
    st': "EncodeVertex cfg v ns st = Some st'" "wf_encoding cfg st'" "encodes cfg (st' ! unat v) ns"
    "\<forall>w. w \<noteq> v \<longrightarrow> st' ! unat w = st ! unat w" by blast
  from hybrid.test_law [of "(cfg, st')" v u ns] st' assms obtain r where
    "NonNeighborTest cfg st' v u = Some r" "answer_ok r (u \<in> set ns)" by auto
  with st' show ?thesis by (auto simp: answer_ok_def)
qed

lemma hybrid_encode_sound_witness:
  "\<exists>st' r. EncodeVertex byte_config 4 [1, 2, 3, 5, 6, 7, 8, 9, 200] (EncodeBitSet byte_config) = Some st' \<and>
     NonNeighborTest byte_config st' 4 10 = Some r \<and> r \<noteq> Neighbor"
  using hybrid_encode_sound [OF byte_config_readable EncodeBitSet_wf(1) [OF byte_config_wf] _ _ EncodeBitSet_wf(2) [OF byte_config_wf],
      of 4 "[1, 2, 3, 5, 6, 7, 8, 9, 200]" 10]
  by (auto simp: is_vertex_def good_ids_def byte_config_def)

text \<open>C14. A vertex with at most \<^verbatim>\<open>MAX_K_CORE_SIZE\<close> neighbours is never uncertain: its encoding holds all of
  them and the test decides membership (with ids of at least eight bits).\<close>

theorem hybrid_decodable_exact:
  assumes "good_config cfg" "8 \<le> VERTEX_BIT_SIZE cfg" "wf_encoding cfg st" "is_vertex cfg v" "good_ids cfg ns"
    "fresh cfg (st ! unat v)" "is_vertex cfg u" "length ns \<le> MAX_K_CORE_SIZE cfg"
  shows "\<exists>st'. EncodeVertex cfg v ns st = Some st' \<and> IsDecodable st' v = Some True \<and>
    NonNeighborTest cfg st' v u = Some (if u \<in> set ns then Neighbor else NonNeighbor)"
  using decodable_exact [OF assms(1,3-6,8,2)] assms(7) by (auto simp: is_vertex_def word_gt_0)

lemma hybrid_decodable_exact_witness:
  "\<exists>st'. EncodeVertex byte_config 4 [1, 2, 200] (EncodeBitSet byte_config) = Some st' \<and> IsDecodable st' 4 = Some True \<and>
    NonNeighborTest byte_config st' 4 200 = Some Neighbor"
  using hybrid_decodable_exact [OF byte_config_good _ EncodeBitSet_wf(1) [OF byte_config_wf] _ _ EncodeBitSet_wf(2) [OF byte_config_wf],
      of 4 "[1, 2, 200]" 200]
  by (auto simp: is_vertex_def good_ids_def byte_config_def)

text \<open>C30. A count of six or seven bits lies in two bytes and cannot be read. Such configurations are ordinary ones
  (32 words per vertex and a million vertices have a count of six bits): every vertex with more neighbours
  than fit is encoded, and then every test of it is undefined.\<close>

theorem hybrid_count_undefined:
  assumes "good_config cfg" "LOG_K cfg \<in> {6, 7}" "wf_encoding cfg st" "is_vertex cfg v" "good_ids cfg ns"
    "fresh cfg (st ! unat v)" "MAX_K_CORE_SIZE cfg < length ns"
  shows "\<exists>st'. EncodeVertex cfg v ns st = Some st' \<and> IsDecodable st' v = Some False \<and> (\<forall>u. NonNeighborTest cfg st' v u = None)"
proof -
  from EncodeVertex_interface [OF assms(1,3-6)] obtain st' where
    st': "EncodeVertex cfg v ns st = Some st'" "wf_encoding cfg st'" "encodes cfg (st' ! unat v) ns" by blast
  note wf = good_configD(1) [OF assms(1)] and v = is_vertex_index [OF st'(2) assms(4)]
  have flag: "\<not> bitat (st' ! unat v) 0"
  proof
    assume "bitat (st' ! unat v) 0"
    then have "\<exists>k. blocks_val (st' ! unat v) 1 (VERTEX_BIT_SIZE cfg) (MAX_K_CORE_SIZE cfg) = ns @ replicate k 0"
      using st'(3) by (auto simp: encodes_def partial_fields_def)
    then obtain k where "MAX_K_CORE_SIZE cfg = length ns + k" by (metis length_append length_blocks_val length_replicate)
    with assms(7) show False by simp
  qed
  note we = wf_encD [OF wf encodes_wf_enc [OF st'(3)]]
  have dec: "IsDecodable st' v = Some False" using flag v we wf_configD(12) [OF wf] by (simp add: IsDecodable_def)
  have "\<not> readable 3 (LOG_K cfg)" using assms(2) by (auto simp: readable_def)
  then have "GetBlockNum (LOG_K cfg) (st' ! unat v) = None" by (simp add: GetBlockNum_def BlockGet_straddling)
  with dec v st'(1) show ?thesis by (simp add: NonNeighborTest_def)
qed

lemma hybrid_count_undefined_witness:
  "\<exists>cfg st'. (do { cfg \<leftarrow> InitCommonVariables False 9 200 4; InitHashConfig 0 1 cfg }) = Some cfg \<and>
     EncodeVertex cfg 4 (map of_nat [100..<150]) (EncodeBitSet cfg) = Some st' \<and> NonNeighborTest cfg st' 4 101 = None"
proof -
  let ?cfg = "byte_config\<lparr>K_SIZE := 9, B_FILTER_ENCODE_BITS := 1800, PER_ENCODE_BIT_SIZE := 288, MAX_K_CORE_SIZE := 35,
    LOG_K := 6, MAX_INTEGER_SIZE := 34, BLOCK_BEGIN_INDEX := 9, BLOCK_NUMS := 112, PREFIX_BIT_SIZE := 9\<rparr>"
  have "clog2 200 = 8" "clog2 36 = 6" "clog2 800 = 10" by (rule clog2_unique; simp)+
  then have init: "(do { cfg \<leftarrow> InitCommonVariables False 9 200 4; InitHashConfig 0 1 cfg }) = Some ?cfg"
    by (simp add: InitCommonVariables_def InitHashConfig_def byte_config_def cdiv_def UP_TO_ONE_def Let_def)
  have g: "good_config ?cfg" by (simp add: good_config_def wf_config_def byte_config_def)
  have ids: "good_ids ?cfg (map of_nat [100..<150])" by (simp add: good_ids_def byte_config_def upt_rec)
  have v: "is_vertex ?cfg 4" by (simp add: is_vertex_def byte_config_def)
  note new = EncodeBitSet_wf [OF good_configD(1) [OF g]]
  have "LOG_K ?cfg \<in> {6, 7}" "MAX_K_CORE_SIZE ?cfg < length (map of_nat [100..<150] :: u32 list)" by simp_all
  from hybrid_count_undefined [OF g this(1) new(1) v ids new(2) [OF v] this(2)]
  have "\<exists>st'. EncodeVertex ?cfg 4 (map of_nat [100..<150]) (EncodeBitSet ?cfg) = Some st' \<and> NonNeighborTest ?cfg st' 4 101 = None"
    by blast
  with init show ?thesis by blast
qed

text \<open>C4. The hybrid encoding of a whole graph. Encoding every vertex of an undirected graph, starting from
  the constructor, succeeds, and then \<^verbatim>\<open>NEpairTest\<close> answers every pair soundly, for every configuration in
  which the blocks can be read.\<close>

theorem hybrid_graph_sound:
  assumes "readable_config cfg" "\<And>v. is_vertex cfg v \<Longrightarrow> good_ids cfg (adj v)"
    "\<And>u v. is_vertex cfg u \<Longrightarrow> is_vertex cfg v \<Longrightarrow> u \<in> set (adj v) \<longleftrightarrow> v \<in> set (adj u)"
  shows "\<exists>st. build_all (EncodeVertex cfg) adj (vertex_list cfg) (EncodeBitSet cfg) = Some st \<and>
    (\<forall>u v. is_vertex cfg u \<longrightarrow> is_vertex cfg v \<longrightarrow>
      (\<exists>r. NEpairTest cfg st v u = Some r \<and>
        (r = Neighbor \<longrightarrow> u \<in> set (adj v)) \<and> (r = NonNeighbor \<longrightarrow> u \<notin> set (adj v))))"
proof -
  obtain st where st: "build_all (EncodeVertex cfg) adj (vertex_list cfg) (EncodeBitSet cfg) = Some st"
    "hybrid.encodes_graph (cfg, st) adj"
    using hybrid_build_graph [OF assms] by blast
  with NEpairTest_sound [OF st(2)] show ?thesis by (fastforce simp: answer_ok_def)
qed

lemma hybrid_graph_sound_witness:
  "\<exists>st. build_all (EncodeVertex byte_config) star_adj (vertex_list byte_config) (EncodeBitSet byte_config) = Some st \<and>
     (\<exists>r. NEpairTest byte_config st 1 13 = Some r \<and> r \<noteq> NonNeighbor)"
proof -
  have "is_vertex byte_config 1" "is_vertex byte_config 13" by (simp_all add: is_vertex_def byte_config_def)
  moreover have "13 \<in> set (star_adj 1)" by (simp add: star_adj_def)
  ultimately show ?thesis using hybrid_graph_sound [OF byte_config_readable star_adj_ids star_adj_sym] by blast
qed

text \<open>The test on decoded information agrees with the direct test on every encoded vertex.\<close>

theorem hybrid_decode_agrees:
  assumes "readable_config cfg" "\<not> HSIMD cfg" "wf_encoding cfg st" "is_vertex cfg v" "good_ids cfg ns" "fresh cfg (st ! unat v)"
    "is_vertex cfg u"
  shows "\<exists>st' di'. EncodeVertex cfg v ns st = Some st' \<and> Decode cfg st' v di = Some di' \<and>
    NonNeighborTest_info cfg st' v di' u = NonNeighborTest cfg st' v u"
proof -
  from EncodeVertex_interface [OF readable_configD(1) [OF assms(1)] assms(3-6)] obtain st' where
    st': "EncodeVertex cfg v ns st = Some st'" "wf_encoding cfg st'" "encodes cfg (st' ! unat v) ns" by blast
  have "u \<noteq> 0" using assms(7) by (simp add: is_vertex_def word_gt_0)
  from Decode_test_eq [OF assms(1,2) is_vertex_index [OF st'(2) assms(4)] st'(3) assms(5) this] st'(1)
  show ?thesis by blast
qed

lemma hybrid_decode_agrees_witness:
  "\<exists>st' di'. EncodeVertex byte_config 4 [1, 2, 3, 5, 6, 7, 8, 9, 200] (EncodeBitSet byte_config) = Some st' \<and>
     Decode byte_config st' 4 \<lparr>decodable = False, di_block_num = 0, di_hash_begin = 0, di_min = 0, di_max = 0\<rparr> = Some di' \<and>
     NonNeighborTest_info byte_config st' 4 di' 10 = NonNeighborTest byte_config st' 4 10"
  using hybrid_decode_agrees [OF byte_config_readable _ EncodeBitSet_wf(1) [OF byte_config_wf] _ _ EncodeBitSet_wf(2) [OF byte_config_wf],
      of 4 "[1, 2, 3, 5, 6, 7, 8, 9, 200]" 10]
  by (auto simp: is_vertex_def good_ids_def byte_config_def)

text \<open>C15. Persistence. The lines that \<^verbatim>\<open>EncodePersistent\<close> writes, loaded into any array of the same
  geometry, restore the encoding of every vertex.\<close>

theorem encode_persist_roundtrip:
  assumes "wf_config cfg" "wf_encoding cfg st" "wf_encoding cfg st0"
  shows "\<exists>lines st'. EncodePersistent cfg st = Some lines \<and> LoadFromDb lines st0 = Some st' \<and>
    (\<forall>v. is_vertex cfg v \<longrightarrow> st' ! unat v = st ! unat v)"
proof -
  obtain st' where "LoadFromDb (map (\<lambda>i. (i, the (Dump (st ! i)))) [1..<VERTEX_SIZE cfg + 1]) st0 = Some st'"
    "\<forall>i. 1 \<le> i \<longrightarrow> i \<le> VERTEX_SIZE cfg \<longrightarrow> st' ! i = st ! i"
    using LoadFromDb_lines [OF assms order_refl] by blast
  moreover have "1 \<le> unat v" if "is_vertex cfg v" for v
    using that by (simp add: is_vertex_def word_less_nat_alt)
  ultimately show ?thesis using EncodePersistent_lines [OF assms(1,2)] by (auto simp: is_vertex_def)
qed

lemma encode_persist_roundtrip_witness:
  "\<exists>lines st'. EncodePersistent demo_config (EncodeBitSet demo_config) = Some lines \<and>
     LoadFromDb lines (EncodeBitSet demo_config) = Some st' \<and> st' ! 7 = EncodeBitSet demo_config ! 7"
  using encode_persist_roundtrip [of demo_config "EncodeBitSet demo_config" "EncodeBitSet demo_config"]
    EncodeBitSet_wf(1) [of demo_config] demo_config_good
  by (fastforce simp: good_config_def is_vertex_def demo_config_def dest: spec [of _ "7 :: u32"])

end
