(* ===== verification/Range_Encode.thy ===== *)
theory Range_Encode
  imports Hybrid_Encode Encoder_Interface
begin

text \<open>
  \<^verbatim>\<open>RangeEncode\<close> of \<^verbatim>\<open>encode/single/range_encode.h\<close> and \<^verbatim>\<open>.cpp\<close>: 32 bit words, the first one a flag, the
  others neighbours. A vertex with more neighbours than words keeps the run of neighbours that spans
  the largest interval; the run may start with 0 or end with \<open>VERTEX_SIZE + 1\<close>. The operations carry
  the prefix \<open>Range\<close> where \<open>HybridEncode\<close> has one of the same name.
\<close>

definition max_int_size :: "config \<Rightarrow> nat" where
  "max_int_size cfg = K_SIZE cfg - 1"

definition GetFlag :: "encoding \<Rightarrow> u32 \<Rightarrow> bool option" where
  "GetFlag st vertex = do { e \<leftarrow> aget st (unat vertex); v \<leftarrow> BlockGet e 0 32; Some (v \<noteq> 0) }"

definition SetFlag :: "bool \<Rightarrow> bitset \<Rightarrow> bitset option" where
  "SetFlag flag e = BlockSet e 0 32 (if flag then 1 else 0)"

text \<open>The loops of \<^verbatim>\<open>NonNeighborTest\<close>: is one of the words from \<open>index\<close> to \<open>stop\<close> the vertex?\<close>

function Range_scan :: "bitset \<Rightarrow> nat \<Rightarrow> nat \<Rightarrow> u32 \<Rightarrow> PairType option" where
  "Range_scan e index stop vertex2 =
     (if index \<le> stop then do {
        v \<leftarrow> BlockGet e index 32;
        if v = vertex2 then Some Neighbor else Range_scan e (index + 32) stop vertex2 }
      else Some NonNeighbor)"
  by pat_completeness auto
termination
  by (relation "measure (\<lambda>(e, index, stop, vertex2). Suc stop - index)") auto

declare Range_scan.simps [simp del]

definition Range_NonNeighborTest :: "config \<Rightarrow> encoding \<Rightarrow> u32 \<Rightarrow> u32 \<Rightarrow> PairType option" where
  "Range_NonNeighborTest cfg st vertex1 vertex2 = do {
     e \<leftarrow> aget st (unat vertex1);
     flag \<leftarrow> GetFlag st vertex1;
     if flag then Range_scan e 32 (wsub32 (PER_ENCODE_BIT_SIZE cfg) 32 + 1) vertex2
     else do {
       mi \<leftarrow> BlockGet e 32 32;
       ma \<leftarrow> BlockGet e (32 * max_int_size cfg) 32;
       if vertex2 = mi \<or> vertex2 = ma then Some Neighbor
       else if vertex2 < mi \<or> vertex2 > ma then Some Uncertain
       else Range_scan e 32 (32 * max_int_size cfg) vertex2 } }"

definition Range_NEpairTest :: "config \<Rightarrow> encoding \<Rightarrow> u32 \<Rightarrow> u32 \<Rightarrow> PairType option" where
  "Range_NEpairTest cfg st vertex1 vertex2 = do {
     type1 \<leftarrow> Range_NonNeighborTest cfg st vertex1 vertex2;
     type2 \<leftarrow> Range_NonNeighborTest cfg st vertex2 vertex1;
     Some (if type1 < type2 then type1 else type2) }"

text \<open>\<^verbatim>\<open>GetBlockInt\<close> returns only from inside its first loop; every other path runs off the end of the
  function.\<close>

fun GetBlockInt_loop :: "bitset \<Rightarrow> nat list \<Rightarrow> u32 list \<Rightarrow> u32 list option" where
  "GetBlockInt_loop e [] block = None"
| "GetBlockInt_loop e (i # is) block = do {
     v \<leftarrow> BlockGet e (i * 32) 32;
     if v = 0 then Some block else GetBlockInt_loop e is (block @ [v]) }"

definition GetBlockInt :: "config \<Rightarrow> encoding \<Rightarrow> u32 \<Rightarrow> u32 list option" where
  "GetBlockInt cfg st vertex = do {
     e \<leftarrow> aget st (unat vertex);
     flag \<leftarrow> GetFlag st vertex;
     if flag then GetBlockInt_loop e [1..<max_int_size cfg + 1] [] else None }"

definition Range_GetEncodeType :: "config \<Rightarrow> encoding \<Rightarrow> u32 \<Rightarrow> EncodeType option" where
  "Range_GetEncodeType cfg st vertex = do {
     flag \<leftarrow> GetFlag st vertex;
     if \<not> flag then Some NonDecodable
     else do {
       e \<leftarrow> aget st (unat vertex);
       v \<leftarrow> BlockGet e (max_int_size cfg * 32) 32;
       if v = 0 then Some UnFull else Some Full } }"

text \<open>The run with the largest interval. \<open>idx\<close> is an \<^verbatim>\<open>int\<close> that starts at -1, the run that begins
  with 0.\<close>

definition Range_choose_step :: "config \<Rightarrow> u32 list \<Rightarrow> nat \<Rightarrow> u32 \<times> int \<Rightarrow> (u32 \<times> int) option" where
  "Range_choose_step cfg neighbors i = (\<lambda>(max_score, idx). do {
     hi \<leftarrow> aget neighbors (i + max_int_size cfg - 1);
     lo \<leftarrow> aget neighbors i;
     let score = hi - lo;
     Some (if max_score < score then (score, int i) else (max_score, idx)) })"

definition Range_choose :: "config \<Rightarrow> u32 list \<Rightarrow> int option" where
  "Range_choose cfg neighbors = do {
     let size = length neighbors;
     m0 \<leftarrow> aget neighbors (wsub32 (max_int_size cfg) 2);
     (max_score, idx) \<leftarrow> foldo (Range_choose_step cfg neighbors) [0..<size - max_int_size cfg + 1] (m0, - 1);
     n \<leftarrow> aget neighbors (size - max_int_size cfg + 1);
     let score = vertex_id_upper cfg - n;
     Some (if score > max_score then int (size - max_int_size cfg + 1) else idx) }"

definition Range_slot :: "config \<Rightarrow> u32 list \<Rightarrow> int \<Rightarrow> nat \<Rightarrow> u32 option" where
  "Range_slot cfg neighbors idx i =
     (if i = 1 \<and> idx = - 1 then Some 0
      else if i = max_int_size cfg \<and> idx = int (length neighbors - max_int_size cfg + 1) then Some (vertex_id_upper cfg)
      else if idx + int i - 1 < 0 then None
      else aget neighbors (nat (idx + int i - 1)))"

text \<open>\<^verbatim>\<open>EncodeVertex\<close> sorts the caller's vector first. The size of the vector is an \<^verbatim>\<open>int\<close> in the code and a natural number
  here: lists are shorter than \<^term>\<open>2 ^ 31 :: nat\<close>.\<close>

definition Range_EncodeVertex :: "config \<Rightarrow> u32 \<Rightarrow> u32 list \<Rightarrow> encoding \<Rightarrow> encoding option" where
  "Range_EncodeVertex cfg vertex_id neighbors st = do {
     let neighbors = sort neighbors;
     e \<leftarrow> aget st (unat vertex_id);
     let e = ClearBits e;
     e \<leftarrow> (if length neighbors \<le> max_int_size cfg then do {
             e \<leftarrow> SetFlag True e;
             foldo (\<lambda>i e. do { v \<leftarrow> aget neighbors (i - 1); BlockSet e (i * 32) 32 v }) [1..<length neighbors + 1] e }
           else do {
             e \<leftarrow> SetFlag False e;
             idx \<leftarrow> Range_choose cfg neighbors;
             foldo (\<lambda>i e. do { v \<leftarrow> Range_slot cfg neighbors idx i; BlockSet e (i * 32) 32 v })
               [1..<max_int_size cfg + 1] e });
     aput st (unat vertex_id) e }"

definition Range_GetAllNeighbors :: "config \<Rightarrow> (u32 \<Rightarrow> u32 list) \<Rightarrow> encoding \<Rightarrow> u32 \<Rightarrow> u32 list option" where
  "Range_GetAllNeighbors cfg db st vertex = do {
     flag \<leftarrow> GetFlag st vertex;
     if flag then GetBlockInt cfg st vertex else Some (db vertex) }"

definition Range_InsertPair :: "config \<Rightarrow> (u32 \<Rightarrow> u32 list) \<Rightarrow> u32 \<Rightarrow> u32 \<Rightarrow> encoding \<Rightarrow> encoding option" where
  "Range_InsertPair cfg db vertex1 vertex2 st = do {
     t1 \<leftarrow> Range_GetEncodeType cfg st vertex1;
     t2 \<leftarrow> Range_GetEncodeType cfg st vertex2;
     let (vertex1, vertex2) =
       (if encode_type_code t1 > encode_type_code t2 then (vertex2, vertex1) else (vertex1, vertex2));
     neighbors \<leftarrow> Range_GetAllNeighbors cfg db st vertex1;
     Range_EncodeVertex cfg vertex1 (neighbors @ [vertex2]) st }"

definition Range_RemoveNeighbor ::
    "config \<Rightarrow> (u32 \<Rightarrow> u32 list) \<Rightarrow> u32 \<Rightarrow> u32 \<Rightarrow> encoding \<Rightarrow> (encoding \<times> bool) option" where
  "Range_RemoveNeighbor cfg db vertex1 vertex2 st = do {
     neighbors \<leftarrow> Range_GetAllNeighbors cfg db st vertex1;
     if vertex2 \<in> set neighbors then do {
       st \<leftarrow> Range_EncodeVertex cfg vertex1 (remove1 vertex2 neighbors) st;
       Some (st, True) }
     else Some (st, False) }"

definition Range_DeletePair :: "config \<Rightarrow> (u32 \<Rightarrow> u32 list) \<Rightarrow> u32 \<Rightarrow> u32 \<Rightarrow> encoding \<Rightarrow> encoding option" where
  "Range_DeletePair cfg db vertex1 vertex2 st = do {
     t \<leftarrow> Range_NonNeighborTest cfg st vertex1 vertex2;
     st \<leftarrow> (if t \<noteq> NonNeighbor then map_option fst (Range_RemoveNeighbor cfg db vertex1 vertex2 st) else Some st);
     t \<leftarrow> Range_NonNeighborTest cfg st vertex2 vertex1;
     if t \<noteq> NonNeighbor then map_option fst (Range_RemoveNeighbor cfg db vertex2 vertex1 st) else Some st }"

end
