(* ===== verification/Range_Laws.thy ===== *)
theory Range_Laws
  imports Range_Encode Hybrid_Laws
begin

text \<open>
  Correctness of the range encoding: what \<open>Range_EncodeVertex\<close> leaves in the words, and that the test
  is sound for it. The encoder is a second instance of the interface \<open>vertex_encoder\<close>; unlike the hybrid
  one it clears the words first, so a vertex can be encoded again at any time.
\<close>

section \<open>The content of the words\<close>

definition range_words :: "config \<Rightarrow> bitset \<Rightarrow> u32 list" where
  "range_words cfg e = blocks_val e 32 32 (max_int_size cfg)"

definition range_encodes :: "config \<Rightarrow> bitset \<Rightarrow> u32 list \<Rightarrow> bool" where
  "range_encodes cfg e ns \<longleftrightarrow> wf_enc cfg e \<and>
     (let xs = range_words cfg e in
      if block_val e 0 32 \<noteq> 0 then \<forall>u. is_vertex cfg u \<longrightarrow> (u \<in> set xs \<longleftrightarrow> u \<in> set ns)
      else hd xs \<le> last xs \<and> (\<forall>u. is_vertex cfg u \<longrightarrow> hd xs \<le> u \<longrightarrow> u \<le> last xs \<longrightarrow> (u \<in> set xs \<longleftrightarrow> u \<in> set ns)))"

definition range_config :: "config \<Rightarrow> bool" where
  "range_config cfg \<longleftrightarrow> wf_config cfg \<and> 3 \<le> K_SIZE cfg"

lemma range_configD:
  assumes "range_config cfg"
  shows "wf_config cfg" "2 \<le> max_int_size cfg" "32 + 32 * max_int_size cfg = PER_ENCODE_BIT_SIZE cfg"
  using assms wf_configD(1) [of cfg] by (auto simp: range_config_def max_int_size_def)

lemma length_range_words [simp]: "length (range_words cfg e) = max_int_size cfg"
  by (simp add: range_words_def)

lemma Range_scan_correct:
  assumes "wf_bs e" "i + 32 * k \<le> 8 * bs_size e" "stop < i + 32 * k" "0 < k \<Longrightarrow> i + 32 * (k - 1) \<le> stop"
  shows "Range_scan e i stop v = Some (if v \<in> set (blocks_val e i 32 k) then Neighbor else NonNeighbor)"
  using assms(2-4)
proof (induction k arbitrary: i)
  case 0
  then show ?case by (subst Range_scan.simps) simp
next
  case (Suc k)
  have get: "BlockGet e i 32 = Some (block_val e i 32)" using assms(1) Suc.prems(1) by simp
  have "Range_scan e (i + 32) stop v = Some (if v \<in> set (blocks_val e (i + 32) 32 k) then Neighbor else NonNeighbor)"
    using Suc.prems by (intro Suc.IH) auto
  moreover have "i \<le> stop" using Suc.prems(3) by simp
  ultimately show ?case using get by (subst Range_scan.simps) (auto simp: blocks_val_Suc)
qed

lemma GetFlag_eq:
  assumes "range_config cfg" "unat v < length st" "wf_enc cfg (st ! unat v)"
  shows "GetFlag st v = Some (block_val (st ! unat v) 0 32 \<noteq> 0)"
  using wf_encD [OF range_configD(1) [OF assms(1)] assms(3)] range_configD(2,3) [OF assms(1)] assms(2)
  by (simp add: GetFlag_def)

lemma hd_last_range_words:
  assumes "2 \<le> max_int_size cfg"
  shows "hd (range_words cfg e) = block_val e 32 32" "last (range_words cfg e) = block_val e (32 * max_int_size cfg) 32"
    "range_words cfg e \<noteq> []"
proof -
  show ne: "range_words cfg e \<noteq> []" using assms by (metis length_range_words list.size(3) not_numeral_le_zero)
  have "32 + (max_int_size cfg - 1) * 32 = 32 * max_int_size cfg" using assms by simp
  with assms ne show "hd (range_words cfg e) = block_val e 32 32"
    "last (range_words cfg e) = block_val e (32 * max_int_size cfg) 32"
    by (simp_all add: hd_conv_nth last_conv_nth) (simp_all add: range_words_def)
qed

lemma Range_test_sound:
  assumes "range_config cfg" "unat v < length st" "range_encodes cfg (st ! unat v) ns" "is_vertex cfg u"
  shows "\<exists>r. Range_NonNeighborTest cfg st v u = Some r \<and> answer_ok r (u \<in> set ns)"
proof -
  note cfg = range_configD [OF assms(1)]
  define e where "e = st ! unat v"
  have wf: "wf_enc cfg e" using assms(3) by (simp add: range_encodes_def e_def)
  note we = wf_encD [OF cfg(1) wf]
  have flag: "GetFlag st v = Some (block_val e 0 32 \<noteq> 0)" using GetFlag_eq [OF assms(1,2)] wf by (simp add: e_def)
  have scan1: "Range_scan e 32 (wsub32 (PER_ENCODE_BIT_SIZE cfg) 32 + 1) u =
      Some (if u \<in> set (range_words cfg e) then Neighbor else NonNeighbor)"
    unfolding range_words_def using we cfg by (intro Range_scan_correct) auto
  have scan2: "Range_scan e 32 (32 * max_int_size cfg) u = Some (if u \<in> set (range_words cfg e) then Neighbor else NonNeighbor)"
    unfolding range_words_def using we cfg by (intro Range_scan_correct) auto
  note ends = hd_last_range_words [OF cfg(2), of e]
  have get: "BlockGet e 32 32 = Some (hd (range_words cfg e))"
    "BlockGet e (32 * max_int_size cfg) 32 = Some (last (range_words cfg e))"
    using we cfg ends by simp_all
  have mem: "hd (range_words cfg e) \<in> set (range_words cfg e)" "last (range_words cfg e) \<in> set (range_words cfg e)"
    using ends(3) by simp_all
  show ?thesis
  proof (cases "block_val e 0 32 \<noteq> 0")
    case True
    with assms(2-4) flag scan1 show ?thesis
      by (simp add: Range_NonNeighborTest_def e_def [symmetric] range_encodes_def Let_def)
  next
    case False
    let ?lo = "hd (range_words cfg e)" and ?hi = "last (range_words cfg e)"
    have eq: "Range_NonNeighborTest cfg st v u = Some (if u = ?lo \<or> u = ?hi then Neighbor else if u < ?lo \<or> u > ?hi
        then Uncertain else if u \<in> set (range_words cfg e) then Neighbor else NonNeighbor)"
      using False assms(2) flag scan2 get by (simp add: Range_NonNeighborTest_def e_def [symmetric])
    have dec: "?lo \<le> u \<Longrightarrow> u \<le> ?hi \<Longrightarrow> u \<in> set (range_words cfg e) \<longleftrightarrow> u \<in> set ns" and le: "?lo \<le> ?hi"
      using False assms(3,4) by (simp_all add: range_encodes_def e_def [symmetric] Let_def)
    show ?thesis
    proof (cases "?lo \<le> u \<and> u \<le> ?hi")
      case True
      with dec mem eq show ?thesis by (auto simp: not_less)
    next
      case False
      with eq le show ?thesis by auto
    qed
  qed
qed

lemma Range_test_flag:
  assumes "range_config cfg" "unat v < length st" "range_encodes cfg (st ! unat v) ns" "block_val (st ! unat v) 0 32 \<noteq> 0"
    "Range_NonNeighborTest cfg st v u = Some r"
  shows "r \<noteq> Uncertain"
proof -
  note cfg = range_configD [OF assms(1)]
  have wf: "wf_enc cfg (st ! unat v)" using assms(3) by (simp add: range_encodes_def)
  note we = wf_encD [OF cfg(1) wf]
  have "Range_scan (st ! unat v) 32 (wsub32 (PER_ENCODE_BIT_SIZE cfg) 32 + 1) u =
      Some (if u \<in> set (range_words cfg (st ! unat v)) then Neighbor else NonNeighbor)"
    unfolding range_words_def using we cfg by (intro Range_scan_correct) auto
  with assms(2,4,5) GetFlag_eq [OF assms(1,2) wf] show ?thesis
    by (auto simp: Range_NonNeighborTest_def split: if_splits)
qed

section \<open>Encoding a vertex\<close>

lemma foldo_put_words:
  assumes "\<And>i. a \<le> i \<Longrightarrow> i < a + k \<Longrightarrow> g i = Some (h i)"
  shows "foldo (\<lambda>i e. do { v \<leftarrow> g i; BlockSet e (i * 32) 32 v }) [a..<a + k] e = put_blocks BlockSet e (a * 32) 32 (map h [a..<a + k])"
  using assms
proof (induction k arbitrary: a e)
  case (Suc k)
  have "foldo (\<lambda>i e. do { v \<leftarrow> g i; BlockSet e (i * 32) 32 v }) [Suc a..<Suc a + k] =
      (\<lambda>e. put_blocks BlockSet e (Suc a * 32) 32 (map h [Suc a..<Suc a + k]))"
    by (rule ext, rule Suc.IH) (use Suc.prems in auto)
  moreover have "[a..<a + Suc k] = a # [Suc a..<Suc a + k]" by (simp add: upt_conv_Cons del: upt_Suc)
  moreover have "g a = Some (h a)" using Suc.prems by simp
  ultimately show ?case by (simp add: add.commute del: upt_Suc)
qed simp

text \<open>Writing the flag and the words of a cleared bit set.\<close>

lemma range_write:
  assumes "wf_config cfg" "wf_enc cfg e" "length xs \<le> max_int_size cfg"
  shows "\<exists>e0 e1. SetFlag flag (ClearBits e) = Some e0 \<and> put_blocks BlockSet e0 32 32 xs = Some e1 \<and> wf_enc cfg e1 \<and>
    (block_val e1 0 32 \<noteq> 0 \<longleftrightarrow> flag) \<and> range_words cfg e1 = xs @ replicate (max_int_size cfg - length xs) 0"
proof -
  have cfg: "wf_config cfg" "wf_config cfg" "32 + 32 * max_int_size cfg = PER_ENCODE_BIT_SIZE cfg"
    using assms(1) wf_configD(1,13) [OF assms(1)] by (auto simp: max_int_size_def)
  note we = wf_encD [OF assms(1,2)]
  define f :: u32 where "f = (if flag then 1 else 0)"
  define e0 where "e0 = block_upd (ClearBits e) 0 32 f"
  have f32: "unat f < 2 ^ 32" by (simp add: f_def)
  have room: "0 + 32 \<le> 8 * bs_size (ClearBits e)" using we(2) cfg(3) by simp
  have wc: "wf_bs (ClearBits e)" using we(1) by simp
  have e0: "SetFlag flag (ClearBits e) = Some e0" "wf_bs e0" "bs_size e0 = bs_size e"
    unfolding SetFlag_def e0_def f_def [symmetric] using BlockSet_correct [OF wc room _ _ _ f32] by simp_all
  have xs: "\<forall>x \<in> set xs. unat x < 2 ^ 32" using unat_u32_lt by blast
  have fit: "32 + 32 * length xs \<le> 8 * bs_size e0" using we(2) cfg(3) assms(3) e0(3) by simp
  obtain e1 where e1: "put_blocks BlockSet e0 32 32 xs = Some e1" "wf_bs e1" "bs_size e1 = bs_size e"
    "\<And>q. q < PER_ENCODE_BIT_SIZE cfg \<Longrightarrow> \<not> (32 \<le> q \<and> q < 32 + 32 * length xs) \<Longrightarrow> bitat e1 q = bitat e0 q"
    "blocks_val e1 32 32 (length xs) = xs"
    using put_blocks_BlockSet [OF e0(2) fit _ _ _ xs] e0(3) we(2,3) by auto
  have "block_val e1 0 32 = block_val e0 0 32"
    using e1(4) cfg(3) by (intro block_val_cong) simp
  also have "\<dots> = f" unfolding e0_def using room f32 by (intro block_val_upd_same) simp_all
  finally have flag: "block_val e1 0 32 \<noteq> 0 \<longleftrightarrow> flag" by (simp add: f_def)
  define j where "j = max_int_size cfg - length xs"
  have j: "max_int_size cfg = length xs + j" using assms(3) by (simp add: j_def)
  have "\<not> bitat e1 q" if "32 + length xs * 32 \<le> q" "q < 32 + length xs * 32 + j * 32" for q
  proof -
    have q: "q < PER_ENCODE_BIT_SIZE cfg" "q < 8 * bs_size (ClearBits e)" using that cfg(3) j we(2) by simp_all
    then have "bitat e1 q = bitat e0 q" using that(1) by (intro e1(4)) auto
    then show ?thesis using that(1) q we(1) by (simp add: e0_def)
  qed
  then have "blocks_val e1 (32 + length xs * 32) 32 j = replicate j 0" by (rule blocks_val_zero) auto
  then have "range_words cfg e1 = xs @ replicate j 0"
    unfolding range_words_def j blocks_val_add using e1(5) by simp
  with e0(1) e1(1-3) flag assms(2) show ?thesis by (auto simp: j_def wf_enc_def)
qed

text \<open>The chosen run lies inside the neighbours, or overlaps them at one end by one word.\<close>

lemma Range_choose_loop:
  assumes "k + max_int_size cfg \<le> length ns + 1" "0 < max_int_size cfg"
  shows "\<exists>ms idx. foldo (Range_choose_step cfg ns) [0..<k] (m0, - 1) = Some (ms, idx) \<and> - 1 \<le> idx \<and> idx < int k"
  using assms(1)
proof (induction k)
  case (Suc k)
  then obtain ms idx where "foldo (Range_choose_step cfg ns) [0..<k] (m0, - 1) = Some (ms, idx)" "- 1 \<le> idx" "idx < int k"
    by auto
  moreover have "k + max_int_size cfg - 1 < length ns" "k < length ns" using Suc.prems assms(2) by simp_all
  ultimately show ?case unfolding foldo_upt_Suc by (auto simp: Range_choose_step_def Let_def)
qed simp

lemma Range_choose_bounds:
  assumes "2 \<le> max_int_size cfg" "max_int_size cfg < length ns"
  shows "\<exists>idx. Range_choose cfg ns = Some idx \<and> - 1 \<le> idx \<and> idx \<le> int (length ns - max_int_size cfg + 1)"
proof -
  define k where "k = length ns - max_int_size cfg + 1"
  obtain ms idx where "foldo (Range_choose_step cfg ns) [0..<k] (ns ! (max_int_size cfg - 2), - 1) = Some (ms, idx)"
    "- 1 \<le> idx" "idx < int k"
    using Range_choose_loop [of k cfg ns "ns ! (max_int_size cfg - 2)"] assms by (auto simp: k_def)
  moreover have "max_int_size cfg - 2 < length ns" "k < length ns" using assms by (simp_all add: k_def)
  ultimately show ?thesis using assms(1) unfolding Range_choose_def Let_def k_def [symmetric]
    by (auto simp del: upt_Suc)
qed

definition range_run :: "config \<Rightarrow> u32 list \<Rightarrow> int \<Rightarrow> u32 list" where
  "range_run cfg ns idx = (if idx = - 1 then 0 # take (max_int_size cfg - 1) ns
     else if idx = int (length ns - max_int_size cfg + 1) then drop (nat idx) ns @ [vertex_id_upper cfg]
     else take (max_int_size cfg) (drop (nat idx) ns))"

lemma range_run_int:
  "range_run cfg ns (int j) = (if j = length ns - max_int_size cfg + 1 then drop j ns @ [vertex_id_upper cfg]
     else take (max_int_size cfg) (drop j ns))"
  unfolding range_run_def of_nat_eq_iff nat_int by simp

lemma Range_slot_run:
  assumes "2 \<le> max_int_size cfg" "max_int_size cfg < length ns" "- 1 \<le> idx" "idx \<le> int (length ns - max_int_size cfg + 1)"
  shows "length (range_run cfg ns idx) = max_int_size cfg"
    "1 \<le> i \<Longrightarrow> i < 1 + max_int_size cfg \<Longrightarrow> Range_slot cfg ns idx i = Some (range_run cfg ns idx ! (i - 1))"
proof -
  show "length (range_run cfg ns idx) = max_int_size cfg" using assms by (auto simp: range_run_def)
  assume i: "1 \<le> i" "i < 1 + max_int_size cfg"
  consider "idx = - 1" | j where "idx = int j" using assms(3) by (cases idx) auto
  then show "Range_slot cfg ns idx i = Some (range_run cfg ns idx ! (i - 1))"
  proof cases
    case 1
    have "nat (int i - 2) = i - 2" by simp
    with 1 show ?thesis using i assms(2) by (cases "i = 1") (auto simp: Range_slot_def range_run_def nth_Cons' numeral_2_eq_2)
  next
    case 2
    have nat: "nat (int j + int i - 1) = j + (i - 1)" using i by simp
    show ?thesis
    proof (cases "j = length ns - max_int_size cfg + 1")
      case True
      then have len: "length (drop j ns) = max_int_size cfg - 1" using assms by simp
      have run: "range_run cfg ns idx = drop j ns @ [vertex_id_upper cfg]" unfolding 2(1) range_run_int using True by simp
      show ?thesis
      proof (cases "i = max_int_size cfg")
        case iM: True
        with len assms(1) have "(drop j ns @ [vertex_id_upper cfg]) ! (i - 1) = vertex_id_upper cfg"
          by (metis nth_append_length)
        with iM True 2 show ?thesis unfolding run by (simp add: Range_slot_def)
      next
        case iM: False
        then have "i - 1 < length (drop j ns)" using len i by simp
        then have "(drop j ns @ [vertex_id_upper cfg]) ! (i - 1) = ns ! (j + (i - 1))" "j + (i - 1) < length ns"
          by (simp_all add: nth_append)
        with iM 2 i(1) nat show ?thesis unfolding run by (simp add: Range_slot_def)
      qed
    next
      case False
      then have "j + max_int_size cfg \<le> length ns" using assms(2,4) 2 by simp
      with False i 2 show ?thesis by (auto simp: Range_slot_def range_run_def nat)
    qed
  qed
qed

text \<open>Between its ends the run contains exactly the neighbours.\<close>

lemma range_run_decides:
  assumes "sorted ns" "\<forall>x \<in> set ns. is_vertex cfg x" "wf_config cfg" "2 \<le> max_int_size cfg" "max_int_size cfg < length ns"
    "- 1 \<le> idx" "idx \<le> int (length ns - max_int_size cfg + 1)" "xs = range_run cfg ns idx"
  shows "hd xs \<le> last xs" "is_vertex cfg u \<Longrightarrow> hd xs \<le> u \<Longrightarrow> u \<le> last xs \<Longrightarrow> u \<in> set xs \<longleftrightarrow> u \<in> set ns"
proof -
  define m where "m = max_int_size cfg"
  consider "idx = - 1" | j where "idx = int j" "j = length ns - m + 1" | j where "idx = int j" "j + m \<le> length ns" "j \<noteq> length ns - m + 1"
  proof (cases "idx = - 1")
    case False
    then obtain j where j: "idx = int j" using assms(6) by (cases idx) auto
    then have "j \<le> length ns - m + 1" using assms(7) by (simp add: m_def)
    with j that assms(5) show ?thesis by (cases "j = length ns - m + 1") (auto simp: m_def)
  qed
  then have "hd xs \<le> last xs \<and> (is_vertex cfg u \<longrightarrow> hd xs \<le> u \<longrightarrow> u \<le> last xs \<longrightarrow> (u \<in> set xs \<longleftrightarrow> u \<in> set ns))"
  proof cases
    case 1
    define t where "t = take (m - 1) ns"
    have t: "t \<noteq> []" "xs = 0 # t" "ns = [] @ t @ drop (m - 1) ns" "sorted ([] @ t @ drop (m - 1) ns)"
      using 1 assms(1,4,5,8) by (auto simp: t_def m_def range_run_def)
    have "u \<in> set t \<longleftrightarrow> u \<in> set ns" if "u \<le> last t"
      using run_covers [OF t(4,1), of u] that unfolding t(3) [symmetric] by blast
    with t(1,2) show ?thesis by (auto simp: is_vertex_def)
  next
    case 2
    define d where "d = drop j ns"
    have d: "d \<noteq> []" "xs = d @ [vertex_id_upper cfg]" "ns = take j ns @ d @ []" "sorted (take j ns @ d @ [])"
      using assms(1,4,5,8) 2(2) unfolding 2(1) range_run_int by (auto simp: d_def m_def)
    have hd: "hd d \<in> set ns" using d(1,3) by (metis Un_iff append_Nil2 hd_in_set set_append)
    have up: "unat x \<le> VERTEX_SIZE cfg \<Longrightarrow> x < vertex_id_upper cfg" for x
      using wf_configD(16) [OF assms(3)] by (simp add: word_less_nat_alt)
    have "hd xs < last xs" using d(1,2) hd assms(2) up by (auto simp: is_vertex_def)
    moreover have "u \<in> set d \<longleftrightarrow> u \<in> set ns" if "hd d \<le> u"
      using run_covers [OF d(4,1), of u] that unfolding d(3) [symmetric] by blast
    moreover have "u \<noteq> vertex_id_upper cfg" if "is_vertex cfg u" using that up [of u] by (auto simp: is_vertex_def)
    ultimately show ?thesis using d(1,2) by auto
  next
    case 3
    have xs: "xs \<noteq> []" "xs = take m (drop j ns)" "ns = take j ns @ xs @ drop (j + m) ns"
      using 3 assms(4,5,8) by (auto simp: m_def range_run_def) (metis add.commute append_take_drop_id drop_drop)
    then have sorted: "sorted (take j ns @ xs @ drop (j + m) ns)" using assms(1) by simp
    then have "hd xs \<le> last xs" using xs(1) by (intro run_ends_le) (auto simp: sorted_append)
    moreover have "u \<in> set xs \<longleftrightarrow> u \<in> set ns" if "hd xs \<le> u" "u \<le> last xs"
      using run_covers [OF sorted xs(1), of u] that unfolding xs(3) [symmetric] by blast
    ultimately show ?thesis by blast
  qed
  then show "hd xs \<le> last xs" "is_vertex cfg u \<Longrightarrow> hd xs \<le> u \<Longrightarrow> u \<le> last xs \<Longrightarrow> u \<in> set xs \<longleftrightarrow> u \<in> set ns"
    by blast+
qed

lemma Range_EncodeVertex_encodes:
  assumes "range_config cfg" "\<forall>x \<in> set ns. is_vertex cfg x" "unat v < length st" "wf_enc cfg (st ! unat v)"
  shows "\<exists>e. Range_EncodeVertex cfg v ns st = Some (st[unat v := e]) \<and> range_encodes cfg e ns \<and>
    (block_val e 0 32 \<noteq> 0 \<longleftrightarrow> length ns \<le> max_int_size cfg) \<and>
    (length ns \<le> max_int_size cfg \<longrightarrow> range_words cfg e = sort ns @ replicate (max_int_size cfg - length ns) 0)"
proof -
  note cfg = range_configD [OF assms(1)]
  define xs where "xs = sort ns"
  have xs: "set xs = set ns" "sorted xs" "length xs = length ns" by (simp_all add: xs_def)
  define w where "w = (if length ns \<le> max_int_size cfg then xs else range_run cfg xs (the (Range_choose cfg xs)))"
  show ?thesis
  proof (cases "length ns \<le> max_int_size cfg")
    case True
    obtain e0 e where e: "SetFlag True (ClearBits (st ! unat v)) = Some e0" "put_blocks BlockSet e0 32 32 xs = Some e"
      "wf_enc cfg e" "block_val e 0 32 \<noteq> 0" "range_words cfg e = xs @ replicate (max_int_size cfg - length xs) 0"
      using range_write [OF range_configD(1) [OF assms(1)] assms(4), of xs True] True xs(3) by auto
    have "foldo (\<lambda>i e. do { v \<leftarrow> aget xs (i - 1); BlockSet e (i * 32) 32 v }) [1..<1 + length xs] e0 =
        put_blocks BlockSet e0 (1 * 32) 32 (map (\<lambda>i. xs ! (i - 1)) [1..<1 + length xs])"
      by (rule foldo_put_words) simp
    moreover have "map (\<lambda>i. xs ! (i - 1)) [1..<1 + length xs] = xs"
      by (rule nth_equalityI) (simp_all del: upt_Suc)
    ultimately have "Range_EncodeVertex cfg v ns st = Some (st[unat v := e])"
      using e(1,2) assms(3) True xs(3)
      unfolding Range_EncodeVertex_def Let_def xs_def [symmetric] by (simp add: add.commute del: upt_Suc)
    moreover have "range_encodes cfg e ns" using e xs(1) by (auto simp: range_encodes_def Let_def is_vertex_def)
    ultimately show ?thesis using e(4,5) True xs(3) by (auto simp: xs_def)
  next
    case False
    then have len: "max_int_size cfg < length xs" using xs(3) by simp
    obtain idx where idx: "Range_choose cfg xs = Some idx" "- 1 \<le> idx" "idx \<le> int (length xs - max_int_size cfg + 1)"
      using Range_choose_bounds [OF cfg(2) len] by blast
    define r where "r = range_run cfg xs idx"
    have r: "length r = max_int_size cfg"
      "\<And>i. 1 \<le> i \<Longrightarrow> i < 1 + max_int_size cfg \<Longrightarrow> Range_slot cfg xs idx i = Some (r ! (i - 1))"
      using Range_slot_run [OF cfg(2) len idx(2,3)] by (auto simp: r_def)
    obtain e0 e where e: "SetFlag False (ClearBits (st ! unat v)) = Some e0" "put_blocks BlockSet e0 32 32 r = Some e"
      "wf_enc cfg e" "block_val e 0 32 = 0" "range_words cfg e = r"
      using range_write [OF range_configD(1) [OF assms(1)] assms(4), of r False] r(1) by auto
    have "foldo (\<lambda>i e. do { v \<leftarrow> Range_slot cfg xs idx i; BlockSet e (i * 32) 32 v }) [1..<1 + max_int_size cfg] e0 =
        put_blocks BlockSet e0 (1 * 32) 32 (map (\<lambda>i. r ! (i - 1)) [1..<1 + max_int_size cfg])"
      using r(2) by (rule foldo_put_words)
    moreover have "map (\<lambda>i. r ! (i - 1)) [1..<1 + max_int_size cfg] = r"
      by (rule nth_equalityI) (simp_all add: r(1) del: upt_Suc)
    ultimately have enc: "Range_EncodeVertex cfg v ns st = Some (st[unat v := e])"
      using e(1,2) assms(3) False xs(3) idx(1)
      unfolding Range_EncodeVertex_def Let_def xs_def [symmetric] by (simp add: add.commute del: upt_Suc)
    have "\<forall>x \<in> set xs. is_vertex cfg x" using assms(2) xs(1) by simp
    note dec = range_run_decides [OF xs(2) this cfg(1,2) len idx(2,3) r_def]
    have "range_encodes cfg e ns" using e dec xs(1) by (auto simp: range_encodes_def Let_def)
    with enc e(4) False show ?thesis by auto
  qed
qed

section \<open>The range encoding as a vertex encoder\<close>

lemma Range_EncodeVertex_interface:
  assumes "range_config cfg" "wf_encoding cfg st" "is_vertex cfg v" "\<forall>x \<in> set ns. is_vertex cfg x"
  shows "\<exists>st'. Range_EncodeVertex cfg v ns st = Some st' \<and> wf_encoding cfg st' \<and> range_encodes cfg (st' ! unat v) ns \<and>
    (length ns \<le> max_int_size cfg \<longrightarrow> block_val (st' ! unat v) 0 32 \<noteq> 0 \<and>
       range_words cfg (st' ! unat v) = sort ns @ replicate (max_int_size cfg - length ns) 0) \<and>
    (\<forall>w. w \<noteq> v \<longrightarrow> st' ! unat w = st ! unat w)"
proof -
  have v: "unat v < length st" using is_vertex_index [OF assms(2,3)] .
  then have "wf_enc cfg (st ! unat v)" using assms(2) by (simp add: wf_encoding_def)
  from Range_EncodeVertex_encodes [OF assms(1,4) v this] obtain e where
    e: "Range_EncodeVertex cfg v ns st = Some (st[unat v := e])" "range_encodes cfg e ns"
    "block_val e 0 32 \<noteq> 0 \<longleftrightarrow> length ns \<le> max_int_size cfg"
    "length ns \<le> max_int_size cfg \<longrightarrow> range_words cfg e = sort ns @ replicate (max_int_size cfg - length ns) 0" by blast
  have "wf_encoding cfg (st[unat v := e])"
    using assms(2) e(2) by (auto simp: wf_encoding_def range_encodes_def dest!: subsetD [OF set_update_subset_insert])
  moreover have "st[unat v := e] ! unat w = st ! unat w" if "w \<noteq> v" for w
    using that by (simp add: nth_list_update word_unat_eq_iff)
  ultimately show ?thesis using e v by auto
qed

interpretation rangeenc: vertex_encoder
  "\<lambda>st. range_config (fst st) \<and> wf_encoding (fst st) (snd st)"
  "\<lambda>st v. True"
  "\<lambda>st v ns. range_encodes (fst st) (snd st ! unat v) ns"
  "\<lambda>st v. is_vertex (fst st) v"
  "\<lambda>st ns. \<forall>x \<in> set ns. is_vertex (fst st) x"
  "\<lambda>v ns st. map_option (Pair (fst st)) (Range_EncodeVertex (fst st) v ns (snd st))"
  "\<lambda>st v u. Range_NonNeighborTest (fst st) (snd st) v u"
  fst
proof
  fix st :: "config \<times> encoding" and v ns
  assume "range_config (fst st) \<and> wf_encoding (fst st) (snd st)" "is_vertex (fst st) v" "\<forall>x \<in> set ns. is_vertex (fst st) x"
  with Range_EncodeVertex_interface [of "fst st" "snd st" v ns] obtain st' where
    "Range_EncodeVertex (fst st) v ns (snd st) = Some st'" "wf_encoding (fst st) st'" "range_encodes (fst st) (st' ! unat v) ns"
    "\<forall>w. w \<noteq> v \<longrightarrow> st' ! unat w = snd st ! unat w" "range_config (fst st)" by blast
  then show "\<exists>st'. map_option (Pair (fst st)) (Range_EncodeVertex (fst st) v ns (snd st)) = Some st' \<and>
      (range_config (fst st') \<and> wf_encoding (fst st') (snd st')) \<and> range_encodes (fst st') (snd st' ! unat v) ns \<and>
      fst st' = fst st \<and> (\<forall>w. is_vertex (fst st) w \<longrightarrow> w \<noteq> v \<longrightarrow> (True \<longrightarrow> True) \<and>
        (\<forall>ms. range_encodes (fst st) (snd st ! unat w) ms \<longrightarrow> range_encodes (fst st') (snd st' ! unat w) ms))"
    by simp
next
  fix st :: "config \<times> encoding" and v u ns
  assume "range_config (fst st) \<and> wf_encoding (fst st) (snd st)" "is_vertex (fst st) v" "is_vertex (fst st) u"
    "range_encodes (fst st) (snd st ! unat v) ns"
  then show "\<exists>r. Range_NonNeighborTest (fst st) (snd st) v u = Some r \<and> answer_ok r (u \<in> set ns)"
    using is_vertex_index by (intro Range_test_sound) auto
qed (auto simp: is_vertex_def)

lemma Range_build_pair:
  "build_all (\<lambda>v ns st. map_option (Pair (fst st)) (Range_EncodeVertex (fst st) v ns (snd st))) adj vs (cfg, st)
     = map_option (Pair cfg) (build_all (Range_EncodeVertex cfg) adj vs st)"
  unfolding build_all_def
proof (induction vs arbitrary: st)
  case (Cons v vs)
  then show ?case by (cases "Range_EncodeVertex cfg v (adj v) st") simp_all
qed simp

lemma Range_build_graph:
  assumes "range_config cfg" "\<And>v. is_vertex cfg v \<Longrightarrow> \<forall>x \<in> set (adj v). is_vertex cfg x"
    "\<And>u v. is_vertex cfg u \<Longrightarrow> is_vertex cfg v \<Longrightarrow> u \<in> set (adj v) \<longleftrightarrow> v \<in> set (adj u)"
  shows "\<exists>st. build_all (Range_EncodeVertex cfg) adj (vertex_list cfg) (EncodeBitSet cfg) = Some st \<and>
    rangeenc.encodes_graph (cfg, st) adj"
proof -
  note vs = vertex_list_all [OF range_configD(1) [OF assms(1)]]
  note wf = EncodeBitSet_wf(1) [OF range_configD(1) [OF assms(1)]]
  have "\<exists>s'. build_all (\<lambda>v ns st. map_option (Pair (fst st)) (Range_EncodeVertex (fst st) v ns (snd st))) adj (vertex_list cfg) (cfg, EncodeBitSet cfg) = Some s' \<and>
      fst s' = fst (cfg, EncodeBitSet cfg) \<and> rangeenc.encodes_graph s' adj"
  proof (rule rangeenc.build_graph)
    show "\<forall>v \<in> set (vertex_list cfg). is_vertex (fst (cfg, EncodeBitSet cfg)) v \<and>
        (\<forall>x \<in> set (adj v). is_vertex (fst (cfg, EncodeBitSet cfg)) x) \<and> True"
      using vs(1) assms(2) by simp
  qed (use assms(1,3) wf vs in simp_all)
  then show ?thesis unfolding Range_build_pair by auto
qed

lemma Range_NEpairTest_answer:
  assumes "Range_NonNeighborTest cfg st v u = Some r1" "answer_ok r1 p" "Range_NonNeighborTest cfg st u v = Some r2" "answer_ok r2 p"
  shows "\<exists>r. Range_NEpairTest cfg st v u = Some r \<and> answer_ok r p"
  using assms by (simp add: Range_NEpairTest_def)

section \<open>Inserting an edge\<close>

lemma GetBlockInt_loop_eq:
  assumes "wf_bs e" "32 * (i + length (ns @ 0 # ws)) \<le> 8 * bs_size e" "blocks_val e (i * 32) 32 (length (ns @ 0 # ws)) = ns @ 0 # ws" "0 \<notin> set ns"
  shows "GetBlockInt_loop e [i..<i + length (ns @ 0 # ws)] block = Some (block @ ns)"
  using assms(2-4)
proof (induction ns arbitrary: i block)
  case Nil
  then have "block_val e (i * 32) 32 = 0" by (simp add: blocks_val_Suc)
  with Nil.prems(1) assms(1) show ?case by (simp add: upt_conv_Cons mult.commute del: upt_Suc)
next
  case (Cons n ns)
  have l: "length ((n # ns) @ 0 # ws) = Suc (length (ns @ 0 # ws))" by simp
  from Cons.prems(2) have val: "block_val e (i * 32) 32 = n"
    "blocks_val e (Suc i * 32) 32 (length (ns @ 0 # ws)) = ns @ 0 # ws"
    unfolding l blocks_val_Suc by (simp_all add: add.commute)
  have "GetBlockInt_loop e [Suc i..<Suc i + length (ns @ 0 # ws)] (block @ [n]) = Some ((block @ [n]) @ ns)"
    using Cons.prems val(2) by (intro Cons.IH) simp_all
  moreover have "[i..<i + length ((n # ns) @ 0 # ws)] = i # [Suc i..<Suc i + length (ns @ 0 # ws)]"
    unfolding l by (simp add: upt_conv_Cons del: upt_Suc)
  moreover have "BlockGet e (i * 32) 32 = Some n" using Cons.prems(1) assms(1) val(1) by (simp add: mult.commute)
  ultimately show ?case using Cons.prems(3) by (auto simp del: upt_Suc)
qed

lemma unfull_reads:
  assumes "range_config cfg" "unat v < length st" "wf_enc cfg (st ! unat v)" "block_val (st ! unat v) 0 32 \<noteq> 0"
    "range_words cfg (st ! unat v) = ns @ replicate (Suc k) 0" "0 \<notin> set ns"
  shows "Range_GetEncodeType cfg st v = Some UnFull" "Range_GetAllNeighbors cfg db st v = Some ns"
proof -
  note cfg = range_configD [OF assms(1)]
  define e where "e = st ! unat v"
  note we = wf_encD [OF cfg(1) assms(3)]
  have flag: "GetFlag st v = Some True" using GetFlag_eq [OF assms(1-3)] assms(4) by simp
  have words: "ns @ replicate (Suc k) 0 = ns @ 0 # replicate k 0" by simp
  then have len: "max_int_size cfg = length (ns @ 0 # replicate k 0)"
    using assms(5) by (metis length_range_words)
  have "last (range_words cfg e) = 0" unfolding e_def assms(5) by simp
  then have "block_val e (32 * max_int_size cfg) 32 = 0" using hd_last_range_words(2) [OF cfg(2), of e] by simp
  then show "Range_GetEncodeType cfg st v = Some UnFull"
    using flag assms(2) we cfg by (simp add: Range_GetEncodeType_def e_def mult.commute)
  have "GetBlockInt_loop e [1..<1 + length (ns @ 0 # replicate k 0)] [] = Some ([] @ ns)"
  proof (rule GetBlockInt_loop_eq)
    show "wf_bs e" using we(1) by (simp add: e_def)
    show "32 * (1 + length (ns @ 0 # replicate k 0)) \<le> 8 * bs_size e" using we(2) cfg(3) unfolding len by (simp add: e_def)
    show "blocks_val e (1 * 32) 32 (length (ns @ 0 # replicate k 0)) = ns @ 0 # replicate k 0"
      using assms(5) unfolding range_words_def len words by (simp add: e_def)
  qed (rule assms(6))
  then have "GetBlockInt_loop e [1..<max_int_size cfg + 1] [] = Some ns" unfolding len by (simp only: append_Nil add.commute)
  with flag assms(2) show "Range_GetAllNeighbors cfg db st v = Some ns"
    unfolding Range_GetAllNeighbors_def GetBlockInt_def e_def by (simp del: upt_Suc)
qed

lemma Range_test_total:
  assumes "range_config cfg" "wf_encoding cfg st" "is_vertex cfg v"
  shows "\<exists>r. Range_NonNeighborTest cfg st v u = Some r"
proof -
  note cfg = range_configD [OF assms(1)]
  have v: "unat v < length st" "wf_enc cfg (st ! unat v)"
    using is_vertex_index [OF assms(2,3)] assms(2) by (auto simp: wf_encoding_def)
  note we = wf_encD [OF cfg(1) v(2)]
  have scan: "\<exists>r. Range_scan (st ! unat v) 32 (wsub32 (PER_ENCODE_BIT_SIZE cfg) 32 + 1) u = Some r"
    using Range_scan_correct [of "st ! unat v" 32 "max_int_size cfg" "wsub32 (PER_ENCODE_BIT_SIZE cfg) 32 + 1" u] we cfg by auto
  have "\<exists>r. Range_scan (st ! unat v) 32 (32 * max_int_size cfg) u = Some r"
    using Range_scan_correct [of "st ! unat v" 32 "max_int_size cfg" "32 * max_int_size cfg" u] we cfg by auto
  with scan v GetFlag_eq [OF assms(1) v] we cfg show ?thesis by (auto simp: Range_NonNeighborTest_def)
qed

lemma Range_type_total:
  assumes "range_config cfg" "wf_encoding cfg st" "is_vertex cfg v"
  shows "\<exists>t. Range_GetEncodeType cfg st v = Some t"
proof -
  note cfg = range_configD [OF assms(1)]
  have v: "unat v < length st" "wf_enc cfg (st ! unat v)"
    using is_vertex_index [OF assms(2,3)] assms(2) by (auto simp: wf_encoding_def)
  note we = wf_encD [OF cfg(1) v(2)]
  from v GetFlag_eq [OF assms(1) v] we cfg show ?thesis by (auto simp: Range_GetEncodeType_def mult.commute)
qed

text \<open>Without a zero word the loop of \<^verbatim>\<open>GetBlockInt\<close> never returns a list.\<close>

lemma GetBlockInt_loop_full:
  "\<forall>i \<in> set is. BlockGet e (i * 32) 32 \<noteq> Some 0 \<Longrightarrow> GetBlockInt_loop e is block = None"
  by (induction "is" arbitrary: block) (auto split: bind_splits)

lemma full_GetBlockInt:
  assumes "range_config cfg" "unat v < length st" "wf_enc cfg (st ! unat v)" "0 \<notin> set (range_words cfg (st ! unat v))"
  shows "GetBlockInt cfg st v = None"
proof -
  note cfg = range_configD [OF assms(1)] and we = wf_encD [OF range_configD(1) [OF assms(1)] assms(3)]
  have "BlockGet (st ! unat v) (i * 32) 32 \<noteq> Some 0" if "i \<in> set [1..<max_int_size cfg + 1]" for i
  proof -
    have i: "1 \<le> i" "i \<le> max_int_size cfg" using that by auto
    then have "block_val (st ! unat v) (32 + (i - 1) * 32) 32 \<in> set (range_words cfg (st ! unat v))"
      by (metis One_nat_def Suc_le_lessD Suc_pred length_range_words nth_blocks_val nth_mem range_words_def
          less_Suc_eq_le not_less_eq)
    moreover have "32 + (i - 1) * 32 = i * 32" using i(1) by (cases i) simp_all
    ultimately have "block_val (st ! unat v) (i * 32) 32 \<noteq> 0" using assms(4) by auto
    moreover have "i * 32 + 32 \<le> 8 * bs_size (st ! unat v)" using i(2) we(2) cfg(3) by simp
    ultimately show ?thesis using we(1) by simp
  qed
  then show ?thesis using assms(2) GetFlag_eq [OF assms(1-3)] GetBlockInt_loop_full
    unfolding GetBlockInt_def by (simp del: upt_Suc)
qed

end
