(* ===== verification/Range_Spec.thy ===== *)
theory Range_Spec
  imports Range_Laws
begin

text \<open>The properties of the range encoding.\<close>

definition range_demo :: config where
  "range_demo = \<lparr>K_SIZE = 3, VERTEX_SIZE = 10, DEGREE = 4, B_FILTER_ENCODE_BITS = 30,
     PER_ENCODE_BIT_SIZE = 96, VERTEX_BIT_SIZE = 4, MAX_K_CORE_SIZE = 23, LOG_K = 5,
     MAX_INTEGER_SIZE = 22, BLOCK_BEGIN_INDEX = 8, BLOCK_NUMS = 1, ELEMENT_SIZE = 5,
     BIT_HASH_BEST_NUMS = 1, INT_HASH_BEST_NUMS = 1, COUNT_HASH_BEST_NUMS = 1, PREFIX_BIT_SIZE = 8, HSIMD = False\<rparr>"

lemma range_demo_Init:
  "do { cfg \<leftarrow> InitCommonVariables False 3 10 4; InitHashConfig 1 1 cfg } = Some range_demo"
proof -
  have "clog2 10 = 4" "clog2 24 = 5" "clog2 40 = 6" by (rule clog2_unique; simp)+
  then show ?thesis
    by (simp add: InitCommonVariables_def InitHashConfig_def range_demo_def cdiv_def UP_TO_ONE_def Let_def)
qed

lemma range_demo_config: "range_config range_demo"
  by (simp add: range_config_def wf_config_def range_demo_def)

lemma range_demo_wf: "wf_encoding range_demo (EncodeBitSet range_demo)"
  using EncodeBitSet_wf(1) range_configD(1) [OF range_demo_config] .

text \<open>C22. The range encoding is sound: after \<^verbatim>\<open>EncodeVertex\<close> of any vertex, encoded before or not, with
  neighbours in any order, \<^verbatim>\<open>NonNeighborTest\<close> returns and its answer is true; the other vertices keep
  their encodings.\<close>

theorem range_encode_sound:
  assumes "range_config cfg" "wf_encoding cfg st" "is_vertex cfg v" "\<forall>x \<in> set ns. is_vertex cfg x" "is_vertex cfg u"
  shows "\<exists>st' r. Range_EncodeVertex cfg v ns st = Some st' \<and> Range_NonNeighborTest cfg st' v u = Some r \<and>
    (r = Neighbor \<longrightarrow> u \<in> set ns) \<and> (r = NonNeighbor \<longrightarrow> u \<notin> set ns) \<and>
    (length ns \<le> max_int_size cfg \<longrightarrow> r \<noteq> Uncertain) \<and>
    (\<forall>w. w \<noteq> v \<longrightarrow> st' ! unat w = st ! unat w)"
proof -
  from Range_EncodeVertex_interface [OF assms(1-4)] obtain st' where
    st': "Range_EncodeVertex cfg v ns st = Some st'" "wf_encoding cfg st'" "range_encodes cfg (st' ! unat v) ns"
    "length ns \<le> max_int_size cfg \<longrightarrow> block_val (st' ! unat v) 0 32 \<noteq> 0"
    "\<forall>w. w \<noteq> v \<longrightarrow> st' ! unat w = st ! unat w" by blast
  from rangeenc.test_law [of "(cfg, st')" v u ns] st' assms obtain r where
    r: "Range_NonNeighborTest cfg st' v u = Some r" "answer_ok r (u \<in> set ns)" by auto
  have "r \<noteq> Uncertain" if "length ns \<le> max_int_size cfg"
    using Range_test_flag [OF assms(1) is_vertex_index [OF st'(2) assms(3)] st'(3) _ r(1)] st'(4) that by blast
  with st' r show ?thesis by (auto simp: answer_ok_def)
qed

lemma range_encode_sound_witness:
  "\<exists>st' r. Range_EncodeVertex range_demo 4 [9, 2, 6, 5] (EncodeBitSet range_demo) = Some st' \<and>
     Range_NonNeighborTest range_demo st' 4 7 = Some r \<and> r \<noteq> Neighbor"
  using range_encode_sound [OF range_demo_config range_demo_wf, of 4 "[9, 2, 6, 5]" 7]
  by (auto simp: is_vertex_def range_demo_def)

text \<open>C21. The range encoding of a whole undirected graph: every pair is answered soundly.\<close>

theorem range_graph_sound:
  assumes "range_config cfg" "\<And>v. is_vertex cfg v \<Longrightarrow> \<forall>x \<in> set (adj v). is_vertex cfg x"
    "\<And>u v. is_vertex cfg u \<Longrightarrow> is_vertex cfg v \<Longrightarrow> u \<in> set (adj v) \<longleftrightarrow> v \<in> set (adj u)"
  shows "\<exists>st. build_all (Range_EncodeVertex cfg) adj (vertex_list cfg) (EncodeBitSet cfg) = Some st \<and>
    (\<forall>u v. is_vertex cfg u \<longrightarrow> is_vertex cfg v \<longrightarrow>
      (\<exists>r. Range_NEpairTest cfg st v u = Some r \<and>
        (r = Neighbor \<longrightarrow> u \<in> set (adj v)) \<and> (r = NonNeighbor \<longrightarrow> u \<notin> set (adj v))))"
proof -
  obtain st where st: "build_all (Range_EncodeVertex cfg) adj (vertex_list cfg) (EncodeBitSet cfg) = Some st"
    "rangeenc.encodes_graph (cfg, st) adj"
    using Range_build_graph [OF assms] by blast
  have "\<exists>r. Range_NEpairTest cfg st v u = Some r \<and> answer_ok r (u \<in> set (adj v))"
    if "is_vertex cfg u" "is_vertex cfg v" for u v
    using rangeenc.both_tests_sound [OF st(2), of v u] that Range_NEpairTest_answer by (metis fst_conv snd_conv)
  with st show ?thesis by (fastforce simp: answer_ok_def)
qed

definition range_demo_adj :: "u32 \<Rightarrow> u32 list" where
  "range_demo_adj v = (if v = 1 then [10, 2] else if v = 2 \<or> v = 10 then [1] else [])"

lemma range_graph_sound_witness:
  "\<exists>st. build_all (Range_EncodeVertex range_demo) range_demo_adj (vertex_list range_demo) (EncodeBitSet range_demo) = Some st \<and>
     (\<exists>r. Range_NEpairTest range_demo st 1 10 = Some r \<and> r \<noteq> NonNeighbor)"
proof -
  have "is_vertex range_demo 1" "is_vertex range_demo 10" by (simp_all add: is_vertex_def range_demo_def)
  moreover have "10 \<in> set (range_demo_adj 1)" by (simp add: range_demo_adj_def)
  moreover have "\<forall>x \<in> set (range_demo_adj v). is_vertex range_demo x" for v
    by (simp add: range_demo_adj_def is_vertex_def range_demo_def)
  moreover have "u \<in> set (range_demo_adj v) \<longleftrightarrow> v \<in> set (range_demo_adj u)" for u v by (auto simp: range_demo_adj_def)
  ultimately show ?thesis using range_graph_sound [OF range_demo_config, of range_demo_adj] by blast
qed

text \<open>C23. Inserting an edge at a vertex whose words are not full makes the pair a \<^verbatim>\<open>Neighbor\<close>, without
  consulting the database.\<close>

theorem range_insert_found:
  assumes "range_config cfg" "wf_encoding cfg st" "is_vertex cfg v1" "is_vertex cfg v2" "\<forall>x \<in> set ns. is_vertex cfg x"
    "length ns < max_int_size cfg" "v1 \<noteq> v2"
  shows "\<exists>st1 st2. Range_EncodeVertex cfg v1 ns st = Some st1 \<and> Range_InsertPair cfg db v1 v2 st1 = Some st2 \<and>
    Range_NEpairTest cfg st2 v1 v2 = Some Neighbor"
proof -
  from Range_EncodeVertex_interface [OF assms(1,2,3,5)] assms(6) obtain st1 where
    1: "Range_EncodeVertex cfg v1 ns st = Some st1" "wf_encoding cfg st1" "block_val (st1 ! unat v1) 0 32 \<noteq> 0"
    "range_words cfg (st1 ! unat v1) = sort ns @ replicate (max_int_size cfg - length ns) 0" by auto
  obtain k where k: "max_int_size cfg - length ns = Suc k" using assms(6) by (metis Suc_diff_Suc)
  have i1: "unat v1 < length st1" using is_vertex_index [OF 1(2) assms(3)] .
  then have "wf_enc cfg (st1 ! unat v1)" using 1(2) by (simp add: wf_encoding_def)
  moreover have "0 \<notin> set (sort ns)" using assms(5) by (auto simp: is_vertex_def)
  ultimately have reads: "Range_GetEncodeType cfg st1 v1 = Some UnFull" "Range_GetAllNeighbors cfg db st1 v1 = Some (sort ns)"
    using unfull_reads [OF assms(1) i1 _ 1(3)] 1(4) unfolding k by simp_all
  obtain t2 where t2: "Range_GetEncodeType cfg st1 v2 = Some t2" using Range_type_total [OF assms(1) 1(2) assms(4)] by blast
  have ids: "\<forall>x \<in> set (sort ns @ [v2]). is_vertex cfg x" using assms(4,5) by simp
  from Range_EncodeVertex_interface [OF assms(1) 1(2) assms(3) ids] assms(6) obtain st2 where
    2: "Range_EncodeVertex cfg v1 (sort ns @ [v2]) st1 = Some st2" "wf_encoding cfg st2" "range_encodes cfg (st2 ! unat v1) (sort ns @ [v2])"
    "block_val (st2 ! unat v1) 0 32 \<noteq> 0" by auto
  have ins: "Range_InsertPair cfg db v1 v2 st1 = Some st2"
    using reads t2 2(1) by (simp add: Range_InsertPair_def Let_def)
  from rangeenc.test_law [of "(cfg, st2)" v1 v2 "sort ns @ [v2]"] 2 assms ids obtain r where
    r: "Range_NonNeighborTest cfg st2 v1 v2 = Some r" "answer_ok r True" by auto
  moreover have "r \<noteq> Uncertain"
    using Range_test_flag [OF assms(1) is_vertex_index [OF 2(2) assms(3)] 2(3,4) r(1)] .
  ultimately have "r = Neighbor" by (cases r) simp_all
  moreover obtain r2 where "Range_NonNeighborTest cfg st2 v2 v1 = Some r2" using Range_test_total [OF assms(1) 2(2) assms(4)] by blast
  ultimately have "Range_NEpairTest cfg st2 v1 v2 = Some Neighbor"
    using r(1) by (cases r2) (simp_all add: Range_NEpairTest_def less_PairType_def)
  with 1(1) ins show ?thesis by blast
qed

lemma range_insert_found_witness:
  "\<exists>st1 st2. Range_EncodeVertex range_demo 4 [9] (EncodeBitSet range_demo) = Some st1 \<and>
     Range_InsertPair range_demo (\<lambda>v. []) 4 7 st1 = Some st2 \<and> Range_NEpairTest range_demo st2 4 7 = Some Neighbor"
  using range_insert_found [OF range_demo_config range_demo_wf, of 4 7 "[9]" "\<lambda>v. []"]
  by (simp add: is_vertex_def range_demo_def max_int_size_def)

text \<open>A vertex whose words are all taken cannot be read back: \<^verbatim>\<open>GetBlockInt\<close> leaves its loop without a
  \<^verbatim>\<open>return\<close>, so inserting a further edge at such a vertex has no defined result.\<close>

theorem range_full_vertex_undefined:
  assumes "range_config cfg" "wf_encoding cfg st" "is_vertex cfg v" "\<forall>x \<in> set ns. is_vertex cfg x" "length ns = max_int_size cfg"
  shows "\<exists>st1. Range_EncodeVertex cfg v ns st = Some st1 \<and> GetBlockInt cfg st1 v = None"
proof -
  from Range_EncodeVertex_interface [OF assms(1-4)] assms(5) obtain st1 where
    1: "Range_EncodeVertex cfg v ns st = Some st1" "wf_encoding cfg st1" "range_words cfg (st1 ! unat v) = sort ns" by auto
  have i: "unat v < length st1" using is_vertex_index [OF 1(2) assms(3)] .
  then have wf: "wf_enc cfg (st1 ! unat v)" using 1(2) by (simp add: wf_encoding_def)
  have "0 \<notin> set (range_words cfg (st1 ! unat v))" using 1(3) assms(4) by (auto simp: is_vertex_def)
  with full_GetBlockInt [OF assms(1) i wf] 1(1) show ?thesis by blast
qed

lemma range_full_vertex_undefined_witness:
  "\<exists>st1. Range_EncodeVertex range_demo 4 [9, 2] (EncodeBitSet range_demo) = Some st1 \<and> GetBlockInt range_demo st1 4 = None"
  using range_full_vertex_undefined [OF range_demo_config range_demo_wf, of 4 "[9, 2]"]
  by (simp add: is_vertex_def range_demo_def max_int_size_def)

end
