(* ===== verification/Bloom_Filters.thy ===== *)
theory Bloom_Filters
  imports Block_Store Vend_Config "HOL-Library.Multiset"
begin

text \<open>
  The Bloom filters over all edges of the graph, \<^verbatim>\<open>encode/bfilter\<close>: one bit per position
  (\<^verbatim>\<open>BFilterBitEncode\<close>), the same in blocks of one cache line (\<^verbatim>\<open>BBFilterEncode\<close>), a 32 bit counter per
  position (\<^verbatim>\<open>BFilterIntEncode\<close>) and counters of \<^verbatim>\<open>ELEMENT_SIZE\<close> bits in a bit set (\<^verbatim>\<open>CBFilterEncode\<close>).
\<close>

section \<open>The base class\<close>

text \<open>\<^verbatim>\<open>BFilterEncode\<close>: the number of hash functions, the size and the stored filter.\<close>

record 'a bfilter =
  best_hash_nums :: nat
  bf_hash_size :: nat
  bf_encode :: 'a

definition BFilter_Hash :: "nat \<Rightarrow> u32 \<Rightarrow> u32 \<Rightarrow> u32 \<Rightarrow> u32 \<Rightarrow> nat option" where
  "BFilter_Hash hash_size key1 key2 hash_param1 hash_param2 =
     (if hash_size = 0 then None
      else Some (((unat key1 * unat hash_param1 + unat key2 * unat hash_param2) mod 2 ^ 64) mod hash_size))"

text \<open>The smaller vertex first.\<close>

definition ordered :: "u32 \<Rightarrow> u32 \<Rightarrow> u32 \<times> u32" where
  "ordered vertex1 vertex2 = (if vertex1 > vertex2 then (vertex2, vertex1) else (vertex1, vertex2))"

text \<open>\<^verbatim>\<open>Hash(vertex1, vertex2, hash_param1_[i], hash_param2_[i])\<close> for the hash function \<open>h\<close> of the class.\<close>

definition hash_nth ::
    "(u32 \<Rightarrow> u32 \<Rightarrow> u32 \<Rightarrow> u32 \<Rightarrow> nat option) \<Rightarrow> u32 \<Rightarrow> u32 \<Rightarrow> nat \<Rightarrow> nat option" where
  "hash_nth h vertex1 vertex2 i = do {
     p1 \<leftarrow> aget HASH_PARAM1 i;
     p2 \<leftarrow> aget HASH_PARAM2 i;
     h vertex1 vertex2 p1 p2 }"

text \<open>The loop of every \<^verbatim>\<open>NEpairTest\<close>: the first position without a mark decides.\<close>

fun test_loop :: "(nat \<Rightarrow> nat option) \<Rightarrow> (nat \<Rightarrow> bool option) \<Rightarrow> nat list \<Rightarrow> PairType option" where
  "test_loop pos marked [] = Some Uncertain"
| "test_loop pos marked (i # is) = do {
     p \<leftarrow> pos i;
     b \<leftarrow> marked p;
     if \<not> b then Some NonNeighbor else test_loop pos marked is }"

section \<open>One bit per position\<close>

definition BFilterBitEncode :: "config \<Rightarrow> nat \<Rightarrow> bitset bfilter" where
  "BFilterBitEncode cfg hash_nums =
     \<lparr>best_hash_nums = hash_nums, bf_hash_size = VERTEX_SIZE cfg * K_SIZE cfg * 32,
      bf_encode = BitSetSIMD (VERTEX_SIZE cfg * K_SIZE cfg * 32)\<rparr>"

definition BFBit_EdgeSet :: "u32 \<Rightarrow> u32 \<Rightarrow> bitset bfilter \<Rightarrow> bitset bfilter option" where
  "BFBit_EdgeSet vertex1 vertex2 f = do {
     let (vertex1, vertex2) = ordered vertex1 vertex2;
     e \<leftarrow> foldo (\<lambda>i e. do { p \<leftarrow> hash_nth (BFilter_Hash (bf_hash_size f)) vertex1 vertex2 i; SetOne e p })
       [0..<best_hash_nums f] (bf_encode f);
     Some (f\<lparr>bf_encode := e\<rparr>) }"

definition BFBit_NEpairTest :: "bitset bfilter \<Rightarrow> u32 \<Rightarrow> u32 \<Rightarrow> PairType option" where
  "BFBit_NEpairTest f vertex1 vertex2 =
     (let (vertex1, vertex2) = ordered vertex1 vertex2 in
      test_loop (hash_nth (BFilter_Hash (bf_hash_size f)) vertex1 vertex2) (IsOne (bf_encode f)) [0..<best_hash_nums f])"

definition BFBit_InsertPair :: "u32 \<Rightarrow> u32 \<Rightarrow> bitset bfilter \<Rightarrow> bitset bfilter option" where
  "BFBit_InsertPair vertex1 vertex2 f = BFBit_EdgeSet vertex1 vertex2 f"

definition BFBit_Clear :: "bitset bfilter \<Rightarrow> bitset bfilter" where
  "BFBit_Clear f = f\<lparr>bf_encode := ClearBits (bf_encode f)\<rparr>"

text \<open>The words in the file; reading past the end of \<^verbatim>\<open>hash_key\<close> has no result.\<close>

definition BFBit_EncodePersistent :: "bitset bfilter \<Rightarrow> u32 list option" where
  "BFBit_EncodePersistent f = do {
     hash_key \<leftarrow> Dump (bf_encode f);
     foldo (\<lambda>i out. do { k \<leftarrow> aget hash_key i; Some (out @ [k]) }) [0..<bf_hash_size f div 32] [] }"

text \<open>\<^verbatim>\<open>file >> key\<close> leaves \<^verbatim>\<open>key\<close> alone at the end of the file; before the first number it has no value.\<close>

definition BFBit_LoadFromDb :: "u32 list \<Rightarrow> bitset bfilter \<Rightarrow> bitset bfilter option" where
  "BFBit_LoadFromDb file f = do {
     (_, hash_key) \<leftarrow> foldo (\<lambda>i (key, out). do {
         k \<leftarrow> (if i < length file then Some (file ! i) else key);
         Some (Some k, out @ [k]) }) [0..<bf_hash_size f div 32] (None, []);
     e \<leftarrow> BlockSet_words (bf_encode f) hash_key;
     Some (f\<lparr>bf_encode := e\<rparr>) }"

section \<open>Blocks of one cache line\<close>

text \<open>The constructor takes the bit filter's array; \<^verbatim>\<open>block_size_\<close> and \<^verbatim>\<open>block_nums_\<close> are the arguments of the operations.\<close>

definition BLOCK_SIZE :: nat where "BLOCK_SIZE = 512"

definition BBFilterEncode :: "config \<Rightarrow> bitset bfilter" where
  "BBFilterEncode cfg = BFilterBitEncode cfg (BIT_HASH_BEST_NUMS cfg)"

definition block_hash1 :: u32 where "block_hash1 = 19692027"

definition block_hash2 :: u32 where "block_hash2 = 3201251"

definition BB_BlockHash :: "nat \<Rightarrow> u32 \<Rightarrow> u32 \<Rightarrow> nat option" where
  "BB_BlockHash block_nums key1 key2 =
     (if block_nums = 0 then None
      else Some (((unat key1 * unat block_hash1 + unat key2 * unat block_hash2) mod 2 ^ 64) mod block_nums))"

definition BB_block_offset :: "nat \<Rightarrow> nat \<Rightarrow> u32 \<Rightarrow> u32 \<Rightarrow> nat option" where
  "BB_block_offset block_size block_nums vertex1 vertex2 =
     map_option (\<lambda>b. (b * block_size) mod 2 ^ 64) (BB_BlockHash block_nums vertex1 vertex2)"

text \<open>The position in the filter: \<^verbatim>\<open>block_offset + Hash(...)\<close>.\<close>

definition BB_pos :: "nat \<Rightarrow> nat \<Rightarrow> u32 \<Rightarrow> u32 \<Rightarrow> nat \<Rightarrow> nat option" where
  "BB_pos block_size block_offset vertex1 vertex2 i =
     map_option (\<lambda>h. (block_offset + h) mod 2 ^ 64) (hash_nth (BFilter_Hash block_size) vertex1 vertex2 i)"

definition BB_NEpairTest :: "nat \<Rightarrow> nat \<Rightarrow> bitset bfilter \<Rightarrow> u32 \<Rightarrow> u32 \<Rightarrow> PairType option" where
  "BB_NEpairTest block_size block_nums f vertex1 vertex2 = do {
     let (vertex1, vertex2) = ordered vertex1 vertex2;
     block_offset \<leftarrow> BB_block_offset block_size block_nums vertex1 vertex2;
     test_loop (BB_pos block_size block_offset vertex1 vertex2) (IsOne (bf_encode f)) [0..<best_hash_nums f] }"

definition BB_EdgeSet :: "nat \<Rightarrow> nat \<Rightarrow> u32 \<Rightarrow> u32 \<Rightarrow> bitset bfilter \<Rightarrow> bitset bfilter option" where
  "BB_EdgeSet block_size block_nums vertex1 vertex2 f = do {
     let (vertex1, vertex2) = ordered vertex1 vertex2;
     block_offset \<leftarrow> BB_block_offset block_size block_nums vertex1 vertex2;
     e \<leftarrow> foldo (\<lambda>i e. do { p \<leftarrow> BB_pos block_size block_offset vertex1 vertex2 i; SetOne e p })
       [0..<best_hash_nums f] (bf_encode f);
     Some (f\<lparr>bf_encode := e\<rparr>) }"

definition BB_InsertPair :: "nat \<Rightarrow> nat \<Rightarrow> u32 \<Rightarrow> u32 \<Rightarrow> bitset bfilter \<Rightarrow> bitset bfilter option" where
  "BB_InsertPair block_size block_nums vertex1 vertex2 f = BB_EdgeSet block_size block_nums vertex1 vertex2 f"

section \<open>A 32 bit counter per position\<close>

definition BFilterIntEncode :: "config \<Rightarrow> u32 list bfilter" where
  "BFilterIntEncode cfg =
     \<lparr>best_hash_nums = INT_HASH_BEST_NUMS cfg, bf_hash_size = VERTEX_SIZE cfg * K_SIZE cfg,
      bf_encode = replicate (VERTEX_SIZE cfg * K_SIZE cfg) 0\<rparr>"

definition BFInt_NEpairTest :: "u32 list bfilter \<Rightarrow> u32 \<Rightarrow> u32 \<Rightarrow> PairType option" where
  "BFInt_NEpairTest f vertex1 vertex2 =
     (let (vertex1, vertex2) = ordered vertex1 vertex2 in
      test_loop (hash_nth (BFilter_Hash (bf_hash_size f)) vertex1 vertex2)
        (\<lambda>p. do { c \<leftarrow> aget (bf_encode f) p; Some (c \<noteq> 0) }) [0..<best_hash_nums f])"

definition BFInt_EdgeSet :: "u32 \<Rightarrow> u32 \<Rightarrow> u32 list bfilter \<Rightarrow> u32 list bfilter option" where
  "BFInt_EdgeSet vertex1 vertex2 f = do {
     let (vertex1, vertex2) = ordered vertex1 vertex2;
     e \<leftarrow> foldo (\<lambda>i e. do {
            p \<leftarrow> hash_nth (BFilter_Hash (bf_hash_size f)) vertex1 vertex2 i;
            c \<leftarrow> aget e p;
            aput e p (c + 1) }) [0..<best_hash_nums f] (bf_encode f);
     Some (f\<lparr>bf_encode := e\<rparr>) }"

definition BFInt_InsertPair :: "u32 \<Rightarrow> u32 \<Rightarrow> u32 list bfilter \<Rightarrow> u32 list bfilter option" where
  "BFInt_InsertPair vertex1 vertex2 f = BFInt_EdgeSet vertex1 vertex2 f"

text \<open>\<^verbatim>\<open>DeletePair\<close> keeps the position in a \<^verbatim>\<open>uint32_t\<close>.\<close>

definition BFInt_DeletePair :: "u32 \<Rightarrow> u32 \<Rightarrow> u32 list bfilter \<Rightarrow> u32 list bfilter option" where
  "BFInt_DeletePair vertex1 vertex2 f = do {
     let (vertex1, vertex2) = ordered vertex1 vertex2;
     e \<leftarrow> foldo (\<lambda>i e. do {
            p \<leftarrow> hash_nth (BFilter_Hash (bf_hash_size f)) vertex1 vertex2 i;
            let hash_val = p mod 2 ^ 32;
            c \<leftarrow> aget e hash_val;
            if c > 0 then aput e hash_val (c - 1) else Some e }) [0..<best_hash_nums f] (bf_encode f);
     Some (f\<lparr>bf_encode := e\<rparr>) }"

definition BFInt_EncodePersistent :: "u32 list bfilter \<Rightarrow> u32 list option" where
  "BFInt_EncodePersistent f =
     foldo (\<lambda>i out. do { c \<leftarrow> aget (bf_encode f) i; Some (out @ [c]) }) [0..<bf_hash_size f] []"

definition BFInt_LoadFromDb :: "u32 list \<Rightarrow> u32 list bfilter \<Rightarrow> u32 list bfilter option" where
  "BFInt_LoadFromDb file f = do {
     e \<leftarrow> foldo (\<lambda>i e. if i < length file then aput e i (file ! i) else do { _ \<leftarrow> aget e i; Some e })
       [0..<bf_hash_size f] (bf_encode f);
     Some (f\<lparr>bf_encode := e\<rparr>) }"

section \<open>Small counters in a bit set\<close>

definition CBFilterEncode :: "config \<Rightarrow> bitset bfilter" where
  "CBFilterEncode cfg = BFilterBitEncode cfg (COUNT_HASH_BEST_NUMS cfg)"

definition CBF_element_nums :: "config \<Rightarrow> nat option" where
  "CBF_element_nums cfg = cdiv (VERTEX_SIZE cfg * K_SIZE cfg * 32) (ELEMENT_SIZE cfg)"

definition CBF_Hash :: "nat \<Rightarrow> nat \<Rightarrow> u32 \<Rightarrow> u32 \<Rightarrow> u32 \<Rightarrow> u32 \<Rightarrow> nat option" where
  "CBF_Hash element_nums element_size key1 key2 hash_param1 hash_param2 =
     map_option (\<lambda>h. (h * element_size) mod 2 ^ 64) (BFilter_Hash element_nums key1 key2 hash_param1 hash_param2)"

definition CBF_NEpairTest :: "nat \<Rightarrow> nat \<Rightarrow> bitset bfilter \<Rightarrow> u32 \<Rightarrow> u32 \<Rightarrow> PairType option" where
  "CBF_NEpairTest element_nums element_size f vertex1 vertex2 =
     (let (vertex1, vertex2) = ordered vertex1 vertex2 in
      test_loop (hash_nth (CBF_Hash element_nums element_size) vertex1 vertex2)
        (\<lambda>p. do { c \<leftarrow> BlockGet (bf_encode f) p element_size; Some (c \<noteq> 0) }) [0..<best_hash_nums f])"

definition CBF_EdgeSet :: "nat \<Rightarrow> nat \<Rightarrow> u32 \<Rightarrow> u32 \<Rightarrow> bitset bfilter \<Rightarrow> bitset bfilter option" where
  "CBF_EdgeSet element_nums element_size vertex1 vertex2 f = do {
     let (vertex1, vertex2) = ordered vertex1 vertex2;
     e \<leftarrow> foldo (\<lambda>i e. do {
            p \<leftarrow> hash_nth (CBF_Hash element_nums element_size) vertex1 vertex2 i;
            c \<leftarrow> BlockGet e p element_size;
            BlockSet e p element_size (c + 1) }) [0..<best_hash_nums f] (bf_encode f);
     Some (f\<lparr>bf_encode := e\<rparr>) }"

definition CBF_InsertPair :: "nat \<Rightarrow> nat \<Rightarrow> u32 \<Rightarrow> u32 \<Rightarrow> bitset bfilter \<Rightarrow> bitset bfilter option" where
  "CBF_InsertPair element_nums element_size vertex1 vertex2 f = CBF_EdgeSet element_nums element_size vertex1 vertex2 f"

definition CBF_IsDeletable :: "u32 \<Rightarrow> u32 \<Rightarrow> bool" where
  "CBF_IsDeletable vertex1 vertex2 = True"

definition CBF_DeletePair :: "nat \<Rightarrow> nat \<Rightarrow> u32 \<Rightarrow> u32 \<Rightarrow> bitset bfilter \<Rightarrow> bitset bfilter option" where
  "CBF_DeletePair element_nums element_size vertex1 vertex2 f = do {
     let (vertex1, vertex2) = ordered vertex1 vertex2;
     e \<leftarrow> foldo (\<lambda>i e. do {
            p \<leftarrow> hash_nth (CBF_Hash element_nums element_size) vertex1 vertex2 i;
            c \<leftarrow> BlockGet e p element_size;
            BlockSet e p element_size (c - 1) }) [0..<best_hash_nums f] (bf_encode f);
     Some (f\<lparr>bf_encode := e\<rparr>) }"

end
