(* ===== verification/Bloom_Laws.thy ===== *)
theory Bloom_Laws
  imports Bloom_Filters
begin

text \<open>
  The contracts of the filters. \<open>edge_filter\<close> is a filter of marks: an edge needs a set of positions and
  tests \<^verbatim>\<open>Uncertain\<close> exactly if all of them are marked; \<open>counting_filter\<close> counts the positions, so that an
  edge can be taken out again. The clients' lemmas (no false negatives after any sequence of
  operations) are proved once and hold for the four filters.
\<close>

section \<open>Interfaces\<close>

locale edge_filter =
  fixes wf :: "'f \<Rightarrow> bool"
    and marks :: "'f \<Rightarrow> nat set"
    and need :: "'f \<Rightarrow> 'e \<Rightarrow> nat set"
    and ins :: "'e \<Rightarrow> 'f \<Rightarrow> 'f option"
    and test :: "'f \<Rightarrow> 'e \<Rightarrow> PairType option"
  assumes ins_law: "wf f \<Longrightarrow> \<exists>f'. ins e f = Some f' \<and> wf f' \<and> need f' = need f \<and> marks f' = marks f \<union> need f e"
    and test_law: "wf f \<Longrightarrow> test f e = Some (if need f e \<subseteq> marks f then Uncertain else NonNeighbor)"
begin

lemma insert_all:
  assumes "wf f"
  shows "\<exists>f'. foldo ins es f = Some f' \<and> wf f' \<and> need f' = need f \<and> marks f' = marks f \<union> (\<Union>e \<in> set es. need f e)"
  using assms
proof (induction es arbitrary: f)
  case (Cons e es)
  from ins_law [OF Cons.prems, of e] obtain f1 where
    1: "ins e f = Some f1" "wf f1" "need f1 = need f" "marks f1 = marks f \<union> need f e" by blast
  from Cons.IH [OF 1(2)] obtain f2 where "foldo ins es f1 = Some f2" "wf f2" "need f2 = need f1"
    "marks f2 = marks f1 \<union> (\<Union>e \<in> set es. need f1 e)" by blast
  with 1 show ?case by auto
qed simp

lemma no_false_negatives:
  assumes "wf f"
  shows "\<exists>f'. foldo ins es f = Some f' \<and> (\<forall>e. \<exists>r. test f' e = Some r \<and> r \<noteq> Neighbor \<and> (e \<in> set es \<longrightarrow> r = Uncertain))"
proof -
  obtain f' where f': "foldo ins es f = Some f'" "wf f'" "need f' = need f" "marks f' = marks f \<union> (\<Union>e \<in> set es. need f e)"
    using insert_all [OF assms] by blast
  then have "e \<in> set es \<Longrightarrow> need f' e \<subseteq> marks f'" for e by auto
  with f'(1) test_law [OF f'(2)] show ?thesis by auto
qed

end

text \<open>The operations on a counting filter, and which edges are in it afterwards.\<close>

datatype 'e filter_op = Ins 'e | Del 'e

fun present :: "'e filter_op list \<Rightarrow> 'e multiset \<Rightarrow> 'e multiset option" where
  "present [] E = Some E"
| "present (Ins e # ops) E = present ops (add_mset e E)"
| "present (Del e # ops) E = (if e \<in># E then present ops (E - {#e#}) else None)"

fun run_ops :: "('e \<Rightarrow> 'f \<Rightarrow> 'f option) \<Rightarrow> ('e \<Rightarrow> 'f \<Rightarrow> 'f option) \<Rightarrow> 'e filter_op list \<Rightarrow> 'f \<Rightarrow> 'f option" where
  "run_ops ins del [] f = Some f"
| "run_ops ins del (Ins e # ops) f = do { f \<leftarrow> ins e f; run_ops ins del ops f }"
| "run_ops ins del (Del e # ops) f = do { f \<leftarrow> del e f; run_ops ins del ops f }"

locale counting_filter =
  fixes wf :: "'f \<Rightarrow> bool"
    and cells :: "'f \<Rightarrow> nat \<Rightarrow> nat"
    and lim :: "'f \<Rightarrow> nat"
    and pos :: "'f \<Rightarrow> 'e \<Rightarrow> nat list"
    and ins del :: "'e \<Rightarrow> 'f \<Rightarrow> 'f option"
    and test :: "'f \<Rightarrow> 'e \<Rightarrow> PairType option"
  assumes ins_law: "wf f \<Longrightarrow> (\<And>i. cells f i + count_list (pos f e) i < lim f) \<Longrightarrow>
      \<exists>f'. ins e f = Some f' \<and> wf f' \<and> pos f' = pos f \<and> lim f' = lim f \<and> (\<forall>i. cells f' i = cells f i + count_list (pos f e) i)"
    and del_law: "wf f \<Longrightarrow> (\<And>i. count_list (pos f e) i \<le> cells f i \<and> cells f i < lim f) \<Longrightarrow>
      \<exists>f'. del e f = Some f' \<and> wf f' \<and> pos f' = pos f \<and> lim f' = lim f \<and> (\<forall>i. cells f' i = cells f i - count_list (pos f e) i)"
    and test_law: "wf f \<Longrightarrow> test f e = Some (if \<exists>i \<in> set (pos f e). cells f i = 0 then NonNeighbor else Uncertain)"
begin

text \<open>The filter holds the multiset \<open>E\<close> of edges when its counters are the sum of their positions.\<close>

definition holds :: "'f \<Rightarrow> 'e multiset \<Rightarrow> bool" where
  "holds f E \<longleftrightarrow> wf f \<and> (\<forall>i. cells f i = (\<Sum>e \<in># E. count_list (pos f e) i))"

lemma holds_insert:
  assumes "holds f E" "\<And>i. cells f i + count_list (pos f e) i < lim f"
  shows "\<exists>f'. ins e f = Some f' \<and> pos f' = pos f \<and> lim f' = lim f \<and> holds f' (add_mset e E)"
proof -
  from ins_law [of f e] assms obtain f' where f': "ins e f = Some f'" "wf f'" "pos f' = pos f" "lim f' = lim f"
    "\<forall>i. cells f' i = cells f i + count_list (pos f e) i" by (auto simp: holds_def)
  moreover have "holds f' (add_mset e E)" using f' assms(1) by (simp add: holds_def add.commute)
  ultimately show ?thesis by blast
qed

lemma holds_delete:
  assumes "holds f (add_mset e E)" "\<And>i. cells f i < lim f"
  shows "\<exists>f'. del e f = Some f' \<and> pos f' = pos f \<and> lim f' = lim f \<and> holds f' E"
proof -
  have c: "cells f i = count_list (pos f e) i + (\<Sum>e \<in># E. count_list (pos f e) i)" for i
    using assms(1) by (simp add: holds_def)
  then have "count_list (pos f e) i \<le> cells f i \<and> cells f i < lim f" for i using assms(2) by simp
  from del_law [OF _ this] assms(1) obtain f' where f': "del e f = Some f'" "wf f'" "pos f' = pos f" "lim f' = lim f"
    "\<forall>i. cells f' i = cells f i - count_list (pos f e) i" by (auto simp: holds_def)
  moreover have "holds f' E" using f' c by (simp add: holds_def)
  ultimately show ?thesis by blast
qed

lemma sum_count_le:
  assumes "\<And>e. length (pos f e) \<le> k"
  shows "(\<Sum>e \<in># E. count_list (pos f e) i) \<le> k * size E"
proof (induction E)
  case (add e E)
  have "count_list (pos f e) i \<le> k" using assms [of e] count_le_length [of "pos f e" i] by simp
  with add show ?case by simp
qed simp

text \<open>Any sequence of insertions and of deletions of edges that are present keeps the filter exact.\<close>

lemma run_law:
  assumes "holds f E" "present ops E = Some E'" "\<And>e. length (pos f e) \<le> k" "k * (size E + length ops) < lim f"
  shows "\<exists>f'. run_ops ins del ops f = Some f' \<and> pos f' = pos f \<and> holds f' E'"
  using assms
proof (induction ops E arbitrary: f rule: present.induct)
  case (1 E)
  then show ?case by simp
next
  case (2 e ops E)
  have "cells f i + count_list (pos f e) i < lim f" for i
  proof -
    have "(\<Sum>e \<in># add_mset e E. count_list (pos f e) i) \<le> k * (size E + 1)"
      using sum_count_le [OF "2.prems"(3), where E = "add_mset e E" and i = i] by simp
    also have "\<dots> \<le> k * (size E + length (Ins e # ops))" by (intro mult_le_mono2) simp
    finally show ?thesis using "2.prems"(1,4) by (simp add: holds_def add.commute)
  qed
  from holds_insert [OF "2.prems"(1) this] obtain f1 where
    f1: "ins e f = Some f1" "pos f1 = pos f" "lim f1 = lim f" "holds f1 (add_mset e E)" by blast
  from "2.IH" [OF f1(4)] "2.prems" f1 show ?case by auto
next
  case (3 e ops E)
  from "3.prems"(2) have mem: "e \<in># E" and p: "present ops (E - {#e#}) = Some E'" by (auto split: if_splits)
  have "cells f i < lim f" for i
  proof -
    have "cells f i \<le> k * size E" using sum_count_le [OF "3.prems"(3)] "3.prems"(1) by (simp add: holds_def)
    also have "\<dots> \<le> k * (size E + length (Del e # ops))" by (intro mult_le_mono2) simp
    finally show ?thesis using "3.prems"(4) by simp
  qed
  from holds_delete [OF _ this, of e "E - {#e#}"] "3.prems"(1) mem obtain f1 where
    f1: "del e f = Some f1" "pos f1 = pos f" "lim f1 = lim f" "holds f1 (E - {#e#})" by auto
  have "k * (size (E - {#e#}) + length ops) \<le> k * (size E + length (Del e # ops))"
    by (intro mult_le_mono2) (auto simp: size_Diff_singleton_if)
  with "3.IH" [OF mem f1(4) p] "3.prems"(3,4) f1 show ?case by auto
qed

lemma held_edge_uncertain:
  assumes "holds f E" "e \<in># E"
  shows "test f e = Some Uncertain"
proof -
  have "cells f i \<noteq> 0" if "i \<in> set (pos f e)" for i
  proof -
    from assms(2) obtain E' where E': "E = add_mset e E'" by (metis insert_DiffM)
    have "count_list (pos f e) i \<noteq> 0" using that by (simp add: count_list_0_iff)
    then show ?thesis using assms(1) by (simp add: holds_def E')
  qed
  with test_law [of f e] assms(1) show ?thesis by (auto simp: holds_def)
qed

end

section \<open>Hash positions\<close>

lemma length_HASH_PARAM [simp]: "length HASH_PARAM1 = 60" "length HASH_PARAM2 = 60"
  by (simp_all add: HASH_PARAM1_def HASH_PARAM2_def)

lemma BFilter_Hash_total: "0 < n \<Longrightarrow> \<exists>p. BFilter_Hash n a b x y = Some p \<and> p < n"
  by (simp add: BFilter_Hash_def)

text \<open>The positions of an edge under \<open>n\<close> hash functions.\<close>

definition positions :: "(u32 \<Rightarrow> u32 \<Rightarrow> nat \<Rightarrow> nat option) \<Rightarrow> nat \<Rightarrow> u32 \<times> u32 \<Rightarrow> nat list" where
  "positions h n e = (let (a, b) = ordered (fst e) (snd e) in map (\<lambda>i. the (h a b i)) [0..<n])"

lemma hash_nth_total:
  assumes "\<And>x y. \<exists>p. h a b x y = Some p \<and> p < m" "i < 60"
  shows "\<exists>p. hash_nth h a b i = Some p \<and> p < m"
  using assms by (simp add: hash_nth_def)

lemma test_loop_eq:
  assumes "\<And>i. i \<in> set is \<Longrightarrow> \<exists>p. pos i = Some p \<and> marked p = Some (m p)"
  shows "test_loop pos marked is = Some (if \<forall>i \<in> set is. m (the (pos i)) then Uncertain else NonNeighbor)"
  using assms
proof (induction "is")
  case (Cons i "is")
  then obtain p where "pos i = Some p" "marked p = Some (m p)" by auto
  with Cons show ?case by auto
qed simp

lemma length_positions [simp]: "length (positions h n e) = n"
  by (simp add: positions_def Let_def split: prod.split)

section \<open>The bit filters\<close>

definition bit_marks :: "bitset bfilter \<Rightarrow> nat set" where
  "bit_marks f = {p. p < 8 * bs_size (bf_encode f) \<and> bitat (bf_encode f) p}"

text \<open>Setting and testing the bits of a list of positions, for any position function inside the array.\<close>

lemma bit_filter_insert:
  assumes "wf_bs e" "\<And>i. i < n \<Longrightarrow> \<exists>p. h i = Some p \<and> p < 8 * bs_size e"
  shows "\<exists>e'. foldo (\<lambda>i e. do { p \<leftarrow> h i; SetOne e p }) [0..<n] e = Some e' \<and> wf_bs e' \<and> bs_size e' = bs_size e \<and>
    {p. p < 8 * bs_size e' \<and> bitat e' p} = {p. p < 8 * bs_size e \<and> bitat e p} \<union> (\<lambda>i. the (h i)) ` {..<n}"
proof -
  obtain e' where e': "foldo (\<lambda>i e. do { p \<leftarrow> h i; SetOne e p }) [0..<n] e = Some e'" "wf_bs e'" "8 * bs_size e' = 8 * bs_size e"
    "\<And>q. q < 8 * bs_size e \<Longrightarrow> bitat e' q \<longleftrightarrow> bitat e q \<or> (\<exists>i \<in> set [0..<n]. h i = Some q)"
    using bs.set_positions_law [OF assms(1), of "[0..<n]" h] assms(2) by auto
  have "q \<in> (\<lambda>i. the (h i)) ` {..<n} \<longleftrightarrow> (\<exists>i \<in> set [0..<n]. h i = Some q)" for q
    using assms(2) by force
  moreover have "q < 8 * bs_size e" if "\<exists>i \<in> set [0..<n]. h i = Some q" for q using that assms(2) by fastforce
  ultimately have "{p. p < 8 * bs_size e' \<and> bitat e' p} = {p. p < 8 * bs_size e \<and> bitat e p} \<union> (\<lambda>i. the (h i)) ` {..<n}"
    using e'(3,4) by auto
  with e' show ?thesis by auto
qed

lemma bit_filter_test:
  assumes "wf_bs e" "\<And>i. i < n \<Longrightarrow> \<exists>p. h i = Some p \<and> p < 8 * bs_size e"
  shows "test_loop h (IsOne e) [0..<n] =
    Some (if (\<lambda>i. the (h i)) ` {..<n} \<subseteq> {p. p < 8 * bs_size e \<and> bitat e p} then Uncertain else NonNeighbor)"
proof -
  have "test_loop h (IsOne e) [0..<n] = Some (if \<forall>i \<in> set [0..<n]. bitat e (the (h i)) then Uncertain else NonNeighbor)"
    by (rule test_loop_eq) (use assms in \<open>fastforce\<close>)
  moreover have "(\<forall>i \<in> set [0..<n]. bitat e (the (h i))) \<longleftrightarrow> (\<lambda>i. the (h i)) ` {..<n} \<subseteq> {p. p < 8 * bs_size e \<and> bitat e p}"
    using assms(2) by fastforce
  ultimately show ?thesis by simp
qed

definition wf_bfbit :: "bitset bfilter \<Rightarrow> bool" where
  "wf_bfbit f \<longleftrightarrow> wf_bs (bf_encode f) \<and> bf_hash_size f = 8 * bs_size (bf_encode f) \<and> 0 < bf_hash_size f \<and> best_hash_nums f \<le> 60"

definition bfbit_need :: "bitset bfilter \<Rightarrow> u32 \<times> u32 \<Rightarrow> nat set" where
  "bfbit_need f e = set (positions (hash_nth (BFilter_Hash (bf_hash_size f))) (best_hash_nums f) e)"

lemma positions_image:
  "ordered (fst e) (snd e) = (a, b) \<Longrightarrow> set (positions h n e) = (\<lambda>i. the (h a b i)) ` {..<n}"
  by (auto simp: positions_def)

lemma bit_marks_insert:
  assumes "wf_bs (bf_encode f)" "\<And>i. i < n \<Longrightarrow> \<exists>p. h i = Some p \<and> p < 8 * bs_size (bf_encode f)"
  shows "\<exists>e'. foldo (\<lambda>i e. do { p \<leftarrow> h i; SetOne e p }) [0..<n] (bf_encode f) = Some e' \<and> wf_bs e' \<and>
    bs_size e' = bs_size (bf_encode f) \<and> bit_marks (f\<lparr>bf_encode := e'\<rparr>) = bit_marks f \<union> (\<lambda>i. the (h i)) ` {..<n}"
proof -
  have "\<exists>e'. foldo (\<lambda>i e. do { p \<leftarrow> h i; SetOne e p }) [0..<n] (bf_encode f) = Some e' \<and> wf_bs e' \<and> bs_size e' = bs_size (bf_encode f) \<and>
    {p. p < 8 * bs_size e' \<and> bitat e' p} = {p. p < 8 * bs_size (bf_encode f) \<and> bitat (bf_encode f) p} \<union> (\<lambda>i. the (h i)) ` {..<n}"
    using assms by (rule bit_filter_insert)
  then show ?thesis by (simp add: bit_marks_def)
qed

interpretation bfbit: edge_filter wf_bfbit bit_marks bfbit_need
  "\<lambda>e. BFBit_EdgeSet (fst e) (snd e)" "\<lambda>f e. BFBit_NEpairTest f (fst e) (snd e)"
proof
  fix f :: "bitset bfilter" and e :: "u32 \<times> u32"
  assume wf: "wf_bfbit f"
  obtain a b where ab: "ordered (fst e) (snd e) = (a, b)" by (cases "ordered (fst e) (snd e)")
  let ?h = "hash_nth (BFilter_Hash (bf_hash_size f)) a b"
  have wf': "wf_bs (bf_encode f)" using wf by (simp add: wf_bfbit_def)
  have h: "\<exists>p. ?h i = Some p \<and> p < 8 * bs_size (bf_encode f)" if "i < best_hash_nums f" for i
    using wf that by (intro hash_nth_total) (auto simp: wf_bfbit_def intro: BFilter_Hash_total)
  have need: "bfbit_need f e = (\<lambda>i. the (?h i)) ` {..<best_hash_nums f}"
    using positions_image [OF ab] by (simp add: bfbit_need_def)
  show "BFBit_NEpairTest f (fst e) (snd e) = Some (if bfbit_need f e \<subseteq> bit_marks f then Uncertain else NonNeighbor)"
    using bit_filter_test [OF wf' h] ab unfolding need by (simp add: BFBit_NEpairTest_def bit_marks_def)
  have "\<exists>e'. foldo (\<lambda>i e. do { p \<leftarrow> ?h i; SetOne e p }) [0..<best_hash_nums f] (bf_encode f) = Some e' \<and> wf_bs e' \<and>
      bs_size e' = bs_size (bf_encode f) \<and> bit_marks (f\<lparr>bf_encode := e'\<rparr>) = bit_marks f \<union> bfbit_need f e"
    unfolding need using wf' h by (rule bit_marks_insert)
  then obtain e' where e': "foldo (\<lambda>i e. do { p \<leftarrow> ?h i; SetOne e p }) [0..<best_hash_nums f] (bf_encode f) = Some e'"
    "wf_bs e'" "bs_size e' = bs_size (bf_encode f)" "bit_marks (f\<lparr>bf_encode := e'\<rparr>) = bit_marks f \<union> bfbit_need f e" by auto
  have "BFBit_EdgeSet (fst e) (snd e) f = Some (f\<lparr>bf_encode := e'\<rparr>)" using ab e'(1) by (simp add: BFBit_EdgeSet_def)
  moreover have "wf_bfbit (f\<lparr>bf_encode := e'\<rparr>)" using wf e'(2,3) by (simp add: wf_bfbit_def)
  moreover have "bfbit_need (f\<lparr>bf_encode := e'\<rparr>) = bfbit_need f" by (rule ext) (simp add: bfbit_need_def)
  ultimately show "\<exists>f'. BFBit_EdgeSet (fst e) (snd e) f = Some f' \<and> wf_bfbit f' \<and> bfbit_need f' = bfbit_need f \<and>
      bit_marks f' = bit_marks f \<union> bfbit_need f e" using e'(4) by blast
qed

text \<open>The blocked filter: the block and the position inside it are both in range.\<close>

definition wf_bb :: "nat \<Rightarrow> nat \<Rightarrow> bitset bfilter \<Rightarrow> bool" where
  "wf_bb block_size block_nums f \<longleftrightarrow> wf_bs (bf_encode f) \<and> block_nums * block_size \<le> 8 * bs_size (bf_encode f) \<and>
     0 < block_size \<and> 0 < block_nums \<and> block_nums * block_size < 2 ^ 64 \<and> best_hash_nums f \<le> 60"

definition bb_position :: "nat \<Rightarrow> nat \<Rightarrow> u32 \<Rightarrow> u32 \<Rightarrow> nat \<Rightarrow> nat option" where
  "bb_position s n a b i = do { off \<leftarrow> BB_block_offset s n a b; BB_pos s off a b i }"

definition bb_need :: "nat \<Rightarrow> nat \<Rightarrow> bitset bfilter \<Rightarrow> u32 \<times> u32 \<Rightarrow> nat set" where
  "bb_need block_size block_nums f e = set (positions (bb_position block_size block_nums) (best_hash_nums f) e)"

lemma BB_offset:
  assumes "wf_bb s n f"
  shows "\<exists>x. BB_block_offset s n a b = Some (x * s) \<and> x < n"
proof -
  obtain x where x: "BB_BlockHash n a b = Some x" "x < n" using assms by (simp add: BB_BlockHash_def wf_bb_def)
  have "x * s < 2 ^ 64" using x(2) assms by (auto simp: wf_bb_def intro: le_less_trans [OF mult_le_mono1 [of x n s]])
  with x show ?thesis by (intro exI [of _ x]) (simp add: BB_block_offset_def)
qed

lemma bb_position_total:
  assumes "wf_bb s n f" "i < best_hash_nums f"
  shows "\<exists>p. bb_position s n a b i = Some p \<and> p < 8 * bs_size (bf_encode f)"
proof -
  obtain x where x: "BB_block_offset s n a b = Some (x * s)" "x < n" using BB_offset [OF assms(1)] by blast
  have "\<exists>p. hash_nth (BFilter_Hash s) a b i = Some p \<and> p < s"
    using assms by (intro hash_nth_total) (auto simp: wf_bb_def intro: BFilter_Hash_total)
  then obtain h where h: "hash_nth (BFilter_Hash s) a b i = Some h" "h < s" by blast
  have "(x + 1) * s \<le> n * s" using x(2) by (intro mult_le_mono1) simp
  then have le: "x * s + h < n * s" using h(2) by simp
  then have "(x * s + h) mod 2 ^ 64 = x * s + h" using assms(1) by (simp add: wf_bb_def)
  with x h le assms(1) show ?thesis by (auto simp: bb_position_def BB_pos_def wf_bb_def)
qed

interpretation bbf: edge_filter "wf_bb s n" bit_marks "bb_need s n"
  "\<lambda>e. BB_EdgeSet s n (fst e) (snd e)" "\<lambda>f e. BB_NEpairTest s n f (fst e) (snd e)" for s n
proof
  fix f :: "bitset bfilter" and e :: "u32 \<times> u32"
  assume wf: "wf_bb s n f"
  obtain a b where ab: "ordered (fst e) (snd e) = (a, b)" by (cases "ordered (fst e) (snd e)")
  obtain off where off: "BB_block_offset s n a b = Some off" using BB_offset [OF wf] by blast
  have pos: "BB_pos s off a b = bb_position s n a b" by (rule ext) (simp add: bb_position_def off)
  let ?h = "bb_position s n a b"
  have wf': "wf_bs (bf_encode f)" using wf by (simp add: wf_bb_def)
  note h = bb_position_total [OF wf]
  have need: "bb_need s n f e = (\<lambda>i. the (?h i)) ` {..<best_hash_nums f}"
    using positions_image [OF ab] by (simp add: bb_need_def)
  show "BB_NEpairTest s n f (fst e) (snd e) = Some (if bb_need s n f e \<subseteq> bit_marks f then Uncertain else NonNeighbor)"
    using bit_filter_test [OF wf' h] ab off pos unfolding need by (simp add: BB_NEpairTest_def bit_marks_def)
  have "\<exists>e'. foldo (\<lambda>i e. do { p \<leftarrow> ?h i; SetOne e p }) [0..<best_hash_nums f] (bf_encode f) = Some e' \<and> wf_bs e' \<and>
      bs_size e' = bs_size (bf_encode f) \<and> bit_marks (f\<lparr>bf_encode := e'\<rparr>) = bit_marks f \<union> bb_need s n f e"
    unfolding need using wf' h by (rule bit_marks_insert)
  then obtain e' where e': "foldo (\<lambda>i e. do { p \<leftarrow> ?h i; SetOne e p }) [0..<best_hash_nums f] (bf_encode f) = Some e'"
    "wf_bs e'" "bs_size e' = bs_size (bf_encode f)" "bit_marks (f\<lparr>bf_encode := e'\<rparr>) = bit_marks f \<union> bb_need s n f e" by auto
  have "BB_EdgeSet s n (fst e) (snd e) f = Some (f\<lparr>bf_encode := e'\<rparr>)" using ab off pos e'(1) by (simp add: BB_EdgeSet_def)
  moreover have "wf_bb s n (f\<lparr>bf_encode := e'\<rparr>)" using wf e'(2,3) by (simp add: wf_bb_def)
  moreover have "bb_need s n (f\<lparr>bf_encode := e'\<rparr>) = bb_need s n f" by (rule ext) (simp add: bb_need_def)
  ultimately show "\<exists>f'. BB_EdgeSet s n (fst e) (snd e) f = Some f' \<and> wf_bb s n f' \<and> bb_need s n f' = bb_need s n f \<and>
      bit_marks f' = bit_marks f \<union> bb_need s n f e" using e'(4) by blast
qed

section \<open>The counting filters\<close>

text \<open>A loop that adds \<open>d\<close> to (or takes it from) the counters at the positions of a list.\<close>

lemma counter_loop:
  assumes "\<And>i c. i \<in> set is \<Longrightarrow> good c \<Longrightarrow> ok (the (h i)) (cell c (the (h i))) \<Longrightarrow>
      \<exists>c'. step i c = Some c' \<and> good c' \<and> (\<forall>j. cell c' j = (if j = the (h i) then g (cell c j) else cell c j))"
    and "good c" "\<And>j k. k < count_list (map (\<lambda>i. the (h i)) is) j \<Longrightarrow> ok j ((g ^^ k) (cell c j))"
  shows "\<exists>c'. foldo step is c = Some c' \<and> good c' \<and>
    (\<forall>j. cell c' j = (g ^^ count_list (map (\<lambda>i. the (h i)) is) j) (cell c j))"
  using assms
proof (induction "is" arbitrary: c)
  case (Cons i "is")
  let ?p = "the (h i)"
  have "ok ?p (cell c ?p)" using Cons.prems(3) [of 0 ?p] by simp
  with Cons.prems(1) [of i c] Cons.prems(2) obtain c1 where
    c1: "step i c = Some c1" "good c1" "\<And>j. cell c1 j = (if j = ?p then g (cell c j) else cell c j)" by auto
  have "\<exists>c'. foldo step is c1 = Some c' \<and> good c' \<and> (\<forall>j. cell c' j = (g ^^ count_list (map (\<lambda>i. the (h i)) is) j) (cell c1 j))"
  proof (rule Cons.IH)
    fix j k assume k: "k < count_list (map (\<lambda>i. the (h i)) is) j"
    show "ok j ((g ^^ k) (cell c1 j))"
    proof (cases "j = ?p")
      case True
      with Cons.prems(3) [of "Suc k" j] k c1(3) show ?thesis by (simp add: funpow_swap1)
    next
      case False
      with Cons.prems(3) [of k j] k c1(3) show ?thesis by simp
    qed
  qed (use Cons.prems(1) c1(2) in auto)
  then obtain c2 where "foldo step is c1 = Some c2" "good c2"
    "\<forall>j. cell c2 j = (g ^^ count_list (map (\<lambda>i. the (h i)) is) j) (cell c1 j)" by blast
  with c1 show ?case by (auto simp: funpow_swap1)
qed simp

lemma funpow_Suc_add: "(Suc ^^ k) n = n + k"
  by (induction k) simp_all

lemma funpow_minus_1: "((\<lambda>n. n - 1) ^^ k) n = n - (k :: nat)"
  by (induction k) simp_all

definition int_pos :: "u32 list bfilter \<Rightarrow> u32 \<times> u32 \<Rightarrow> nat list" where
  "int_pos f = positions (hash_nth (BFilter_Hash (bf_hash_size f))) (best_hash_nums f)"

definition int_cell :: "u32 list \<Rightarrow> nat \<Rightarrow> nat" where
  "int_cell c i = (if i < length c then unat (c ! i) else 0)"

definition wf_bfint :: "u32 list bfilter \<Rightarrow> bool" where
  "wf_bfint f \<longleftrightarrow> bf_hash_size f = length (bf_encode f) \<and> 0 < bf_hash_size f \<and> bf_hash_size f \<le> 2 ^ 32 \<and> best_hash_nums f \<le> 60"

lemma positions_eq: "ordered (fst e) (snd e) = (a, b) \<Longrightarrow> positions h n e = map (\<lambda>i. the (h a b i)) [0..<n]"
  by (simp add: positions_def)

lemma unat_plus_1: "unat (x :: u32) + 1 < 2 ^ 32 \<Longrightarrow> unat (x + 1) = unat x + 1"
  by (simp add: unat_word_ariths)

lemma unat_minus_1: "0 < x \<Longrightarrow> unat (x - 1 :: u32) = unat x - 1"
  by (rule unat_minus_one) auto

lemma int_inc_step:
  assumes "p < length c" "int_cell c p + 1 < 2 ^ 32"
  shows "int_cell (c[p := c ! p + 1]) j = (if j = p then Suc (int_cell c j) else int_cell c j)"
  using assms unat_plus_1 [of "c ! p"] by (auto simp: int_cell_def nth_list_update)

lemma int_dec_step:
  assumes "p < length c" "0 < c ! p"
  shows "int_cell (c[p := c ! p - 1]) j = (if j = p then int_cell c j - 1 else int_cell c j)"
  using assms unat_minus_1 [of "c ! p"] by (auto simp: int_cell_def nth_list_update)

lemma int_hash:
  assumes "wf_bfint f" "i < best_hash_nums f"
  shows "\<exists>p. hash_nth (BFilter_Hash (bf_hash_size f)) a b i = Some p \<and> p < length (bf_encode f) \<and> p < 2 ^ 32"
proof -
  have "\<exists>p. hash_nth (BFilter_Hash (bf_hash_size f)) a b i = Some p \<and> p < bf_hash_size f"
    using assms by (intro hash_nth_total) (auto simp: wf_bfint_def intro: BFilter_Hash_total)
  with assms(1) show ?thesis by (auto simp: wf_bfint_def)
qed

lemma BFInt_insert:
  assumes wf: "wf_bfint f" and room: "\<And>i. int_cell (bf_encode f) i + count_list (int_pos f e) i < 2 ^ 32"
  shows "\<exists>c'. BFInt_EdgeSet (fst e) (snd e) f = Some (f\<lparr>bf_encode := c'\<rparr>) \<and> length c' = length (bf_encode f) \<and>
    (\<forall>i. int_cell c' i = int_cell (bf_encode f) i + count_list (int_pos f e) i)"
proof -
  obtain a b where ab: "ordered (fst e) (snd e) = (a, b)" by (cases "ordered (fst e) (snd e)")
  let ?h = "hash_nth (BFilter_Hash (bf_hash_size f)) a b"
  let ?step = "\<lambda>i e. do { p \<leftarrow> ?h i; c \<leftarrow> aget e p; aput e p (c + 1) }"
  note pos = positions_eq [OF ab, of "hash_nth (BFilter_Hash (bf_hash_size f))" "best_hash_nums f", folded int_pos_def]
  have step: "\<exists>c'. ?step i c = Some c' \<and> length c' = length (bf_encode f) \<and>
      (\<forall>j. int_cell c' j = (if j = the (?h i) then Suc (int_cell c j) else int_cell c j))"
    if ic: "i \<in> set [0..<best_hash_nums f]" "length c = length (bf_encode f)" "int_cell c (the (?h i)) + 1 < 2 ^ 32" for i c
  proof -
    obtain p where p: "?h i = Some p" "p < length c" using int_hash [OF wf, of i a b] ic by auto
    have "int_cell (c[p := c ! p + 1]) j = (if j = p then Suc (int_cell c j) else int_cell c j)" for j
      using p ic(3) by (intro int_inc_step) simp_all
    with p ic(2) show ?thesis by (simp add: aget_def aput_def)
  qed
  have "\<exists>c'. foldo ?step [0..<best_hash_nums f] (bf_encode f) = Some c' \<and> length c' = length (bf_encode f) \<and>
      (\<forall>j. int_cell c' j = (Suc ^^ count_list (map (\<lambda>i. the (?h i)) [0..<best_hash_nums f]) j) (int_cell (bf_encode f) j))"
  proof (rule counter_loop [where ok = "\<lambda>p n. n + 1 < 2 ^ 32" and good = "\<lambda>c. length c = length (bf_encode f)"])
    fix j k assume "k < count_list (map (\<lambda>i. the (?h i)) [0..<best_hash_nums f]) j"
    then show "(Suc ^^ k) (int_cell (bf_encode f) j) + 1 < 2 ^ 32"
      using room [of j] unfolding pos funpow_Suc_add by simp
  qed (use step in auto)
  then show ?thesis using ab by (auto simp: BFInt_EdgeSet_def pos funpow_Suc_add)
qed

lemma BFInt_delete:
  assumes wf: "wf_bfint f"
  shows "\<exists>c'. BFInt_DeletePair (fst e) (snd e) f = Some (f\<lparr>bf_encode := c'\<rparr>) \<and> length c' = length (bf_encode f) \<and>
    (\<forall>i. int_cell c' i = int_cell (bf_encode f) i - count_list (int_pos f e) i)"
proof -
  obtain a b where ab: "ordered (fst e) (snd e) = (a, b)" by (cases "ordered (fst e) (snd e)")
  let ?h = "hash_nth (BFilter_Hash (bf_hash_size f)) a b"
  let ?step = "\<lambda>i e. do { p \<leftarrow> ?h i; c \<leftarrow> aget e (p mod 2 ^ 32); if c > 0 then aput e (p mod 2 ^ 32) (c - 1) else Some e }"
  note pos = positions_eq [OF ab, of "hash_nth (BFilter_Hash (bf_hash_size f))" "best_hash_nums f", folded int_pos_def]
  have step: "\<exists>c'. ?step i c = Some c' \<and> length c' = length (bf_encode f) \<and>
      (\<forall>j. int_cell c' j = (if j = the (?h i) then int_cell c j - 1 else int_cell c j))"
    if ic: "i \<in> set [0..<best_hash_nums f]" "length c = length (bf_encode f)" for i c
  proof -
    obtain p where p: "?h i = Some p" "p < length c" "p < 2 ^ 32" using int_hash [OF wf, of i a b] ic by auto
    have "int_cell (c[p := c ! p - 1]) j = (if j = p then int_cell c j - 1 else int_cell c j)" if "0 < c ! p" for j
      using p that by (intro int_dec_step) simp_all
    moreover have "int_cell c j = (if j = p then int_cell c j - 1 else int_cell c j)" if "c ! p = 0" for j
      using that by (simp add: int_cell_def)
    ultimately show ?thesis using p ic(2) by (cases "c ! p = 0") (simp_all add: aget_def aput_def word_gt_0)
  qed
  have "\<exists>c'. foldo ?step [0..<best_hash_nums f] (bf_encode f) = Some c' \<and> length c' = length (bf_encode f) \<and>
      (\<forall>j. int_cell c' j = ((\<lambda>n. n - 1) ^^ count_list (map (\<lambda>i. the (?h i)) [0..<best_hash_nums f]) j) (int_cell (bf_encode f) j))"
    by (rule counter_loop [where ok = "\<lambda>p n. True" and good = "\<lambda>c. length c = length (bf_encode f)"]) (use step in auto)
  then obtain c' where c': "foldo ?step [0..<best_hash_nums f] (bf_encode f) = Some c'" "length c' = length (bf_encode f)"
    "\<forall>i. int_cell c' i = int_cell (bf_encode f) i - count_list (int_pos f e) i"
    unfolding pos funpow_minus_1 by blast
  have "BFInt_DeletePair (fst e) (snd e) f = Some (f\<lparr>bf_encode := c'\<rparr>)"
    unfolding BFInt_DeletePair_def ab prod.case Let_def c'(1) bind.bind_lunit ..
  with c'(2,3) show ?thesis by blast
qed

lemma BFInt_test:
  assumes wf: "wf_bfint f"
  shows "BFInt_NEpairTest f (fst e) (snd e) =
    Some (if \<exists>i \<in> set (int_pos f e). int_cell (bf_encode f) i = 0 then NonNeighbor else Uncertain)"
proof -
  obtain a b where ab: "ordered (fst e) (snd e) = (a, b)" by (cases "ordered (fst e) (snd e)")
  let ?h = "hash_nth (BFilter_Hash (bf_hash_size f)) a b"
  have "test_loop ?h (\<lambda>p. do { c \<leftarrow> aget (bf_encode f) p; Some (c \<noteq> 0) }) [0..<best_hash_nums f] =
      Some (if \<forall>i \<in> set [0..<best_hash_nums f]. int_cell (bf_encode f) (the (?h i)) \<noteq> 0 then Uncertain else NonNeighbor)"
  proof (rule test_loop_eq)
    fix i assume "i \<in> set [0..<best_hash_nums f]"
    with int_hash [OF wf, of i a b] obtain p where "?h i = Some p" "p < length (bf_encode f)" by auto
    then show "\<exists>p. ?h i = Some p \<and> do { c \<leftarrow> aget (bf_encode f) p; Some (c \<noteq> 0) } = Some (int_cell (bf_encode f) p \<noteq> 0)"
      by (simp add: aget_def int_cell_def unat_gt_0)
  qed
  with ab show ?thesis by (auto simp: BFInt_NEpairTest_def int_pos_def positions_eq [OF ab])
qed

interpretation bfint: counting_filter wf_bfint "\<lambda>f. int_cell (bf_encode f)" "\<lambda>f. 2 ^ 32" int_pos
  "\<lambda>e. BFInt_EdgeSet (fst e) (snd e)" "\<lambda>e. BFInt_DeletePair (fst e) (snd e)" "\<lambda>f e. BFInt_NEpairTest f (fst e) (snd e)"
proof
  fix f :: "u32 list bfilter" and e :: "u32 \<times> u32"
  assume wf: "wf_bfint f"
  have keep: "wf_bfint (f\<lparr>bf_encode := c\<rparr>) \<and> int_pos (f\<lparr>bf_encode := c\<rparr>) = int_pos f" if "length c = length (bf_encode f)" for c
    using wf that by (auto simp: wf_bfint_def int_pos_def)
  show "\<exists>f'. BFInt_EdgeSet (fst e) (snd e) f = Some f' \<and> wf_bfint f' \<and> int_pos f' = int_pos f \<and> (2::nat) ^ 32 = 2 ^ 32 \<and>
      (\<forall>i. int_cell (bf_encode f') i = int_cell (bf_encode f) i + count_list (int_pos f e) i)"
    if "\<And>i. int_cell (bf_encode f) i + count_list (int_pos f e) i < 2 ^ 32"
    using BFInt_insert [OF wf that] keep by force
  show "\<exists>f'. BFInt_DeletePair (fst e) (snd e) f = Some f' \<and> wf_bfint f' \<and> int_pos f' = int_pos f \<and> (2::nat) ^ 32 = 2 ^ 32 \<and>
      (\<forall>i. int_cell (bf_encode f') i = int_cell (bf_encode f) i - count_list (int_pos f e) i)"
    using BFInt_delete [OF wf, of e] keep by force
  show "BFInt_NEpairTest f (fst e) (snd e) =
      Some (if \<exists>i \<in> set (int_pos f e). int_cell (bf_encode f) i = 0 then NonNeighbor else Uncertain)"
    by (rule BFInt_test [OF wf])
qed

text \<open>
  The counters of \<^verbatim>\<open>CBFilterEncode\<close>: \<open>k\<close> blocks of \<open>s\<close> bits. \<^verbatim>\<open>BlockSet\<close> reaches the first 2048 bits
  only, and the contract needs the whole filter inside them.
\<close>

definition cb_cell :: "nat \<Rightarrow> nat \<Rightarrow> bitset \<Rightarrow> nat \<Rightarrow> nat" where
  "cb_cell k s c i = (if i < k then unat (block_val c (i * s) s) else 0)"

definition cb_pos :: "nat \<Rightarrow> bitset bfilter \<Rightarrow> u32 \<times> u32 \<Rightarrow> nat list" where
  "cb_pos k f = positions (hash_nth (BFilter_Hash k)) (best_hash_nums f)"

definition wf_cb :: "nat \<Rightarrow> nat \<Rightarrow> bitset bfilter \<Rightarrow> bool" where
  "wf_cb k s f \<longleftrightarrow> wf_bs (bf_encode f) \<and> k * s \<le> 8 * bs_size (bf_encode f) \<and> k * s \<le> 2048 \<and> 0 < k \<and> 0 < s \<and> s \<le> 32 \<and>
     (8 \<le> s \<or> s dvd 8) \<and> best_hash_nums f \<le> 60"

definition cb_good :: "nat \<Rightarrow> nat \<Rightarrow> bitset \<Rightarrow> bool" where
  "cb_good k s c \<longleftrightarrow> wf_bs c \<and> k * s \<le> 8 * bs_size c \<and> k * s \<le> 2048 \<and> 0 < s \<and> s \<le> 32 \<and> (8 \<le> s \<or> s dvd 8)"

lemma cb_in_range: "p < k \<Longrightarrow> p * s + s \<le> k * (s :: nat)"
  by (metis Suc_leI add.commute mult_Suc mult_le_mono1)

lemma cb_get:
  assumes "cb_good k s c" "p < k"
  shows "BlockGet c (p * s) s = Some (block_val c (p * s) s)"
  using assms cb_in_range [OF assms(2), of s] readable_dvd [of s 0 p] by (intro BlockGet_correct) (auto simp: cb_good_def)

lemma cb_put:
  assumes "cb_good k s c" "p < k" "unat v < 2 ^ s"
  shows "\<exists>c'. BlockSet c (p * s) s v = Some c' \<and> cb_good k s c' \<and> bs_size c' = bs_size c \<and>
    (\<forall>j. cb_cell k s c' j = (if j = p then unat v else cb_cell k s c j))"
proof -
  have r: "p * s + s \<le> 8 * bs_size c" "p * s < 2048" "0 < s" "s \<le> 32" "wf_bs c"
    using assms(1) cb_in_range [OF assms(2), of s] by (auto simp: cb_good_def)
  let ?c = "block_upd c (p * s) s v"
  have "BlockSet c (p * s) s v = Some ?c" using r assms(3) by simp
  moreover have "cb_good k s ?c" using assms(1) by (simp add: cb_good_def)
  moreover have "cb_cell k s ?c j = (if j = p then unat v else cb_cell k s c j)" for j
  proof (cases "j = p \<or> k \<le> j")
    case True
    with r assms show ?thesis by (auto simp: cb_cell_def)
  next
    case False
    then have "j * s + s \<le> p * s \<or> p * s + s \<le> j * s" using cb_in_range [of j p s] cb_in_range [of p j s] by linarith
    moreover have "j * s + s \<le> 8 * bs_size c" using False assms(1) cb_in_range [of j k s] by (auto simp: cb_good_def)
    ultimately show ?thesis using False by (simp add: cb_cell_def)
  qed
  ultimately show ?thesis by simp
qed

lemma cb_hash:
  assumes "cb_good k s c" "0 < k" "i < n" "n \<le> 60"
  shows "\<exists>p. hash_nth (BFilter_Hash k) a b i = Some p \<and> hash_nth (CBF_Hash k s) a b i = Some (p * s) \<and> p < k"
proof -
  have "\<exists>p. hash_nth (BFilter_Hash k) a b i = Some p \<and> p < k"
    using assms by (intro hash_nth_total) (auto intro: BFilter_Hash_total)
  then obtain p where p: "hash_nth (BFilter_Hash k) a b i = Some p" "p < k" by blast
  have "p * s < 2 ^ 64" using assms(1) cb_in_range [OF p(2), of s] by (simp add: cb_good_def)
  with p show ?thesis by (auto simp: hash_nth_def CBF_Hash_def split: bind_splits)
qed

text \<open>One loop for both updates: \<open>u\<close> is the new count.\<close>

lemma cb_loop:
  assumes wf: "wf_cb k s f"
    and u: "\<And>x. ok (unat x) \<Longrightarrow> unat (u x) = g (unat x)"
    and bound: "\<And>n. ok n \<Longrightarrow> n < 2 ^ s \<Longrightarrow> g n < 2 ^ s"
    and room: "\<And>j m. m < count_list (map (\<lambda>i. the (hash_nth (BFilter_Hash k) a b i)) [0..<best_hash_nums f]) j \<Longrightarrow>
      ok ((g ^^ m) (cb_cell k s (bf_encode f) j))"
  shows "\<exists>c'. foldo (\<lambda>i e. do { p \<leftarrow> hash_nth (CBF_Hash k s) a b i; c \<leftarrow> BlockGet e p s; BlockSet e p s (u c) })
      [0..<best_hash_nums f] (bf_encode f) = Some c' \<and> (cb_good k s c' \<and> bs_size c' = bs_size (bf_encode f)) \<and>
    (\<forall>j. cb_cell k s c' j = (g ^^ count_list (map (\<lambda>i. the (hash_nth (BFilter_Hash k) a b i)) [0..<best_hash_nums f]) j)
      (cb_cell k s (bf_encode f) j))"
proof (rule counter_loop [where ok = "\<lambda>p. ok" and good = "\<lambda>c. cb_good k s c \<and> bs_size c = bs_size (bf_encode f)"])
  let ?h = "hash_nth (BFilter_Hash k) a b"
  fix i c
  assume i: "i \<in> set [0..<best_hash_nums f]" and c: "cb_good k s c \<and> bs_size c = bs_size (bf_encode f)"
    and ok: "ok (cb_cell k s c (the (?h i)))"
  obtain p where p: "?h i = Some p" "hash_nth (CBF_Hash k s) a b i = Some (p * s)" "p < k"
    using cb_hash [of k s c i "best_hash_nums f" a b] c i wf by (auto simp: wf_cb_def)
  let ?v = "block_val c (p * s) s"
  have ok': "ok (unat ?v)" using ok p by (simp add: cb_cell_def)
  have v: "unat (u ?v) = g (unat ?v)" "unat (u ?v) < 2 ^ s" using u [OF ok'] bound [OF ok'] by simp_all
  from cb_put [OF conjunct1 [OF c] p(3) v(2)] obtain c' where c': "BlockSet c (p * s) s (u ?v) = Some c'" "cb_good k s c'"
    "bs_size c' = bs_size c" "\<forall>j. cb_cell k s c' j = (if j = p then unat (u ?v) else cb_cell k s c j)" by blast
  have "cb_cell k s c' j = (if j = p then g (cb_cell k s c j) else cb_cell k s c j)" for j
    using c'(4) v(1) p(3) by (simp add: cb_cell_def)
  then show "\<exists>c'. do { p \<leftarrow> hash_nth (CBF_Hash k s) a b i; x \<leftarrow> BlockGet c p s; BlockSet c p s (u x) } = Some c' \<and>
      (cb_good k s c' \<and> bs_size c' = bs_size (bf_encode f)) \<and>
      (\<forall>j. cb_cell k s c' j = (if j = the (?h i) then g (cb_cell k s c j) else cb_cell k s c j))"
    using c' c p cb_get [OF conjunct1 [OF c] p(3)] by simp
qed (use wf room in \<open>auto simp: wf_cb_def cb_good_def\<close>)

lemma CBF_insert:
  assumes wf: "wf_cb k s f" and room: "\<And>i. cb_cell k s (bf_encode f) i + count_list (cb_pos k f e) i < 2 ^ s"
  shows "\<exists>c'. CBF_EdgeSet k s (fst e) (snd e) f = Some (f\<lparr>bf_encode := c'\<rparr>) \<and> cb_good k s c' \<and> bs_size c' = bs_size (bf_encode f) \<and>
    (\<forall>i. cb_cell k s c' i = cb_cell k s (bf_encode f) i + count_list (cb_pos k f e) i)"
proof -
  obtain a b where ab: "ordered (fst e) (snd e) = (a, b)" by (cases "ordered (fst e) (snd e)")
  note pos = positions_eq [OF ab, of "hash_nth (BFilter_Hash k)" "best_hash_nums f", folded cb_pos_def]
  have s: "(2::nat) ^ s \<le> 2 ^ 32" using wf by (intro power_increasing) (auto simp: wf_cb_def)
  have "\<exists>c'. foldo (\<lambda>i e. do { p \<leftarrow> hash_nth (CBF_Hash k s) a b i; c \<leftarrow> BlockGet e p s; BlockSet e p s (c + 1) })
      [0..<best_hash_nums f] (bf_encode f) = Some c' \<and> (cb_good k s c' \<and> bs_size c' = bs_size (bf_encode f)) \<and>
    (\<forall>j. cb_cell k s c' j = (Suc ^^ count_list (map (\<lambda>i. the (hash_nth (BFilter_Hash k) a b i)) [0..<best_hash_nums f]) j)
      (cb_cell k s (bf_encode f) j))"
  proof (rule cb_loop [OF wf, where ok = "\<lambda>n. n + 1 < 2 ^ s"])
    fix x :: u32 assume "unat x + 1 < 2 ^ s"
    then show "unat (x + 1) = Suc (unat x)" using unat_plus_1 [of x] s by simp
  next
    fix j m assume "m < count_list (map (\<lambda>i. the (hash_nth (BFilter_Hash k) a b i)) [0..<best_hash_nums f]) j"
    then show "(Suc ^^ m) (cb_cell k s (bf_encode f) j) + 1 < 2 ^ s" using room [of j] unfolding pos funpow_Suc_add by simp
  qed simp
  then show ?thesis using ab by (auto simp: CBF_EdgeSet_def pos funpow_Suc_add)
qed

lemma CBF_delete:
  assumes wf: "wf_cb k s f" and room: "\<And>i. count_list (cb_pos k f e) i \<le> cb_cell k s (bf_encode f) i"
  shows "\<exists>c'. CBF_DeletePair k s (fst e) (snd e) f = Some (f\<lparr>bf_encode := c'\<rparr>) \<and> cb_good k s c' \<and> bs_size c' = bs_size (bf_encode f) \<and>
    (\<forall>i. cb_cell k s c' i = cb_cell k s (bf_encode f) i - count_list (cb_pos k f e) i)"
proof -
  obtain a b where ab: "ordered (fst e) (snd e) = (a, b)" by (cases "ordered (fst e) (snd e)")
  note pos = positions_eq [OF ab, of "hash_nth (BFilter_Hash k)" "best_hash_nums f", folded cb_pos_def]
  have "\<exists>c'. foldo (\<lambda>i e. do { p \<leftarrow> hash_nth (CBF_Hash k s) a b i; c \<leftarrow> BlockGet e p s; BlockSet e p s (c - 1) })
      [0..<best_hash_nums f] (bf_encode f) = Some c' \<and> (cb_good k s c' \<and> bs_size c' = bs_size (bf_encode f)) \<and>
    (\<forall>j. cb_cell k s c' j = ((\<lambda>n. n - 1) ^^ count_list (map (\<lambda>i. the (hash_nth (BFilter_Hash k) a b i)) [0..<best_hash_nums f]) j)
      (cb_cell k s (bf_encode f) j))"
  proof (rule cb_loop [OF wf, where ok = "\<lambda>n. 0 < n"])
    fix x :: u32 assume "0 < unat x"
    then show "unat (x - 1) = unat x - 1" by (intro unat_minus_1) (simp add: unat_gt_0 word_gt_0)
  next
    fix j m assume "m < count_list (map (\<lambda>i. the (hash_nth (BFilter_Hash k) a b i)) [0..<best_hash_nums f]) j"
    then show "0 < ((\<lambda>n. n - 1) ^^ m) (cb_cell k s (bf_encode f) j)" using room [of j] unfolding pos funpow_minus_1 by simp
  qed simp
  then obtain c' where c': "foldo (\<lambda>i e. do { p \<leftarrow> hash_nth (CBF_Hash k s) a b i; c \<leftarrow> BlockGet e p s; BlockSet e p s (c - 1) })
      [0..<best_hash_nums f] (bf_encode f) = Some c'" "cb_good k s c'" "bs_size c' = bs_size (bf_encode f)"
    "\<forall>i. cb_cell k s c' i = cb_cell k s (bf_encode f) i - count_list (cb_pos k f e) i"
    unfolding pos funpow_minus_1 by blast
  have "CBF_DeletePair k s (fst e) (snd e) f = Some (f\<lparr>bf_encode := c'\<rparr>)"
    unfolding CBF_DeletePair_def ab prod.case Let_def c'(1) bind.bind_lunit ..
  with c' show ?thesis by blast
qed

lemma CBF_test:
  assumes wf: "wf_cb k s f"
  shows "CBF_NEpairTest k s f (fst e) (snd e) =
    Some (if \<exists>i \<in> set (cb_pos k f e). cb_cell k s (bf_encode f) i = 0 then NonNeighbor else Uncertain)"
proof -
  obtain a b where ab: "ordered (fst e) (snd e) = (a, b)" by (cases "ordered (fst e) (snd e)")
  let ?h = "hash_nth (CBF_Hash k s) a b" and ?g = "hash_nth (BFilter_Hash k) a b"
  have good: "cb_good k s (bf_encode f)" using wf by (simp add: wf_cb_def cb_good_def)
  have h: "\<exists>p. ?g i = Some p \<and> ?h i = Some (p * s) \<and> p < k" if "i \<in> set [0..<best_hash_nums f]" for i
    using that wf by (intro cb_hash [OF good]) (auto simp: wf_cb_def)
  have "test_loop ?h (\<lambda>p. do { c \<leftarrow> BlockGet (bf_encode f) p s; Some (c \<noteq> 0) }) [0..<best_hash_nums f] =
      Some (if \<forall>i \<in> set [0..<best_hash_nums f]. block_val (bf_encode f) (the (?h i)) s \<noteq> 0 then Uncertain else NonNeighbor)"
  proof (rule test_loop_eq)
    fix i assume "i \<in> set [0..<best_hash_nums f]"
    with h [of i] obtain p where "?h i = Some (p * s)" "p < k" by auto
    with cb_get [OF good] show "\<exists>p. ?h i = Some p \<and> do { c \<leftarrow> BlockGet (bf_encode f) p s; Some (c \<noteq> 0) } =
      Some (block_val (bf_encode f) p s \<noteq> 0)" by simp
  qed
  moreover have "block_val (bf_encode f) (the (?h i)) s \<noteq> 0 \<longleftrightarrow> cb_cell k s (bf_encode f) (the (?g i)) \<noteq> 0"
    if "i \<in> set [0..<best_hash_nums f]" for i
    using h [OF that] by (auto simp: cb_cell_def unat_gt_0)
  ultimately show ?thesis using ab by (auto simp: CBF_NEpairTest_def cb_pos_def positions_eq [OF ab])
qed

interpretation cbf: counting_filter "wf_cb k s" "\<lambda>f. cb_cell k s (bf_encode f)" "\<lambda>f. 2 ^ s" "cb_pos k"
  "\<lambda>e. CBF_EdgeSet k s (fst e) (snd e)" "\<lambda>e. CBF_DeletePair k s (fst e) (snd e)" "\<lambda>f e. CBF_NEpairTest k s f (fst e) (snd e)"
  for k s
proof
  fix f :: "bitset bfilter" and e :: "u32 \<times> u32"
  assume wf: "wf_cb k s f"
  have keep: "wf_cb k s (f\<lparr>bf_encode := c\<rparr>) \<and> cb_pos k (f\<lparr>bf_encode := c\<rparr>) = cb_pos k f"
    if "cb_good k s c" "bs_size c = bs_size (bf_encode f)" for c
    using wf that by (auto simp: wf_cb_def cb_good_def cb_pos_def)
  show "\<exists>f'. CBF_EdgeSet k s (fst e) (snd e) f = Some f' \<and> wf_cb k s f' \<and> cb_pos k f' = cb_pos k f \<and> (2::nat) ^ s = 2 ^ s \<and>
      (\<forall>i. cb_cell k s (bf_encode f') i = cb_cell k s (bf_encode f) i + count_list (cb_pos k f e) i)"
    if "\<And>i. cb_cell k s (bf_encode f) i + count_list (cb_pos k f e) i < 2 ^ s"
    using CBF_insert [OF wf that] keep by force
  show "\<exists>f'. CBF_DeletePair k s (fst e) (snd e) f = Some f' \<and> wf_cb k s f' \<and> cb_pos k f' = cb_pos k f \<and> (2::nat) ^ s = 2 ^ s \<and>
      (\<forall>i. cb_cell k s (bf_encode f') i = cb_cell k s (bf_encode f) i - count_list (cb_pos k f e) i)"
    if "\<And>i. count_list (cb_pos k f e) i \<le> cb_cell k s (bf_encode f) i \<and> cb_cell k s (bf_encode f) i < 2 ^ s"
    using CBF_delete [OF wf, of e] that keep by force
  show "CBF_NEpairTest k s f (fst e) (snd e) =
      Some (if \<exists>i \<in> set (cb_pos k f e). cb_cell k s (bf_encode f) i = 0 then NonNeighbor else Uncertain)"
    by (rule CBF_test [OF wf])
qed

end
