(* ===== verification/Bloom_Spec.thy ===== *)
theory Bloom_Spec
  imports Bloom_Laws Bit_Set_Words
begin

text \<open>The properties of the Bloom filters over the edges.\<close>

text \<open>The order of the vertices of a pair does not matter to any of the filters.\<close>

definition norm_edge :: "u32 \<times> u32 \<Rightarrow> u32 \<times> u32" where
  "norm_edge e = ordered (fst e) (snd e)"

lemma ordered_idem [simp]: "ordered (fst (ordered a b)) (snd (ordered a b)) = ordered a b"
  by (auto simp: ordered_def not_less)

lemma BFInt_norm:
  "BFInt_EdgeSet (fst (norm_edge e)) (snd (norm_edge e)) = BFInt_EdgeSet (fst e) (snd e)"
  "BFInt_DeletePair (fst (norm_edge e)) (snd (norm_edge e)) = BFInt_DeletePair (fst e) (snd e)"
  "BFInt_NEpairTest f (fst (norm_edge e)) (snd (norm_edge e)) = BFInt_NEpairTest f (fst e) (snd e)"
  by (simp_all add: norm_edge_def BFInt_EdgeSet_def BFInt_DeletePair_def BFInt_NEpairTest_def fun_eq_iff)

lemma CBF_norm:
  "CBF_EdgeSet k s (fst (norm_edge e)) (snd (norm_edge e)) = CBF_EdgeSet k s (fst e) (snd e)"
  "CBF_DeletePair k s (fst (norm_edge e)) (snd (norm_edge e)) = CBF_DeletePair k s (fst e) (snd e)"
  "CBF_NEpairTest k s f (fst (norm_edge e)) (snd (norm_edge e)) = CBF_NEpairTest k s f (fst e) (snd e)"
  by (simp_all add: norm_edge_def CBF_EdgeSet_def CBF_DeletePair_def CBF_NEpairTest_def fun_eq_iff)

lemma run_ops_norm:
  assumes "\<And>e. ins (norm_edge e) = ins e" "\<And>e. del (norm_edge e) = del e"
  shows "run_ops ins del (map (map_filter_op norm_edge) ops) f = run_ops ins del ops f"
proof (induction ops arbitrary: f)
  case (Cons op ops)
  have "run_ops ins del (map (map_filter_op norm_edge) ops) = run_ops ins del ops" by (rule ext) (rule Cons.IH)
  then show ?case using assms by (cases op) simp_all
qed simp

lemma present_size: "present ops E = Some E' \<Longrightarrow> size E' \<le> size E + length ops"
proof (induction ops E rule: present.induct)
  case (3 e ops E)
  then show ?case by (cases "e \<in># E") (auto simp: size_Diff_singleton)
qed auto

lemma present_Ins: "present (map Ins es) E = Some (mset es + E)"
  by (induction es arbitrary: E) simp_all

lemma run_ops_Ins: "run_ops ins del (map Ins es) f = foldo ins es f"
proof (induction es arbitrary: f)
  case (Cons e es)
  have "run_ops ins del (map Ins es) = foldo ins es" by (rule ext) (rule Cons.IH)
  then show ?case by simp
qed simp

lemma filter_arrays:
  "wf_bs (bf_encode (BFilterBitEncode cfg n))" "8 * bs_size (bf_encode (BFilterBitEncode cfg n)) = bf_hash_size (BFilterBitEncode cfg n)"
  "bf_hash_size (BFilterBitEncode cfg n) = VERTEX_SIZE cfg * K_SIZE cfg * 32" "best_hash_nums (BFilterBitEncode cfg n) = n"
  by (simp_all add: BFilterBitEncode_def)

definition bloom_demo :: config where
  "bloom_demo = \<lparr>K_SIZE = 2, VERTEX_SIZE = 10, DEGREE = 4, B_FILTER_ENCODE_BITS = 20,
     PER_ENCODE_BIT_SIZE = 64, VERTEX_BIT_SIZE = 4, MAX_K_CORE_SIZE = 15, LOG_K = 4,
     MAX_INTEGER_SIZE = 14, BLOCK_BEGIN_INDEX = 7, BLOCK_NUMS = 1, ELEMENT_SIZE = 5,
     BIT_HASH_BEST_NUMS = 3, INT_HASH_BEST_NUMS = 2, COUNT_HASH_BEST_NUMS = 2, PREFIX_BIT_SIZE = 7, HSIMD = False\<rparr>"

lemma bloom_demo_fields [simp]:
  "K_SIZE bloom_demo = 2" "VERTEX_SIZE bloom_demo = 10" "ELEMENT_SIZE bloom_demo = 5" "BIT_HASH_BEST_NUMS bloom_demo = 3"
  "INT_HASH_BEST_NUMS bloom_demo = 2" "COUNT_HASH_BEST_NUMS bloom_demo = 2"
  by (simp_all add: bloom_demo_def)

definition demo_ops :: "(u32 \<times> u32) filter_op list" where
  "demo_ops = [Ins (3, 7), Ins (9, 2), Del (7, 3)]"

lemma demo_present: "present (map (map_filter_op norm_edge) demo_ops) {#} = Some {#(2, 9)#}" "length demo_ops = 3"
  "norm_edge (9, 2) \<in># {#(2, 9)#}"
  by (simp_all add: demo_ops_def norm_edge_def ordered_def)

text \<open>C24. The bit filter has no false negatives: after any sequence of insertions into the new filter the
  test of every pair returns, it never says \<^verbatim>\<open>Neighbor\<close>, and it says \<^verbatim>\<open>Uncertain\<close> for every inserted
  edge, in either order of its vertices.\<close>

theorem bit_filter_no_false_negatives:
  assumes "0 < VERTEX_SIZE cfg" "0 < K_SIZE cfg" "n \<le> 60"
  shows "\<exists>f. foldo (\<lambda>e. BFBit_InsertPair (fst e) (snd e)) es (BFilterBitEncode cfg n) = Some f \<and>
    (\<forall>a b. \<exists>r. BFBit_NEpairTest f a b = Some r \<and> r \<noteq> Neighbor \<and> ((a, b) \<in> set es \<or> (b, a) \<in> set es \<longrightarrow> r = Uncertain))"
proof -
  have "wf_bfbit (BFilterBitEncode cfg n)" using assms filter_arrays [of cfg n] by (simp add: wf_bfbit_def)
  from bfbit.no_false_negatives [OF this, of es] obtain f where
    f: "foldo (\<lambda>e. BFBit_EdgeSet (fst e) (snd e)) es (BFilterBitEncode cfg n) = Some f"
    "\<And>e. \<exists>r. BFBit_NEpairTest f (fst e) (snd e) = Some r \<and> r \<noteq> Neighbor \<and> (e \<in> set es \<longrightarrow> r = Uncertain)" by blast
  have "BFBit_NEpairTest f b a = BFBit_NEpairTest f a b" for a b by (auto simp: BFBit_NEpairTest_def ordered_def not_less)
  then have "\<exists>r. BFBit_NEpairTest f a b = Some r \<and> r \<noteq> Neighbor \<and>
      ((a, b) \<in> set es \<or> (b, a) \<in> set es \<longrightarrow> r = Uncertain)" for a b
    using f(2) [of "(a, b)"] f(2) [of "(b, a)"] by auto
  with f(1) show ?thesis unfolding BFBit_InsertPair_def by blast
qed

lemma bit_filter_no_false_negatives_witness:
  "\<exists>f. foldo (\<lambda>e. BFBit_InsertPair (fst e) (snd e)) [(3, 7)] (BFilterBitEncode bloom_demo 3) = Some f \<and>
     BFBit_NEpairTest f 7 3 = Some Uncertain"
  using bit_filter_no_false_negatives [of bloom_demo 3 "[(3, 7)]"] by (auto simp: bloom_demo_def)

text \<open>The same for the filter in blocks of 512 bits, with the number of blocks of the configuration.\<close>

theorem blocked_filter_no_false_negatives:
  assumes "0 < n" "n * BLOCK_SIZE \<le> VERTEX_SIZE cfg * K_SIZE cfg * 32" "n < 2 ^ 32" "BIT_HASH_BEST_NUMS cfg \<le> 60"
  shows "\<exists>f. foldo (\<lambda>e. BB_InsertPair BLOCK_SIZE n (fst e) (snd e)) es (BBFilterEncode cfg) = Some f \<and>
    (\<forall>a b. \<exists>r. BB_NEpairTest BLOCK_SIZE n f a b = Some r \<and> r \<noteq> Neighbor \<and>
      ((a, b) \<in> set es \<or> (b, a) \<in> set es \<longrightarrow> r = Uncertain))"
proof -
  have "wf_bb BLOCK_SIZE n (BBFilterEncode cfg)"
    using assms filter_arrays [of cfg "BIT_HASH_BEST_NUMS cfg"] by (simp add: wf_bb_def BBFilterEncode_def BLOCK_SIZE_def)
  from bbf.no_false_negatives [OF this, of es] obtain f where
    f: "foldo (\<lambda>e. BB_EdgeSet BLOCK_SIZE n (fst e) (snd e)) es (BBFilterEncode cfg) = Some f"
    "\<And>e. \<exists>r. BB_NEpairTest BLOCK_SIZE n f (fst e) (snd e) = Some r \<and> r \<noteq> Neighbor \<and> (e \<in> set es \<longrightarrow> r = Uncertain)" by blast
  have "BB_NEpairTest BLOCK_SIZE n f b a = BB_NEpairTest BLOCK_SIZE n f a b" for a b by (auto simp: BB_NEpairTest_def ordered_def not_less)
  then have "\<exists>r. BB_NEpairTest BLOCK_SIZE n f a b = Some r \<and> r \<noteq> Neighbor \<and>
      ((a, b) \<in> set es \<or> (b, a) \<in> set es \<longrightarrow> r = Uncertain)" for a b
    using f(2) [of "(a, b)"] f(2) [of "(b, a)"] by auto
  with f(1) show ?thesis unfolding BB_InsertPair_def by blast
qed

lemma blocked_filter_no_false_negatives_witness:
  "\<exists>f. foldo (\<lambda>e. BB_InsertPair BLOCK_SIZE 1 (fst e) (snd e)) [(3, 7), (9, 2)] (BBFilterEncode bloom_demo) = Some f \<and>
     BB_NEpairTest BLOCK_SIZE 1 f 2 9 = Some Uncertain"
  using blocked_filter_no_false_negatives [of 1 bloom_demo "[(3, 7), (9, 2)]"] by (auto simp: bloom_demo_def BLOCK_SIZE_def)

lemma run_ops_preserves:
  assumes "\<And>e f f'. ins e f = Some f' \<Longrightarrow> g f' = g f" "\<And>e f f'. del e f = Some f' \<Longrightarrow> g f' = g f" "run_ops ins del ops f = Some f'"
  shows "g f' = g f"
  using assms(3)
proof (induction ops arbitrary: f)
  case (Cons op ops)
  then show ?case using assms(1,2) by (cases op) (auto split: bind_splits)
qed simp

lemma BFInt_run_fields:
  assumes "run_ops (\<lambda>e. BFInt_EdgeSet (fst e) (snd e)) (\<lambda>e. BFInt_DeletePair (fst e) (snd e)) ops f = Some f'"
  shows "best_hash_nums f' = best_hash_nums f \<and> bf_hash_size f' = bf_hash_size f"
proof -
  have "(best_hash_nums f', bf_hash_size f') = (best_hash_nums f, bf_hash_size f)"
    by (rule run_ops_preserves [where g = "\<lambda>f. (best_hash_nums f, bf_hash_size f)", OF _ _ assms])
      (auto simp: BFInt_EdgeSet_def BFInt_DeletePair_def Let_def split: bind_splits prod.splits)
  then show ?thesis by simp
qed

lemma bfint_holds_unique:
  assumes "bfint.holds f E" "bfint.holds f' E" "best_hash_nums f = best_hash_nums f'" "bf_hash_size f = bf_hash_size f'"
  shows "f = f'"
proof -
  have "int_pos f = int_pos f'" using assms(3,4) by (simp add: int_pos_def)
  then have "int_cell (bf_encode f) i = int_cell (bf_encode f') i" for i using assms(1,2) by (simp add: bfint.holds_def)
  moreover have "length (bf_encode f) = length (bf_encode f')" using assms by (simp add: bfint.holds_def wf_bfint_def)
  ultimately have "bf_encode f = bf_encode f'" by (metis int_cell_def nth_equalityI word_unat_eq_iff)
  with assms(3,4) show ?thesis by simp
qed

text \<open>C25. The counting filter is exact under deletions: after any sequence of insertions and of deletions of
  edges that are present (\<open>present\<close>), within the range of the counters, the filter is the one obtained by
  inserting just the edges that remain, in any order, and every remaining edge tests \<^verbatim>\<open>Uncertain\<close>.\<close>

theorem int_filter_exact:
  assumes "0 < VERTEX_SIZE cfg" "0 < K_SIZE cfg" "VERTEX_SIZE cfg * K_SIZE cfg \<le> 2 ^ 32" "INT_HASH_BEST_NUMS cfg \<le> 60"
    "present (map (map_filter_op norm_edge) ops) {#} = Some E" "INT_HASH_BEST_NUMS cfg * length ops < 2 ^ 32"
  shows "\<exists>f. run_ops (\<lambda>e. BFInt_InsertPair (fst e) (snd e)) (\<lambda>e. BFInt_DeletePair (fst e) (snd e)) ops (BFilterIntEncode cfg) = Some f \<and>
    (\<forall>es. mset es = E \<longrightarrow> foldo (\<lambda>e. BFInt_InsertPair (fst e) (snd e)) es (BFilterIntEncode cfg) = Some f) \<and>
    (\<forall>a b. norm_edge (a, b) \<in># E \<longrightarrow> BFInt_NEpairTest f a b = Some Uncertain)"
proof -
  let ?f0 = "BFilterIntEncode cfg" and ?ins = "\<lambda>e. BFInt_EdgeSet (fst e) (snd e)" and ?del = "\<lambda>e. BFInt_DeletePair (fst e) (snd e)"
  have holds: "bfint.holds ?f0 {#}"
    using assms(1-4) by (simp add: bfint.holds_def wf_bfint_def BFilterIntEncode_def int_cell_def)
  have len: "length (int_pos ?f0 e) \<le> INT_HASH_BEST_NUMS cfg" for e by (simp add: int_pos_def BFilterIntEncode_def)
  have run: "\<exists>f. run_ops ?ins ?del ops' ?f0 = Some f \<and> bfint.holds f E"
    if "present ops' {#} = Some E" "length ops' \<le> length ops" for ops'
  proof -
    have "INT_HASH_BEST_NUMS cfg * (size {#} + length ops') < 2 ^ 32"
      using assms(6) le_less_trans [OF mult_le_mono2 [OF that(2), of "INT_HASH_BEST_NUMS cfg"]] by simp
    from bfint.run_law [OF holds that(1) len this] show ?thesis by blast
  qed
  from run [OF assms(5)] obtain f where f: "run_ops ?ins ?del (map (map_filter_op norm_edge) ops) ?f0 = Some f" "bfint.holds f E"
    by auto
  have f': "run_ops ?ins ?del ops ?f0 = Some f" using f(1) run_ops_norm [of ?ins ?del ops ?f0] by (simp add: BFInt_norm)
  have "foldo ?ins es ?f0 = Some f" if es: "mset es = E" for es
  proof -
    have "length es \<le> length ops" using present_size [OF assms(5)] es by (auto simp flip: size_mset)
    then obtain g where g: "run_ops ?ins ?del (map Ins es) ?f0 = Some g" "bfint.holds g E"
      using run [of "map Ins es"] es by (auto simp: present_Ins)
    have "g = f" using bfint_holds_unique [OF g(2) f(2)] BFInt_run_fields [OF g(1)] BFInt_run_fields [OF f(1)] by simp
    with g(1) show ?thesis by (simp add: run_ops_Ins)
  qed
  moreover have "BFInt_NEpairTest f a b = Some Uncertain" if "norm_edge (a, b) \<in># E" for a b
    using bfint.held_edge_uncertain [OF f(2) that] BFInt_norm(3) [of f "(a, b)"] by simp
  ultimately show ?thesis using f' unfolding BFInt_InsertPair_def by blast
qed

lemma int_filter_exact_witness:
  "\<exists>f. run_ops (\<lambda>e. BFInt_InsertPair (fst e) (snd e)) (\<lambda>e. BFInt_DeletePair (fst e) (snd e)) demo_ops (BFilterIntEncode bloom_demo) = Some f \<and>
    foldo (\<lambda>e. BFInt_InsertPair (fst e) (snd e)) [(2, 9)] (BFilterIntEncode bloom_demo) = Some f \<and>
    BFInt_NEpairTest f 9 2 = Some Uncertain"
proof -
  from int_filter_exact [of bloom_demo, OF _ _ _ _ demo_present(1)] demo_present(2) obtain f where
    "run_ops (\<lambda>e. BFInt_InsertPair (fst e) (snd e)) (\<lambda>e. BFInt_DeletePair (fst e) (snd e)) demo_ops (BFilterIntEncode bloom_demo) = Some f"
    "\<And>es. mset es = {#(2, 9)#} \<Longrightarrow> foldo (\<lambda>e. BFInt_InsertPair (fst e) (snd e)) es (BFilterIntEncode bloom_demo) = Some f"
    "\<And>a b. norm_edge (a, b) \<in># {#(2, 9)#} \<Longrightarrow> BFInt_NEpairTest f a b = Some Uncertain" by auto
  from this(1) this(2) [of "[(2, 9)]"] this(3) [OF demo_present(3)] show ?thesis by simp
qed

lemma block_val_new:
  assumes "b + n \<le> 8 * (m div 8)"
  shows "block_val (BitSetSIMD m) b n = 0"
proof (rule bit_word_eqI)
  fix k :: nat
  have "k < n \<Longrightarrow> b + n - 1 - k < 8 * (m div 8)" using assms by linarith
  then show "bit (block_val (BitSetSIMD m) b n) k = bit (0 :: u32) k" by (auto simp: bit_block_val)
qed

text \<open>The filter of small counters: as long as the whole filter lies in the first 2048 bits and its counters can be
  read (they have eight bits or more, or divide a byte), insertions and deletions of present edges leave every remaining edge \<^verbatim>\<open>Uncertain\<close>.\<close>

theorem small_counter_filter_exact:
  assumes "0 < ELEMENT_SIZE cfg" "ELEMENT_SIZE cfg \<le> 32" "CBF_element_nums cfg = Some k" "0 < k"
    "VERTEX_SIZE cfg * K_SIZE cfg * 32 \<le> 2048" "COUNT_HASH_BEST_NUMS cfg \<le> 60"
    "present (map (map_filter_op norm_edge) ops) {#} = Some E" "COUNT_HASH_BEST_NUMS cfg * length ops < 2 ^ ELEMENT_SIZE cfg"
    "8 \<le> ELEMENT_SIZE cfg \<or> ELEMENT_SIZE cfg dvd 8"
  shows "\<exists>f. run_ops (\<lambda>e. CBF_InsertPair k (ELEMENT_SIZE cfg) (fst e) (snd e)) (\<lambda>e. CBF_DeletePair k (ELEMENT_SIZE cfg) (fst e) (snd e))
      ops (CBFilterEncode cfg) = Some f \<and>
    (\<forall>a b. norm_edge (a, b) \<in># E \<longrightarrow> CBF_NEpairTest k (ELEMENT_SIZE cfg) f a b = Some Uncertain) \<and>
    (E = {#} \<longrightarrow> (\<forall>a b. 0 < COUNT_HASH_BEST_NUMS cfg \<longrightarrow> CBF_NEpairTest k (ELEMENT_SIZE cfg) f a b = Some NonNeighbor))"
proof -
  let ?s = "ELEMENT_SIZE cfg" and ?f0 = "CBFilterEncode cfg"
  let ?ins = "\<lambda>e. CBF_EdgeSet k ?s (fst e) (snd e)" and ?del = "\<lambda>e. CBF_DeletePair k ?s (fst e) (snd e)"
  have k: "k * ?s \<le> VERTEX_SIZE cfg * K_SIZE cfg * 32"
    using assms(1,3) by (auto simp: CBF_element_nums_def cdiv_def split: if_splits)
  have wf: "wf_cb k ?s ?f0" using k le_trans [OF k assms(5)] assms(1,2,4,6,9)
    unfolding wf_cb_def CBFilterEncode_def filter_arrays by (simp add: filter_arrays)
  have "cb_cell k ?s (bf_encode ?f0) i = 0" for i
  proof (cases "i < k")
    case True
    with k cb_in_range [of i k ?s] have "i * ?s + ?s \<le> VERTEX_SIZE cfg * K_SIZE cfg * 32" by simp
    then have "block_val (BitSetSIMD (VERTEX_SIZE cfg * K_SIZE cfg * 32)) (i * ?s) ?s = 0"
      by (intro block_val_new) (simp add: mult.commute)
    then show ?thesis by (simp add: cb_cell_def CBFilterEncode_def BFilterBitEncode_def)
  qed (simp add: cb_cell_def)
  with wf have holds: "cbf.holds k ?s ?f0 {#}" by (simp add: cbf.holds_def)
  have len: "length (cb_pos k ?f0 e) \<le> COUNT_HASH_BEST_NUMS cfg" for e by (simp add: cb_pos_def CBFilterEncode_def filter_arrays)
  from cbf.run_law [OF holds assms(7) len] assms(8) obtain f where
    f: "run_ops ?ins ?del (map (map_filter_op norm_edge) ops) ?f0 = Some f" "cb_pos k f = cb_pos k ?f0" "cbf.holds k ?s f E" by auto
  have f': "run_ops ?ins ?del ops ?f0 = Some f" using f(1) run_ops_norm [of ?ins ?del ops ?f0] by (simp add: CBF_norm)
  have "CBF_NEpairTest k ?s f a b = Some Uncertain" if "norm_edge (a, b) \<in># E" for a b
    using cbf.held_edge_uncertain [OF f(3) that] CBF_norm(3) [of k ?s f "(a, b)"] by simp
  moreover have "CBF_NEpairTest k ?s f a b = Some NonNeighbor" if "E = {#}" "0 < COUNT_HASH_BEST_NUMS cfg" for a b
  proof -
    have "wf_cb k ?s f" "\<And>i. cb_cell k ?s (bf_encode f) i = 0" using f(3) that(1) by (simp_all add: cbf.holds_def)
    moreover have "length (cb_pos k ?f0 (a, b)) = COUNT_HASH_BEST_NUMS cfg" by (simp add: cb_pos_def CBFilterEncode_def filter_arrays)
    then have "cb_pos k f (a, b) \<noteq> []" using that(2) unfolding f(2) by auto
    ultimately show ?thesis using CBF_test [of k ?s f "(a, b)"] by (simp add: ex_in_conv)
  qed
  ultimately show ?thesis using f' unfolding CBF_InsertPair_def by blast
qed

lemma small_counter_filter_exact_witness:
  "\<exists>f. run_ops (\<lambda>e. CBF_InsertPair 80 8 (fst e) (snd e)) (\<lambda>e. CBF_DeletePair 80 8 (fst e) (snd e)) demo_ops (CBFilterEncode (bloom_demo\<lparr>DEGREE := 30, ELEMENT_SIZE := 8\<rparr>)) = Some f \<and>
     CBF_NEpairTest 80 8 f 9 2 = Some Uncertain"
proof -
  from small_counter_filter_exact [of "bloom_demo\<lparr>DEGREE := 30, ELEMENT_SIZE := 8\<rparr>" 80, OF _ _ _ _ _ _ demo_present(1)] demo_present(2) obtain f where
    "run_ops (\<lambda>e. CBF_InsertPair 80 8 (fst e) (snd e)) (\<lambda>e. CBF_DeletePair 80 8 (fst e) (snd e)) demo_ops (CBFilterEncode (bloom_demo\<lparr>DEGREE := 30, ELEMENT_SIZE := 8\<rparr>)) = Some f"
    "\<And>a b. norm_edge (a, b) \<in># {#(2, 9)#} \<Longrightarrow> CBF_NEpairTest 80 8 f a b = Some Uncertain"
    by (auto simp: CBF_element_nums_def cdiv_def)
  from this(1) this(2) [OF demo_present(3)] show ?thesis by simp
qed

text \<open>Beyond the first 2048 bits a counter inside one byte makes \<^verbatim>\<open>BlockSet\<close> run off the array.\<close>

lemma BlockSet_loop_underflow:
  "8 * i + 8 < n \<Longrightarrow> length d < 2 ^ 64 - 1 \<Longrightarrow> BlockSet_loop d i n v = None"
proof (induction i arbitrary: n d v)
  case 0
  then show ?case by (subst BlockSet_loop.simps) (simp add: wsub_def aget_def)
next
  case (Suc i)
  then show ?case by (subst BlockSet_loop.simps) (simp add: aget_def aput_def)
qed

lemma BlockSet_high_in_byte:
  assumes "256 \<le> i" "0 < a" "a + n \<le> 8" "0 < n" "wf_bs bs" "i < bs_size bs" "bs_size bs < 2 ^ 20"
  shows "BlockSet bs (8 * i + a) n v = None"
proof -
  have e: "wsub64 (8 * i + a + n) 1 = 8 * i + (a + n - 1)" using assms(4) by simp
  have d: "(8 * i + a) div 8 = i" "(8 * i + a) mod 8 = a" "(8 * i + (a + n - 1)) div 8 = i" "(8 * i + (a + n - 1)) mod 8 = a + n - 1"
    using assms(3,4) by (simp_all del: add_diff_assoc add_diff_assoc2 One_nat_def)
  have ne: "i mod 256 \<noteq> i" using assms(1) by (metis mod_less_divisor not_le zero_less_numeral)
  have w: "wsub32 n (8 - (7 - (a + n - 1))) = 2 ^ 32 - a" using assms(2-4) by (simp add: wsub_def)
  have loop: "BlockSet_loop d i (2 ^ 32 - a) w = None" if "length d = bs_size bs" for d w
    using assms(3,6,7) that by (intro BlockSet_loop_underflow) simp_all
  show ?thesis
    unfolding BlockSet_def Let_def e d w using ne assms(5,6) loop
    by (auto simp: aget_def aput_def wf_bs_def LEFT_ONE_MASK_def split: bind_splits)
qed

text \<open>With more than 2048 bits the filter of small counters is not usable: in a filter for 33 vertices of
  two words each, with the configuration's counters of 7 bits, inserting the edge between 5 and 29
  has no defined result.\<close>

theorem small_counter_filter_undefined:
  "do { cfg \<leftarrow> InitCommonVariables False 2 33 4; k \<leftarrow> CBF_element_nums cfg;
        Some (ELEMENT_SIZE cfg, k, CBF_InsertPair k (ELEMENT_SIZE cfg) 5 29 (BFilterBitEncode cfg 1)) } = Some (7, 301, None)"
proof -
  have c: "clog2 33 = 6" "clog2 132 = 8" by (rule clog2_unique; simp)+
  have "hash_nth (CBF_Hash 301 7) 5 29 0 = Some (8 * 258 + 1)"
    by (simp add: hash_nth_def CBF_Hash_def BFilter_Hash_def aget_def HASH_PARAM1_def HASH_PARAM2_def)
  moreover have "BlockSet (BitSetSIMD 2112) (8 * 258 + 1) 7 x = None" for x by (rule BlockSet_high_in_byte) simp_all
  ultimately show ?thesis
    by (simp add: InitCommonVariables_def c cdiv_def Let_def CBF_element_nums_def CBF_InsertPair_def CBF_EdgeSet_def ordered_def BFilterBitEncode_def)
qed

section \<open>Persistence\<close>

text \<open>Reading as many numbers as there are in the file.\<close>

lemma load_words:
  "foldo (\<lambda>i (key, out). do { k \<leftarrow> (if i < length file then Some (file ! i) else key); Some (Some k, out @ [k]) }) [0..<n] (None, []) =
    Some (if n = 0 then None else Some (file ! (n - 1)), take n file)" if "n \<le> length file"
  using that
proof (induction n)
  case (Suc n)
  then show ?case by (simp add: foldo_append take_Suc_conv_app_nth)
qed simp

lemma int_filter_persist:
  assumes "bf_hash_size f = length (bf_encode f)" "bf_hash_size f0 = bf_hash_size f" "length (bf_encode f0) = bf_hash_size f0"
  shows "\<exists>file. BFInt_EncodePersistent f = Some file \<and> BFInt_LoadFromDb file f0 = Some (f0\<lparr>bf_encode := bf_encode f\<rparr>)"
proof -
  let ?n = "length (bf_encode f)"
  have "BFInt_EncodePersistent f = Some (bf_encode f)"
    using foldo_collect [of ?n "aget (bf_encode f)" "(!) (bf_encode f)" "[]"] assms(1)
    by (simp add: BFInt_EncodePersistent_def aget_def map_nth)
  moreover have "foldo (\<lambda>i e. if i < ?n then aput e i (bf_encode f ! i) else do { _ \<leftarrow> aget e i; Some e }) [0..<?n] (bf_encode f0) =
      foldo (\<lambda>i e. aput e i (bf_encode f ! i)) [0..<?n] (bf_encode f0)" by (rule foldo_cong) simp
  ultimately show ?thesis using assms foldo_aput_upt [of ?n "bf_encode f0" "(!) (bf_encode f)"]
    by (simp add: BFInt_LoadFromDb_def map_nth)
qed

text \<open>The filters survive a restart: what \<^verbatim>\<open>EncodePersistent\<close> writes, \<^verbatim>\<open>LoadFromDb\<close> into any filter of the
  same size reads back, for the bit filter and its blocked variant.\<close>

lemma bit_filter_reload:
  assumes "wf_bfbit f" "wf_bfbit f0" "bf_hash_size f0 = bf_hash_size f" "bf_hash_size f mod 32 = 0"
  shows "\<exists>file. BFBit_EncodePersistent f = Some file \<and> length file = bf_hash_size f div 32 \<and>
    BFBit_LoadFromDb file f0 = Some (f0\<lparr>bf_encode := bf_encode f\<rparr>)"
proof -
  have s: "bf_hash_size f = 8 * bs_size (bf_encode f)" "wf_bs (bf_encode f)" "wf_bs (bf_encode f0)"
    "bs_size (bf_encode f0) = bs_size (bf_encode f)" using assms by (simp_all add: wf_bfbit_def)
  then have m: "bs_size (bf_encode f) mod 4 = 0" using assms(4) by presburger
  from Dump_BlockSet_words [OF s(2) m s(3,4)] obtain us where
    us: "Dump (bf_encode f) = Some us" "length us * 4 = bs_size (bf_encode f)" "BlockSet_words (bf_encode f0) us = Some (bf_encode f)" by blast
  have n: "bf_hash_size f div 32 = length us" using s(1) us(2) by simp
  have "BFBit_EncodePersistent f = Some us"
    using foldo_collect [of "length us" "aget us" "(!) us" "[]"] us(1) n by (simp add: BFBit_EncodePersistent_def aget_def map_nth)
  moreover have "BFBit_LoadFromDb us f0 = Some (f0\<lparr>bf_encode := bf_encode f\<rparr>)"
    using load_words [of "length us" us] us(3) n assms(3) by (simp add: BFBit_LoadFromDb_def)
  ultimately show ?thesis using n by auto
qed

end
