(* ===== verification/Small_Encoders.thy ===== *)
theory Small_Encoders
  imports Hybrid_Encode
begin

text \<open>
  The three simple vertex encoders of \<^verbatim>\<open>encode/single\<close>: \<^verbatim>\<open>BitHashEncode\<close> (a bitmap of the hashed larger
  neighbours), \<^verbatim>\<open>BloomEncode\<close> (all neighbours, or a bitmap when they do not fit) and \<^verbatim>\<open>CountEncode\<close> (all
  neighbours, or counters). They share the array of bit sets of \<^verbatim>\<open>EncodeBitSet\<close>.
\<close>

section \<open>BitHashEncode\<close>

definition BH_Hash :: "config \<Rightarrow> u32 \<Rightarrow> nat option" where
  "BH_Hash cfg vertex =
     (if PER_ENCODE_BIT_SIZE cfg = 0 then None else Some (unat vertex mod PER_ENCODE_BIT_SIZE cfg))"

definition BH_NonNeighborTest :: "config \<Rightarrow> encoding \<Rightarrow> u32 \<Rightarrow> u32 \<Rightarrow> PairType option" where
  "BH_NonNeighborTest cfg st vertex1 vertex2 = do {
     e \<leftarrow> aget st (unat vertex1);
     p \<leftarrow> BH_Hash cfg vertex2;
     b \<leftarrow> IsOne e p;
     Some (if b then Uncertain else NonNeighbor) }"

definition BH_NEpairTest :: "config \<Rightarrow> encoding \<Rightarrow> u32 \<Rightarrow> u32 \<Rightarrow> PairType option" where
  "BH_NEpairTest cfg st vertex1 vertex2 =
     (if vertex1 < vertex2 then BH_NonNeighborTest cfg st vertex1 vertex2
      else BH_NonNeighborTest cfg st vertex2 vertex1)"

definition BH_EncodeVertex :: "config \<Rightarrow> u32 \<Rightarrow> u32 list \<Rightarrow> encoding \<Rightarrow> encoding option" where
  "BH_EncodeVertex cfg vertex_id neighbors st = do {
     e \<leftarrow> aget st (unat vertex_id);
     let e = ClearBits e;
     e \<leftarrow> foldo (\<lambda>v e. if vertex_id < v then do { p \<leftarrow> BH_Hash cfg v; SetOne e p } else Some e) neighbors e;
     aput st (unat vertex_id) e }"

definition BH_SetPair :: "config \<Rightarrow> u32 \<Rightarrow> u32 \<Rightarrow> encoding \<Rightarrow> encoding option" where
  "BH_SetPair cfg vertex1 vertex2 st = do {
     e \<leftarrow> aget st (unat vertex1);
     p \<leftarrow> BH_Hash cfg vertex2;
     e \<leftarrow> SetOne e p;
     aput st (unat vertex1) e }"

definition BH_InsertPair :: "config \<Rightarrow> u32 \<Rightarrow> u32 \<Rightarrow> encoding \<Rightarrow> encoding option" where
  "BH_InsertPair cfg vertex1 vertex2 st =
     (if vertex1 < vertex2 then BH_SetPair cfg vertex1 vertex2 st else BH_SetPair cfg vertex2 vertex1 st)"

text \<open>\<open>db\<close> is the answer of \<^verbatim>\<open>DbQuery\<close>; \<^verbatim>\<open>erase\<close> takes out the first occurrence (\<open>remove1\<close>).\<close>

definition BH_DeletePair :: "config \<Rightarrow> (u32 \<Rightarrow> u32 list) \<Rightarrow> u32 \<Rightarrow> u32 \<Rightarrow> encoding \<Rightarrow> encoding option" where
  "BH_DeletePair cfg db vertex1 vertex2 st = do {
     let (vertex1, vertex2) = (if vertex1 > vertex2 then (vertex2, vertex1) else (vertex1, vertex2));
     let neighbors = remove1 vertex2 (db vertex1);
     e \<leftarrow> aget st (unat vertex1);
     st \<leftarrow> aput st (unat vertex1) (ClearBits e);
     BH_EncodeVertex cfg vertex1 neighbors st }"

section \<open>BloomEncode\<close>

definition Bloom_block_size :: "config \<Rightarrow> nat" where
  "Bloom_block_size cfg = wsub32 (K_SIZE cfg) 1"

definition Bloom_bit_size :: "config \<Rightarrow> nat" where
  "Bloom_bit_size cfg = (wsub32 (K_SIZE cfg) 1 * 32) mod 2 ^ 32"

definition Flag_set :: "bool \<Rightarrow> bitset \<Rightarrow> bitset option" where
  "Flag_set flag e = BlockSet e 0 32 (if flag then 1 else 0)"

definition Flag_get :: "bitset \<Rightarrow> bool option" where
  "Flag_get e = do { v \<leftarrow> BlockGet e 0 32; Some (v \<noteq> 0) }"

text \<open>The product and the sum are taken modulo \<open>2 ^ 64\<close>; the parameters are the first of one list and the second of the other.\<close>

definition pair_hash :: "nat \<Rightarrow> u32 \<Rightarrow> u32 \<Rightarrow> nat option" where
  "pair_hash n vertex1 vertex2 = do {
     a \<leftarrow> aget HASH_PARAM1 0;
     b \<leftarrow> aget HASH_PARAM2 1;
     if n = 0 then None
     else Some (((unat a * unat vertex1 + unat b * unat vertex2) mod 2 ^ 64) mod n) }"

definition Bloom_Hash :: "config \<Rightarrow> u32 \<Rightarrow> u32 \<Rightarrow> nat option" where
  "Bloom_Hash cfg vertex1 vertex2 = map_option (\<lambda>h. (h + 32) mod 2 ^ 32) (pair_hash (Bloom_bit_size cfg) vertex1 vertex2)"

definition Bloom_SetFullEncode :: "u32 list \<Rightarrow> bitset \<Rightarrow> bitset option" where
  "Bloom_SetFullEncode neighbors e = do {
     e \<leftarrow> Flag_set True e;
     put_blocks BlockSet e 32 32 neighbors }"

definition Bloom_SetBloomEncode :: "config \<Rightarrow> u32 \<Rightarrow> u32 list \<Rightarrow> bitset \<Rightarrow> bitset option" where
  "Bloom_SetBloomEncode cfg vertex_id neighbors e = do {
     e \<leftarrow> Flag_set False e;
     foldo (\<lambda>v e. do { p \<leftarrow> Bloom_Hash cfg vertex_id v; SetOne e p }) neighbors e }"

definition Bloom_EncodeVertex :: "config \<Rightarrow> u32 \<Rightarrow> u32 list \<Rightarrow> encoding \<Rightarrow> encoding option" where
  "Bloom_EncodeVertex cfg vertex_id neighbors st = do {
     e \<leftarrow> aget st (unat vertex_id);
     e \<leftarrow> (if length neighbors \<le> Bloom_block_size cfg then Bloom_SetFullEncode neighbors e
           else Bloom_SetBloomEncode cfg vertex_id neighbors e);
     aput st (unat vertex_id) e }"

fun Bloom_scan :: "bitset \<Rightarrow> nat \<Rightarrow> nat \<Rightarrow> u32 \<Rightarrow> PairType option" where
  "Bloom_scan e offset 0 vertex2 = Some NonNeighbor"
| "Bloom_scan e offset (Suc n) vertex2 = do {
     v \<leftarrow> BlockGet e offset 32;
     if v = vertex2 then Some Neighbor else Bloom_scan e (offset + 32) n vertex2 }"

definition Bloom_NonNeighborTest :: "config \<Rightarrow> encoding \<Rightarrow> u32 \<Rightarrow> u32 \<Rightarrow> PairType option" where
  "Bloom_NonNeighborTest cfg st vertex1 vertex2 = do {
     e \<leftarrow> aget st (unat vertex1);
     flag \<leftarrow> Flag_get e;
     if flag then Bloom_scan e 32 (Bloom_block_size cfg) vertex2
     else do {
       p \<leftarrow> Bloom_Hash cfg vertex1 vertex2;
       b \<leftarrow> IsOne e p;
       Some (if b then Uncertain else NonNeighbor) } }"

definition Bloom_NEpairTest :: "config \<Rightarrow> encoding \<Rightarrow> u32 \<Rightarrow> u32 \<Rightarrow> PairType option" where
  "Bloom_NEpairTest cfg st vertex1 vertex2 = do {
     a \<leftarrow> Bloom_NonNeighborTest cfg st vertex1 vertex2;
     b \<leftarrow> Bloom_NonNeighborTest cfg st vertex2 vertex1;
     Some (min a b) }"

text \<open>\<^verbatim>\<open>InsertPair\<close> has an empty body.\<close>

definition Bloom_InsertPair :: "u32 \<Rightarrow> u32 \<Rightarrow> encoding \<Rightarrow> encoding option" where
  "Bloom_InsertPair vertex1 vertex2 st = Some st"

section \<open>CountEncode\<close>

definition Count_element_nums :: "config \<Rightarrow> nat option" where
  "Count_element_nums cfg = cdiv ((wsub32 (K_SIZE cfg) 1 * 32) mod 2 ^ 32) (ELEMENT_SIZE cfg)"

definition Count_Hash :: "config \<Rightarrow> u32 \<Rightarrow> u32 \<Rightarrow> nat option" where
  "Count_Hash cfg vertex1 vertex2 = do {
     n \<leftarrow> Count_element_nums cfg;
     map_option (\<lambda>h. (h + 1) mod 2 ^ 32) (pair_hash n vertex1 vertex2) }"

definition Count_SetFullEncode :: "config \<Rightarrow> u32 list \<Rightarrow> bitset \<Rightarrow> bitset option" where
  "Count_SetFullEncode cfg neighbors e = do {
     e \<leftarrow> Flag_set True e;
     put_blocks BlockSet e 32 (ELEMENT_SIZE cfg) neighbors }"

definition Count_SetCountEncode :: "config \<Rightarrow> u32 \<Rightarrow> u32 list \<Rightarrow> bitset \<Rightarrow> bitset option" where
  "Count_SetCountEncode cfg vertex_id neighbors e = do {
     e \<leftarrow> Flag_set False e;
     foldo (\<lambda>v e. do {
       h \<leftarrow> Count_Hash cfg vertex_id v;
       let offset = (h * ELEMENT_SIZE cfg) mod 2 ^ 32;
       c \<leftarrow> BlockGet e offset (ELEMENT_SIZE cfg);
       BlockSet e offset (ELEMENT_SIZE cfg) (c + 1) }) neighbors e }"

definition Count_EncodeVertex :: "config \<Rightarrow> u32 \<Rightarrow> u32 list \<Rightarrow> encoding \<Rightarrow> encoding option" where
  "Count_EncodeVertex cfg vertex_id neighbors st = do {
     n \<leftarrow> Count_element_nums cfg;
     e \<leftarrow> aget st (unat vertex_id);
     e \<leftarrow> (if length neighbors \<le> n then Count_SetFullEncode cfg neighbors e
           else Count_SetCountEncode cfg vertex_id neighbors e);
     aput st (unat vertex_id) e }"

text \<open>The loop stops at the first stored value below the vertex.\<close>

fun Count_scan :: "bitset \<Rightarrow> nat \<Rightarrow> nat \<Rightarrow> nat \<Rightarrow> u32 \<Rightarrow> PairType option" where
  "Count_scan e element_size offset 0 vertex2 = Some NonNeighbor"
| "Count_scan e element_size offset (Suc n) vertex2 = do {
     v \<leftarrow> BlockGet e offset element_size;
     if v = vertex2 then Some Neighbor
     else if v < vertex2 then Some NonNeighbor
     else Count_scan e element_size (offset + element_size) n vertex2 }"

definition Count_NonNeighborTest :: "config \<Rightarrow> encoding \<Rightarrow> u32 \<Rightarrow> u32 \<Rightarrow> PairType option" where
  "Count_NonNeighborTest cfg st vertex1 vertex2 = do {
     n \<leftarrow> Count_element_nums cfg;
     e \<leftarrow> aget st (unat vertex1);
     flag \<leftarrow> Flag_get e;
     if flag then Count_scan e (ELEMENT_SIZE cfg) 32 n vertex2
     else do {
       h \<leftarrow> Count_Hash cfg vertex1 vertex2;
       c \<leftarrow> BlockGet e ((h * ELEMENT_SIZE cfg) mod 2 ^ 32) (ELEMENT_SIZE cfg);
       Some (if c = 0 then NonNeighbor else Uncertain) } }"

definition Count_NEpairTest :: "config \<Rightarrow> encoding \<Rightarrow> u32 \<Rightarrow> u32 \<Rightarrow> PairType option" where
  "Count_NEpairTest cfg st vertex1 vertex2 = do {
     a \<leftarrow> Count_NonNeighborTest cfg st vertex1 vertex2;
     b \<leftarrow> Count_NonNeighborTest cfg st vertex2 vertex1;
     Some (min a b) }"

definition Count_InsertPair :: "u32 \<Rightarrow> u32 \<Rightarrow> encoding \<Rightarrow> encoding option" where
  "Count_InsertPair vertex1 vertex2 st = Some st"

end
