(* ===== verification/Slot_Encoder.thy ===== *)
theory Slot_Encoder
  imports Hybrid_Laws
begin

text \<open>
  The encoders that keep one bit set per vertex and change only the one of the vertex they encode.
  \<open>slot_encoder\<close> states what such an encoder promises about a single bit set; the contract of all
  vertex encoders and the soundness of a whole graph follow.
\<close>

locale slot_encoder =
  fixes ok :: "config \<Rightarrow> bool"
    and fine :: "config \<Rightarrow> u32 list \<Rightarrow> bool"
    and good :: "config \<Rightarrow> bitset \<Rightarrow> bool"
    and encd :: "config \<Rightarrow> u32 \<Rightarrow> bitset \<Rightarrow> u32 list \<Rightarrow> bool"
    and enc :: "config \<Rightarrow> u32 \<Rightarrow> u32 list \<Rightarrow> encoding \<Rightarrow> encoding option"
    and tst :: "config \<Rightarrow> encoding \<Rightarrow> u32 \<Rightarrow> u32 \<Rightarrow> PairType option"
  assumes ok_wf: "ok cfg \<Longrightarrow> wf_config cfg"
    and new_good: "ok cfg \<Longrightarrow> is_vertex cfg v \<Longrightarrow> good cfg (EncodeBitSet cfg ! unat v)"
    and slot_encode: "ok cfg \<Longrightarrow> wf_encoding cfg st \<Longrightarrow> is_vertex cfg v \<Longrightarrow> fine cfg ns \<Longrightarrow> good cfg (st ! unat v) \<Longrightarrow>
      \<exists>e. enc cfg v ns st = Some (st[unat v := e]) \<and> wf_enc cfg e \<and> encd cfg v e ns"
    and slot_test: "ok cfg \<Longrightarrow> wf_encoding cfg st \<Longrightarrow> is_vertex cfg v \<Longrightarrow> is_vertex cfg u \<Longrightarrow> fine cfg ns \<Longrightarrow>
      encd cfg v (st ! unat v) ns \<Longrightarrow> \<exists>r. tst cfg st v u = Some r \<and> answer_ok r (u \<in> set ns)"
begin

lemma encode_others:
  assumes "ok cfg" "wf_encoding cfg st" "is_vertex cfg v" "fine cfg ns" "good cfg (st ! unat v)"
  shows "\<exists>st'. enc cfg v ns st = Some st' \<and> wf_encoding cfg st' \<and> encd cfg v (st' ! unat v) ns \<and>
    (\<forall>w. w \<noteq> v \<longrightarrow> st' ! unat w = st ! unat w)"
proof -
  from slot_encode [OF assms] obtain e where
    e: "enc cfg v ns st = Some (st[unat v := e])" "wf_enc cfg e" "encd cfg v e ns" by blast
  have "wf_encoding cfg (st[unat v := e])"
    using assms(2) e(2) by (auto simp: wf_encoding_def dest!: subsetD [OF set_update_subset_insert])
  moreover have "st[unat v := e] ! unat w = st ! unat w" if "w \<noteq> v" for w
    using that by (simp add: nth_list_update word_unat_eq_iff)
  ultimately show ?thesis using e is_vertex_index [OF assms(2,3)] by auto
qed

end

sublocale slot_encoder \<subseteq> graph: vertex_encoder
  "\<lambda>st. ok (fst st) \<and> wf_encoding (fst st) (snd st)"
  "\<lambda>st v. good (fst st) (snd st ! unat v)"
  "\<lambda>st v ns. encd (fst st) v (snd st ! unat v) ns"
  "\<lambda>st v. is_vertex (fst st) v"
  "\<lambda>st ns. fine (fst st) ns"
  "\<lambda>v ns st. map_option (Pair (fst st)) (enc (fst st) v ns (snd st))"
  "\<lambda>st v u. tst (fst st) (snd st) v u"
  fst
proof
  fix st :: "config \<times> encoding" and v ns
  assume "ok (fst st) \<and> wf_encoding (fst st) (snd st)" "is_vertex (fst st) v" "fine (fst st) ns" "good (fst st) (snd st ! unat v)"
  with encode_others [of "fst st" "snd st" v ns] obtain st' where
    "enc (fst st) v ns (snd st) = Some st'" "wf_encoding (fst st) st'" "encd (fst st) v (st' ! unat v) ns"
    "\<forall>w. w \<noteq> v \<longrightarrow> st' ! unat w = snd st ! unat w" "ok (fst st)" by blast
  then show "\<exists>st'. map_option (Pair (fst st)) (enc (fst st) v ns (snd st)) = Some st' \<and>
      (ok (fst st') \<and> wf_encoding (fst st') (snd st')) \<and> encd (fst st') v (snd st' ! unat v) ns \<and> fst st' = fst st \<and>
      (\<forall>w. is_vertex (fst st) w \<longrightarrow> w \<noteq> v \<longrightarrow> (good (fst st) (snd st ! unat w) \<longrightarrow> good (fst st') (snd st' ! unat w)) \<and>
        (\<forall>ms. encd (fst st) w (snd st ! unat w) ms \<longrightarrow> encd (fst st') w (snd st' ! unat w) ms))"
    by simp
next
  fix st :: "config \<times> encoding" and v u ns
  assume "ok (fst st) \<and> wf_encoding (fst st) (snd st)" "is_vertex (fst st) v" "is_vertex (fst st) u"
    "encd (fst st) v (snd st ! unat v) ns" "fine (fst st) ns"
  then show "\<exists>r. tst (fst st) (snd st) v u = Some r \<and> answer_ok r (u \<in> set ns)" by (blast intro: slot_test)
qed simp_all

context slot_encoder
begin

lemma build_pair:
  "build_all (\<lambda>v ns st. map_option (Pair (fst st)) (enc (fst st) v ns (snd st))) adj vs (cfg, st)
     = map_option (Pair cfg) (build_all (enc cfg) adj vs st)"
  unfolding build_all_def
proof (induction vs arbitrary: st)
  case (Cons v vs)
  then show ?case by (cases "enc cfg v (adj v) st") simp_all
qed simp

lemma graph_encoded:
  assumes "ok cfg" "\<And>v. is_vertex cfg v \<Longrightarrow> fine cfg (adj v)"
    "\<And>u v. is_vertex cfg u \<Longrightarrow> is_vertex cfg v \<Longrightarrow> u \<in> set (adj v) \<longleftrightarrow> v \<in> set (adj u)"
  shows "\<exists>st. build_all (enc cfg) adj (vertex_list cfg) (EncodeBitSet cfg) = Some st \<and> graph.encodes_graph (cfg, st) adj"
proof -
  note vs = vertex_list_all [OF ok_wf [OF assms(1)]]
  note wf = EncodeBitSet_wf(1) [OF ok_wf [OF assms(1)]]
  have "\<exists>s'. build_all (\<lambda>v ns st. map_option (Pair (fst st)) (enc (fst st) v ns (snd st))) adj (vertex_list cfg) (cfg, EncodeBitSet cfg) = Some s' \<and>
      fst s' = fst (cfg, EncodeBitSet cfg) \<and> graph.encodes_graph s' adj"
  proof (rule graph.build_graph)
    show "\<forall>v \<in> set (vertex_list cfg). is_vertex (fst (cfg, EncodeBitSet cfg)) v \<and> fine (fst (cfg, EncodeBitSet cfg)) (adj v) \<and>
        good (fst (cfg, EncodeBitSet cfg)) (snd (cfg, EncodeBitSet cfg) ! unat v)"
      using vs(1) assms(1,2) new_good by simp
  qed (use assms(1,3) wf vs in simp_all)
  then show ?thesis unfolding build_pair by auto
qed

lemma graph_built:
  assumes "ok cfg" "\<And>v. is_vertex cfg v \<Longrightarrow> fine cfg (adj v)"
    "\<And>u v. is_vertex cfg u \<Longrightarrow> is_vertex cfg v \<Longrightarrow> u \<in> set (adj v) \<longleftrightarrow> v \<in> set (adj u)"
  shows "\<exists>st. build_all (enc cfg) adj (vertex_list cfg) (EncodeBitSet cfg) = Some st \<and> wf_encoding cfg st \<and>
    (\<forall>v. is_vertex cfg v \<longrightarrow> encd cfg v (st ! unat v) (adj v))"
  using graph_encoded [OF assms] by (auto simp: graph.encodes_graph_def)

lemma graph_sound:
  assumes "ok cfg" "\<And>v. is_vertex cfg v \<Longrightarrow> fine cfg (adj v)"
    "\<And>u v. is_vertex cfg u \<Longrightarrow> is_vertex cfg v \<Longrightarrow> u \<in> set (adj v) \<longleftrightarrow> v \<in> set (adj u)"
  shows "\<exists>st. build_all (enc cfg) adj (vertex_list cfg) (EncodeBitSet cfg) = Some st \<and> wf_encoding cfg st \<and>
    (\<forall>u v. is_vertex cfg u \<longrightarrow> is_vertex cfg v \<longrightarrow> (\<exists>r. tst cfg st v u = Some r \<and> answer_ok r (u \<in> set (adj v))))"
proof -
  obtain st where st: "build_all (enc cfg) adj (vertex_list cfg) (EncodeBitSet cfg) = Some st" "graph.encodes_graph (cfg, st) adj"
    using graph_encoded [OF assms] by blast
  have "\<exists>r. tst cfg st v u = Some r \<and> answer_ok r (u \<in> set (adj v))" if "is_vertex cfg u" "is_vertex cfg v" for u v
    using graph.both_tests_sound(1) [OF st(2), of v u] that by simp
  moreover have "wf_encoding cfg st" using st(2) by (simp add: graph.encodes_graph_def)
  ultimately show ?thesis using st(1) by blast
qed

end

end
