(* ===== verification/Small_Spec.thy ===== *)
theory Small_Spec
  imports Small_Encoders Slot_Encoder Range_Laws
begin

text \<open>The simple encoders meet the contract of the vertex encoders, and their updates.\<close>

section \<open>BitHashEncode\<close>

definition bh_encodes :: "config \<Rightarrow> u32 \<Rightarrow> bitset \<Rightarrow> u32 list \<Rightarrow> bool" where
  "bh_encodes cfg v e ns \<longleftrightarrow> wf_enc cfg e \<and>
     (\<forall>p < PER_ENCODE_BIT_SIZE cfg. bitat e p \<longleftrightarrow> (\<exists>u \<in> set ns. v < u \<and> unat u mod PER_ENCODE_BIT_SIZE cfg = p))"

definition ids_ok :: "config \<Rightarrow> u32 list \<Rightarrow> bool" where
  "ids_ok cfg ns \<longleftrightarrow> (\<forall>x \<in> set ns. is_vertex cfg x)"

text \<open>The test of a pair looks only at the smaller vertex.\<close>

definition bh_upper_test :: "config \<Rightarrow> encoding \<Rightarrow> u32 \<Rightarrow> u32 \<Rightarrow> PairType option" where
  "bh_upper_test cfg st v u = (if v < u then BH_NonNeighborTest cfg st v u else Some Uncertain)"

lemma bh_P:
  assumes "wf_config cfg" "wf_enc cfg e"
  shows "wf_bs e" "8 * bs_size e = PER_ENCODE_BIT_SIZE cfg" "0 < PER_ENCODE_BIT_SIZE cfg"
  using wf_encD [OF assms] wf_configD(1,13) [OF assms(1)] by simp_all

lemma foldo_filter: "foldo (\<lambda>x s. if c x then f x s else Some s) xs s = foldo f (filter c xs) s"
  by (induction xs arbitrary: s) (auto split: bind_splits)

lemma BH_encode_slot:
  assumes "wf_config cfg" "wf_encoding cfg st" "is_vertex cfg v"
  shows "\<exists>e. BH_EncodeVertex cfg v ns st = Some (st[unat v := e]) \<and> wf_enc cfg e \<and> bh_encodes cfg v e ns"
proof -
  let ?P = "PER_ENCODE_BIT_SIZE cfg"
  have v: "unat v < length st" using is_vertex_index [OF assms(2,3)] .
  then have wf: "wf_enc cfg (st ! unat v)" using assms(2) by (simp add: wf_encoding_def)
  note P = bh_P [OF assms(1) wf]
  have "\<exists>e. foldo (\<lambda>x e. do { p \<leftarrow> BH_Hash cfg x; SetOne e p }) (filter ((<) v) ns) (ClearBits (st ! unat v)) = Some e \<and> wf_bs e \<and>
      8 * bs_size e = 8 * bs_size (ClearBits (st ! unat v)) \<and>
      (\<forall>q < 8 * bs_size (ClearBits (st ! unat v)). bitat e q \<longleftrightarrow> bitat (ClearBits (st ! unat v)) q \<or> (\<exists>x \<in> set (filter ((<) v) ns). BH_Hash cfg x = Some q))"
    using P by (intro bs.set_positions_law) (simp_all add: BH_Hash_def)
  then obtain e where e: "foldo (\<lambda>x e. do { p \<leftarrow> BH_Hash cfg x; SetOne e p }) (filter ((<) v) ns) (ClearBits (st ! unat v)) = Some e"
    "wf_bs e" "8 * bs_size e = 8 * bs_size (ClearBits (st ! unat v))"
    "\<And>q. q < 8 * bs_size (ClearBits (st ! unat v)) \<Longrightarrow> bitat e q \<longleftrightarrow> bitat (ClearBits (st ! unat v)) q \<or>
       (\<exists>x \<in> set (filter ((<) v) ns). BH_Hash cfg x = Some q)" by blast
  have bits: "bitat e q \<longleftrightarrow> (\<exists>x \<in> set ns. v < x \<and> unat x mod ?P = q)" if "q < ?P" for q
    using e(4) [of q] P that by (auto simp: BH_Hash_def)
  have "BH_EncodeVertex cfg v ns st = Some (st[unat v := e])"
    using e(1) v by (simp add: BH_EncodeVertex_def foldo_filter aget_def aput_def Let_def)
  moreover have "wf_enc cfg e" using e(2,3) wf by (simp add: wf_enc_def)
  ultimately show ?thesis using bits by (auto simp: bh_encodes_def)
qed

lemma BH_test_eq:
  assumes "wf_config cfg" "wf_encoding cfg st" "is_vertex cfg v"
  shows "BH_NonNeighborTest cfg st v u =
    Some (if bitat (st ! unat v) (unat u mod PER_ENCODE_BIT_SIZE cfg) then Uncertain else NonNeighbor)"
proof -
  have v: "unat v < length st" using is_vertex_index [OF assms(2,3)] .
  then have "wf_enc cfg (st ! unat v)" using assms(2) by (simp add: wf_encoding_def)
  from bh_P [OF assms(1) this] v show ?thesis by (simp add: BH_NonNeighborTest_def BH_Hash_def aget_def)
qed

lemma bh_test_sound:
  assumes "wf_config cfg" "wf_encoding cfg st" "is_vertex cfg v" "bh_encodes cfg v (st ! unat v) ns" "v < u"
  shows "\<exists>r. BH_NonNeighborTest cfg st v u = Some r \<and> r \<noteq> Neighbor \<and> answer_ok r (u \<in> set ns)"
proof -
  have "0 < PER_ENCODE_BIT_SIZE cfg" using assms(1) wf_configD(1,13) by simp
  then show ?thesis using BH_test_eq [OF assms(1-3), of u] assms(4,5) by (auto simp: bh_encodes_def)
qed

interpretation bithash: slot_encoder wf_config ids_ok "\<lambda>cfg e. True" bh_encodes BH_EncodeVertex bh_upper_test
proof
  fix cfg st v ns
  assume "wf_config cfg" "wf_encoding cfg st" "is_vertex cfg v"
  then show "\<exists>e. BH_EncodeVertex cfg v ns st = Some (st[unat v := e]) \<and> wf_enc cfg e \<and> bh_encodes cfg v e ns"
    by (rule BH_encode_slot)
next
  fix cfg st v u ns
  assume "wf_config cfg" "wf_encoding cfg st" "is_vertex cfg v" "bh_encodes cfg v (st ! unat v) ns"
  from bh_test_sound [OF this] show "\<exists>r. bh_upper_test cfg st v u = Some r \<and> answer_ok r (u \<in> set ns)"
    by (auto simp: bh_upper_test_def)
qed simp_all

definition bh_graph :: "config \<Rightarrow> encoding \<Rightarrow> (u32 \<Rightarrow> u32 list) \<Rightarrow> bool" where
  "bh_graph cfg st adj \<longleftrightarrow> wf_encoding cfg st \<and> (\<forall>v. is_vertex cfg v \<longrightarrow> bh_encodes cfg v (st ! unat v) (adj v))"

lemma bh_graph_tests:
  assumes "wf_config cfg" "bh_graph cfg st adj" "is_vertex cfg u" "is_vertex cfg v" "u \<noteq> v"
    "u \<in> set (adj v) \<longleftrightarrow> v \<in> set (adj u)"
  shows "\<exists>r. BH_NEpairTest cfg st v u = Some r \<and> r \<noteq> Neighbor \<and> answer_ok r (u \<in> set (adj v))"
proof (cases "v < u")
  case True
  with bh_test_sound [OF assms(1) _ assms(4), of st "adj v" u] assms(2,4) show ?thesis
    by (auto simp: bh_graph_def BH_NEpairTest_def)
next
  case False
  then have "u < v" using assms(5) by simp
  with bh_test_sound [OF assms(1) _ assms(3), of st "adj u" v] assms(2,3,6) False show ?thesis
    by (auto simp: bh_graph_def BH_NEpairTest_def)
qed

lemma bh_graph_upd:
  assumes "bh_graph cfg st adj" "is_vertex cfg a" "bh_encodes cfg a e ns" "\<And>v. is_vertex cfg v \<Longrightarrow> v \<noteq> a \<Longrightarrow> {u \<in> set (adj' v). v < u} = {u \<in> set (adj v). v < u}"
    "{u \<in> set (adj' a). a < u} = {u \<in> set ns. a < u}"
  shows "bh_graph cfg (st[unat a := e]) adj'"
proof -
  have cong: "bh_encodes cfg v f ms' = bh_encodes cfg v f ms" if "{u \<in> set ms'. v < u} = {u \<in> set ms. v < u}" for v f ms ms'
  proof -
    have "(\<exists>u \<in> set ms'. v < u \<and> Q u) \<longleftrightarrow> (\<exists>u \<in> set ms. v < u \<and> Q u)" for Q using that by blast
    then show ?thesis by (simp add: bh_encodes_def)
  qed
  have "wf_enc cfg e" using assms(3) by (simp add: bh_encodes_def)
  then have "wf_encoding cfg (st[unat a := e])"
    using assms(1) by (auto simp: bh_graph_def wf_encoding_def dest!: subsetD [OF set_update_subset_insert])
  moreover have "bh_encodes cfg v (st[unat a := e] ! unat v) (adj' v)" if v: "is_vertex cfg v" for v
  proof (cases "v = a")
    case True
    have "unat a < length st" using is_vertex_index [OF _ assms(2)] assms(1) by (simp add: bh_graph_def)
    with True assms(3) cong [OF assms(5)] show ?thesis by simp
  next
    case False
    then have "st[unat a := e] ! unat v = st ! unat v" by (simp add: nth_list_update word_unat_eq_iff)
    with False v assms(1) cong [OF assms(4) [OF v False]] show ?thesis by (simp add: bh_graph_def)
  qed
  ultimately show ?thesis by (simp add: bh_graph_def)
qed

lemma BH_set_slot:
  assumes "wf_config cfg" "bh_graph cfg st adj" "is_vertex cfg a" "a < b"
  shows "\<exists>e. BH_SetPair cfg a b st = Some (st[unat a := e]) \<and> bh_encodes cfg a e (b # adj a)"
proof -
  let ?P = "PER_ENCODE_BIT_SIZE cfg"
  have wfe: "wf_encoding cfg st" and enc: "bh_encodes cfg a (st ! unat a) (adj a)" using assms(2,3) by (simp_all add: bh_graph_def)
  have a: "unat a < length st" using is_vertex_index [OF wfe assms(3)] .
  have wf: "wf_enc cfg (st ! unat a)" using enc by (simp add: bh_encodes_def)
  note P = bh_P [OF assms(1) wf]
  let ?p = "unat b mod ?P"
  have p: "?p < 8 * bs_size (st ! unat a)" using P by simp
  let ?e = "bit_upd (st ! unat a) ?p True"
  have "SetOne (st ! unat a) ?p = Some ?e" using P(1) p by simp
  then have "BH_SetPair cfg a b st = Some (st[unat a := ?e])"
    using a P(3) by (simp add: BH_SetPair_def BH_Hash_def aget_def aput_def)
  moreover have "bh_encodes cfg a ?e (b # adj a)"
    using enc wf P assms(4) by (auto simp: bh_encodes_def wf_enc_def)
  ultimately show ?thesis by blast
qed

lemma BH_insert_graph:
  assumes "wf_config cfg" "bh_graph cfg st adj" "is_vertex cfg a" "is_vertex cfg b" "a \<noteq> b"
  shows "\<exists>st'. BH_InsertPair cfg a b st = Some st' \<and> bh_graph cfg st' (adj(a := b # adj a, b := a # adj b))"
proof -
  have one: "\<exists>st'. BH_SetPair cfg x y st = Some st' \<and> bh_graph cfg st' (adj(x := y # adj x, y := x # adj y))"
    if "is_vertex cfg x" "x < y" for x y
  proof -
    from BH_set_slot [OF assms(1,2) that] obtain e where
      e: "BH_SetPair cfg x y st = Some (st[unat x := e])" "bh_encodes cfg x e (y # adj x)" by blast
    have "bh_graph cfg (st[unat x := e]) (adj(x := y # adj x, y := x # adj y))"
      using that by (intro bh_graph_upd [OF assms(2) that(1) e(2)]) auto
    with e(1) show ?thesis by blast
  qed
  consider "a < b" | "b < a" using assms(5) by (rule neqE)
  then show ?thesis
  proof cases
    case 1
    with one [OF assms(3) 1] show ?thesis by (simp add: BH_InsertPair_def)
  next
    case 2
    have "adj(b := a # adj b, a := b # adj a) = adj(a := b # adj a, b := a # adj b)" using assms(5) by auto
    with one [OF assms(4) 2] 2 show ?thesis by (auto simp: BH_InsertPair_def not_less)
  qed
qed

lemma BH_delete_graph:
  assumes "wf_config cfg" "bh_graph cfg st adj" "is_vertex cfg a" "is_vertex cfg b" "a \<noteq> b"
  shows "\<exists>st'. BH_DeletePair cfg adj a b st = Some st' \<and> bh_graph cfg st' (adj(a := remove1 b (adj a), b := remove1 a (adj b)))"
proof -
  have wf: "wf_encoding cfg st" using assms(2) by (simp add: bh_graph_def)
  define x y where xy: "x = min a b" "y = max a b"
  have lt: "x < y" "is_vertex cfg x" using assms(3-5) by (auto simp: xy min_def max_def)
  have x: "unat x < length st" using is_vertex_index [OF wf lt(2)] .
  let ?st = "st[unat x := ClearBits (st ! unat x)]"
  have "wf_enc cfg (st ! unat x)" using wf x by (simp add: wf_encoding_def)
  then have "wf_enc cfg (ClearBits (st ! unat x))" by (simp add: wf_enc_def)
  then have wf': "wf_encoding cfg ?st" using wf by (auto simp: wf_encoding_def dest!: subsetD [OF set_update_subset_insert])
  from BH_encode_slot [OF assms(1) wf' lt(2)] obtain e where
    e: "BH_EncodeVertex cfg x (remove1 y (adj x)) ?st = Some (st[unat x := e])" "bh_encodes cfg x e (remove1 y (adj x))" by auto
  have "(if b < a then (b, a) else (a, b)) = (x, y)" by (auto simp: xy min_def max_def)
  then have "BH_DeletePair cfg adj a b st = Some (st[unat x := e])"
    using e(1) x by (simp add: BH_DeletePair_def aget_def aput_def)
  moreover have "bh_graph cfg (st[unat x := e]) (adj(a := remove1 b (adj a), b := remove1 a (adj b)))"
  proof (rule bh_graph_upd [OF assms(2) lt(2) e(2)])
    fix v assume "is_vertex cfg v" "v \<noteq> x"
    moreover have "{a, b} = {x, y}" by (auto simp: xy min_def max_def)
    ultimately consider "v \<noteq> a" "v \<noteq> b" | "v = y" "y \<noteq> x" "{a, b} = {x, y}" by blast
    then show "{u \<in> set ((adj(a := remove1 b (adj a), b := remove1 a (adj b))) v). v < u} = {u \<in> set (adj v). v < u}"
    proof cases
      case 2
      have "{u \<in> set (remove1 x (adj y)). y < u} = {u \<in> set (adj y). y < u}"
        using lt(1) notin_set_remove1 [of _ "adj y" x] in_set_remove1 [of _ x "adj y"] by (auto dest: order.asym)
      with 2 assms(5) show ?thesis by (auto simp: doubleton_eq_iff)
    qed simp
  qed (use assms(5) in \<open>auto simp: xy min_def max_def\<close>)
  ultimately show ?thesis by blast
qed

text \<open>All pairs are answered soundly.\<close>

definition bh_answers :: "config \<Rightarrow> encoding \<Rightarrow> (u32 \<Rightarrow> u32 list) \<Rightarrow> bool" where
  "bh_answers cfg st adj \<longleftrightarrow> (\<forall>u v. is_vertex cfg u \<longrightarrow> is_vertex cfg v \<longrightarrow> u \<noteq> v \<longrightarrow>
     (\<exists>r. BH_NEpairTest cfg st v u = Some r \<and> r \<noteq> Neighbor \<and> (r = NonNeighbor \<longrightarrow> u \<notin> set (adj v))))"

definition sym_adj :: "config \<Rightarrow> (u32 \<Rightarrow> u32 list) \<Rightarrow> bool" where
  "sym_adj cfg adj \<longleftrightarrow> (\<forall>u v. is_vertex cfg u \<longrightarrow> is_vertex cfg v \<longrightarrow> (u \<in> set (adj v) \<longleftrightarrow> v \<in> set (adj u)))"

lemma bh_graph_answers:
  assumes "wf_config cfg" "bh_graph cfg st adj" "sym_adj cfg adj"
  shows "bh_answers cfg st adj"
  unfolding bh_answers_def
proof (intro allI impI)
  fix u v assume uv: "is_vertex cfg u" "is_vertex cfg v" "u \<noteq> v"
  then have "u \<in> set (adj v) \<longleftrightarrow> v \<in> set (adj u)" using assms(3) by (simp add: sym_adj_def)
  from bh_graph_tests [OF assms(1,2) uv this]
  show "\<exists>r. BH_NEpairTest cfg st v u = Some r \<and> r \<noteq> Neighbor \<and> (r = NonNeighbor \<longrightarrow> u \<notin> set (adj v))"
    by (auto simp: answer_ok_def)
qed

text \<open>C26. Updates of the bitmap encoding keep it sound: starting from the encodings of a graph, \<^verbatim>\<open>InsertPair\<close>
  and \<^verbatim>\<open>DeletePair\<close> of any pair lead to encodings of the changed graph, and every pair of different
  vertices is answered soundly before and after.\<close>

theorem bithash_updates_sound:
  assumes "wf_config cfg" "bh_graph cfg st adj" "sym_adj cfg adj" "\<And>v. distinct (adj v)" "is_vertex cfg a" "is_vertex cfg b" "a \<noteq> b"
  shows "bh_answers cfg st adj \<and>
    (\<exists>st'. BH_InsertPair cfg a b st = Some st' \<and> bh_graph cfg st' (adj(a := b # adj a, b := a # adj b)) \<and>
      bh_answers cfg st' (adj(a := b # adj a, b := a # adj b))) \<and>
    (\<exists>st'. BH_DeletePair cfg adj a b st = Some st' \<and> bh_graph cfg st' (adj(a := remove1 b (adj a), b := remove1 a (adj b))) \<and>
      bh_answers cfg st' (adj(a := remove1 b (adj a), b := remove1 a (adj b))))"
proof -
  have "sym_adj cfg (adj(a := b # adj a, b := a # adj b))" using assms(3,5-7) by (auto simp: sym_adj_def)
  moreover have "sym_adj cfg (adj(a := remove1 b (adj a), b := remove1 a (adj b)))"
    using assms(3-7) by (auto simp: sym_adj_def)
  ultimately show ?thesis
    using bh_graph_answers [OF assms(1)] assms(2,3) BH_insert_graph [OF assms(1,2,5-7)] BH_delete_graph [OF assms(1,2,5-7)] by blast
qed

text \<open>Building the bitmap encoding of an undirected graph vertex by vertex succeeds, and every pair of
  different vertices is then answered soundly.\<close>

theorem bithash_graph_sound:
  assumes "wf_config cfg" "\<And>v. is_vertex cfg v \<Longrightarrow> \<forall>x \<in> set (adj v). is_vertex cfg x"
    "\<And>u v. is_vertex cfg u \<Longrightarrow> is_vertex cfg v \<Longrightarrow> u \<in> set (adj v) \<longleftrightarrow> v \<in> set (adj u)"
  shows "\<exists>st. build_all (BH_EncodeVertex cfg) adj (vertex_list cfg) (EncodeBitSet cfg) = Some st \<and> wf_encoding cfg st \<and> bh_answers cfg st adj"
proof -
  have "ids_ok cfg (adj v)" if "is_vertex cfg v" for v using assms(2) [OF that] by (simp add: ids_ok_def)
  from bithash.graph_sound [OF assms(1) this assms(3)] obtain st where
    st: "build_all (BH_EncodeVertex cfg) adj (vertex_list cfg) (EncodeBitSet cfg) = Some st" "wf_encoding cfg st"
    "\<And>u v. is_vertex cfg u \<Longrightarrow> is_vertex cfg v \<Longrightarrow> \<exists>r. bh_upper_test cfg st v u = Some r \<and> answer_ok r (u \<in> set (adj v))"
    by blast
  have lt: "\<exists>r. BH_NonNeighborTest cfg st x y = Some r \<and> r \<noteq> Neighbor \<and> (r = NonNeighbor \<longrightarrow> y \<notin> set (adj x))"
    if "is_vertex cfg x" "is_vertex cfg y" "x < y" for x y
    using st(3) [OF that(2,1)] BH_test_eq [OF assms(1) st(2) that(1), of y] that(3) by (auto simp: bh_upper_test_def split: if_splits)
  have "bh_answers cfg st adj"
    unfolding bh_answers_def BH_NEpairTest_def
  proof (intro allI impI)
    fix u v assume "is_vertex cfg u" "is_vertex cfg v" "u \<noteq> v"
    with lt [of v u] lt [of u v] assms(3) [of u v]
    show "\<exists>r. (if v < u then BH_NonNeighborTest cfg st v u else BH_NonNeighborTest cfg st u v) = Some r \<and> r \<noteq> Neighbor \<and>
        (r = NonNeighbor \<longrightarrow> u \<notin> set (adj v))" by (cases "v < u") auto
  qed
  with st(1,2) show ?thesis by blast
qed

section \<open>BloomEncode\<close>

definition bloom_config :: "config \<Rightarrow> bool" where
  "bloom_config cfg \<longleftrightarrow> wf_config cfg \<and> 2 \<le> K_SIZE cfg"

definition bloom_slot :: "config \<Rightarrow> u32 \<Rightarrow> u32 \<Rightarrow> nat" where
  "bloom_slot cfg v u = the (Bloom_Hash cfg v u)"

definition bloom_encodes :: "config \<Rightarrow> u32 \<Rightarrow> bitset \<Rightarrow> u32 list \<Rightarrow> bool" where
  "bloom_encodes cfg v e ns \<longleftrightarrow> wf_enc cfg e \<and>
     (if block_val e 0 32 \<noteq> 0 then range_words cfg e = ns @ replicate (max_int_size cfg - length ns) 0
      else \<forall>u \<in> set ns. bitat e (bloom_slot cfg v u))"

lemma bloom_sizes:
  assumes "bloom_config cfg"
  shows "wf_config cfg" "Bloom_block_size cfg = max_int_size cfg" "32 + Bloom_bit_size cfg = PER_ENCODE_BIT_SIZE cfg"
    "0 < Bloom_bit_size cfg" "PER_ENCODE_BIT_SIZE cfg \<le> 2048" "32 + 32 * max_int_size cfg = PER_ENCODE_BIT_SIZE cfg"
proof -
  show wf: "wf_config cfg" using assms by (simp add: bloom_config_def)
  have "2 \<le> K_SIZE cfg" "K_SIZE cfg \<le> 64" using assms wf_configD(1,2) [OF wf] by (simp_all add: bloom_config_def)
  then show "Bloom_block_size cfg = max_int_size cfg" "32 + Bloom_bit_size cfg = PER_ENCODE_BIT_SIZE cfg"
    "0 < Bloom_bit_size cfg" "PER_ENCODE_BIT_SIZE cfg \<le> 2048" "32 + 32 * max_int_size cfg = PER_ENCODE_BIT_SIZE cfg"
    using wf_configD(1,2) [OF wf] by (simp_all add: Bloom_block_size_def Bloom_bit_size_def max_int_size_def)
qed

lemma Bloom_Hash_slot:
  assumes "bloom_config cfg"
  shows "Bloom_Hash cfg v u = Some (bloom_slot cfg v u)" "32 \<le> bloom_slot cfg v u" "bloom_slot cfg v u < PER_ENCODE_BIT_SIZE cfg"
proof -
  note c = bloom_sizes [OF assms]
  have "\<exists>h. pair_hash (Bloom_bit_size cfg) v u = Some h \<and> h < Bloom_bit_size cfg"
    using c(4) by (simp add: pair_hash_def aget_def HASH_PARAM1_def HASH_PARAM2_def)
  then obtain h where h: "pair_hash (Bloom_bit_size cfg) v u = Some h" "h < Bloom_bit_size cfg" by blast
  then have "Bloom_Hash cfg v u = Some (h + 32)" using c(3,5) by (simp add: Bloom_Hash_def)
  with h(2) c(3) show "Bloom_Hash cfg v u = Some (bloom_slot cfg v u)" "32 \<le> bloom_slot cfg v u"
    "bloom_slot cfg v u < PER_ENCODE_BIT_SIZE cfg" by (simp_all add: bloom_slot_def)
qed

lemma fresh_is_clear:
  assumes "wf_config cfg" "fresh cfg e"
  shows "ClearBits e = e"
proof -
  have wf: "wf_enc cfg e" using assms(2) by (simp add: fresh_def)
  note P = bh_P [OF assms(1) wf]
  show ?thesis using P assms(2) by (intro bitset_eqI) (simp_all add: fresh_def)
qed

lemma Bloom_encode_full:
  assumes "bloom_config cfg" "fresh cfg e" "length ns \<le> max_int_size cfg"
  shows "\<exists>e'. Bloom_SetFullEncode ns e = Some e' \<and> wf_enc cfg e' \<and> bloom_encodes cfg v e' ns"
proof -
  note c = bloom_sizes [OF assms(1)]
  have wf: "wf_enc cfg e" using assms(2) by (simp add: fresh_def)
  from range_write [OF c(1) wf assms(3), of True] obtain e0 e1 where
    "SetFlag True (ClearBits e) = Some e0" "put_blocks BlockSet e0 32 32 ns = Some e1" "wf_enc cfg e1" "block_val e1 0 32 \<noteq> 0"
    "range_words cfg e1 = ns @ replicate (max_int_size cfg - length ns) 0" by auto
  then show ?thesis unfolding fresh_is_clear [OF c(1) assms(2)]
    by (simp add: Bloom_SetFullEncode_def Flag_set_def SetFlag_def bloom_encodes_def)
qed

lemma Bloom_encode_hash:
  assumes "bloom_config cfg" "fresh cfg e"
  shows "\<exists>e'. Bloom_SetBloomEncode cfg v ns e = Some e' \<and> wf_enc cfg e' \<and> bloom_encodes cfg v e' ns"
proof -
  note c = bloom_sizes [OF assms(1)]
  have wf: "wf_enc cfg e" using assms(2) by (simp add: fresh_def)
  from range_write [OF c(1) wf, of "[]" False] obtain e0 where
    e0: "SetFlag False (ClearBits e) = Some e0" "wf_enc cfg e0" "block_val e0 0 32 = 0" by auto
  note P = bh_P [OF c(1) e0(2)]
  have "\<exists>e'. foldo (\<lambda>u e. do { p \<leftarrow> Bloom_Hash cfg v u; SetOne e p }) ns e0 = Some e' \<and> wf_bs e' \<and> 8 * bs_size e' = 8 * bs_size e0 \<and>
      (\<forall>q < 8 * bs_size e0. bitat e' q \<longleftrightarrow> bitat e0 q \<or> (\<exists>u \<in> set ns. Bloom_Hash cfg v u = Some q))"
    using P Bloom_Hash_slot [OF assms(1)] by (intro bs.set_positions_law) simp_all
  then obtain e' where e': "foldo (\<lambda>u e. do { p \<leftarrow> Bloom_Hash cfg v u; SetOne e p }) ns e0 = Some e'" "wf_bs e'" "8 * bs_size e' = PER_ENCODE_BIT_SIZE cfg"
    "\<And>q. q < PER_ENCODE_BIT_SIZE cfg \<Longrightarrow> bitat e' q \<longleftrightarrow> bitat e0 q \<or> (\<exists>u \<in> set ns. bloom_slot cfg v u = q)"
    unfolding P(2) Bloom_Hash_slot(1) [OF assms(1)] by auto
  have "block_val e' 0 32 = block_val e0 0 32"
  proof (rule block_val_cong)
    fix p assume p: "p < 0 + (32 :: nat)"
    then have "bloom_slot cfg v u \<noteq> p" for u using Bloom_Hash_slot(2) [OF assms(1), of v u] by auto
    with p show "bitat e' p = bitat e0 p" using e'(4) [of p] c(6) by auto
  qed
  then have "bloom_encodes cfg v e' ns"
    using e0(2,3) e'(2-4) Bloom_Hash_slot(3) [OF assms(1)] P(2) by (auto simp: bloom_encodes_def wf_enc_def)
  moreover have "Bloom_SetBloomEncode cfg v ns e = Some e'"
    using e0(1) e'(1) fresh_is_clear [OF c(1) assms(2)] by (simp add: Bloom_SetBloomEncode_def Flag_set_def SetFlag_def)
  ultimately show ?thesis by (auto simp: bloom_encodes_def)
qed

lemma Bloom_scan_correct:
  assumes "wf_bs e" "i + 32 * k \<le> 8 * bs_size e"
  shows "Bloom_scan e i k u = Some (if u \<in> set (blocks_val e i 32 k) then Neighbor else NonNeighbor)"
  using assms(2)
proof (induction k arbitrary: i)
  case (Suc k)
  then have "BlockGet e i 32 = Some (block_val e i 32)" using assms(1) by simp
  moreover have "Bloom_scan e (i + 32) k u = Some (if u \<in> set (blocks_val e (i + 32) 32 k) then Neighbor else NonNeighbor)"
    using Suc.prems by (intro Suc.IH) simp
  ultimately show ?case by (auto simp: blocks_val_Suc)
qed (simp add: blocks_val_def)

lemma Bloom_test_sound:
  assumes "bloom_config cfg" "wf_encoding cfg st" "is_vertex cfg v" "is_vertex cfg u" "bloom_encodes cfg v (st ! unat v) ns"
  shows "\<exists>r. Bloom_NonNeighborTest cfg st v u = Some r \<and> answer_ok r (u \<in> set ns)"
proof -
  note c = bloom_sizes [OF assms(1)] and h = Bloom_Hash_slot [OF assms(1), of v u]
  have v: "unat v < length st" using is_vertex_index [OF assms(2,3)] .
  then have wf: "wf_enc cfg (st ! unat v)" using assms(2) by (simp add: wf_encoding_def)
  note P = bh_P [OF c(1) wf]
  have flag: "Flag_get (st ! unat v) = Some (block_val (st ! unat v) 0 32 \<noteq> 0)" using P c(6) by (simp add: Flag_get_def)
  have scan: "Bloom_scan (st ! unat v) 32 (max_int_size cfg) u =
      Some (if u \<in> set (range_words cfg (st ! unat v)) then Neighbor else NonNeighbor)"
    unfolding range_words_def using P c(6) by (intro Bloom_scan_correct) simp_all
  have u: "u \<noteq> 0" using assms(4) by (auto simp: is_vertex_def)
  show ?thesis
  proof (cases "block_val (st ! unat v) 0 32 = 0")
    case True
    then have "\<forall>x \<in> set ns. bitat (st ! unat v) (bloom_slot cfg v x)" using assms(5) by (simp add: bloom_encodes_def)
    with True flag v h P show ?thesis by (auto simp: Bloom_NonNeighborTest_def aget_def)
  next
    case False
    then have "range_words cfg (st ! unat v) = ns @ replicate (max_int_size cfg - length ns) 0" using assms(5) by (simp add: bloom_encodes_def)
    with False flag v scan c(2) u show ?thesis by (auto simp: Bloom_NonNeighborTest_def aget_def)
  qed
qed

interpretation bloomenc: slot_encoder bloom_config ids_ok fresh bloom_encodes Bloom_EncodeVertex Bloom_NonNeighborTest
proof
  fix cfg v
  assume "bloom_config cfg" "is_vertex cfg v"
  then show "fresh cfg (EncodeBitSet cfg ! unat v)" using EncodeBitSet_wf(2) bloom_sizes(1) by blast
next
  fix cfg st v and ns :: "u32 list"
  assume a: "bloom_config cfg" "wf_encoding cfg st" "is_vertex cfg v" "fresh cfg (st ! unat v)"
  have "\<exists>e. (if length ns \<le> Bloom_block_size cfg then Bloom_SetFullEncode ns (st ! unat v) else Bloom_SetBloomEncode cfg v ns (st ! unat v)) = Some e \<and>
      wf_enc cfg e \<and> bloom_encodes cfg v e ns"
    using Bloom_encode_full [OF a(1,4)] Bloom_encode_hash [OF a(1,4)] bloom_sizes(2) [OF a(1)] by simp
  then show "\<exists>e. Bloom_EncodeVertex cfg v ns st = Some (st[unat v := e]) \<and> wf_enc cfg e \<and> bloom_encodes cfg v e ns"
    using is_vertex_index [OF a(2,3)] by (auto simp: Bloom_EncodeVertex_def aget_def aput_def)
qed (blast intro: bloom_sizes Bloom_test_sound)+

text \<open>C27. \<^verbatim>\<open>BloomEncode\<close>: building the encoding of an undirected graph succeeds and every pair is then
  answered soundly.\<close>

theorem bloom_encode_graph_sound:
  assumes "bloom_config cfg" "\<And>v. is_vertex cfg v \<Longrightarrow> \<forall>x \<in> set (adj v). is_vertex cfg x"
    "\<And>u v. is_vertex cfg u \<Longrightarrow> is_vertex cfg v \<Longrightarrow> u \<in> set (adj v) \<longleftrightarrow> v \<in> set (adj u)"
  shows "\<exists>st. build_all (Bloom_EncodeVertex cfg) adj (vertex_list cfg) (EncodeBitSet cfg) = Some st \<and>
    (\<forall>u v. is_vertex cfg u \<longrightarrow> is_vertex cfg v \<longrightarrow> (\<exists>r. Bloom_NEpairTest cfg st v u = Some r \<and>
      (r = Neighbor \<longrightarrow> u \<in> set (adj v)) \<and> (r = NonNeighbor \<longrightarrow> u \<notin> set (adj v))))"
proof -
  have "ids_ok cfg (adj v)" if "is_vertex cfg v" for v using assms(2) [OF that] by (simp add: ids_ok_def)
  from bloomenc.graph_sound [OF assms(1) this assms(3)] obtain st where
    st: "build_all (Bloom_EncodeVertex cfg) adj (vertex_list cfg) (EncodeBitSet cfg) = Some st"
    "\<And>u v. is_vertex cfg u \<Longrightarrow> is_vertex cfg v \<Longrightarrow> \<exists>r. Bloom_NonNeighborTest cfg st v u = Some r \<and> answer_ok r (u \<in> set (adj v))"
    by blast
  have "\<exists>r. Bloom_NEpairTest cfg st v u = Some r \<and> answer_ok r (u \<in> set (adj v))" if "is_vertex cfg u" "is_vertex cfg v" for u v
  proof -
    from st(2) [OF that] st(2) [OF that(2,1)] assms(3) [OF that] obtain r1 r2 where
      "Bloom_NonNeighborTest cfg st v u = Some r1" "answer_ok r1 (u \<in> set (adj v))"
      "Bloom_NonNeighborTest cfg st u v = Some r2" "answer_ok r2 (u \<in> set (adj v))" by auto
    then show ?thesis by (simp add: Bloom_NEpairTest_def answer_ok_min)
  qed
  with st(1) show ?thesis by (fastforce simp: answer_ok_def)
qed

text \<open>\<^verbatim>\<open>BloomEncode::InsertPair\<close> does nothing, so an edge inserted into a new encoding is answered
  \<^verbatim>\<open>NonNeighbor\<close>.\<close>

theorem bloom_insert_lost:
  assumes "bloom_config cfg" "is_vertex cfg a" "is_vertex cfg b"
  shows "\<exists>st. Bloom_InsertPair a b (EncodeBitSet cfg) = Some st \<and> Bloom_NEpairTest cfg st a b = Some NonNeighbor"
proof -
  note c = bloom_sizes [OF assms(1)]
  let ?st = "EncodeBitSet cfg"
  have t: "Bloom_NonNeighborTest cfg ?st x y = Some NonNeighbor" if "is_vertex cfg x" for x y
  proof -
    have fresh: "fresh cfg (?st ! unat x)" using EncodeBitSet_wf(2) [OF c(1) that] .
    have x: "unat x < length ?st" using is_vertex_index [OF EncodeBitSet_wf(1) [OF c(1)] that] .
    have wf: "wf_enc cfg (?st ! unat x)" using fresh by (simp add: fresh_def)
    note P = bh_P [OF c(1) wf]
    have "block_val (?st ! unat x) 0 32 = 0" using fresh c(6) by (intro bit_word_eqI) (auto simp: bit_block_val fresh_def)
    then have "Flag_get (?st ! unat x) = Some False" using P c(6) by (simp add: Flag_get_def)
    moreover have "\<not> bitat (?st ! unat x) (bloom_slot cfg x y)" using fresh Bloom_Hash_slot(3) [OF assms(1)] by (simp add: fresh_def)
    ultimately show ?thesis using x P Bloom_Hash_slot [OF assms(1), of x y] by (simp add: Bloom_NonNeighborTest_def aget_def)
  qed
  then show ?thesis using assms(2,3) by (simp add: Bloom_InsertPair_def Bloom_NEpairTest_def)
qed

section \<open>Witnesses\<close>

definition small_demo :: config where
  "small_demo = \<lparr>K_SIZE = 2, VERTEX_SIZE = 10, DEGREE = 4, B_FILTER_ENCODE_BITS = 20,
     PER_ENCODE_BIT_SIZE = 64, VERTEX_BIT_SIZE = 4, MAX_K_CORE_SIZE = 15, LOG_K = 4,
     MAX_INTEGER_SIZE = 14, BLOCK_BEGIN_INDEX = 7, BLOCK_NUMS = 1, ELEMENT_SIZE = 5,
     BIT_HASH_BEST_NUMS = 1, INT_HASH_BEST_NUMS = 1, COUNT_HASH_BEST_NUMS = 1, PREFIX_BIT_SIZE = 7, HSIMD = False\<rparr>"

definition small_adj :: "u32 \<Rightarrow> u32 list" where
  "small_adj v = (if v = 1 then [10, 2] else if v = 2 \<or> v = 10 then [1] else [])"

lemma small_demo_Init:
  "do { cfg \<leftarrow> InitCommonVariables False 2 10 4; InitHashConfig 1 1 cfg } = Some small_demo"
proof -
  have "clog2 10 = 4" "clog2 16 = 4" "clog2 40 = 6" by (rule clog2_unique; simp)+
  then show ?thesis
    by (simp add: InitCommonVariables_def InitHashConfig_def small_demo_def cdiv_def UP_TO_ONE_def Let_def)
qed

lemma small_demo_wf: "wf_config small_demo"
  by (simp add: wf_config_def small_demo_def)

lemma small_adj_props: "\<forall>x \<in> set (small_adj v). is_vertex small_demo x" "u \<in> set (small_adj v) \<longleftrightarrow> v \<in> set (small_adj u)"
  "distinct (small_adj v)"
  by (auto simp: small_adj_def is_vertex_def small_demo_def)

lemma small_empty_graph: "bh_graph small_demo (EncodeBitSet small_demo) (\<lambda>v. [])"
proof -
  have "fresh small_demo (EncodeBitSet small_demo ! unat v)" if "is_vertex small_demo v" for v
    using EncodeBitSet_wf(2) [OF small_demo_wf that] .
  then show ?thesis using EncodeBitSet_wf(1) [OF small_demo_wf] by (auto simp: bh_graph_def bh_encodes_def fresh_def)
qed

lemma bithash_graph_sound_witness:
  "\<exists>st. build_all (BH_EncodeVertex small_demo) small_adj (vertex_list small_demo) (EncodeBitSet small_demo) = Some st \<and>
     BH_NEpairTest small_demo st 10 1 = Some Uncertain"
proof -
  have v: "is_vertex small_demo 1" "is_vertex small_demo 10" "1 \<in> set (small_adj 10)"
    by (simp_all add: is_vertex_def small_demo_def small_adj_def)
  from bithash_graph_sound [OF small_demo_wf small_adj_props(1,2)] obtain st where
    "build_all (BH_EncodeVertex small_demo) small_adj (vertex_list small_demo) (EncodeBitSet small_demo) = Some st"
    "bh_answers small_demo st small_adj" by blast
  moreover from this(2) v obtain r where "BH_NEpairTest small_demo st 10 1 = Some r" "r \<noteq> Neighbor" "r \<noteq> NonNeighbor"
    unfolding bh_answers_def by force
  ultimately show ?thesis by (cases r) auto
qed

lemma bithash_updates_sound_witness:
  "\<exists>st'. BH_InsertPair small_demo 7 3 (EncodeBitSet small_demo) = Some st' \<and>
     bh_answers small_demo st' ((\<lambda>v. [])(7 := [3], 3 := [7]))"
  using bithash_updates_sound [OF small_demo_wf small_empty_graph, of 7 3] by (auto simp: sym_adj_def is_vertex_def small_demo_def)

lemma bloom_encode_graph_sound_witness:
  "\<exists>st. build_all (Bloom_EncodeVertex small_demo) small_adj (vertex_list small_demo) (EncodeBitSet small_demo) = Some st \<and>
     (\<exists>r. Bloom_NEpairTest small_demo st 10 1 = Some r \<and> r \<noteq> NonNeighbor)"
proof -
  have v: "is_vertex small_demo 1" "is_vertex small_demo 10" "1 \<in> set (small_adj 10)" "bloom_config small_demo"
    using small_demo_wf by (simp_all add: is_vertex_def small_demo_def small_adj_def bloom_config_def)
  from bloom_encode_graph_sound [OF v(4) small_adj_props(1,2)] obtain st where
    "build_all (Bloom_EncodeVertex small_demo) small_adj (vertex_list small_demo) (EncodeBitSet small_demo) = Some st"
    "\<forall>u v. is_vertex small_demo u \<longrightarrow> is_vertex small_demo v \<longrightarrow> (\<exists>r. Bloom_NEpairTest small_demo st v u = Some r \<and>
      (r = Neighbor \<longrightarrow> u \<in> set (small_adj v)) \<and> (r = NonNeighbor \<longrightarrow> u \<notin> set (small_adj v)))" by blast
  with v show ?thesis by blast
qed

lemma bloom_insert_lost_witness:
  "\<exists>st. Bloom_InsertPair 1 2 (EncodeBitSet small_demo) = Some st \<and> Bloom_NEpairTest small_demo st 1 2 = Some NonNeighbor"
  using bloom_insert_lost [of small_demo 1 2] small_demo_wf by (simp add: is_vertex_def small_demo_def bloom_config_def)

section \<open>CountEncode\<close>

text \<open>C28. \<^verbatim>\<open>CountEncode\<close> is not sound: of two neighbours in ascending order that are stored completely, the
  larger one is answered \<^verbatim>\<open>NonNeighbor\<close>, because the search stops at the first smaller value.\<close>

theorem count_encode_unsound:
  assumes "bloom_config cfg" "Count_element_nums cfg = Some n" "2 \<le> n" "0 < ELEMENT_SIZE cfg" "ELEMENT_SIZE cfg \<le> 32"
    "is_vertex cfg v" "x < y" "unat y < 2 ^ ELEMENT_SIZE cfg"
  shows "\<exists>st. Count_EncodeVertex cfg v [x, y] (EncodeBitSet cfg) = Some st \<and> Count_NonNeighborTest cfg st v y = Some NonNeighbor"
proof -
  note c = bloom_sizes [OF assms(1)]
  let ?st = "EncodeBitSet cfg" and ?s = "ELEMENT_SIZE cfg"
  have "n * ?s \<le> Bloom_bit_size cfg" using assms(2,4) by (auto simp: Count_element_nums_def Bloom_bit_size_def cdiv_def split: if_splits)
  then have s: "32 + 2 * ?s \<le> PER_ENCODE_BIT_SIZE cfg" using mult_le_mono1 [OF assms(3), of ?s] c(3) by linarith
  have fresh: "fresh cfg (?st ! unat v)" using EncodeBitSet_wf(2) [OF c(1) assms(6)] .
  have v: "unat v < length ?st" using is_vertex_index [OF EncodeBitSet_wf(1) [OF c(1)] assms(6)] .
  have wf: "wf_enc cfg (?st ! unat v)" using fresh by (simp add: fresh_def)
  from range_write [OF c(1) wf, of "[]" True] fresh_is_clear [OF c(1) fresh] obtain e0 where
    e0: "Flag_set True (?st ! unat v) = Some e0" "wf_enc cfg e0" "block_val e0 0 32 \<noteq> 0" by (auto simp: Flag_set_def SetFlag_def)
  note P = bh_P [OF c(1) e0(2)]
  have bound: "\<forall>z \<in> set [x, y]. unat z < 2 ^ ?s" using assms(7,8) by (auto simp: word_less_nat_alt)
  have "bs_size e0 \<le> 256" "32 + ?s * length [x, y] \<le> 8 * bs_size e0" using P(2) c(5) s by simp_all
  from put_blocks_BlockSet [OF P(1) this(2) assms(4,5) this(1) bound] obtain e where
    e: "put_blocks BlockSet e0 32 ?s [x, y] = Some e" "wf_bs e" "bs_size e = bs_size e0" "blocks_val e 32 ?s (length [x, y]) = [x, y]"
    "\<And>q. q < 8 * bs_size e0 \<Longrightarrow> \<not> (32 \<le> q \<and> q < 32 + ?s * length [x, y]) \<Longrightarrow> bitat e q = bitat e0 q" by blast
  have "block_val e 0 32 = block_val e0 0 32" using e(5) P(2) c(6) by (intro block_val_cong) simp
  then have flag: "Flag_get e = Some True" using e(2,3) P(2) c(6) e0(3) by (simp add: Flag_get_def)
  have "block_val e 32 ?s = x" using e(4) by (simp add: blocks_val_def)
  moreover have "BlockGet e 32 ?s = Some (block_val e 32 ?s)" using e(2,3) P(2) s assms(4,5) by (intro BlockGet_correct readable_aligned) simp_all
  ultimately have "Count_scan e ?s 32 n y = Some NonNeighbor" using assms(3,7) by (cases n) auto
  moreover have "Count_EncodeVertex cfg v [x, y] ?st = Some (?st[unat v := e])"
    using assms(2,3) v e0(1) e(1) by (simp add: Count_EncodeVertex_def Count_SetFullEncode_def aget_def aput_def)
  ultimately show ?thesis using assms(2) v flag by (simp add: Count_NonNeighborTest_def aget_def)
qed

lemma count_encode_unsound_witness:
  "\<exists>st. Count_EncodeVertex small_demo 1 [2, 10] (EncodeBitSet small_demo) = Some st \<and> Count_NonNeighborTest small_demo st 1 10 = Some NonNeighbor"
  using count_encode_unsound [of small_demo 6 1 2 10] small_demo_wf
  by (simp add: is_vertex_def small_demo_def bloom_config_def Count_element_nums_def cdiv_def)

end
