(* ===== verification/Delta_Tables.thy ===== *)
theory Delta_Tables
  imports Vend_Prelude
begin

text \<open>
  The constant tables of \<^verbatim>\<open>encode/codec/SIMD/delta_simd_codec.h\<close> and \<^verbatim>\<open>.cpp\<close>, row by row as the source has
  them, and the formulas they tabulate. A control byte holds the lengths of four values, two bits
  each: \<open>lengthTable\<close> is the total length, \<open>TotalLengthTable\<close> the partial sums, \<open>shuffleTable\<close> the byte
  shuffle that spreads the four values over four lanes of 32 bits. \<open>ary_order\<close> is the order in which
  the third version of the codec stores a list.
\<close>

section \<open>The tables\<close>

definition SEARCH_MASK :: "nat list" where
  "SEARCH_MASK = [0x00, 0x01, 0x03, 0x07, 0x0F]"

definition LAST_COMPARE_MASK :: "nat list" where
  "LAST_COMPARE_MASK = [0x0F, 0x01, 0x03, 0x07]"

definition ENCODE_LENGTH_MASK :: "u8 list" where
  "ENCODE_LENGTH_MASK = [0xFF, 0x03, 0x0F, 0x3F]"

text \<open>The rows are filled up with zeros.\<close>

definition ary_order :: "nat list list" where
  "ary_order = map (\<lambda>r. r @ replicate (40 - length r) 0) [
     [0],
     [0, 1],
     [0, 1, 2],
     [0, 1, 2, 3],
     [0, 1, 2, 4, 3],
     [0, 1, 2, 5, 3, 4],
     [0, 1, 2, 6, 3, 4, 5],
     [0, 1, 2, 7, 3, 4, 5, 6],
     [0, 5, 6, 8, 1, 2, 3, 4, 7],
     [0, 5, 6, 9, 1, 2, 3, 4, 7, 8],
     [0, 5, 6, 10, 1, 2, 3, 4, 7, 8, 9],
     [0, 5, 6, 11, 1, 2, 3, 4, 7, 8, 9, 10],
     [0, 5, 10, 12, 1, 2, 3, 4, 6, 7, 8, 9, 11],
     [0, 5, 10, 13, 1, 2, 3, 4, 6, 7, 8, 9, 11, 12],
     [0, 5, 10, 14, 1, 2, 3, 4, 6, 7, 8, 9, 11, 12, 13],
     [0, 5, 10, 15, 1, 2, 3, 4, 6, 7, 8, 9, 11, 12, 13, 14],
     [0, 5, 10, 16, 1, 2, 3, 4, 6, 7, 8, 9, 11, 12, 13, 14, 15],
     [0, 5, 10, 17, 1, 2, 3, 4, 6, 7, 8, 9, 11, 12, 13, 14, 15, 16],
     [0, 5, 10, 18, 1, 2, 3, 4, 6, 7, 8, 9, 11, 12, 13, 14, 15, 16, 17],
     [0, 5, 10, 19, 1, 2, 3, 4, 6, 7, 8, 9, 11, 12, 13, 14, 15, 16, 17, 18],
     [0, 5, 10, 20, 1, 2, 3, 4, 6, 7, 8, 9, 15, 16, 17, 18, 11, 12, 13, 14, 19],
     [0, 5, 10, 21, 1, 2, 3, 4, 6, 7, 8, 9, 15, 16, 17, 18, 11, 12, 13, 14, 19, 20],
     [0, 5, 10, 22, 1, 2, 3, 4, 6, 7, 8, 9, 15, 16, 17, 18, 11, 12, 13, 14, 19, 20, 21],
     [0, 5, 10, 23, 1, 2, 3, 4, 6, 7, 8, 9, 15, 16, 17, 18, 11, 12, 13, 14, 19, 20, 21, 22],
     [0, 5, 10, 24, 1, 2, 3, 4, 6, 7, 8, 9, 15, 20, 21, 22, 11, 12, 13, 14, 16, 17, 18, 19, 23],
     [0, 5, 10, 25, 1, 2, 3, 4, 6, 7, 8, 9, 15, 20, 21, 22, 11, 12, 13, 14, 16, 17, 18, 19, 23, 24],
     [0, 5, 10, 26, 1, 2, 3, 4, 6, 7, 8, 9, 15, 20, 21, 22, 11, 12, 13, 14, 16, 17, 18, 19, 23, 24, 25],
     [0, 5, 10, 27, 1, 2, 3, 4, 6, 7, 8, 9, 15, 20, 21, 22, 11, 12, 13, 14, 16, 17, 18, 19, 23, 24, 25, 26],
     [0, 5, 10, 28, 1, 2, 3, 4, 6, 7, 8, 9, 15, 20, 25, 26, 11, 12, 13, 14, 16, 17, 18, 19, 21, 22, 23, 24, 27],
     [0, 5, 10, 29, 1, 2, 3, 4, 6, 7, 8, 9, 15, 20, 25, 26, 11, 12, 13, 14, 16, 17, 18, 19, 21, 22, 23, 24, 27, 28],
     [0, 5, 10, 30, 1, 2, 3, 4, 6, 7, 8, 9, 15, 20, 25, 26, 11, 12, 13, 14, 16, 17, 18, 19, 21, 22, 23, 24, 27, 28, 29],
     [0, 5, 10, 31, 1, 2, 3, 4, 6, 7, 8, 9, 15, 20, 25, 26, 11, 12, 13, 14, 16, 17, 18, 19, 21, 22, 23, 24, 27, 28, 29, 30],
     [0, 5, 10, 32, 1, 2, 3, 4, 6, 7, 8, 9, 15, 20, 25, 30, 11, 12, 13, 14, 16, 17, 18, 19, 21, 22, 23, 24, 26, 27, 28, 29, 31],
     [0, 5, 10, 33, 1, 2, 3, 4, 6, 7, 8, 9, 15, 20, 25, 30, 11, 12, 13, 14, 16, 17, 18, 19, 21, 22, 23, 24, 26, 27, 28, 29, 31, 32],
     [0, 5, 10, 34, 1, 2, 3, 4, 6, 7, 8, 9, 15, 20, 25, 30, 11, 12, 13, 14, 16, 17, 18, 19, 21, 22, 23, 24, 26, 27, 28, 29, 31, 32, 33],
     [0, 5, 10, 35, 1, 2, 3, 4, 6, 7, 8, 9, 15, 20, 25, 30, 11, 12, 13, 14, 16, 17, 18, 19, 21, 22, 23, 24, 26, 27, 28, 29, 31, 32, 33, 34],
     [0, 5, 14, 36, 1, 2, 3, 4, 6, 7, 8, 9, 19, 24, 29, 34, 10, 11, 12, 13, 15, 16, 17, 18, 20, 21, 22, 23, 25, 26, 27, 28, 30, 31, 32, 33, 35],
     [0, 5, 14, 37, 1, 2, 3, 4, 6, 7, 8, 9, 19, 24, 29, 34, 10, 11, 12, 13, 15, 16, 17, 18, 20, 21, 22, 23, 25, 26, 27, 28, 30, 31, 32, 33, 35, 36],
     [0, 5, 14, 38, 1, 2, 3, 4, 6, 7, 8, 9, 19, 24, 29, 34, 10, 11, 12, 13, 15, 16, 17, 18, 20, 21, 22, 23, 25, 26, 27, 28, 30, 31, 32, 33, 35, 36, 37],
     [0, 5, 14, 39, 1, 2, 3, 4, 6, 7, 8, 9, 19, 24, 29, 34, 10, 11, 12, 13, 15, 16, 17, 18, 20, 21, 22, 23, 25, 26, 27, 28, 30, 31, 32, 33, 35, 36, 37, 38]]"

definition lengthTable :: "nat list" where
  "lengthTable = [
     4, 5, 6, 7, 5, 6, 7, 8, 6, 7, 8, 9, 7, 8, 9, 10, 5, 6, 7, 8, 6, 7, 8, 9, 7, 8, 9, 10, 8, 9, 10, 11,
     6, 7, 8, 9, 7, 8, 9, 10, 8, 9, 10, 11, 9, 10, 11, 12, 7, 8, 9, 10, 8, 9, 10, 11, 9, 10, 11, 12, 10, 11, 12, 13,
     5, 6, 7, 8, 6, 7, 8, 9, 7, 8, 9, 10, 8, 9, 10, 11, 6, 7, 8, 9, 7, 8, 9, 10, 8, 9, 10, 11, 9, 10, 11, 12,
     7, 8, 9, 10, 8, 9, 10, 11, 9, 10, 11, 12, 10, 11, 12, 13, 8, 9, 10, 11, 9, 10, 11, 12, 10, 11, 12, 13, 11, 12, 13, 14,
     6, 7, 8, 9, 7, 8, 9, 10, 8, 9, 10, 11, 9, 10, 11, 12, 7, 8, 9, 10, 8, 9, 10, 11, 9, 10, 11, 12, 10, 11, 12, 13,
     8, 9, 10, 11, 9, 10, 11, 12, 10, 11, 12, 13, 11, 12, 13, 14, 9, 10, 11, 12, 10, 11, 12, 13, 11, 12, 13, 14, 12, 13, 14, 15,
     7, 8, 9, 10, 8, 9, 10, 11, 9, 10, 11, 12, 10, 11, 12, 13, 8, 9, 10, 11, 9, 10, 11, 12, 10, 11, 12, 13, 11, 12, 13, 14,
     9, 10, 11, 12, 10, 11, 12, 13, 11, 12, 13, 14, 12, 13, 14, 15, 10, 11, 12, 13, 11, 12, 13, 14, 12, 13, 14, 15, 13, 14, 15, 16]"

definition TotalLengthTable_lo :: "nat list list" where
  "TotalLengthTable_lo = [
     [1, 2, 3, 4],
     [2, 3, 4, 5],
     [3, 4, 5, 6],
     [4, 5, 6, 7],
     [1, 3, 4, 5],
     [2, 4, 5, 6],
     [3, 5, 6, 7],
     [4, 6, 7, 8],
     [1, 4, 5, 6],
     [2, 5, 6, 7],
     [3, 6, 7, 8],
     [4, 7, 8, 9],
     [1, 5, 6, 7],
     [2, 6, 7, 8],
     [3, 7, 8, 9],
     [4, 8, 9, 10],
     [1, 2, 4, 5],
     [2, 3, 5, 6],
     [3, 4, 6, 7],
     [4, 5, 7, 8],
     [1, 3, 5, 6],
     [2, 4, 6, 7],
     [3, 5, 7, 8],
     [4, 6, 8, 9],
     [1, 4, 6, 7],
     [2, 5, 7, 8],
     [3, 6, 8, 9],
     [4, 7, 9, 10],
     [1, 5, 7, 8],
     [2, 6, 8, 9],
     [3, 7, 9, 10],
     [4, 8, 10, 11],
     [1, 2, 5, 6],
     [2, 3, 6, 7],
     [3, 4, 7, 8],
     [4, 5, 8, 9],
     [1, 3, 6, 7],
     [2, 4, 7, 8],
     [3, 5, 8, 9],
     [4, 6, 9, 10],
     [1, 4, 7, 8],
     [2, 5, 8, 9],
     [3, 6, 9, 10],
     [4, 7, 10, 11],
     [1, 5, 8, 9],
     [2, 6, 9, 10],
     [3, 7, 10, 11],
     [4, 8, 11, 12],
     [1, 2, 6, 7],
     [2, 3, 7, 8],
     [3, 4, 8, 9],
     [4, 5, 9, 10],
     [1, 3, 7, 8],
     [2, 4, 8, 9],
     [3, 5, 9, 10],
     [4, 6, 10, 11],
     [1, 4, 8, 9],
     [2, 5, 9, 10],
     [3, 6, 10, 11],
     [4, 7, 11, 12],
     [1, 5, 9, 10],
     [2, 6, 10, 11],
     [3, 7, 11, 12],
     [4, 8, 12, 13],
     [1, 2, 3, 5],
     [2, 3, 4, 6],
     [3, 4, 5, 7],
     [4, 5, 6, 8],
     [1, 3, 4, 6],
     [2, 4, 5, 7],
     [3, 5, 6, 8],
     [4, 6, 7, 9],
     [1, 4, 5, 7],
     [2, 5, 6, 8],
     [3, 6, 7, 9],
     [4, 7, 8, 10],
     [1, 5, 6, 8],
     [2, 6, 7, 9],
     [3, 7, 8, 10],
     [4, 8, 9, 11],
     [1, 2, 4, 6],
     [2, 3, 5, 7],
     [3, 4, 6, 8],
     [4, 5, 7, 9],
     [1, 3, 5, 7],
     [2, 4, 6, 8],
     [3, 5, 7, 9],
     [4, 6, 8, 10],
     [1, 4, 6, 8],
     [2, 5, 7, 9],
     [3, 6, 8, 10],
     [4, 7, 9, 11],
     [1, 5, 7, 9],
     [2, 6, 8, 10],
     [3, 7, 9, 11],
     [4, 8, 10, 12],
     [1, 2, 5, 7],
     [2, 3, 6, 8],
     [3, 4, 7, 9],
     [4, 5, 8, 10],
     [1, 3, 6, 8],
     [2, 4, 7, 9],
     [3, 5, 8, 10],
     [4, 6, 9, 11],
     [1, 4, 7, 9],
     [2, 5, 8, 10],
     [3, 6, 9, 11],
     [4, 7, 10, 12],
     [1, 5, 8, 10],
     [2, 6, 9, 11],
     [3, 7, 10, 12],
     [4, 8, 11, 13],
     [1, 2, 6, 8],
     [2, 3, 7, 9],
     [3, 4, 8, 10],
     [4, 5, 9, 11],
     [1, 3, 7, 9],
     [2, 4, 8, 10],
     [3, 5, 9, 11],
     [4, 6, 10, 12],
     [1, 4, 8, 10],
     [2, 5, 9, 11],
     [3, 6, 10, 12],
     [4, 7, 11, 13],
     [1, 5, 9, 11],
     [2, 6, 10, 12],
     [3, 7, 11, 13],
     [4, 8, 12, 14]]"

definition TotalLengthTable_hi :: "nat list list" where
  "TotalLengthTable_hi = [
     [1, 2, 3, 6],
     [2, 3, 4, 7],
     [3, 4, 5, 8],
     [4, 5, 6, 9],
     [1, 3, 4, 7],
     [2, 4, 5, 8],
     [3, 5, 6, 9],
     [4, 6, 7, 10],
     [1, 4, 5, 8],
     [2, 5, 6, 9],
     [3, 6, 7, 10],
     [4, 7, 8, 11],
     [1, 5, 6, 9],
     [2, 6, 7, 10],
     [3, 7, 8, 11],
     [4, 8, 9, 12],
     [1, 2, 4, 7],
     [2, 3, 5, 8],
     [3, 4, 6, 9],
     [4, 5, 7, 10],
     [1, 3, 5, 8],
     [2, 4, 6, 9],
     [3, 5, 7, 10],
     [4, 6, 8, 11],
     [1, 4, 6, 9],
     [2, 5, 7, 10],
     [3, 6, 8, 11],
     [4, 7, 9, 12],
     [1, 5, 7, 10],
     [2, 6, 8, 11],
     [3, 7, 9, 12],
     [4, 8, 10, 13],
     [1, 2, 5, 8],
     [2, 3, 6, 9],
     [3, 4, 7, 10],
     [4, 5, 8, 11],
     [1, 3, 6, 9],
     [2, 4, 7, 10],
     [3, 5, 8, 11],
     [4, 6, 9, 12],
     [1, 4, 7, 10],
     [2, 5, 8, 11],
     [3, 6, 9, 12],
     [4, 7, 10, 13],
     [1, 5, 8, 11],
     [2, 6, 9, 12],
     [3, 7, 10, 13],
     [4, 8, 11, 14],
     [1, 2, 6, 9],
     [2, 3, 7, 10],
     [3, 4, 8, 11],
     [4, 5, 9, 12],
     [1, 3, 7, 10],
     [2, 4, 8, 11],
     [3, 5, 9, 12],
     [4, 6, 10, 13],
     [1, 4, 8, 11],
     [2, 5, 9, 12],
     [3, 6, 10, 13],
     [4, 7, 11, 14],
     [1, 5, 9, 12],
     [2, 6, 10, 13],
     [3, 7, 11, 14],
     [4, 8, 12, 15],
     [1, 2, 3, 7],
     [2, 3, 4, 8],
     [3, 4, 5, 9],
     [4, 5, 6, 10],
     [1, 3, 4, 8],
     [2, 4, 5, 9],
     [3, 5, 6, 10],
     [4, 6, 7, 11],
     [1, 4, 5, 9],
     [2, 5, 6, 10],
     [3, 6, 7, 11],
     [4, 7, 8, 12],
     [1, 5, 6, 10],
     [2, 6, 7, 11],
     [3, 7, 8, 12],
     [4, 8, 9, 13],
     [1, 2, 4, 8],
     [2, 3, 5, 9],
     [3, 4, 6, 10],
     [4, 5, 7, 11],
     [1, 3, 5, 9],
     [2, 4, 6, 10],
     [3, 5, 7, 11],
     [4, 6, 8, 12],
     [1, 4, 6, 10],
     [2, 5, 7, 11],
     [3, 6, 8, 12],
     [4, 7, 9, 13],
     [1, 5, 7, 11],
     [2, 6, 8, 12],
     [3, 7, 9, 13],
     [4, 8, 10, 14],
     [1, 2, 5, 9],
     [2, 3, 6, 10],
     [3, 4, 7, 11],
     [4, 5, 8, 12],
     [1, 3, 6, 10],
     [2, 4, 7, 11],
     [3, 5, 8, 12],
     [4, 6, 9, 13],
     [1, 4, 7, 11],
     [2, 5, 8, 12],
     [3, 6, 9, 13],
     [4, 7, 10, 14],
     [1, 5, 8, 12],
     [2, 6, 9, 13],
     [3, 7, 10, 14],
     [4, 8, 11, 15],
     [1, 2, 6, 10],
     [2, 3, 7, 11],
     [3, 4, 8, 12],
     [4, 5, 9, 13],
     [1, 3, 7, 11],
     [2, 4, 8, 12],
     [3, 5, 9, 13],
     [4, 6, 10, 14],
     [1, 4, 8, 12],
     [2, 5, 9, 13],
     [3, 6, 10, 14],
     [4, 7, 11, 15],
     [1, 5, 9, 13],
     [2, 6, 10, 14],
     [3, 7, 11, 15],
     [4, 8, 12, 16]]"

definition TotalLengthTable :: "nat list list" where
  "TotalLengthTable = TotalLengthTable_lo @ TotalLengthTable_hi"

definition shuffleTable_lo :: "int list list" where
  "shuffleTable_lo = [
     [0, - 1, - 1, - 1, 1, - 1, - 1, - 1, 2, - 1, - 1, - 1, 3, - 1, - 1, - 1],
     [0, 1, - 1, - 1, 2, - 1, - 1, - 1, 3, - 1, - 1, - 1, 4, - 1, - 1, - 1],
     [0, 1, 2, - 1, 3, - 1, - 1, - 1, 4, - 1, - 1, - 1, 5, - 1, - 1, - 1],
     [0, 1, 2, 3, 4, - 1, - 1, - 1, 5, - 1, - 1, - 1, 6, - 1, - 1, - 1],
     [0, - 1, - 1, - 1, 1, 2, - 1, - 1, 3, - 1, - 1, - 1, 4, - 1, - 1, - 1],
     [0, 1, - 1, - 1, 2, 3, - 1, - 1, 4, - 1, - 1, - 1, 5, - 1, - 1, - 1],
     [0, 1, 2, - 1, 3, 4, - 1, - 1, 5, - 1, - 1, - 1, 6, - 1, - 1, - 1],
     [0, 1, 2, 3, 4, 5, - 1, - 1, 6, - 1, - 1, - 1, 7, - 1, - 1, - 1],
     [0, - 1, - 1, - 1, 1, 2, 3, - 1, 4, - 1, - 1, - 1, 5, - 1, - 1, - 1],
     [0, 1, - 1, - 1, 2, 3, 4, - 1, 5, - 1, - 1, - 1, 6, - 1, - 1, - 1],
     [0, 1, 2, - 1, 3, 4, 5, - 1, 6, - 1, - 1, - 1, 7, - 1, - 1, - 1],
     [0, 1, 2, 3, 4, 5, 6, - 1, 7, - 1, - 1, - 1, 8, - 1, - 1, - 1],
     [0, - 1, - 1, - 1, 1, 2, 3, 4, 5, - 1, - 1, - 1, 6, - 1, - 1, - 1],
     [0, 1, - 1, - 1, 2, 3, 4, 5, 6, - 1, - 1, - 1, 7, - 1, - 1, - 1],
     [0, 1, 2, - 1, 3, 4, 5, 6, 7, - 1, - 1, - 1, 8, - 1, - 1, - 1],
     [0, 1, 2, 3, 4, 5, 6, 7, 8, - 1, - 1, - 1, 9, - 1, - 1, - 1],
     [0, - 1, - 1, - 1, 1, - 1, - 1, - 1, 2, 3, - 1, - 1, 4, - 1, - 1, - 1],
     [0, 1, - 1, - 1, 2, - 1, - 1, - 1, 3, 4, - 1, - 1, 5, - 1, - 1, - 1],
     [0, 1, 2, - 1, 3, - 1, - 1, - 1, 4, 5, - 1, - 1, 6, - 1, - 1, - 1],
     [0, 1, 2, 3, 4, - 1, - 1, - 1, 5, 6, - 1, - 1, 7, - 1, - 1, - 1],
     [0, - 1, - 1, - 1, 1, 2, - 1, - 1, 3, 4, - 1, - 1, 5, - 1, - 1, - 1],
     [0, 1, - 1, - 1, 2, 3, - 1, - 1, 4, 5, - 1, - 1, 6, - 1, - 1, - 1],
     [0, 1, 2, - 1, 3, 4, - 1, - 1, 5, 6, - 1, - 1, 7, - 1, - 1, - 1],
     [0, 1, 2, 3, 4, 5, - 1, - 1, 6, 7, - 1, - 1, 8, - 1, - 1, - 1],
     [0, - 1, - 1, - 1, 1, 2, 3, - 1, 4, 5, - 1, - 1, 6, - 1, - 1, - 1],
     [0, 1, - 1, - 1, 2, 3, 4, - 1, 5, 6, - 1, - 1, 7, - 1, - 1, - 1],
     [0, 1, 2, - 1, 3, 4, 5, - 1, 6, 7, - 1, - 1, 8, - 1, - 1, - 1],
     [0, 1, 2, 3, 4, 5, 6, - 1, 7, 8, - 1, - 1, 9, - 1, - 1, - 1],
     [0, - 1, - 1, - 1, 1, 2, 3, 4, 5, 6, - 1, - 1, 7, - 1, - 1, - 1],
     [0, 1, - 1, - 1, 2, 3, 4, 5, 6, 7, - 1, - 1, 8, - 1, - 1, - 1],
     [0, 1, 2, - 1, 3, 4, 5, 6, 7, 8, - 1, - 1, 9, - 1, - 1, - 1],
     [0, 1, 2, 3, 4, 5, 6, 7, 8, 9, - 1, - 1, 10, - 1, - 1, - 1],
     [0, - 1, - 1, - 1, 1, - 1, - 1, - 1, 2, 3, 4, - 1, 5, - 1, - 1, - 1],
     [0, 1, - 1, - 1, 2, - 1, - 1, - 1, 3, 4, 5, - 1, 6, - 1, - 1, - 1],
     [0, 1, 2, - 1, 3, - 1, - 1, - 1, 4, 5, 6, - 1, 7, - 1, - 1, - 1],
     [0, 1, 2, 3, 4, - 1, - 1, - 1, 5, 6, 7, - 1, 8, - 1, - 1, - 1],
     [0, - 1, - 1, - 1, 1, 2, - 1, - 1, 3, 4, 5, - 1, 6, - 1, - 1, - 1],
     [0, 1, - 1, - 1, 2, 3, - 1, - 1, 4, 5, 6, - 1, 7, - 1, - 1, - 1],
     [0, 1, 2, - 1, 3, 4, - 1, - 1, 5, 6, 7, - 1, 8, - 1, - 1, - 1],
     [0, 1, 2, 3, 4, 5, - 1, - 1, 6, 7, 8, - 1, 9, - 1, - 1, - 1],
     [0, - 1, - 1, - 1, 1, 2, 3, - 1, 4, 5, 6, - 1, 7, - 1, - 1, - 1],
     [0, 1, - 1, - 1, 2, 3, 4, - 1, 5, 6, 7, - 1, 8, - 1, - 1, - 1],
     [0, 1, 2, - 1, 3, 4, 5, - 1, 6, 7, 8, - 1, 9, - 1, - 1, - 1],
     [0, 1, 2, 3, 4, 5, 6, - 1, 7, 8, 9, - 1, 10, - 1, - 1, - 1],
     [0, - 1, - 1, - 1, 1, 2, 3, 4, 5, 6, 7, - 1, 8, - 1, - 1, - 1],
     [0, 1, - 1, - 1, 2, 3, 4, 5, 6, 7, 8, - 1, 9, - 1, - 1, - 1],
     [0, 1, 2, - 1, 3, 4, 5, 6, 7, 8, 9, - 1, 10, - 1, - 1, - 1],
     [0, 1, 2, 3, 4, 5, 6, 7, 8, 9, 10, - 1, 11, - 1, - 1, - 1],
     [0, - 1, - 1, - 1, 1, - 1, - 1, - 1, 2, 3, 4, 5, 6, - 1, - 1, - 1],
     [0, 1, - 1, - 1, 2, - 1, - 1, - 1, 3, 4, 5, 6, 7, - 1, - 1, - 1],
     [0, 1, 2, - 1, 3, - 1, - 1, - 1, 4, 5, 6, 7, 8, - 1, - 1, - 1],
     [0, 1, 2, 3, 4, - 1, - 1, - 1, 5, 6, 7, 8, 9, - 1, - 1, - 1],
     [0, - 1, - 1, - 1, 1, 2, - 1, - 1, 3, 4, 5, 6, 7, - 1, - 1, - 1],
     [0, 1, - 1, - 1, 2, 3, - 1, - 1, 4, 5, 6, 7, 8, - 1, - 1, - 1],
     [0, 1, 2, - 1, 3, 4, - 1, - 1, 5, 6, 7, 8, 9, - 1, - 1, - 1],
     [0, 1, 2, 3, 4, 5, - 1, - 1, 6, 7, 8, 9, 10, - 1, - 1, - 1],
     [0, - 1, - 1, - 1, 1, 2, 3, - 1, 4, 5, 6, 7, 8, - 1, - 1, - 1],
     [0, 1, - 1, - 1, 2, 3, 4, - 1, 5, 6, 7, 8, 9, - 1, - 1, - 1],
     [0, 1, 2, - 1, 3, 4, 5, - 1, 6, 7, 8, 9, 10, - 1, - 1, - 1],
     [0, 1, 2, 3, 4, 5, 6, - 1, 7, 8, 9, 10, 11, - 1, - 1, - 1],
     [0, - 1, - 1, - 1, 1, 2, 3, 4, 5, 6, 7, 8, 9, - 1, - 1, - 1],
     [0, 1, - 1, - 1, 2, 3, 4, 5, 6, 7, 8, 9, 10, - 1, - 1, - 1],
     [0, 1, 2, - 1, 3, 4, 5, 6, 7, 8, 9, 10, 11, - 1, - 1, - 1],
     [0, 1, 2, 3, 4, 5, 6, 7, 8, 9, 10, 11, 12, - 1, - 1, - 1],
     [0, - 1, - 1, - 1, 1, - 1, - 1, - 1, 2, - 1, - 1, - 1, 3, 4, - 1, - 1],
     [0, 1, - 1, - 1, 2, - 1, - 1, - 1, 3, - 1, - 1, - 1, 4, 5, - 1, - 1],
     [0, 1, 2, - 1, 3, - 1, - 1, - 1, 4, - 1, - 1, - 1, 5, 6, - 1, - 1],
     [0, 1, 2, 3, 4, - 1, - 1, - 1, 5, - 1, - 1, - 1, 6, 7, - 1, - 1],
     [0, - 1, - 1, - 1, 1, 2, - 1, - 1, 3, - 1, - 1, - 1, 4, 5, - 1, - 1],
     [0, 1, - 1, - 1, 2, 3, - 1, - 1, 4, - 1, - 1, - 1, 5, 6, - 1, - 1],
     [0, 1, 2, - 1, 3, 4, - 1, - 1, 5, - 1, - 1, - 1, 6, 7, - 1, - 1],
     [0, 1, 2, 3, 4, 5, - 1, - 1, 6, - 1, - 1, - 1, 7, 8, - 1, - 1],
     [0, - 1, - 1, - 1, 1, 2, 3, - 1, 4, - 1, - 1, - 1, 5, 6, - 1, - 1],
     [0, 1, - 1, - 1, 2, 3, 4, - 1, 5, - 1, - 1, - 1, 6, 7, - 1, - 1],
     [0, 1, 2, - 1, 3, 4, 5, - 1, 6, - 1, - 1, - 1, 7, 8, - 1, - 1],
     [0, 1, 2, 3, 4, 5, 6, - 1, 7, - 1, - 1, - 1, 8, 9, - 1, - 1],
     [0, - 1, - 1, - 1, 1, 2, 3, 4, 5, - 1, - 1, - 1, 6, 7, - 1, - 1],
     [0, 1, - 1, - 1, 2, 3, 4, 5, 6, - 1, - 1, - 1, 7, 8, - 1, - 1],
     [0, 1, 2, - 1, 3, 4, 5, 6, 7, - 1, - 1, - 1, 8, 9, - 1, - 1],
     [0, 1, 2, 3, 4, 5, 6, 7, 8, - 1, - 1, - 1, 9, 10, - 1, - 1],
     [0, - 1, - 1, - 1, 1, - 1, - 1, - 1, 2, 3, - 1, - 1, 4, 5, - 1, - 1],
     [0, 1, - 1, - 1, 2, - 1, - 1, - 1, 3, 4, - 1, - 1, 5, 6, - 1, - 1],
     [0, 1, 2, - 1, 3, - 1, - 1, - 1, 4, 5, - 1, - 1, 6, 7, - 1, - 1],
     [0, 1, 2, 3, 4, - 1, - 1, - 1, 5, 6, - 1, - 1, 7, 8, - 1, - 1],
     [0, - 1, - 1, - 1, 1, 2, - 1, - 1, 3, 4, - 1, - 1, 5, 6, - 1, - 1],
     [0, 1, - 1, - 1, 2, 3, - 1, - 1, 4, 5, - 1, - 1, 6, 7, - 1, - 1],
     [0, 1, 2, - 1, 3, 4, - 1, - 1, 5, 6, - 1, - 1, 7, 8, - 1, - 1],
     [0, 1, 2, 3, 4, 5, - 1, - 1, 6, 7, - 1, - 1, 8, 9, - 1, - 1],
     [0, - 1, - 1, - 1, 1, 2, 3, - 1, 4, 5, - 1, - 1, 6, 7, - 1, - 1],
     [0, 1, - 1, - 1, 2, 3, 4, - 1, 5, 6, - 1, - 1, 7, 8, - 1, - 1],
     [0, 1, 2, - 1, 3, 4, 5, - 1, 6, 7, - 1, - 1, 8, 9, - 1, - 1],
     [0, 1, 2, 3, 4, 5, 6, - 1, 7, 8, - 1, - 1, 9, 10, - 1, - 1],
     [0, - 1, - 1, - 1, 1, 2, 3, 4, 5, 6, - 1, - 1, 7, 8, - 1, - 1],
     [0, 1, - 1, - 1, 2, 3, 4, 5, 6, 7, - 1, - 1, 8, 9, - 1, - 1],
     [0, 1, 2, - 1, 3, 4, 5, 6, 7, 8, - 1, - 1, 9, 10, - 1, - 1],
     [0, 1, 2, 3, 4, 5, 6, 7, 8, 9, - 1, - 1, 10, 11, - 1, - 1],
     [0, - 1, - 1, - 1, 1, - 1, - 1, - 1, 2, 3, 4, - 1, 5, 6, - 1, - 1],
     [0, 1, - 1, - 1, 2, - 1, - 1, - 1, 3, 4, 5, - 1, 6, 7, - 1, - 1],
     [0, 1, 2, - 1, 3, - 1, - 1, - 1, 4, 5, 6, - 1, 7, 8, - 1, - 1],
     [0, 1, 2, 3, 4, - 1, - 1, - 1, 5, 6, 7, - 1, 8, 9, - 1, - 1],
     [0, - 1, - 1, - 1, 1, 2, - 1, - 1, 3, 4, 5, - 1, 6, 7, - 1, - 1],
     [0, 1, - 1, - 1, 2, 3, - 1, - 1, 4, 5, 6, - 1, 7, 8, - 1, - 1],
     [0, 1, 2, - 1, 3, 4, - 1, - 1, 5, 6, 7, - 1, 8, 9, - 1, - 1],
     [0, 1, 2, 3, 4, 5, - 1, - 1, 6, 7, 8, - 1, 9, 10, - 1, - 1],
     [0, - 1, - 1, - 1, 1, 2, 3, - 1, 4, 5, 6, - 1, 7, 8, - 1, - 1],
     [0, 1, - 1, - 1, 2, 3, 4, - 1, 5, 6, 7, - 1, 8, 9, - 1, - 1],
     [0, 1, 2, - 1, 3, 4, 5, - 1, 6, 7, 8, - 1, 9, 10, - 1, - 1],
     [0, 1, 2, 3, 4, 5, 6, - 1, 7, 8, 9, - 1, 10, 11, - 1, - 1],
     [0, - 1, - 1, - 1, 1, 2, 3, 4, 5, 6, 7, - 1, 8, 9, - 1, - 1],
     [0, 1, - 1, - 1, 2, 3, 4, 5, 6, 7, 8, - 1, 9, 10, - 1, - 1],
     [0, 1, 2, - 1, 3, 4, 5, 6, 7, 8, 9, - 1, 10, 11, - 1, - 1],
     [0, 1, 2, 3, 4, 5, 6, 7, 8, 9, 10, - 1, 11, 12, - 1, - 1],
     [0, - 1, - 1, - 1, 1, - 1, - 1, - 1, 2, 3, 4, 5, 6, 7, - 1, - 1],
     [0, 1, - 1, - 1, 2, - 1, - 1, - 1, 3, 4, 5, 6, 7, 8, - 1, - 1],
     [0, 1, 2, - 1, 3, - 1, - 1, - 1, 4, 5, 6, 7, 8, 9, - 1, - 1],
     [0, 1, 2, 3, 4, - 1, - 1, - 1, 5, 6, 7, 8, 9, 10, - 1, - 1],
     [0, - 1, - 1, - 1, 1, 2, - 1, - 1, 3, 4, 5, 6, 7, 8, - 1, - 1],
     [0, 1, - 1, - 1, 2, 3, - 1, - 1, 4, 5, 6, 7, 8, 9, - 1, - 1],
     [0, 1, 2, - 1, 3, 4, - 1, - 1, 5, 6, 7, 8, 9, 10, - 1, - 1],
     [0, 1, 2, 3, 4, 5, - 1, - 1, 6, 7, 8, 9, 10, 11, - 1, - 1],
     [0, - 1, - 1, - 1, 1, 2, 3, - 1, 4, 5, 6, 7, 8, 9, - 1, - 1],
     [0, 1, - 1, - 1, 2, 3, 4, - 1, 5, 6, 7, 8, 9, 10, - 1, - 1],
     [0, 1, 2, - 1, 3, 4, 5, - 1, 6, 7, 8, 9, 10, 11, - 1, - 1],
     [0, 1, 2, 3, 4, 5, 6, - 1, 7, 8, 9, 10, 11, 12, - 1, - 1],
     [0, - 1, - 1, - 1, 1, 2, 3, 4, 5, 6, 7, 8, 9, 10, - 1, - 1],
     [0, 1, - 1, - 1, 2, 3, 4, 5, 6, 7, 8, 9, 10, 11, - 1, - 1],
     [0, 1, 2, - 1, 3, 4, 5, 6, 7, 8, 9, 10, 11, 12, - 1, - 1],
     [0, 1, 2, 3, 4, 5, 6, 7, 8, 9, 10, 11, 12, 13, - 1, - 1]]"

definition shuffleTable_hi :: "int list list" where
  "shuffleTable_hi = [
     [0, - 1, - 1, - 1, 1, - 1, - 1, - 1, 2, - 1, - 1, - 1, 3, 4, 5, - 1],
     [0, 1, - 1, - 1, 2, - 1, - 1, - 1, 3, - 1, - 1, - 1, 4, 5, 6, - 1],
     [0, 1, 2, - 1, 3, - 1, - 1, - 1, 4, - 1, - 1, - 1, 5, 6, 7, - 1],
     [0, 1, 2, 3, 4, - 1, - 1, - 1, 5, - 1, - 1, - 1, 6, 7, 8, - 1],
     [0, - 1, - 1, - 1, 1, 2, - 1, - 1, 3, - 1, - 1, - 1, 4, 5, 6, - 1],
     [0, 1, - 1, - 1, 2, 3, - 1, - 1, 4, - 1, - 1, - 1, 5, 6, 7, - 1],
     [0, 1, 2, - 1, 3, 4, - 1, - 1, 5, - 1, - 1, - 1, 6, 7, 8, - 1],
     [0, 1, 2, 3, 4, 5, - 1, - 1, 6, - 1, - 1, - 1, 7, 8, 9, - 1],
     [0, - 1, - 1, - 1, 1, 2, 3, - 1, 4, - 1, - 1, - 1, 5, 6, 7, - 1],
     [0, 1, - 1, - 1, 2, 3, 4, - 1, 5, - 1, - 1, - 1, 6, 7, 8, - 1],
     [0, 1, 2, - 1, 3, 4, 5, - 1, 6, - 1, - 1, - 1, 7, 8, 9, - 1],
     [0, 1, 2, 3, 4, 5, 6, - 1, 7, - 1, - 1, - 1, 8, 9, 10, - 1],
     [0, - 1, - 1, - 1, 1, 2, 3, 4, 5, - 1, - 1, - 1, 6, 7, 8, - 1],
     [0, 1, - 1, - 1, 2, 3, 4, 5, 6, - 1, - 1, - 1, 7, 8, 9, - 1],
     [0, 1, 2, - 1, 3, 4, 5, 6, 7, - 1, - 1, - 1, 8, 9, 10, - 1],
     [0, 1, 2, 3, 4, 5, 6, 7, 8, - 1, - 1, - 1, 9, 10, 11, - 1],
     [0, - 1, - 1, - 1, 1, - 1, - 1, - 1, 2, 3, - 1, - 1, 4, 5, 6, - 1],
     [0, 1, - 1, - 1, 2, - 1, - 1, - 1, 3, 4, - 1, - 1, 5, 6, 7, - 1],
     [0, 1, 2, - 1, 3, - 1, - 1, - 1, 4, 5, - 1, - 1, 6, 7, 8, - 1],
     [0, 1, 2, 3, 4, - 1, - 1, - 1, 5, 6, - 1, - 1, 7, 8, 9, - 1],
     [0, - 1, - 1, - 1, 1, 2, - 1, - 1, 3, 4, - 1, - 1, 5, 6, 7, - 1],
     [0, 1, - 1, - 1, 2, 3, - 1, - 1, 4, 5, - 1, - 1, 6, 7, 8, - 1],
     [0, 1, 2, - 1, 3, 4, - 1, - 1, 5, 6, - 1, - 1, 7, 8, 9, - 1],
     [0, 1, 2, 3, 4, 5, - 1, - 1, 6, 7, - 1, - 1, 8, 9, 10, - 1],
     [0, - 1, - 1, - 1, 1, 2, 3, - 1, 4, 5, - 1, - 1, 6, 7, 8, - 1],
     [0, 1, - 1, - 1, 2, 3, 4, - 1, 5, 6, - 1, - 1, 7, 8, 9, - 1],
     [0, 1, 2, - 1, 3, 4, 5, - 1, 6, 7, - 1, - 1, 8, 9, 10, - 1],
     [0, 1, 2, 3, 4, 5, 6, - 1, 7, 8, - 1, - 1, 9, 10, 11, - 1],
     [0, - 1, - 1, - 1, 1, 2, 3, 4, 5, 6, - 1, - 1, 7, 8, 9, - 1],
     [0, 1, - 1, - 1, 2, 3, 4, 5, 6, 7, - 1, - 1, 8, 9, 10, - 1],
     [0, 1, 2, - 1, 3, 4, 5, 6, 7, 8, - 1, - 1, 9, 10, 11, - 1],
     [0, 1, 2, 3, 4, 5, 6, 7, 8, 9, - 1, - 1, 10, 11, 12, - 1],
     [0, - 1, - 1, - 1, 1, - 1, - 1, - 1, 2, 3, 4, - 1, 5, 6, 7, - 1],
     [0, 1, - 1, - 1, 2, - 1, - 1, - 1, 3, 4, 5, - 1, 6, 7, 8, - 1],
     [0, 1, 2, - 1, 3, - 1, - 1, - 1, 4, 5, 6, - 1, 7, 8, 9, - 1],
     [0, 1, 2, 3, 4, - 1, - 1, - 1, 5, 6, 7, - 1, 8, 9, 10, - 1],
     [0, - 1, - 1, - 1, 1, 2, - 1, - 1, 3, 4, 5, - 1, 6, 7, 8, - 1],
     [0, 1, - 1, - 1, 2, 3, - 1, - 1, 4, 5, 6, - 1, 7, 8, 9, - 1],
     [0, 1, 2, - 1, 3, 4, - 1, - 1, 5, 6, 7, - 1, 8, 9, 10, - 1],
     [0, 1, 2, 3, 4, 5, - 1, - 1, 6, 7, 8, - 1, 9, 10, 11, - 1],
     [0, - 1, - 1, - 1, 1, 2, 3, - 1, 4, 5, 6, - 1, 7, 8, 9, - 1],
     [0, 1, - 1, - 1, 2, 3, 4, - 1, 5, 6, 7, - 1, 8, 9, 10, - 1],
     [0, 1, 2, - 1, 3, 4, 5, - 1, 6, 7, 8, - 1, 9, 10, 11, - 1],
     [0, 1, 2, 3, 4, 5, 6, - 1, 7, 8, 9, - 1, 10, 11, 12, - 1],
     [0, - 1, - 1, - 1, 1, 2, 3, 4, 5, 6, 7, - 1, 8, 9, 10, - 1],
     [0, 1, - 1, - 1, 2, 3, 4, 5, 6, 7, 8, - 1, 9, 10, 11, - 1],
     [0, 1, 2, - 1, 3, 4, 5, 6, 7, 8, 9, - 1, 10, 11, 12, - 1],
     [0, 1, 2, 3, 4, 5, 6, 7, 8, 9, 10, - 1, 11, 12, 13, - 1],
     [0, - 1, - 1, - 1, 1, - 1, - 1, - 1, 2, 3, 4, 5, 6, 7, 8, - 1],
     [0, 1, - 1, - 1, 2, - 1, - 1, - 1, 3, 4, 5, 6, 7, 8, 9, - 1],
     [0, 1, 2, - 1, 3, - 1, - 1, - 1, 4, 5, 6, 7, 8, 9, 10, - 1],
     [0, 1, 2, 3, 4, - 1, - 1, - 1, 5, 6, 7, 8, 9, 10, 11, - 1],
     [0, - 1, - 1, - 1, 1, 2, - 1, - 1, 3, 4, 5, 6, 7, 8, 9, - 1],
     [0, 1, - 1, - 1, 2, 3, - 1, - 1, 4, 5, 6, 7, 8, 9, 10, - 1],
     [0, 1, 2, - 1, 3, 4, - 1, - 1, 5, 6, 7, 8, 9, 10, 11, - 1],
     [0, 1, 2, 3, 4, 5, - 1, - 1, 6, 7, 8, 9, 10, 11, 12, - 1],
     [0, - 1, - 1, - 1, 1, 2, 3, - 1, 4, 5, 6, 7, 8, 9, 10, - 1],
     [0, 1, - 1, - 1, 2, 3, 4, - 1, 5, 6, 7, 8, 9, 10, 11, - 1],
     [0, 1, 2, - 1, 3, 4, 5, - 1, 6, 7, 8, 9, 10, 11, 12, - 1],
     [0, 1, 2, 3, 4, 5, 6, - 1, 7, 8, 9, 10, 11, 12, 13, - 1],
     [0, - 1, - 1, - 1, 1, 2, 3, 4, 5, 6, 7, 8, 9, 10, 11, - 1],
     [0, 1, - 1, - 1, 2, 3, 4, 5, 6, 7, 8, 9, 10, 11, 12, - 1],
     [0, 1, 2, - 1, 3, 4, 5, 6, 7, 8, 9, 10, 11, 12, 13, - 1],
     [0, 1, 2, 3, 4, 5, 6, 7, 8, 9, 10, 11, 12, 13, 14, - 1],
     [0, - 1, - 1, - 1, 1, - 1, - 1, - 1, 2, - 1, - 1, - 1, 3, 4, 5, 6],
     [0, 1, - 1, - 1, 2, - 1, - 1, - 1, 3, - 1, - 1, - 1, 4, 5, 6, 7],
     [0, 1, 2, - 1, 3, - 1, - 1, - 1, 4, - 1, - 1, - 1, 5, 6, 7, 8],
     [0, 1, 2, 3, 4, - 1, - 1, - 1, 5, - 1, - 1, - 1, 6, 7, 8, 9],
     [0, - 1, - 1, - 1, 1, 2, - 1, - 1, 3, - 1, - 1, - 1, 4, 5, 6, 7],
     [0, 1, - 1, - 1, 2, 3, - 1, - 1, 4, - 1, - 1, - 1, 5, 6, 7, 8],
     [0, 1, 2, - 1, 3, 4, - 1, - 1, 5, - 1, - 1, - 1, 6, 7, 8, 9],
     [0, 1, 2, 3, 4, 5, - 1, - 1, 6, - 1, - 1, - 1, 7, 8, 9, 10],
     [0, - 1, - 1, - 1, 1, 2, 3, - 1, 4, - 1, - 1, - 1, 5, 6, 7, 8],
     [0, 1, - 1, - 1, 2, 3, 4, - 1, 5, - 1, - 1, - 1, 6, 7, 8, 9],
     [0, 1, 2, - 1, 3, 4, 5, - 1, 6, - 1, - 1, - 1, 7, 8, 9, 10],
     [0, 1, 2, 3, 4, 5, 6, - 1, 7, - 1, - 1, - 1, 8, 9, 10, 11],
     [0, - 1, - 1, - 1, 1, 2, 3, 4, 5, - 1, - 1, - 1, 6, 7, 8, 9],
     [0, 1, - 1, - 1, 2, 3, 4, 5, 6, - 1, - 1, - 1, 7, 8, 9, 10],
     [0, 1, 2, - 1, 3, 4, 5, 6, 7, - 1, - 1, - 1, 8, 9, 10, 11],
     [0, 1, 2, 3, 4, 5, 6, 7, 8, - 1, - 1, - 1, 9, 10, 11, 12],
     [0, - 1, - 1, - 1, 1, - 1, - 1, - 1, 2, 3, - 1, - 1, 4, 5, 6, 7],
     [0, 1, - 1, - 1, 2, - 1, - 1, - 1, 3, 4, - 1, - 1, 5, 6, 7, 8],
     [0, 1, 2, - 1, 3, - 1, - 1, - 1, 4, 5, - 1, - 1, 6, 7, 8, 9],
     [0, 1, 2, 3, 4, - 1, - 1, - 1, 5, 6, - 1, - 1, 7, 8, 9, 10],
     [0, - 1, - 1, - 1, 1, 2, - 1, - 1, 3, 4, - 1, - 1, 5, 6, 7, 8],
     [0, 1, - 1, - 1, 2, 3, - 1, - 1, 4, 5, - 1, - 1, 6, 7, 8, 9],
     [0, 1, 2, - 1, 3, 4, - 1, - 1, 5, 6, - 1, - 1, 7, 8, 9, 10],
     [0, 1, 2, 3, 4, 5, - 1, - 1, 6, 7, - 1, - 1, 8, 9, 10, 11],
     [0, - 1, - 1, - 1, 1, 2, 3, - 1, 4, 5, - 1, - 1, 6, 7, 8, 9],
     [0, 1, - 1, - 1, 2, 3, 4, - 1, 5, 6, - 1, - 1, 7, 8, 9, 10],
     [0, 1, 2, - 1, 3, 4, 5, - 1, 6, 7, - 1, - 1, 8, 9, 10, 11],
     [0, 1, 2, 3, 4, 5, 6, - 1, 7, 8, - 1, - 1, 9, 10, 11, 12],
     [0, - 1, - 1, - 1, 1, 2, 3, 4, 5, 6, - 1, - 1, 7, 8, 9, 10],
     [0, 1, - 1, - 1, 2, 3, 4, 5, 6, 7, - 1, - 1, 8, 9, 10, 11],
     [0, 1, 2, - 1, 3, 4, 5, 6, 7, 8, - 1, - 1, 9, 10, 11, 12],
     [0, 1, 2, 3, 4, 5, 6, 7, 8, 9, - 1, - 1, 10, 11, 12, 13],
     [0, - 1, - 1, - 1, 1, - 1, - 1, - 1, 2, 3, 4, - 1, 5, 6, 7, 8],
     [0, 1, - 1, - 1, 2, - 1, - 1, - 1, 3, 4, 5, - 1, 6, 7, 8, 9],
     [0, 1, 2, - 1, 3, - 1, - 1, - 1, 4, 5, 6, - 1, 7, 8, 9, 10],
     [0, 1, 2, 3, 4, - 1, - 1, - 1, 5, 6, 7, - 1, 8, 9, 10, 11],
     [0, - 1, - 1, - 1, 1, 2, - 1, - 1, 3, 4, 5, - 1, 6, 7, 8, 9],
     [0, 1, - 1, - 1, 2, 3, - 1, - 1, 4, 5, 6, - 1, 7, 8, 9, 10],
     [0, 1, 2, - 1, 3, 4, - 1, - 1, 5, 6, 7, - 1, 8, 9, 10, 11],
     [0, 1, 2, 3, 4, 5, - 1, - 1, 6, 7, 8, - 1, 9, 10, 11, 12],
     [0, - 1, - 1, - 1, 1, 2, 3, - 1, 4, 5, 6, - 1, 7, 8, 9, 10],
     [0, 1, - 1, - 1, 2, 3, 4, - 1, 5, 6, 7, - 1, 8, 9, 10, 11],
     [0, 1, 2, - 1, 3, 4, 5, - 1, 6, 7, 8, - 1, 9, 10, 11, 12],
     [0, 1, 2, 3, 4, 5, 6, - 1, 7, 8, 9, - 1, 10, 11, 12, 13],
     [0, - 1, - 1, - 1, 1, 2, 3, 4, 5, 6, 7, - 1, 8, 9, 10, 11],
     [0, 1, - 1, - 1, 2, 3, 4, 5, 6, 7, 8, - 1, 9, 10, 11, 12],
     [0, 1, 2, - 1, 3, 4, 5, 6, 7, 8, 9, - 1, 10, 11, 12, 13],
     [0, 1, 2, 3, 4, 5, 6, 7, 8, 9, 10, - 1, 11, 12, 13, 14],
     [0, - 1, - 1, - 1, 1, - 1, - 1, - 1, 2, 3, 4, 5, 6, 7, 8, 9],
     [0, 1, - 1, - 1, 2, - 1, - 1, - 1, 3, 4, 5, 6, 7, 8, 9, 10],
     [0, 1, 2, - 1, 3, - 1, - 1, - 1, 4, 5, 6, 7, 8, 9, 10, 11],
     [0, 1, 2, 3, 4, - 1, - 1, - 1, 5, 6, 7, 8, 9, 10, 11, 12],
     [0, - 1, - 1, - 1, 1, 2, - 1, - 1, 3, 4, 5, 6, 7, 8, 9, 10],
     [0, 1, - 1, - 1, 2, 3, - 1, - 1, 4, 5, 6, 7, 8, 9, 10, 11],
     [0, 1, 2, - 1, 3, 4, - 1, - 1, 5, 6, 7, 8, 9, 10, 11, 12],
     [0, 1, 2, 3, 4, 5, - 1, - 1, 6, 7, 8, 9, 10, 11, 12, 13],
     [0, - 1, - 1, - 1, 1, 2, 3, - 1, 4, 5, 6, 7, 8, 9, 10, 11],
     [0, 1, - 1, - 1, 2, 3, 4, - 1, 5, 6, 7, 8, 9, 10, 11, 12],
     [0, 1, 2, - 1, 3, 4, 5, - 1, 6, 7, 8, 9, 10, 11, 12, 13],
     [0, 1, 2, 3, 4, 5, 6, - 1, 7, 8, 9, 10, 11, 12, 13, 14],
     [0, - 1, - 1, - 1, 1, 2, 3, 4, 5, 6, 7, 8, 9, 10, 11, 12],
     [0, 1, - 1, - 1, 2, 3, 4, 5, 6, 7, 8, 9, 10, 11, 12, 13],
     [0, 1, 2, - 1, 3, 4, 5, 6, 7, 8, 9, 10, 11, 12, 13, 14],
     [0, 1, 2, 3, 4, 5, 6, 7, 8, 9, 10, 11, 12, 13, 14, 15]]"

definition shuffleTable :: "int list list" where
  "shuffleTable = shuffleTable_lo @ shuffleTable_hi"

section \<open>What they tabulate\<close>

text \<open>All combinations of four lengths, the first one changing fastest: the order of the rows.\<close>

definition by_lengths :: "(nat \<Rightarrow> nat \<Rightarrow> nat \<Rightarrow> nat \<Rightarrow> 'a) \<Rightarrow> 'a list" where
  "by_lengths f = concat (map (\<lambda>l3. concat (map (\<lambda>l2. concat (map (\<lambda>l1. map (\<lambda>l0. f l0 l1 l2 l3)
     [1, 2, 3, 4]) [1, 2, 3, 4])) [1, 2, 3, 4])) [1, 2, 3, 4])"

text \<open>The control byte of four lengths.\<close>

definition ctl :: "nat \<Rightarrow> nat \<Rightarrow> nat \<Rightarrow> nat \<Rightarrow> nat" where
  "ctl l0 l1 l2 l3 = (l0 - 1) + 4 * (l1 - 1) + 16 * (l2 - 1) + 64 * (l3 - 1)"

lemma nth_concat_four:
  assumes "\<And>x. length (g x) = m" "1 \<le> l" "l \<le> 4" "j < m"
  shows "concat (map g [1, 2, 3, 4 :: nat]) ! ((l - 1) * m + j) = g l ! j"
proof -
  from assms(2,3) consider "l = 1" | "l = 2" | "l = 3" | "l = 4" by linarith
  then show ?thesis using assms(1,4) by cases (simp_all add: nth_append)
qed

lemma length_concat_four: "(\<And>x. length (g x) = m) \<Longrightarrow> length (concat (map g [1, 2, 3, 4 :: nat])) = 4 * m"
  by simp

lemma nth_by_lengths:
  assumes "1 \<le> l0" "l0 \<le> 4" "1 \<le> l1" "l1 \<le> 4" "1 \<le> l2" "l2 \<le> 4" "1 \<le> l3" "l3 \<le> 4"
  shows "by_lengths f ! ctl l0 l1 l2 l3 = f l0 l1 l2 l3"
proof -
  let ?l = "[1, 2, 3, 4 :: nat]"
  define g1 g2 g3 where "g1 = (\<lambda>l3 l2 l1. map (\<lambda>l0. f l0 l1 l2 l3) ?l)" "g2 = (\<lambda>l3 l2. concat (map (g1 l3 l2) ?l))"
    "g3 = (\<lambda>l3. concat (map (g2 l3) ?l))"
  note d = this
  have len: "length (g1 l3 l2 l1) = 4" "length (g2 l3 l2) = 16" "length (g3 l3) = 64" for l3 l2 l1 by (simp_all add: d)
  have r: "4 * (l1 - 1) + (l0 - 1) < 16" "16 * (l2 - 1) + (4 * (l1 - 1) + (l0 - 1)) < 64" using assms by linarith+
  have "by_lengths f ! ctl l0 l1 l2 l3 = concat (map g3 ?l) ! ((l3 - 1) * 64 + (16 * (l2 - 1) + (4 * (l1 - 1) + (l0 - 1))))"
    by (simp add: by_lengths_def d ctl_def add_ac mult.commute)
  also have "\<dots> = g3 l3 ! ((l2 - 1) * 16 + (4 * (l1 - 1) + (l0 - 1)))"
    using assms r by (subst nth_concat_four [OF len(3)]) (simp_all add: mult.commute)
  also have "\<dots> = g2 l3 l2 ! ((l1 - 1) * 4 + (l0 - 1))"
    unfolding d(3) using assms r by (subst nth_concat_four [OF len(2)]) (simp_all add: mult.commute)
  also have "\<dots> = g1 l3 l2 l1 ! (l0 - 1)"
    unfolding d(2) using assms by (subst nth_concat_four [OF len(1)]) simp_all
  also have "\<dots> = f l0 l1 l2 l3"
  proof -
    from assms(1,2) consider "l0 = 1" | "l0 = 2" | "l0 = 3" | "l0 = 4" by linarith
    then show ?thesis by cases (simp_all add: d)
  qed
  finally show ?thesis .
qed

lemma length_by_lengths [simp]: "length (by_lengths f) = 256"
  by (simp add: by_lengths_def)

text \<open>One lane: the bytes from \<open>n\<close> on, the missing ones cleared.\<close>

definition spread :: "int \<Rightarrow> nat \<Rightarrow> int list" where
  "spread n l = (if l = 1 then [n, - 1, - 1, - 1] else if l = 2 then [n, n + 1, - 1, - 1]
     else if l = 3 then [n, n + 1, n + 2, - 1] else [n, n + 1, n + 2, n + 3])"

definition shuffle_row :: "nat \<Rightarrow> nat \<Rightarrow> nat \<Rightarrow> nat \<Rightarrow> int list" where
  "shuffle_row l0 l1 l2 l3 = spread 0 l0 @ spread (int l0) l1 @ spread (int (l0 + l1)) l2 @ spread (int (l0 + l1 + l2)) l3"

lemma lengthTable_eq: "lengthTable = by_lengths (\<lambda>l0 l1 l2 l3. l0 + l1 + l2 + l3)"
  by (simp add: lengthTable_def by_lengths_def)

lemma TotalLengthTable_eq:
  "TotalLengthTable = by_lengths (\<lambda>l0 l1 l2 l3. [l0, l0 + l1, l0 + l1 + l2, l0 + l1 + l2 + l3])"
  by (simp add: TotalLengthTable_def TotalLengthTable_lo_def TotalLengthTable_hi_def by_lengths_def)

lemma shuffleTable_eq: "shuffleTable = by_lengths shuffle_row"
  by (simp add: shuffleTable_def shuffleTable_lo_def shuffleTable_hi_def by_lengths_def shuffle_row_def spread_def)

end
