(* ===== verification/Delta_Codec.thy ===== *)
theory Delta_Codec
  imports Delta_Tables
begin

text \<open>
  The SIMD codecs of \<^verbatim>\<open>encode/codec/SIMD/delta_simd_codec.h\<close> and \<^verbatim>\<open>.cpp\<close>: a list of integers as differences,
  one to four bytes each, behind control bytes with two bits per value. \<^verbatim>\<open>DeltaSIMDCodec\<close> stores the
  difference to the previous value, \<^verbatim>\<open>V1\<close> and \<^verbatim>\<open>V2\<close> start anew every four values, \<^verbatim>\<open>V3\<close> stores the values
  in the order of a search tree.

  The memory is the byte array of one encoding and a pointer is an index into it. A register
  \<^verbatim>\<open>__m128i\<close> is the list of its four lanes. \<^verbatim>\<open>_mm_loadu_si128\<close> reads sixteen bytes, which may lie behind
  the end of the array: there it sees whatever the memory holds, and \<open>pad\<close> stands for that.
  \<^verbatim>\<open>_mm_cmplt_epi32\<close> compares signed integers.
\<close>

section \<open>Registers\<close>

type_synonym m128 = "u32 list"

definition le_word :: "u8 list \<Rightarrow> u32" where
  "le_word bs = foldr (\<lambda>b w. push_bit 8 w OR ucast b) bs 0"

definition load_byte :: "(nat \<Rightarrow> u8) \<Rightarrow> u8 list \<Rightarrow> nat \<Rightarrow> u8" where
  "load_byte pad mem i = (if i < length mem then mem ! i else pad i)"

definition loadu_si128 :: "(nat \<Rightarrow> u8) \<Rightarrow> u8 list \<Rightarrow> nat \<Rightarrow> u8 list" where
  "loadu_si128 pad mem ptr = map (\<lambda>i. load_byte pad mem (ptr + i)) [0..<16]"

text \<open>A negative index clears the byte.\<close>

definition shuffle_epi8 :: "u8 list \<Rightarrow> int list \<Rightarrow> u8 list" where
  "shuffle_epi8 bytes shuf = map (\<lambda>m. if m < 0 then 0 else bytes ! nat (m mod 16)) shuf"

definition lanes :: "u8 list \<Rightarrow> m128" where
  "lanes bytes = map (\<lambda>i. le_word (take 4 (drop (4 * i) bytes))) [0..<4]"

definition add_epi32 :: "m128 \<Rightarrow> m128 \<Rightarrow> m128" where
  "add_epi32 a b = map2 (+) a b"

text \<open>Shifting left by four or eight bytes moves the lanes up.\<close>

definition slli_4 :: "m128 \<Rightarrow> m128" where
  "slli_4 a = 0 # take 3 a"

definition slli_8 :: "m128 \<Rightarrow> m128" where
  "slli_8 a = 0 # 0 # take 2 a"

text \<open>\<^verbatim>\<open>_mm_movemask_ps\<close> of a comparison with the value in every lane.\<close>

definition movemask :: "bool list \<Rightarrow> nat" where
  "movemask bs = horner_sum of_bool 2 bs"

definition cmplt_mask :: "m128 \<Rightarrow> u32 \<Rightarrow> nat" where
  "cmplt_mask a v = movemask (map (\<lambda>x. sint x < sint v) a)"

definition cmpeq_mask :: "m128 \<Rightarrow> u32 \<Rightarrow> nat" where
  "cmpeq_mask a v = movemask (map (\<lambda>x. x = v) a)"

section \<open>Results of a search\<close>

datatype FindRes = EXIST | LESS_THAN_MIN | GRATER_THAN_MAX | NOT_EXIST

fun find_code :: "FindRes \<Rightarrow> nat" where
  "find_code EXIST = 0"
| "find_code LESS_THAN_MIN = 2"
| "find_code GRATER_THAN_MAX = 4"
| "find_code NOT_EXIST = 15"

record DeltaInfo =
  delta_bits :: nat
  val_bits :: nat
  total_bits :: nat

section \<open>Encoding\<close>

text \<open>\<^verbatim>\<open>GenValue(pre, original, count)\<close> of each codec: the value to store and the new \<^verbatim>\<open>pre\<close>.\<close>

type_synonym gen = "u32 \<Rightarrow> u32 \<Rightarrow> nat \<Rightarrow> u32 \<times> u32"

definition GenValue :: gen where
  "GenValue pre original cnt = (original - pre, original)"

definition GenValueV1 :: gen where
  "GenValueV1 pre original cnt = (if cnt mod 4 = 0 then (original, original) else (original - pre, pre))"

definition GenValueV2 :: gen where
  "GenValueV2 pre original cnt = (if cnt mod 4 = 0 then (original, original) else (original - pre, original))"

definition GetOneEncodeLength :: "u32 \<Rightarrow> nat" where
  "GetOneEncodeLength x = (if x < 2 ^ 8 then 1 else if x < 2 ^ 16 then 2 else if x < 2 ^ 24 then 3 else 4)"

text \<open>\<^verbatim>\<open>EncodeDelta\<close>: the memory, the moved pointer and the code. Four bytes are written as one little
  endian word.\<close>

definition EncodeDelta :: "u32 \<Rightarrow> u8 list \<Rightarrow> nat \<Rightarrow> (u8 list \<times> nat \<times> nat) option" where
  "EncodeDelta val mem dataPtr =
     (if val < 2 ^ 8 then do {
        mem \<leftarrow> aput mem dataPtr (ucast val);
        Some (mem, dataPtr + 1, 0) }
      else if val < 2 ^ 16 then do {
        mem \<leftarrow> aput mem dataPtr (ucast (val AND 0xFF));
        mem \<leftarrow> aput mem (dataPtr + 1) (ucast (drop_bit 8 val AND 0xFF));
        Some (mem, dataPtr + 2, 1) }
      else if val < 2 ^ 24 then do {
        mem \<leftarrow> aput mem dataPtr (ucast (val AND 0xFF));
        mem \<leftarrow> aput mem (dataPtr + 1) (ucast (drop_bit 8 val AND 0xFF));
        mem \<leftarrow> aput mem (dataPtr + 2) (ucast (drop_bit 16 val AND 0xFF));
        Some (mem, dataPtr + 3, 2) }
      else do {
        mem \<leftarrow> aput mem dataPtr (ucast val);
        mem \<leftarrow> aput mem (dataPtr + 1) (ucast (drop_bit 8 val));
        mem \<leftarrow> aput mem (dataPtr + 2) (ucast (drop_bit 16 val));
        mem \<leftarrow> aput mem (dataPtr + 3) (ucast (drop_bit 24 val));
        Some (mem, dataPtr + 4, 3) })"

text \<open>The state of the loop of \<^verbatim>\<open>EncodeDeltas\<close>.\<close>

record enc_loop =
  el_mem :: "u8 list"
  keyPtr :: nat
  dataPtr :: nat
  el_prev :: u32
  el_len :: nat
  el_shift :: nat
  el_key :: u8

definition EncodeDeltas_step :: "gen \<Rightarrow> (nat \<Rightarrow> u32 option) \<Rightarrow> nat \<Rightarrow> enc_loop \<Rightarrow> enc_loop option" where
  "EncodeDeltas_step gen inp c s = do {
     s \<leftarrow> (if el_shift s = 8 then do {
             mem \<leftarrow> aput (el_mem s) (keyPtr s) (el_key s);
             Some (s\<lparr>el_mem := mem, keyPtr := keyPtr s + 1, el_shift := 0, el_key := 0\<rparr>) }
           else Some s);
     x \<leftarrow> inp c;
     let (val, prev) = gen (el_prev s) x c;
     (mem, ptr, code) \<leftarrow> EncodeDelta val (el_mem s) (dataPtr s);
     Some (s\<lparr>el_mem := mem, dataPtr := ptr, el_prev := prev, el_len := el_len s + code + 1,
       el_key := el_key s OR of_nat (code * 2 ^ el_shift s), el_shift := (el_shift s + 2) mod 256\<rparr>) }"

text \<open>\<^verbatim>\<open>inp c\<close> is the value of round \<open>c\<close>; the length is returned in a \<^verbatim>\<open>uint8_t\<close>.\<close>

definition EncodeDeltas_loop :: "gen \<Rightarrow> (nat \<Rightarrow> u32 option) \<Rightarrow> u8 list \<Rightarrow> nat \<Rightarrow> nat \<Rightarrow> nat \<Rightarrow> (u8 list \<times> nat) option" where
  "EncodeDeltas_loop gen inp mem keyP dataP count = do {
     s \<leftarrow> foldo (EncodeDeltas_step gen inp) [0..<count]
       \<lparr>el_mem = mem, keyPtr = keyP, dataPtr = dataP, el_prev = 0, el_len = 0, el_shift = 0, el_key = 0\<rparr>;
     mem \<leftarrow> aput (el_mem s) (keyPtr s) (el_key s);
     Some (mem, el_len s mod 256) }"

definition EncodeDeltas :: "gen \<Rightarrow> u32 list \<Rightarrow> u8 list \<Rightarrow> nat \<Rightarrow> nat \<Rightarrow> (u8 list \<times> nat) option" where
  "EncodeDeltas gen xs mem keyP dataP =
     (if length xs = 0 then Some (mem, 0) else EncodeDeltas_loop gen (aget xs) mem keyP dataP (length xs))"

text \<open>\<^verbatim>\<open>DeltaSIMDCodecV3::EncodeDeltas\<close> reads the list in the order of \<^verbatim>\<open>ary_order\<close>.\<close>

definition EncodeDeltasV3 :: "u32 list \<Rightarrow> u8 list \<Rightarrow> nat \<Rightarrow> nat \<Rightarrow> (u8 list \<times> nat) option" where
  "EncodeDeltasV3 xs mem keyP dataP = do {
     _ \<leftarrow> assert_that (length xs \<le> 40);
     if length xs = 0 then Some (mem, 0)
     else do {
       order \<leftarrow> aget ary_order (length xs - 1);
       EncodeDeltas_loop GenValueV2 (\<lambda>c. do { j \<leftarrow> aget order c; aget xs j }) mem keyP dataP (length xs) } }"

text \<open>\<^verbatim>\<open>EncodeArray\<close> for any \<^verbatim>\<open>EncodeDeltas\<close>: the memory and \<^verbatim>\<open>out_bytes_length\<close>.\<close>

definition EncodeArray ::
    "(u32 list \<Rightarrow> u8 list \<Rightarrow> nat \<Rightarrow> nat \<Rightarrow> (u8 list \<times> nat) option) \<Rightarrow> u32 list \<Rightarrow> u8 list \<Rightarrow> nat \<Rightarrow> (u8 list \<times> nat) option" where
  "EncodeArray encodeDeltas xs mem out = do {
     let keyLen = (length xs + 3) div 4;
     (mem, dataLen) \<leftarrow> encodeDeltas xs mem out (out + keyLen);
     Some (mem, keyLen + dataLen) }"

definition ParseEncode :: "u32 list \<Rightarrow> DeltaInfo list option" where
  "ParseEncode xs = do {
     (_, _, infos) \<leftarrow> foldo (\<lambda>i (size, pre, infos). do {
         x \<leftarrow> aget xs i;
         let vb = GetOneEncodeLength (x - pre);
         let size = size + vb;
         Some (size, x, infos @ [\<lparr>delta_bits = (if i = 0 then 0 else vb), val_bits = GetOneEncodeLength x, total_bits = size\<rparr>]) })
       [0..<length xs] (0, 0, []);
     Some infos }"

definition GetRequiredBytes :: "gen \<Rightarrow> (nat \<Rightarrow> u32 option) \<Rightarrow> nat \<Rightarrow> nat option" where
  "GetRequiredBytes gen inp n = do {
     (len, _) \<leftarrow> foldo (\<lambda>i (len, pre). do {
         x \<leftarrow> inp i;
         let (val, pre) = gen pre x i;
         Some (len + GetOneEncodeLength val, pre) }) [0..<n] ((n + 3) div 4, 0);
     Some len }"

definition GetRequiredBytesV3 :: "u32 list \<Rightarrow> nat option" where
  "GetRequiredBytesV3 xs =
     (if length xs > 40 then Some (length xs + (length xs + 3) div 4)
      else do {
        order \<leftarrow> (if length xs = 0 then Some [] else aget ary_order (length xs - 1));
        GetRequiredBytes GenValueV2 (\<lambda>c. do { j \<leftarrow> aget order c; aget xs j }) (length xs) })"

definition GetRequiredBytesV3_block :: "u32 list \<Rightarrow> nat \<Rightarrow> nat \<Rightarrow> nat option" where
  "GetRequiredBytesV3_block xs begin block_size = do {
     order \<leftarrow> (if block_size = 0 then Some [] else aget ary_order (block_size - 1));
     GetRequiredBytes GenValueV2 (\<lambda>c. do { j \<leftarrow> aget order c; aget xs (j + begin) }) block_size }"

section \<open>Decoding\<close>

text \<open>\<^verbatim>\<open>GetEncodeLength\<close>: control and data bytes; for no values at all it reads \<^verbatim>\<open>in[-1]\<close>.\<close>

definition GetEncodeLength :: "u8 list \<Rightarrow> nat \<Rightarrow> nat \<Rightarrow> nat option" where
  "GetEncodeLength mem inp in_size = do {
     let res = (in_size + 3) div 4;
     let data_byte_len = wsub32 res 1;
     let m = in_size mod 4;
     res \<leftarrow> foldo (\<lambda>i res. do { b \<leftarrow> aget mem (inp + i); l \<leftarrow> aget lengthTable (unat b); Some (res + l) }) [0..<data_byte_len] res;
     b \<leftarrow> aget mem (inp + data_byte_len);
     k \<leftarrow> aget ENCODE_LENGTH_MASK m;
     l \<leftarrow> aget lengthTable (unat (b AND k));
     Some (res + l - (4 - m) mod 4) }"

definition DecodeData_lanes :: "(nat \<Rightarrow> u8) \<Rightarrow> u8 list \<Rightarrow> u8 \<Rightarrow> nat \<Rightarrow> m128 option" where
  "DecodeData_lanes pad mem control data_ptr = do {
     shuf \<leftarrow> aget shuffleTable (unat control);
     Some (lanes (shuffle_epi8 (loadu_si128 pad mem data_ptr) shuf)) }"

definition DecodeData :: "(nat \<Rightarrow> u8) \<Rightarrow> u8 list \<Rightarrow> u8 \<Rightarrow> nat \<Rightarrow> (m128 \<times> nat) option" where
  "DecodeData pad mem control data_ptr = do {
     len \<leftarrow> aget lengthTable (unat control);
     d \<leftarrow> DecodeData_lanes pad mem control data_ptr;
     Some (d, data_ptr + len) }"

text \<open>\<^verbatim>\<open>RecoveryFromDelta\<close> of each codec.\<close>

definition RecoveryFromDelta :: "m128 \<Rightarrow> m128 \<Rightarrow> m128" where
  "RecoveryFromDelta d pre =
     (let pre_data = replicate 4 (pre ! 3);
          d = add_epi32 d (slli_4 d);
          d = add_epi32 d (slli_8 d)
      in add_epi32 d pre_data)"

definition RecoveryFromDeltaV1 :: "m128 \<Rightarrow> m128 \<Rightarrow> m128" where
  "RecoveryFromDeltaV1 d pre = add_epi32 d [0, d ! 0, d ! 0, d ! 0]"

definition RecoveryFromDeltaV2 :: "m128 \<Rightarrow> m128 \<Rightarrow> m128" where
  "RecoveryFromDeltaV2 d pre =
     (let d = add_epi32 d (slli_4 d) in add_epi32 d (slli_8 d))"

definition RecoveryFromDeltaV3 :: "m128 \<Rightarrow> m128" where
  "RecoveryFromDeltaV3 d =
     (let d = add_epi32 d (slli_4 d) in add_epi32 d (slli_8 d))"

section \<open>Searching\<close>

type_synonym recover = "m128 \<Rightarrow> m128 \<Rightarrow> m128"

text \<open>The groups between the first and the last one; \<open>Inl\<close> is a \<^verbatim>\<open>return\<close> from inside the loop.\<close>

fun Find_groups :: "recover \<Rightarrow> (nat \<Rightarrow> u8) \<Rightarrow> u8 list \<Rightarrow> nat \<Rightarrow> u32 \<Rightarrow> nat list \<Rightarrow> nat \<Rightarrow> m128 \<Rightarrow> (FindRes + nat \<times> m128) option" where
  "Find_groups rec pad mem inp v [] ptr pre = Some (Inr (ptr, pre))"
| "Find_groups rec pad mem inp v (i # is) ptr pre = do {
     control \<leftarrow> aget mem (inp + i);
     (d, ptr) \<leftarrow> DecodeData pad mem control ptr;
     let pre = rec d pre;
     if cmplt_mask pre v = 15 then Find_groups rec pad mem inp v is ptr pre
     else Some (Inl (if cmpeq_mask pre v \<noteq> 0 then EXIST else NOT_EXIST)) }"

definition FindWithCount :: "recover \<Rightarrow> (nat \<Rightarrow> u8) \<Rightarrow> u8 list \<Rightarrow> nat \<Rightarrow> nat \<Rightarrow> u32 \<Rightarrow> FindRes option" where
  "FindWithCount rec pad mem inp count v = do {
     let control_bytes = (count + 3) div 4;
     last_mask \<leftarrow> aget LAST_COMPARE_MASK (count mod 4);
     control \<leftarrow> aget mem inp;
     (d, ptr) \<leftarrow> DecodeData pad mem control (inp + control_bytes);
     let pre = rec d (replicate 4 0);
     if control_bytes = 1 then do {
       let mask = cmplt_mask pre v AND last_mask;
       if mask = 0 then Some (if pre ! 0 = v then EXIST else LESS_THAN_MIN)
       else if mask = (15 AND last_mask) then Some GRATER_THAN_MAX
       else Some (if cmpeq_mask pre v AND last_mask \<noteq> 0 then EXIST else NOT_EXIST) }
     else do {
       let mask = cmplt_mask pre v;
       if mask = 0 then Some (if pre ! 0 = v then EXIST else LESS_THAN_MIN)
       else if mask \<noteq> 15 then Some (if cmpeq_mask pre v \<noteq> 0 then EXIST else NOT_EXIST)
       else do {
         r \<leftarrow> Find_groups rec pad mem inp v [1..<wsub32 control_bytes 1] ptr pre;
         case r of Inl res \<Rightarrow> Some res
         | Inr (ptr, pre) \<Rightarrow> do {
             control \<leftarrow> aget mem (inp + wsub32 control_bytes 1);
             (d, ptr) \<leftarrow> DecodeData pad mem control ptr;
             let pre = rec d pre;
             if cmplt_mask pre v AND last_mask = (15 AND last_mask) then Some GRATER_THAN_MAX
             else Some (if cmpeq_mask pre v AND last_mask \<noteq> 0 then EXIST else NOT_EXIST) } } } }"

end
