(* ===== verification/Delta_Encode.thy ===== *)
theory Delta_Encode
  imports Delta_Codec Hybrid_Encode
begin

text \<open>
  \<^verbatim>\<open>DeltaSIMDEncode\<close> and its versions 1 and 2 of \<^verbatim>\<open>encode/SIMD/delta_simd_encode.h\<close>. One bit set per vertex:
  byte 0 holds the decodable flag, two bits for the kind of block and five bits for the number of
  encoded integers; from byte 1 on follow the control bytes and the data of the codec, and the bits
  behind them are a hash bitmap of the neighbours that are not encoded.

  The three classes share everything but four members, which the record \<open>delta_class\<close> collects: the
  codec's \<^verbatim>\<open>EncodeArray\<close> and \<^verbatim>\<open>FindWithCount\<close>, the number of bytes that \<^verbatim>\<open>EncodeVertex\<close> computes for the
  whole list, and the bytes that \<^verbatim>\<open>DynamicChoose\<close> adds when a block grows by one integer.
  \<open>pad\<close> is the memory behind the encoding, which \<^verbatim>\<open>_mm_loadu_si128\<close> may read.
\<close>

section \<open>The base class\<close>

text \<open>\<^verbatim>\<open>SIMDEncode\<close> owns the bit sets as \<^verbatim>\<open>EncodeBitSet\<close> does.\<close>

definition SIMDEncode_sized :: "nat \<Rightarrow> nat \<Rightarrow> encoding" where
  "SIMDEncode_sized bit_size vertex_size = map (\<lambda>i. BitSetSIMD bit_size) [0..<vertex_size + 1]"

definition SIMDEncode :: "config \<Rightarrow> encoding" where
  "SIMDEncode cfg = map (\<lambda>i. BitSetSIMD (PER_ENCODE_BIT_SIZE cfg)) [0..<VERTEX_SIZE cfg + 1]"

definition SIMD_GetBytesSize :: "encoding \<Rightarrow> nat option" where
  "SIMD_GetBytesSize st = do { e \<leftarrow> aget st 0; Some (wsub32 (GetBitSize e) 1) }"

text \<open>\<^verbatim>\<open>out\<close> selects the outgoing or the incoming bit sets.\<close>

definition SIMD_EncodePersistent :: "config \<Rightarrow> encoding \<Rightarrow> encoding \<Rightarrow> bool \<Rightarrow> encode_line list option" where
  "SIMD_EncodePersistent cfg encode_bitset in_bitset out =
     foldo (\<lambda>i lines. do {
         e \<leftarrow> aget (if out then encode_bitset else in_bitset) i;
         ws \<leftarrow> Dump e;
         Some (lines @ [(i, ws)]) }) [1..<VERTEX_SIZE cfg + 1] []"

definition SIMD_LoadFromDb :: "encode_line list \<Rightarrow> bool \<Rightarrow> encoding \<times> encoding \<Rightarrow> (encoding \<times> encoding) option" where
  "SIMD_LoadFromDb lines out st =
     foldo (\<lambda>(key, ws) (encode_bitset, in_bitset).
         if out then do {
           e \<leftarrow> aget encode_bitset key; e \<leftarrow> BlockSet_words e ws; encode_bitset \<leftarrow> aput encode_bitset key e;
           Some (encode_bitset, in_bitset) }
         else do {
           e \<leftarrow> aget in_bitset key; e \<leftarrow> BlockSet_words e ws; in_bitset \<leftarrow> aput in_bitset key e;
           Some (encode_bitset, in_bitset) }) lines st"

section \<open>The classes\<close>

record delta_class =
  dc_encode_array :: "u32 list \<Rightarrow> u8 list \<Rightarrow> nat \<Rightarrow> (u8 list \<times> nat) option"
  dc_find :: "(nat \<Rightarrow> u8) \<Rightarrow> u8 list \<Rightarrow> nat \<Rightarrow> nat \<Rightarrow> u32 \<Rightarrow> FindRes option"
  dc_bytes :: "u32 list \<Rightarrow> DeltaInfo list \<Rightarrow> nat option"
  dc_grow :: "DeltaInfo \<Rightarrow> u32 \<Rightarrow> nat \<Rightarrow> u32 \<Rightarrow> nat \<times> u32"

text \<open>\<open>dc_grow info x block_size pre_val\<close>: the bytes of the neighbour \<open>x\<close> as the last one of a block of
  \<open>block_size\<close> integers, and \<^verbatim>\<open>pre_val\<close> after it (only version 1 has that variable).\<close>

definition DeltaSIMDEncode :: delta_class where
  "DeltaSIMDEncode = \<lparr>
     dc_encode_array = EncodeArray (EncodeDeltas GenValue),
     dc_find = FindWithCount RecoveryFromDelta,
     dc_bytes = (\<lambda>neighbors delta_infos.
       if delta_infos = [] then None
       else Some (total_bits (last delta_infos) + (length delta_infos + 3) div 4)),
     dc_grow = (\<lambda>info x block_size pre_val. (delta_bits info, pre_val))\<rparr>"

definition DeltaSIMDEncodeV1 :: delta_class where
  "DeltaSIMDEncodeV1 = \<lparr>
     dc_encode_array = EncodeArray (EncodeDeltas GenValueV1),
     dc_find = FindWithCount RecoveryFromDeltaV1,
     dc_bytes = (\<lambda>neighbors delta_infos. GetRequiredBytes GenValueV1 (aget neighbors) (length neighbors)),
     dc_grow = (\<lambda>info x block_size pre_val.
       if block_size mod 4 = 1 then (val_bits info, x) else (GetOneEncodeLength (x - pre_val), pre_val))\<rparr>"

definition DeltaSIMDEncodeV2 :: delta_class where
  "DeltaSIMDEncodeV2 = \<lparr>
     dc_encode_array = EncodeArray (EncodeDeltas GenValueV2),
     dc_find = FindWithCount RecoveryFromDeltaV2,
     dc_bytes = (\<lambda>neighbors delta_infos. GetRequiredBytes GenValueV2 (aget neighbors) (length neighbors)),
     dc_grow = (\<lambda>info x block_size pre_val.
       (if block_size mod 4 = 1 then val_bits info else delta_bits info, pre_val))\<rparr>"

definition max_bytes_len :: "config \<Rightarrow> nat" where
  "max_bytes_len cfg = wsub32 (PER_ENCODE_BIT_SIZE cfg div 8) 1"

section \<open>Reading an encoding\<close>

definition Delta_IsDecodable :: "encoding \<Rightarrow> u32 \<Rightarrow> bool option" where
  "Delta_IsDecodable st vertex = do { e \<leftarrow> aget st (unat vertex); GetFirstBit e }"

definition Delta_GetBlockModel :: "bitset \<Rightarrow> BlockType option" where
  "Delta_GetBlockModel e = do {
     b1 \<leftarrow> GetSecondBit e;
     if b1 then Some RightMost
     else do {
       b2 \<leftarrow> GetThridBit e;
       if b2 then Some Middle else Some LeftMost } }"

definition Delta_GetBlockModel_vertex :: "encoding \<Rightarrow> u32 \<Rightarrow> BlockType option" where
  "Delta_GetBlockModel_vertex st vertex = do {
     e \<leftarrow> aget st (unat vertex);
     b1 \<leftarrow> IsOne e 1;
     if b1 then Some RightMost
     else do {
       b2 \<leftarrow> IsOne e 2;
       if \<not> b2 then Some LeftMost else Some Middle } }"

fun Delta_SetBlockModel :: "bitset \<Rightarrow> BlockType \<Rightarrow> bitset option" where
  "Delta_SetBlockModel bs LeftMost = BlockSet bs 1 2 0"
| "Delta_SetBlockModel bs FullHash = BlockSet bs 1 2 1"
| "Delta_SetBlockModel bs Middle = BlockSet bs 1 2 1"
| "Delta_SetBlockModel bs RightMost = BlockSet bs 1 2 3"

definition SetEncodeSize :: "bitset \<Rightarrow> u32 \<Rightarrow> bitset option" where
  "SetEncodeSize e val = BlockSet e 3 5 val"

definition Delta_GetEncodeSize :: "bitset \<Rightarrow> u32 option" where
  "Delta_GetEncodeSize e = BlockGet e 3 5"

definition Delta_GetEncodeSize_vertex :: "encoding \<Rightarrow> u32 \<Rightarrow> u32 option" where
  "Delta_GetEncodeSize_vertex st vertex = do { e \<leftarrow> aget st (unat vertex); BlockGet e 3 5 }"

definition Delta_Hash :: "config \<Rightarrow> u32 \<Rightarrow> nat \<Rightarrow> nat option" where
  "Delta_Hash cfg vertex_id hash_begin =
     (let d = wsub32 (PER_ENCODE_BIT_SIZE cfg) hash_begin in
      if d = 0 then None else Some ((unat vertex_id mod d + hash_begin) mod 2 ^ 32))"

text \<open>\<^verbatim>\<open>enum BlockType : char {FullHash = 1, LeftMost = 2, RightMost = 4, Middle = 8}\<close>; \<^verbatim>\<open>res & type\<close> compares it
  with the result of a search.\<close>

fun block_code :: "BlockType \<Rightarrow> nat" where
  "block_code FullHash = 1"
| "block_code LeftMost = 2"
| "block_code RightMost = 4"
| "block_code Middle = 8"

definition FindDecodable :: "delta_class \<Rightarrow> (nat \<Rightarrow> u8) \<Rightarrow> bitset \<Rightarrow> u32 \<Rightarrow> PairType option" where
  "FindDecodable C pad e vertex = do {
     n \<leftarrow> GetEncodeSize e;
     if n = 0 then Some NonNeighbor
     else do {
       res \<leftarrow> dc_find C pad (bs_data e) 1 (unat n) vertex;
       Some (if find_code res = 0 then Neighbor else NonNeighbor) } }"

definition FindNonDecodable :: "config \<Rightarrow> delta_class \<Rightarrow> (nat \<Rightarrow> u8) \<Rightarrow> bitset \<Rightarrow> u32 \<Rightarrow> PairType option" where
  "FindNonDecodable cfg C pad e vertex = do {
     in_size \<leftarrow> GetEncodeSize e;
     if in_size = 0 then do {
       p \<leftarrow> Delta_Hash cfg vertex 8;
       b \<leftarrow> IsOne e p;
       Some (if b then Uncertain else NonNeighbor) }
     else do {
       type \<leftarrow> Delta_GetBlockModel e;
       res \<leftarrow> dc_find C pad (bs_data e) 1 (unat in_size) vertex;
       if find_code res = 0 then Some Neighbor
       else if find_code res AND block_code type \<noteq> 0 then Some NonNeighbor
       else do {
         len \<leftarrow> GetEncodeLength (bs_data e) 1 (unat in_size);
         let hash_begin = (1 + len) * 8;
         if hash_begin = PER_ENCODE_BIT_SIZE cfg then Some Uncertain
         else do {
           p \<leftarrow> Delta_Hash cfg vertex hash_begin;
           b \<leftarrow> IsOne e p;
           Some (if b then Uncertain else NonNeighbor) } } } }"

definition Delta_NonNeighborTest :: "delta_class \<Rightarrow> (nat \<Rightarrow> u8) \<Rightarrow> config \<Rightarrow> encoding \<Rightarrow> u32 \<Rightarrow> u32 \<Rightarrow> PairType option" where
  "Delta_NonNeighborTest C pad cfg st vertex1 vertex2 = do {
     d \<leftarrow> Delta_IsDecodable st vertex1;
     e \<leftarrow> aget st (unat vertex1);
     if d then FindDecodable C pad e vertex2 else FindNonDecodable cfg C pad e vertex2 }"

text \<open>\<^verbatim>\<open>NEpairTest\<close> with \<^verbatim>\<open>UNDIRECTED == 1\<close>.\<close>

definition Delta_NEpairTest :: "delta_class \<Rightarrow> (nat \<Rightarrow> u8) \<Rightarrow> config \<Rightarrow> encoding \<Rightarrow> u32 \<Rightarrow> u32 \<Rightarrow> PairType option" where
  "Delta_NEpairTest C pad cfg st vertex1 vertex2 = do {
     d1 \<leftarrow> Delta_IsDecodable st vertex1;
     d2 \<leftarrow> Delta_IsDecodable st vertex2;
     e1 \<leftarrow> aget st (unat vertex1);
     e2 \<leftarrow> aget st (unat vertex2);
     if d1 then
       if d2 then do {
         a \<leftarrow> FindDecodable C pad e1 vertex2;
         b \<leftarrow> FindDecodable C pad e2 vertex1;
         Some (min a b) }
       else FindDecodable C pad e1 vertex2
     else
       if d2 then FindDecodable C pad e2 vertex1
       else do {
         a \<leftarrow> FindNonDecodable cfg C pad e1 vertex2;
         b \<leftarrow> FindNonDecodable cfg C pad e2 vertex1;
         Some (min a b) } }"

section \<open>Scores\<close>

record BlockInfo =
  bi_begin :: nat
  block_size :: nat
  block_type :: BlockType

text \<open>The loop that counts the positions the hashed neighbours take. It stops when there are too many;
  \<open>skip\<close> are the indices of the block.\<close>

fun hash_loop :: "nat \<Rightarrow> u32 \<Rightarrow> (nat \<Rightarrow> bool) \<Rightarrow> nat \<Rightarrow> u32 list \<Rightarrow> bool list \<Rightarrow> u32 \<Rightarrow> u32 option" where
  "hash_loop hash_bits max_hash_count skip i [] hash_val hcount = Some hcount"
| "hash_loop hash_bits max_hash_count skip i (x # xs) hash_val hcount =
     (if hcount \<le> max_hash_count then
        if skip i then hash_loop hash_bits max_hash_count skip (i + 1) xs hash_val hcount
        else if hash_bits = 0 then None
        else do {
          let hash_now = unat x mod hash_bits;
          b \<leftarrow> aget hash_val hash_now;
          if \<not> b then do {
            hash_val \<leftarrow> aput hash_val hash_now True;
            hash_loop hash_bits max_hash_count skip (i + 1) xs hash_val (hcount + 1) }
          else hash_loop hash_bits max_hash_count skip (i + 1) xs hash_val hcount }
      else Some hcount)"

text \<open>Division of \<^verbatim>\<open>uint32_t\<close>.\<close>

definition udiv :: "u32 \<Rightarrow> u32 \<Rightarrow> u32 option" where
  "udiv a b = (if b = 0 then None else Some (a div b))"

definition FullHashScoreCount :: "config \<Rightarrow> u32 list \<Rightarrow> nat \<Rightarrow> u32 \<Rightarrow> (bool \<times> u32) option" where
  "FullHashScoreCount cfg neighbors hash_bits score = do {
     q \<leftarrow> udiv (score * of_nat hash_bits) (of_nat (VERTEX_SIZE cfg));
     let max_hash_count = of_nat hash_bits - q;
     hash_count \<leftarrow> hash_loop hash_bits max_hash_count (\<lambda>i. False) 0 neighbors (replicate hash_bits False) 0;
     if hash_count \<le> max_hash_count then do {
       score \<leftarrow> udiv (of_nat (VERTEX_SIZE cfg) * (of_nat hash_bits - hash_count)) (of_nat hash_bits);
       Some (True, score) }
     else Some (False, score) }"

text \<open>\<^verbatim>\<open>ScoreCount\<close>. The comparison of the product with \<^verbatim>\<open>0.35\<close> is one of doubles; for counts below \<open>2 ^ 32\<close> it
  agrees with the one of the integers: a product that is not a whole number is at least \<open>0.05\<close> away
  from the next one, far more than the rounding error.\<close>

definition ScoreCount :: "config \<Rightarrow> BlockInfo \<Rightarrow> u32 list \<Rightarrow> nat \<Rightarrow> u32 \<Rightarrow> (bool \<times> u32) option" where
  "ScoreCount cfg info neighbors hash_bits score = do {
     let first_idx = bi_begin info;
     let last_idx = wsub32 (bi_begin info + block_size info) 1;
     let V = (of_nat (VERTEX_SIZE cfg) :: u32);
     current_score \<leftarrow> (case block_type info of
         RightMost \<Rightarrow> do { f \<leftarrow> aget neighbors first_idx; Some (V - f + 1) }
       | LeftMost \<Rightarrow> aget neighbors last_idx
       | _ \<Rightarrow> do { l \<leftarrow> aget neighbors last_idx; f \<leftarrow> aget neighbors first_idx; Some (l - f + 1) });
     if hash_bits = 0 then
       if current_score > score then Some (True, current_score) else Some (False, score)
     else do {
       max_hash_count \<leftarrow> (if current_score \<ge> score then Some (of_nat hash_bits)
         else do { q \<leftarrow> udiv ((score - current_score) * of_nat hash_bits) (V - current_score); Some (of_nat hash_bits - q) });
       if 35 * (length neighbors - block_size info) > 100 * unat max_hash_count then Some (False, score)
       else do {
         hash_count \<leftarrow> hash_loop hash_bits max_hash_count (\<lambda>i. first_idx \<le> i \<and> i \<le> last_idx) 0 neighbors
           (replicate hash_bits False) 0;
         if hash_count \<le> max_hash_count then do {
           q \<leftarrow> udiv ((V - current_score) * (of_nat hash_bits - hash_count)) (of_nat hash_bits);
           Some (True, current_score + q) }
         else Some (False, score) } } }"

section \<open>Writing an encoding\<close>

text \<open>The \<^verbatim>\<open>while\<close> loop of \<^verbatim>\<open>DynamicChoose\<close>: it grows the current block until it does not fit or reaches the
  last neighbour. The state is the best score with its block.\<close>

function choose_loop :: "config \<Rightarrow> delta_class \<Rightarrow> u32 list \<Rightarrow> DeltaInfo list \<Rightarrow> BlockInfo \<Rightarrow> nat \<Rightarrow> u32 \<Rightarrow>
    u32 \<times> BlockInfo \<Rightarrow> (u32 \<times> BlockInfo) option" where
  "choose_loop cfg C neighbors delta_infos cur pre_bytes pre_val best =
     (if pre_bytes + (block_size cur + 3) div 4 \<le> max_bytes_len cfg then do {
        let cur = (if block_size cur + bi_begin cur = length neighbors then cur\<lparr>block_type := RightMost\<rparr> else cur);
        (better, score) \<leftarrow> ScoreCount cfg cur neighbors
          ((max_bytes_len cfg - pre_bytes - (block_size cur + 3) div 4) * 8) (fst best);
        let best = (score, if better then cur else snd best);
        if block_type cur = RightMost then Some best
        else do {
          info \<leftarrow> aget delta_infos (block_size cur + bi_begin cur);
          x \<leftarrow> aget neighbors (block_size cur + bi_begin cur);
          let (bytes, pre_val) = dc_grow C info x (block_size cur + 1) pre_val;
          choose_loop cfg C neighbors delta_infos (cur\<lparr>block_size := block_size cur + 1\<rparr>) (pre_bytes + bytes) pre_val best } }
      else Some best)"
  by pat_completeness auto
termination
  by (relation "measure (\<lambda>(cfg, C, neighbors, delta_infos, cur, pre_bytes, pre_val, best).
        length neighbors - (block_size cur + bi_begin cur))")
    (auto simp: aget_eq_Some_iff)

declare choose_loop.simps [simp del]

text \<open>One round of its \<^verbatim>\<open>for\<close> loop: the smallest block at \<open>i\<close>. A block that is neither the first nor the last
  starts with two integers.\<close>

definition choose_step :: "config \<Rightarrow> delta_class \<Rightarrow> u32 list \<Rightarrow> DeltaInfo list \<Rightarrow> nat \<Rightarrow>
    u32 \<times> BlockInfo \<Rightarrow> (u32 \<times> BlockInfo) option" where
  "choose_step cfg C neighbors delta_infos i best = do {
     info \<leftarrow> aget delta_infos i;
     pre_val \<leftarrow> aget neighbors i;
     let pre_bytes = val_bits info;
     if i = 0 then
       choose_loop cfg C neighbors delta_infos \<lparr>bi_begin = i, block_size = 1, block_type = LeftMost\<rparr> pre_bytes pre_val best
     else if i \<noteq> wsub32 (length neighbors) 1 then do {
       info \<leftarrow> aget delta_infos (i + 1);
       x \<leftarrow> aget neighbors (i + 1);
       let (bytes, pre_val) = dc_grow C info x 2 pre_val;
       choose_loop cfg C neighbors delta_infos \<lparr>bi_begin = i, block_size = 2, block_type = Middle\<rparr> (pre_bytes + bytes) pre_val best }
     else
       choose_loop cfg C neighbors delta_infos \<lparr>bi_begin = i, block_size = 1, block_type = RightMost\<rparr> pre_bytes pre_val best }"

definition ConstructEncode :: "config \<Rightarrow> delta_class \<Rightarrow> BlockInfo \<Rightarrow> u32 list \<Rightarrow> bitset \<Rightarrow> bitset option" where
  "ConstructEncode cfg C info neighbors e = do {
     let last_idx = int (bi_begin info) + int (block_size info) - 1;
     e \<leftarrow> Delta_SetBlockModel e (block_type info);
     (e, out_bytes_length) \<leftarrow> (if block_type info \<noteq> FullHash then do {
         e \<leftarrow> SetEncodeSize e (of_nat (block_size info));
         run \<leftarrow> slice (bi_begin info) (bi_begin info + block_size info) neighbors;
         (mem, len) \<leftarrow> dc_encode_array C run (bs_data e) 1;
         Some (e\<lparr>bs_data := mem\<rparr>, len) }
       else Some (e, 0));
     let hash_begin = (out_bytes_length + 1) * 8;
     if hash_begin = PER_ENCODE_BIT_SIZE cfg then Some e
     else foldo (\<lambda>i e.
         if bi_begin info \<le> i \<and> int i \<le> last_idx then Some e
         else do {
           v \<leftarrow> aget neighbors i;
           p \<leftarrow> Delta_Hash cfg v hash_begin;
           SetOne e p }) [0..<length neighbors] e }"

definition Delta_DynamicChoose :: "config \<Rightarrow> delta_class \<Rightarrow> u32 list \<Rightarrow> DeltaInfo list \<Rightarrow> bitset \<Rightarrow> bitset option" where
  "Delta_DynamicChoose cfg C neighbors delta_infos e = do {
     let best_block = \<lparr>bi_begin = 0, block_size = 0, block_type = FullHash\<rparr>;
     (_, score) \<leftarrow> FullHashScoreCount cfg neighbors (max_bytes_len cfg * 8) 0;
     (_, best_block) \<leftarrow> foldo (choose_step cfg C neighbors delta_infos) [0..<length neighbors] (score, best_block);
     ConstructEncode cfg C best_block neighbors e }"

definition Delta_EncodeVertex :: "delta_class \<Rightarrow> config \<Rightarrow> u32 \<Rightarrow> u32 list \<Rightarrow> encoding \<Rightarrow> encoding option" where
  "Delta_EncodeVertex C cfg vertex_id neighbors st = do {
     e \<leftarrow> aget st (unat vertex_id);
     e \<leftarrow> (if neighbors = [] then SetOne e 0
       else do {
         delta_infos \<leftarrow> ParseEncode neighbors;
         encode_byte_len \<leftarrow> dc_bytes C neighbors delta_infos;
         if encode_byte_len \<le> max_bytes_len cfg then do {
           e \<leftarrow> SetOne e 0;
           e \<leftarrow> SetEncodeSize e (of_nat (length neighbors));
           (mem, _) \<leftarrow> dc_encode_array C neighbors (bs_data e) 1;
           Some (e\<lparr>bs_data := mem\<rparr>) }
         else Delta_DynamicChoose cfg C neighbors delta_infos e });
     aput st (unat vertex_id) e }"

end
