(* ===== verification/Delta_Tree.thy ===== *)
theory Delta_Tree
  imports Delta_Codec Vend_Config
begin

text \<open>
  \<^verbatim>\<open>DeltaSIMDCodecV3\<close> with its search trees. \<^verbatim>\<open>SearchTree(n)\<close> arranges the groups of a list of \<open>n\<close> integers as a
  tree: the four integers of a node split the rest into the parts of its children, and \<^verbatim>\<open>encode_list\<close> are
  the indices that each group stores. A node is an index into \<^verbatim>\<open>nodes\<close>; \<^verbatim>\<open>children == nullptr\<close> is \<^term>\<open>None\<close>.
  The recursions over the tree carry fuel, one unit for each level; the number of groups is enough,
  since a child always has a larger index than its parent.
\<close>

record TreeNode =
  children :: "nat list option"
  masks :: "nat list"
  tn_idx :: nat

record SearchTree =
  groups :: nat
  st_size :: nat
  nodes :: "TreeNode list"
  encode_list :: "nat list list"

text \<open>\<^verbatim>\<open>add_children\<close> and the assignments that fill the new array.\<close>

definition set_children :: "nat \<Rightarrow> nat list \<Rightarrow> TreeNode list \<Rightarrow> TreeNode list option" where
  "set_children p cs ns = do { n \<leftarrow> aget ns p; aput ns p (n\<lparr>children := Some cs\<rparr>) }"

text \<open>The levels whose nodes all have five children. \<^verbatim>\<open>parents_num\<close> is positive: it starts with three and grows.\<close>

function full_levels :: "nat \<Rightarrow> nat \<Rightarrow> nat \<Rightarrow> nat \<Rightarrow> TreeNode list \<Rightarrow> (nat \<times> nat \<times> TreeNode list) option" where
  "full_levels node_nums parents_num current_idx parents_idx ns =
     (if node_nums > parents_num * 5 \<and> 0 < parents_num then do {
        (current_idx, ns) \<leftarrow> foldo (\<lambda>i (current_idx, ns). do {
            ns \<leftarrow> set_children (i + parents_idx) [current_idx..<current_idx + 5] ns;
            Some (current_idx + 5, ns) }) [0..<parents_num] (current_idx, ns);
        full_levels (node_nums - parents_num * 5) (parents_num * 5) current_idx (parents_idx + parents_num) ns }
      else Some (node_nums, current_idx, ns))"
  by pat_completeness auto
termination
  by (relation "measure (\<lambda>(node_nums, parents_num, current_idx, parents_idx, ns). node_nums)") auto

declare full_levels.simps [simp del]

fun last_level :: "nat \<Rightarrow> nat \<Rightarrow> nat \<Rightarrow> TreeNode list \<Rightarrow> TreeNode list option" where
  "last_level node_nums current_idx parents_idx ns =
     (if node_nums > 5 then do {
        ns \<leftarrow> set_children parents_idx [node_nums + current_idx - 5..<node_nums + current_idx] ns;
        last_level (node_nums - 5) current_idx (wsub32 parents_idx 1) ns }
      else if node_nums = 0 then Some ns
      else set_children parents_idx [current_idx..<current_idx + node_nums] ns)"

declare last_level.simps [simp del]

definition push_mask :: "nat \<Rightarrow> nat \<Rightarrow> SearchTree \<Rightarrow> SearchTree option" where
  "push_mask p m T = do {
     n \<leftarrow> aget (nodes T) p;
     ns \<leftarrow> aput (nodes T) p (n\<lparr>masks := masks n @ [m]\<rparr>);
     Some (T\<lparr>nodes := ns\<rparr>) }"

definition push_order :: "nat \<Rightarrow> nat list \<Rightarrow> SearchTree \<Rightarrow> SearchTree option" where
  "push_order p xs T = do {
     l \<leftarrow> aget (encode_list T) p;
     el \<leftarrow> aput (encode_list T) p (l @ xs);
     Some (T\<lparr>encode_list := el\<rparr>) }"

text \<open>\<^verbatim>\<open>while (encode_list[p].size() < k) encode_list[p].push_back(pivot++)\<close>.\<close>

definition fill_order :: "nat \<Rightarrow> nat \<Rightarrow> nat \<Rightarrow> SearchTree \<Rightarrow> (nat \<times> SearchTree) option" where
  "fill_order p k pivot T = do {
     l \<leftarrow> aget (encode_list T) p;
     T \<leftarrow> push_order p [pivot..<pivot + (k - length l)] T;
     Some (pivot + (k - length l), T) }"

fun search_children :: "nat \<Rightarrow> nat \<Rightarrow> nat \<Rightarrow> SearchTree \<Rightarrow> (nat \<times> SearchTree) option" where
  "search_children 0 p start T = None"
| "search_children (Suc fuel) p start T = do {
     n \<leftarrow> aget (nodes T) p;
     case children n of
       None \<Rightarrow>
         if tn_idx n = wsub32 (groups T) 1 then do {
           T \<leftarrow> push_order (tn_idx n) [start..<st_size T - 1] T;
           Some (max start (st_size T - 1), T) }
         else do {
           el \<leftarrow> aput (encode_list T) (tn_idx n) [start, start + 1, start + 2, start + 3];
           Some (start + 4, T\<lparr>encode_list := el\<rparr>) }
     | Some cs \<Rightarrow> do {
         (pivot1, T) \<leftarrow> foldo (\<lambda>i (pivot1, T). do {
             c \<leftarrow> aget cs i;
             (pivot1, T) \<leftarrow> search_children fuel c pivot1 T;
             m \<leftarrow> aget SEARCH_MASK i;
             T \<leftarrow> push_mask p m T;
             T \<leftarrow> push_order (tn_idx n) [pivot1] T;
             Some (pivot1 + 1, T) }) [0..<length cs - 1] (start, T);
         (pivot1, T) \<leftarrow> fill_order (tn_idx n) 4 pivot1 T;
         m \<leftarrow> aget SEARCH_MASK 4;
         T \<leftarrow> push_mask p m T;
         c \<leftarrow> aget cs (length cs - 1);
         search_children fuel c pivot1 T } }"

definition init_order :: "SearchTree \<Rightarrow> SearchTree option" where
  "init_order T = do {
     let T = T\<lparr>encode_list := replicate (groups T) []\<rparr>;
     if st_size T \<le> 4 then push_order 0 [0..<st_size T] T
     else do {
       n \<leftarrow> aget (nodes T) 0;
       cs \<leftarrow> children n;
       if groups T \<le> 4 then do {
         T \<leftarrow> push_order 0 [0] T;
         (pivot, T) \<leftarrow> foldo (\<lambda>i (pivot, T). do {
             c \<leftarrow> aget cs i;
             (pivot, T) \<leftarrow> search_children (groups T) c pivot T;
             m \<leftarrow> aget SEARCH_MASK (i + 1);
             T \<leftarrow> push_mask 0 m T;
             T \<leftarrow> push_order 0 [pivot] T;
             Some (pivot + 1, T) }) [0..<length cs - 1] (1, T);
         (pivot, T) \<leftarrow> fill_order 0 3 pivot T;
         c \<leftarrow> aget cs (length cs - 1);
         (_, T) \<leftarrow> search_children (groups T) c pivot T;
         m \<leftarrow> aget SEARCH_MASK 3;
         T \<leftarrow> push_mask 0 m T;
         push_order 0 [st_size T - 1] T }
       else do {
         ns \<leftarrow> aput (nodes T) 0 (n\<lparr>masks := [SEARCH_MASK ! 1, SEARCH_MASK ! 2, SEARCH_MASK ! 3]\<rparr>);
         let T = T\<lparr>nodes := ns\<rparr>;
         c0 \<leftarrow> aget cs 0;
         (pivot1, T) \<leftarrow> search_children (groups T) c0 1 T;
         c1 \<leftarrow> aget cs 1;
         (pivot2, T) \<leftarrow> search_children (groups T) c1 (pivot1 + 1) T;
         c2 \<leftarrow> aget cs 2;
         (_, T) \<leftarrow> search_children (groups T) c2 (pivot2 + 1) T;
         el \<leftarrow> aput (encode_list T) 0 [0, pivot1, pivot2, st_size T - 1];
         Some (T\<lparr>encode_list := el\<rparr>) } } }"

text \<open>The constructor; with a single group it returns before \<^verbatim>\<open>init_order\<close>, as it would with no node left for
  the last level.\<close>

definition SearchTree_new :: "nat \<Rightarrow> SearchTree option" where
  "SearchTree_new n = do {
     let node_nums = (n + 3) div 4;
     let ns = map (\<lambda>i. \<lparr>children = None, masks = [], tn_idx = i\<rparr>) [0..<node_nums];
     let T = \<lparr>groups = node_nums, st_size = n, nodes = ns, encode_list = []\<rparr>;
     if node_nums = 1 then Some T
     else if node_nums \<le> 4 then do {
       ns \<leftarrow> set_children 0 [1..<node_nums] ns;
       init_order (T\<lparr>nodes := ns\<rparr>) }
     else do {
       ns \<leftarrow> set_children 0 [1, 2, 3] ns;
       (node_nums, current_idx, ns) \<leftarrow> full_levels (node_nums - 4) 3 4 1 ns;
       ns \<leftarrow> last_level node_nums current_idx (current_idx - 1) ns;
       let T = T\<lparr>nodes := ns\<rparr>;
       if node_nums = 0 then Some T else init_order T } }"

definition get_order :: "SearchTree \<Rightarrow> nat list" where
  "get_order T = concat (encode_list T)"

definition trees_ary :: "nat \<Rightarrow> SearchTree option" where
  "trees_ary i = (if i = 0 then SearchTree_new 1 else if i \<le> 40 then SearchTree_new i else None)"

section \<open>The codec\<close>

text \<open>\<^verbatim>\<open>countByteLen\<close>: where the data of each group starts.\<close>

definition countByteLen :: "u8 list \<Rightarrow> nat \<Rightarrow> nat \<Rightarrow> nat list option" where
  "countByteLen mem inp group_nums =
     foldo (\<lambda>i len. do {
         b \<leftarrow> aget mem (inp + i);
         l \<leftarrow> aget lengthTable (unat b);
         prev \<leftarrow> aget len i;
         Some (len @ [prev + l]) }) [0..<wsub32 group_nums 1] [0]"

text \<open>\<^verbatim>\<open>DecodeControl\<close>: where the data of each value starts; the rows of \<^verbatim>\<open>TotalLengthTable\<close> are prefix sums.\<close>

definition DecodeControl :: "u8 list \<Rightarrow> nat \<Rightarrow> nat \<Rightarrow> nat list option" where
  "DecodeControl mem inp cnt = do {
     (out, _) \<leftarrow> foldo (\<lambda>i (out, pre). do {
         b \<leftarrow> aget mem (inp + i);
         row \<leftarrow> aget TotalLengthTable (unat b);
         let d = map (\<lambda>l. l + pre) (take 4 row);
         l3 \<leftarrow> aget d 3;
         Some (out @ d, l3) }) [0..<(cnt + 2) div 4] ([0], 0);
     Some out }"

text \<open>The scalar \<^verbatim>\<open>RecoveryFromDelta(decode, recovery)\<close> changes \<^verbatim>\<open>decode\<close>, which is then searched. Its
  input has been recovered before.\<close>

definition RecoveryScalar :: "m128 \<Rightarrow> m128" where
  "RecoveryScalar d =
     (let d = d[1 := d ! 1 + d ! 0]; d = d[2 := d ! 2 + d ! 1]; d = d[3 := d ! 3 + d ! 2];
          d = d[2 := d ! 2 + d ! 1]; d = d[3 := d ! 3 + d ! 2]
      in d)"

definition hsimd_hit :: "bool \<Rightarrow> m128 \<Rightarrow> u32 \<Rightarrow> bool" where
  "hsimd_hit hsimd d v \<longleftrightarrow> hsimd \<and> v \<in> set (RecoveryScalar d)"

text \<open>\<^verbatim>\<open>DFS\<close>. The \<^verbatim>\<open>for\<close> loop over the children returns in its first round.\<close>

fun DFS :: "nat \<Rightarrow> bool \<Rightarrow> (nat \<Rightarrow> u8) \<Rightarrow> SearchTree \<Rightarrow> nat \<Rightarrow> u32 \<Rightarrow> nat \<Rightarrow> nat list \<Rightarrow> u8 list \<Rightarrow> nat \<Rightarrow> nat \<Rightarrow> FindRes option" where
  "DFS 0 hsimd pad T p v cnt lens mem inp data_ptr = None"
| "DFS (Suc fuel) hsimd pad T p v cnt lens mem inp data_ptr = do {
     node \<leftarrow> aget (nodes T) p;
     control \<leftarrow> aget mem (inp + tn_idx node);
     off \<leftarrow> aget lens (tn_idx node);
     d \<leftarrow> DecodeData_lanes pad mem control (data_ptr + off);
     let d = RecoveryFromDeltaV3 d;
     if hsimd_hit hsimd d v then Some EXIST
     else case children node of
       None \<Rightarrow>
         if tn_idx node = wsub32 ((cnt + 3) div 4) 1 then do {
           l \<leftarrow> aget LAST_COMPARE_MASK (cnt mod 4);
           Some (if cmpeq_mask d v AND l \<noteq> 0 then EXIST else NOT_EXIST) }
         else Some (if cmpeq_mask d v \<noteq> 0 then EXIST else NOT_EXIST)
     | Some cs \<Rightarrow>
         if cmpeq_mask d v \<noteq> 0 then Some EXIST
         else if cs = [] then None
         else do {
           m \<leftarrow> aget (masks node) 0;
           if cmplt_mask d v = m then do {
             c \<leftarrow> aget cs 0;
             DFS fuel hsimd pad T c v cnt lens mem inp data_ptr }
           else Some NOT_EXIST } }"

text \<open>The loop of \<^verbatim>\<open>FindWithCount\<close> over the children of the root.\<close>

fun root_children :: "(nat \<Rightarrow> FindRes option) \<Rightarrow> nat \<Rightarrow> nat list \<Rightarrow> nat list \<Rightarrow> FindRes option" where
  "root_children dfs msk (m # ms) (c # cs) = (if msk = m then dfs c else root_children dfs msk ms cs)"
| "root_children dfs msk ms [] = Some NOT_EXIST"
| "root_children dfs msk [] (c # cs) = None"

definition FindWithCountV3 :: "bool \<Rightarrow> (nat \<Rightarrow> u8) \<Rightarrow> u8 list \<Rightarrow> nat \<Rightarrow> nat \<Rightarrow> u32 \<Rightarrow> FindRes option" where
  "FindWithCountV3 hsimd pad mem inp cnt v = do {
     T \<leftarrow> trees_ary cnt;
     let control_bytes = (cnt + 3) div 4;
     let data_ptr = inp + control_bytes;
     control \<leftarrow> aget mem inp;
     d \<leftarrow> DecodeData_lanes pad mem control data_ptr;
     let d = RecoveryFromDeltaV3 d;
     if hsimd_hit hsimd d v then Some EXIST
     else if control_bytes = 1 then do {
       l \<leftarrow> aget LAST_COMPARE_MASK (cnt mod 4);
       if cmpeq_mask d v AND l \<noteq> 0 then Some EXIST
       else if cmplt_mask d v AND l = 0 then Some LESS_THAN_MIN
       else if cmplt_mask d v AND l = (15 AND l) then Some GRATER_THAN_MAX
       else Some NOT_EXIST }
     else if cmpeq_mask d v \<noteq> 0 then Some EXIST
     else if cmplt_mask d v = 0 then Some LESS_THAN_MIN
     else if cmplt_mask d v = 15 then Some GRATER_THAN_MAX
     else do {
       lens \<leftarrow> countByteLen mem inp control_bytes;
       root \<leftarrow> aget (nodes T) 0;
       root_children (\<lambda>c. DFS (groups T) hsimd pad T c v cnt lens mem inp data_ptr) (cmplt_mask d v) (masks root)
         (case children root of None \<Rightarrow> [] | Some cs \<Rightarrow> cs) } }"

end
