(* ===== verification/Delta_V3.thy ===== *)
theory Delta_V3
  imports Delta_Encode Delta_Tree
begin

text \<open>
  \<^verbatim>\<open>DeltaSIMDEncodeV3\<close>: the encoder over \<^verbatim>\<open>DeltaSIMDCodecV3\<close>. It scores blocks with \<^verbatim>\<open>HashCount\<close>, and it is the one
  delta encoder with updates. The reading members are those of \<^verbatim>\<open>DeltaSIMDEncode\<close>. \<open>db\<close> is \<^verbatim>\<open>DbQuery\<close>.
\<close>

definition DeltaSIMDEncodeV3 :: "config \<Rightarrow> delta_class" where
  "DeltaSIMDEncodeV3 cfg = \<lparr>
     dc_encode_array = EncodeArray EncodeDeltasV3,
     dc_find = FindWithCountV3 (HSIMD cfg),
     dc_bytes = (\<lambda>neighbors delta_infos. GetRequiredBytesV3 neighbors),
     dc_grow = dc_grow DeltaSIMDEncodeV2\<rparr>"

text \<open>The score of a block; \<^verbatim>\<open>slot_array\<close> keeps one \<^verbatim>\<open>HashCount\<close> for every size of the hash part.\<close>

definition slot_score :: "config \<Rightarrow> u32 list \<Rightarrow> BlockInfo \<Rightarrow> nat \<Rightarrow> HashCount option list \<Rightarrow> (u32 \<times> HashCount option list) option" where
  "slot_score cfg neighbors cur slot_size slot_array = do {
     slot \<leftarrow> aget slot_array slot_size;
     (hc, slot_array) \<leftarrow> (case slot of
         Some hc \<Rightarrow> Some (hc, slot_array)
       | None \<Rightarrow> do {
           hc \<leftarrow> Construct neighbors (HashCount_sized slot_size);
           slot_array \<leftarrow> aput slot_array slot_size (Some hc);
           Some (hc, slot_array) });
     score \<leftarrow> GetVal cfg hc neighbors (bi_begin cur) (block_size cur) (block_type cur);
     Some (score, slot_array) }"

text \<open>The \<^verbatim>\<open>while (true)\<close> loop. \<^verbatim>\<open>GetRequiredBytes\<close> has no order for more than forty integers and \<open>n - i\<close> bounds
  the rounds: the block that reaches the last neighbour is of type \<^verbatim>\<open>RightMost\<close> and breaks.\<close>

function chooseV3_loop :: "config \<Rightarrow> u32 list \<Rightarrow> BlockInfo \<Rightarrow> u32 \<times> BlockInfo \<times> HashCount option list \<Rightarrow>
    (u32 \<times> BlockInfo \<times> HashCount option list) option" where
  "chooseV3_loop cfg neighbors cur best = (case best of (score, best_block, slot_array) \<Rightarrow> do {
     len \<leftarrow> GetRequiredBytesV3_block neighbors (bi_begin cur) (block_size cur);
     let byte_len = len + (block_size cur + 3) div 4;
     if byte_len > max_bytes_len cfg then Some best
     else do {
       let cur = (if block_size cur + bi_begin cur = length neighbors then cur\<lparr>block_type := RightMost\<rparr> else cur);
       (current_score, slot_array) \<leftarrow> slot_score cfg neighbors cur ((max_bytes_len cfg - byte_len) * 8) slot_array;
       let best = (if current_score > score then (current_score, cur, slot_array) else (score, best_block, slot_array));
       if block_type cur = RightMost then Some best
       else if length neighbors \<le> block_size cur + bi_begin cur then None
       else chooseV3_loop cfg neighbors (cur\<lparr>block_size := block_size cur + 1\<rparr>) best } })"
  by pat_completeness auto
termination
  by (relation "measure (\<lambda>(cfg, neighbors, cur, best). length neighbors - (block_size cur + bi_begin cur))") auto

declare chooseV3_loop.simps [simp del]

definition chooseV3_step :: "config \<Rightarrow> u32 list \<Rightarrow> nat \<Rightarrow> u32 \<times> BlockInfo \<times> HashCount option list \<Rightarrow>
    (u32 \<times> BlockInfo \<times> HashCount option list) option" where
  "chooseV3_step cfg neighbors i best =
     chooseV3_loop cfg neighbors
       (if i = 0 then \<lparr>bi_begin = i, block_size = 1, block_type = LeftMost\<rparr>
        else if i \<noteq> wsub32 (length neighbors) 1 then \<lparr>bi_begin = i, block_size = 2, block_type = Middle\<rparr>
        else \<lparr>bi_begin = i, block_size = 1, block_type = RightMost\<rparr>) best"

text \<open>\<^verbatim>\<open>THRESHOLD\<close> is not defined, so the search always runs.\<close>

definition DynamicChooseV3 :: "config \<Rightarrow> u32 list \<Rightarrow> bitset \<Rightarrow> bitset option" where
  "DynamicChooseV3 cfg neighbors e = do {
     let best_block = \<lparr>bi_begin = 0, block_size = 0, block_type = FullHash\<rparr>;
     (_, score) \<leftarrow> FullHashScoreCount cfg neighbors (max_bytes_len cfg * 8) 0;
     (_, best_block, _) \<leftarrow> foldo (chooseV3_step cfg neighbors) [0..<length neighbors]
       (score, best_block, replicate (PER_ENCODE_BIT_SIZE cfg) None);
     ConstructEncode cfg (DeltaSIMDEncodeV3 cfg) best_block neighbors e }"

text \<open>\<^verbatim>\<open>EncodeVertex\<close>. Nothing is returned early for an empty list, and the field of the number of integers first
  receives the number of bytes, which may need more than its five bits.\<close>

definition EncodeVertexV3 :: "config \<Rightarrow> u32 \<Rightarrow> u32 list \<Rightarrow> encoding \<Rightarrow> encoding option" where
  "EncodeVertexV3 cfg vertex_id neighbors st = do {
     e \<leftarrow> aget st (unat vertex_id);
     e \<leftarrow> (if neighbors = [] then SetOne e 0 else Some e);
     encode_byte_len \<leftarrow> GetRequiredBytesV3 neighbors;
     e \<leftarrow> SetEncodeSize e (of_nat encode_byte_len);
     e \<leftarrow> (if encode_byte_len \<le> max_bytes_len cfg then do {
           e \<leftarrow> SetOne e 0;
           e \<leftarrow> SetEncodeSize e (of_nat (length neighbors));
           (mem, _) \<leftarrow> dc_encode_array (DeltaSIMDEncodeV3 cfg) neighbors (bs_data e) 1;
           Some (e\<lparr>bs_data := mem\<rparr>) }
         else DynamicChooseV3 cfg neighbors e);
     aput st (unat vertex_id) e }"

definition V3_NEpairTest :: "(nat \<Rightarrow> u8) \<Rightarrow> config \<Rightarrow> encoding \<Rightarrow> u32 \<Rightarrow> u32 \<Rightarrow> PairType option" where
  "V3_NEpairTest pad cfg = Delta_NEpairTest (DeltaSIMDEncodeV3 cfg) pad cfg"

text \<open>Both branches of \<^verbatim>\<open>GetAllNeighbors\<close> ask the database.\<close>

definition V3_GetAllNeighbors :: "(u32 \<Rightarrow> u32 list) \<Rightarrow> encoding \<Rightarrow> u32 \<Rightarrow> u32 list option" where
  "V3_GetAllNeighbors db st vertex = do {
     e \<leftarrow> aget st (unat vertex);
     b \<leftarrow> IsOne e 0;
     Some (if b then db vertex else db vertex) }"

definition V3_InsertPair :: "(nat \<Rightarrow> u8) \<Rightarrow> config \<Rightarrow> (u32 \<Rightarrow> u32 list) \<Rightarrow> u32 \<Rightarrow> u32 \<Rightarrow> encoding \<Rightarrow> encoding option" where
  "V3_InsertPair pad cfg db vertex1 vertex2 st = do {
     t \<leftarrow> V3_NEpairTest pad cfg st vertex1 vertex2;
     if t = Uncertain then Some st
     else do {
       type1 \<leftarrow> Delta_IsDecodable st vertex1;
       type2 \<leftarrow> Delta_IsDecodable st vertex2;
       let (vertex1, vertex2, type1) = (if \<not> type1 \<and> type2 then (vertex2, vertex1, type2) else (vertex1, vertex2, type1));
       neighbor1 \<leftarrow> V3_GetAllNeighbors db st vertex1;
       if type1 then EncodeVertexV3 cfg vertex1 (neighbor1 @ [vertex2]) st
       else do {
         neighbor2 \<leftarrow> V3_GetAllNeighbors db st vertex2;
         EncodeVertexV3 cfg vertex2 (neighbor2 @ [vertex1]) st } } }"

definition V3_RemoveNeighbor :: "config \<Rightarrow> (u32 \<Rightarrow> u32 list) \<Rightarrow> u32 \<Rightarrow> u32 \<Rightarrow> encoding \<Rightarrow> encoding option" where
  "V3_RemoveNeighbor cfg db vertex1 vertex2 st = do {
     neighbors \<leftarrow> V3_GetAllNeighbors db st vertex1;
     EncodeVertexV3 cfg vertex1 (removeAll vertex2 neighbors) st }"

definition V3_DeletePair :: "(nat \<Rightarrow> u8) \<Rightarrow> config \<Rightarrow> (u32 \<Rightarrow> u32 list) \<Rightarrow> u32 \<Rightarrow> u32 \<Rightarrow> encoding \<Rightarrow> encoding option" where
  "V3_DeletePair pad cfg db vertex1 vertex2 st = do {
     t1 \<leftarrow> Delta_NonNeighborTest (DeltaSIMDEncodeV3 cfg) pad cfg st vertex1 vertex2;
     st \<leftarrow> (if t1 \<noteq> NonNeighbor then V3_RemoveNeighbor cfg db vertex1 vertex2 st else Some st);
     t2 \<leftarrow> Delta_NonNeighborTest (DeltaSIMDEncodeV3 cfg) pad cfg st vertex2 vertex1;
     if t2 = NonNeighbor then V3_RemoveNeighbor cfg db vertex2 vertex1 st else Some st }"

end
