(* ===== verification/Delta_Laws.thy ===== *)
theory Delta_Laws
  imports Delta_Codec
begin

text \<open>
  What the codec writes and reads. \<open>enc_at\<close> says that a region of the memory holds the control bytes
  and the data of a list of values; \<open>EncodeArray_law\<close> shows that encoding establishes it and leaves the
  rest of the memory alone, \<open>DecodeData_group\<close> that decoding a control byte of such a region yields its
  four values, whatever lies behind the end of the memory. The locale \<open>delta_codec\<close> is the contract
  between \<^verbatim>\<open>GenValue\<close> and \<^verbatim>\<open>RecoveryFromDelta\<close> that the first three codecs meet; the search is proved
  correct once for it.
\<close>

section \<open>The bytes of a value\<close>

lemma GetOneEncodeLength_bounds [simp]: "1 \<le> GetOneEncodeLength v" "GetOneEncodeLength v \<le> 4" "0 < GetOneEncodeLength v"
  "Suc 0 \<le> GetOneEncodeLength v"
  by (simp_all add: GetOneEncodeLength_def)

definition bytes_of :: "u32 \<Rightarrow> u8 list" where
  "bytes_of v = map (\<lambda>k. ucast (drop_bit (8 * k) v)) [0..<GetOneEncodeLength v]"

lemma length_bytes_of [simp]: "length (bytes_of v) = GetOneEncodeLength v"
  by (simp add: bytes_of_def)

lemma GetOneEncodeLength_lt: "unat v < 2 ^ (8 * GetOneEncodeLength v) \<or> GetOneEncodeLength v = 4"
  by (auto simp: GetOneEncodeLength_def word_less_nat_alt)

lemma bit_beyond_length:
  assumes "8 * GetOneEncodeLength v \<le> k"
  shows "\<not> bit v k"
proof (cases "GetOneEncodeLength v = 4")
  case True
  then show ?thesis using assms bit_imp_le_length [of v k] by auto
next
  case False
  define n where "n = 8 * GetOneEncodeLength v"
  have "n < 32" using False GetOneEncodeLength_bounds(2) [of v] unfolding n_def by linarith
  then have "unat v < 2 ^ n"
    using GetOneEncodeLength_lt [of v] False by (simp add: n_def)
  then show ?thesis using assms bit_u32_lt_two_power [of v n k] by (auto simp: n_def)
qed

lemma bit_le_word: "bit (le_word bs) k \<longleftrightarrow> k < 32 \<and> k div 8 < length bs \<and> bit (bs ! (k div 8)) (k mod 8)"
proof (induction bs arbitrary: k)
  case (Cons b bs)
  show ?case
  proof (cases "k < 8")
    case True
    then show ?thesis by (simp add: le_word_def bit_or_iff bit_push_bit_iff bit_ucast_iff)
  next
    case False
    have b: "\<not> bit (ucast b :: u32) k" using False bit_imp_le_length [of b k] by (auto simp: bit_ucast_iff)
    have "le_word (b # bs) = push_bit 8 (le_word bs) OR ucast b" by (simp add: le_word_def)
    then have "bit (le_word (b # bs)) k \<longleftrightarrow> k < 32 \<and> bit (le_word bs) (k - 8)"
      using False b by (simp add: bit_or_iff bit_push_bit_iff)
    also have "\<dots> \<longleftrightarrow> k < 32 \<and> (k - 8) div 8 < length bs \<and> bit (bs ! ((k - 8) div 8)) ((k - 8) mod 8)"
      using Cons.IH [of "k - 8"] by auto
    also have "(k - 8) mod 8 = k mod 8" using False by (simp add: le_mod_geq)
    also have "(k - 8) div 8 < length bs \<longleftrightarrow> k div 8 < length (b # bs)" using False by (simp add: le_div_geq)
    also have "bs ! ((k - 8) div 8) = (b # bs) ! (k div 8)" using False by (simp add: le_div_geq)
    finally show ?thesis .
  qed
qed (simp add: le_word_def)

lemma le_word_bytes_of:
  assumes "length bs = 4" "\<And>j. j < 4 \<Longrightarrow> bs ! j = (if j < GetOneEncodeLength v then bytes_of v ! j else 0)"
  shows "le_word bs = v"
proof (rule bit_word_eqI)
  fix k :: nat assume k: "k < LENGTH(32)"
  then have d: "k div 8 < 4" by simp
  show "bit (le_word bs) k = bit v k"
  proof (cases "k div 8 < GetOneEncodeLength v")
    case True
    then have "bs ! (k div 8) = ucast (drop_bit (8 * (k div 8)) v)" using assms(2) [OF d] by (simp add: bytes_of_def)
    then show ?thesis using k d assms(1) by (simp add: bit_le_word bit_ucast_iff bit_drop_bit_eq)
  next
    case False
    then have "8 * GetOneEncodeLength v \<le> k" by (simp add: not_less less_eq_div_iff_mult_less_eq mult.commute)
    then show ?thesis using bit_beyond_length [of v k] False assms(2) [OF d] by (simp add: bit_le_word)
  qed
qed

section \<open>Writing\<close>

definition put_bytes :: "'a list \<Rightarrow> nat \<Rightarrow> 'a list \<Rightarrow> 'a list" where
  "put_bytes mem p bs = map (\<lambda>i. if p \<le> i \<and> i < p + length bs then bs ! (i - p) else mem ! i) [0..<length mem]"

lemma length_put_bytes [simp]: "length (put_bytes mem p bs) = length mem"
  by (simp add: put_bytes_def)

lemma nth_put_bytes: "i < length mem \<Longrightarrow> put_bytes mem p bs ! i = (if p \<le> i \<and> i < p + length bs then bs ! (i - p) else mem ! i)"
  by (simp add: put_bytes_def)

lemma ucast_and_FF: "(ucast (v AND 0xFF :: u32) :: u8) = ucast v"
proof (rule bit_word_eqI)
  fix k :: nat assume "k < LENGTH(8)"
  then have "bit (0xFF :: u32) k" by (auto simp: eval_nat_numeral less_Suc_eq bit_numeral_rec)
  then show "bit (ucast (v AND 0xFF :: u32) :: u8) k = bit (ucast v :: u8) k" by (simp add: bit_ucast_iff bit_and_iff)
qed

lemma EncodeDelta_eq:
  assumes "p + GetOneEncodeLength v \<le> length mem"
  shows "EncodeDelta v mem p = Some (put_bytes mem p (bytes_of v), p + GetOneEncodeLength v, GetOneEncodeLength v - 1)"
proof -
  have w1: "mem[p := a] = put_bytes mem p [a]" if "p + 1 \<le> length mem" for a :: u8
    by (rule nth_equalityI) (use that in \<open>auto simp: nth_put_bytes nth_list_update\<close>)
  have w2: "mem[p := a, Suc p := b] = put_bytes mem p [a, b]" if "p + 2 \<le> length mem" for a b :: u8
    by (rule nth_equalityI) (use that in \<open>auto simp: nth_put_bytes nth_list_update nth_Cons' not_less\<close>)
  have w3: "mem[p := a, Suc p := b, Suc (Suc p) := c] = put_bytes mem p [a, b, c]" if "p + 3 \<le> length mem" for a b c :: u8
    by (rule nth_equalityI) (use that in \<open>auto simp: nth_put_bytes nth_list_update nth_Cons' not_less\<close>)
  have w4: "mem[p := a, Suc p := b, Suc (Suc p) := c, p + 3 := d] = put_bytes mem p [a, b, c, d]" if "p + 4 \<le> length mem" for a b c d :: u8
    by (rule nth_equalityI) (use that in \<open>auto simp: nth_put_bytes nth_list_update nth_Cons' not_less\<close>)
  consider "v < 2 ^ 8" | "\<not> v < 2 ^ 8" "v < 2 ^ 16" | "\<not> v < 2 ^ 8" "\<not> v < 2 ^ 16" "v < 2 ^ 24" | "\<not> v < 2 ^ 8" "\<not> v < 2 ^ 16" "\<not> v < 2 ^ 24"
    by blast
  then show ?thesis
  proof cases
    case 1
    then have "GetOneEncodeLength v = 1" by (simp add: GetOneEncodeLength_def)
    with 1 assms show ?thesis by (simp add: EncodeDelta_def bytes_of_def w1)
  next
    case 2
    then have l: "GetOneEncodeLength v = 2" by (simp add: GetOneEncodeLength_def)
    with 2 assms show ?thesis by (simp add: EncodeDelta_def bytes_of_def w2 ucast_and_FF upt_rec)
  next
    case 3
    then have l: "GetOneEncodeLength v = 3" by (simp add: GetOneEncodeLength_def)
    with 3 assms show ?thesis by (simp add: EncodeDelta_def bytes_of_def w3 ucast_and_FF upt_rec)
  next
    case 4
    then have l: "GetOneEncodeLength v = 4" by (simp add: GetOneEncodeLength_def)
    with 4 assms show ?thesis by (simp add: EncodeDelta_def bytes_of_def w4 upt_rec)
  qed
qed

section \<open>Control bytes\<close>

definition code_of :: "u32 \<Rightarrow> nat" where
  "code_of v = GetOneEncodeLength v - 1"

lemma code_of_lt [simp]: "code_of v < 4"
  using GetOneEncodeLength_bounds(2) [of v] unfolding code_of_def by linarith

fun key_from :: "nat \<Rightarrow> u32 list \<Rightarrow> u8 \<Rightarrow> u8" where
  "key_from i [] k = k"
| "key_from i (w # ws) k = key_from (Suc i) ws (k OR of_nat (code_of w * 2 ^ (2 * i)))"

definition key_of :: "u32 list \<Rightarrow> u8" where
  "key_of ws = key_from 0 ws 0"

lemma key_from_append: "key_from i (ws @ [w]) k = key_from i ws k OR of_nat (code_of w * 2 ^ (2 * (i + length ws)))"
  by (induction ws arbitrary: i k) simp_all

lemma key_of_append: "key_of (ws @ [w]) = key_of ws OR of_nat (code_of w * 2 ^ (2 * length ws))"
  by (simp add: key_of_def key_from_append)

text \<open>The length of the \<open>i\<close>-th value of a group, 1 where the group has none.\<close>

definition glen :: "u32 list \<Rightarrow> nat \<Rightarrow> nat" where
  "glen ws i = (if i < length ws then GetOneEncodeLength (ws ! i) else 1)"

lemma glen_bounds [simp]: "1 \<le> glen ws i" "Suc 0 \<le> glen ws i" "glen ws i \<le> 4"
  by (simp_all add: glen_def)

lemma control_byte:
  assumes "a < 4" "b < 4" "c < 4" "d < 4"
  shows "unat (of_nat a OR of_nat (b * 4) OR of_nat (c * 16) OR of_nat (d * 64) :: u8) = a + 4 * b + 16 * c + 64 * d"
proof -
  have "x = 0 \<or> x = 1 \<or> x = 2 \<or> x = 3" if "x < 4" for x :: nat using that by linarith
  from this [OF assms(1)] this [OF assms(2)] this [OF assms(3)] this [OF assms(4)] show ?thesis
    by (elim disjE) simp_all
qed

lemma key_of_ctl:
  assumes "length ws \<le> 4"
  shows "unat (key_of ws) = ctl (glen ws 0) (glen ws 1) (glen ws 2) (glen ws 3)"
proof -
  have k: "unat (key_of ws) = (if 0 < length ws then code_of (ws ! 0) else 0) + 4 * (if 1 < length ws then code_of (ws ! 1) else 0)
      + 16 * (if 2 < length ws then code_of (ws ! 2) else 0) + 64 * (if 3 < length ws then code_of (ws ! 3) else 0)"
  proof -
    consider "ws = []" | a where "ws = [a]" | a b where "ws = [a, b]" | a b c where "ws = [a, b, c]" | a b c d where "ws = [a, b, c, d]"
      using assms by (auto simp: le_Suc_eq length_Suc_conv numeral_eq_Suc)
    then show ?thesis
    proof cases
      case (2 a)
      then show ?thesis using control_byte [of "code_of a" 0 0 0] by (simp add: key_of_def)
    next
      case (3 a b)
      then show ?thesis using control_byte [of "code_of a" "code_of b" 0 0] by (simp add: key_of_def)
    next
      case (4 a b c)
      then show ?thesis using control_byte [of "code_of a" "code_of b" "code_of c" 0] by (simp add: key_of_def or.assoc)
    next
      case (5 a b c d)
      then show ?thesis using control_byte [of "code_of a" "code_of b" "code_of c" "code_of d"] by (simp add: key_of_def or.assoc)
    qed (simp add: key_of_def)
  qed
  have "(if i < length ws then code_of (ws ! i) else 0) = glen ws i - 1" for i by (simp add: glen_def code_of_def)
  then show ?thesis unfolding k ctl_def by (simp only:)
qed

lemma unat_u8_lt: "unat (x :: u8) < 256"
  using unsigned_less [of x] by simp

lemma by_lengths_key:
  "length ws \<le> 4 \<Longrightarrow> aget (by_lengths f) (unat (key_of ws)) = Some (f (glen ws 0) (glen ws 1) (glen ws 2) (glen ws 3))"
  using unat_u8_lt [of "key_of ws"] nth_by_lengths [of "glen ws 0" "glen ws 1" "glen ws 2" "glen ws 3" f] key_of_ctl [of ws]
  by (simp add: aget_def)

lemmas lengthTable_key = by_lengths_key [of _ "\<lambda>l0 l1 l2 l3. l0 + l1 + l2 + l3", folded lengthTable_eq]
lemmas shuffleTable_key = by_lengths_key [of _ shuffle_row, folded shuffleTable_eq]

section \<open>Encoding\<close>

fun gen_values :: "gen \<Rightarrow> u32 \<Rightarrow> nat \<Rightarrow> u32 list \<Rightarrow> u32 list" where
  "gen_values gen pre c [] = []"
| "gen_values gen pre c (x # xs) = (let (v, p) = gen pre x c in v # gen_values gen p (Suc c) xs)"

fun gen_pre :: "gen \<Rightarrow> u32 \<Rightarrow> nat \<Rightarrow> u32 list \<Rightarrow> u32" where
  "gen_pre gen pre c [] = pre"
| "gen_pre gen pre c (x # xs) = gen_pre gen (snd (gen pre x c)) (Suc c) xs"

lemma length_gen_values [simp]: "length (gen_values gen pre c xs) = length xs"
  by (induction xs arbitrary: pre c) (simp_all add: split_beta)

lemma gen_values_append:
  "gen_values gen pre c (xs @ [x]) = gen_values gen pre c xs @ [fst (gen (gen_pre gen pre c xs) x (c + length xs))]"
  by (induction xs arbitrary: pre c) (simp_all add: split_beta)

lemma gen_pre_append: "gen_pre gen pre c (xs @ [x]) = snd (gen (gen_pre gen pre c xs) x (c + length xs))"
  by (induction xs arbitrary: pre c) simp_all

lemma take_gen_values: "take k (gen_values gen pre c xs) = gen_values gen pre c (take k xs)"
proof (induction xs arbitrary: k pre c)
  case (Cons x xs)
  then show ?case by (cases k) (simp_all add: split_beta)
qed simp

definition data_off :: "u32 list \<Rightarrow> nat \<Rightarrow> nat" where
  "data_off vs k = sum_list (map GetOneEncodeLength (take k vs))"

lemma data_off_Suc: "k < length vs \<Longrightarrow> data_off vs (Suc k) = data_off vs k + GetOneEncodeLength (vs ! k)"
  by (simp add: data_off_def take_Suc_conv_app_nth)

lemma data_off_0 [simp]: "data_off vs 0 = 0"
  by (simp add: data_off_def)

lemma data_off_mono: "j \<le> k \<Longrightarrow> data_off vs j \<le> data_off vs k"
proof -
  assume "j \<le> k"
  then have "take k vs = take j vs @ drop j (take k vs)" by (metis append_take_drop_id min.absorb1 take_take)
  then show ?thesis by (metis data_off_def le_add1 map_append sum_list_append)
qed

text \<open>The control byte of group \<open>g\<close>.\<close>

definition quad :: "'a list \<Rightarrow> nat \<Rightarrow> 'a list" where
  "quad xs g = take 4 (drop (4 * g) xs)"

definition enc_data :: "u8 list \<Rightarrow> nat \<Rightarrow> u32 list \<Rightarrow> nat \<Rightarrow> bool" where
  "enc_data mem dp vs n \<longleftrightarrow> (\<forall>k < n. \<forall>j < GetOneEncodeLength (vs ! k). mem ! (dp + data_off vs k + j) = bytes_of (vs ! k) ! j)"

definition enc_keys :: "u8 list \<Rightarrow> nat \<Rightarrow> u32 list \<Rightarrow> nat \<Rightarrow> bool" where
  "enc_keys mem kp vs n \<longleftrightarrow> (\<forall>g < n. mem ! (kp + g) = key_of (quad vs g))"

definition enc_at :: "u8 list \<Rightarrow> nat \<Rightarrow> nat \<Rightarrow> u32 list \<Rightarrow> bool" where
  "enc_at mem kp dp vs \<longleftrightarrow> kp + (length vs + 3) div 4 \<le> length mem \<and> dp + data_off vs (length vs) \<le> length mem \<and>
     enc_keys mem kp vs ((length vs + 3) div 4) \<and> enc_data mem dp vs (length vs)"

text \<open>The invariant of the loop after \<open>c\<close> values. A control byte is written when the next group begins.\<close>

definition enc_state :: "gen \<Rightarrow> u32 list \<Rightarrow> u8 list \<Rightarrow> nat \<Rightarrow> nat \<Rightarrow> nat \<Rightarrow> nat \<Rightarrow> enc_loop \<Rightarrow> bool" where
  "enc_state gen xs mem0 kp dp w c s \<longleftrightarrow>
     (let vs = gen_values gen 0 0 xs in
      length (el_mem s) = length mem0 \<and> el_prev s = gen_pre gen 0 0 (take c xs) \<and>
      dataPtr s = dp + data_off vs c \<and> el_len s = data_off vs c \<and> keyPtr s = kp + w \<and>
      el_shift s = 2 * (c - 4 * w) \<and> el_key s = key_of (drop (4 * w) (take c vs)) \<and>
      enc_keys (el_mem s) kp vs w \<and> enc_data (el_mem s) dp vs c \<and>
      (\<forall>i < length mem0. i < kp \<or> (kp + (length xs + 3) div 4 \<le> i \<and> i < dp) \<or> dp + data_off vs c \<le> i \<longrightarrow> el_mem s ! i = mem0 ! i))"

lemma enc_data_put:
  assumes "enc_data mem dp vs k" "k < length vs" "dp + data_off vs (Suc k) \<le> length mem"
  shows "enc_data (put_bytes mem (dp + data_off vs k) (bytes_of (vs ! k))) dp vs (Suc k)"
  unfolding enc_data_def
proof (intro allI impI)
  fix i j assume i: "i < Suc k" and j: "j < GetOneEncodeLength (vs ! i)"
  have "data_off vs (Suc i) \<le> data_off vs (Suc k)" using i by (intro data_off_mono) simp
  then have lt: "dp + data_off vs i + j < length mem" using assms(2,3) i j data_off_Suc [of i vs] by simp
  show "put_bytes mem (dp + data_off vs k) (bytes_of (vs ! k)) ! (dp + data_off vs i + j) = bytes_of (vs ! i) ! j"
  proof (cases "i = k")
    case True
    then show ?thesis using lt j by (simp add: nth_put_bytes)
  next
    case False
    then have "i < k" using i by simp
    then have "data_off vs (Suc i) \<le> data_off vs k" by (intro data_off_mono) simp
    then have "dp + data_off vs i + j < dp + data_off vs k" using \<open>i < k\<close> assms(2) j data_off_Suc [of i vs] by simp
    then show ?thesis using lt \<open>i < k\<close> assms(1) j by (auto simp: nth_put_bytes enc_data_def)
  qed
qed

lemma enc_keys_put:
  assumes "enc_keys mem kp vs w" "kp + w \<le> p" "p + length bs \<le> length mem"
  shows "enc_keys (put_bytes mem p bs) kp vs w"
  using assms by (auto simp: enc_keys_def nth_put_bytes)

lemma enc_data_upd:
  assumes "enc_data mem dp vs n" "i < dp"
  shows "enc_data (mem[i := b]) dp vs n"
  using assms by (auto simp: enc_data_def)

lemma enc_keys_upd:
  assumes "enc_keys mem kp vs w" "kp + w < length mem"
  shows "enc_keys (mem[kp + w := key_of (quad vs w)]) kp vs (Suc w)"
  using assms by (auto simp: enc_keys_def nth_list_update less_Suc_eq)

lemma enc_flush:
  assumes "enc_state gen xs mem0 kp dp ((c - 1) div 4) c s" "c < length xs" "kp + (length xs + 3) div 4 \<le> dp" "dp \<le> length mem0"
  shows "\<exists>s1. (if el_shift s = 8 then do {
             mem \<leftarrow> aput (el_mem s) (keyPtr s) (el_key s);
             Some (s\<lparr>el_mem := mem, keyPtr := keyPtr s + 1, el_shift := 0, el_key := 0\<rparr>) }
           else Some s) = Some s1 \<and> enc_state gen xs mem0 kp dp (c div 4) c s1"
proof -
  define w where "w = (c - 1) div 4"
  define vs where "vs = gen_values gen 0 0 xs"
  have st: "enc_state gen xs mem0 kp dp w c s" using assms(1) by (simp add: w_def)
  have w: "4 * w \<le> c" "c \<le> 4 * w + 4" unfolding w_def by linarith+
  have shift: "el_shift s = 2 * (c - 4 * w)" using st by (simp add: enc_state_def Let_def)
  show ?thesis
  proof (cases "c = 4 * w + 4")
    case True
    then have c4: "c div 4 = Suc w" by simp
    have n4: "w < (length xs + 3) div 4" using True assms(2) by linarith
    let ?s = "s\<lparr>el_mem := (el_mem s)[kp + w := key_of (quad vs w)], keyPtr := keyPtr s + 1, el_shift := 0, el_key := 0\<rparr>"
    have grp: "el_key s = key_of (quad vs w)" using st True by (simp add: enc_state_def Let_def vs_def quad_def take_drop add.commute)
    have lt: "kp + w < length (el_mem s)" using st n4 assms(3,4) by (simp add: enc_state_def Let_def)
    have "enc_state gen xs mem0 kp dp (Suc w) c ?s"
      using st True n4 assms(3) lt enc_keys_upd [of "el_mem s" kp vs w] enc_data_upd [of "el_mem s" dp vs c "kp + w"]
      by (auto simp: enc_state_def Let_def vs_def key_of_def)
    moreover have "keyPtr s = kp + w" using st by (simp add: enc_state_def Let_def)
    ultimately show ?thesis using True shift lt grp c4 by simp
  next
    case False
    then have "c div 4 = w" using w by (intro div_nat_eqI) simp_all
    with False shift st w show ?thesis by auto
  qed
qed

lemma enc_step:
  assumes "enc_state gen xs mem0 kp dp ((c - 1) div 4) c s" "c < length xs" "kp + (length xs + 3) div 4 \<le> dp"
    "dp + data_off (gen_values gen 0 0 xs) (length xs) \<le> length mem0" "inp c = Some (xs ! c)"
  shows "\<exists>s'. EncodeDeltas_step gen inp c s = Some s' \<and> enc_state gen xs mem0 kp dp ((Suc c - 1) div 4) (Suc c) s'"
proof -
  define vs where "vs = gen_values gen 0 0 xs"
  define w where "w = c div 4"
  from enc_flush [OF assms(1-3)] assms(4) obtain s1 where
    s1: "(if el_shift s = 8 then do {
             mem \<leftarrow> aput (el_mem s) (keyPtr s) (el_key s);
             Some (s\<lparr>el_mem := mem, keyPtr := keyPtr s + 1, el_shift := 0, el_key := 0\<rparr>) }
           else Some s) = Some s1" "enc_state gen xs mem0 kp dp w c s1" by (auto simp: w_def)
  obtain val pre where g: "gen (el_prev s1) (xs ! c) c = (val, pre)" by (cases "gen (el_prev s1) (xs ! c) c")
  have prev: "el_prev s1 = gen_pre gen 0 0 (take c xs)" using s1(2) by (simp add: enc_state_def Let_def)
  have tk: "take (Suc c) xs = take c xs @ [xs ! c]" using assms(2) by (rule take_Suc_conv_app_nth)
  have "take (Suc c) vs = take c vs @ [val]"
    unfolding vs_def take_gen_values tk gen_values_append using g prev assms(2) by simp
  then have val: "vs ! c = val" "take (Suc c) vs = take c vs @ [val]"
    using assms(2) by (auto simp: take_Suc_conv_app_nth vs_def)
  have pre: "pre = gen_pre gen 0 0 (take (Suc c) xs)" unfolding tk gen_pre_append using g prev assms(2) by simp
  have c: "c < length vs" using assms(2) by (simp add: vs_def)
  have le: "data_off vs (Suc c) \<le> data_off vs (length xs)" using assms(2) by (intro data_off_mono) simp
  have off: "data_off vs (Suc c) = data_off vs c + GetOneEncodeLength val" using data_off_Suc [OF c] val(1) by simp
  have room: "dataPtr s1 + GetOneEncodeLength val \<le> length (el_mem s1)"
    using s1(2) assms(4) le off by (simp add: enc_state_def Let_def vs_def)
  note ed = EncodeDelta_eq [OF room]
  have r: "c - 4 * w < 4" "4 * w \<le> c" unfolding w_def by linarith+
  let ?s = "s1\<lparr>el_mem := put_bytes (el_mem s1) (dataPtr s1) (bytes_of val), dataPtr := dataPtr s1 + GetOneEncodeLength val,
    el_prev := pre, el_len := el_len s1 + (GetOneEncodeLength val - 1) + 1,
    el_key := el_key s1 OR of_nat ((GetOneEncodeLength val - 1) * 2 ^ el_shift s1), el_shift := (el_shift s1 + 2) mod 256\<rparr>"
  have step: "EncodeDeltas_step gen inp c s = Some ?s"
    unfolding EncodeDeltas_step_def s1(1) using assms(5) g ed by simp
  have "el_shift s1 = 2 * (c - 4 * w)" using s1(2) by (simp add: enc_state_def Let_def)
  moreover have "drop (4 * w) (take (Suc c) vs) = drop (4 * w) (take c vs) @ [val]" using val(2) r c by simp
  moreover have "length (drop (4 * w) (take c vs)) = c - 4 * w" using c r by simp
  ultimately have key: "el_key s1 OR of_nat ((GetOneEncodeLength val - 1) * 2 ^ el_shift s1) = key_of (drop (4 * w) (take (Suc c) vs))"
    using s1(2) by (simp add: key_of_append code_of_def enc_state_def Let_def vs_def)
  have dp: "dataPtr s1 = dp + data_off vs c" using s1(2) by (simp add: enc_state_def Let_def vs_def)
  have data: "enc_data (put_bytes (el_mem s1) (dataPtr s1) (bytes_of val)) dp vs (Suc c)"
    unfolding dp val(1) [symmetric] using s1(2) c le assms(4) by (intro enc_data_put) (simp_all add: enc_state_def Let_def vs_def)
  have wle: "kp + w \<le> dp" using assms(2,3) r by linarith
  have keys: "enc_keys (put_bytes (el_mem s1) (dataPtr s1) (bytes_of val)) kp vs w"
    using s1(2) wle room dp by (intro enc_keys_put) (simp_all add: enc_state_def Let_def vs_def)
  have rest: "\<forall>i < length mem0. i < kp \<or> (kp + (length xs + 3) div 4 \<le> i \<and> i < dp) \<or> dp + data_off vs (Suc c) \<le> i \<longrightarrow>
      put_bytes (el_mem s1) (dataPtr s1) (bytes_of val) ! i = mem0 ! i"
    using s1(2) off dp assms(3) by (auto simp: nth_put_bytes enc_state_def Let_def vs_def)
  have "enc_state gen xs mem0 kp dp w (Suc c) ?s"
    using s1(2) key data keys rest pre off r dp by (simp add: enc_state_def Let_def vs_def Suc_diff_le)
  with step show ?thesis by (auto simp: w_def)
qed

lemma enc_loop_state:
  assumes "kp + (length xs + 3) div 4 \<le> dp" "dp + data_off (gen_values gen 0 0 xs) (length xs) \<le> length mem0"
    "\<And>c. c < length xs \<Longrightarrow> inp c = Some (xs ! c)" "c \<le> length xs"
  shows "\<exists>s. foldo (EncodeDeltas_step gen inp) [0..<c]
      \<lparr>el_mem = mem0, keyPtr = kp, dataPtr = dp, el_prev = 0, el_len = 0, el_shift = 0, el_key = 0\<rparr> = Some s \<and>
    enc_state gen xs mem0 kp dp ((c - 1) div 4) c s"
  using assms(4)
proof (induction c)
  case 0
  then show ?case by (simp add: enc_state_def enc_keys_def enc_data_def key_of_def)
next
  case (Suc c)
  then obtain s where s: "foldo (EncodeDeltas_step gen inp) [0..<c]
      \<lparr>el_mem = mem0, keyPtr = kp, dataPtr = dp, el_prev = 0, el_len = 0, el_shift = 0, el_key = 0\<rparr> = Some s"
    "enc_state gen xs mem0 kp dp ((c - 1) div 4) c s" by auto
  have c: "c < length xs" using Suc.prems by simp
  from enc_step [where inp = inp, OF s(2) c assms(1,2) assms(3) [OF c]] s(1) show ?case unfolding foldo_upt_Suc by auto
qed

lemma EncodeDeltas_loop_law:
  fixes gen :: gen and xs :: "u32 list"
  defines "vs \<equiv> gen_values gen 0 0 xs"
  assumes "xs \<noteq> []" "kp + (length xs + 3) div 4 \<le> dp" "dp + data_off vs (length xs) \<le> length mem0"
    "\<And>c. c < length xs \<Longrightarrow> inp c = Some (xs ! c)"
  shows "\<exists>mem. EncodeDeltas_loop gen inp mem0 kp dp (length xs) = Some (mem, data_off vs (length xs) mod 256) \<and>
    length mem = length mem0 \<and> enc_at mem kp dp vs \<and>
    (\<forall>i < length mem0. i < kp \<or> (kp + (length xs + 3) div 4 \<le> i \<and> i < dp) \<or> dp + data_off vs (length xs) \<le> i \<longrightarrow> mem ! i = mem0 ! i)"
proof -
  define w where "w = (length xs - 1) div 4"
  obtain s where s: "foldo (EncodeDeltas_step gen inp) [0..<length xs]
      \<lparr>el_mem = mem0, keyPtr = kp, dataPtr = dp, el_prev = 0, el_len = 0, el_shift = 0, el_key = 0\<rparr> = Some s"
    "enc_state gen xs mem0 kp dp w (length xs) s"
    using enc_loop_state [OF assms(3) _ assms(5), of gen mem0 "length xs"] assms(4) by (auto simp: w_def vs_def)
  have w: "Suc w = (length xs + 3) div 4" using assms(2) unfolding w_def by (cases xs) auto
  have lt: "kp + w < length (el_mem s)" using s(2) w assms(3,4) by (simp add: enc_state_def Let_def)
  have "length vs \<le> 4 * w + 4" using w by (simp add: vs_def)
  then have grp: "el_key s = key_of (quad vs w)" using s(2) by (simp add: enc_state_def Let_def vs_def quad_def)
  let ?mem = "(el_mem s)[kp + w := key_of (quad vs w)]"
  have kp: "keyPtr s = kp + w" using s(2) by (simp add: enc_state_def Let_def)
  have run: "EncodeDeltas_loop gen inp mem0 kp dp (length xs) = Some (?mem, data_off vs (length xs) mod 256)"
    using s lt grp kp by (simp add: EncodeDeltas_loop_def enc_state_def Let_def vs_def)
  have keys: "enc_keys ?mem kp vs (Suc w)"
    using s(2) lt by (intro enc_keys_upd) (simp_all add: enc_state_def Let_def vs_def)
  have data: "enc_data ?mem dp vs (length xs)"
    using s(2) w assms(3) by (intro enc_data_upd) (simp_all add: enc_state_def Let_def vs_def)
  have at: "enc_at ?mem kp dp vs"
    using keys data w assms(3,4) s(2) by (simp add: enc_at_def enc_state_def Let_def vs_def)
  have "\<forall>i < length mem0. i < kp \<or> (kp + (length xs + 3) div 4 \<le> i \<and> i < dp) \<or> dp + data_off vs (length xs) \<le> i \<longrightarrow> ?mem ! i = mem0 ! i"
    using s(2) w assms(3) by (auto simp: enc_state_def Let_def vs_def nth_list_update)
  with run at s(2) show ?thesis by (auto simp: enc_state_def Let_def)
qed

text \<open>\<^verbatim>\<open>EncodeArray\<close>: the region is written, the rest is not, and the length is exact below 256 data bytes.\<close>

lemma EncodeArray_law:
  fixes gen :: gen and xs :: "u32 list"
  defines "vs \<equiv> gen_values gen 0 0 xs" and "kl \<equiv> (length xs + 3) div 4"
  assumes "xs \<noteq> []" "out + kl + data_off vs (length xs) \<le> length mem0" "data_off vs (length xs) < 256"
  shows "\<exists>mem. EncodeArray (EncodeDeltas gen) xs mem0 out = Some (mem, kl + data_off vs (length xs)) \<and>
    length mem = length mem0 \<and> enc_at mem out (out + kl) vs \<and>
    (\<forall>i < length mem0. i < out \<or> out + kl + data_off vs (length xs) \<le> i \<longrightarrow> mem ! i = mem0 ! i)"
proof -
  from EncodeDeltas_loop_law [of xs out "out + kl" gen mem0 "aget xs"] assms(3-5) obtain mem where
    "EncodeDeltas_loop gen (aget xs) mem0 out (out + kl) (length xs) = Some (mem, data_off vs (length xs))"
    "length mem = length mem0" "enc_at mem out (out + kl) vs"
    "\<forall>i < length mem0. i < out \<or> (out + kl \<le> i \<and> i < out + kl) \<or> out + kl + data_off vs (length xs) \<le> i \<longrightarrow> mem ! i = mem0 ! i"
    by (auto simp: vs_def kl_def)
  with assms(3) show ?thesis by (auto simp: EncodeArray_def EncodeDeltas_def kl_def Let_def)
qed

section \<open>Decoding a group\<close>

lemma shuffle_spread:
  assumes "1 \<le> l" "l \<le> 4" "n + l \<le> 16" "length bytes = 16"
  shows "shuffle_epi8 bytes (spread (int n) l) = map (\<lambda>j. if j < l then bytes ! (n + j) else 0) [0..<4]"
proof -
  from assms(1,2) consider "l = 1" | "l = 2" | "l = 3" | "l = 4" by linarith
  then show ?thesis
    by cases (use assms(3) in \<open>simp_all add: shuffle_epi8_def spread_def upt_rec nat_add_distrib numeral_3_eq_3\<close>)
qed

lemma shuffle_append: "shuffle_epi8 bytes (a @ b) = shuffle_epi8 bytes a @ shuffle_epi8 bytes b"
  by (simp add: shuffle_epi8_def)

text \<open>Where the \<open>i\<close>-th value of a group starts.\<close>

definition gstart :: "u32 list \<Rightarrow> nat \<Rightarrow> nat" where
  "gstart ws i = sum_list (map (glen ws) [0..<i])"

lemma gstart_simps [simp]:
  "gstart ws 0 = 0" "gstart ws (Suc 0) = glen ws 0" "gstart ws 2 = glen ws 0 + glen ws 1" "gstart ws 3 = glen ws 0 + glen ws 1 + glen ws 2"
  by (simp_all add: gstart_def upt_rec numeral_2_eq_2 numeral_3_eq_3)

lemma gstart_le: "gstart ws i \<le> 4 * i"
proof (induction i)
  case (Suc i)
  have "gstart ws (Suc i) = gstart ws i + glen ws i" by (simp add: gstart_def)
  moreover have "gstart ws i + glen ws i \<le> 4 * i + 4" using Suc glen_bounds(3) by (rule add_mono)
  ultimately show ?case by simp
qed simp

lemma lanes_shuffle:
  assumes "length bytes = 16" "i < 4"
  shows "lanes (shuffle_epi8 bytes (shuffle_row (glen ws 0) (glen ws 1) (glen ws 2) (glen ws 3))) ! i =
    le_word (map (\<lambda>j. if j < glen ws i then bytes ! (gstart ws i + j) else 0) [0..<4])"
proof -
  define L where "L i = map (\<lambda>j. if j < glen ws i then bytes ! (gstart ws i + j) else 0) [0..<4]" for i
  have le: "glen ws i \<le> 4" for i by simp
  have sh: "shuffle_epi8 bytes (shuffle_row (glen ws 0) (glen ws 1) (glen ws 2) (glen ws 3)) = L 0 @ L 1 @ L 2 @ L 3"
  proof -
    have l: "1 \<le> glen ws i" for i by simp
    have "shuffle_epi8 bytes (spread (int 0) (glen ws 0)) = L 0"
      unfolding L_def gstart_simps using l [of 0] le [of 0] assms(1) by (intro shuffle_spread) linarith+
    then have "shuffle_epi8 bytes (spread 0 (glen ws 0)) = L 0" by simp
    moreover have "shuffle_epi8 bytes (spread (int (glen ws 0)) (glen ws 1)) = L 1"
      unfolding L_def One_nat_def gstart_simps using le [of 0] l [of "Suc 0"] le [of "Suc 0"] assms(1) by (intro shuffle_spread) linarith+
    moreover have "shuffle_epi8 bytes (spread (int (glen ws 0 + glen ws 1)) (glen ws 2)) = L 2"
      unfolding L_def gstart_simps using le [of 0] le [of 1] l [of 2] le [of 2] assms(1) by (intro shuffle_spread) linarith+
    moreover have "shuffle_epi8 bytes (spread (int (glen ws 0 + glen ws 1 + glen ws 2)) (glen ws 3)) = L 3"
      unfolding L_def gstart_simps using le [of 0] le [of 1] le [of 2] l [of 3] le [of 3] assms(1) by (intro shuffle_spread) linarith+
    ultimately show ?thesis unfolding shuffle_row_def shuffle_append by (simp only:)
  qed
  have len: "length (L i) = 4" for i by (simp add: L_def)
  from assms(2) consider "i = 0" | "i = 1" | "i = 2" | "i = 3" by linarith
  then have "lanes (L 0 @ L 1 @ L 2 @ L 3) ! i = le_word (L i)"
    by cases (simp_all add: lanes_def len)
  then show ?thesis unfolding sh by (simp add: L_def)
qed

lemma length_lanes [simp]: "length (lanes bytes) = 4"
  by (simp add: lanes_def)

text \<open>Decoding group \<open>g\<close> of an encoded region: the lanes that the group has are its values, and the pointer
  moves to the next group.\<close>

lemma quad_nth: "i < length (quad vs g) \<Longrightarrow> quad vs g ! i = vs ! (4 * g + i)"
  by (auto simp: quad_def)

lemma length_quad: "length (quad vs g) = min 4 (length vs - 4 * g)"
  by (simp add: quad_def)

lemma data_off_group:
  assumes "i \<le> length (quad vs g)"
  shows "data_off vs (4 * g + i) = data_off vs (4 * g) + gstart (quad vs g) i"
  using assms
proof (induction i)
  case (Suc i)
  then have lt: "4 * g + i < length vs" by (auto simp: length_quad)
  have "gstart (quad vs g) (Suc i) = gstart (quad vs g) i + GetOneEncodeLength (vs ! (4 * g + i))"
    using Suc.prems by (simp add: gstart_def glen_def quad_nth)
  with Suc data_off_Suc [OF lt] show ?case by simp
qed (simp add: gstart_def)

lemma DecodeData_group:
  assumes "enc_at mem kp dp vs" "4 * g < length vs"
  shows "\<exists>d. DecodeData pad mem (key_of (quad vs g)) (dp + data_off vs (4 * g)) = Some (d, dp + data_off vs (4 * g) + gstart (quad vs g) 4) \<and>
    length d = 4 \<and> (\<forall>i < length (quad vs g). d ! i = vs ! (4 * g + i))"
proof -
  define ws p where "ws = quad vs g" and "p = dp + data_off vs (4 * g)"
  have len: "length ws \<le> 4" "0 < length ws" using assms(2) by (simp_all add: ws_def length_quad)
  let ?b = "loadu_si128 pad mem p"
  let ?d = "lanes (shuffle_epi8 ?b (shuffle_row (glen ws 0) (glen ws 1) (glen ws 2) (glen ws 3)))"
  have b: "length ?b = 16" by (simp add: loadu_si128_def)
  have "glen ws 0 + glen ws 1 + glen ws 2 + glen ws 3 = gstart ws 4" by (simp add: gstart_def eval_nat_numeral)
  then have dec: "DecodeData pad mem (key_of ws) p = Some (?d, p + gstart ws 4)"
    using lengthTable_key [OF len(1)] shuffleTable_key [OF len(1)] by (simp add: DecodeData_def DecodeData_lanes_def)
  have "?d ! i = vs ! (4 * g + i)" if i: "i < length ws" for i
  proof -
    let ?v = "vs ! (4 * g + i)"
    have lt: "4 * g + i < length vs" using i by (auto simp: ws_def length_quad)
    have l: "glen ws i = GetOneEncodeLength ?v" using i by (simp add: glen_def ws_def quad_nth)
    have off: "dp + data_off vs (4 * g + i) = p + gstart ws i" using i data_off_group [of i vs g] by (simp add: p_def ws_def)
    have "data_off vs (Suc (4 * g + i)) \<le> data_off vs (length vs)" using lt by (intro data_off_mono) simp
    then have fit: "p + gstart ws i + GetOneEncodeLength ?v \<le> length mem"
      using assms(1) off data_off_Suc [OF lt] by (simp add: enc_at_def)
    have le: "gstart ws i + glen ws i \<le> 16"
      using gstart_le [of ws i] glen_bounds(3) [of ws i] i len(1) by linarith
    have bytes: "?b ! (gstart ws i + j) = bytes_of ?v ! j" if "j < GetOneEncodeLength ?v" for j
    proof -
      have "mem ! (dp + data_off vs (4 * g + i) + j) = bytes_of ?v ! j" using assms(1) lt that by (simp add: enc_at_def enc_data_def)
      moreover have "gstart ws i + j < 16" using le l that by simp
      ultimately show ?thesis using off fit that by (simp add: loadu_si128_def load_byte_def add.assoc)
    qed
    have "?d ! i = le_word (map (\<lambda>j. if j < glen ws i then ?b ! (gstart ws i + j) else 0) [0..<4])"
      using i len(1) by (intro lanes_shuffle [OF b]) simp
    also have "\<dots> = ?v" using bytes by (intro le_word_bytes_of) (simp_all add: l)
    finally show ?thesis .
  qed
  with dec show ?thesis by (auto simp: ws_def p_def)
qed

section \<open>Masks\<close>

text \<open>The lanes that count: all four for a full group, the first ones otherwise.\<close>

lemma four_lanes: "length d = 4 \<Longrightarrow> d = [d ! 0, d ! 1, d ! 2, d ! 3]"
  by (rule nth_equalityI) (auto simp: less_Suc_eq numeral_eq_Suc)

lemma bit_movemask: "bit (movemask bs) i \<longleftrightarrow> i < length bs \<and> bs ! i"
  by (simp add: movemask_def bit_horner_sum_bit_iff)

lemma LAST_COMPARE_MASK_eq:
  assumes "1 \<le> r" "r \<le> 4"
  shows "LAST_COMPARE_MASK ! (r mod 4) = Bit_Operations.mask r"
proof -
  consider "r = 1" | "r = 2" | "r = 3" | "r = 4" using assms by linarith
  then show ?thesis by cases (simp_all add: LAST_COMPARE_MASK_def mask_eq_exp_minus_1)
qed

lemma masked:
  assumes "length bs = 4" "1 \<le> r" "r \<le> 4"
  shows "movemask bs AND LAST_COMPARE_MASK ! (r mod 4) = 0 \<longleftrightarrow> (\<forall>i < r. \<not> bs ! i)"
    "movemask bs AND LAST_COMPARE_MASK ! (r mod 4) = (15 AND LAST_COMPARE_MASK ! (r mod 4)) \<longleftrightarrow> (\<forall>i < r. bs ! i)"
proof -
  note m = LAST_COMPARE_MASK_eq [OF assms(2,3)]
  have b: "bit (movemask bs) i \<longleftrightarrow> i < 4 \<and> bs ! i" for i using assms(1) by (simp add: bit_movemask)
  show "movemask bs AND LAST_COMPARE_MASK ! (r mod 4) = 0 \<longleftrightarrow> (\<forall>i < r. \<not> bs ! i)"
    unfolding m using assms(3) by (auto simp: bit_eq_iff bit_and_iff bit_mask_iff b)
  have "Bit_Operations.mask 4 AND Bit_Operations.mask r = (Bit_Operations.mask r :: nat)"
    using assms(3) by (auto simp: bit_eq_iff bit_and_iff bit_mask_iff)
  moreover have "(Bit_Operations.mask 4 :: nat) = 15" by (simp add: mask_eq_exp_minus_1)
  ultimately have q: "(15 :: nat) AND Bit_Operations.mask r = Bit_Operations.mask r" by simp
  show "movemask bs AND LAST_COMPARE_MASK ! (r mod 4) = (15 AND LAST_COMPARE_MASK ! (r mod 4)) \<longleftrightarrow> (\<forall>i < r. bs ! i)"
    unfolding m q using assms(3) by (auto simp: bit_eq_iff bit_and_iff bit_mask_iff b)
qed

lemma unmasked:
  assumes "length bs = 4"
  shows "movemask bs = 0 \<longleftrightarrow> (\<forall>i < 4. \<not> bs ! i)" "movemask bs = 15 \<longleftrightarrow> (\<forall>i < 4. bs ! i)"
proof -
  have b: "bit (movemask bs) i \<longleftrightarrow> i < 4 \<and> bs ! i" for i using assms by (simp add: bit_movemask)
  show "movemask bs = 0 \<longleftrightarrow> (\<forall>i < 4. \<not> bs ! i)" by (auto simp: bit_eq_iff b)
  have "(15 :: nat) = Bit_Operations.mask 4" by (simp add: mask_eq_exp_minus_1)
  then show "movemask bs = 15 \<longleftrightarrow> (\<forall>i < 4. bs ! i)" by (auto simp: bit_eq_iff bit_mask_iff b)
qed

text \<open>Identifiers below \<open>2 ^ 31\<close> compare as signed integers as they do unsigned.\<close>

lemma sint_small:
  assumes "unat x < 2 ^ 31"
  shows "sint (x :: u32) = int (unat x)"
proof -
  have "int (unat x) < 2 ^ 31" using assms by (metis of_nat_less_iff of_nat_numeral of_nat_power)
  then have "uint x < 2 ^ 31" by simp
  moreover have "- (2 ^ 31) \<le> uint x" by (rule order_trans [OF _ uint_ge_0]) simp
  ultimately have "signed_take_bit 31 (uint x) = uint x" by (intro signed_take_bit_int_eq_self) simp_all
  then show ?thesis by (simp add: sint_uint)
qed

lemma sint_less_small: "unat x < 2 ^ 31 \<Longrightarrow> unat y < 2 ^ 31 \<Longrightarrow> sint (x :: u32) < sint y \<longleftrightarrow> x < y"
  unfolding word_less_nat_alt by (simp only: sint_small of_nat_less_iff)

end
