(* ===== verification/Delta_Find.thy ===== *)
theory Delta_Find
  imports Delta_Laws
begin

text \<open>
  Searching an encoded list. The locale \<open>delta_codec\<close> is the contract between \<^verbatim>\<open>GenValue\<close> and
  \<^verbatim>\<open>RecoveryFromDelta\<close>: from the stored values of one group and the last element of the group before,
  the recovery yields the elements of the group. Under it \<^verbatim>\<open>FindWithCount\<close> returns, on the encoding of
  a strictly increasing list, what \<open>find_spec\<close> says. The codecs \<^verbatim>\<open>DeltaSIMDCodec\<close>, \<^verbatim>\<open>V1\<close> and \<^verbatim>\<open>V2\<close> are
  its interpretations.
\<close>

section \<open>What a search is to return\<close>

definition find_spec :: "u32 list \<Rightarrow> u32 \<Rightarrow> FindRes" where
  "find_spec xs v =
     (if v \<in> set xs then EXIST else if v < hd xs then LESS_THAN_MIN else if last xs < v then GRATER_THAN_MAX else NOT_EXIST)"

text \<open>Lists a codec can search: ascending, not empty, and within the range of a signed comparison.\<close>

definition searchable :: "u32 list \<Rightarrow> bool" where
  "searchable xs \<longleftrightarrow> xs \<noteq> [] \<and> sorted_wrt (<) xs \<and> (\<forall>x \<in> set xs. unat x < 2 ^ 31)"

lemma searchable_nth:
  assumes "searchable xs" "i < j" "j < length xs"
  shows "xs ! i < xs ! j"
  using assms by (auto simp: searchable_def sorted_wrt_iff_nth_less)

lemma searchable_mono:
  assumes "searchable xs" "i \<le> j" "j < length xs"
  shows "xs ! i \<le> xs ! j"
  using searchable_nth [OF assms(1)] assms(2,3) by (cases "i = j") (auto intro: less_imp_le)

text \<open>An element is searched in the group that holds the first element that is not smaller.\<close>

lemma mem_group:
  assumes "searchable xs" "\<forall>j < l. xs ! j < v" "l \<le> m" "m < length xs" "\<not> xs ! m < v"
  shows "v \<in> set xs \<longleftrightarrow> (\<exists>j. l \<le> j \<and> j \<le> m \<and> xs ! j = v)"
proof
  assume "v \<in> set xs"
  then obtain j where j: "j < length xs" "xs ! j = v" by (auto simp: in_set_conv_nth)
  have "l \<le> j" using assms(2) j(2) by (metis less_irrefl not_le)
  moreover have "j \<le> m" using searchable_nth [OF assms(1), of m j] j assms(5) by (metis not_le)
  ultimately show "\<exists>j. l \<le> j \<and> j \<le> m \<and> xs ! j = v" using j(2) by blast
next
  assume "\<exists>j. l \<le> j \<and> j \<le> m \<and> xs ! j = v"
  then show "v \<in> set xs" using assms(4) by auto
qed

lemma find_inner:
  assumes "searchable xs" "\<forall>j < l. xs ! j < v" "0 < l" "m < length xs" "\<not> xs ! m < v"
  shows "find_spec xs v = (if v \<in> set xs then EXIST else NOT_EXIST)"
proof -
  have ne: "xs \<noteq> []" using assms(1) by (simp add: searchable_def)
  have "hd xs < v" using assms(2,3) ne by (simp add: hd_conv_nth)
  moreover have "xs ! m \<le> last xs" using assms(1,4) ne searchable_mono [of xs m "length xs - 1"] by (simp add: last_conv_nth)
  ultimately show ?thesis using assms(5) by (auto simp: find_spec_def)
qed

lemma find_above:
  assumes "searchable xs" "\<forall>j < length xs. xs ! j < v"
  shows "find_spec xs v = GRATER_THAN_MAX"
proof -
  have ne: "xs \<noteq> []" using assms(1) by (simp add: searchable_def)
  then have "last xs < v" "hd xs < v" using assms(2) by (simp_all add: last_conv_nth hd_conv_nth)
  moreover have "v \<notin> set xs" using assms(2) by (auto simp: in_set_conv_nth)
  ultimately show ?thesis by (auto simp: find_spec_def)
qed

lemma find_below:
  assumes "searchable xs" "\<not> xs ! 0 < v"
  shows "find_spec xs v = (if xs ! 0 = v then EXIST else LESS_THAN_MIN)"
proof -
  have ne: "xs \<noteq> []" using assms(1) by (simp add: searchable_def)
  have "v \<in> set xs \<longleftrightarrow> (\<exists>j. 0 \<le> j \<and> j \<le> 0 \<and> xs ! j = v)"
    using assms ne by (intro mem_group) simp_all
  then show ?thesis using assms(2) ne by (auto simp: find_spec_def hd_conv_nth)
qed

section \<open>Comparing a group\<close>

text \<open>A register holds the first \<open>r\<close> lanes of group \<open>g\<close>.\<close>

definition holds_group :: "u32 list \<Rightarrow> nat \<Rightarrow> m128 \<Rightarrow> bool" where
  "holds_group xs g pre \<longleftrightarrow> length pre = 4 \<and> (\<forall>i < length (quad xs g). pre ! i = xs ! (4 * g + i))"

lemma holds_group_lt:
  assumes "searchable xs" "holds_group xs g pre" "i < length (quad xs g)" "unat v < 2 ^ 31"
  shows "map (\<lambda>x. sint x < sint v) pre ! i \<longleftrightarrow> xs ! (4 * g + i) < v"
proof -
  have "4 * g + i < length xs" using assms(3) by (auto simp: length_quad)
  then have "unat (xs ! (4 * g + i)) < 2 ^ 31" using assms(1) by (simp add: searchable_def)
  moreover have "i < 4" using assms(3) by (simp add: length_quad)
  ultimately show ?thesis using assms(2-4) sint_less_small [of "xs ! (4 * g + i)" v] by (simp add: holds_group_def)
qed

lemma holds_group_eq:
  assumes "holds_group xs g pre" "i < length (quad xs g)"
  shows "map (\<lambda>x. x = v) pre ! i \<longleftrightarrow> xs ! (4 * g + i) = v"
  using assms by (auto simp: holds_group_def length_quad)

text \<open>A group with \<open>r\<close> elements, compared under the mask of its length. A full group needs no mask.\<close>

lemma group_masks:
  fixes xs :: "u32 list" and g :: nat
  defines "r \<equiv> length (quad xs g)" and "l \<equiv> LAST_COMPARE_MASK ! (length (quad xs g) mod 4)"
  assumes "searchable xs" "4 * g < length xs" "holds_group xs g pre" "unat v < 2 ^ 31"
  shows "cmplt_mask pre v AND l = 0 \<longleftrightarrow> (\<forall>i < r. \<not> xs ! (4 * g + i) < v)"
    "cmplt_mask pre v AND l = (15 AND l) \<longleftrightarrow> (\<forall>i < r. xs ! (4 * g + i) < v)"
    "cmpeq_mask pre v AND l = 0 \<longleftrightarrow> (\<forall>i < r. xs ! (4 * g + i) \<noteq> v)"
proof -
  have r: "1 \<le> r" "r \<le> 4" using assms(4) by (simp_all add: r_def length_quad)
  have len: "length (map f pre) = 4" for f :: "u32 \<Rightarrow> bool" using assms(5) by (simp add: holds_group_def)
  note lt = holds_group_lt [OF assms(3,5) _ assms(6)] and eq = holds_group_eq [OF assms(5)]
  show "cmplt_mask pre v AND l = 0 \<longleftrightarrow> (\<forall>i < r. \<not> xs ! (4 * g + i) < v)"
    using masked(1) [OF len r] lt by (simp only: cmplt_mask_def l_def r_def cong: imp_cong)
  show "cmplt_mask pre v AND l = (15 AND l) \<longleftrightarrow> (\<forall>i < r. xs ! (4 * g + i) < v)"
    using masked(2) [OF len r] lt by (simp only: cmplt_mask_def l_def r_def cong: imp_cong)
  show "cmpeq_mask pre v AND l = 0 \<longleftrightarrow> (\<forall>i < r. xs ! (4 * g + i) \<noteq> v)"
    using masked(1) [OF len r] eq by (simp only: cmpeq_mask_def l_def r_def cong: imp_cong)
qed

lemma full_masks:
  assumes "searchable xs" "4 * g + 4 \<le> length xs" "holds_group xs g pre" "unat v < 2 ^ 31"
  shows "cmplt_mask pre v = 0 \<longleftrightarrow> (\<forall>i < 4. \<not> xs ! (4 * g + i) < v)"
    "cmplt_mask pre v = 15 \<longleftrightarrow> (\<forall>i < 4. xs ! (4 * g + i) < v)"
    "cmpeq_mask pre v = 0 \<longleftrightarrow> (\<forall>i < 4. xs ! (4 * g + i) \<noteq> v)"
proof -
  have q: "length (quad xs g) = 4" using assms(2) by (simp add: length_quad)
  have len: "length (map f pre) = 4" for f :: "u32 \<Rightarrow> bool" using assms(3) by (simp add: holds_group_def)
  note lt = holds_group_lt [OF assms(1,3) _ assms(4), unfolded q] and eq = holds_group_eq [OF assms(3), unfolded q]
  show "cmplt_mask pre v = 0 \<longleftrightarrow> (\<forall>i < 4. \<not> xs ! (4 * g + i) < v)"
    using unmasked(1) [OF len] lt by (simp only: cmplt_mask_def cong: imp_cong)
  show "cmplt_mask pre v = 15 \<longleftrightarrow> (\<forall>i < 4. xs ! (4 * g + i) < v)"
    using unmasked(2) [OF len] lt by (simp only: cmplt_mask_def cong: imp_cong)
  show "cmpeq_mask pre v = 0 \<longleftrightarrow> (\<forall>i < 4. xs ! (4 * g + i) \<noteq> v)"
    using unmasked(1) [OF len] eq by (simp only: cmpeq_mask_def cong: imp_cong)
qed

text \<open>A group whose elements are neither all below \<open>v\<close> decides the search.\<close>

lemma mem_group_index:
  assumes "searchable xs" "\<forall>j < 4 * g. xs ! j < v" "r \<le> length xs - 4 * g" "4 * g < length xs" "k < r" "\<not> xs ! (4 * g + k) < v"
  shows "v \<in> set xs \<longleftrightarrow> (\<exists>i < r. xs ! (4 * g + i) = v)"
proof -
  have "v \<in> set xs \<longleftrightarrow> (\<exists>j. 4 * g \<le> j \<and> j \<le> 4 * g + k \<and> xs ! j = v)"
    using assms by (intro mem_group) simp_all
  also have "\<dots> \<longrightarrow> (\<exists>i < r. xs ! (4 * g + i) = v)"
  proof
    assume "\<exists>j. 4 * g \<le> j \<and> j \<le> 4 * g + k \<and> xs ! j = v"
    then obtain j where j: "4 * g \<le> j" "j \<le> 4 * g + k" "xs ! j = v" by blast
    then have "j - 4 * g < r" "xs ! (4 * g + (j - 4 * g)) = v" using assms(5) by simp_all
    then show "\<exists>i < r. xs ! (4 * g + i) = v" by blast
  qed
  finally have "v \<in> set xs \<longrightarrow> (\<exists>i < r. xs ! (4 * g + i) = v)" .
  moreover have "(\<exists>i < r. xs ! (4 * g + i) = v) \<longrightarrow> v \<in> set xs" using assms(3,4) by auto
  ultimately show ?thesis by blast
qed

section \<open>The search\<close>

lemma wsub32_pred: "0 < n \<Longrightarrow> n < 2 ^ 32 \<Longrightarrow> wsub32 n 1 = n - 1"
  by (simp add: wsub_def)

locale delta_codec =
  fixes gen :: gen and rec :: recover
  assumes rec_group: "4 * g < length xs \<Longrightarrow> holds_group (gen_values gen 0 0 xs) g d \<Longrightarrow>
    length pre = 4 \<Longrightarrow> (if g = 0 then pre = replicate 4 0 else pre ! 3 = xs ! (4 * g - 1)) \<Longrightarrow> holds_group xs g (rec d pre)"
begin

abbreviation stored :: "u32 list \<Rightarrow> u32 list" where
  "stored xs \<equiv> gen_values gen 0 0 xs"

lemma length_quad_stored: "length (quad (stored xs) g) = length (quad xs g)"
  by (simp add: length_quad)

text \<open>One group: its control byte is read, its values are decoded, its elements are recovered.\<close>

lemma decode_group:
  assumes "enc_at mem kp dp (stored xs)" "4 * g < length xs" "length pre = 4"
    "if g = 0 then pre = replicate 4 0 else pre ! 3 = xs ! (4 * g - 1)"
  obtains k d where "aget mem (kp + g) = Some k"
    "DecodeData pad mem k (dp + data_off (stored xs) (4 * g)) = Some (d, dp + data_off (stored xs) (4 * g) + gstart (quad (stored xs) g) 4)"
    "holds_group xs g (rec d pre)"
proof -
  have g: "g < (length (stored xs) + 3) div 4" using assms(2) by simp
  have k: "aget mem (kp + g) = Some (key_of (quad (stored xs) g))"
    using assms(1) g by (auto simp: enc_at_def enc_keys_def aget_def)
  from DecodeData_group [OF assms(1), of g pad] assms(2) obtain d where
    d: "DecodeData pad mem (key_of (quad (stored xs) g)) (dp + data_off (stored xs) (4 * g)) =
      Some (d, dp + data_off (stored xs) (4 * g) + gstart (quad (stored xs) g) 4)" "holds_group (stored xs) g d"
    by (auto simp: holds_group_def)
  from that [OF k d(1) rec_group [OF assms(2) d(2) assms(3,4)]] show ?thesis .
qed

lemma next_group:
  assumes "4 * g + 4 \<le> length xs"
  shows "data_off (stored xs) (4 * g) + gstart (quad (stored xs) g) 4 = data_off (stored xs) (4 * Suc g)"
  using data_off_group [of 4 "stored xs" g] assms by (simp add: length_quad add.commute)

lemma carry_group:
  assumes "4 * g + 4 \<le> length xs" "holds_group xs g pre"
  shows "length pre = 4" "if Suc g = 0 then pre = replicate 4 0 else pre ! 3 = xs ! (4 * Suc g - 1)"
  using assms by (auto simp: holds_group_def length_quad add.commute)

lemma below_next:
  assumes "\<forall>j < 4 * g. xs ! j < v" "\<forall>i < r. xs ! (4 * g + i) < v"
  shows "\<forall>j < 4 * g + r. xs ! j < (v :: u32)"
proof (intro allI impI)
  fix j assume "j < 4 * g + r"
  then consider "j < 4 * g" | "4 * g \<le> j" "j - 4 * g < r" by linarith
  then show "xs ! j < v" using assms by cases (auto dest: spec [of _ "j - 4 * g"])
qed

lemma Find_groups_correct:
  assumes "enc_at mem kp dp (stored xs)" "searchable xs" "unat v < 2 ^ 31"
    "0 < g" "g + n = (length xs + 3) div 4 - 1"
    "length pre = 4" "pre ! 3 = xs ! (4 * g - 1)" "\<forall>j < 4 * g. xs ! j < v"
  shows "Find_groups rec pad mem kp v [g..<g + n] (dp + data_off (stored xs) (4 * g)) pre = Some (Inl (find_spec xs v)) \<or>
    (\<exists>pre'. Find_groups rec pad mem kp v [g..<g + n] (dp + data_off (stored xs) (4 * g)) pre =
       Some (Inr (dp + data_off (stored xs) (4 * (g + n)), pre')) \<and>
     length pre' = 4 \<and> pre' ! 3 = xs ! (4 * (g + n) - 1) \<and> (\<forall>j < 4 * (g + n). xs ! j < v))"
  using assms(4-8)
proof (induction n arbitrary: g pre)
  case (Suc n)
  have full: "4 * g + 4 \<le> length xs" using Suc.prems(2) by linarith
  have pre: "if g = 0 then pre = replicate 4 0 else pre ! 3 = xs ! (4 * g - 1)" using Suc.prems(1,4) by simp
  obtain k d where kd: "aget mem (kp + g) = Some k"
    "DecodeData pad mem k (dp + data_off (stored xs) (4 * g)) = Some (d, dp + data_off (stored xs) (4 * Suc g))"
    "holds_group xs g (rec d pre)"
    using decode_group [OF assms(1) _ Suc.prems(3) pre, of pad] full next_group [OF full] by (auto simp: add.assoc)
  note m = full_masks [OF assms(2) full kd(3) assms(3)]
  have run: "Find_groups rec pad mem kp v [g..<g + Suc n] (dp + data_off (stored xs) (4 * g)) pre =
      (if cmplt_mask (rec d pre) v = 15 then Find_groups rec pad mem kp v [Suc g..<Suc g + n] (dp + data_off (stored xs) (4 * Suc g)) (rec d pre)
       else Some (Inl (if cmpeq_mask (rec d pre) v \<noteq> 0 then EXIST else NOT_EXIST)))"
  proof -
    have "[g..<g + Suc n] = g # [Suc g..<Suc g + n]" by (simp add: upt_conv_Cons del: upt_Suc)
    then show ?thesis using kd(1,2) by (simp del: upt_Suc)
  qed
  show ?case
  proof (cases "cmplt_mask (rec d pre) v = 15")
    case True
    have "\<forall>j < 4 * g + 4. xs ! j < v" using below_next [OF Suc.prems(5)] True m(2) by blast
    then have "\<forall>j < 4 * Suc g. xs ! j < v" by (simp add: add.commute)
    moreover have "length (rec d pre) = 4" "rec d pre ! 3 = xs ! (4 * Suc g - 1)"
      using carry_group [OF full kd(3)] by simp_all
    moreover have "Suc g + n = (length xs + 3) div 4 - 1" using Suc.prems(2) by simp
    ultimately show ?thesis unfolding run using True Suc.IH [of "Suc g" "rec d pre"] by simp
  next
    case False
    then obtain i where i: "i < 4" "\<not> xs ! (4 * g + i) < v" using m(2) by blast
    have "find_spec xs v = (if v \<in> set xs then EXIST else NOT_EXIST)"
      using Suc.prems(1,5) i full by (intro find_inner [OF assms(2), of "4 * g" v "4 * g + i"]) simp_all
    moreover have "v \<in> set xs \<longleftrightarrow> (\<exists>i < 4. xs ! (4 * g + i) = v)"
      using full i by (intro mem_group_index [OF assms(2) Suc.prems(5), of 4 i]) simp_all
    ultimately have "find_spec xs v = (if cmpeq_mask (rec d pre) v \<noteq> 0 then EXIST else NOT_EXIST)"
      using m(3) by auto
    then show ?thesis unfolding run using False by simp
  qed
qed auto

lemma Find_first:
  assumes "enc_at mem kp dp (stored xs)" "xs \<noteq> []"
  obtains k d where "aget mem kp = Some k" "DecodeData pad mem k dp = Some (d, dp + gstart (quad (stored xs) 0) 4)"
    "holds_group xs 0 (rec d (replicate 4 0))"
  using decode_group [OF assms(1), of 0 "replicate 4 0" pad] assms(2) that by auto

lemma Find_small:
  assumes "enc_at mem kp (kp + 1) (stored xs)" "searchable xs" "unat v < 2 ^ 31" "length xs \<le> 4"
  shows "FindWithCount rec pad mem kp (length xs) v = Some (find_spec xs v)"
proof -
  have ne: "xs \<noteq> []" using assms(2) by (simp add: searchable_def)
  obtain k d where kd: "aget mem kp = Some k" "DecodeData pad mem k (kp + 1) = Some (d, kp + 1 + gstart (quad (stored xs) 0) 4)"
    "holds_group xs 0 (rec d (replicate 4 0))" using Find_first [OF assms(1) ne] by blast
  let ?p = "rec d (replicate 4 0)" and ?l = "LAST_COMPARE_MASK ! (length xs mod 4)"
  have q: "length (quad xs 0) = length xs" using assms(4) by (simp add: length_quad)
  have pos: "0 < length xs" using ne by simp
  note m = group_masks [OF assms(2) _ kd(3) assms(3), unfolded q, simplified, OF ne]
  have one: "(length xs + 3) div 4 = 1" using pos assms(4) by linarith
  have l: "aget LAST_COMPARE_MASK (length xs mod 4) = Some ?l" by (simp add: aget_def LAST_COMPARE_MASK_def)
  have p0: "?p ! 0 = xs ! 0" using kd(3) pos q by (simp add: holds_group_def)
  have run: "FindWithCount rec pad mem kp (length xs) v = Some
      (if cmplt_mask ?p v AND ?l = 0 then (if ?p ! 0 = v then EXIST else LESS_THAN_MIN)
       else if cmplt_mask ?p v AND ?l = (15 AND ?l) then GRATER_THAN_MAX
       else if cmpeq_mask ?p v AND ?l \<noteq> 0 then EXIST else NOT_EXIST)"
    unfolding FindWithCount_def one Let_def using kd(1,2) l by simp
  show ?thesis
  proof (cases "cmplt_mask ?p v AND ?l = 0")
    case True
    then have "\<not> xs ! 0 < v" using m(1) pos by blast
    then show ?thesis unfolding run using True p0 find_below [OF assms(2)] by simp
  next
    case False
    then obtain i where i: "i < length xs" "xs ! i < v" using m(1) by auto
    show ?thesis
    proof (cases "cmplt_mask ?p v AND ?l = (15 AND ?l)")
      case True
      then show ?thesis unfolding run using False m(2) find_above [OF assms(2)] by simp
    next
      case ge: False
      then obtain j where j: "j < length xs" "\<not> xs ! j < v" using m(2) by blast
      have "xs ! 0 < v" using i searchable_mono [OF assms(2), of 0 i] by (auto intro: le_less_trans)
      then have "find_spec xs v = (if v \<in> set xs then EXIST else NOT_EXIST)"
        using j by (intro find_inner [OF assms(2), of 1 v j]) simp_all
      moreover have "v \<in> set xs \<longleftrightarrow> cmpeq_mask ?p v AND ?l \<noteq> 0" using m(3) by (auto simp: in_set_conv_nth)
      ultimately show ?thesis unfolding run using False ge by simp
    qed
  qed
qed

text \<open>The last group, entered with everything before it smaller.\<close>

lemma Find_last:
  assumes "enc_at mem kp dp (stored xs)" "searchable xs" "unat v < 2 ^ 31" "0 < g" "Suc g = (length xs + 3) div 4"
    "length pre = 4" "pre ! 3 = xs ! (4 * g - 1)" "\<forall>j < 4 * g. xs ! j < v"
  shows "do {
      control \<leftarrow> aget mem (kp + g);
      (d, ptr) \<leftarrow> DecodeData pad mem control (dp + data_off (stored xs) (4 * g));
      let pre = rec d pre;
      if cmplt_mask pre v AND LAST_COMPARE_MASK ! (length xs mod 4) = (15 AND LAST_COMPARE_MASK ! (length xs mod 4)) then Some GRATER_THAN_MAX
      else Some (if cmpeq_mask pre v AND LAST_COMPARE_MASK ! (length xs mod 4) \<noteq> 0 then EXIST else NOT_EXIST) }
    = Some (find_spec xs v)"
proof -
  have g: "4 * g < length xs" using assms(5) by linarith
  define r where "r = length (quad xs g)"
  have r: "length xs = 4 * g + r" "r \<le> 4" "0 < r" using g assms(5) by (auto simp: r_def length_quad)
  have md: "length xs mod 4 = r mod 4" using r(1) by simp
  obtain k d where kd: "aget mem (kp + g) = Some k"
    "DecodeData pad mem k (dp + data_off (stored xs) (4 * g)) = Some (d, dp + data_off (stored xs) (4 * g) + gstart (quad (stored xs) g) 4)"
    "holds_group xs g (rec d pre)"
    using decode_group [OF assms(1) g assms(6), of pad] assms(4,7) by auto
  note m = group_masks [OF assms(2) g kd(3) assms(3), folded r_def]
  show ?thesis
  proof (cases "\<forall>i < r. xs ! (4 * g + i) < v")
    case True
    then have "find_spec xs v = GRATER_THAN_MAX" using below_next [OF assms(8) True] r(1) by (intro find_above [OF assms(2)]) simp
    then show ?thesis using kd(1,2) True m(2) md by simp
  next
    case False
    then obtain i where i: "i < r" "\<not> xs ! (4 * g + i) < v" by blast
    have "find_spec xs v = (if v \<in> set xs then EXIST else NOT_EXIST)"
      using assms(4,8) i r(1) by (intro find_inner [OF assms(2), of "4 * g" v "4 * g + i"]) simp_all
    moreover have "v \<in> set xs \<longleftrightarrow> (\<exists>i < r. xs ! (4 * g + i) = v)"
      using i r(1) by (intro mem_group_index [OF assms(2,8), of r i]) simp_all
    moreover have "\<not> (cmplt_mask (rec d pre) v AND LAST_COMPARE_MASK ! (r mod 4) = (15 AND LAST_COMPARE_MASK ! (r mod 4)))"
      using m(2) False by blast
    moreover have "cmpeq_mask (rec d pre) v AND LAST_COMPARE_MASK ! (r mod 4) \<noteq> 0 \<longleftrightarrow> (\<exists>i < r. xs ! (4 * g + i) = v)"
      using m(3) by auto
    ultimately show ?thesis unfolding md using kd(1,2) by simp
  qed
qed

lemma Find_large:
  assumes "enc_at mem kp (kp + (length xs + 3) div 4) (stored xs)" "searchable xs" "unat v < 2 ^ 31" "4 < length xs"
    "length xs < 2 ^ 32"
  shows "FindWithCount rec pad mem kp (length xs) v = Some (find_spec xs v)"
proof -
  define cb where "cb = (length xs + 3) div 4"
  define dp where "dp = kp + cb"
  have at: "enc_at mem kp dp (stored xs)" using assms(1) by (simp add: cb_def dp_def)
  have cb: "2 \<le> cb" "cb < 2 ^ 32" "wsub32 cb 1 = cb - 1" using assms(4,5) by (simp_all add: cb_def)
  have ne: "xs \<noteq> []" using assms(4) by auto
  have full: "4 * 0 + 4 \<le> length xs" using assms(4) by simp
  obtain k d where kd: "aget mem kp = Some k" "DecodeData pad mem k dp = Some (d, dp + data_off (stored xs) (4 * 1))"
    "holds_group xs 0 (rec d (replicate 4 0))"
    using Find_first [OF at ne, of pad] next_group [OF full] by auto
  let ?p = "rec d (replicate 4 0)" and ?l = "LAST_COMPARE_MASK ! (length xs mod 4)"
  note m = full_masks [OF assms(2) full kd(3) assms(3), simplified]
  have l: "aget LAST_COMPARE_MASK (length xs mod 4) = Some ?l" by (simp add: aget_def LAST_COMPARE_MASK_def)
  define rest where "rest = do {
      r \<leftarrow> Find_groups rec pad mem kp v [1..<cb - 1] (dp + data_off (stored xs) (4 * 1)) ?p;
      case r of Inl res \<Rightarrow> Some res
      | Inr (ptr, pre) \<Rightarrow> do {
          control \<leftarrow> aget mem (kp + (cb - 1));
          (d, ptr) \<leftarrow> DecodeData pad mem control ptr;
          let pre = rec d pre;
          if cmplt_mask pre v AND ?l = (15 AND ?l) then Some GRATER_THAN_MAX
          else Some (if cmpeq_mask pre v AND ?l \<noteq> 0 then EXIST else NOT_EXIST) } }"
  have run: "FindWithCount rec pad mem kp (length xs) v =
      (if cmplt_mask ?p v = 0 then Some (if ?p ! 0 = v then EXIST else LESS_THAN_MIN)
       else if cmplt_mask ?p v \<noteq> 15 then Some (if cmpeq_mask ?p v \<noteq> 0 then EXIST else NOT_EXIST) else rest)"
    unfolding FindWithCount_def rest_def cb_def [symmetric] dp_def [symmetric] Let_def using kd(1,2) l cb by (simp add: Let_def)
  have p0: "?p ! 0 = xs ! 0" using kd(3) assms(4) by (simp add: holds_group_def length_quad)
  consider (below) "cmplt_mask ?p v = 0" | (here) "cmplt_mask ?p v \<noteq> 0" "cmplt_mask ?p v \<noteq> 15" | (beyond) "cmplt_mask ?p v = 15" by blast
  then show ?thesis
  proof cases
    case below
    then have "\<not> xs ! 0 < v" using m(1) by auto
    then show ?thesis unfolding run using below p0 find_below [OF assms(2)] by simp
  next
    case here
    then obtain i j where ij: "i < 4" "xs ! i < v" "j < 4" "\<not> xs ! j < v" using m(1,2) by auto
    have "xs ! 0 < v" using ij(1,2) assms(4) searchable_mono [OF assms(2), of 0 i] by (auto intro: le_less_trans)
    then have "find_spec xs v = (if v \<in> set xs then EXIST else NOT_EXIST)"
      using ij assms(4) by (intro find_inner [OF assms(2), of 1 v j]) simp_all
    moreover have "v \<in> set xs \<longleftrightarrow> (\<exists>i < 4. xs ! (4 * 0 + i) = v)"
      using ij ne assms(4) by (intro mem_group_index [OF assms(2), of 0 v 4 j]) simp_all
    ultimately show ?thesis unfolding run using here m(3) by auto
  next
    case beyond
    then have lt: "\<forall>j < 4 * 1. xs ! j < v" using m(2) by simp
    have pre: "length ?p = 4" "?p ! 3 = xs ! (4 * 1 - 1)" using carry_group [OF full kd(3)] by simp_all
    have n: "1 + (cb - 2) = (length xs + 3) div 4 - 1" "1 + (cb - 2) = cb - 1" using cb(1) by (simp_all add: cb_def)
    from Find_groups_correct [OF at assms(2,3) zero_less_one n(1) pre lt, of pad, unfolded n(2)]
    have "rest = Some (find_spec xs v)"
    proof
      assume "\<exists>pre'. Find_groups rec pad mem kp v [1..<cb - 1] (dp + data_off (stored xs) (4 * 1)) ?p =
          Some (Inr (dp + data_off (stored xs) (4 * (cb - 1)), pre')) \<and>
        length pre' = 4 \<and> pre' ! 3 = xs ! (4 * (cb - 1) - 1) \<and> (\<forall>j < 4 * (cb - 1). xs ! j < v)"
      then obtain pre' where p': "Find_groups rec pad mem kp v [1..<cb - 1] (dp + data_off (stored xs) (4 * 1)) ?p =
          Some (Inr (dp + data_off (stored xs) (4 * (cb - 1)), pre'))"
        "length pre' = 4" "pre' ! 3 = xs ! (4 * (cb - 1) - 1)" "\<forall>j < 4 * (cb - 1). xs ! j < v" by blast
      have "Suc (cb - 1) = (length xs + 3) div 4" "0 < cb - 1" using cb(1) by (simp_all add: cb_def)
      from Find_last [OF at assms(2,3) this(2,1) p'(2-4), of pad] p'(1) show ?thesis by (simp add: rest_def)
    qed (simp add: rest_def)
    with beyond show ?thesis unfolding run by simp
  qed
qed

lemma FindWithCount_correct:
  assumes "enc_at mem kp (kp + (length xs + 3) div 4) (stored xs)" "searchable xs" "unat v < 2 ^ 31" "length xs < 2 ^ 32"
  shows "FindWithCount rec pad mem kp (length xs) v = Some (find_spec xs v)"
proof (cases "length xs \<le> 4")
  case True
  moreover have "0 < length xs" using assms(2) by (simp add: searchable_def)
  ultimately have "(length xs + 3) div 4 = 1" by linarith
  then show ?thesis using Find_small [OF _ assms(2,3) True] assms(1) by simp
qed (use Find_large [OF assms(1-3) _ assms(4)] in simp)

end

section \<open>The three codecs\<close>

lemma gen_values_nth:
  assumes "k < length xs"
  shows "gen_values gen 0 0 xs ! k = fst (gen (gen_pre gen 0 0 (take k xs)) (xs ! k) k)"
proof -
  have "take (Suc k) (gen_values gen 0 0 xs) = take k (gen_values gen 0 0 xs) @ [fst (gen (gen_pre gen 0 0 (take k xs)) (xs ! k) k)]"
    unfolding take_gen_values using assms by (simp add: take_Suc_conv_app_nth gen_values_append)
  then show ?thesis using assms by (simp add: take_Suc_conv_app_nth)
qed

lemma gen_pre_Suc: "k < length xs \<Longrightarrow> gen_pre gen 0 0 (take (Suc k) xs) = snd (gen (gen_pre gen 0 0 (take k xs)) (xs ! k) k)"
  by (simp add: take_Suc_conv_app_nth gen_pre_append)

lemma GenValue_nth:
  assumes "k < length xs"
  shows "gen_values GenValue 0 0 xs ! k = xs ! k - (if k = 0 then 0 else xs ! (k - 1))"
  using assms by (cases k) (simp_all add: gen_values_nth gen_pre_Suc GenValue_def)

lemma GenValueV2_nth:
  assumes "k < length xs"
  shows "gen_values GenValueV2 0 0 xs ! k = xs ! k - (if k mod 4 = 0 then 0 else xs ! (k - 1))"
  using assms by (cases k) (simp_all add: gen_values_nth gen_pre_Suc GenValueV2_def)

lemma gen_pre_V1: "k < length xs \<Longrightarrow> gen_pre GenValueV1 0 0 (take (Suc k) xs) = xs ! (k - k mod 4)"
proof (induction k)
  case 0
  then show ?case by (simp add: gen_pre_Suc GenValueV1_def)
next
  case (Suc k)
  then show ?case by (auto simp: gen_pre_Suc [of "Suc k"] GenValueV1_def mod_Suc)
qed

lemma GenValueV1_nth:
  assumes "k < length xs"
  shows "gen_values GenValueV1 0 0 xs ! k = xs ! k - (if k mod 4 = 0 then 0 else xs ! (k - k mod 4))"
proof (cases k)
  case (Suc j)
  then show ?thesis using assms gen_pre_V1 [of j xs] by (auto simp: gen_values_nth GenValueV1_def mod_Suc)
qed (use assms in \<open>simp add: gen_values_nth GenValueV1_def\<close>)

text \<open>The lanes of the three recoveries.\<close>

lemma RecoveryFromDelta_lanes:
  "RecoveryFromDelta [a, b, c, e] pre = [a + pre ! 3, a + b + pre ! 3, a + b + c + pre ! 3, a + b + c + e + pre ! 3]"
  by (simp add: RecoveryFromDelta_def add_epi32_def slli_4_def slli_8_def numeral_3_eq_3 numeral_2_eq_2 eval_nat_numeral add_ac)

lemma RecoveryFromDeltaV1_lanes: "RecoveryFromDeltaV1 [a, b, c, e] pre = [a, a + b, a + c, a + e]"
  by (simp add: RecoveryFromDeltaV1_def add_epi32_def add_ac)

lemma RecoveryFromDeltaV2_lanes: "RecoveryFromDeltaV2 [a, b, c, e] pre = [a, a + b, a + b + c, a + b + c + e]"
  by (simp add: RecoveryFromDeltaV2_def add_epi32_def slli_4_def slli_8_def numeral_3_eq_3 numeral_2_eq_2 eval_nat_numeral add_ac)

lemma lt_4_cases: "(\<forall>i < n. P i) \<longleftrightarrow> (0 < n \<longrightarrow> P 0) \<and> (1 < n \<longrightarrow> P 1) \<and> (2 < n \<longrightarrow> P 2) \<and> (3 < n \<longrightarrow> P 3)" if "n \<le> (4 :: nat)"
proof -
  have "i = 0 \<or> i = 1 \<or> i = 2 \<or> i = 3" if "i < n" for i using that \<open>n \<le> 4\<close> by linarith
  then show ?thesis by blast
qed

lemma group_index_mod: "Suc (Suc (4 * g)) mod 4 = 2"
  using mod_mult_self4 [of 4 g 2] by (simp add: numeral_2_eq_2)

lemmas holds_group_cases = lt_4_cases [OF min.cobounded1]

interpretation base: delta_codec GenValue RecoveryFromDelta
proof
  fix g :: nat and xs :: "u32 list" and d pre :: m128
  assume h: "4 * g < length xs" "holds_group (gen_values GenValue 0 0 xs) g d" "length pre = 4"
    "if g = 0 then pre = replicate 4 0 else pre ! 3 = xs ! (4 * g - 1)"
  have len: "length d = 4" using h(2) by (simp add: holds_group_def)
  obtain a b c e where d: "d = [a, b, c, e]" using four_lanes [OF len] by blast
  have p: "pre ! 3 = (if g = 0 then 0 else xs ! (4 * g - 1))" using h(4) by (auto split: if_splits)
  show "holds_group xs g (RecoveryFromDelta d pre)"
    using h(1,2) unfolding d holds_group_def RecoveryFromDelta_lanes length_quad length_gen_values holds_group_cases p
    by (simp add: GenValue_nth)
qed

interpretation v1: delta_codec GenValueV1 RecoveryFromDeltaV1
proof
  fix g :: nat and xs :: "u32 list" and d pre :: m128
  assume h: "4 * g < length xs" "holds_group (gen_values GenValueV1 0 0 xs) g d"
  have len: "length d = 4" using h(2) by (simp add: holds_group_def)
  obtain a b c e where d: "d = [a, b, c, e]" using four_lanes [OF len] by blast
  show "holds_group xs g (RecoveryFromDeltaV1 d pre)"
    using h unfolding d holds_group_def RecoveryFromDeltaV1_lanes length_quad length_gen_values holds_group_cases
    by (simp add: GenValueV1_nth group_index_mod)
qed

interpretation v2: delta_codec GenValueV2 RecoveryFromDeltaV2
proof
  fix g :: nat and xs :: "u32 list" and d pre :: m128
  assume h: "4 * g < length xs" "holds_group (gen_values GenValueV2 0 0 xs) g d"
  have len: "length d = 4" using h(2) by (simp add: holds_group_def)
  obtain a b c e where d: "d = [a, b, c, e]" using four_lanes [OF len] by blast
  show "holds_group xs g (RecoveryFromDeltaV2 d pre)"
    using h unfolding d holds_group_def RecoveryFromDeltaV2_lanes length_quad length_gen_values holds_group_cases
    by (simp add: GenValueV2_nth group_index_mod)
qed

end
