(* ===== verification/Delta_Lengths.thy ===== *)
theory Delta_Lengths
  imports Delta_Find
begin

text \<open>The lengths that the codecs compute before and after encoding are the ones of the encoding.\<close>

section \<open>Before\<close>

lemma data_off_all: "data_off vs (length vs) = sum_list (map GetOneEncodeLength vs)"
  by (simp add: data_off_def)

lemma ParseEncode_loop:
  assumes "n \<le> length xs"
  shows "foldo (\<lambda>i (size, pre, infos). do {
         x \<leftarrow> aget xs i;
         let vb = GetOneEncodeLength (x - pre);
         let size = size + vb;
         Some (size, x, infos @ [\<lparr>delta_bits = (if i = 0 then 0 else vb), val_bits = GetOneEncodeLength x, total_bits = size\<rparr>]) })
       [0..<n] (0, 0, []) =
     Some (data_off (gen_values GenValue 0 0 xs) n, (if n = 0 then 0 else xs ! (n - 1)),
       map (\<lambda>i. \<lparr>delta_bits = (if i = 0 then 0 else GetOneEncodeLength (xs ! i - xs ! (i - 1))), val_bits = GetOneEncodeLength (xs ! i),
         total_bits = data_off (gen_values GenValue 0 0 xs) (Suc i)\<rparr>) [0..<n])"
  using assms
proof (induction n)
  case (Suc n)
  then have lt: "n < length xs" by simp
  have "data_off (gen_values GenValue 0 0 xs) (Suc n) =
      data_off (gen_values GenValue 0 0 xs) n + GetOneEncodeLength (xs ! n - (if n = 0 then 0 else xs ! (n - 1)))"
    using lt by (simp add: data_off_Suc GenValue_nth)
  with Suc lt show ?case by (simp add: foldo_append Let_def)
qed simp

lemma ParseEncode_eq:
  "ParseEncode xs = Some (map (\<lambda>i. \<lparr>delta_bits = (if i = 0 then 0 else GetOneEncodeLength (xs ! i - xs ! (i - 1))),
     val_bits = GetOneEncodeLength (xs ! i), total_bits = data_off (gen_values GenValue 0 0 xs) (Suc i)\<rparr>) [0..<length xs])"
  unfolding ParseEncode_def using ParseEncode_loop [of "length xs" xs] by simp

lemma GetRequiredBytes_loop:
  assumes "n \<le> length xs" "\<And>i. i < length xs \<Longrightarrow> inp i = Some (xs ! i)"
  shows "foldo (\<lambda>i (len, pre). do {
         x \<leftarrow> inp i;
         let (val, pre) = gen pre x i;
         Some (len + GetOneEncodeLength val, pre) }) [0..<n] (l, 0) =
     Some (l + data_off (gen_values gen 0 0 xs) n, gen_pre gen 0 0 (take n xs))"
  using assms(1)
proof (induction n)
  case (Suc n)
  then have lt: "n < length xs" by simp
  with Suc show ?case
    by (simp add: foldo_append assms(2) data_off_Suc gen_values_nth gen_pre_Suc split_beta Let_def)
qed simp

lemma GetRequiredBytes_eq:
  assumes "\<And>i. i < length xs \<Longrightarrow> inp i = Some (xs ! i)"
  shows "GetRequiredBytes gen inp (length xs) = Some ((length xs + 3) div 4 + data_off (gen_values gen 0 0 xs) (length xs))"
  unfolding GetRequiredBytes_def using GetRequiredBytes_loop [OF order.refl assms] by simp

section \<open>After\<close>

text \<open>The control byte of a short group has no bits above the ones that the mask keeps.\<close>

lemma bit_key_of:
  assumes "length ws \<le> 4" "2 * length ws \<le> k"
  shows "\<not> bit (key_of ws) k"
  using assms
proof (induction ws arbitrary: k rule: rev_induct)
  case Nil
  then show ?case by (simp add: key_of_def)
next
  case (snoc w ws)
  have "code_of w < 2 ^ 2" by simp
  also have "(2 :: nat) ^ 2 \<le> 2 ^ (k - 2 * length ws)" using snoc.prems(2) by (intro power_increasing) simp_all
  finally have "\<not> bit (code_of w) (k - 2 * length ws)" by (simp add: bit_iff_odd)
  then have "\<not> bit (code_of w * 2 ^ (2 * length ws)) k"
    using snoc.prems(2) by (simp add: bit_push_bit_iff flip: push_bit_eq_mult)
  then have "\<not> bit (of_nat (code_of w * 2 ^ (2 * length ws)) :: u8) k" by (simp add: bit_of_nat_iff del: of_nat_mult)
  moreover have "\<not> bit (key_of ws) k" using snoc by simp
  ultimately show ?case by (simp add: key_of_append bit_or_iff)
qed

lemma ENCODE_LENGTH_MASK_eq:
  assumes "1 \<le> r" "r \<le> 4"
  shows "ENCODE_LENGTH_MASK ! (r mod 4) = Bit_Operations.mask (2 * r)"
proof -
  consider "r = 1" | "r = 2" | "r = 3" | "r = 4" using assms by linarith
  then show ?thesis by cases (simp_all add: ENCODE_LENGTH_MASK_def mask_eq_exp_minus_1)
qed

lemma key_of_mask:
  assumes "1 \<le> length ws" "length ws \<le> 4"
  shows "key_of ws AND ENCODE_LENGTH_MASK ! (length ws mod 4) = key_of ws"
  unfolding ENCODE_LENGTH_MASK_eq [OF assms]
  by (rule bit_word_eqI) (use bit_key_of [OF assms(2)] in \<open>auto simp: bit_and_iff bit_mask_iff not_le [symmetric]\<close>)

lemma lengthTable_glen:
  assumes "length ws \<le> 4"
  shows "aget lengthTable (unat (key_of ws)) = Some (gstart ws 4)"
proof -
  have "gstart ws 4 = glen ws 0 + glen ws 1 + glen ws 2 + glen ws 3" by (simp add: gstart_def eval_nat_numeral)
  then show ?thesis using lengthTable_key [OF assms] by simp
qed

lemma gstart_beyond:
  assumes "length ws \<le> k"
  shows "gstart ws k = gstart ws (length ws) + (k - length ws)"
  using assms
proof (induction k)
  case (Suc k)
  show ?case
  proof (cases "length ws = Suc k")
    case False
    then have "length ws \<le> k" using Suc.prems by simp
    with Suc.IH show ?thesis by (simp add: gstart_def glen_def)
  qed simp
qed simp

lemma GetEncodeLength_loop:
  assumes "enc_at mem kp dp vs" "4 * n \<le> length vs"
  shows "foldo (\<lambda>i res. do { b \<leftarrow> aget mem (kp + i); l \<leftarrow> aget lengthTable (unat b); Some (res + l) }) [0..<n] l =
    Some (l + data_off vs (4 * n))"
  using assms(2)
proof (induction n)
  case (Suc n)
  have full: "length (quad vs n) = 4" using Suc.prems by (simp add: length_quad)
  have n: "n < (length vs + 3) div 4" using Suc.prems by simp
  then have "aget mem (kp + n) = Some (key_of (quad vs n))" using assms(1) by (auto simp: enc_at_def enc_keys_def aget_def)
  moreover have "data_off vs (4 * Suc n) = data_off vs (4 * n) + gstart (quad vs n) 4"
    using data_off_group [of 4 vs n] full by (simp add: add.commute)
  ultimately show ?case using Suc full lengthTable_glen [of "quad vs n"] by (simp add: foldo_append)
qed simp

lemma GetEncodeLength_correct:
  assumes "enc_at mem kp dp vs" "vs \<noteq> []"
  shows "GetEncodeLength mem kp (length vs) = Some ((length vs + 3) div 4 + data_off vs (length vs))"
proof -
  define g where "g = (length vs + 3) div 4 - 1"
  define r where "r = length (quad vs g)"
  have pos: "0 < length vs" using assms(2) by simp
  then have g: "(length vs + 3) div 4 = Suc g" "4 * g < length vs" "length vs \<le> 4 * g + 4" unfolding g_def by linarith+
  have r: "1 \<le> r" "r \<le> 4" "length vs = 4 * g + r" using g(2,3) by (auto simp: r_def length_quad)
  have key: "aget mem (kp + g) = Some (key_of (quad vs g))" using assms(1) g(1) by (auto simp: enc_at_def enc_keys_def aget_def)
  have md: "length vs mod 4 = r mod 4" unfolding r(3) by simp
  have msk: "aget ENCODE_LENGTH_MASK (length vs mod 4) = Some (ENCODE_LENGTH_MASK ! (r mod 4))"
    by (simp add: md aget_def ENCODE_LENGTH_MASK_def)
  have masked: "key_of (quad vs g) AND ENCODE_LENGTH_MASK ! (r mod 4) = key_of (quad vs g)"
    using key_of_mask [of "quad vs g"] r(1,2) by (simp add: r_def)
  have tot: "data_off vs (length vs) = data_off vs (4 * g) + gstart (quad vs g) r"
    using data_off_group [of r vs g] by (simp add: r(3) r_def)
  have four: "gstart (quad vs g) 4 = gstart (quad vs g) r + (4 - r)"
    using gstart_beyond [of "quad vs g" 4] r(2) by (simp add: r_def)
  have pad: "(4 - r mod 4) mod 4 = 4 - r" using r(1,2) by (cases "r = 4") simp_all
  have loop: "foldo (\<lambda>i res. do { b \<leftarrow> aget mem (kp + i); l \<leftarrow> aget lengthTable (unat b); Some (res + l) }) [0..<g] (Suc g) =
      Some (Suc g + data_off vs (4 * g))"
    using g(2) by (intro GetEncodeLength_loop [OF assms(1)]) simp
  have lt: "aget lengthTable (unat (key_of (quad vs g))) = Some (gstart (quad vs g) 4)"
    using lengthTable_glen [of "quad vs g"] r(2) by (simp add: r_def)
  show ?thesis
    unfolding GetEncodeLength_def g(1) Let_def using loop key msk masked lt
    by (simp add: md four pad tot)
qed

end
