(* ===== verification/Delta_Score.thy ===== *)
theory Delta_Score
  imports Delta_Encode Delta_Lengths Hybrid_Laws
begin

text \<open>
  The scores of \<^verbatim>\<open>DeltaSIMDEncode\<close>. Whatever the neighbours are, counting a score has a result (no index
  leaves an array, no division is by zero although the products wrap) and it never exceeds the
  number of vertices. That bound is what makes the next division safe.
\<close>

lemma hash_loop_defined:
  assumes "0 < hb" "length hv = hb"
  shows "\<exists>c'. hash_loop hb mx skip i xs hv c = Some c'"
  using assms(2)
proof (induction xs arbitrary: i hv c)
  case (Cons x xs)
  have h: "unat x mod hb < length hv" using assms(1) Cons.prems by simp
  show ?case
  proof (cases "c \<le> mx \<and> \<not> skip i")
    case True
    then show ?thesis using assms(1) h Cons.IH [of "hv[unat x mod hb := True]" "i + 1" "c + 1"] Cons.IH [of hv "i + 1" c] Cons.prems
      by (cases "hv ! (unat x mod hb)") (simp_all add: Let_def)
  next
    case False
    then show ?thesis using Cons.IH [OF Cons.prems, of "i + 1" c] by auto
  qed
qed simp

lemma udiv_Some: "b \<noteq> 0 \<Longrightarrow> udiv a b = Some (a div b)"
  by (simp add: udiv_def)

lemma wrapped_share:
  assumes "unat (y :: u32) \<le> unat h"
  shows "unat (x * y div h) \<le> unat x"
proof -
  have "unat (x * y) \<le> unat x * unat y" by (simp add: unat_word_ariths)
  also have "\<dots> \<le> unat x * unat h" using assms by (rule mult_le_mono2)
  finally have "unat (x * y) div unat h \<le> unat x * unat h div unat h" by (rule div_le_mono)
  also have "\<dots> \<le> unat x" by (cases "unat h = 0") simp_all
  finally show ?thesis by (simp add: unat_div)
qed

lemma wrapped_share_left:
  assumes "unat (x :: u32) \<le> unat h"
  shows "unat (x * y div h) \<le> unat y"
  using wrapped_share [OF assms, of y] by (simp add: mult.commute)

lemma unat_add_le:
  assumes "unat (a :: u32) \<le> unat v" "unat q \<le> unat (v - a)"
  shows "unat (a + q) \<le> unat v"
proof -
  have "unat (v - a) = unat v - unat a" using assms(1) by (simp add: unat_sub word_le_nat_alt)
  then have le: "unat a + unat q \<le> unat v" using assms by linarith
  moreover have "unat v < 2 ^ 32" by (rule unat_u32_lt)
  ultimately show ?thesis by (simp add: unat_word_ariths)
qed

lemma FullHashScoreCount_defined:
  assumes "0 < VERTEX_SIZE cfg" "VERTEX_SIZE cfg < 2 ^ 32" "0 < hb" "hb < 2 ^ 32"
  shows "\<exists>b s. FullHashScoreCount cfg ns hb 0 = Some (b, s) \<and> unat s \<le> VERTEX_SIZE cfg"
proof -
  let ?V = "of_nat (VERTEX_SIZE cfg) :: u32" and ?h = "of_nat hb :: u32"
  have V: "unat ?V = VERTEX_SIZE cfg" "unat ?h = hb" using assms by (simp_all add: unat_of_nat)
  then have ne: "?V \<noteq> 0" "?h \<noteq> 0" using assms(1,3) by (metis less_irrefl unat_0)+
  obtain c where c: "hash_loop hb (?h - 0) (\<lambda>i. False) 0 ns (replicate hb False) 0 = Some c"
    using hash_loop_defined [OF assms(3)] by (metis length_replicate)
  have "unat (?V * (?h - c) div ?h) \<le> unat ?V" if "c \<le> ?h"
    using that by (intro wrapped_share) (simp add: unat_sub word_le_nat_alt)
  then show ?thesis using ne c V by (auto simp: FullHashScoreCount_def udiv_Some Let_def)
qed

text \<open>The part of the identifiers that a block answers for.\<close>

definition block_fits :: "u32 list \<Rightarrow> BlockInfo \<Rightarrow> bool" where
  "block_fits ns info \<longleftrightarrow> 0 < block_size info \<and> bi_begin info + block_size info \<le> length ns"

lemma unat_interval:
  assumes "0 < f" "f \<le> l"
  shows "unat ((l :: u32) - f + 1) = unat l - unat f + 1"
proof -
  have "unat (l - f) = unat l - unat f" using assms(2) by (simp add: unat_sub word_le_nat_alt)
  moreover have "unat l < 2 ^ 32" by (rule unat_u32_lt)
  moreover have "0 < unat f" using assms(1) by (simp add: word_less_nat_alt)
  moreover have "unat f \<le> unat l" using assms(2) by (simp add: word_le_nat_alt)
  ultimately have "unat (l - f) + 1 < 2 ^ 32" by linarith
  then show ?thesis using \<open>unat (l - f) = unat l - unat f\<close> by (simp add: unat_word_ariths)
qed

lemma ScoreCount_defined:
  assumes "good_ids cfg ns" "wf_config cfg" "block_fits ns info" "hb < 2 ^ 32" "unat score \<le> VERTEX_SIZE cfg"
  shows "\<exists>b s. ScoreCount cfg info ns hb score = Some (b, s) \<and> unat s \<le> VERTEX_SIZE cfg"
proof -
  let ?V = "of_nat (VERTEX_SIZE cfg) :: u32" and ?h = "of_nat hb :: u32"
  define fi li where "fi = bi_begin info" and "li = wsub32 (bi_begin info + block_size info) 1"
  have V: "unat ?V = VERTEX_SIZE cfg" "unat ?h = hb" using wf_configD(15) [OF assms(2)] assms(4) by (simp_all add: unat_of_nat)
  have idx: "fi < length ns" "li < length ns" "fi \<le> li" using assms(3) by (auto simp: block_fits_def fi_def li_def)
  have id: "0 < x \<and> x \<le> ?V" if "x \<in> set ns" for x using assms(1) that V(1) by (auto simp: good_ids_def word_le_nat_alt)
  have f: "0 < ns ! fi" "ns ! fi \<le> ?V" and l: "0 < ns ! li" "ns ! li \<le> ?V" using id idx by auto
  have fl: "ns ! fi \<le> ns ! li" using assms(1) idx by (auto simp: good_ids_def sorted_nth_mono)
  define cs where "cs = (case block_type info of RightMost \<Rightarrow> ?V - ns ! fi + 1 | LeftMost \<Rightarrow> ns ! li | _ \<Rightarrow> ns ! li - ns ! fi + 1)"
  have rd: "(case block_type info of
         RightMost \<Rightarrow> do { f \<leftarrow> aget ns fi; Some (?V - f + 1) }
       | LeftMost \<Rightarrow> aget ns li
       | _ \<Rightarrow> do { l \<leftarrow> aget ns li; f \<leftarrow> aget ns fi; Some (l - f + 1) }) = Some cs"
    using idx by (auto simp: cs_def split: BlockType.split)
  have i: "0 < unat (ns ! fi)" "unat (ns ! fi) \<le> unat (ns ! li)" "unat (ns ! li) \<le> unat ?V"
    using f(1) fl l(2) by (simp_all add: word_less_nat_alt word_le_nat_alt)
  then have "unat ?V - unat (ns ! fi) + 1 \<le> unat ?V" "unat (ns ! li) - unat (ns ! fi) + 1 \<le> unat ?V" by linarith+
  then have csV: "unat cs \<le> unat ?V"
    using unat_interval [OF f(1,2)] unat_interval [OF f(1) fl] i(3) by (auto simp: cs_def split: BlockType.split)
  show ?thesis
  proof (cases "hb = 0")
    case True
    then show ?thesis
      unfolding ScoreCount_def Let_def li_def [symmetric] unfolding fi_def [symmetric] rd bind.bind_lunit
      using csV V assms(5) by auto
  next
    case False
    then have hne: "?h \<noteq> 0" using V(2) by (metis unat_0)
    define q where "q = (score - cs) * ?h div (?V - cs)"
    define mx where "mx = (if cs \<ge> score then ?h else ?h - q)"
    have m: "(if cs \<ge> score then Some ?h else do { q \<leftarrow> udiv ((score - cs) * ?h) (?V - cs); Some (?h - q) }) = Some mx"
      and mh: "unat mx \<le> hb"
    proof -
      have "?V - cs \<noteq> 0 \<and> unat q \<le> hb" if "\<not> score \<le> cs"
      proof -
        have lt: "cs < score" "score \<le> ?V" using that assms(5) V(1) by (simp_all add: word_le_nat_alt word_less_nat_alt)
        then have "unat (score - cs) \<le> unat (?V - cs)"
          by (simp add: unat_sub word_le_nat_alt word_less_nat_alt)
        then have "unat q \<le> unat ?h" unfolding q_def by (rule wrapped_share_left)
        moreover have "?V - cs \<noteq> 0" using lt by auto
        ultimately show ?thesis using V(2) by simp
      qed
      then show "(if cs \<ge> score then Some ?h else do { q \<leftarrow> udiv ((score - cs) * ?h) (?V - cs); Some (?h - q) }) = Some mx"
        "unat mx \<le> hb" using V(2) by (auto simp: mx_def q_def udiv_Some unat_sub word_le_nat_alt)
    qed
    obtain c where c: "hash_loop hb mx (\<lambda>i. fi \<le> i \<and> i \<le> li) 0 ns (replicate hb False) 0 = Some c"
      using hash_loop_defined [of hb "replicate hb False" mx "\<lambda>i. fi \<le> i \<and> i \<le> li" 0 ns 0] False by auto
    have "unat ((?V - cs) * (?h - c) div ?h) \<le> unat (?V - cs)" if "c \<le> mx"
    proof (rule wrapped_share)
      have "unat c \<le> unat ?h" using that mh V(2) by (simp add: word_le_nat_alt)
      then show "unat (?h - c) \<le> unat ?h" by (simp add: unat_sub word_le_nat_alt)
    qed
    from unat_add_le [OF csV this] have "unat (cs + (?V - cs) * (?h - c) div ?h) \<le> VERTEX_SIZE cfg" if "c \<le> mx"
      using that V(1) by simp
    then show ?thesis
      unfolding ScoreCount_def Let_def li_def [symmetric] unfolding fi_def [symmetric] rd bind.bind_lunit m
      using False c hne assms(5) by (auto simp: udiv_Some)
  qed
qed

end
