(* ===== verification/Delta_Encode_Laws.thy ===== *)
theory Delta_Encode_Laws
  imports Delta_Score Slot_Encoder
begin

text \<open>
  What an encoding of \<^verbatim>\<open>DeltaSIMDEncode\<close> holds, and that the tests read it. The locale \<open>delta_encoder\<close> is what
  the three versions have in common; it extends the contract of the codecs by the bytes that
  \<^verbatim>\<open>DynamicChoose\<close> counts.
\<close>

section \<open>Bytes and bits\<close>

lemma byte_eq_bits:
  assumes "\<And>t. t < 8 \<Longrightarrow> bitat e (8 * i + t) = bitat e' (8 * i + t)"
  shows "bs_data e ! i = bs_data e' ! i"
proof (rule bit_word_eqI)
  fix k :: nat assume "k < LENGTH(8)"
  then have k: "7 - k < 8" "7 - (7 - k) = k" by simp_all
  from assms [OF k(1)] show "bit (bs_data e ! i) k = bit (bs_data e' ! i) k"
    unfolding bitat_byte [OF k(1)] k(2) .
qed

lemma bitat_bytes_same:
  assumes "bs_data e ! (p div 8) = bs_data e' ! (p div 8)"
  shows "bitat e p = bitat e' p"
  using assms by (simp add: bitat_def)

lemma enc_at_cong:
  assumes "enc_at mem kp dp vs" "length mem' = length mem" "\<And>i. kp \<le> i \<Longrightarrow> i < dp + data_off vs (length vs) \<Longrightarrow> mem' ! i = mem ! i"
    "kp + (length vs + 3) div 4 \<le> dp"
  shows "enc_at mem' kp dp vs"
proof -
  have "mem' ! (dp + data_off vs k + j) = mem ! (dp + data_off vs k + j)" if "k < length vs" "j < GetOneEncodeLength (vs ! k)" for k j
  proof (rule assms(3))
    have "data_off vs (Suc k) \<le> data_off vs (length vs)" using that(1) by (intro data_off_mono) simp
    then show "dp + data_off vs k + j < dp + data_off vs (length vs)" using that data_off_Suc [OF that(1)] by simp
  qed (use assms(4) in simp)
  then show ?thesis using assms(1-4) by (auto simp: enc_at_def enc_keys_def enc_data_def)
qed

lemma GetFirstBit_eq: "wf_bs e \<Longrightarrow> 1 \<le> bs_size e \<Longrightarrow> GetFirstBit e = Some (bitat e 0)"
proof -
  assume "wf_bs e" "1 \<le> bs_size e"
  then have "0 < length (bs_data e)" by simp
  moreover have "(0x80 :: u8) = push_bit 7 1" by simp
  ultimately show ?thesis unfolding GetFirstBit_def by (simp only: aget_Some bind.bind_lunit and_single_bit) (simp add: bitat_def)
qed

lemma Delta_GetBlockModel_eq:
  "wf_bs e \<Longrightarrow> 1 \<le> bs_size e \<Longrightarrow> Delta_GetBlockModel e = Some (if bitat e 1 then RightMost else if bitat e 2 then Middle else LeftMost)"
  using GetBlockModel_enc_eq [of e] by (simp add: Delta_GetBlockModel_def GetBlockModel_enc_def)

lemma GetEncodeSize_eq:
  assumes "wf_bs e" "1 \<le> bs_size e"
  shows "GetEncodeSize e = Some (block_val e 3 5)"
proof -
  have m: "bit (0x1F :: u8) k \<longleftrightarrow> k < 5" for k
    using bit_mask_iff [where 'a = u8, of 5 k] by (auto simp: mask_eq_exp_minus_1 dest: bit_imp_le_length)
  have "ucast (bs_data e ! 0 AND 0x1F) = block_val e 3 5"
  proof (rule bit_word_eqI)
    fix k :: nat
    have "bitat e (3 + 5 - 1 - k) = bit (bs_data e ! 0) k" if "k < 5"
      using bitat_byte [of "7 - k" e 0] that by simp
    then show "bit (ucast (bs_data e ! 0 AND 0x1F) :: u32) k = bit (block_val e 3 5) k"
      unfolding bit_block_val bit_ucast_iff bit_and_iff m by auto
  qed
  then show ?thesis using assms by (simp add: GetEncodeSize_def aget_def)
qed

lemma Delta_SetBlockModel_eq: "Delta_SetBlockModel e t = SetBlockModel e t"
  by (cases t) simp_all

lemma Delta_Hash_eq:
  assumes "wf_config cfg" "h < PER_ENCODE_BIT_SIZE cfg"
  shows "Delta_Hash cfg v h = Some (hash_slot cfg h v)"
  using HybridHash_eq [OF assms] by (simp add: Delta_Hash_def HybridHash_def)

section \<open>What an encoding holds\<close>

text \<open>At most ten words per vertex keep the number of integers in its five bits; identifiers below \<open>2 ^ 31\<close>
  keep the signed comparisons of the codec right.\<close>

definition delta_config :: "config \<Rightarrow> bool" where
  "delta_config cfg \<longleftrightarrow> wf_config cfg \<and> K_SIZE cfg \<le> 10 \<and> VERTEX_SIZE cfg < 2 ^ 31"

definition delta_ids :: "config \<Rightarrow> u32 list \<Rightarrow> bool" where
  "delta_ids cfg ns \<longleftrightarrow> good_ids cfg ns \<and> distinct ns"

definition delta_len :: "gen \<Rightarrow> u32 list \<Rightarrow> nat" where
  "delta_len gen ns = (length ns + 3) div 4 + data_off (gen_values gen 0 0 ns) (length ns)"

definition delta_region :: "gen \<Rightarrow> bitset \<Rightarrow> u32 list \<Rightarrow> bool" where
  "delta_region gen e ns \<longleftrightarrow> block_val e 3 5 = of_nat (length ns) \<and> length ns < 32 \<and>
     (ns \<noteq> [] \<longrightarrow> enc_at (bs_data e) 1 (1 + (length ns + 3) div 4) (gen_values gen 0 0 ns))"

definition delta_hash_begin :: "gen \<Rightarrow> u32 list \<Rightarrow> nat" where
  "delta_hash_begin gen m = (1 + delta_len gen m) * 8"

definition delta_hashed :: "gen \<Rightarrow> config \<Rightarrow> bitset \<Rightarrow> u32 list \<Rightarrow> u32 list \<Rightarrow> bool" where
  "delta_hashed gen cfg e m left \<longleftrightarrow> delta_hash_begin gen m \<le> PER_ENCODE_BIT_SIZE cfg \<and>
     (delta_hash_begin gen m < PER_ENCODE_BIT_SIZE cfg \<longrightarrow> (\<forall>v \<in> set left. bitat e (hash_slot cfg (delta_hash_begin gen m) v)))"

definition delta_encodes :: "gen \<Rightarrow> config \<Rightarrow> bitset \<Rightarrow> u32 list \<Rightarrow> bool" where
  "delta_encodes gen cfg e ns \<longleftrightarrow> wf_enc cfg e \<and>
     ((bitat e 0 \<and> delta_region gen e ns) \<or>
      (\<exists>type a m c. ns = a @ m @ c \<and> type_ok type a m c \<and> \<not> bitat e 0 \<and> (bitat e 1, bitat e 2) = model_bits type \<and>
         delta_region gen e m \<and> delta_hashed gen cfg e m (a @ c)))"

lemma delta_configD:
  assumes "delta_config cfg"
  shows "wf_config cfg" "K_SIZE cfg \<le> 10" "VERTEX_SIZE cfg < 2 ^ 31" "max_bytes_len cfg = 4 * K_SIZE cfg - 1"
    "PER_ENCODE_BIT_SIZE cfg = 8 * (1 + max_bytes_len cfg)" "max_bytes_len cfg \<le> 39" "0 < max_bytes_len cfg"
proof -
  show cfg: "wf_config cfg" "K_SIZE cfg \<le> 10" "VERTEX_SIZE cfg < 2 ^ 31" using assms by (simp_all add: delta_config_def)
  note P = wf_configD(1,13) [OF cfg(1)]
  then show m: "max_bytes_len cfg = 4 * K_SIZE cfg - 1" by (simp add: max_bytes_len_def)
  show "PER_ENCODE_BIT_SIZE cfg = 8 * (1 + max_bytes_len cfg)" using P by (simp add: m)
  show "max_bytes_len cfg \<le> 39" "0 < max_bytes_len cfg" using P(2) cfg(2) unfolding m by linarith+
qed

text \<open>Every value takes at least one byte, so few values fit.\<close>

lemma data_off_ge: "k \<le> length vs \<Longrightarrow> k \<le> data_off vs k"
proof (induction k)
  case (Suc k)
  then have "k \<le> data_off vs k" "1 \<le> GetOneEncodeLength (vs ! k)" by simp_all
  then have "k + 1 \<le> data_off vs k + GetOneEncodeLength (vs ! k)" by (rule add_mono)
  then show ?case using Suc.prems by (simp add: data_off_Suc)
qed simp

lemma delta_len_bound:
  assumes "delta_config cfg" "delta_len gen m \<le> max_bytes_len cfg"
  shows "length m < 32" "data_off (gen_values gen 0 0 m) (length m) < 256"
proof -
  have le: "delta_len gen m \<le> 39" using assms(2) delta_configD(6) [OF assms(1)] by simp
  then show "data_off (gen_values gen 0 0 m) (length m) < 256" by (simp add: delta_len_def)
  have "length m \<le> data_off (gen_values gen 0 0 m) (length m)" by (intro data_off_ge) simp
  then have "(length m + 3) div 4 + length m \<le> 39" using le by (simp add: delta_len_def)
  then show "length m < 32" by linarith
qed

lemma delta_ids_searchable:
  assumes "delta_config cfg" "delta_ids cfg (a @ m @ c)" "m \<noteq> []"
  shows "searchable m"
proof -
  have "sorted m" "distinct m" using assms(2) by (simp_all add: delta_ids_def good_ids_def sorted_append)
  then have "sorted_wrt (<) m" by (simp add: strict_sorted_iff)
  moreover have "unat x < 2 ^ 31" if "x \<in> set m" for x
  proof -
    have "unat x \<le> VERTEX_SIZE cfg" using assms(2) that by (simp add: delta_ids_def good_ids_def)
    then show ?thesis using delta_configD(3) [OF assms(1)] by simp
  qed
  ultimately show ?thesis using assms(3) by (simp add: searchable_def)
qed

section \<open>Testing\<close>

lemma block_model_read:
  assumes "(bitat e 1, bitat e 2) = model_bits type" "type \<noteq> FullHash"
  shows "(if bitat e 1 then RightMost else if bitat e 2 then Middle else LeftMost) = type"
  using assms by (cases type) auto

text \<open>A search of a run of the neighbours that reports anything but a position outside on the open side decides
  the whole list.\<close>

lemma find_spec_outside:
  assumes "delta_ids cfg (a @ m @ c)" "type_ok type a m c" "m \<noteq> []" "v \<notin> set m"
    "find_code (find_spec m v) AND block_code type \<noteq> 0"
  shows "v \<notin> set (a @ m @ c)"
proof -
  have s: "sorted (a @ m @ c)" using assms(1) by (simp add: delta_ids_def good_ids_def)
  have "x \<le> hd m" if "x \<in> set a" for x using s that assms(3) by (simp add: sorted_append)
  moreover have "last m \<le> x" if "x \<in> set c" for x using s that assms(3) by (simp add: sorted_append)
  moreover have "hd m \<le> last m" using s assms(3) by (cases m) (auto simp: sorted_append)
  moreover have "hd m \<noteq> v" "last m \<noteq> v" using assms(3,4) by auto
  ultimately have a: "v \<in> set a \<Longrightarrow> v < hd m" and c: "v \<in> set c \<Longrightarrow> last m < v" and hl: "hd m \<le> last m"
    by (auto simp: order_less_le)
  have "(2 :: nat) AND 8 = 0" "(4 :: nat) AND 8 = 0" "(2 :: nat) AND 4 = 0" "(4 :: nat) AND 2 = 0" "(2 :: nat) AND 1 = 0" "(4 :: nat) AND 1 = 0"
    by (simp_all add: bit_eq_iff)
  then have out: "find_spec m v = LESS_THAN_MIN \<Longrightarrow> type = LeftMost" "find_spec m v = GRATER_THAN_MAX \<Longrightarrow> type = RightMost"
    using assms(5) by (cases type; simp)+
  have "v \<notin> set a \<and> v \<notin> set c"
  proof (cases "v < hd m")
    case True
    then have "type = LeftMost" using out(1) assms(4) by (simp add: find_spec_def)
    then show ?thesis using assms(2) c True hl by (auto simp: type_ok_def)
  next
    case False
    show ?thesis
    proof (cases "last m < v")
      case True
      then have "type = RightMost" using out(2) assms(4) False by (simp add: find_spec_def)
      then show ?thesis using assms(2) a False by (auto simp: type_ok_def)
    qed (use False a c in auto)
  qed
  then show ?thesis using assms(4) by simp
qed

locale delta_encoder = delta_codec gen rec for gen :: gen and rec :: recover +
  fixes C :: delta_class and keep :: "u32 list \<Rightarrow> u32 \<Rightarrow> bool"
  assumes class_encode: "dc_encode_array C = EncodeArray (EncodeDeltas gen)"
    and class_find: "dc_find C = FindWithCount rec"
    and class_bytes: "ns \<noteq> [] \<Longrightarrow> ParseEncode ns = Some infos \<Longrightarrow> dc_bytes C ns infos = Some (delta_len gen ns)"
    and class_first: "stored [x] = [x]" "keep [x] x"
    and class_grow: "m \<noteq> [] \<Longrightarrow> keep m pv \<Longrightarrow> val_bits info = GetOneEncodeLength x \<Longrightarrow>
      delta_bits info = GetOneEncodeLength (x - last m) \<Longrightarrow>
      \<exists>pv'. dc_grow C info x (length m + 1) pv = (GetOneEncodeLength (last (stored (m @ [x]))), pv') \<and> keep (m @ [x]) pv'"
begin

lemma region_find:
  assumes "delta_region gen e m" "searchable m" "unat v < 2 ^ 31"
  shows "dc_find C pad (bs_data e) 1 (length m) v = Some (find_spec m v)"
proof -
  have "m \<noteq> []" using assms(2) by (simp add: searchable_def)
  then show ?thesis unfolding class_find
    using assms by (intro FindWithCount_correct) (simp_all add: delta_region_def)
qed

lemma region_size:
  assumes "wf_bs e" "1 \<le> bs_size e" "delta_region gen e m"
  shows "\<exists>n. GetEncodeSize e = Some n \<and> unat n = length m \<and> (n = 0 \<longleftrightarrow> m = [])"
proof -
  have "unat (of_nat (length m) :: u32) = length m" using assms(3) by (simp add: delta_region_def unat_of_nat)
  moreover have "GetEncodeSize e = Some (of_nat (length m))" using GetEncodeSize_eq [OF assms(1,2)] assms(3) by (simp add: delta_region_def)
  ultimately show ?thesis by (metis length_0_conv unat_0 word_unat_eq_iff)
qed

lemma FindDecodable_correct:
  assumes "delta_config cfg" "delta_ids cfg ns" "wf_enc cfg e" "delta_region gen e ns" "unat v < 2 ^ 31"
  shows "FindDecodable C pad e v = Some (if v \<in> set ns then Neighbor else NonNeighbor)"
proof -
  have e: "wf_bs e" "1 \<le> bs_size e" using assms(3) wf_configD(13) [OF delta_configD(1) [OF assms(1)]] by (simp_all add: wf_enc_def)
  obtain n where n: "GetEncodeSize e = Some n" "unat n = length ns" "n = 0 \<longleftrightarrow> ns = []" using region_size [OF e assms(4)] by blast
  show ?thesis
  proof (cases "ns = []")
    case False
    then have "searchable ns" using delta_ids_searchable [OF assms(1), of "[]" ns "[]"] assms(2) by simp
    from region_find [OF assms(4) this assms(5), of pad] False n show ?thesis
      by (auto simp: FindDecodable_def find_spec_def)
  qed (use n in \<open>simp add: FindDecodable_def\<close>)
qed

lemma hash_answer_sound:
  assumes "delta_config cfg" "wf_enc cfg e" "delta_hashed gen cfg e m left" "h = delta_hash_begin gen m" "h \<noteq> PER_ENCODE_BIT_SIZE cfg"
  shows "\<exists>r. do { p \<leftarrow> Delta_Hash cfg v h; b \<leftarrow> IsOne e p; Some (if b then Uncertain else NonNeighbor) } = Some r \<and>
    r \<noteq> Neighbor \<and> (r = NonNeighbor \<longrightarrow> v \<notin> set left)"
proof -
  note w = wf_encD [OF delta_configD(1) [OF assms(1)] assms(2)]
  have h: "h < PER_ENCODE_BIT_SIZE cfg" using assms(3-5) by (simp add: delta_hashed_def)
  show ?thesis using Delta_Hash_eq [OF delta_configD(1) [OF assms(1)] h, of v] w hash_slot_bounds(2) [OF h, of v] assms(3,4) h
    by (auto simp: delta_hashed_def)
qed

lemma FindNonDecodable_sound:
  assumes "delta_config cfg" "delta_ids cfg (a @ m @ c)" "wf_enc cfg e" "type_ok type a m c"
    "(bitat e 1, bitat e 2) = model_bits type" "delta_region gen e m" "delta_hashed gen cfg e m (a @ c)" "unat v < 2 ^ 31"
  shows "\<exists>r. FindNonDecodable cfg C pad e v = Some r \<and> answer_ok r (v \<in> set (a @ m @ c))"
proof -
  have e: "wf_bs e" "1 \<le> bs_size e" using assms(3) wf_configD(13) [OF delta_configD(1) [OF assms(1)]] by (simp_all add: wf_enc_def)
  obtain n where n: "GetEncodeSize e = Some n" "unat n = length m" "n = 0 \<longleftrightarrow> m = []" using region_size [OF e assms(6)] by blast
  show ?thesis
  proof (cases "m = []")
    case True
    have "delta_hash_begin gen [] = 8" by (simp add: delta_hash_begin_def delta_len_def)
    moreover have "8 \<noteq> PER_ENCODE_BIT_SIZE cfg" using delta_configD(5,7) [OF assms(1)] by simp
    ultimately show ?thesis using hash_answer_sound [OF assms(1,3,7), of 8 v] True n by (auto simp: FindNonDecodable_def answer_ok_def)
  next
    case False
    have ty: "type \<noteq> FullHash" using assms(4) False by (auto simp: type_ok_def)
    have model: "Delta_GetBlockModel e = Some type" using Delta_GetBlockModel_eq [OF e] block_model_read [OF assms(5) ty] by simp
    have "searchable m" using delta_ids_searchable [OF assms(1,2) False] .
    note find = region_find [OF assms(6) this assms(8), of pad]
    have ne: "stored m \<noteq> []" using False by (metis length_0_conv length_gen_values)
    have len: "GetEncodeLength (bs_data e) 1 (length m) = Some (delta_len gen m)"
      using GetEncodeLength_correct [OF _ ne] assms(6) False by (auto simp: delta_region_def delta_len_def)
    define h where "h = (1 + delta_len gen m) * 8"
    have run: "FindNonDecodable cfg C pad e v =
        (if find_code (find_spec m v) = 0 then Some Neighbor
         else if find_code (find_spec m v) AND block_code type \<noteq> 0 then Some NonNeighbor
         else if h = PER_ENCODE_BIT_SIZE cfg then Some Uncertain
         else do { p \<leftarrow> Delta_Hash cfg v h; b \<leftarrow> IsOne e p; Some (if b then Uncertain else NonNeighbor) })"
      using n False model find len by (simp add: FindNonDecodable_def Let_def h_def)
    have z: "find_code (find_spec m v) = 0 \<longleftrightarrow> v \<in> set m" by (simp add: find_spec_def)
    show ?thesis
    proof (cases "v \<in> set m \<or> find_code (find_spec m v) AND block_code type \<noteq> 0 \<or> h = PER_ENCODE_BIT_SIZE cfg")
      case True
      then show ?thesis unfolding run using z find_spec_outside [OF assms(2,4) False, of v] by auto
    next
      case no: False
      then show ?thesis unfolding run
        using z hash_answer_sound [OF assms(1,3,7), of h v] by (auto simp: h_def delta_hash_begin_def answer_ok_def)
    qed
  qed
qed

lemma test_sound:
  assumes "delta_config cfg" "delta_ids cfg ns" "delta_encodes gen cfg (st ! unat u) ns" "unat u < length st" "unat v < 2 ^ 31"
  shows "\<exists>r. Delta_NonNeighborTest C pad cfg st u v = Some r \<and> answer_ok r (v \<in> set ns)"
proof -
  let ?e = "st ! unat u"
  have wf: "wf_enc cfg ?e" using assms(3) by (simp add: delta_encodes_def)
  have e: "wf_bs ?e" "1 \<le> bs_size ?e" using wf wf_configD(13) [OF delta_configD(1) [OF assms(1)]] by (simp_all add: wf_enc_def)
  have dec: "Delta_IsDecodable st u = Some (bitat ?e 0)" using GetFirstBit_eq [OF e] assms(4) by (simp add: Delta_IsDecodable_def)
  show ?thesis
  proof (cases "bitat ?e 0")
    case True
    then have "delta_region gen ?e ns" using assms(3) by (auto simp: delta_encodes_def)
    from FindDecodable_correct [OF assms(1,2) wf this assms(5), of pad] True dec assms(4) show ?thesis
      by (auto simp: Delta_NonNeighborTest_def)
  next
    case False
    with assms(3) obtain type a m c where "ns = a @ m @ c" "type_ok type a m c" "(bitat ?e 1, bitat ?e 2) = model_bits type"
      "delta_region gen ?e m" "delta_hashed gen cfg ?e m (a @ c)" by (auto simp: delta_encodes_def)
    with FindNonDecodable_sound [OF assms(1) _ wf this(2-5) assms(5), of pad] assms(2) False dec assms(4) show ?thesis
      by (auto simp: Delta_NonNeighborTest_def)
  qed
qed

end

end
