(* ===== verification/Delta_V3_Laws.thy ===== *)
theory Delta_V3_Laws
  imports Delta_V3 Delta_Lengths Delta_Encode_Laws
begin

text \<open>
  The third codec: its table of orders, what its search trees give a search, and that a search without
  \<^verbatim>\<open>HSIMD\<close> ends with an answer of which only \<^verbatim>\<open>NOT_EXIST\<close> can be wrong.
\<close>

section \<open>The trees\<close>

text \<open>What a search relies on: the first child of a node is a later node, every node that has children has
  a mask, and the root has one for each of its children.\<close>

definition tree_ok :: "SearchTree \<Rightarrow> bool" where
  "tree_ok T \<longleftrightarrow> length (nodes T) = groups T \<and> 0 < groups T \<and>
     list_all (\<lambda>p. let n = nodes T ! p in tn_idx n = p \<and>
       (case children n of None \<Rightarrow> True
        | Some cs \<Rightarrow> cs \<noteq> [] \<and> masks n \<noteq> [] \<and> p + 1 < groups T \<and> list_all (\<lambda>c. p < c \<and> c < groups T) cs)) [0..<groups T] \<and>
     (case children (nodes T ! 0) of None \<Rightarrow> True | Some cs \<Rightarrow> length cs \<le> length (masks (nodes T ! 0)))"

lemma trees_ok: "list_all (\<lambda>n. case trees_ary n of Some T \<Rightarrow> groups T = (n + 3) div 4 \<and> tree_ok T | None \<Rightarrow> False) [1..<41]"
  by code_simp

lemma trees_aryE:
  assumes "1 \<le> n" "n \<le> 40"
  obtains T where "trees_ary n = Some T" "groups T = (n + 3) div 4" "tree_ok T"
proof -
  have "n \<in> set [1..<41]" using assms by simp
  then have "case trees_ary n of Some T \<Rightarrow> groups T = (n + 3) div 4 \<and> tree_ok T | None \<Rightarrow> False"
    using trees_ok unfolding list_all_iff by blast
  then show thesis using that by (cases "trees_ary n") simp_all
qed

lemma tree_node:
  assumes "tree_ok T" "p < groups T"
  obtains n where "aget (nodes T) p = Some n" "tn_idx n = p"
    "\<And>cs. children n = Some cs \<Longrightarrow> \<exists>c cs' m ms. cs = c # cs' \<and> masks n = m # ms \<and> p + 1 < groups T \<and> p < c \<and> c < groups T"
proof -
  let ?n = "nodes T ! p"
  have "p \<in> set [0..<groups T]" using assms(2) by simp
  then have node: "tn_idx ?n = p \<and> (case children ?n of None \<Rightarrow> True
      | Some cs \<Rightarrow> cs \<noteq> [] \<and> masks ?n \<noteq> [] \<and> p + 1 < groups T \<and> list_all (\<lambda>c. p < c \<and> c < groups T) cs)"
    using assms(1) unfolding tree_ok_def list_all_iff [of _ "[0..<groups T]"] Let_def by blast
  show thesis
  proof (rule that)
    show "aget (nodes T) p = Some ?n" using assms by (simp add: tree_ok_def)
    show "tn_idx ?n = p" using node by simp
    show "\<exists>c cs' m ms. cs = c # cs' \<and> masks ?n = m # ms \<and> p + 1 < groups T \<and> p < c \<and> c < groups T" if "children ?n = Some cs" for cs
      using node that by (cases cs; cases "masks ?n") auto
  qed
qed

lemma root_child_less:
  assumes "tree_ok T" "children (nodes T ! 0) = Some cs" "c \<in> set cs"
  shows "c < groups T"
proof -
  have "0 \<in> set [0..<groups T]" using assms(1) by (simp add: tree_ok_def)
  then have "list_all (\<lambda>c. 0 < c \<and> c < groups T) cs"
    using assms(1,2) unfolding tree_ok_def list_all_iff [of _ "[0..<groups T]"] Let_def by fastforce
  then show ?thesis using assms(3) by (simp add: list_all_iff)
qed

section \<open>The table of orders\<close>

lemma order_rows:
  "list_all (\<lambda>n. let r = ary_order ! (n - 1) in
     length r = 40 \<and> list_all (\<lambda>j. j < n) (take n r) \<and> r ! 0 = 0 \<and> (if n \<le> 4 then take n r = [0..<n] else r ! 3 = n - 1)) [1..<41]"
  by code_simp

lemma length_ary_order: "length ary_order = 40"
  by code_simp

lemma order_row:
  assumes "1 \<le> n" "n \<le> 40"
  defines "r \<equiv> ary_order ! (n - 1)"
  shows "aget ary_order (n - 1) = Some r" "length r = 40" "\<And>c. c < n \<Longrightarrow> r ! c < n" "r ! 0 = 0"
    "\<And>c. n \<le> 4 \<Longrightarrow> c < n \<Longrightarrow> r ! c = c" "4 < n \<Longrightarrow> r ! 3 = n - 1"
proof -
  have "n \<in> set [1..<41]" using assms(1,2) by simp
  then have row: "length r = 40 \<and> list_all (\<lambda>j. j < n) (take n r) \<and> r ! 0 = 0 \<and> (if n \<le> 4 then take n r = [0..<n] else r ! 3 = n - 1)"
    using order_rows unfolding list_all_iff [of _ "[1..<41]"] Let_def r_def by blast
  show "aget ary_order (n - 1) = Some r" using assms(1,2) by (simp add: aget_def length_ary_order r_def)
  show "length r = 40" "r ! 0 = 0" using row by simp_all
  show "r ! c < n" if "c < n" for c using row that assms(2) by (auto simp: list_all_length)
  show "r ! c = c" if "n \<le> 4" "c < n" for c
  proof -
    have "take n r ! c = c" using row that by simp
    then show ?thesis using that by simp
  qed
  show "r ! 3 = n - 1" if "4 < n" using row that by simp
qed

text \<open>The integers in the order of the tree.\<close>

definition v3_list :: "u32 list \<Rightarrow> u32 list" where
  "v3_list xs = map (\<lambda>c. xs ! (ary_order ! (length xs - 1) ! c)) [0..<length xs]"

lemma length_v3_list [simp]: "length (v3_list xs) = length xs"
  by (simp add: v3_list_def)

lemma v3_list_nth:
  assumes "length xs \<le> 40" "c < length xs"
  shows "v3_list xs ! c = xs ! (ary_order ! (length xs - 1) ! c)" "v3_list xs ! c \<in> set xs"
proof -
  show nth: "v3_list xs ! c = xs ! (ary_order ! (length xs - 1) ! c)" using assms(2) by (simp add: v3_list_def)
  have "ary_order ! (length xs - 1) ! c < length xs" using assms by (intro order_row(3)) simp_all
  then show "v3_list xs ! c \<in> set xs" unfolding nth by simp
qed

lemma EncodeDeltasV3_law:
  assumes "xs \<noteq> []" "length xs \<le> 40" "out + delta_len GenValueV2 (v3_list xs) \<le> length mem0" "delta_len GenValueV2 (v3_list xs) < 256"
  shows "\<exists>mem. EncodeArray EncodeDeltasV3 xs mem0 out = Some (mem, delta_len GenValueV2 (v3_list xs)) \<and> length mem = length mem0 \<and>
    enc_at mem out (out + (length xs + 3) div 4) (gen_values GenValueV2 0 0 (v3_list xs))"
proof -
  let ?ys = "v3_list xs"
  define r where "r = ary_order ! (length xs - 1)"
  have n: "1 \<le> length xs" using assms(1) by (cases xs) auto
  note row = order_row [OF n assms(2), folded r_def]
  have ne: "?ys \<noteq> []" using assms(1) by (metis length_0_conv length_v3_list)
  have room: "out + (length ?ys + 3) div 4 \<le> out + (length xs + 3) div 4"
    "out + (length xs + 3) div 4 + data_off (gen_values GenValueV2 0 0 ?ys) (length ?ys) \<le> length mem0"
    using assms(3) by (simp_all add: delta_len_def)
  have inp: "do { j \<leftarrow> aget r c; aget xs j } = Some (?ys ! c)" if "c < length ?ys" for c
  proof -
    have c: "c < length xs" using that by simp
    show ?thesis using c row(2) row(3) [OF c] assms(2) v3_list_nth(1) [OF assms(2), of c, folded r_def] by (simp add: aget_def)
  qed
  from EncodeDeltas_loop_law [where inp = "\<lambda>c. do { j \<leftarrow> aget r c; aget xs j }", OF ne room inp] assms(4) obtain mem where
    "EncodeDeltas_loop GenValueV2 (\<lambda>c. do { j \<leftarrow> aget r c; aget xs j }) mem0 out (out + (length xs + 3) div 4) (length xs) =
      Some (mem, data_off (gen_values GenValueV2 0 0 ?ys) (length xs))" "length mem = length mem0"
    "enc_at mem out (out + (length xs + 3) div 4) (gen_values GenValueV2 0 0 ?ys)" by (auto simp: delta_len_def)
  then show ?thesis using row(1) assms(1,2) by (simp add: EncodeArray_def EncodeDeltasV3_def delta_len_def Let_def)
qed

section \<open>The search\<close>

lemma v3_group:
  assumes "enc_at mem kp dp (gen_values GenValueV2 0 0 ys)" "4 * g < length ys"
  shows "\<exists>k d. aget mem (kp + g) = Some k \<and> DecodeData_lanes pad mem k (dp + data_off (gen_values GenValueV2 0 0 ys) (4 * g)) = Some d \<and>
    holds_group ys g (RecoveryFromDeltaV3 d)"
proof -
  define pre where "pre = (if g = 0 then replicate 4 0 else replicate 4 (ys ! (4 * g - 1)))"
  have pre: "length pre = 4" "if g = 0 then pre = replicate 4 0 else pre ! 3 = ys ! (4 * g - 1)" by (simp_all add: pre_def)
  from v2.decode_group [OF assms pre, of pad] obtain k d p where "aget mem (kp + g) = Some k"
    "DecodeData pad mem k (dp + data_off (gen_values GenValueV2 0 0 ys) (4 * g)) = Some (d, p)" "holds_group ys g (RecoveryFromDeltaV2 d pre)" by blast
  then show ?thesis by (auto simp: DecodeData_def RecoveryFromDeltaV2_def RecoveryFromDeltaV3_def split: bind_splits)
qed

lemma countByteLen_eq:
  assumes "enc_at mem kp dp vs" "g = (length vs + 3) div 4" "0 < g" "g < 2 ^ 32"
  shows "countByteLen mem kp g = Some (map (\<lambda>i. data_off vs (4 * i)) [0..<g])"
proof -
  have "foldo (\<lambda>i len. do { b \<leftarrow> aget mem (kp + i); l \<leftarrow> aget lengthTable (unat b); prev \<leftarrow> aget len i; Some (len @ [prev + l]) }) [0..<k] [0] =
      Some (map (\<lambda>i. data_off vs (4 * i)) [0..<Suc k])" if "k < g" for k
    using that
  proof (induction k)
    case (Suc k)
    have full: "length (quad vs k) = 4" using Suc.prems assms(2) by (simp add: length_quad)
    have "aget mem (kp + k) = Some (key_of (quad vs k))" using assms(1,2) Suc.prems by (auto simp: enc_at_def enc_keys_def aget_def)
    moreover have "data_off vs (4 * Suc k) = data_off vs (4 * k) + gstart (quad vs k) 4"
      using data_off_group [of 4 vs k] full by (simp add: add.commute)
    ultimately show ?case using Suc full lengthTable_glen [of "quad vs k"] by (simp add: foldo_append nth_append aget_def)
  qed simp
  from this [of "g - 1"] assms(3,4) show ?thesis by (simp add: countByteLen_def)
qed

text \<open>What a comparison for equality finds.\<close>

lemma eq_full:
  assumes "holds_group ys g d" "4 * g + 4 \<le> length ys" "cmpeq_mask d v \<noteq> 0"
  shows "v \<in> set ys"
proof -
  have len: "length (map (\<lambda>x. x = v) d) = 4" using assms(1) by (simp add: holds_group_def)
  obtain i where i: "i < 4" "map (\<lambda>x. x = v) d ! i" using unmasked(1) [OF len] assms(3) by (auto simp: cmpeq_mask_def)
  have "i < length (quad ys g)" using i(1) assms(2) by (simp add: length_quad)
  then have "ys ! (4 * g + i) = v" using holds_group_eq [OF assms(1)] i(2) by blast
  then show ?thesis using i(1) assms(2) by (metis add_less_cancel_left nth_mem order_less_le_trans)
qed

lemma eq_masked:
  assumes "holds_group ys g d" "4 * g < length ys" "length ys \<le> 4 * g + 4"
    "cmpeq_mask d v AND LAST_COMPARE_MASK ! (length ys mod 4) \<noteq> 0"
  shows "v \<in> set ys"
proof -
  define r where "r = length (quad ys g)"
  have r: "length ys = 4 * g + r" "1 \<le> r" "r \<le> 4" using assms(2,3) by (auto simp: r_def length_quad)
  have md: "length ys mod 4 = r mod 4" using r(1) by simp
  have len: "length (map (\<lambda>x. x = v) d) = 4" using assms(1) by (simp add: holds_group_def)
  obtain i where i: "i < r" "map (\<lambda>x. x = v) d ! i" using masked(1) [OF len r(2,3)] assms(4) unfolding md cmpeq_mask_def by auto
  then have "ys ! (4 * g + i) = v" using holds_group_eq [OF assms(1)] by (simp add: r_def)
  then show ?thesis using i(1) r(1) by (metis add_less_cancel_left nth_mem)
qed

lemma DFS_sound:
  fixes ys :: "u32 list"
  defines "vs \<equiv> gen_values GenValueV2 0 0 ys"
  assumes "tree_ok T" "groups T = (length ys + 3) div 4" "enc_at mem kp dp vs" "groups T < 2 ^ 32"
    "lens = map (\<lambda>i. data_off vs (4 * i)) [0..<groups T]"
  shows "p < groups T \<Longrightarrow> groups T - p \<le> fuel \<Longrightarrow>
    \<exists>r. DFS fuel False pad T p v (length ys) lens mem kp dp = Some r \<and> (r = NOT_EXIST \<or> r = EXIST \<and> v \<in> set ys)"
proof (induction fuel arbitrary: p)
  case (Suc fuel)
  obtain n where n: "aget (nodes T) p = Some n" "tn_idx n = p"
    "\<And>cs. children n = Some cs \<Longrightarrow> \<exists>c cs' m ms. cs = c # cs' \<and> masks n = m # ms \<and> p + 1 < groups T \<and> p < c \<and> c < groups T"
    using tree_node [OF assms(2) Suc.prems(1)] by blast
  have p: "4 * p < length ys" using Suc.prems(1) assms(3) by simp
  obtain k d where kd: "aget mem (kp + p) = Some k" "DecodeData_lanes pad mem k (dp + data_off vs (4 * p)) = Some d"
    "holds_group ys p (RecoveryFromDeltaV3 d)" using v3_group [OF assms(4) [unfolded vs_def] p] unfolding vs_def by blast
  have lens: "aget lens p = Some (data_off vs (4 * p))" using assms(6) Suc.prems(1) by (simp add: aget_def)
  have l: "aget LAST_COMPARE_MASK (length ys mod 4) = Some (LAST_COMPARE_MASK ! (length ys mod 4))" by (simp add: aget_def LAST_COMPARE_MASK_def)
  have last: "length ys \<le> 4 * p + 4" if "p = wsub32 (groups T) 1" using that assms(3,5) Suc.prems(1) by simp
  have full: "4 * p + 4 \<le> length ys" if "p + 1 < groups T" using that assms(3) by simp
  have inner: "p \<noteq> wsub32 (groups T) 1 \<Longrightarrow> p + 1 < groups T" using assms(5) Suc.prems(1) by auto
  show ?case
  proof (cases "children n")
    case None
    then show ?thesis using n(1,2) kd(1,2) lens l inner full eq_full [OF kd(3)] eq_masked [OF kd(3) p] last
      by (auto simp: Let_def hsimd_hit_def assms(3) [symmetric])
  next
    case (Some cs)
    obtain c cs' m ms where c: "cs = c # cs'" "masks n = m # ms" "p + 1 < groups T" "p < c" "c < groups T" using n(3) [OF Some] by blast
    have "groups T - c \<le> fuel" using c(4,5) Suc.prems(2) by linarith
    from Suc.IH [OF c(5) this] show ?thesis using n(1,2) kd(1,2) lens c(1,2) Some eq_full [OF kd(3) full [OF c(3)]]
      by (auto simp: Let_def hsimd_hit_def)
  qed
qed simp

lemma root_children_sound:
  assumes "length cs \<le> length ms" "\<And>c. c \<in> set cs \<Longrightarrow> \<exists>r. dfs c = Some r \<and> P r" "P NOT_EXIST"
  shows "\<exists>r. root_children dfs msk ms cs = Some r \<and> P r"
  using assms(1,2) by (induction dfs msk ms cs rule: root_children.induct) (auto simp: assms(3))

lemma root_lanes:
  assumes "xs \<noteq> []" "length xs \<le> 40" "holds_group (v3_list xs) 0 d"
  shows "d ! 0 = hd xs" "4 < length xs \<Longrightarrow> d ! 3 = List.last xs" "length xs \<le> 4 \<Longrightarrow> holds_group xs 0 d" "length d = 4"
proof -
  have n: "1 \<le> length xs" using assms(1) by (cases xs) auto
  note row = order_row [OF n assms(2)]
  have d: "d ! i = v3_list xs ! i" if "i < 4" "i < length xs" for i using assms(3) that by (auto simp: holds_group_def length_quad)
  show "length d = 4" using assms(3) by (simp add: holds_group_def)
  show "d ! 0 = hd xs" using d [of 0] n v3_list_nth(1) [OF assms(2), of 0] row(4) assms(1) by (simp add: hd_conv_nth)
  show "d ! 3 = List.last xs" if "4 < length xs"
    using d [of 3] that v3_list_nth(1) [OF assms(2), of 3] row(6) assms(1) by (simp add: last_conv_nth)
  show "holds_group xs 0 d" if "length xs \<le> 4"
    using d that v3_list_nth(1) [OF assms(2)] row(5) \<open>length d = 4\<close> by (auto simp: holds_group_def length_quad)
qed

text \<open>The answers of a search that have to be right.\<close>

definition v3_answer :: "u32 list \<Rightarrow> u32 \<Rightarrow> FindRes \<Rightarrow> bool" where
  "v3_answer xs v r \<longleftrightarrow> (r = EXIST \<longrightarrow> v \<in> set xs) \<and> (r = LESS_THAN_MIN \<longrightarrow> v < hd xs) \<and> (r = GRATER_THAN_MAX \<longrightarrow> List.last xs < v)"

lemma lane_cmplt:
  assumes "length d = 4" "i < 4" "unat (d ! i) < 2 ^ 31" "unat v < 2 ^ 31"
  shows "cmplt_mask d v = 0 \<Longrightarrow> \<not> d ! i < v" "cmplt_mask d v = 15 \<Longrightarrow> d ! i < v"
proof -
  have len: "length (map (\<lambda>x. sint x < sint v) d) = 4" using assms(1) by simp
  have "map (\<lambda>x. sint x < sint v) d ! i = (d ! i < v)" using sint_less_small [OF assms(3,4)] assms(1,2) by simp
  then show "cmplt_mask d v = 0 \<Longrightarrow> \<not> d ! i < v" "cmplt_mask d v = 15 \<Longrightarrow> d ! i < v"
    using unmasked [OF len] assms(2) unfolding cmplt_mask_def by blast+
qed

lemma FindV3_small:
  assumes "searchable xs" "length xs \<le> 4" "unat v < 2 ^ 31" "holds_group xs 0 d"
  shows "v3_answer xs v (let l = LAST_COMPARE_MASK ! (length xs mod 4) in
     if cmpeq_mask d v AND l \<noteq> 0 then EXIST else if cmplt_mask d v AND l = 0 then LESS_THAN_MIN
     else if cmplt_mask d v AND l = (15 AND l) then GRATER_THAN_MAX else NOT_EXIST)"
proof -
  have ne: "xs \<noteq> []" using assms(1) by (simp add: searchable_def)
  have pos: "0 < length xs" using ne by simp
  have q: "length (quad xs 0) = length xs" using assms(2) by (simp add: length_quad)
  note m = group_masks [OF assms(1) _ assms(4,3), unfolded q, simplified, OF ne]
  let ?l = "LAST_COMPARE_MASK ! (length xs mod 4)"
  have "v \<in> set xs" if "cmpeq_mask d v AND ?l \<noteq> 0" using that m(3) by auto
  moreover have "v < hd xs" if "cmpeq_mask d v AND ?l = 0" "cmplt_mask d v AND ?l = 0"
  proof -
    have "xs ! 0 \<noteq> v" "\<not> xs ! 0 < v" using that m(1,3) pos by metis+
    then show ?thesis using ne by (simp add: hd_conv_nth not_less order_less_le)
  qed
  moreover have "List.last xs < v" if "cmplt_mask d v AND ?l = (15 AND ?l)" using that m(2) ne by (simp add: last_conv_nth)
  ultimately show ?thesis by (auto simp: v3_answer_def Let_def)
qed

text \<open>More than one group: the children of the root are searched with the data that \<^verbatim>\<open>countByteLen\<close> locates.\<close>

lemma FindV3_children:
  fixes xs :: "u32 list"
  defines "vs \<equiv> gen_values GenValueV2 0 0 (v3_list xs)" and "g \<equiv> (length xs + 3) div 4"
  assumes "length xs \<le> 40" "enc_at mem out (out + g) vs" "groups T = g" "tree_ok T" "nd = nodes T ! 0"
  shows "\<exists>r. root_children (\<lambda>c. DFS (groups T) False pad T c v (length xs) (map (\<lambda>i. data_off vs (4 * i)) [0..<g]) mem out (out + g)) msk (masks nd)
      (case children nd of None \<Rightarrow> [] | Some cs \<Rightarrow> cs) = Some r \<and> (r = NOT_EXIST \<or> r = EXIST \<and> v \<in> set xs)"
proof (rule root_children_sound)
  have sub: "v \<in> set xs" if "v \<in> set (v3_list xs)" for v using that v3_list_nth(2) [OF assms(3)] by (auto simp: in_set_conv_nth)
  fix c assume c: "c \<in> set (case children nd of None \<Rightarrow> [] | Some cs \<Rightarrow> cs)"
  obtain cs where "children (nodes T ! 0) = Some cs" "c \<in> set cs" using c assms(7) by (cases "children nd") auto
  then have "c < groups T" using root_child_less [OF assms(6)] by blast
  then have "\<exists>r. DFS (groups T) False pad T c v (length (v3_list xs)) (map (\<lambda>i. data_off vs (4 * i)) [0..<groups T]) mem out (out + g) = Some r \<and>
      (r = NOT_EXIST \<or> r = EXIST \<and> v \<in> set (v3_list xs))"
    unfolding vs_def using assms(3,5) by (intro DFS_sound [OF assms(6) _ assms(4) [unfolded vs_def]]) (simp_all add: g_def)
  then show "\<exists>r. DFS (groups T) False pad T c v (length xs) (map (\<lambda>i. data_off vs (4 * i)) [0..<g]) mem out (out + g) = Some r \<and>
      (r = NOT_EXIST \<or> r = EXIST \<and> v \<in> set xs)"
    using sub unfolding assms(5) length_v3_list by blast
next
  show "length (case children nd of None \<Rightarrow> [] | Some cs \<Rightarrow> cs) \<le> length (masks nd)" using assms(6,7) by (auto simp: tree_ok_def split: option.splits)
qed simp

lemma FindV3_large:
  fixes xs :: "u32 list"
  defines "vs \<equiv> gen_values GenValueV2 0 0 (v3_list xs)" and "g \<equiv> (length xs + 3) div 4"
  assumes "searchable xs" "length xs \<le> 40" "4 < length xs" "enc_at mem out (out + g) vs" "unat v < 2 ^ 31"
    "aget mem out = Some k" "DecodeData_lanes pad mem k (out + g) = Some d" "holds_group (v3_list xs) 0 (RecoveryFromDeltaV3 d)"
  shows "\<exists>r. FindWithCountV3 False pad mem out (length xs) v = Some r \<and> v3_answer xs v r"
proof -
  let ?d = "RecoveryFromDeltaV3 d"
  have ne: "xs \<noteq> []" using assms(3) by (simp add: searchable_def)
  have n: "1 \<le> length xs" "2 \<le> g" using assms(5) by (simp_all add: g_def)
  obtain T where T: "trees_ary (length xs) = Some T" "groups T = g" "tree_ok T" using trees_aryE [OF n(1) assms(4)] unfolding g_def by blast
  have lens: "countByteLen mem out g = Some (map (\<lambda>i. data_off vs (4 * i)) [0..<g])"
    using countByteLen_eq [OF assms(6)] n assms(4) by (simp add: vs_def g_def)
  obtain nd where nd: "aget (nodes T) 0 = Some nd" "nd = nodes T ! 0" using T(3) by (simp add: tree_ok_def)
  from FindV3_children [OF assms(4) assms(6) [unfolded vs_def g_def] T(2) [unfolded g_def] T(3) nd(2), of pad v "cmplt_mask ?d v"] obtain r where
    r: "root_children (\<lambda>c. DFS (groups T) False pad T c v (length xs) (map (\<lambda>i. data_off vs (4 * i)) [0..<g]) mem out (out + g)) (cmplt_mask ?d v) (masks nd)
      (case children nd of None \<Rightarrow> [] | Some cs \<Rightarrow> cs) = Some r" "r = NOT_EXIST \<or> r = EXIST \<and> v \<in> set xs" unfolding vs_def g_def by blast
  have run: "FindWithCountV3 False pad mem out (length xs) v =
      (if cmpeq_mask ?d v \<noteq> 0 then Some EXIST else if cmplt_mask ?d v = 0 then Some LESS_THAN_MIN
       else if cmplt_mask ?d v = 15 then Some GRATER_THAN_MAX else Some r)"
    unfolding FindWithCountV3_def Let_def g_def [symmetric] using T(1) assms(8,9) n(2) lens nd(1) r(1) by (simp add: hsimd_hit_def)
  note root = root_lanes [OF ne assms(4,10)]
  have small: "unat (hd xs) < 2 ^ 31" "unat (last xs) < 2 ^ 31" using assms(3) ne by (simp_all add: searchable_def)
  have "v \<in> set xs" if "cmpeq_mask ?d v \<noteq> 0"
    using eq_full [OF assms(10) _ that] assms(5) v3_list_nth(2) [OF assms(4)] by (auto simp: in_set_conv_nth)
  moreover have "?d ! 0 \<noteq> v" if "cmpeq_mask ?d v = 0"
    using that unmasked(1) [of "map (\<lambda>x. x = v) ?d"] root(4) by (auto simp: cmpeq_mask_def)
  then have "v < hd xs" if "cmpeq_mask ?d v = 0" "cmplt_mask ?d v = 0"
    using that lane_cmplt(1) [OF root(4), of 0 v] root(1) small assms(7) by (auto simp: not_less order_less_le)
  moreover have "last xs < v" if "cmplt_mask ?d v = 15"
    using that lane_cmplt(2) [OF root(4), of 3 v] root(2) [OF assms(5)] small assms(7) by simp
  ultimately show ?thesis unfolding run using r(2) by (auto simp: v3_answer_def)
qed

end
