(* ===== verification/Delta_V3_Members.thy ===== *)
theory Delta_V3_Members
  imports Delta_V3_Laws
begin

text \<open>
  Which members of a list the third codec finds. A search for the member with index \<open>i\<close> compares the
  member with other members, so its path through the tree depends on the indices alone: \<open>v3_finds\<close>
  follows the path on indices, and \<open>FindV3_member\<close> shows that the search of any list gives its answer.
  What remains is a table of 40 lengths.
\<close>

section \<open>The search on indices\<close>

text \<open>The order of \<open>n\<close> integers, and the indices that node \<open>p\<close> stores.\<close>

definition order_of :: "nat \<Rightarrow> nat list" where
  "order_of n = take n (ary_order ! (n - 1))"

definition order_lanes :: "nat list \<Rightarrow> nat \<Rightarrow> nat list" where
  "order_lanes ord p = take 4 (drop (4 * p) ord)"

fun dfs_finds :: "nat \<Rightarrow> SearchTree \<Rightarrow> nat list \<Rightarrow> nat \<Rightarrow> nat \<Rightarrow> bool" where
  "dfs_finds 0 T ord p i = False"
| "dfs_finds (Suc fuel) T ord p i = (i \<in> set (order_lanes ord p) \<or>
     (case children (nodes T ! p) of None \<Rightarrow> False
      | Some cs \<Rightarrow> movemask (map (\<lambda>a. a < i) (order_lanes ord p)) = masks (nodes T ! p) ! 0 \<and> dfs_finds fuel T ord (cs ! 0) i))"

fun root_finds :: "(nat \<Rightarrow> bool) \<Rightarrow> nat \<Rightarrow> nat list \<Rightarrow> nat list \<Rightarrow> bool" where
  "root_finds f msk (m # ms) (c # cs) = (if msk = m then f c else root_finds f msk ms cs)"
| "root_finds f msk ms cs = False"

definition tree_finds :: "SearchTree \<Rightarrow> nat list \<Rightarrow> nat \<Rightarrow> bool" where
  "tree_finds T ord i \<longleftrightarrow> i \<in> set (order_lanes ord 0) \<or>
     root_finds (\<lambda>c. dfs_finds (groups T) T ord c i) (movemask (map (\<lambda>a. a < i) (order_lanes ord 0))) (masks (nodes T ! 0))
       (case children (nodes T ! 0) of None \<Rightarrow> [] | Some cs \<Rightarrow> cs)"

definition v3_finds :: "nat \<Rightarrow> nat list \<Rightarrow> bool" where
  "v3_finds n is = (case trees_ary n of None \<Rightarrow> False | Some T \<Rightarrow> list_all (tree_finds T (order_of n)) is)"

definition v3_misses :: "nat \<Rightarrow> nat \<Rightarrow> bool" where
  "v3_misses n i = (case trees_ary n of None \<Rightarrow> False | Some T \<Rightarrow> \<not> tree_finds T (order_of n) i)"

text \<open>Up to 20 integers every index is found, and from 21 on the last but one is not.\<close>

lemma v3_finds_all: "list_all (\<lambda>n. v3_finds n [0..<n]) [5..<21]"
  by code_simp

lemma v3_misses_one: "list_all (\<lambda>n. v3_misses n (n - 2)) [21..<41]"
  by code_simp

lemma v3_finds_upto: "5 \<le> n \<Longrightarrow> n \<le> 20 \<Longrightarrow> v3_finds n [0..<n]"
proof -
  assume "5 \<le> n" "n \<le> 20"
  then have "n \<in> set [5..<21]" unfolding set_upt by simp
  then show ?thesis using v3_finds_all unfolding list_all_iff [of _ "[5..<21]"] by blast
qed

lemma v3_misses_from: "20 < n \<Longrightarrow> n \<le> 40 \<Longrightarrow> v3_misses n (n - 2)"
proof -
  assume "20 < n" "n \<le> 40"
  then have "n \<in> set [21..<41]" unfolding set_upt by simp
  then show ?thesis using v3_misses_one unfolding list_all_iff [of _ "[21..<41]"] by blast
qed

text \<open>Forty integers have less than 256 bytes.\<close>

lemma delta_len_le: "delta_len gen xs \<le> (length xs + 3) div 4 + 4 * length xs"
proof -
  have "data_off vs k \<le> 4 * k" if "k \<le> length vs" for vs k
    using that
  proof (induction k)
    case (Suc k)
    then show ?case using GetOneEncodeLength_bounds(2) [of "vs ! k"] by (simp add: data_off_Suc del: GetOneEncodeLength_bounds)
  qed simp
  from this [of "length xs" "gen_values gen 0 0 xs"] show ?thesis by (simp add: delta_len_def)
qed

section \<open>Members and indices\<close>

lemma searchable_order:
  assumes "searchable xs" "a < length xs" "i < length xs"
  shows "xs ! a < xs ! i \<longleftrightarrow> a < i" "xs ! a = xs ! i \<longleftrightarrow> a = i"
proof -
  have mono: "xs ! j < xs ! k" if "j < k" "k < length xs" for j k using searchable_nth [OF assms(1) that] .
  show "xs ! a < xs ! i \<longleftrightarrow> a < i"
  proof
    assume "xs ! a < xs ! i"
    then show "a < i" using mono [of i a] assms(2) by (metis less_irrefl less_trans linorder_neqE_nat)
  qed (use mono assms(3) in blast)
  show "xs ! a = xs ! i \<longleftrightarrow> a = i" using mono [of i a] mono [of a i] assms(2,3) by (metis less_irrefl linorder_neqE_nat)
qed

lemma length_order_lanes: "n \<le> 40 \<Longrightarrow> 1 \<le> n \<Longrightarrow> length (order_lanes (order_of n) p) = min 4 (n - 4 * p)"
  using order_row(2) [of n] by (simp add: order_lanes_def order_of_def)

lemma lanes_nth:
  assumes "1 \<le> n" "n \<le> 40" "j < length (order_lanes (order_of n) p)"
  shows "order_lanes (order_of n) p ! j = ary_order ! (n - 1) ! (4 * p + j)" "order_lanes (order_of n) p ! j < n" "4 * p + j < n"
proof -
  have j: "j < 4" "4 * p + j < n" using assms(3) length_order_lanes [OF assms(2,1), of p] by auto
  then show "4 * p + j < n" by simp
  show "order_lanes (order_of n) p ! j = ary_order ! (n - 1) ! (4 * p + j)" using j order_row(2) [OF assms(1,2)] assms(2) by (simp add: order_lanes_def order_of_def)
  then show "order_lanes (order_of n) p ! j < n" using order_row(3) [OF assms(1,2) j(2)] by simp
qed

text \<open>A decoded group against a member: the masks are those of the indices.\<close>

lemma group_indices:
  assumes "searchable xs" "length xs \<le> 40" "i < length xs" "holds_group (v3_list xs) p d" "j < length (order_lanes (order_of (length xs)) p)"
  shows "d ! j = xs ! i \<longleftrightarrow> order_lanes (order_of (length xs)) p ! j = i" "sint (d ! j) < sint (xs ! i) \<longleftrightarrow> order_lanes (order_of (length xs)) p ! j < i"
proof -
  have n: "1 \<le> length xs" using assms(3) by simp
  note l = lanes_nth [OF n assms(2,5)]
  have "j < length (quad (v3_list xs) p)" using assms(5) length_order_lanes [OF assms(2) n, of p] by (simp add: length_quad)
  then have d: "d ! j = xs ! (order_lanes (order_of (length xs)) p ! j)"
    using assms(4) v3_list_nth(1) [OF assms(2) l(3)] l(1) by (simp add: holds_group_def)
  then show "d ! j = xs ! i \<longleftrightarrow> order_lanes (order_of (length xs)) p ! j = i" using searchable_order(2) [OF assms(1) l(2) assms(3)] by simp
  have "unat (xs ! k) < 2 ^ 31" if "k < length xs" for k using assms(1) that by (simp add: searchable_def)
  then show "sint (d ! j) < sint (xs ! i) \<longleftrightarrow> order_lanes (order_of (length xs)) p ! j < i"
    using d sint_less_small l(2) assms(3) searchable_order(1) [OF assms(1) l(2) assms(3)] by simp
qed

lemma full_group_masks:
  assumes "searchable xs" "length xs \<le> 40" "i < length xs" "holds_group (v3_list xs) p d" "4 * p + 4 \<le> length xs"
  shows "cmpeq_mask d (xs ! i) \<noteq> 0 \<longleftrightarrow> i \<in> set (order_lanes (order_of (length xs)) p)"
    "cmplt_mask d (xs ! i) = movemask (map (\<lambda>a. a < i) (order_lanes (order_of (length xs)) p))"
proof -
  have len: "length d = 4" "length (order_lanes (order_of (length xs)) p) = 4"
    using assms(3-5) length_order_lanes [OF assms(2), of p] by (simp_all add: holds_group_def)
  note g = group_indices [OF assms(1-4), unfolded len(2)]
  have "map (\<lambda>x. sint x < sint (xs ! i)) d = map (\<lambda>a. a < i) (order_lanes (order_of (length xs)) p)"
    by (rule nth_equalityI) (use len g(2) in simp_all)
  then show "cmplt_mask d (xs ! i) = movemask (map (\<lambda>a. a < i) (order_lanes (order_of (length xs)) p))" by (simp add: cmplt_mask_def)
  have "cmpeq_mask d (xs ! i) = 0 \<longleftrightarrow> (\<forall>j < 4. d ! j \<noteq> xs ! i)"
    using unmasked(1) [of "map (\<lambda>x. x = xs ! i) d"] len(1) by (simp add: cmpeq_mask_def cong: imp_cong)
  then show "cmpeq_mask d (xs ! i) \<noteq> 0 \<longleftrightarrow> i \<in> set (order_lanes (order_of (length xs)) p)" using g(1) len(2) by (auto simp: in_set_conv_nth)
qed

lemma last_group_mask:
  assumes "searchable xs" "length xs \<le> 40" "i < length xs" "holds_group (v3_list xs) p d" "4 * p < length xs" "length xs \<le> 4 * p + 4"
  shows "cmpeq_mask d (xs ! i) AND LAST_COMPARE_MASK ! (length xs mod 4) \<noteq> 0 \<longleftrightarrow> i \<in> set (order_lanes (order_of (length xs)) p)"
proof -
  define r where "r = length xs - 4 * p"
  have r: "length xs = 4 * p + r" "1 \<le> r" "r \<le> 4" using assms(5,6) by (simp_all add: r_def)
  then have md: "length xs mod 4 = r mod 4" by simp
  have len: "length (map (\<lambda>x. x = xs ! i) d) = 4" "length (order_lanes (order_of (length xs)) p) = r"
    using assms(3,4) r length_order_lanes [OF assms(2), of p] by (simp_all add: holds_group_def)
  have d: "length d = 4" using assms(4) by (simp add: holds_group_def)
  have "cmpeq_mask d (xs ! i) AND LAST_COMPARE_MASK ! (length xs mod 4) = 0 \<longleftrightarrow> (\<forall>j < r. d ! j \<noteq> xs ! i)"
    using masked(1) [OF len(1) r(2,3)] r(3) d unfolding md by (auto simp: cmpeq_mask_def)
  then show ?thesis using group_indices(1) [OF assms(1-4)] len(2) by (auto simp: in_set_conv_nth)
qed

section \<open>The search of a member\<close>

lemma DFS_member:
  fixes xs :: "u32 list"
  defines "vs \<equiv> gen_values GenValueV2 0 0 (v3_list xs)" and "n \<equiv> length xs"
  assumes "searchable xs" "length xs \<le> 40" "i < length xs" "tree_ok T" "groups T = (length xs + 3) div 4" "enc_at mem kp dp vs"
    "lens = map (\<lambda>i. data_off vs (4 * i)) [0..<groups T]"
  shows "p < groups T \<Longrightarrow> groups T - p \<le> fuel \<Longrightarrow>
    DFS fuel False pad T p (xs ! i) n lens mem kp dp = Some (if dfs_finds fuel T (order_of n) p i then EXIST else NOT_EXIST)"
proof (induction fuel arbitrary: p)
  case (Suc fuel)
  let ?v = "xs ! i"
  have g32: "groups T < 2 ^ 32" using assms(4,7) by simp
  obtain nd where nd: "aget (nodes T) p = Some nd" "tn_idx nd = p"
    "\<And>cs. children nd = Some cs \<Longrightarrow> \<exists>c cs' m ms. cs = c # cs' \<and> masks nd = m # ms \<and> p + 1 < groups T \<and> p < c \<and> c < groups T"
    using tree_node [OF assms(6) Suc.prems(1)] by blast
  have node: "nodes T ! p = nd" using nd(1) by (auto simp: aget_def split: if_splits)
  have p: "4 * p < length (v3_list xs)" using Suc.prems(1) assms(7) by simp
  obtain k d where kd: "aget mem (kp + p) = Some k" "DecodeData_lanes pad mem k (dp + data_off vs (4 * p)) = Some d"
    "holds_group (v3_list xs) p (RecoveryFromDeltaV3 d)" using v3_group [OF assms(8) [unfolded vs_def] p] unfolding vs_def by blast
  have lens: "aget lens p = Some (data_off vs (4 * p))" using assms(9) Suc.prems(1) by (simp add: aget_def)
  have l: "aget LAST_COMPARE_MASK (n mod 4) = Some (LAST_COMPARE_MASK ! (n mod 4))" by (simp add: aget_def LAST_COMPARE_MASK_def)
  note full = full_group_masks [OF assms(3-5) kd(3), folded n_def]
  have room: "4 * p + 4 \<le> n" if "p + 1 < groups T" using that assms(7) by (simp add: n_def)
  have fuel_room: "groups T - c \<le> fuel" if "p < c" for c using that Suc.prems(2) by linarith
  show ?case
  proof (cases "children nd")
    case None
    show ?thesis
    proof (cases "p + 1 < groups T")
      case True
      then have "p \<noteq> wsub32 ((n + 3) div 4) 1" using assms(7) by (simp add: n_def)
      then show ?thesis using None nd(1,2) kd(1,2) lens node full(1) [OF room [OF True]] by (auto simp: Let_def hsimd_hit_def)
    next
      case False
      then have last: "p = wsub32 ((n + 3) div 4) 1" "n \<le> 4 * p + 4" using assms(7) Suc.prems(1) by (simp_all add: n_def)
      have "4 * p < length xs" "length xs \<le> 4 * p + 4" using p last(2) by (simp_all add: n_def)
      note eq = last_group_mask [OF assms(3-5) kd(3) this, folded n_def]
      show ?thesis using None nd(1,2) kd(1,2) lens node l last(1) eq by (auto simp: Let_def hsimd_hit_def)
    qed
  next
    case (Some cs)
    obtain c cs' m ms where c: "cs = c # cs'" "masks nd = m # ms" "p + 1 < groups T" "p < c" "c < groups T" using nd(3) [OF Some] by blast
    note full = full [OF room [OF c(3)]]
    show ?thesis using Suc.IH [OF c(5) fuel_room [OF c(4)]] nd(1,2) kd(1,2) lens c(1,2) Some node full
      by (auto simp: Let_def hsimd_hit_def)
  qed
qed simp

lemma root_children_finds:
  assumes "length cs \<le> length ms" "\<And>c. c \<in> set cs \<Longrightarrow> dfs c = Some (if f c then EXIST else NOT_EXIST)"
  shows "root_children dfs msk ms cs = Some (if root_finds f msk ms cs then EXIST else NOT_EXIST)"
  using assms
proof (induction dfs msk ms cs rule: root_children.induct)
  case (2 dfs msk ms)
  then show ?case by (cases ms) simp_all
qed auto

lemma FindV3_member:
  fixes xs :: "u32 list"
  defines "vs \<equiv> gen_values GenValueV2 0 0 (v3_list xs)" and "g \<equiv> (length xs + 3) div 4"
  assumes "searchable xs" "length xs \<le> 40" "4 < length xs" "enc_at mem out (out + g) vs" "i < length xs"
  shows "\<exists>T. trees_ary (length xs) = Some T \<and> FindWithCountV3 False pad mem out (length xs) (xs ! i) =
    Some (if tree_finds T (order_of (length xs)) i then EXIST else NOT_EXIST)"
proof -
  let ?n = "length xs" and ?v = "xs ! i"
  have n: "1 \<le> ?n" "2 \<le> g" using assms(5) by (simp_all add: g_def)
  obtain T where T: "trees_ary ?n = Some T" "groups T = g" "tree_ok T" using trees_aryE [OF n(1) assms(4)] unfolding g_def by blast
  have "4 * 0 < length (v3_list xs)" using assms(5) by (cases xs) simp_all
  from v3_group [OF assms(6) [unfolded vs_def] this, of pad] obtain k d where kd: "aget mem out = Some k"
    "DecodeData_lanes pad mem k (out + g) = Some d" "holds_group (v3_list xs) 0 (RecoveryFromDeltaV3 d)" by auto
  let ?d = "RecoveryFromDeltaV3 d"
  have "4 * 0 + 4 \<le> ?n" using assms(5) by simp
  note full = full_group_masks [OF assms(3,4,7) kd(3) this]
  have lens: "countByteLen mem out g = Some (map (\<lambda>i. data_off vs (4 * i)) [0..<groups T])"
    using countByteLen_eq [OF assms(6)] n assms(4) T(2) by (simp add: vs_def g_def)
  obtain nd where nd: "aget (nodes T) 0 = Some nd" "nodes T ! 0 = nd" using T(3) by (simp add: tree_ok_def)
  let ?cs = "case children nd of None \<Rightarrow> [] | Some cs \<Rightarrow> cs"
  have "length ?cs \<le> length (masks nd)" using T(3) nd(2) by (auto simp: tree_ok_def split: option.splits)
  moreover have "DFS (groups T) False pad T c ?v ?n (map (\<lambda>i. data_off vs (4 * i)) [0..<groups T]) mem out (out + g) =
      Some (if dfs_finds (groups T) T (order_of ?n) c i then EXIST else NOT_EXIST)" if "c \<in> set ?cs" for c
  proof -
    have "c < groups T" using that root_child_less [OF T(3)] nd(2) by (cases "children nd") auto
    then show ?thesis unfolding vs_def
      using T(2) by (intro DFS_member [OF assms(3,4,7) T(3) _ assms(6) [unfolded vs_def]]) (simp_all add: g_def)
  qed
  ultimately have root: "root_children (\<lambda>c. DFS (groups T) False pad T c ?v ?n (map (\<lambda>i. data_off vs (4 * i)) [0..<groups T]) mem out (out + g))
      (cmplt_mask ?d ?v) (masks nd) ?cs = Some (if root_finds (\<lambda>c. dfs_finds (groups T) T (order_of ?n) c i) (cmplt_mask ?d ?v) (masks nd) ?cs then EXIST else NOT_EXIST)"
    by (rule root_children_finds)
  have ends: "cmplt_mask ?d ?v \<noteq> 0" "cmplt_mask ?d ?v \<noteq> 15" if "i \<notin> set (order_lanes (order_of ?n) 0)"
  proof -
    have len: "length (order_lanes (order_of ?n) 0) = 4" using length_order_lanes [OF assms(4) n(1), of 0] assms(5) by simp
    have ord: "order_lanes (order_of ?n) 0 ! 0 = 0" "order_lanes (order_of ?n) 0 ! 3 = ?n - 1"
      using lanes_nth(1) [OF n(1) assms(4), of 0 0] lanes_nth(1) [OF n(1) assms(4), of 3 0] order_row(4,6) [OF n(1) assms(4)] assms(5) len by simp_all
    then have "order_lanes (order_of ?n) 0 ! 0 < i" "\<not> order_lanes (order_of ?n) 0 ! 3 < i" using that len assms(7) by (metis gr0I nth_mem zero_less_numeral, linarith)
    then show "cmplt_mask ?d ?v \<noteq> 0" "cmplt_mask ?d ?v \<noteq> 15"
      using unmasked [of "map (\<lambda>a. a < i) (order_lanes (order_of ?n) 0)"] len unfolding full(2)
      by (auto dest: spec [of _ 0] spec [of _ 3])
  qed
  have "FindWithCountV3 False pad mem out ?n ?v = Some (if tree_finds T (order_of ?n) i then EXIST else NOT_EXIST)"
    unfolding FindWithCountV3_def Let_def g_def [symmetric] tree_finds_def
    using T(1,2) kd(1,2) n(2) lens nd root full ends by (auto simp: hsimd_hit_def)
  with T(1) show ?thesis by blast
qed

text \<open>Up to four integers are compared at once.\<close>

lemma FindV3_member_small:
  assumes "searchable xs" "length xs \<le> 4" "i < length xs" "trees_ary (length xs) = Some T" "aget mem out = Some k"
    "DecodeData_lanes pad mem k (out + 1) = Some d" "holds_group (v3_list xs) 0 (RecoveryFromDeltaV3 d)"
  shows "FindWithCountV3 False pad mem out (length xs) (xs ! i) = Some EXIST"
proof -
  have n: "1 \<le> length xs" "length xs \<le> 40" "4 * 0 < length xs" "length xs \<le> 4 * 0 + 4" using assms(2,3) by (cases xs; simp)+
  have "order_of (length xs) = [0..<length xs]"
    by (rule nth_equalityI) (use order_row(2,5) [OF n(1,2)] assms(2) in \<open>simp_all add: order_of_def\<close>)
  then have "i \<in> set (order_lanes (order_of (length xs)) 0)" using assms(2,3) by (simp add: order_lanes_def)
  then have eq: "cmpeq_mask (RecoveryFromDeltaV3 d) (xs ! i) AND LAST_COMPARE_MASK ! (length xs mod 4) \<noteq> 0"
    using last_group_mask [OF assms(1) n(2) assms(3,7) n(3,4)] by blast
  have g: "(length xs + 3) div 4 = 1" using n(1) assms(2) by linarith
  have l: "aget LAST_COMPARE_MASK (length xs mod 4) = Some (LAST_COMPARE_MASK ! (length xs mod 4))" by (simp add: aget_def LAST_COMPARE_MASK_def)
  show ?thesis unfolding FindWithCountV3_def Let_def g using assms(4-6) l eq by (simp add: hsimd_hit_def)
qed

text \<open>With \<^verbatim>\<open>HSIMD\<close> the recovered order_lanes are summed again before they are compared.\<close>

lemma RecoveryScalar_second: "length d = 4 \<Longrightarrow> d ! 1 + d ! 0 \<in> set (RecoveryScalar d)"
  by (auto simp: RecoveryScalar_def Let_def in_set_conv_nth intro!: exI [of _ 1])

lemma FindV3_hsimd:
  assumes "searchable xs" "2 \<le> length xs" "length xs \<le> 40" "trees_ary (length xs) = Some T" "aget mem out = Some k"
    "DecodeData_lanes pad mem k (out + (length xs + 3) div 4) = Some d" "holds_group (v3_list xs) 0 (RecoveryFromDeltaV3 d)"
  shows "FindWithCountV3 True pad mem out (length xs) (v3_list xs ! 1 + hd xs) = Some EXIST"
proof -
  have ne: "xs \<noteq> []" using assms(2) by auto
  note root = root_lanes [OF ne assms(3,7)]
  have "RecoveryFromDeltaV3 d ! 1 = v3_list xs ! 1" using assms(2,7) by (simp add: holds_group_def length_quad)
  then have "v3_list xs ! 1 + hd xs \<in> set (RecoveryScalar (RecoveryFromDeltaV3 d))"
    using RecoveryScalar_second [OF root(4)] root(1) by simp
  then show ?thesis unfolding FindWithCountV3_def Let_def using assms(4-6) by (simp add: hsimd_hit_def)
qed

end
