(* ===== verification/Delta_Choose.thy ===== *)
theory Delta_Choose
  imports Delta_Encode_Laws
begin

text \<open>
  \<^verbatim>\<open>EncodeVertex\<close> of the delta encoders: every block that \<^verbatim>\<open>DynamicChoose\<close> can choose fits, and what is written
  is an encoding of the neighbours. With the soundness of the tests, the encoders are instances of
  \<open>slot_encoder\<close>.
\<close>

lemma foldo_skip:
  "foldo (\<lambda>i e. if skip i then Some e else f i e) xs e = foldo f (filter (\<lambda>i. \<not> skip i) xs) e"
  by (induction xs arbitrary: e) (auto split: bind_splits)

lemma bitat_outside_bytes:
  assumes "\<And>p. p < 8 * n \<Longrightarrow> bitat e' p = bitat e p" "i < n"
  shows "bs_data e' ! i = bs_data e ! i"
  by (rule byte_eq_bits) (use assms in \<open>intro assms(1); simp\<close>)

lemma header_bits:
  assumes "\<And>p. p < 8 \<Longrightarrow> bitat e' p = bitat e p"
  shows "block_val e' 3 5 = block_val e 3 5" "bitat e' 0 = bitat e 0" "bitat e' 1 = bitat e 1" "bitat e' 2 = bitat e 2"
  using assms by (auto intro!: block_val_cong)

text \<open>Setting bits behind a region keeps it.\<close>

lemma region_bits:
  assumes "delta_region gen e m" "wf_bs e" "wf_bs e'" "bs_size e' = bs_size e"
    "\<And>p. p < delta_hash_begin gen m \<Longrightarrow> bitat e' p = bitat e p"
  shows "delta_region gen e' m"
proof -
  have h: "delta_hash_begin gen m = 8 * (1 + delta_len gen m)" by (simp add: delta_hash_begin_def)
  have "p < delta_hash_begin gen m" if "p < 8" for p using that by (simp add: h)
  then have hd: "block_val e' 3 5 = block_val e 3 5" using assms(5) by (intro header_bits(1)) blast
  have "enc_at (bs_data e') 1 (1 + (length m + 3) div 4) (gen_values gen 0 0 m)" if "m \<noteq> []"
  proof (rule enc_at_cong)
    show "enc_at (bs_data e) 1 (1 + (length m + 3) div 4) (gen_values gen 0 0 m)" using assms(1) that by (simp add: delta_region_def)
    show "bs_data e' ! i = bs_data e ! i"
      if "i < 1 + (length m + 3) div 4 + data_off (gen_values gen 0 0 m) (length (gen_values gen 0 0 m))" for i
      using assms(5) that unfolding h by (intro bitat_outside_bytes [of "1 + delta_len gen m"]) (simp_all add: delta_len_def)
  qed (use assms(2-4) in simp_all)
  then show ?thesis using assms(1) hd by (simp add: delta_region_def)
qed

definition good_block :: "gen \<Rightarrow> config \<Rightarrow> u32 list \<Rightarrow> BlockInfo \<Rightarrow> bool" where
  "good_block gen cfg ns info \<longleftrightarrow>
     (if block_type info = FullHash then bi_begin info = 0 \<and> block_size info = 0
      else block_fits ns info \<and> delta_len gen (take (block_size info) (drop (bi_begin info) ns)) \<le> max_bytes_len cfg \<and>
        (block_type info = LeftMost \<longrightarrow> bi_begin info = 0) \<and>
        (block_type info = RightMost \<longrightarrow> bi_begin info + block_size info = length ns))"

lemma good_block_split:
  assumes "good_block gen cfg ns info"
  obtains a m c where "ns = a @ m @ c" "length a = bi_begin info" "length m = block_size info" "type_ok (block_type info) a m c"
    "block_type info \<noteq> FullHash \<longrightarrow> delta_len gen m \<le> max_bytes_len cfg"
proof
  let ?b = "bi_begin info" and ?n = "block_size info"
  let ?a = "take ?b ns" and ?m = "take ?n (drop ?b ns)" and ?c = "drop (?n + ?b) ns"
  have le: "?b + ?n \<le> length ns" using assms by (auto simp: good_block_def block_fits_def split: if_splits)
  show "ns = ?a @ ?m @ ?c" by (metis append_take_drop_id drop_drop)
  show "length ?a = ?b" "length ?m = ?n" using le by simp_all
  show "type_ok (block_type info) ?a ?m ?c"
    using assms le by (cases "block_type info") (auto simp: type_ok_def good_block_def block_fits_def)
  show "block_type info \<noteq> FullHash \<longrightarrow> delta_len gen ?m \<le> max_bytes_len cfg" using assms by (simp add: good_block_def)
qed

lemma set_outside:
  assumes "ns = a @ m @ c"
  shows "set (a @ c) = {ns ! i |i. i < length ns \<and> \<not> (length a \<le> i \<and> int i \<le> int (length a) + int (length m) - 1)}"
proof (intro equalityI subsetI)
  fix x assume "x \<in> set (a @ c)"
  then consider i where "i < length a" "a ! i = x" | i where "i < length c" "c ! i = x" by (auto simp: in_set_conv_nth)
  then show "x \<in> {ns ! i |i. i < length ns \<and> \<not> (length a \<le> i \<and> int i \<le> int (length a) + int (length m) - 1)}"
  proof cases
    case (1 i)
    then show ?thesis using assms by (intro CollectI exI [of _ i]) (simp add: nth_append)
  next
    case (2 i)
    then show ?thesis using assms by (intro CollectI exI [of _ "length a + length m + i"]) (simp add: nth_append)
  qed
next
  fix x assume "x \<in> {ns ! i |i. i < length ns \<and> \<not> (length a \<le> i \<and> int i \<le> int (length a) + int (length m) - 1)}"
  then obtain i where i: "i < length ns" "ns ! i = x" "i < length a \<or> length a + length m \<le> i" by auto
  then show "x \<in> set (a @ c)" using assms by (auto simp: nth_append)
qed

context delta_encoder
begin

lemma encode_region:
  assumes "delta_config cfg" "wf_enc cfg e" "m \<noteq> []" "delta_len gen m \<le> max_bytes_len cfg" "block_val e 3 5 = of_nat (length m)"
  shows "\<exists>mem. dc_encode_array C m (bs_data e) 1 = Some (mem, delta_len gen m) \<and> wf_enc cfg (e\<lparr>bs_data := mem\<rparr>) \<and>
    delta_region gen (e\<lparr>bs_data := mem\<rparr>) m \<and> (\<forall>p < 8. bitat (e\<lparr>bs_data := mem\<rparr>) p = bitat e p)"
proof -
  note b = delta_len_bound [OF assms(1,4)]
  have "length (bs_data e) = 1 + max_bytes_len cfg"
    using assms(2) delta_configD(4) [OF assms(1)] wf_configD(13) [OF delta_configD(1) [OF assms(1)]] by (simp add: wf_enc_def)
  then have "1 + (length m + 3) div 4 + data_off (stored m) (length m) \<le> length (bs_data e)"
    using assms(4) by (simp add: delta_len_def)
  from EncodeArray_law [OF assms(3) this b(2)] obtain mem where
    mem: "EncodeArray (EncodeDeltas gen) m (bs_data e) 1 = Some (mem, delta_len gen m)" "length mem = length (bs_data e)"
    "enc_at mem 1 (1 + (length m + 3) div 4) (stored m)" "\<forall>i < length (bs_data e). i < 1 \<longrightarrow> mem ! i = bs_data e ! i"
    by (auto simp: delta_len_def)
  let ?e = "e\<lparr>bs_data := mem\<rparr>"
  have "mem ! 0 = bs_data e ! 0" using mem(4) \<open>length (bs_data e) = 1 + max_bytes_len cfg\<close> by simp
  then have bits: "bitat ?e p = bitat e p" if "p < 8" for p using that by (simp add: bitat_def)
  moreover have "wf_enc cfg ?e" using assms(2) mem(2) by (simp add: wf_enc_def wf_bs_def)
  moreover have "block_val ?e 3 5 = of_nat (length m)" using header_bits(1) [OF bits] assms(5) by simp
  ultimately show ?thesis using mem(1,3) b(1) by (auto simp: class_encode delta_region_def)
qed

lemma set_hashes:
  assumes "delta_config cfg" "wf_enc cfg e" "delta_region gen e m" "ns = a @ m @ c"
    "delta_len gen m \<le> max_bytes_len cfg"
  shows "\<exists>e'. (if delta_hash_begin gen m = PER_ENCODE_BIT_SIZE cfg then Some e
      else foldo (\<lambda>i e.
         if length a \<le> i \<and> int i \<le> int (length a) + int (length m) - 1 then Some e
         else do {
           v \<leftarrow> aget ns i;
           p \<leftarrow> Delta_Hash cfg v (delta_hash_begin gen m);
           SetOne e p }) [0..<length ns] e) = Some e' \<and>
    wf_enc cfg e' \<and> delta_region gen e' m \<and> (\<forall>p < 8. bitat e' p = bitat e p) \<and> delta_hashed gen cfg e' m (a @ c)"
proof -
  define h where "h = delta_hash_begin gen m"
  have h8: "8 \<le> h" "h \<le> PER_ENCODE_BIT_SIZE cfg" using delta_configD(5) [OF assms(1)] assms(5) by (simp_all add: h_def delta_hash_begin_def)
  show ?thesis
  proof (cases "h = PER_ENCODE_BIT_SIZE cfg")
    case True
    then show ?thesis using assms(2,3) by (auto simp: h_def [symmetric] delta_hashed_def)
  next
    case False
    then have lt: "h < PER_ENCODE_BIT_SIZE cfg" using h8 by simp
    note w = wf_encD [OF delta_configD(1) [OF assms(1)] assms(2)] and hash = Delta_Hash_eq [OF delta_configD(1) [OF assms(1)] lt]
    define idx where "idx = filter (\<lambda>i. \<not> (length a \<le> i \<and> int i \<le> int (length a) + int (length m) - 1)) [0..<length ns]"
    define f where "f = (\<lambda>i. do { v \<leftarrow> aget ns i; Delta_Hash cfg v h })"
    have f: "f i = Some (hash_slot cfg h (ns ! i))" if "i \<in> set idx" for i using that hash by (simp add: f_def idx_def)
    obtain e' where e': "foldo (\<lambda>i e. do { p \<leftarrow> f i; SetOne e p }) idx e = Some e'" "wf_bs e'" "8 * bs_size e' = 8 * bs_size e"
      "\<forall>q < 8 * bs_size e. bitat e' q \<longleftrightarrow> bitat e q \<or> (\<exists>i \<in> set idx. f i = Some q)"
      using bs.set_positions_law [of e idx f] w f hash_slot_bounds(2) [OF lt] by auto
    have run: "foldo (\<lambda>i e.
         if length a \<le> i \<and> int i \<le> int (length a) + int (length m) - 1 then Some e
         else do {
           v \<leftarrow> aget ns i;
           p \<leftarrow> Delta_Hash cfg v h;
           SetOne e p }) [0..<length ns] e = Some e'"
      using e'(1) unfolding foldo_skip idx_def f_def by simp
    have low: "bitat e' q = bitat e q" if "q < h" for q
    proof -
      have "\<not> (\<exists>i \<in> set idx. f i = Some q)" using f hash_slot_bounds(1) [OF lt] that by (metis linorder_not_le option.inject)
      then show ?thesis using e'(4) w lt that by auto
    qed
    have "wf_enc cfg e'" using e'(2,3) assms(2) by (simp add: wf_enc_def)
    moreover have "delta_region gen e' m" using region_bits [OF assms(3) w(1) e'(2)] e'(3) low by (simp add: h_def)
    moreover have "bitat e' (hash_slot cfg h v)" if v: "v \<in> set (a @ c)" for v
    proof -
      obtain i where "i \<in> set idx" "ns ! i = v" using v unfolding set_outside [OF assms(4)] idx_def by auto
      then show ?thesis using f e'(4) w hash_slot_bounds(2) [OF lt, of v] by metis
    qed
    ultimately show ?thesis unfolding delta_hashed_def unfolding h_def [symmetric] using run low h8 False lt by auto
  qed
qed

lemma ConstructEncode_encodes:
  assumes "delta_config cfg" "fresh cfg e" "good_block gen cfg ns info"
  shows "\<exists>e'. ConstructEncode cfg C info ns e = Some e' \<and> delta_encodes gen cfg e' ns"
proof -
  obtain a m c where s: "ns = a @ m @ c" "length a = bi_begin info" "length m = block_size info" "type_ok (block_type info) a m c"
    "block_type info \<noteq> FullHash \<longrightarrow> delta_len gen m \<le> max_bytes_len cfg"
    using good_block_split [OF assms(3)] by blast
  have wf: "wf_enc cfg e" and zero: "\<And>p. p < PER_ENCODE_BIT_SIZE cfg \<Longrightarrow> \<not> bitat e p" using assms(2) by (simp_all add: fresh_def)
  note w = wf_encD [OF delta_configD(1) [OF assms(1)] wf]
  have P: "8 * bs_size e = PER_ENCODE_BIT_SIZE cfg" "16 \<le> PER_ENCODE_BIT_SIZE cfg" using w(2) delta_configD(5,7) [OF assms(1)] by simp_all
  obtain t where t: "unat t < 2 ^ 2" "SetBlockModel e (block_type info) = Some (block_upd e 1 2 t)" "model_bits (block_type info) = (bit t 1, bit t 0)"
    using SetBlockModel_correct [OF w(1), of "block_type info"] P by auto
  let ?e1 = "block_upd e 1 2 t"
  have e1: "wf_enc cfg ?e1" "bitat ?e1 0 = False" "(bitat ?e1 1, bitat ?e1 2) = model_bits (block_type info)"
    using wf zero [of 0] P t(3) by (simp_all add: wf_enc_def)
  have len: "delta_len gen m \<le> max_bytes_len cfg"
    using s(4,5) by (cases "block_type info = FullHash") (simp_all add: type_ok_def delta_len_def)
  have size32: "length m < 32" using delta_len_bound(1) [OF assms(1) len] .
  have "\<exists>e2. (if block_type info \<noteq> FullHash then do {
         e \<leftarrow> SetEncodeSize ?e1 (of_nat (block_size info));
         run \<leftarrow> slice (bi_begin info) (bi_begin info + block_size info) ns;
         (mem, len) \<leftarrow> dc_encode_array C run (bs_data e) 1;
         Some (e\<lparr>bs_data := mem\<rparr>, len) }
       else Some (?e1, 0)) = Some (e2, delta_len gen m) \<and> wf_enc cfg e2 \<and> delta_region gen e2 m \<and>
     \<not> bitat e2 0 \<and> (bitat e2 1, bitat e2 2) = model_bits (block_type info)"
  proof (cases "block_type info = FullHash")
    case True
    then have "m = []" using s(4) by (simp add: type_ok_def)
    moreover have "block_val ?e1 3 5 = 0" using P zero
      by (intro bit_word_eqI) (auto simp: bit_block_val)
    ultimately show ?thesis using True e1 by (simp add: delta_len_def delta_region_def)
  next
    case False
    let ?e2 = "block_upd ?e1 3 5 (of_nat (length m))"
    have n: "unat (of_nat (length m) :: u32) < 2 ^ 5" using size32 by (simp add: unat_of_nat)
    have set: "SetEncodeSize ?e1 (of_nat (length m)) = Some ?e2"
      using n P by (simp add: SetEncodeSize_def)
    have e2: "wf_enc cfg ?e2" "block_val ?e2 3 5 = of_nat (length m)" "bitat ?e2 0 = False" "(bitat ?e2 1, bitat ?e2 2) = model_bits (block_type info)"
      using wf n P e1 by (simp_all add: wf_enc_def)
    have "m \<noteq> []" using s(4) False by (auto simp: type_ok_def split: BlockType.splits)
    from encode_region [OF assms(1) e2(1) this len e2(2)] obtain mem where
      mem: "dc_encode_array C m (bs_data ?e2) 1 = Some (mem, delta_len gen m)" "wf_enc cfg (?e2\<lparr>bs_data := mem\<rparr>)"
      "delta_region gen (?e2\<lparr>bs_data := mem\<rparr>) m" "\<And>p. p < 8 \<Longrightarrow> bitat (?e2\<lparr>bs_data := mem\<rparr>) p = bitat ?e2 p" by blast
    have "slice (bi_begin info) (bi_begin info + block_size info) ns = Some m"
      using s(1) by (simp add: slice_def s(2) [symmetric] s(3) [symmetric])
    then show ?thesis using False set mem e2(3,4) header_bits(2-4) [OF mem(4)] s(3) by simp
  qed
  then obtain e2 where e2: "(if block_type info \<noteq> FullHash then do {
         e \<leftarrow> SetEncodeSize ?e1 (of_nat (block_size info));
         run \<leftarrow> slice (bi_begin info) (bi_begin info + block_size info) ns;
         (mem, len) \<leftarrow> dc_encode_array C run (bs_data e) 1;
         Some (e\<lparr>bs_data := mem\<rparr>, len) }
       else Some (?e1, 0)) = Some (e2, delta_len gen m)" "wf_enc cfg e2" "delta_region gen e2 m"
     "\<not> bitat e2 0" "(bitat e2 1, bitat e2 2) = model_bits (block_type info)" by blast
  from set_hashes [OF assms(1) e2(2,3) s(1) len] obtain e3 where
    e3: "(if delta_hash_begin gen m = PER_ENCODE_BIT_SIZE cfg then Some e2
      else foldo (\<lambda>i e.
         if length a \<le> i \<and> int i \<le> int (length a) + int (length m) - 1 then Some e
         else do {
           v \<leftarrow> aget ns i;
           p \<leftarrow> Delta_Hash cfg v (delta_hash_begin gen m);
           SetOne e p }) [0..<length ns] e2) = Some e3"
    "wf_enc cfg e3" "delta_region gen e3 m" "\<And>p. p < 8 \<Longrightarrow> bitat e3 p = bitat e2 p" "delta_hashed gen cfg e3 m (a @ c)" by blast
  have hb: "(delta_len gen m + 1) * 8 = delta_hash_begin gen m" by (simp add: delta_hash_begin_def)
  have "ConstructEncode cfg C info ns e = Some e3"
    unfolding ConstructEncode_def Delta_SetBlockModel_eq t(2) bind.bind_lunit e2(1) Let_def case_prod_conv hb
    using e3(1) unfolding s(2,3) .
  moreover have "delta_encodes gen cfg e3 ns"
    using e3(2,3,5) e2(4,5) s(1,4) header_bits(2-4) [OF e3(4)] unfolding delta_encodes_def by auto
  ultimately show ?thesis by blast
qed

text \<open>The invariant of the search for a block: the current block, its bytes, and the best one so far.\<close>

abbreviation run :: "u32 list \<Rightarrow> BlockInfo \<Rightarrow> u32 list" where
  "run ns cur \<equiv> take (block_size cur) (drop (bi_begin cur) ns)"

definition cur_ok :: "u32 list \<Rightarrow> BlockInfo \<Rightarrow> nat \<Rightarrow> u32 \<Rightarrow> bool" where
  "cur_ok ns cur pb pv \<longleftrightarrow> block_fits ns cur \<and> pb = data_off (stored (run ns cur)) (block_size cur) \<and> keep (run ns cur) pv \<and>
     block_type cur \<noteq> FullHash \<and> (block_type cur = LeftMost \<longrightarrow> bi_begin cur = 0) \<and>
     (block_type cur = RightMost \<longrightarrow> bi_begin cur + block_size cur = length ns)"

definition best_ok :: "config \<Rightarrow> u32 list \<Rightarrow> u32 \<times> BlockInfo \<Rightarrow> bool" where
  "best_ok cfg ns best \<longleftrightarrow> unat (fst best) \<le> VERTEX_SIZE cfg \<and> good_block gen cfg ns (snd best)"

definition infos_ok :: "u32 list \<Rightarrow> DeltaInfo list \<Rightarrow> bool" where
  "infos_ok ns infos \<longleftrightarrow> length infos = length ns \<and> (\<forall>k < length ns. val_bits (infos ! k) = GetOneEncodeLength (ns ! k) \<and>
     (0 < k \<longrightarrow> delta_bits (infos ! k) = GetOneEncodeLength (ns ! k - ns ! (k - 1))))"

lemma ParseEncode_infos: "\<exists>infos. ParseEncode ns = Some infos \<and> infos_ok ns infos"
  unfolding ParseEncode_eq infos_ok_def by simp

lemma stored_append: "data_off (stored (m @ [x])) (Suc (length m)) = data_off (stored m) (length m) + GetOneEncodeLength (last (stored (m @ [x])))"
  by (simp add: data_off_def gen_values_append)

lemma length_run: "block_fits ns cur \<Longrightarrow> length (run ns cur) = block_size cur"
  by (auto simp: block_fits_def min_def)

lemma cur_good:
  assumes "cur_ok ns cur pb pv" "pb + (block_size cur + 3) div 4 \<le> max_bytes_len cfg"
  shows "good_block gen cfg ns cur"
proof -
  have "length (run ns cur) = block_size cur" using assms(1) by (intro length_run) (simp add: cur_ok_def)
  then show ?thesis using assms by (simp add: cur_ok_def good_block_def delta_len_def)
qed

lemma cur_grow:
  assumes "cur_ok ns cur pb pv" "infos_ok ns infos" "block_size cur + bi_begin cur < length ns" "block_type cur \<noteq> RightMost"
    "block_type cur = LeftMost \<longrightarrow> t = LeftMost" "t = LeftMost \<or> t = Middle" "t = LeftMost \<longrightarrow> bi_begin cur = 0"
  shows "\<exists>b pv'. dc_grow C (infos ! (block_size cur + bi_begin cur)) (ns ! (block_size cur + bi_begin cur)) (block_size cur + 1) pv = (b, pv') \<and>
    cur_ok ns (cur\<lparr>block_size := block_size cur + 1, block_type := t\<rparr>) (pb + b) pv'"
proof -
  define k where "k = block_size cur + bi_begin cur"
  have fits: "block_fits ns cur" using assms(1) by (simp add: cur_ok_def)
  have len: "length (run ns cur) = block_size cur" using length_run [OF fits] .
  have ne: "run ns cur \<noteq> []" using len fits by (auto simp: block_fits_def)
  have app: "take (block_size cur + 1) (drop (bi_begin cur) ns) = run ns cur @ [ns ! k]"
    using assms(3) by (simp add: take_Suc_conv_app_nth k_def add.commute)
  have "last (run ns cur) = ns ! (k - 1)"
    using ne len fits by (simp add: last_conv_nth block_fits_def k_def)
      (metis Nat.add_diff_assoc One_nat_def Suc_leI add.commute)
  then have info: "delta_bits (infos ! k) = GetOneEncodeLength (ns ! k - last (run ns cur))" "val_bits (infos ! k) = GetOneEncodeLength (ns ! k)"
    using assms(2,3) fits by (auto simp: infos_ok_def k_def block_fits_def)
  have kp: "keep (run ns cur) pv" using assms(1) by (simp add: cur_ok_def)
  from class_grow [OF ne kp info(2,1), unfolded len] obtain pv' where
    pv': "dc_grow C (infos ! k) (ns ! k) (block_size cur + 1) pv = (GetOneEncodeLength (last (stored (run ns cur @ [ns ! k]))), pv')"
    "keep (run ns cur @ [ns ! k]) pv'" by blast
  have "pb + GetOneEncodeLength (last (stored (run ns cur @ [ns ! k]))) = data_off (stored (run ns cur @ [ns ! k])) (block_size cur + 1)"
    using stored_append [of "run ns cur" "ns ! k", unfolded len] assms(1) by (simp add: cur_ok_def)
  then have "cur_ok ns (cur\<lparr>block_size := block_size cur + 1, block_type := t\<rparr>) (pb + GetOneEncodeLength (last (stored (run ns cur @ [ns ! k])))) pv'"
    using pv'(2) app assms(3,6,7) by (auto simp: cur_ok_def block_fits_def)
  with pv'(1) show ?thesis by (auto simp: k_def)
qed

lemma choose_loop_ok:
  assumes "delta_config cfg" "good_ids cfg ns" "infos_ok ns infos" "cur_ok ns cur pb pv" "best_ok cfg ns best"
  shows "\<exists>best'. choose_loop cfg C ns infos cur pb pv best = Some best' \<and> best_ok cfg ns best'"
  using assms(4,5)
proof (induction "length ns - (block_size cur + bi_begin cur)" arbitrary: cur pb pv best rule: less_induct)
  case less
  note cfg = delta_configD [OF assms(1)]
  show ?case
  proof (cases "pb + (block_size cur + 3) div 4 \<le> max_bytes_len cfg")
    case fit: True
    define cur' where "cur' = (if block_size cur + bi_begin cur = length ns then cur\<lparr>block_type := RightMost\<rparr> else cur)"
    have same: "block_size cur' = block_size cur" "bi_begin cur' = bi_begin cur" by (simp_all add: cur'_def)
    have ok: "cur_ok ns cur' pb pv" using less.prems(1) by (auto simp: cur'_def cur_ok_def block_fits_def)
    define hb where "hb = (max_bytes_len cfg - pb - (block_size cur' + 3) div 4) * 8"
    have "hb \<le> max_bytes_len cfg * 8" unfolding hb_def by simp
    then have hb: "hb < 2 ^ 32" using cfg(6) by simp
    obtain b s where s: "ScoreCount cfg cur' ns hb (fst best) = Some (b, s)" "unat s \<le> VERTEX_SIZE cfg"
      using ScoreCount_defined [OF assms(2) cfg(1) _ hb, of cur' "fst best"] ok less.prems(2) by (auto simp: cur_ok_def best_ok_def)
    let ?best = "(s, if b then cur' else snd best)"
    have best: "best_ok cfg ns ?best"
      using cur_good [OF ok, of cfg] fit same s(2) less.prems(2) by (simp add: best_ok_def)
    have step: "choose_loop cfg C ns infos cur pb pv best = (if block_type cur' = RightMost then Some ?best
        else do {
          info \<leftarrow> aget infos (block_size cur' + bi_begin cur');
          x \<leftarrow> aget ns (block_size cur' + bi_begin cur');
          let (bytes, pre_val) = dc_grow C info x (block_size cur' + 1) pv;
          choose_loop cfg C ns infos (cur'\<lparr>block_size := block_size cur' + 1\<rparr>) (pb + bytes) pre_val ?best })"
      by (subst choose_loop.simps) (use fit s(1) in \<open>simp add: Let_def cur'_def [symmetric] hb_def\<close>)
    show ?thesis
    proof (cases "block_type cur' = RightMost")
      case False
      then have lt: "block_size cur' + bi_begin cur' < length ns"
        using ok by (auto simp: cur'_def cur_ok_def block_fits_def split: if_splits)
      have t: "block_type cur' = LeftMost \<or> block_type cur' = Middle" using False ok by (cases "block_type cur'") (auto simp: cur_ok_def)
      obtain bytes pv' where g: "dc_grow C (infos ! (block_size cur' + bi_begin cur')) (ns ! (block_size cur' + bi_begin cur')) (block_size cur' + 1) pv = (bytes, pv')"
        "cur_ok ns (cur'\<lparr>block_size := block_size cur' + 1\<rparr>) (pb + bytes) pv'"
        using cur_grow [OF ok assms(3) lt False, of "block_type cur'"] t ok by (auto simp: cur_ok_def)
      have "aget infos (block_size cur' + bi_begin cur') = Some (infos ! (block_size cur' + bi_begin cur'))"
        using lt assms(3) by (simp add: infos_ok_def)
      with step False g(1) lt have "choose_loop cfg C ns infos cur pb pv best =
          choose_loop cfg C ns infos (cur'\<lparr>block_size := block_size cur' + 1\<rparr>) (pb + bytes) pv' ?best" by simp
      moreover have "\<exists>best'. choose_loop cfg C ns infos (cur'\<lparr>block_size := block_size cur' + 1\<rparr>) (pb + bytes) pv' ?best = Some best' \<and> best_ok cfg ns best'"
        using lt same g(2) best by (intro less.hyps) simp_all
      ultimately show ?thesis by simp
    qed (use step best in auto)
  next
    case False
    then show ?thesis using less.prems(2) by (subst choose_loop.simps) simp
  qed
qed

lemma cur_ok_single:
  assumes "i < length ns" "t = LeftMost \<longrightarrow> i = 0" "t = RightMost \<longrightarrow> Suc i = length ns" "t \<noteq> FullHash"
  shows "cur_ok ns \<lparr>bi_begin = i, block_size = 1, block_type = t\<rparr> (GetOneEncodeLength (ns ! i)) (ns ! i)"
proof -
  have "take 1 (drop i ns) = [ns ! i]" using assms(1) by (simp add: take_Suc_conv_app_nth)
  then show ?thesis using assms class_first by (simp add: cur_ok_def block_fits_def data_off_def)
qed

lemma choose_step_ok:
  assumes "delta_config cfg" "good_ids cfg ns" "infos_ok ns infos" "i < length ns" "best_ok cfg ns best"
  shows "\<exists>best'. choose_step cfg C ns infos i best = Some best' \<and> best_ok cfg ns best'"
proof -
  note loop = choose_loop_ok [OF assms(1-3) _ assms(5)]
  have i: "i < length infos" "val_bits (infos ! i) = GetOneEncodeLength (ns ! i)" using assms(3,4) by (simp_all add: infos_ok_def)
  consider "i = 0" | "i \<noteq> 0" "Suc i = length ns" | "i \<noteq> 0" "Suc i < length ns" using assms(4) by linarith
  then show ?thesis
  proof cases
    case 1
    have "cur_ok ns \<lparr>bi_begin = i, block_size = 1, block_type = LeftMost\<rparr> (GetOneEncodeLength (ns ! i)) (ns ! i)"
      using 1 assms(4) by (intro cur_ok_single) simp_all
    from loop [OF this] show ?thesis using 1 assms(4) i by (simp add: choose_step_def Let_def)
  next
    case 2
    have "cur_ok ns \<lparr>bi_begin = i, block_size = 1, block_type = RightMost\<rparr> (GetOneEncodeLength (ns ! i)) (ns ! i)"
      using 2 by (intro cur_ok_single) simp_all
    moreover have "i = wsub32 (length ns) 1" using 2 by simp
    ultimately show ?thesis using loop 2(1) assms(4) i by (simp add: choose_step_def Let_def)
  next
    case 3
    let ?cur = "\<lparr>bi_begin = i, block_size = 1, block_type = Middle\<rparr>"
    have "cur_ok ns ?cur (GetOneEncodeLength (ns ! i)) (ns ! i)" using 3 by (intro cur_ok_single) simp_all
    from cur_grow [OF this assms(3), of Middle] 3 obtain b pv' where
      g: "dc_grow C (infos ! (1 + i)) (ns ! (1 + i)) 2 (ns ! i) = (b, pv')"
      "cur_ok ns \<lparr>bi_begin = i, block_size = 2, block_type = Middle\<rparr> (GetOneEncodeLength (ns ! i) + b) pv'"
      by (auto simp: numeral_2_eq_2)
    have "aget infos (i + 1) = Some (infos ! (1 + i))" "aget ns (i + 1) = Some (ns ! (1 + i))"
      using 3(2) assms(3) by (simp_all add: infos_ok_def)
    moreover have "i \<noteq> wsub32 (length ns) 1" using 3 by simp
    ultimately show ?thesis using loop [OF g(2)] g(1) 3 assms(4) i by (simp add: choose_step_def Let_def)
  qed
qed

lemma choose_encodes:
  assumes "delta_config cfg" "good_ids cfg ns" "infos_ok ns infos" "fresh cfg e"
  shows "\<exists>e'. Delta_DynamicChoose cfg C ns infos e = Some e' \<and> delta_encodes gen cfg e' ns"
proof -
  note cfg = delta_configD [OF assms(1)]
  obtain b s where s: "FullHashScoreCount cfg ns (max_bytes_len cfg * 8) 0 = Some (b, s)" "unat s \<le> VERTEX_SIZE cfg"
    using FullHashScoreCount_defined [of cfg "max_bytes_len cfg * 8" ns] wf_configD(14,15) [OF cfg(1)] cfg(6,7) by auto
  let ?best = "(s, \<lparr>bi_begin = 0, block_size = 0, block_type = FullHash\<rparr>)"
  have "best_ok cfg ns ?best" using s(2) by (simp add: best_ok_def good_block_def)
  then have "\<exists>best'. foldo (choose_step cfg C ns infos) xs ?best = Some best' \<and> ((\<forall>i \<in> set []. i < length ns) \<and> best_ok cfg ns best')"
    if "\<forall>i \<in> set xs. i < length ns" for xs
    using that choose_step_ok [OF assms(1-3)]
    by (intro foldo_invariant [where P = "\<lambda>xs best. (\<forall>i \<in> set xs. i < length ns) \<and> best_ok cfg ns best"]) simp_all
  from this [of "[0..<length ns]"] obtain s' blk where
    "foldo (choose_step cfg C ns infos) [0..<length ns] ?best = Some (s', blk)" "best_ok cfg ns (s', blk)" by auto
  with s(1) ConstructEncode_encodes [OF assms(1,4), of ns blk] show ?thesis
    by (simp add: Delta_DynamicChoose_def best_ok_def Let_def)
qed

lemma vertex_encodes:
  assumes "delta_config cfg" "delta_ids cfg ns" "unat v < length st" "fresh cfg (st ! unat v)"
  shows "\<exists>e. Delta_EncodeVertex C cfg v ns st = Some (st[unat v := e]) \<and> delta_encodes gen cfg e ns \<and>
    (delta_len gen ns \<le> max_bytes_len cfg \<longrightarrow> bitat e 0)"
proof -
  let ?e = "st ! unat v"
  note cfg = delta_configD [OF assms(1)]
  have ids: "good_ids cfg ns" using assms(2) by (simp add: delta_ids_def)
  have wf: "wf_enc cfg ?e" and zero: "\<And>p. p < PER_ENCODE_BIT_SIZE cfg \<Longrightarrow> \<not> bitat ?e p" using assms(4) by (simp_all add: fresh_def)
  note w = wf_encD [OF cfg(1) wf]
  have P: "8 * bs_size ?e = PER_ENCODE_BIT_SIZE cfg" "16 \<le> PER_ENCODE_BIT_SIZE cfg" using w(2) cfg(5,7) by simp_all
  let ?e1 = "bit_upd ?e 0 True"
  have one: "SetOne ?e 0 = Some ?e1" using w(1) P by simp
  have e1: "wf_enc cfg ?e1" "bitat ?e1 0" using wf P by (simp_all add: wf_enc_def)
  show ?thesis
  proof (cases "ns = []")
    case True
    have "block_val ?e1 3 5 = 0" using P zero by (intro bit_word_eqI) (auto simp: bit_block_val)
    then have "delta_encodes gen cfg ?e1 ns" using True e1 by (simp add: delta_encodes_def delta_region_def)
    then show ?thesis using True one assms(3) e1(2) by (auto simp: Delta_EncodeVertex_def)
  next
    case ne: False
    obtain infos where infos: "ParseEncode ns = Some infos" "infos_ok ns infos" using ParseEncode_infos by blast
    note bytes = class_bytes [OF ne infos(1)]
    show ?thesis
    proof (cases "delta_len gen ns \<le> max_bytes_len cfg")
      case True
      let ?e2 = "block_upd ?e1 3 5 (of_nat (length ns))"
      have n: "unat (of_nat (length ns) :: u32) < 2 ^ 5" using delta_len_bound(1) [OF assms(1) True] by (simp add: unat_of_nat)
      have set: "SetEncodeSize ?e1 (of_nat (length ns)) = Some ?e2" using n P by (simp add: SetEncodeSize_def)
      have e2: "wf_enc cfg ?e2" "block_val ?e2 3 5 = of_nat (length ns)" "bitat ?e2 0" using wf n P by (simp_all add: wf_enc_def)
      from encode_region [OF assms(1) e2(1) ne True e2(2)] obtain mem where
        mem: "dc_encode_array C ns (bs_data ?e2) 1 = Some (mem, delta_len gen ns)" "wf_enc cfg (?e2\<lparr>bs_data := mem\<rparr>)"
        "delta_region gen (?e2\<lparr>bs_data := mem\<rparr>) ns" "\<And>p. p < 8 \<Longrightarrow> bitat (?e2\<lparr>bs_data := mem\<rparr>) p = bitat ?e2 p" by blast
      have "delta_encodes gen cfg (?e2\<lparr>bs_data := mem\<rparr>) ns" using mem(2,3) e2(3) header_bits(2) [OF mem(4)] by (simp add: delta_encodes_def)
      moreover have "bitat (?e2\<lparr>bs_data := mem\<rparr>) 0" using mem(4) [of 0] e2(3) by simp
      ultimately show ?thesis using ne infos(1) bytes True one set mem(1) assms(3) by (auto simp: Delta_EncodeVertex_def)
    next
      case False
      from choose_encodes [OF assms(1) ids infos(2) assms(4)] ne infos(1) bytes False assms(3) show ?thesis
        by (auto simp: Delta_EncodeVertex_def)
    qed
  qed
qed

end

end
