(* ===== verification/Delta_Spec.thy ===== *)
theory Delta_Spec
  imports Delta_Choose Hybrid_Spec
begin

text \<open>
  The delta codecs and the encoders on top of them: the three versions are instances of the locales,
  and the properties of the codec and of the encoding of a graph follow.
\<close>

section \<open>Instances\<close>

sublocale delta_encoder \<subseteq> slots: slot_encoder delta_config delta_ids fresh "\<lambda>cfg v e ns. delta_encodes gen cfg e ns"
  "Delta_EncodeVertex C" "Delta_NonNeighborTest C pad" for pad
proof
  fix cfg v assume "delta_config cfg" "is_vertex cfg v"
  then show "fresh cfg (EncodeBitSet cfg ! unat v)" using EncodeBitSet_wf(2) delta_configD(1) by blast
next
  fix cfg st v ns
  assume "delta_config cfg" "wf_encoding cfg st" "is_vertex cfg v" "delta_ids cfg ns" "fresh cfg (st ! unat v)"
  then obtain e where "Delta_EncodeVertex C cfg v ns st = Some (st[unat v := e])" "delta_encodes gen cfg e ns"
    using vertex_encodes is_vertex_index by blast
  then show "\<exists>e. Delta_EncodeVertex C cfg v ns st = Some (st[unat v := e]) \<and> wf_enc cfg e \<and> delta_encodes gen cfg e ns"
    by (auto simp: delta_encodes_def)
next
  fix cfg st v u ns
  assume "delta_config cfg" "wf_encoding cfg st" "is_vertex cfg v" "is_vertex cfg u" "delta_ids cfg ns" "delta_encodes gen cfg (st ! unat v) ns"
  moreover from this have "unat u < 2 ^ 31" using delta_configD(3) by (force simp: is_vertex_def)
  ultimately show "\<exists>r. Delta_NonNeighborTest C pad cfg st v u = Some r \<and> answer_ok r (u \<in> set ns)"
    using test_sound is_vertex_index by blast
qed (rule delta_configD(1))

lemma last_stored:
  assumes "k = length m"
  shows "last (gen_values gen 0 0 (m @ [x])) = gen_values gen 0 0 (m @ [x]) ! k"
  using assms by (simp add: last_conv_nth gen_values_append nth_append)

lemma delta_bytes_base:
  assumes "ns \<noteq> []" "ParseEncode ns = Some infos"
  shows "dc_bytes DeltaSIMDEncode ns infos = Some (delta_len GenValue ns)"
proof -
  have "infos = map (\<lambda>i. \<lparr>delta_bits = (if i = 0 then 0 else GetOneEncodeLength (ns ! i - ns ! (i - 1))),
      val_bits = GetOneEncodeLength (ns ! i), total_bits = data_off (gen_values GenValue 0 0 ns) (Suc i)\<rparr>) [0..<length ns]"
    using assms(2) unfolding ParseEncode_eq by simp
  then show ?thesis using assms(1) by (simp add: DeltaSIMDEncode_def delta_len_def last_conv_nth)
qed

interpretation enc_base: delta_encoder GenValue RecoveryFromDelta DeltaSIMDEncode "\<lambda>m pv. True"
proof
  fix m :: "u32 list" and info :: DeltaInfo and x pv
  assume m: "m \<noteq> []" "delta_bits info = GetOneEncodeLength (x - last m)"
  have "last (gen_values GenValue 0 0 (m @ [x])) = x - last m"
    using m(1) by (simp add: last_stored [OF refl] GenValue_nth nth_append last_conv_nth)
  then show "\<exists>pv'. dc_grow DeltaSIMDEncode info x (length m + 1) pv = (GetOneEncodeLength (last (gen_values GenValue 0 0 (m @ [x]))), pv') \<and> True"
    using m(2) by (simp add: DeltaSIMDEncode_def)
qed (simp_all add: delta_bytes_base, simp_all add: DeltaSIMDEncode_def GenValue_def)

interpretation enc_v1: delta_encoder GenValueV1 RecoveryFromDeltaV1 DeltaSIMDEncodeV1
  "\<lambda>m pv. pv = m ! (length m - 1 - (length m - 1) mod 4)"
proof
  fix m :: "u32 list" and info :: DeltaInfo and x pv
  assume m: "m \<noteq> []" "pv = m ! (length m - 1 - (length m - 1) mod 4)" "val_bits info = GetOneEncodeLength x"
  obtain k where k: "length m = Suc k" using m(1) by (cases m) auto
  have lst: "last (gen_values GenValueV1 0 0 (m @ [x])) = (if length m mod 4 = 0 then x else x - m ! (length m - length m mod 4))"
    by (auto simp: last_stored [OF refl] GenValueV1_nth nth_append)
  show "\<exists>pv'. dc_grow DeltaSIMDEncodeV1 info x (length m + 1) pv = (GetOneEncodeLength (last (gen_values GenValueV1 0 0 (m @ [x]))), pv') \<and>
      pv' = (m @ [x]) ! (length (m @ [x]) - 1 - (length (m @ [x]) - 1) mod 4)"
    using m(2,3) k unfolding lst by (auto simp: DeltaSIMDEncodeV1_def mod_Suc nth_append split: if_splits)
qed (simp_all add: DeltaSIMDEncodeV1_def GenValueV1_def GetRequiredBytes_eq delta_len_def)

interpretation enc_v2: delta_encoder GenValueV2 RecoveryFromDeltaV2 DeltaSIMDEncodeV2 "\<lambda>m pv. True"
proof
  fix m :: "u32 list" and info :: DeltaInfo and x pv
  assume m: "m \<noteq> []" "val_bits info = GetOneEncodeLength x" "delta_bits info = GetOneEncodeLength (x - last m)"
  have lst: "last (gen_values GenValueV2 0 0 (m @ [x])) = (if length m mod 4 = 0 then x else x - last m)"
    using m(1) by (auto simp: last_stored [OF refl] GenValueV2_nth nth_append last_conv_nth)
  show "\<exists>pv'. dc_grow DeltaSIMDEncodeV2 info x (length m + 1) pv = (GetOneEncodeLength (last (gen_values GenValueV2 0 0 (m @ [x]))), pv') \<and> True"
    using m(2,3) unfolding lst by (auto simp: DeltaSIMDEncodeV2_def mod_Suc)
qed (simp_all add: DeltaSIMDEncodeV2_def GenValueV2_def GetRequiredBytes_eq delta_len_def)

section \<open>Pairs\<close>

text \<open>The test of a pair combines the tests of its vertices.\<close>

lemma Delta_NEpairTest_answer:
  assumes "Delta_IsDecodable st v = Some d1" "Delta_IsDecodable st u = Some d2" "unat v < length st" "unat u < length st"
    "Delta_NonNeighborTest C pad cfg st v u = Some r1" "Delta_NonNeighborTest C pad cfg st u v = Some r2" "answer_ok r1 adj" "answer_ok r2 adj"
  shows "\<exists>r. Delta_NEpairTest C pad cfg st v u = Some r \<and> answer_ok r adj"
  using assms answer_ok_min [OF assms(7,8)] by (cases d1; cases d2) (simp_all add: Delta_NEpairTest_def Delta_NonNeighborTest_def)

context delta_encoder
begin

lemma pair_graph_sound:
  assumes "delta_config cfg" "\<And>v. is_vertex cfg v \<Longrightarrow> delta_ids cfg (adj v)"
    "\<And>u v. is_vertex cfg u \<Longrightarrow> is_vertex cfg v \<Longrightarrow> u \<in> set (adj v) \<longleftrightarrow> v \<in> set (adj u)"
  shows "\<exists>st. build_all (Delta_EncodeVertex C cfg) adj (vertex_list cfg) (SIMDEncode cfg) = Some st \<and> wf_encoding cfg st \<and>
    (\<forall>pad u v. is_vertex cfg u \<longrightarrow> is_vertex cfg v \<longrightarrow>
       (\<exists>r. Delta_NEpairTest C pad cfg st v u = Some r \<and> answer_ok r (u \<in> set (adj v))))"
proof -
  have new: "SIMDEncode cfg = EncodeBitSet cfg" by (simp add: SIMDEncode_def EncodeBitSet_def)
  obtain st where st: "build_all (Delta_EncodeVertex C cfg) adj (vertex_list cfg) (EncodeBitSet cfg) = Some st" "wf_encoding cfg st"
    using slots.graph_sound [OF assms, of "\<lambda>_. 0"] by blast
  have tests: "\<exists>r. Delta_NonNeighborTest C pad cfg st v u = Some r \<and> answer_ok r (u \<in> set (adj v))" if "is_vertex cfg u" "is_vertex cfg v" for pad u v
    using slots.graph_sound [OF assms, of pad] st(1) that by auto
  have "\<exists>r. Delta_NEpairTest C pad cfg st v u = Some r \<and> answer_ok r (u \<in> set (adj v))" if uv: "is_vertex cfg u" "is_vertex cfg v" for pad u v
  proof -
    have dec: "\<exists>d. Delta_IsDecodable st w = Some d" "unat w < length st" if "is_vertex cfg w" for w
    proof -
      show lt: "unat w < length st" using is_vertex_index [OF st(2) that] .
      then have "wf_enc cfg (st ! unat w)" using st(2) by (simp add: wf_encoding_def)
      then have "wf_bs (st ! unat w)" "1 \<le> bs_size (st ! unat w)" using wf_configD(13) [OF delta_configD(1) [OF assms(1)]] by (simp_all add: wf_enc_def)
      from GetFirstBit_eq [OF this] lt show "\<exists>d. Delta_IsDecodable st w = Some d" by (simp add: Delta_IsDecodable_def)
    qed
    obtain d1 d2 where d: "Delta_IsDecodable st v = Some d1" "Delta_IsDecodable st u = Some d2" using dec(1) uv by blast
    obtain r1 r2 where r: "Delta_NonNeighborTest C pad cfg st v u = Some r1" "Delta_NonNeighborTest C pad cfg st u v = Some r2"
      "answer_ok r1 (u \<in> set (adj v))" "answer_ok r2 (u \<in> set (adj v))"
      using tests [OF uv, of pad] tests [OF uv(2,1), of pad] assms(3) [OF uv] by auto
    show ?thesis by (rule Delta_NEpairTest_answer [OF d dec(2) [OF uv(2)] dec(2) [OF uv(1)] r])
  qed
  with st show ?thesis unfolding new by blast
qed

end

section \<open>Properties\<close>

definition delta_classes :: "(delta_class \<times> gen \<times> recover) list" where
  "delta_classes = [(DeltaSIMDEncode, GenValue, RecoveryFromDelta), (DeltaSIMDEncodeV1, GenValueV1, RecoveryFromDeltaV1),
     (DeltaSIMDEncodeV2, GenValueV2, RecoveryFromDeltaV2)]"

text \<open>C10. Encoding a graph with the delta encoders is sound. For all three versions, at most ten words per
  vertex and fewer than \<open>2 ^ 31\<close> vertices: encoding the ascending neighbours of every vertex of an
  undirected graph succeeds, and afterwards the test of any pair, whatever the memory behind an
  encoding holds, has an answer that is never wrong.\<close>

theorem delta_graph_sound:
  assumes "(C, gen, rec) \<in> set delta_classes" "delta_config cfg" "\<And>v. is_vertex cfg v \<Longrightarrow> delta_ids cfg (adj v)"
    "\<And>u v. is_vertex cfg u \<Longrightarrow> is_vertex cfg v \<Longrightarrow> u \<in> set (adj v) \<longleftrightarrow> v \<in> set (adj u)"
  shows "\<exists>st. build_all (Delta_EncodeVertex C cfg) adj (vertex_list cfg) (SIMDEncode cfg) = Some st \<and> wf_encoding cfg st \<and>
    (\<forall>pad u v. is_vertex cfg u \<longrightarrow> is_vertex cfg v \<longrightarrow>
       (\<exists>r. Delta_NEpairTest C pad cfg st v u = Some r \<and> answer_ok r (u \<in> set (adj v))))"
  using assms(1) enc_base.pair_graph_sound [OF assms(2-4)] enc_v1.pair_graph_sound [OF assms(2-4)] enc_v2.pair_graph_sound [OF assms(2-4)]
  by (auto simp: delta_classes_def)

lemma demo_delta: "delta_config demo_config" "delta_ids demo_config (demo_adj v)"
  using demo_config_good demo_adj_ids [of v] by (simp_all add: delta_config_def good_config_def delta_ids_def, simp_all add: demo_config_def demo_adj_def)

lemma delta_graph_sound_witness:
  "\<exists>st. build_all (Delta_EncodeVertex DeltaSIMDEncodeV1 demo_config) demo_adj (vertex_list demo_config) (SIMDEncode demo_config) = Some st \<and>
    wf_encoding demo_config st \<and>
    (\<forall>pad u v. is_vertex demo_config u \<longrightarrow> is_vertex demo_config v \<longrightarrow>
       (\<exists>r. Delta_NEpairTest DeltaSIMDEncodeV1 pad demo_config st v u = Some r \<and> answer_ok r (u \<in> set (demo_adj v))))"
  using demo_delta demo_adj_sym
  by (intro delta_graph_sound [of DeltaSIMDEncodeV1 GenValueV1 RecoveryFromDeltaV1]) (simp_all add: delta_classes_def)

text \<open>C11. Encoding and searching. \<^verbatim>\<open>EncodeArray\<close> of an ascending list of identifiers below \<open>2 ^ 31\<close> writes the
  control bytes and the data and nothing else, reports exactly the bytes it used, which are the ones
  that \<^verbatim>\<open>GetRequiredBytes\<close> computed before and \<^verbatim>\<open>GetEncodeLength\<close> finds again; and \<^verbatim>\<open>FindWithCount\<close> then says
  of every identifier whether it is in the list, below its first element, above its last, or in a gap.\<close>

theorem delta_encode_find:
  assumes "(C, gen, rec) \<in> set delta_classes" "searchable xs" "length xs < 2 ^ 32" "out + delta_len gen xs \<le> length mem0" "delta_len gen xs < 256"
  shows "GetRequiredBytes gen (aget xs) (length xs) = Some (delta_len gen xs) \<and>
    (\<exists>mem. EncodeArray (EncodeDeltas gen) xs mem0 out = Some (mem, delta_len gen xs) \<and> length mem = length mem0 \<and>
      (\<forall>i < length mem0. i < out \<or> out + delta_len gen xs \<le> i \<longrightarrow> mem ! i = mem0 ! i) \<and>
      GetEncodeLength mem out (length xs) = Some (delta_len gen xs) \<and>
      (\<forall>pad v. unat v < 2 ^ 31 \<longrightarrow> FindWithCount rec pad mem out (length xs) v = Some (find_spec xs v)))"
proof -
  have ne: "xs \<noteq> []" using assms(2) by (simp add: searchable_def)
  define vs kl where "vs = gen_values gen 0 0 xs" and "kl = (length xs + 3) div 4"
  have room: "out + kl + data_off vs (length xs) \<le> length mem0" "data_off vs (length xs) < 256"
    using assms(4,5) by (simp_all add: delta_len_def vs_def kl_def)
  from EncodeArray_law [OF ne, of out gen mem0] room obtain mem where
    mem: "EncodeArray (EncodeDeltas gen) xs mem0 out = Some (mem, delta_len gen xs)" "length mem = length mem0" "enc_at mem out (out + kl) vs"
    "\<forall>i < length mem0. i < out \<or> out + delta_len gen xs \<le> i \<longrightarrow> mem ! i = mem0 ! i"
    by (auto simp: delta_len_def vs_def kl_def add.assoc)
  have "length vs = length xs" by (simp add: vs_def)
  then have vs: "length vs = length xs" "vs \<noteq> []" using ne by auto
  have len: "GetEncodeLength mem out (length xs) = Some (delta_len gen xs)"
    using GetEncodeLength_correct [OF mem(3) vs(2)] vs(1) by (simp add: delta_len_def vs_def)
  have "FindWithCount rec pad mem out (length xs) v = Some (find_spec xs v)" if "unat v < 2 ^ 31" for pad v
    using assms(1) base.FindWithCount_correct [of mem out xs v pad] v1.FindWithCount_correct [of mem out xs v pad]
      v2.FindWithCount_correct [of mem out xs v pad] mem(3) assms(2,3) that
    by (auto simp: delta_classes_def vs_def kl_def)
  with mem(1,2,4) len show ?thesis by (auto simp: GetRequiredBytes_eq delta_len_def)
qed

lemma delta_encode_find_witness:
  "searchable [3, 5, 300, 301, 70000] \<and> delta_len GenValue [3, 5, 300, 301, 70000] = 10 \<and>
   GetRequiredBytes GenValue (aget [3, 5, 300, 301, 70000]) 5 = Some 10 \<and>
   (\<exists>mem. EncodeArray (EncodeDeltas GenValue) [3, 5, 300, 301, 70000] (replicate 20 0) 1 = Some (mem, 10) \<and> length mem = 20 \<and>
      (\<forall>i < 20. i < 1 \<or> 11 \<le> i \<longrightarrow> mem ! i = 0) \<and> GetEncodeLength mem 1 5 = Some 10 \<and>
      (\<forall>pad v. unat v < 2 ^ 31 \<longrightarrow> FindWithCount RecoveryFromDelta pad mem 1 5 v = Some (find_spec [3, 5, 300, 301, 70000] v)))"
proof -
  have s: "searchable [3, 5, 300, 301, 70000]" by (simp add: searchable_def)
  have l: "delta_len GenValue [3, 5, 300, 301, 70000] = 10" by (simp add: delta_len_def data_off_def GenValue_def GetOneEncodeLength_def)
  have c: "(DeltaSIMDEncode, GenValue, RecoveryFromDelta) \<in> set delta_classes" by (simp add: delta_classes_def)
  have "length [3, 5, 300, 301, 70000 :: u32] = 5" by simp
  from delta_encode_find [OF c s, of 1 "replicate 20 0", unfolded this l] s l show ?thesis by simp
qed

text \<open>C29. The hand written tables are the ones that the format defines: for the control byte of lengths \<open>l0\<close> to
  \<open>l3\<close>, \<^verbatim>\<open>lengthTable\<close> holds their sum, \<^verbatim>\<open>TotalLengthTable\<close> their prefix sums, and \<^verbatim>\<open>shuffleTable\<close> moves the bytes
  of value \<open>i\<close> to lane \<open>i\<close> and clears the rest of the lane.\<close>

theorem delta_tables:
  "lengthTable = by_lengths (\<lambda>l0 l1 l2 l3. l0 + l1 + l2 + l3) \<and>
   TotalLengthTable = by_lengths (\<lambda>l0 l1 l2 l3. [l0, l0 + l1, l0 + l1 + l2, l0 + l1 + l2 + l3]) \<and>
   shuffleTable = by_lengths shuffle_row"
  using lengthTable_eq TotalLengthTable_eq shuffleTable_eq by blast

text \<open>The limit of the signed comparison: in the list of 1 and \<open>2 ^ 31\<close> the second element is reported to be
  below the first.\<close>

theorem delta_find_signed_limit:
  "do { (mem, _) \<leftarrow> EncodeArray (EncodeDeltas GenValue) [1, 0x80000000] (replicate 8 0) 0;
        FindWithCount RecoveryFromDelta (\<lambda>_. 0) mem 0 2 0x80000000 } = Some LESS_THAN_MIN"
  by code_simp

end
