(* ===== verification/Delta_V3_Spec.thy ===== *)
theory Delta_V3_Spec
  imports Delta_V3_Members Delta_Spec
begin

text \<open>
  The third codec. Its table of orders is the one its search trees compute; a search always ends with
  an answer, and only the answer \<^verbatim>\<open>NOT_EXIST\<close> can be wrong, which it is because \<^verbatim>\<open>DFS\<close> gives up after the
  first child.
\<close>

section \<open>The codec\<close>

text \<open>For every length from 5 to 40 the hand written row of \<^verbatim>\<open>ary_order\<close> is the order that \<^verbatim>\<open>SearchTree\<close>
  computes; up to four integers it is the identity.\<close>

theorem ary_order_is_tree_order:
  "list_all (\<lambda>n. map_option get_order (trees_ary n) = Some (take n (ary_order ! (n - 1)))) [5..<41] \<and>
   list_all (\<lambda>n. take n (ary_order ! (n - 1)) = [0..<n]) [1..<5]"
  by code_simp

text \<open>C34. Encoding up to 40 ascending identifiers below \<open>2 ^ 31\<close> in the order of the tree and searching
  without \<^verbatim>\<open>HSIMD\<close>: the search ends, and an answer \<^verbatim>\<open>EXIST\<close>, \<^verbatim>\<open>LESS_THAN_MIN\<close> or \<^verbatim>\<open>GRATER_THAN_MAX\<close> is right.\<close>

theorem v3_encode_find:
  assumes "searchable xs" "length xs \<le> 40"
    "out + delta_len GenValueV2 (v3_list xs) \<le> length mem0" "delta_len GenValueV2 (v3_list xs) < 256"
  shows "\<exists>mem. EncodeArray EncodeDeltasV3 xs mem0 out = Some (mem, delta_len GenValueV2 (v3_list xs)) \<and>
    (\<forall>pad v. unat v < 2 ^ 31 \<longrightarrow> (\<exists>r. FindWithCountV3 False pad mem out (length xs) v = Some r \<and> v3_answer xs v r))"
proof -
  let ?ys = "v3_list xs" and ?g = "(length xs + 3) div 4"
  have ne: "xs \<noteq> []" using assms(1) by (simp add: searchable_def)
  have n: "1 \<le> length xs" using ne by (cases xs) auto
  obtain mem where mem: "EncodeArray EncodeDeltasV3 xs mem0 out = Some (mem, delta_len GenValueV2 ?ys)"
    "enc_at mem out (out + ?g) (gen_values GenValueV2 0 0 ?ys)" using EncodeDeltasV3_law [OF ne assms(2-4)] by blast
  have "\<exists>r. FindWithCountV3 False pad mem out (length xs) v = Some r \<and> v3_answer xs v r" if v: "unat v < 2 ^ 31" for pad v
  proof -
    have "4 * 0 < length ?ys" using ne by simp
    from v3_group [OF mem(2) this, of pad] obtain k d where kd: "aget mem out = Some k" "DecodeData_lanes pad mem k (out + ?g) = Some d"
      "holds_group ?ys 0 (RecoveryFromDeltaV3 d)" by auto
    show ?thesis
    proof (cases "length xs \<le> 4")
      case True
      then have one: "?g = 1" using n by linarith
      obtain T where T: "trees_ary (length xs) = Some T" using trees_aryE [OF n assms(2)] by blast
      have l: "aget LAST_COMPARE_MASK (length xs mod 4) = Some (LAST_COMPARE_MASK ! (length xs mod 4))" by (simp add: LAST_COMPARE_MASK_def)
      show ?thesis unfolding FindWithCountV3_def Let_def one
        using T kd(1,2) [unfolded one] l FindV3_small [OF assms(1) True v root_lanes(3) [OF ne assms(2) kd(3) True]]
        by (auto simp: hsimd_hit_def split: if_splits)
    qed (use FindV3_large [OF assms(1,2) _ mem(2) v kd] in simp)
  qed
  with mem(1) show ?thesis by blast
qed

lemma v3_encode_find_witness:
  "searchable [3, 5, 300, 301, 70000] \<and>
   (\<exists>mem. EncodeArray EncodeDeltasV3 [3, 5, 300, 301, 70000] (replicate 32 0) 1 = Some (mem, delta_len GenValueV2 (v3_list [3, 5, 300, 301, 70000])) \<and>
    (\<forall>pad v. unat v < 2 ^ 31 \<longrightarrow> (\<exists>r. FindWithCountV3 False pad mem 1 (length [3, 5, 300, 301, 70000 :: u32]) v = Some r \<and> v3_answer [3, 5, 300, 301, 70000] v r)))"
proof
  show s: "searchable [3, 5, 300, 301, 70000]" by (simp add: searchable_def)
  have "v3_list [3, 5, 300, 301, 70000] = [3, 5, 300, 70000, 301]" by code_simp
  then have "delta_len GenValueV2 (v3_list [3, 5, 300, 301, 70000]) = 11"
    by (simp add: delta_len_def data_off_def GenValueV2_def GetOneEncodeLength_def)
  then show "\<exists>mem. EncodeArray EncodeDeltasV3 [3, 5, 300, 301, 70000] (replicate 32 0) 1 = Some (mem, delta_len GenValueV2 (v3_list [3, 5, 300, 301, 70000])) \<and>
      (\<forall>pad v. unat v < 2 ^ 31 \<longrightarrow> (\<exists>r. FindWithCountV3 False pad mem 1 (length [3, 5, 300, 301, 70000 :: u32]) v = Some r \<and> v3_answer [3, 5, 300, 301, 70000] v r))"
    by (intro v3_encode_find [OF s]) simp_all
qed

section \<open>Where the third version fails\<close>

text \<open>C35. What the search of the third version makes of members. Of at most 20 identifiers every one is found.
  Of 21 to 40 the last but one is reported as missing, whatever the identifiers are, since \<^verbatim>\<open>DFS\<close> leaves its
  loop over the children in the first round. And with \<^verbatim>\<open>HSIMD\<close> the sum of the first and another identifier is
  found whether or not it is in the list, since the scalar recovery sums a second time.\<close>

theorem v3_search_members:
  assumes "searchable xs" "length xs \<le> 40" "out + delta_len GenValueV2 (v3_list xs) \<le> length mem0"
  shows "\<exists>mem. EncodeArray EncodeDeltasV3 xs mem0 out = Some (mem, delta_len GenValueV2 (v3_list xs)) \<and>
    (length xs \<le> 20 \<longrightarrow> (\<forall>pad. \<forall>x \<in> set xs. FindWithCountV3 False pad mem out (length xs) x = Some EXIST)) \<and>
    (20 < length xs \<longrightarrow> (\<forall>pad. FindWithCountV3 False pad mem out (length xs) (xs ! (length xs - 2)) = Some NOT_EXIST)) \<and>
    (2 \<le> length xs \<longrightarrow> (\<exists>y \<in> set xs. \<forall>pad. FindWithCountV3 True pad mem out (length xs) (y + hd xs) = Some EXIST))"
proof -
  let ?n = "length xs" and ?g = "(length xs + 3) div 4"
  have ne: "xs \<noteq> []" using assms(1) by (simp add: searchable_def)
  have n: "1 \<le> ?n" "4 * 0 < length (v3_list xs)" using ne by (cases xs; simp)+
  obtain T where T: "trees_ary ?n = Some T" using trees_aryE [OF n(1) assms(2)] by blast
  obtain mem where mem: "EncodeArray EncodeDeltasV3 xs mem0 out = Some (mem, delta_len GenValueV2 (v3_list xs))"
    "enc_at mem out (out + ?g) (gen_values GenValueV2 0 0 (v3_list xs))" using EncodeDeltasV3_law [OF ne assms(2,3)] delta_len_le [of GenValueV2 "v3_list xs"] assms(2) by fastforce
  have root: "\<exists>k d. aget mem out = Some k \<and> DecodeData_lanes pad mem k (out + ?g) = Some d \<and> holds_group (v3_list xs) 0 (RecoveryFromDeltaV3 d)" for pad
    using v3_group [OF mem(2) n(2), of pad] by auto
  note large = FindV3_member [OF assms(1,2) _ mem(2)]
  have "FindWithCountV3 False pad mem out ?n (xs ! i) = Some EXIST" if "?n \<le> 20" "i < ?n" for pad i
  proof (cases "4 < ?n")
    case True
    then have "v3_finds ?n [0..<?n]" using v3_finds_upto that(1) by simp
    then show ?thesis using large [OF True that(2), of pad] that(2) by (auto simp: v3_finds_def list_all_iff)
  next
    case False
    then have "?n \<le> 4" "?g = 1" using n(1) by linarith+
    then show ?thesis using FindV3_member_small [OF assms(1) _ that(2) T] root [of pad] by auto
  qed
  then have "?n \<le> 20 \<longrightarrow> (\<forall>pad. \<forall>x \<in> set xs. FindWithCountV3 False pad mem out ?n x = Some EXIST)" by (auto simp: in_set_conv_nth)
  moreover have "FindWithCountV3 False pad mem out ?n (xs ! (?n - 2)) = Some NOT_EXIST" if "20 < ?n" for pad
  proof -
    have "v3_misses ?n (?n - 2)" using v3_misses_from [OF that assms(2)] .
    moreover have "4 < ?n" "?n - 2 < ?n" using that by linarith+
    ultimately show ?thesis using large [of "?n - 2" pad] by (auto simp: v3_misses_def)
  qed
  moreover have "\<exists>y \<in> set xs. \<forall>pad. FindWithCountV3 True pad mem out ?n (y + hd xs) = Some EXIST" if "2 \<le> ?n"
    using FindV3_hsimd [OF assms(1) that assms(2) T] root v3_list_nth(2) [OF assms(2), of 1] that by fastforce
  ultimately show ?thesis using mem(1) by blast
qed

lemma v3_search_members_witness:
  "\<exists>mem len. EncodeArray EncodeDeltasV3 (map of_nat [2..<23]) (replicate 128 0) 0 = Some (mem, len) \<and>
     (\<forall>pad. FindWithCountV3 False pad mem 0 21 21 = Some NOT_EXIST)"
proof -
  let ?xs = "map of_nat [2..<23] :: u32 list"
  have s: "searchable ?xs" by (simp add: searchable_def)
  have "delta_len GenValueV2 (v3_list ?xs) \<le> 128" using delta_len_le [of GenValueV2 "v3_list ?xs"] by (simp del: upt_rec_numeral)
  moreover have "?xs ! (length ?xs - 2) = 21" "length ?xs = 21" by simp_all
  ultimately show ?thesis using v3_search_members [OF s, of 0 "replicate 128 0"] by (auto simp del: upt_rec_numeral)
qed

text \<open>A configuration with one word per vertex and a vertex with 102 neighbours that need two bytes: no block
  fits, so the neighbours are hashed. But the number of bytes, 128, has been written into the field for
  the number of integers and has set the flag of a decodable vertex.\<close>

lemma two_bytes: "256 \<le> x \<Longrightarrow> 2 \<le> GetOneEncodeLength x"
  by (auto simp: GetOneEncodeLength_def word_le_nat_alt word_less_nat_alt)

lemma no_block_fits:
  assumes "max_bytes_len cfg = 3" "\<forall>x \<in> set ns. 256 \<le> x" "i < length ns" "40 < length ns"
  shows "chooseV3_step cfg ns i best = Some best"
proof -
  obtain score blk arr where best: "best = (score, blk, arr)" by (cases best)
  have r1: "aget ary_order 0 = Some (0 # replicate 39 0)" and r2: "aget ary_order 1 = Some (0 # 1 # replicate 38 0)"
    by code_simp+
  have two: "2 \<le> GetOneEncodeLength (ns ! i)" using assms(2,3) by (intro two_bytes) simp
  have one: "1 \<le> GetOneEncodeLength y" for y by simp
  have b1: "GetRequiredBytesV3_block ns i 1 = Some (1 + GetOneEncodeLength (ns ! i))"
    using r1 assms(3) by (simp add: GetRequiredBytesV3_block_def GetRequiredBytes_def GenValueV2_def Let_def)
  have b2: "GetRequiredBytesV3_block ns i 2 = Some (1 + GetOneEncodeLength (ns ! i) + GetOneEncodeLength (ns ! (1 + i) - ns ! i))" if "1 + i < length ns"
    using r2 that by (simp add: GetRequiredBytesV3_block_def GetRequiredBytes_def GenValueV2_def Let_def upt_rec)
  have "\<exists>len. GetRequiredBytesV3_block ns i n = Some len \<and> 3 < len + (n + 3) div 4" if "n = 1 \<or> n = 2 \<and> 1 + i < length ns" for n
    using that b1 b2 two one [of "ns ! (1 + i) - ns ! i"] by auto
  then have stop: "chooseV3_loop cfg ns \<lparr>bi_begin = i, block_size = n, block_type = t\<rparr> best = Some best" if "n = 1 \<or> n = 2 \<and> 1 + i < length ns" for n t
    using that assms(1) unfolding best by (subst chooseV3_loop.simps) (force simp: Let_def)
  have "i = wsub32 (length ns) 1 \<or> 1 + i < length ns" using assms(3,4) by auto
  then show ?thesis using stop by (auto simp: chooseV3_step_def)
qed

lemma foldo_same: "(\<And>x. x \<in> set xs \<Longrightarrow> f x s = Some s) \<Longrightarrow> foldo f xs s = Some s"
  by (induction xs) auto

text \<open>The five bit field takes 128 and leaves it in the byte.\<close>

lemma SetEncodeSize_overflow:
  assumes "wf_bs e" "1 \<le> bs_size e" "bs_data e ! 0 = 0"
  shows "SetEncodeSize e 128 = Some (e\<lparr>bs_data := (bs_data e)[0 := 128]\<rparr>)"
  using assms by (simp add: SetEncodeSize_def BlockSet_def ZERO_BLOCK_MASK_def aget_def aput_def Let_def)

text \<open>The bytes written in between: the flag is set and stays, the number of integers reads as zero.\<close>

lemma overflow_encode:
  assumes "delta_config cfg" "K_SIZE cfg = 1" "fresh cfg e" "block = \<lparr>bi_begin = 0, block_size = 0, block_type = FullHash\<rparr>"
  shows "\<exists>e1 e3. SetEncodeSize e 128 = Some e1 \<and> ConstructEncode cfg C block ns e1 = Some e3 \<and>
    wf_enc cfg e3 \<and> bitat e3 0 \<and> block_val e3 3 5 = 0"
proof -
  have P: "PER_ENCODE_BIT_SIZE cfg = 32" using delta_configD(4,5) [OF assms(1)] assms(2) by simp
  have zero: "\<And>p. p < 32 \<Longrightarrow> \<not> bitat e p" and w: "wf_bs e" "bs_size e = 4" using assms(2,3) P by (simp_all add: fresh_def wf_enc_def)
  have "bs_data e ! 0 = 0"
  proof (rule bit_word_eqI)
    fix k :: nat assume "k < LENGTH(8)"
    then have "7 - k < 8" "7 - (7 - k) = k" by simp_all
    then show "bit (bs_data e ! 0) k = bit 0 k" using zero [of "7 - k"] bitat_byte [of "7 - k" e 0] by simp
  qed
  from SetEncodeSize_overflow [OF w(1) _ this] w(2)
  have set: "SetEncodeSize e 128 = Some (e\<lparr>bs_data := (bs_data e)[0 := 128]\<rparr>)" by simp
  define e1 where "e1 = e\<lparr>bs_data := (bs_data e)[0 := 128]\<rparr>"
  have e1: "wf_bs e1" "bs_size e1 = 4" using w by (simp_all add: e1_def)
  have bits1: "bitat e1 p = (p = 0)" if "p < 8" for p
  proof -
    have b: "bit (128 :: u8) j \<longleftrightarrow> j = 7" for j using bit_exp_iff [where 'a = u8, of 7 j] by auto
    have "bitat e1 p = bit (128 :: u8) (7 - p)" using that w by (simp add: e1_def bitat_def)
    also have "\<dots> = (p = 0)" unfolding b using that by linarith
    finally show ?thesis .
  qed
  define e2 where "e2 = block_upd e1 1 2 1"
  have e2: "wf_enc cfg e2" "Delta_SetBlockModel e1 FullHash = Some e2" using e1 assms(2) by (simp_all add: e2_def wf_enc_def)
  have bits2: "bitat e2 p = (p = 0 \<or> p = 2)" if "p < 8" for p using that e1 bits1 [of p] by (auto simp: e2_def bit_1_iff)
  have region: "delta_region GenValueV2 e2 []" using bits2 by (auto simp: delta_region_def bit_block_val intro!: bit_word_eqI)
  have hb: "delta_hash_begin GenValueV2 [] = 8" by (simp add: delta_hash_begin_def delta_len_def)
  obtain e3 where e3: "foldo (\<lambda>i e. if 0 \<le> i \<and> int i \<le> int 0 + int 0 - 1 then Some e
         else do { v \<leftarrow> aget ns i; p \<leftarrow> Delta_Hash cfg v 8; SetOne e p }) [0..<length ns] e2 = Some e3"
    "wf_enc cfg e3" "\<And>p. p < 8 \<Longrightarrow> bitat e3 p = bitat e2 p"
    using enc_v2.set_hashes [OF assms(1) e2(1) region, of ns "[]" ns] P hb by (auto simp: delta_len_def)
  have con: "ConstructEncode cfg C block ns e1 = Some e3" using e2(2) e3(1) P by (simp add: ConstructEncode_def Let_def assms(4))
  have "block_val e3 3 5 = 0" using e3(3) bits2 by (intro bit_word_eqI) (auto simp: bit_block_val)
  then show ?thesis using set con e3(2) e3(3) [of 0] bits2 [of 0] by (auto simp: e1_def)
qed

text \<open>The third version loses neighbours. With one word per vertex, encoding a vertex with 102 neighbours
  of two bytes each succeeds and leaves it marked as decodable with no integers; from then on every
  vertex, every neighbour included, is reported as a non-neighbour.\<close>

theorem v3_flag_overflow:
  assumes "delta_config cfg" "K_SIZE cfg = 1" "length ns = 102" "\<forall>x \<in> set ns. 256 \<le> x" "unat v < length st" "fresh cfg (st ! unat v)"
  shows "\<exists>st'. EncodeVertexV3 cfg v ns st = Some st' \<and> Delta_IsDecodable st' v = Some True \<and>
    (\<forall>pad u. Delta_NonNeighborTest (DeltaSIMDEncodeV3 cfg) pad cfg st' v u = Some NonNeighbor)"
proof -
  let ?block = "\<lparr>bi_begin = 0, block_size = 0, block_type = FullHash\<rparr>"
  note cfg = delta_configD [OF assms(1)]
  have mb: "max_bytes_len cfg = 3" using cfg(4) assms(2) by simp
  obtain e1 e3 where e: "SetEncodeSize (st ! unat v) 128 = Some e1" "ConstructEncode cfg (DeltaSIMDEncodeV3 cfg) ?block ns e1 = Some e3"
    "wf_enc cfg e3" "bitat e3 0" "block_val e3 3 5 = 0" using overflow_encode [OF assms(1,2,6) refl] by blast
  obtain b s where sc: "FullHashScoreCount cfg ns (max_bytes_len cfg * 8) 0 = Some (b, s)"
    using FullHashScoreCount_defined [of cfg "max_bytes_len cfg * 8" ns] wf_configD(14,15) [OF cfg(1)] mb by auto
  have "DynamicChooseV3 cfg ns e1 = Some e3"
    unfolding DynamicChooseV3_def Let_def sc bind.bind_lunit case_prod_conv
    using e(2) foldo_same [of "[0..<length ns]" "chooseV3_step cfg ns" "(s, ?block, replicate (PER_ENCODE_BIT_SIZE cfg) None)"]
      no_block_fits [OF mb assms(4)] assms(3) by simp
  moreover have "ns \<noteq> []" "GetRequiredBytesV3 ns = Some 128" using assms(3) by (auto simp: GetRequiredBytesV3_def)
  ultimately have run: "EncodeVertexV3 cfg v ns st = Some (st[unat v := e3])" using assms(5) e(1) mb by (simp add: EncodeVertexV3_def)
  have w3: "wf_bs e3" "1 \<le> bs_size e3" using e(3) assms(2) by (simp_all add: wf_enc_def)
  show ?thesis using run GetFirstBit_eq [OF w3] GetEncodeSize_eq [OF w3] e(4,5) assms(5)
    by (simp add: Delta_IsDecodable_def Delta_NonNeighborTest_def FindDecodable_def)
qed

definition v3_config :: config where
  "v3_config = \<lparr>K_SIZE = 1, VERTEX_SIZE = 500, DEGREE = 4, B_FILTER_ENCODE_BITS = 500,
     PER_ENCODE_BIT_SIZE = 32, VERTEX_BIT_SIZE = 9, MAX_K_CORE_SIZE = 3, LOG_K = 2,
     MAX_INTEGER_SIZE = 3, BLOCK_BEGIN_INDEX = 5, BLOCK_NUMS = 31, ELEMENT_SIZE = 10,
     BIT_HASH_BEST_NUMS = 1, INT_HASH_BEST_NUMS = 1, COUNT_HASH_BEST_NUMS = 1, PREFIX_BIT_SIZE = 5, HSIMD = False\<rparr>"

lemma v3_flag_overflow_witness:
  "300 \<in> set (map of_nat [300..<402] :: u32 list) \<and>
   (\<exists>st'. EncodeVertexV3 v3_config 1 (map of_nat [300..<402]) (EncodeBitSet v3_config) = Some st' \<and> Delta_IsDecodable st' 1 = Some True \<and>
    (\<forall>pad u. Delta_NonNeighborTest (DeltaSIMDEncodeV3 v3_config) pad v3_config st' 1 u = Some NonNeighbor))"
proof
  have c: "delta_config v3_config" "K_SIZE v3_config = 1" by (simp_all add: delta_config_def wf_config_def v3_config_def)
  have "is_vertex v3_config 1" by (simp add: is_vertex_def v3_config_def)
  then have f: "fresh v3_config (EncodeBitSet v3_config ! unat (1 :: u32))" "unat (1 :: u32) < length (EncodeBitSet v3_config)"
    using EncodeBitSet_wf [OF delta_configD(1) [OF c(1)]] is_vertex_index by blast+
  have ids: "\<forall>x \<in> set (map of_nat [300..<402] :: u32 list). 256 \<le> x" by (auto simp: word_le_nat_alt unat_of_nat)
  have "\<exists>st'. EncodeVertexV3 v3_config 1 (map of_nat [300..<402]) (EncodeBitSet v3_config) = Some st' \<and> Delta_IsDecodable st' 1 = Some True \<and>
    (\<forall>pad u. Delta_NonNeighborTest (DeltaSIMDEncodeV3 v3_config) pad v3_config st' 1 u = Some NonNeighbor)"
    by (rule v3_flag_overflow [OF c _ ids f(2,1)]) simp
  then show "\<exists>st'. EncodeVertexV3 v3_config 1 (map of_nat [300..<402]) (EncodeBitSet v3_config) = Some st' \<and> Delta_IsDecodable st' 1 = Some True \<and>
    (\<forall>pad u. Delta_NonNeighborTest (DeltaSIMDEncodeV3 v3_config) pad v3_config st' 1 u = Some NonNeighbor)" .
  have "(300 :: u32) = of_nat 300" by simp
  then show "300 \<in> set (map of_nat [300..<402] :: u32 list)" unfolding set_map by (rule image_eqI) simp
qed

end
