(* ===== verification/Peel_Build.thy ===== *)
theory Peel_Build
  imports Slot_Encoder
begin

text \<open>
  The construction of an encoding by peeling, as \<^verbatim>\<open>DeltaSIMDVEND::BuildEncoding\<close> and
  \<^verbatim>\<open>RangeCompVend::BuildEncoding\<close> do it. A vertex whose list fits is encoded completely and marked in
  \<^verbatim>\<open>filtered\<close>; from then on it is left out of the lists of the other vertices, which may then fit, too.
  What remains is encoded partially. An edge is so stored at the end that was peeled first.

  The encoder is an argument: \<open>enc\<close> is \<^verbatim>\<open>EncodeVertex\<close>, \<open>required\<close> the length that the codec computes for a
  list and \<open>max_len\<close> the room of a vertex. \<open>ord\<close> is the order in which an \<^verbatim>\<open>unordered_set\<close> with the inserted
  elements is traversed. The counters of \<^verbatim>\<open>METRIC\<close> and the timers only feed the console.
\<close>

type_synonym adjacency = "u32 list list"

definition encode_list :: "(u32 list \<Rightarrow> nat option) \<Rightarrow> nat \<Rightarrow> adjacency \<Rightarrow> u32 list option" where
  "encode_list required max_len adj =
     foldo (\<lambda>id ids. do {
         ns \<leftarrow> aget adj (unat id);
         len \<leftarrow> required ns;
         Some (if len \<le> max_len then ids @ [id] else ids) }) (map of_nat [1..<length adj]) []"

definition first_round :: "(u32 \<Rightarrow> u32 list \<Rightarrow> 's \<Rightarrow> 's option) \<Rightarrow> adjacency \<Rightarrow> u32 list \<Rightarrow>
    u32 list \<times> bool list \<times> 's \<Rightarrow> (u32 list \<times> bool list \<times> 's) option" where
  "first_round enc adj =
     foldo (\<lambda>vertex (related, filtered, st). do {
         ns \<leftarrow> aget adj (unat vertex);
         st \<leftarrow> enc vertex ns st;
         filtered \<leftarrow> aput filtered (unat vertex) True;
         Some (related @ ns, filtered, st) })"

text \<open>The neighbours that are not filtered.\<close>

definition unfiltered :: "bool list \<Rightarrow> u32 list \<Rightarrow> u32 list option" where
  "unfiltered filtered ns =
     foldo (\<lambda>neighbor out. do {
         b \<leftarrow> aget filtered (unat neighbor);
         Some (if b then out else out @ [neighbor]) }) ns []"

definition round_step :: "(u32 \<Rightarrow> u32 list \<Rightarrow> 's \<Rightarrow> 's option) \<Rightarrow> (u32 list \<Rightarrow> nat option) \<Rightarrow> nat \<Rightarrow> adjacency \<Rightarrow>
    u32 \<Rightarrow> u32 list \<times> bool list \<times> 's \<Rightarrow> (u32 list \<times> bool list \<times> 's) option" where
  "round_step enc required max_len adj vertex = (\<lambda>(next_list, filtered, st). do {
     b \<leftarrow> aget filtered (unat vertex);
     if b then Some (next_list, filtered, st)
     else do {
       ns \<leftarrow> aget adj (unat vertex);
       neighbors \<leftarrow> unfiltered filtered ns;
       len \<leftarrow> required neighbors;
       if len \<le> max_len then do {
         st \<leftarrow> enc vertex neighbors st;
         filtered \<leftarrow> aput filtered (unat vertex) True;
         Some (next_list @ neighbors, filtered, st) }
       else Some (next_list, filtered, st) } })"

text \<open>The \<^verbatim>\<open>while\<close> loop. A round without a new vertex leaves \<^verbatim>\<open>next_list\<close> empty, so one unit of fuel for each
  vertex and one more are enough.\<close>

fun rounds :: "(u32 \<Rightarrow> u32 list \<Rightarrow> 's \<Rightarrow> 's option) \<Rightarrow> (u32 list \<Rightarrow> nat option) \<Rightarrow> nat \<Rightarrow> (u32 list \<Rightarrow> u32 list) \<Rightarrow> adjacency \<Rightarrow>
    nat \<Rightarrow> u32 list \<times> bool list \<times> 's \<Rightarrow> (bool list \<times> 's) option" where
  "rounds enc required max_len ord adj 0 (related, filtered, st) = (if related = [] then Some (filtered, st) else None)"
| "rounds enc required max_len ord adj (Suc fuel) (related, filtered, st) =
     (if related = [] then Some (filtered, st)
      else do {
        s \<leftarrow> foldo (round_step enc required max_len adj) (ord related) ([], filtered, st);
        rounds enc required max_len ord adj fuel s })"

definition encode_rest :: "(u32 \<Rightarrow> u32 list \<Rightarrow> 's \<Rightarrow> 's option) \<Rightarrow> adjacency \<Rightarrow> bool list \<Rightarrow> u32 list \<Rightarrow> 's \<Rightarrow> 's option" where
  "encode_rest enc adj filtered =
     foldo (\<lambda>vertex st. do {
         b \<leftarrow> aget filtered (unat vertex);
         if b then Some st
         else do {
           ns \<leftarrow> aget adj (unat vertex);
           neighbors \<leftarrow> unfiltered filtered ns;
           enc vertex neighbors st } })"

definition peel_build :: "(u32 \<Rightarrow> u32 list \<Rightarrow> 's \<Rightarrow> 's option) \<Rightarrow> (u32 list \<Rightarrow> nat option) \<Rightarrow> nat \<Rightarrow> (u32 list \<Rightarrow> u32 list) \<Rightarrow>
    nat \<Rightarrow> adjacency \<Rightarrow> 's \<Rightarrow> 's option" where
  "peel_build enc required max_len ord vertex_size adj st = do {
     ids \<leftarrow> encode_list required max_len adj;
     s \<leftarrow> first_round enc adj ids ([], replicate (vertex_size + 1) False, st);
     (filtered, st) \<leftarrow> rounds enc required max_len ord adj (vertex_size + 2) s;
     encode_rest enc adj filtered (map of_nat [1..<vertex_size + 1]) st }"

section \<open>What the construction relies on\<close>

text \<open>An undirected graph: one list for every vertex and one for the unused index 0.\<close>

definition undirected :: "config \<Rightarrow> adjacency \<Rightarrow> bool" where
  "undirected cfg adj \<longleftrightarrow> length adj = VERTEX_SIZE cfg + 1 \<and>
     (\<forall>v. is_vertex cfg v \<longrightarrow> (\<forall>u \<in> set (adj ! unat v). is_vertex cfg u \<and> v \<in> set (adj ! unat u)))"

lemma undirectedD:
  assumes "undirected cfg adj"
  shows "length adj = VERTEX_SIZE cfg + 1" "is_vertex cfg v \<Longrightarrow> \<forall>u \<in> set (adj ! unat v). is_vertex cfg u"
    "is_vertex cfg v \<Longrightarrow> u \<in> set (adj ! unat v) \<Longrightarrow> v \<in> set (adj ! unat u)"
  using assms unfolding undirected_def by blast+

text \<open>A traversal of an \<^verbatim>\<open>unordered_set\<close> meets every element once.\<close>

definition traversal :: "(u32 list \<Rightarrow> u32 list) \<Rightarrow> bool" where
  "traversal ord \<longleftrightarrow> (\<forall>xs. set (ord xs) = set xs \<and> distinct (ord xs))"

lemma unfiltered_eq:
  assumes "\<forall>v \<in> set ns. unat v < length filtered"
  shows "unfiltered filtered ns = Some (filter (\<lambda>v. \<not> filtered ! unat v) ns)"
proof -
  have "foldo (\<lambda>v out. do { b \<leftarrow> aget filtered (unat v); Some (if b then out else out @ [v]) }) ns out =
      Some (out @ filter (\<lambda>v. \<not> filtered ! unat v) ns)" for out
    using assms by (induction ns arbitrary: out) auto
  then show ?thesis by (simp add: unfiltered_def)
qed

lemma encode_list_eq:
  assumes "\<And>ns. required ns = Some (len ns)" "length adj \<le> 2 ^ 32"
  shows "encode_list required max_len adj = Some (filter (\<lambda>v. len (adj ! unat v) \<le> max_len) (map of_nat [1..<length adj]))"
proof -
  have loop: "foldo (\<lambda>id ids. do { ns \<leftarrow> aget adj (unat id); l \<leftarrow> required ns; Some (if l \<le> max_len then ids @ [id] else ids) }) vs out =
      Some (out @ filter (\<lambda>v. len (adj ! unat v) \<le> max_len) vs)" if "\<forall>v \<in> set vs. unat v < length adj" for vs out
    using that assms(1) by (induction vs arbitrary: out) auto
  have "\<forall>v \<in> set (map of_nat [1..<length adj] :: u32 list). unat v < length adj"
    using assms(2) by (auto simp: unat_of_nat)
  from loop [OF this, of "[]"] show ?thesis by (simp add: encode_list_def)
qed

text \<open>The number of vertices that are not filtered.\<close>

definition todo :: "bool list \<Rightarrow> nat" where
  "todo fl = card {i. i < length fl \<and> \<not> fl ! i}"

lemma todo_update:
  assumes "i < length fl" "\<not> fl ! i"
  shows "todo (fl[i := True]) < todo fl"
  unfolding todo_def using assms by (intro psubset_card_mono) (auto simp: nth_list_update split: if_splits)

lemma todo_le: "todo fl \<le> length fl"
proof -
  have "todo fl \<le> card {..<length fl}" unfolding todo_def by (intro card_mono) auto
  then show ?thesis by simp
qed

locale peel_encoder = slot_encoder +
  fixes required :: "u32 list \<Rightarrow> nat option" and len :: "u32 list \<Rightarrow> nat"
    and limit :: "config \<Rightarrow> nat" and decd :: "bitset \<Rightarrow> bool"
  assumes required_len: "required ns = Some (len ns)"
    and small_decd: "ok cfg \<Longrightarrow> wf_encoding cfg st \<Longrightarrow> is_vertex cfg v \<Longrightarrow> fine cfg ns \<Longrightarrow> good cfg (st ! unat v) \<Longrightarrow>
      len ns \<le> limit cfg \<Longrightarrow> enc cfg v ns st = Some st' \<Longrightarrow> decd (st' ! unat v)"
    and fine_filter: "fine cfg ns \<Longrightarrow> fine cfg (filter P ns)"
begin

text \<open>The state of the construction: \<open>D\<close> are the encoded vertices, \<open>L v\<close> the list encoded at \<open>v\<close>. A neighbour
  that is missing there has been filtered and holds \<open>v\<close>.\<close>

definition stores :: "config \<Rightarrow> adjacency \<Rightarrow> (u32 \<Rightarrow> u32 list) \<Rightarrow> bool list \<Rightarrow> encoding \<Rightarrow> u32 \<Rightarrow> bool" where
  "stores cfg adj L fl st v \<longleftrightarrow> encd cfg v (st ! unat v) (L v) \<and> fine cfg (L v) \<and> set (L v) \<subseteq> set (adj ! unat v) \<and>
     (\<forall>u \<in> set (adj ! unat v) - set (L v). fl ! unat u \<and> v \<in> set (L u))"

definition peel_inv :: "config \<Rightarrow> adjacency \<Rightarrow> (u32 \<Rightarrow> u32 list) \<Rightarrow> bool list \<Rightarrow> u32 set \<Rightarrow> encoding \<Rightarrow> bool" where
  "peel_inv cfg adj L fl D st \<longleftrightarrow> wf_encoding cfg st \<and> length fl = VERTEX_SIZE cfg + 1 \<and>
     (\<forall>v. is_vertex cfg v \<longrightarrow> (fl ! unat v \<longrightarrow> v \<in> D \<and> decd (st ! unat v)) \<and>
        (if v \<in> D then stores cfg adj L fl st v else good cfg (st ! unat v)))"

lemma peel_inv_cong:
  assumes "peel_inv cfg adj L fl D st" "\<And>v. is_vertex cfg v \<Longrightarrow> v \<in> D \<longleftrightarrow> v \<in> D'"
  shows "peel_inv cfg adj L fl D' st"
  using assms unfolding peel_inv_def by metis

text \<open>One vertex is encoded. It is marked when it fits.\<close>

lemma peel_step:
  assumes "ok cfg" "undirected cfg adj" "peel_inv cfg adj L fl D st" "is_vertex cfg v" "v \<notin> D" "fine cfg ns"
    "set ns \<subseteq> set (adj ! unat v)" "\<forall>u \<in> set (adj ! unat v) - set ns. fl ! unat u"
    "fl' = fl \<or> fl' = fl[unat v := True] \<and> len ns \<le> limit cfg"
  shows "\<exists>st'. enc cfg v ns st = Some st' \<and> peel_inv cfg adj (L(v := ns)) fl' (insert v D) st'"
proof -
  have wf: "wf_encoding cfg st" and fl: "length fl = VERTEX_SIZE cfg + 1" and
    inv: "\<And>w. is_vertex cfg w \<Longrightarrow> (fl ! unat w \<longrightarrow> w \<in> D \<and> decd (st ! unat w)) \<and>
      (if w \<in> D then stores cfg adj L fl st w else good cfg (st ! unat w))"
    using assms(3) by (auto simp: peel_inv_def)
  have g: "good cfg (st ! unat v)" using inv [OF assms(4)] assms(5) by simp
  obtain st' where st': "enc cfg v ns st = Some st'" "wf_encoding cfg st'" "encd cfg v (st' ! unat v) ns"
    "\<And>w. w \<noteq> v \<Longrightarrow> st' ! unat w = st ! unat w"
    using encode_others [OF assms(1) wf assms(4,6) g] by blast
  have v: "unat v < length fl" using fl assms(4) by (simp add: is_vertex_def)
  have other: "fl' ! unat w = fl ! unat w" if "w \<noteq> v" for w
    using assms(9) that by (auto simp: nth_list_update word_unat_eq_iff)
  have nf: "\<not> fl ! unat v" using inv [OF assms(4)] assms(5) by auto
  have mono: "fl ! unat w \<Longrightarrow> fl' ! unat w" for w :: u32 using other nf by (cases "w = v") auto
  have here: "stores cfg adj (L(v := ns)) fl' st' v"
  proof -
    have "fl' ! unat u \<and> v \<in> set ((L(v := ns)) u)" if u: "u \<in> set (adj ! unat v) - set ns" for u
    proof -
      have "u \<in> set (adj ! unat v)" using u by simp
      then have f: "fl ! unat u" "is_vertex cfg u" "v \<in> set (adj ! unat u)"
        using u assms(8) undirectedD(2,3) [OF assms(2,4)] by blast+
      then have "u \<in> D" "stores cfg adj L fl st u" using inv [OF f(2)] by (meson, metis)
      then have "v \<in> set (L u)" using f(3) nf by (auto simp: stores_def)
      moreover have "u \<noteq> v" using f(1) nf by auto
      ultimately show ?thesis using mono f(1) by simp
    qed
    then show ?thesis using st'(3) assms(6,7) by (simp add: stores_def)
  qed
  have "(fl' ! unat w \<longrightarrow> w \<in> insert v D \<and> decd (st' ! unat w)) \<and>
      (if w \<in> insert v D then stores cfg adj (L(v := ns)) fl' st' w else good cfg (st' ! unat w))" if w: "is_vertex cfg w" for w
  proof (cases "w = v")
    case True
    have "decd (st' ! unat v)" if "fl' ! unat v"
      using that assms(9) nf small_decd [OF assms(1) wf assms(4,6) g _ st'(1)] by auto
    then show ?thesis using True here by simp
  next
    case False
    have "stores cfg adj (L(v := ns)) fl' st' w" if "stores cfg adj L fl st w"
      using that False st'(4) [OF False] mono nf by (auto simp: stores_def)
    then show ?thesis using inv [OF w] False other [OF False] st'(4) [OF False] by auto
  qed
  moreover have "length fl' = VERTEX_SIZE cfg + 1" using assms(9) fl by auto
  ultimately show ?thesis using st'(1,2) by (auto simp: peel_inv_def)
qed

text \<open>While vertices are peeled, the encoded ones are the filtered ones.\<close>

definition peeling :: "config \<Rightarrow> adjacency \<Rightarrow> bool list \<Rightarrow> encoding \<Rightarrow> bool" where
  "peeling cfg adj fl st \<longleftrightarrow> (\<exists>L. peel_inv cfg adj L fl {v. fl ! unat v} st)"

lemma peeling_step:
  assumes "ok cfg" "undirected cfg adj" "peeling cfg adj fl st" "is_vertex cfg v" "\<not> fl ! unat v" "fine cfg ns"
    "set ns \<subseteq> set (adj ! unat v)" "\<forall>u \<in> set (adj ! unat v) - set ns. fl ! unat u" "len ns \<le> limit cfg"
  shows "\<exists>st'. enc cfg v ns st = Some st' \<and> aput fl (unat v) True = Some (fl[unat v := True]) \<and> peeling cfg adj (fl[unat v := True]) st'"
proof -
  obtain L where L: "peel_inv cfg adj L fl {v. fl ! unat v} st" using assms(3) by (auto simp: peeling_def)
  have v: "unat v < length fl" using L assms(4) by (simp add: peel_inv_def is_vertex_def)
  have "insert v {v. fl ! unat v} = {w. fl[unat v := True] ! unat w}"
    using v by (auto simp: nth_list_update word_unat_eq_iff)
  with peel_step [OF assms(1,2) L assms(4) _ assms(6-8), of "fl[unat v := True]"] assms(5,9) v show ?thesis
    by (auto simp: peeling_def)
qed

lemma first_round_ok:
  assumes "ok cfg" "undirected cfg adj" "distinct ids" "peeling cfg adj (replicate (VERTEX_SIZE cfg + 1) False) st"
    "\<forall>v \<in> set ids. is_vertex cfg v \<and> fine cfg (adj ! unat v) \<and> len (adj ! unat v) \<le> limit cfg"
  shows "\<exists>related fl st'. first_round (enc cfg) adj ids ([], replicate (VERTEX_SIZE cfg + 1) False, st) = Some (related, fl, st') \<and>
    peeling cfg adj fl st' \<and> (\<forall>v \<in> set related. is_vertex cfg v)"
proof -
  let ?P = "\<lambda>ids (related, fl, st). peeling cfg adj fl st \<and> distinct ids \<and> (\<forall>v \<in> set related. is_vertex cfg v) \<and>
    (\<forall>v \<in> set ids. \<not> fl ! unat v \<and> is_vertex cfg v \<and> fine cfg (adj ! unat v) \<and> len (adj ! unat v) \<le> limit cfg)"
  have "\<exists>s. first_round (enc cfg) adj ids ([], replicate (VERTEX_SIZE cfg + 1) False, st) = Some s \<and> ?P [] s"
    unfolding first_round_def
  proof (rule foldo_invariant [where P = ?P])
    have "\<not> replicate (VERTEX_SIZE cfg + 1) False ! unat v" if "v \<in> set ids" for v
      using assms(5) that by (subst nth_replicate) (auto simp: is_vertex_def)
    then show "?P ids ([], replicate (VERTEX_SIZE cfg + 1) False, st)" using assms(3-5) by (simp del: replicate.simps)
  next
    fix v vs s assume P: "?P (v # vs) s"
    obtain related fl st where s: "s = (related, fl, st)" by (cases s)
    have v: "unat v < length adj" using P undirectedD(1) [OF assms(2)] by (simp add: s is_vertex_def)
    from peeling_step [OF assms(1,2), of fl st v "adj ! unat v"] P obtain st' where
      st': "enc cfg v (adj ! unat v) st = Some st'" "aput fl (unat v) True = Some (fl[unat v := True])" "peeling cfg adj (fl[unat v := True]) st'"
      by (auto simp: s)
    moreover have "\<forall>u \<in> set (adj ! unat v). is_vertex cfg u" using P undirectedD(2) [OF assms(2), of v] by (simp add: s)
    moreover have "\<not> fl[unat v := True] ! unat w" if "w \<in> set vs" for w
    proof -
      have "w \<noteq> v" using P that by (auto simp: s)
      then have "unat w \<noteq> unat v" by (simp add: word_unat_eq_iff)
      then show ?thesis using P that by (simp add: s)
    qed
    ultimately show "\<exists>s'. (case s of (related, filtered, st) \<Rightarrow> do {
        ns \<leftarrow> aget adj (unat v); st \<leftarrow> enc cfg v ns st; filtered \<leftarrow> aput filtered (unat v) True;
        Some (related @ ns, filtered, st) }) = Some s' \<and> ?P vs s'" using v P by (auto simp: s)
  qed
  then show ?thesis by auto
qed

lemma peeling_filter:
  assumes "undirected cfg adj" "peeling cfg adj fl st" "is_vertex cfg v"
  shows "unfiltered fl (adj ! unat v) = Some (filter (\<lambda>u. \<not> fl ! unat u) (adj ! unat v))" "aget adj (unat v) = Some (adj ! unat v)"
    "aget fl (unat v) = Some (fl ! unat v)"
proof -
  have len: "length fl = VERTEX_SIZE cfg + 1" using assms(2) by (auto simp: peeling_def peel_inv_def)
  have "\<forall>u \<in> set (adj ! unat v). unat u < length fl" using undirectedD(2) [OF assms(1,3)] len by (auto simp: is_vertex_def)
  then show "unfiltered fl (adj ! unat v) = Some (filter (\<lambda>u. \<not> fl ! unat u) (adj ! unat v))" by (rule unfiltered_eq)
  show "aget adj (unat v) = Some (adj ! unat v)" "aget fl (unat v) = Some (fl ! unat v)"
    using undirectedD(1) [OF assms(1)] assms(3) len by (simp_all add: is_vertex_def)
qed

lemma round_step_ok:
  assumes "ok cfg" "undirected cfg adj" "\<And>v. is_vertex cfg v \<Longrightarrow> fine cfg (adj ! unat v)" "peeling cfg adj fl st" "is_vertex cfg v"
  shows "\<exists>more fl' st'. round_step (enc cfg) required (limit cfg) adj v (next_list, fl, st) = Some (next_list @ more, fl', st') \<and>
    peeling cfg adj fl' st' \<and> (\<forall>u \<in> set more. is_vertex cfg u) \<and> todo fl' \<le> todo fl \<and> (more \<noteq> [] \<longrightarrow> todo fl' < todo fl)"
proof -
  let ?ns = "filter (\<lambda>u. \<not> fl ! unat u) (adj ! unat v)"
  note get = peeling_filter [OF assms(2,4,5)]
  show ?thesis
  proof (cases "\<not> fl ! unat v \<and> len ?ns \<le> limit cfg")
    case True
    have fine: "fine cfg ?ns" using fine_filter assms(3,5) by blast
    have "\<exists>st'. enc cfg v ?ns st = Some st' \<and> aput fl (unat v) True = Some (fl[unat v := True]) \<and> peeling cfg adj (fl[unat v := True]) st'"
      using True by (intro peeling_step [OF assms(1,2,4,5) _ fine]) auto
    then obtain st' where
      "enc cfg v ?ns st = Some st'" "aput fl (unat v) True = Some (fl[unat v := True])" "peeling cfg adj (fl[unat v := True]) st'" by blast
    moreover have "todo (fl[unat v := True]) < todo fl"
      using True get(3) by (intro todo_update) (auto simp: aget_eq_Some_iff)
    moreover have "\<forall>u \<in> set ?ns. is_vertex cfg u" using undirectedD(2) [OF assms(2,5)] by simp
    ultimately show ?thesis using get True required_len by (auto simp: round_step_def)
  next
    case False
    then show ?thesis using get assms(4) required_len by (auto simp: round_step_def intro!: exI [of _ "[]"])
  qed
qed

lemma round_ok:
  assumes "ok cfg" "undirected cfg adj" "\<And>v. is_vertex cfg v \<Longrightarrow> fine cfg (adj ! unat v)" "peeling cfg adj fl st"
    "\<forall>v \<in> set vs. is_vertex cfg v" "\<forall>v \<in> set next_list. is_vertex cfg v"
  shows "\<exists>next' fl' st'. foldo (round_step (enc cfg) required (limit cfg) adj) vs (next_list, fl, st) = Some (next', fl', st') \<and>
    peeling cfg adj fl' st' \<and> (\<forall>u \<in> set next'. is_vertex cfg u) \<and> todo fl' \<le> todo fl \<and> (next' \<noteq> next_list \<longrightarrow> todo fl' < todo fl)"
  using assms(4-6)
proof (induction vs arbitrary: next_list fl st)
  case (Cons v vs)
  from round_step_ok [OF assms(1-3) Cons.prems(1), of v next_list] Cons.prems(2) obtain more fl1 st1 where
    1: "round_step (enc cfg) required (limit cfg) adj v (next_list, fl, st) = Some (next_list @ more, fl1, st1)" "peeling cfg adj fl1 st1"
    "\<forall>u \<in> set more. is_vertex cfg u" "todo fl1 \<le> todo fl" "more \<noteq> [] \<longrightarrow> todo fl1 < todo fl" by auto
  have "\<forall>u \<in> set vs. is_vertex cfg u" "\<forall>u \<in> set (next_list @ more). is_vertex cfg u" using Cons.prems(2,3) 1(3) by auto
  from Cons.IH [OF 1(2) this] obtain next' fl' st' where
    2: "foldo (round_step (enc cfg) required (limit cfg) adj) vs (next_list @ more, fl1, st1) = Some (next', fl', st')" "peeling cfg adj fl' st'"
    "\<forall>u \<in> set next'. is_vertex cfg u" "todo fl' \<le> todo fl1" "next' \<noteq> next_list @ more \<longrightarrow> todo fl' < todo fl1" by auto
  have "todo fl' < todo fl" if "next' \<noteq> next_list"
    using that 1(4,5) 2(4,5) by (cases "more = []") auto
  with 1 2 show ?case by auto
qed auto

lemma rounds_ok:
  assumes "ok cfg" "undirected cfg adj" "\<And>v. is_vertex cfg v \<Longrightarrow> fine cfg (adj ! unat v)" "traversal ord"
  shows "peeling cfg adj fl st \<Longrightarrow> \<forall>v \<in> set related. is_vertex cfg v \<Longrightarrow> todo fl < fuel \<Longrightarrow>
    \<exists>fl' st'. rounds (enc cfg) required (limit cfg) ord adj fuel (related, fl, st) = Some (fl', st') \<and> peeling cfg adj fl' st'"
proof (induction fuel arbitrary: related fl st)
  case (Suc fuel)
  have "\<forall>v \<in> set (ord related). is_vertex cfg v" using Suc.prems(2) assms(4) by (simp add: traversal_def)
  from round_ok [OF assms(1-3) Suc.prems(1) this, of "[]"] obtain next' fl' st' where
    r: "foldo (round_step (enc cfg) required (limit cfg) adj) (ord related) ([], fl, st) = Some (next', fl', st')" "peeling cfg adj fl' st'"
    "\<forall>u \<in> set next'. is_vertex cfg u" "next' \<noteq> [] \<longrightarrow> todo fl' < todo fl" by auto
  show ?case
  proof (cases "next' = []")
    case True
    then have "rounds (enc cfg) required (limit cfg) ord adj fuel (next', fl', st') = Some (fl', st')" by (cases fuel) simp_all
    then show ?thesis using r(1,2) Suc.prems(1) by auto
  next
    case False
    with Suc.IH [OF r(2,3)] r(1,4) Suc.prems show ?thesis by auto
  qed
qed simp

lemma rest_step:
  assumes "ok cfg" "undirected cfg adj" "\<And>v. is_vertex cfg v \<Longrightarrow> fine cfg (adj ! unat v)"
    "peel_inv cfg adj L fl D st" "is_vertex cfg v" "v \<notin> D"
  shows "\<exists>st' L'. do { ns \<leftarrow> aget adj (unat v); neighbors \<leftarrow> unfiltered fl ns; enc cfg v neighbors st } = Some st' \<and>
    peel_inv cfg adj L' fl (insert v D) st'"
proof -
  let ?ns = "filter (\<lambda>u. \<not> fl ! unat u) (adj ! unat v)"
  have "length fl = VERTEX_SIZE cfg + 1" using assms(4) by (simp add: peel_inv_def)
  then have "\<forall>u \<in> set (adj ! unat v). unat u < length fl" using undirectedD(2) [OF assms(2,5)] by (auto simp: is_vertex_def)
  then have u: "unfiltered fl (adj ! unat v) = Some ?ns" by (rule unfiltered_eq)
  have fine: "fine cfg ?ns" using fine_filter assms(3,5) by blast
  have "\<exists>st'. enc cfg v ?ns st = Some st' \<and> peel_inv cfg adj (L(v := ?ns)) fl (insert v D) st'"
    by (rule peel_step [OF assms(1,2,4,5,6) fine]) auto
  then obtain st' where st': "enc cfg v ?ns st = Some st'" "peel_inv cfg adj (L(v := ?ns)) fl (insert v D) st'" by blast
  have "unat v < length adj" using undirectedD(1) [OF assms(2)] assms(5) by (simp add: is_vertex_def)
  then show ?thesis using u st' by auto
qed

lemma rest_ok:
  assumes "ok cfg" "undirected cfg adj" "\<And>v. is_vertex cfg v \<Longrightarrow> fine cfg (adj ! unat v)"
  shows "peel_inv cfg adj L fl {v. fl ! unat v \<or> v \<notin> set vs} st \<Longrightarrow> distinct vs \<Longrightarrow> \<forall>v \<in> set vs. is_vertex cfg v \<Longrightarrow>
    \<exists>st' L'. encode_rest (enc cfg) adj fl vs st = Some st' \<and> peel_inv cfg adj L' fl UNIV st'"
proof (induction vs arbitrary: L st)
  case Nil
  then show ?case by (auto simp: encode_rest_def)
next
  case (Cons v vs)
  have v: "is_vertex cfg v" "v \<notin> set vs" using Cons.prems(2,3) by simp_all
  have get: "aget fl (unat v) = Some (fl ! unat v)" using Cons.prems(1) v(1) by (simp add: peel_inv_def is_vertex_def)
  show ?case
  proof (cases "fl ! unat v")
    case True
    then have "{w. fl ! unat w \<or> w \<notin> set (v # vs)} = {w. fl ! unat w \<or> w \<notin> set vs}" by auto
    with Cons.IH [of L st] Cons.prems True get show ?thesis by (simp add: encode_rest_def)
  next
    case False
    have "insert v {w. fl ! unat w \<or> w \<notin> set (v # vs)} = {w. fl ! unat w \<or> w \<notin> set vs}" using v(2) by auto
    with rest_step [OF assms Cons.prems(1) v(1)] False obtain st' L' where
      st': "do { ns \<leftarrow> aget adj (unat v); neighbors \<leftarrow> unfiltered fl ns; enc cfg v neighbors st } = Some st'"
      "peel_inv cfg adj L' fl {w. fl ! unat w \<or> w \<notin> set vs} st'" by auto
    from Cons.IH [OF st'(2)] Cons.prems(2,3) obtain st2 L2 where
      "encode_rest (enc cfg) adj fl vs st' = Some st2" "peel_inv cfg adj L2 fl UNIV st2" by auto
    with st'(1) get False show ?thesis by (auto simp: encode_rest_def)
  qed
qed

text \<open>The whole construction: it ends, and every vertex holds its neighbours but the ones that hold it.\<close>

lemma peel_build_ok:
  assumes "ok cfg" "undirected cfg adj" "\<And>v. is_vertex cfg v \<Longrightarrow> fine cfg (adj ! unat v)" "traversal ord"
  shows "\<exists>st fl L. peel_build (enc cfg) required (limit cfg) ord (VERTEX_SIZE cfg) adj (EncodeBitSet cfg) = Some st \<and> wf_encoding cfg st \<and>
    (\<forall>v. is_vertex cfg v \<longrightarrow> stores cfg adj L fl st v \<and> (fl ! unat v \<longrightarrow> decd (st ! unat v)))"
proof -
  note cfg = ok_wf [OF assms(1)]
  note vs = vertex_list_all [OF cfg]
  let ?fl0 = "replicate (VERTEX_SIZE cfg + 1) False"
  have list: "map of_nat [1..<length adj] = vertex_list cfg" using undirectedD(1) [OF assms(2)] by (simp add: vertex_list_def)
  define ids where "ids = filter (\<lambda>v. len (adj ! unat v) \<le> limit cfg) (vertex_list cfg)"
  have ids: "encode_list required (limit cfg) adj = Some ids"
    using encode_list_eq [OF required_len, of adj] list undirectedD(1) [OF assms(2)] wf_configD(15) [OF cfg] by (simp add: ids_def)
  have "\<not> ?fl0 ! unat v" if "is_vertex cfg v" for v using that by (subst nth_replicate) (auto simp: is_vertex_def)
  then have "peel_inv cfg adj (\<lambda>v. []) ?fl0 {v. ?fl0 ! unat v} (EncodeBitSet cfg)"
    using EncodeBitSet_wf(1) [OF cfg] new_good [OF assms(1)] by (simp add: peel_inv_def del: replicate.simps)
  then have start: "peeling cfg adj ?fl0 (EncodeBitSet cfg)" unfolding peeling_def by blast
  have "distinct ids" "\<forall>v \<in> set ids. is_vertex cfg v \<and> fine cfg (adj ! unat v) \<and> len (adj ! unat v) \<le> limit cfg"
    using vs assms(3) by (auto simp: ids_def)
  from first_round_ok [OF assms(1,2) this(1) start this(2)] obtain related fl1 st1 where
    1: "first_round (enc cfg) adj ids ([], ?fl0, EncodeBitSet cfg) = Some (related, fl1, st1)" "peeling cfg adj fl1 st1"
    "\<forall>v \<in> set related. is_vertex cfg v" by blast
  have "length fl1 = VERTEX_SIZE cfg + 1" using 1(2) by (auto simp: peeling_def peel_inv_def)
  then have "todo fl1 < VERTEX_SIZE cfg + 2" using todo_le [of fl1] by simp
  from rounds_ok [OF assms 1(2,3) this] obtain fl st2 L where
    2: "rounds (enc cfg) required (limit cfg) ord adj (VERTEX_SIZE cfg + 2) (related, fl1, st1) = Some (fl, st2)" "peel_inv cfg adj L fl {v. fl ! unat v} st2"
    by (auto simp: peeling_def)
  have D: "peel_inv cfg adj L fl {v. fl ! unat v \<or> v \<notin> set (vertex_list cfg)} st2"
    using vs(1) by (intro peel_inv_cong [OF 2(2)]) simp
  have V: "\<forall>v \<in> set (vertex_list cfg). is_vertex cfg v" using vs(1) by simp
  obtain st L' where 3: "encode_rest (enc cfg) adj fl (vertex_list cfg) st2 = Some st" "peel_inv cfg adj L' fl UNIV st"
    using rest_ok [OF assms(1-3) D vs(2) V] by blast
  have "peel_build (enc cfg) required (limit cfg) ord (VERTEX_SIZE cfg) adj (EncodeBitSet cfg) = Some st"
    unfolding peel_build_def ids bind.bind_lunit 1(1) 2(1) using 3(1) by (simp add: vertex_list_def)
  with 3(2) show ?thesis unfolding peel_inv_def by (metis UNIV_I)
qed

end

end
