(* ===== verification/Range_Vend.thy ===== *)
theory Range_Vend
  imports Peel_Build Range_Spec
begin

text \<open>
  \<^verbatim>\<open>RangeVend::BuildEncoding\<close>, the construction of the range, hybrid, Bloom and counting encodings. It peels the
  vertices by degree in the manner of the linear time algorithm for cores: \<^verbatim>\<open>vert\<close> lists the vertices by
  degree, \<^verbatim>\<open>pos\<close> is its inverse and \<^verbatim>\<open>bin\<close> holds where each degree starts. The encoder is an argument, and so
  is \<open>srt\<close>, the order that \<^verbatim>\<open>std::sort\<close> gives to a list by a key.

  The array \<^verbatim>\<open>bin\<close> is filled wrongly for degrees that no vertex has, and it is read outside its bounds when all
  degrees are small; the theorems show what follows.
\<close>

record kcore =
  kc_degrees :: "nat list"
  kc_pos :: "nat list"
  kc_vert :: "nat list"
  kc_bin :: "nat list"

text \<open>The degrees. Without an adjacency list the loop over the database writes the same cell in every round,
  since the outer \<^verbatim>\<open>id\<close> is not advanced.\<close>

definition kcore_degrees :: "nat \<Rightarrow> adjacency option \<Rightarrow> (u32 \<times> u32 list) list \<Rightarrow> (nat \<times> nat list \<times> nat list) option" where
  "kcore_degrees V adjacency_list data_db = (case adjacency_list of
     Some adj \<Rightarrow>
       foldo (\<lambda>id (max_degree, degrees, vert). do {
           ns \<leftarrow> aget adj id;
           vert \<leftarrow> aput vert id id;
           degrees \<leftarrow> aput degrees id (length ns);
           Some (max (length ns) max_degree, degrees, vert) }) [1..<length adj] (0, replicate (V + 1) 0, replicate (V + 1) 0)
   | None \<Rightarrow>
       foldo (\<lambda>(vertex1, ns) (max_degree, degrees, vert). do {
           vert \<leftarrow> aput vert 1 1;
           degrees \<leftarrow> aput degrees 1 (length ns);
           Some (max (length ns) max_degree, degrees, vert) }) data_db (0, replicate (V + 1) 0, replicate (V + 1) 0))"

definition kcore_pos :: "nat \<Rightarrow> nat \<Rightarrow> nat list \<Rightarrow> nat list \<Rightarrow> (nat list \<times> nat list) option" where
  "kcore_pos V max_degree degrees vert = do {
     (_, pos, bin) \<leftarrow> foldo (\<lambda>i (j, pos, bin). do {
         v \<leftarrow> aget vert i;
         degree \<leftarrow> aget degrees v;
         pos \<leftarrow> aput pos v i;
         if degree > j then do { bin \<leftarrow> aput bin degree i; Some (degree, pos, bin) } else Some (j, pos, bin) })
       [1..<V + 1] (0, replicate (V + 1) 0, replicate (max_degree + 1) 0);
     Some (pos, bin) }"

text \<open>\<^verbatim>\<open>while (bin[++j] == 0) bin[j] = bin[j - 1]\<close>.\<close>

function fill_run :: "nat list \<Rightarrow> nat \<Rightarrow> (nat list \<times> nat) option" where
  "fill_run bin j = (case aget bin (j + 1) of
     None \<Rightarrow> None
   | Some b \<Rightarrow> if b = 0 then fill_run (bin[j + 1 := bin ! j]) (j + 1) else Some (bin, j + 1))"
  by pat_completeness auto
termination
  by (relation "measure (\<lambda>(bin, j). length bin - j)") (auto simp: aget_def split: if_splits)

declare fill_run.simps [simp del]

lemma fill_run_length: "fill_run bin j = Some (bin', j') \<Longrightarrow> length bin' = length bin \<and> j < j'"
proof (induction bin j rule: fill_run.induct)
  case (1 bin j)
  then show ?case by (subst (asm) (2) fill_run.simps) (fastforce split: option.splits if_splits)
qed

function fill_bins :: "nat \<Rightarrow> nat list \<Rightarrow> nat \<Rightarrow> nat list option" where
  "fill_bins max_degree bin j =
     (if j \<le> max_degree then do {
        b \<leftarrow> aget bin j;
        if b = 0 then do {
          bin \<leftarrow> aput bin j (bin ! (j - 1) + 1);
          (case fill_run bin j of None \<Rightarrow> None | Some (bin, j) \<Rightarrow> fill_bins max_degree bin (j + 1)) }
        else fill_bins max_degree bin (j + 1) }
      else Some bin)"
  by pat_completeness auto
termination
  by (relation "measure (\<lambda>(max_degree, bin, j). Suc max_degree - j)") (auto dest!: fill_run_length)

declare fill_bins.simps [simp del]

text \<open>The loop over the neighbours of a peeled vertex.\<close>

definition kcore_neighbor :: "nat \<Rightarrow> bool list \<Rightarrow> u32 \<Rightarrow> u32 list \<times> kcore \<Rightarrow> (u32 list \<times> kcore) option" where
  "kcore_neighbor vertex_degree filtered neighbor = (\<lambda>(neighbors, s). do {
     b \<leftarrow> aget filtered (unat neighbor);
     if b then Some (neighbors, s)
     else do {
       let neighbors = neighbors @ [neighbor];
       neighbor_degree \<leftarrow> aget (kc_degrees s) (unat neighbor);
       neighbor_pos \<leftarrow> aget (kc_pos s) (unat neighbor);
       first_bin_pos \<leftarrow> aget (kc_bin s) neighbor_degree;
       first_bin \<leftarrow> aget (kc_vert s) first_bin_pos;
       if vertex_degree \<ge> neighbor_degree then Some (neighbors, s)
       else do {
         s \<leftarrow> (if first_bin_pos \<noteq> neighbor_pos then do {
             pos \<leftarrow> aput (kc_pos s) (unat neighbor) first_bin_pos;
             pos \<leftarrow> aput pos first_bin neighbor_pos;
             vert \<leftarrow> aput (kc_vert s) neighbor_pos first_bin;
             vert \<leftarrow> aput vert first_bin_pos (unat neighbor);
             Some (s\<lparr>kc_pos := pos, kc_vert := vert\<rparr>) }
           else Some s);
         bin \<leftarrow> aput (kc_bin s) neighbor_degree (first_bin_pos + 1);
         degrees \<leftarrow> aput (kc_degrees s) (unat neighbor) (neighbor_degree - 1);
         Some (neighbors, s\<lparr>kc_bin := bin, kc_degrees := degrees\<rparr>) } } })"

definition kcore_step :: "(u32 \<Rightarrow> u32 list \<Rightarrow> 's \<Rightarrow> 's option) \<Rightarrow> adjacency option \<Rightarrow> nat \<Rightarrow>
    kcore \<times> bool list \<times> 's \<Rightarrow> (kcore \<times> bool list \<times> 's) option" where
  "kcore_step enc adjacency_list idx = (\<lambda>(s, filtered, st). do {
     vertex \<leftarrow> aget (kc_vert s) idx;
     vertex_degree \<leftarrow> aget (kc_degrees s) vertex;
     adj \<leftarrow> (case adjacency_list of Some adj \<Rightarrow> aget adj vertex | None \<Rightarrow> Some []);
     (neighbors, s) \<leftarrow> foldo (kcore_neighbor vertex_degree filtered) adj ([], s);
     filtered \<leftarrow> aput filtered vertex True;
     st \<leftarrow> enc (of_nat vertex) neighbors st;
     Some (s, filtered, st) })"

text \<open>The loop of the core; \<^verbatim>\<open>vert\<close> has \<open>V + 1\<close> elements.\<close>

function kcore_loop :: "(u32 \<Rightarrow> u32 list \<Rightarrow> 's \<Rightarrow> 's option) \<Rightarrow> adjacency option \<Rightarrow> nat \<Rightarrow> nat \<Rightarrow> nat \<Rightarrow>
    kcore \<times> bool list \<times> 's \<Rightarrow> (nat \<times> kcore \<times> bool list \<times> 's) option" where
  "kcore_loop enc adjacency_list V max_kcore idx s = do {
     b \<leftarrow> aget (kc_bin (fst s)) (max_kcore + 1);
     if idx < b then
       if V < idx then None
       else do {
         s \<leftarrow> kcore_step enc adjacency_list idx s;
         kcore_loop enc adjacency_list V max_kcore (idx + 1) s }
     else Some (idx, s) }"
  by pat_completeness auto
termination
  by (relation "measure (\<lambda>(enc, adjacency_list, V, max_kcore, idx, s). Suc V - idx)") auto

declare kcore_loop.simps [simp del]

definition kcore_rest :: "(u32 \<Rightarrow> u32 list \<Rightarrow> 's \<Rightarrow> 's option) \<Rightarrow> adjacency option \<Rightarrow> nat list \<Rightarrow> bool list \<Rightarrow> nat list \<Rightarrow> 's \<Rightarrow> 's option" where
  "kcore_rest enc adjacency_list vert filtered =
     foldo (\<lambda>idx st. do {
         vertex \<leftarrow> aget vert idx;
         neighbors \<leftarrow> (case adjacency_list of
             Some adj \<Rightarrow> do { ns \<leftarrow> aget adj vertex; unfiltered filtered ns }
           | None \<Rightarrow> Some []);
         enc (of_nat vertex) neighbors st })"

definition RangeVend_BuildEncoding :: "(nat list \<Rightarrow> nat list \<Rightarrow> nat list) \<Rightarrow> (u32 \<Rightarrow> u32 list \<Rightarrow> 's \<Rightarrow> 's option) \<Rightarrow> nat \<Rightarrow> nat \<Rightarrow>
    adjacency option \<Rightarrow> (u32 \<times> u32 list) list \<Rightarrow> 's \<Rightarrow> 's option" where
  "RangeVend_BuildEncoding srt enc max_kcore V adjacency_list data_db st = do {
     (max_degree, degrees, vert) \<leftarrow> kcore_degrees V adjacency_list data_db;
     let vert = hd vert # srt degrees (tl vert);
     (pos, bin) \<leftarrow> kcore_pos V max_degree degrees vert;
     bin \<leftarrow> fill_bins max_degree bin 1;
     (idx, s, filtered, st) \<leftarrow> kcore_loop enc adjacency_list V max_kcore 0
       (\<lparr>kc_degrees = degrees, kc_pos = pos, kc_vert = vert, kc_bin = bin\<rparr>, replicate (V + 1) False, st);
     kcore_rest enc adjacency_list (kc_vert s) filtered [idx..<V + 1] st }"

text \<open>A sort by degree that keeps the order of equal ones, one of those that \<^verbatim>\<open>std::sort\<close> may produce.\<close>

definition stable_sort :: "nat list \<Rightarrow> nat list \<Rightarrow> nat list" where
  "stable_sort degrees vs = sort_key (\<lambda>v. degrees ! v) vs"

section \<open>Where the construction fails\<close>

lemma fill_bins_length: "fill_bins md bin j = Some bin' \<Longrightarrow> length bin' = length bin"
proof (induction md bin j rule: fill_bins.induct)
  case (1 md bin j)
  show ?case using "1.prems" "1.IH" unfolding fill_bins.simps [of md bin j]
    by (fastforce simp: aput_eq_Some_iff bind_eq_Some_conv dest: fill_run_length split: if_splits option.splits)
qed

lemma kcore_pos_length:
  assumes "kcore_pos V md degrees vert = Some (pos, bin)"
  shows "length bin = md + 1"
proof -
  have "length (snd (snd s')) = length (snd (snd s))"
    if "foldo (\<lambda>i (j, pos, bin). do {
         v \<leftarrow> aget vert i; degree \<leftarrow> aget degrees v; pos \<leftarrow> aput pos v i;
         if degree > j then do { bin \<leftarrow> aput bin degree i; Some (degree, pos, bin) } else Some (j, pos, bin) }) is s = Some s'" for "is" s s'
    using that by (induction "is" arbitrary: s) (auto simp: bind_eq_Some_conv aput_eq_Some_iff split: if_splits)
  from this [of "[1..<V + 1]" "(0, replicate (V + 1) 0, replicate (md + 1) 0)"] assms show ?thesis
    unfolding kcore_pos_def by (auto simp: bind_eq_Some_conv simp del: replicate.simps upt.simps)
qed

lemma kcore_degrees_max:
  assumes "\<forall>ns \<in> set adj. length ns \<le> k" "kcore_degrees V (Some adj) db = Some (md, degrees, vert)"
  shows "md \<le> k"
proof -
  have "fst s' \<le> k"
    if "foldo (\<lambda>id (max_degree, degrees, vert). do {
           ns \<leftarrow> aget adj id; vert \<leftarrow> aput vert id id; degrees \<leftarrow> aput degrees id (length ns);
           Some (max (length ns) max_degree, degrees, vert) }) is s = Some s'" "fst s \<le> k" for "is" s s'
    using that assms(1) by (induction "is" arbitrary: s) (auto simp: bind_eq_Some_conv aget_eq_Some_iff)
  from this [of "[1..<length adj]" "(0, replicate (V + 1) 0, replicate (V + 1) 0)"] assms(2) show ?thesis
    unfolding kcore_degrees_def by (auto simp del: replicate.simps upt.simps)
qed

text \<open>C36. When no vertex has more than \<^verbatim>\<open>GetIntSize()\<close> neighbours, \<^verbatim>\<open>RangeVend::BuildEncoding\<close> has no defined result for
  any encoder and any order of equal degrees: the loop reads \<^verbatim>\<open>bin[max_kcore + 1]\<close>, and \<^verbatim>\<open>bin\<close> ends at the
  largest degree.\<close>

theorem range_vend_sparse_undefined:
  assumes "\<forall>ns \<in> set adj. length ns \<le> max_kcore"
  shows "RangeVend_BuildEncoding srt enc max_kcore V (Some adj) db st = None"
proof (rule ccontr)
  assume "\<not> ?thesis"
  then obtain res where "RangeVend_BuildEncoding srt enc max_kcore V (Some adj) db st = Some res" by auto
  then obtain md degrees vert pos bin bin' where d: "kcore_degrees V (Some adj) db = Some (md, degrees, vert)"
    and p: "kcore_pos V md degrees (hd vert # srt degrees (tl vert)) = Some (pos, bin)" and f: "fill_bins md bin 1 = Some bin'"
    and l: "kcore_loop enc (Some adj) V max_kcore 0
       (\<lparr>kc_degrees = degrees, kc_pos = pos, kc_vert = hd vert # srt degrees (tl vert), kc_bin = bin'\<rparr>, replicate (V + 1) False, st) \<noteq> None"
    by (auto simp: RangeVend_BuildEncoding_def bind_eq_Some_conv Let_def simp del: replicate.simps upt.simps)
  have "length bin' \<le> max_kcore + 1"
    using fill_bins_length [OF f] kcore_pos_length [OF p] kcore_degrees_max [OF assms d] by simp
  then show False using l by (subst (asm) kcore_loop.simps) (simp add: aget_None)
qed

text \<open>A graph of five vertices: 3, 4 and 5 are neighbours of 1 and 2 only, which are neighbours. No vertex has
  degree 3.\<close>

definition lost_graph :: adjacency where
  "lost_graph = [[], [2, 3, 4, 5], [1, 3, 4, 5], [1, 2], [1, 2], [1, 2]]"

lemma range_vend_sparse_undefined_witness:
  "RangeVend_BuildEncoding stable_sort (Range_EncodeVertex range_demo) 5 5 (Some lost_graph) [] (EncodeBitSet range_demo) = None"
  using range_vend_sparse_undefined [of lost_graph 5 stable_sort "Range_EncodeVertex range_demo" 5 "[]" "EncodeBitSet range_demo"]
  by (simp add: lost_graph_def)

definition lost_config :: config where
  "lost_config = \<lparr>K_SIZE = 4, VERTEX_SIZE = 5, DEGREE = 4, B_FILTER_ENCODE_BITS = 20,
     PER_ENCODE_BIT_SIZE = 128, VERTEX_BIT_SIZE = 3, MAX_K_CORE_SIZE = 42, LOG_K = 6,
     MAX_INTEGER_SIZE = 39, BLOCK_BEGIN_INDEX = 9, BLOCK_NUMS = 1, ELEMENT_SIZE = 4,
     BIT_HASH_BEST_NUMS = 1, INT_HASH_BEST_NUMS = 1, COUNT_HASH_BEST_NUMS = 1, PREFIX_BIT_SIZE = 9, HSIMD = False\<rparr>"

lemma lost_config_Init:
  "do { cfg \<leftarrow> InitCommonVariables False 4 5 4; InitHashConfig 1 1 cfg } = Some lost_config"
proof -
  have "clog2 5 = 3" "clog2 43 = 6" "clog2 20 = 5" by (rule clog2_unique; simp)+
  then show ?thesis
    by (simp add: InitCommonVariables_def InitHashConfig_def lost_config_def cdiv_def UP_TO_ONE_def Let_def)
qed

text \<open>\<^verbatim>\<open>RangeVend\<close> is not sound. On this graph the entry of \<^verbatim>\<open>bin\<close> for the degree 3, which no vertex has, points
  into the vertices already peeled; vertex 1 is moved there and never encoded, vertex 4 is encoded twice,
  and the edge of 2 and 4 is lost: the pair is answered \<^verbatim>\<open>NonNeighbor\<close>.\<close>

theorem range_vend_loses_edge:
  "4 \<in> set (lost_graph ! 2) \<and>
   RangeVend_BuildEncoding stable_sort (\<lambda>v ns l. Some (l @ [(v, ns)])) (max_int_size lost_config) (VERTEX_SIZE lost_config) (Some lost_graph) [] [] =
     Some [(0, []), (3, [1, 2]), (4, [1, 2]), (2, [1, 5]), (4, [1]), (5, [1])] \<and>
   do { st \<leftarrow> RangeVend_BuildEncoding stable_sort (Range_EncodeVertex lost_config) (max_int_size lost_config) (VERTEX_SIZE lost_config)
          (Some lost_graph) [] (EncodeBitSet lost_config);
        Range_NEpairTest lost_config st 2 4 } = Some NonNeighbor"
proof (intro conjI)
  show "4 \<in> set (lost_graph ! 2)" by (simp add: lost_graph_def)
  show "RangeVend_BuildEncoding stable_sort (\<lambda>v ns l. Some (l @ [(v, ns)])) (max_int_size lost_config) (VERTEX_SIZE lost_config) (Some lost_graph) [] [] =
     Some [(0, []), (3, [1, 2]), (4, [1, 2]), (2, [1, 5]), (4, [1]), (5, [1])]" by code_simp
  show "do { st \<leftarrow> RangeVend_BuildEncoding stable_sort (Range_EncodeVertex lost_config) (max_int_size lost_config) (VERTEX_SIZE lost_config)
          (Some lost_graph) [] (EncodeBitSet lost_config);
        Range_NEpairTest lost_config st 2 4 } = Some NonNeighbor" by code_simp
qed

end
