(* ===== verification/Delta_Vend.thy ===== *)
theory Delta_Vend
  imports Delta_V3 Delta_Spec Peel_Build
begin

text \<open>
  \<^verbatim>\<open>DeltaSIMDVEND\<close>: the delta encoders with the construction by peeling. The edges of the graph are stored at
  one end only, and the test of a pair finds them there.
\<close>

datatype DeltaType = V0 | V1 | V2 | V3

text \<open>What \<^verbatim>\<open>initEncode\<close> selects: \<^verbatim>\<open>EncodeVertex\<close>, the codec's \<^verbatim>\<open>GetRequiredBytes\<close> and \<^verbatim>\<open>NEpairTest\<close>.\<close>

record delta_vend =
  dv_encode :: "u32 \<Rightarrow> u32 list \<Rightarrow> encoding \<Rightarrow> encoding option"
  dv_required :: "u32 list \<Rightarrow> nat option"
  dv_test :: "(nat \<Rightarrow> u8) \<Rightarrow> encoding \<Rightarrow> u32 \<Rightarrow> u32 \<Rightarrow> PairType option"

fun initEncode :: "config \<Rightarrow> DeltaType \<Rightarrow> delta_vend" where
  "initEncode cfg V0 = \<lparr>dv_encode = Delta_EncodeVertex DeltaSIMDEncode cfg,
     dv_required = (\<lambda>ns. GetRequiredBytes GenValue (aget ns) (length ns)),
     dv_test = (\<lambda>pad. Delta_NEpairTest DeltaSIMDEncode pad cfg)\<rparr>"
| "initEncode cfg V1 = \<lparr>dv_encode = Delta_EncodeVertex DeltaSIMDEncodeV1 cfg,
     dv_required = (\<lambda>ns. GetRequiredBytes GenValueV1 (aget ns) (length ns)),
     dv_test = (\<lambda>pad. Delta_NEpairTest DeltaSIMDEncodeV1 pad cfg)\<rparr>"
| "initEncode cfg V2 = \<lparr>dv_encode = Delta_EncodeVertex DeltaSIMDEncodeV2 cfg,
     dv_required = (\<lambda>ns. GetRequiredBytes GenValueV2 (aget ns) (length ns)),
     dv_test = (\<lambda>pad. Delta_NEpairTest DeltaSIMDEncodeV2 pad cfg)\<rparr>"
| "initEncode cfg V3 = \<lparr>dv_encode = EncodeVertexV3 cfg, dv_required = GetRequiredBytesV3, dv_test = (\<lambda>pad. V3_NEpairTest pad cfg)\<rparr>"

definition DeltaSIMDVEND_BuildEncoding :: "config \<Rightarrow> DeltaType \<Rightarrow> (u32 list \<Rightarrow> u32 list) \<Rightarrow> adjacency \<Rightarrow> encoding \<Rightarrow> encoding option" where
  "DeltaSIMDVEND_BuildEncoding cfg t ord adj st = do {
     let dv = initEncode cfg t;
     max_bytes_len \<leftarrow> SIMD_GetBytesSize st;
     peel_build (dv_encode dv) (dv_required dv) max_bytes_len ord (VERTEX_SIZE cfg) adj st }"

text \<open>\<^verbatim>\<open>Vend::Determine\<close>.\<close>

definition DeltaSIMDVEND_Determine :: "config \<Rightarrow> DeltaType \<Rightarrow> (nat \<Rightarrow> u8) \<Rightarrow> encoding \<Rightarrow> u32 \<Rightarrow> u32 \<Rightarrow> PairType option" where
  "DeltaSIMDVEND_Determine cfg t pad st vertex1 vertex2 = dv_test (initEncode cfg t) pad st vertex1 vertex2"

section \<open>The delta encoders peel\<close>

sublocale delta_encoder \<subseteq> peel: peel_encoder delta_config delta_ids fresh "\<lambda>cfg v e ns. delta_encodes gen cfg e ns"
  "Delta_EncodeVertex C" "Delta_NonNeighborTest C pad" "\<lambda>ns. GetRequiredBytes gen (aget ns) (length ns)" "delta_len gen"
  max_bytes_len "\<lambda>e. bitat e 0" for pad
proof
  show "GetRequiredBytes gen (aget ns) (length ns) = Some (delta_len gen ns)" for ns
    by (simp add: GetRequiredBytes_eq delta_len_def)
next
  fix cfg st v ns st'
  assume "delta_config cfg" "wf_encoding cfg st" "is_vertex cfg v" "delta_ids cfg ns" "fresh cfg (st ! unat v)"
    "delta_len gen ns \<le> max_bytes_len cfg" "Delta_EncodeVertex C cfg v ns st = Some st'"
  then show "bitat (st' ! unat v) 0" using vertex_encodes [of cfg ns v st] is_vertex_index by auto
next
  fix cfg ns P assume "delta_ids cfg ns"
  then show "delta_ids cfg (filter P ns)"
    using order.trans [OF length_filter_le] by (auto simp: delta_ids_def good_ids_def intro: sorted_wrt_filter)
qed

text \<open>A pair of vertices of which each holds the other or has been left to it.\<close>

context delta_encoder
begin

lemma pair_peeled:
  assumes "delta_config cfg" "is_vertex cfg v" "is_vertex cfg u" "unat v < length st" "unat u < length st"
    "delta_encodes gen cfg (st ! unat v) a" "delta_encodes gen cfg (st ! unat u) b" "delta_ids cfg a" "delta_ids cfg b"
    "u \<in> set a \<Longrightarrow> adj" "v \<in> set b \<Longrightarrow> adj" "adj \<Longrightarrow> u \<notin> set a \<Longrightarrow> bitat (st ! unat u) 0 \<and> v \<in> set b"
    "adj \<Longrightarrow> v \<notin> set b \<Longrightarrow> bitat (st ! unat v) 0 \<and> u \<in> set a"
  shows "\<exists>r. Delta_NEpairTest C pad cfg st v u = Some r \<and> answer_ok r adj"
proof -
  have small: "unat v < 2 ^ 31" "unat u < 2 ^ 31" using assms(2,3) delta_configD(3) [OF assms(1)] by (simp_all add: is_vertex_def)
  have wf: "wf_enc cfg (st ! unat v)" "wf_enc cfg (st ! unat u)" using assms(6,7) by (simp_all add: delta_encodes_def)
  have flag: "Delta_IsDecodable st w = Some (bitat (st ! unat w) 0)" if "wf_enc cfg (st ! unat w)" "unat w < length st" for w
  proof -
    have "wf_bs (st ! unat w)" "1 \<le> bs_size (st ! unat w)" using that(1) wf_configD(13) [OF delta_configD(1) [OF assms(1)]] by (simp_all add: wf_enc_def)
    from GetFirstBit_eq [OF this] that(2) show ?thesis by (simp add: Delta_IsDecodable_def)
  qed
  note dec = flag [OF wf(1) assms(4)] flag [OF wf(2) assms(5)]
  have exact: "FindDecodable C pad (st ! unat w) x = Some (if x \<in> set ns then Neighbor else NonNeighbor)"
    if "delta_encodes gen cfg (st ! unat w) ns" "delta_ids cfg ns" "bitat (st ! unat w) 0" "unat x < 2 ^ 31" for w x ns
    using that by (intro FindDecodable_correct [OF assms(1)]) (auto simp: delta_encodes_def)
  obtain r1 r2 where r: "Delta_NonNeighborTest C pad cfg st v u = Some r1" "answer_ok r1 (u \<in> set a)"
    "Delta_NonNeighborTest C pad cfg st u v = Some r2" "answer_ok r2 (v \<in> set b)"
    using test_sound [OF assms(1,8,6,4) small(2)] test_sound [OF assms(1,9,7,5) small(1)] by blast
  consider "bitat (st ! unat v) 0" "bitat (st ! unat u) 0" | "bitat (st ! unat v) 0" "\<not> bitat (st ! unat u) 0"
    | "\<not> bitat (st ! unat v) 0" "bitat (st ! unat u) 0" | "\<not> bitat (st ! unat v) 0" "\<not> bitat (st ! unat u) 0" by blast
  then show ?thesis
  proof cases
    case 1
    have "adj \<longleftrightarrow> u \<in> set a \<or> v \<in> set b" using assms(10-13) by blast
    then show ?thesis using 1 dec exact [OF assms(6,8) _ small(2)] exact [OF assms(7,9) _ small(1)] assms(4,5)
      by (simp add: Delta_NEpairTest_def min_def less_eq_PairType_def)
  next
    case 2
    have "adj \<longleftrightarrow> u \<in> set a" using assms(10,12) 2(2) by blast
    then show ?thesis using 2 dec exact [OF assms(6,8) _ small(2)] assms(4,5) by (simp add: Delta_NEpairTest_def)
  next
    case 3
    have "adj \<longleftrightarrow> v \<in> set b" using assms(11,13) 3(1) by blast
    then show ?thesis using 3 dec exact [OF assms(7,9) _ small(1)] assms(4,5) by (simp add: Delta_NEpairTest_def)
  next
    case 4
    have "adj \<longleftrightarrow> u \<in> set a" "adj \<longleftrightarrow> v \<in> set b" using assms(10-13) 4 by blast+
    then have "answer_ok r1 adj" "answer_ok r2 adj" using r(2,4) by simp_all
    from answer_ok_min [OF this] show ?thesis using 4 dec r(1,3) assms(4,5)
      by (simp add: Delta_NEpairTest_def Delta_NonNeighborTest_def)
  qed
qed

lemma peel_sound:
  assumes "delta_config cfg" "undirected cfg adj" "\<And>v. is_vertex cfg v \<Longrightarrow> delta_ids cfg (adj ! unat v)" "traversal ord"
  shows "\<exists>st. peel_build (Delta_EncodeVertex C cfg) (\<lambda>ns. GetRequiredBytes gen (aget ns) (length ns)) (max_bytes_len cfg) ord
      (VERTEX_SIZE cfg) adj (SIMDEncode cfg) = Some st \<and> wf_encoding cfg st \<and>
    (\<forall>pad u v. is_vertex cfg u \<longrightarrow> is_vertex cfg v \<longrightarrow>
       (\<exists>r. Delta_NEpairTest C pad cfg st v u = Some r \<and> answer_ok r (u \<in> set (adj ! unat v))))"
proof -
  have new: "SIMDEncode cfg = EncodeBitSet cfg" by (simp add: SIMDEncode_def EncodeBitSet_def)
  obtain st fl L where st: "peel_build (Delta_EncodeVertex C cfg) (\<lambda>ns. GetRequiredBytes gen (aget ns) (length ns)) (max_bytes_len cfg) ord
      (VERTEX_SIZE cfg) adj (EncodeBitSet cfg) = Some st" "wf_encoding cfg st"
    "\<And>v. is_vertex cfg v \<Longrightarrow> peel.stores cfg adj L fl st v \<and> (fl ! unat v \<longrightarrow> bitat (st ! unat v) 0)"
    using peel.peel_build_ok [OF assms] by blast
  have "\<exists>r. Delta_NEpairTest C pad cfg st v u = Some r \<and> answer_ok r (u \<in> set (adj ! unat v))"
    if u: "is_vertex cfg u" and v: "is_vertex cfg v" for pad u v
  proof (rule pair_peeled [OF assms(1) v u is_vertex_index [OF st(2) v] is_vertex_index [OF st(2) u]])
    have sym: "v \<in> set (adj ! unat u) \<longleftrightarrow> u \<in> set (adj ! unat v)" using undirectedD(3) [OF assms(2)] u v by blast
    note sv = st(3) [OF v, unfolded peel.stores_def] and su = st(3) [OF u, unfolded peel.stores_def]
    show "delta_encodes gen cfg (st ! unat v) (L v)" "delta_ids cfg (L v)" "delta_encodes gen cfg (st ! unat u) (L u)" "delta_ids cfg (L u)"
      using sv su by blast+
    show "u \<in> set (L v) \<Longrightarrow> u \<in> set (adj ! unat v)" "v \<in> set (L u) \<Longrightarrow> u \<in> set (adj ! unat v)" using sv su sym by blast+
    show "bitat (st ! unat u) 0 \<and> v \<in> set (L u)" if "u \<in> set (adj ! unat v)" "u \<notin> set (L v)" using that sv su by blast
    show "bitat (st ! unat v) 0 \<and> u \<in> set (L v)" if "u \<in> set (adj ! unat v)" "v \<notin> set (L u)" using that sv su sym by blast
  qed
  then show ?thesis unfolding new using st(1,2) by blast
qed

end

section \<open>The whole construction\<close>

lemma GetBytesSize_new:
  assumes "delta_config cfg"
  shows "SIMD_GetBytesSize (SIMDEncode cfg) = Some (max_bytes_len cfg)"
proof -
  have "PER_ENCODE_BIT_SIZE cfg = 8 * (1 + max_bytes_len cfg)" using delta_configD(5) [OF assms] .
  then show ?thesis by (simp add: SIMD_GetBytesSize_def SIMDEncode_def GetBitSize_def BitSetSIMD_def aget_def del: upt_Suc)
qed

lemma delta_vend_build:
  assumes "t \<noteq> V3" "delta_config cfg" "undirected cfg adj" "\<And>v. is_vertex cfg v \<Longrightarrow> delta_ids cfg (adj ! unat v)" "traversal ord"
  shows "\<exists>st. DeltaSIMDVEND_BuildEncoding cfg t ord adj (SIMDEncode cfg) = Some st \<and> wf_encoding cfg st \<and>
    (\<forall>pad u v. is_vertex cfg u \<longrightarrow> is_vertex cfg v \<longrightarrow>
       (\<exists>r. DeltaSIMDVEND_Determine cfg t pad st v u = Some r \<and> answer_ok r (u \<in> set (adj ! unat v))))"
  using assms(1) enc_base.peel_sound [OF assms(2-5)] enc_v1.peel_sound [OF assms(2-5)] enc_v2.peel_sound [OF assms(2-5)]
  by (cases t) (simp_all add: DeltaSIMDVEND_BuildEncoding_def DeltaSIMDVEND_Determine_def GetBytesSize_new [OF assms(2)] Let_def)

text \<open>C5. \<^verbatim>\<open>DeltaSIMDVEND\<close> is sound. For the codecs of version 0, 1 and 2, every undirected graph whose lists are
  ascending and without repetitions, and every order in which an \<^verbatim>\<open>unordered_set\<close> may be traversed:
  \<^verbatim>\<open>BuildEncoding\<close> ends, and afterwards \<^verbatim>\<open>Determine\<close> never answers \<^verbatim>\<open>NonNeighbor\<close> for an edge nor \<^verbatim>\<open>Neighbor\<close> for
  a pair that is none, although every peeled edge is stored at one of its ends only.\<close>

theorem delta_vend_sound:
  assumes "t \<noteq> V3" "delta_config cfg" "undirected cfg adj" "\<And>v. is_vertex cfg v \<Longrightarrow> delta_ids cfg (adj ! unat v)" "traversal ord"
  shows "\<exists>st. DeltaSIMDVEND_BuildEncoding cfg t ord adj (SIMDEncode cfg) = Some st \<and> wf_encoding cfg st \<and>
    (\<forall>pad u v. is_vertex cfg u \<longrightarrow> is_vertex cfg v \<longrightarrow>
       (\<exists>r. DeltaSIMDVEND_Determine cfg t pad st v u = Some r \<and> answer_ok r (u \<in> set (adj ! unat v))))"
  using delta_vend_build [OF assms] .

definition demo_graph :: adjacency where
  "demo_graph = map (\<lambda>i. demo_adj (of_nat i)) [0..<11]"

lemma demo_graph_nth: "is_vertex demo_config v \<Longrightarrow> demo_graph ! unat v = demo_adj v"
  by (simp add: demo_graph_def is_vertex_def demo_config_def del: upt_Suc)

lemma demo_graph_undirected: "undirected demo_config demo_graph"
proof -
  have u: "is_vertex demo_config u" if "u \<in> set (demo_adj v)" for u v
    using that by (auto simp: demo_adj_def is_vertex_def demo_config_def split: if_splits)
  have "is_vertex demo_config u \<and> v \<in> set (demo_graph ! unat u)" if "u \<in> set (demo_adj v)" for u v
    using u [OF that] demo_graph_nth [OF u [OF that]] demo_adj_sym [of u v] that by simp
  moreover have "length demo_graph = VERTEX_SIZE demo_config + 1" by (simp add: demo_graph_def demo_config_def)
  ultimately show ?thesis unfolding undirected_def by (metis demo_graph_nth)
qed

lemma traversal_remdups: "traversal remdups"
  by (simp add: traversal_def)

lemma delta_vend_sound_witness:
  "10 \<in> set (demo_adj 1) \<and> (\<exists>st. DeltaSIMDVEND_BuildEncoding demo_config V1 remdups demo_graph (SIMDEncode demo_config) = Some st \<and>
     (\<exists>r. DeltaSIMDVEND_Determine demo_config V1 (\<lambda>_. 0) st 1 10 = Some r \<and> r \<noteq> NonNeighbor))"
proof -
  have v: "is_vertex demo_config 1" "is_vertex demo_config 10" by (simp_all add: is_vertex_def demo_config_def)
  have e: "10 \<in> set (demo_adj 1)" by (simp add: demo_adj_def)
  have ids: "delta_ids demo_config (demo_graph ! unat v)" if "is_vertex demo_config v" for v
    using demo_delta(2) demo_graph_nth [OF that] by simp
  from delta_vend_sound [OF _ demo_delta(1) demo_graph_undirected ids traversal_remdups, of V1]
  obtain st where "DeltaSIMDVEND_BuildEncoding demo_config V1 remdups demo_graph (SIMDEncode demo_config) = Some st"
    "\<And>pad u v. is_vertex demo_config u \<Longrightarrow> is_vertex demo_config v \<Longrightarrow>
       \<exists>r. DeltaSIMDVEND_Determine demo_config V1 pad st v u = Some r \<and> answer_ok r (u \<in> set (demo_graph ! unat v))" by auto
  moreover from this(2) [OF v(2,1), of "\<lambda>_. 0"] have "\<exists>r. DeltaSIMDVEND_Determine demo_config V1 (\<lambda>_. 0) st 1 10 = Some r \<and> r \<noteq> NonNeighbor"
    using e demo_graph_nth [OF v(1)] by (auto simp: answer_ok_def)
  ultimately show ?thesis using e by blast
qed

end
