(* ===== verification/Directed.thy ===== *)
theory Directed
  imports Range_Vend Delta_Vend
begin

text \<open>
  Directed graphs. \<^verbatim>\<open>DirectedHybrid\<close> and \<^verbatim>\<open>DirectedSIMD\<close> keep a second array of bit sets, \<^verbatim>\<open>in_bitset_\<close>, for the incoming
  neighbours; \<^verbatim>\<open>Directed_Hyb_Vend\<close> and \<^verbatim>\<open>DirSIMDVend\<close> build both by peeling. The members that encode and test one
  direction repeat those of the undirected classes on the chosen array.
\<close>

record dir_encoding =
  out_bits :: encoding
  in_bits :: encoding

definition side :: "bool \<Rightarrow> dir_encoding \<Rightarrow> encoding" where
  "side out d = (if out then out_bits d else in_bits d)"

definition set_side :: "bool \<Rightarrow> dir_encoding \<Rightarrow> encoding \<Rightarrow> dir_encoding" where
  "set_side out d st = (if out then d\<lparr>out_bits := st\<rparr> else d\<lparr>in_bits := st\<rparr>)"

section \<open>DirectedHybrid\<close>

definition DirectedHybrid :: "config \<Rightarrow> dir_encoding" where
  "DirectedHybrid cfg = \<lparr>out_bits = EncodeBitSet cfg, in_bits = map (\<lambda>i. BitSetSIMD (PER_ENCODE_BIT_SIZE cfg)) [0..<VERTEX_SIZE cfg + 1]\<rparr>"

definition DH_DynamicChoose :: "config \<Rightarrow> u32 \<Rightarrow> u32 list \<Rightarrow> bool \<Rightarrow> dir_encoding \<Rightarrow> (dir_encoding \<times> u32) option" where
  "DH_DynamicChoose cfg vertex neighbors out d = do {
     bs \<leftarrow> aget (side out d) (unat vertex);
     hc \<leftarrow> ReConstruct cfg neighbors 0 False (HashCount_new cfg);
     best \<leftarrow> ChooseHighest cfg neighbors hc 0 0 FullHash (0, bs);
     (_, max_score, bs) \<leftarrow> foldo (block_size_step cfg neighbors) [1..<MAX_INTEGER_SIZE cfg + 1] (hc, best);
     st \<leftarrow> aput (side out d) (unat vertex) bs;
     Some (set_side out d st, max_score) }"

definition DH_EncodeVertex_side :: "config \<Rightarrow> u32 \<Rightarrow> u32 list \<Rightarrow> bool \<Rightarrow> dir_encoding \<Rightarrow> dir_encoding option" where
  "DH_EncodeVertex_side cfg vertex_id neighbors out d =
     (if length neighbors \<le> MAX_K_CORE_SIZE cfg then do {
        e \<leftarrow> aget (side out d) (unat vertex_id);
        e \<leftarrow> SetOne e 0;
        e \<leftarrow> put_blocks BlockSet e 1 (VERTEX_BIT_SIZE cfg) neighbors;
        st \<leftarrow> aput (side out d) (unat vertex_id) e;
        Some (set_side out d st) }
      else do {
        (d, _) \<leftarrow> DH_DynamicChoose cfg vertex_id neighbors out d;
        Some d })"

definition DH_EncodeVertex :: "config \<Rightarrow> u32 \<Rightarrow> u32 list \<Rightarrow> u32 list \<Rightarrow> dir_encoding \<Rightarrow> dir_encoding option" where
  "DH_EncodeVertex cfg vertex_id out_neigh in_neigh d = do {
     d \<leftarrow> DH_EncodeVertex_side cfg vertex_id out_neigh True d;
     DH_EncodeVertex_side cfg vertex_id in_neigh False d }"

definition DH_IsDecodable :: "dir_encoding \<Rightarrow> u32 \<Rightarrow> bool \<Rightarrow> bool option" where
  "DH_IsDecodable d vertex out = do { e \<leftarrow> aget (side out d) (unat vertex); IsOne e 0 }"

definition DH_NonNeighborTest :: "config \<Rightarrow> dir_encoding \<Rightarrow> u32 \<Rightarrow> u32 \<Rightarrow> bool \<Rightarrow> PairType option" where
  "DH_NonNeighborTest cfg d vertex1 vertex2 reverse = do {
     e \<leftarrow> aget (side (\<not> reverse) d) (unat vertex1);
     b \<leftarrow> IsOne e 0;
     if b then find_block cfg e 1 (MAX_K_CORE_SIZE cfg) vertex2
     else do {
       block_num \<leftarrow> GetBlockNum (LOG_K cfg) e;
       type \<leftarrow> GetBlockModel_enc e;
       let hash_begin = block_num * VERTEX_BIT_SIZE cfg + 3 + LOG_K cfg;
       mi \<leftarrow> (if type \<noteq> LeftMost then
               (if block_num = 0 then Some 0 else BlockGet e (3 + LOG_K cfg) (VERTEX_BIT_SIZE cfg))
              else Some 0);
       ma \<leftarrow> (if type \<noteq> RightMost then
               (if block_num = 0 then Some 0
                else BlockGet e (3 + LOG_K cfg + (block_num - 1) * VERTEX_BIT_SIZE cfg) (VERTEX_BIT_SIZE cfg))
              else Some (vertex_id_upper cfg));
       if vertex2 < mi \<or> vertex2 > ma then hash_answer cfg e vertex2 hash_begin
       else find_block cfg e (BLOCK_BEGIN_INDEX cfg) block_num vertex2 } }"

text \<open>Both classes combine the outgoing test of the first vertex and the incoming test of the second.\<close>

definition dir_pair_test :: "(u32 \<Rightarrow> bool \<Rightarrow> bool option) \<Rightarrow> (u32 \<Rightarrow> u32 \<Rightarrow> bool \<Rightarrow> PairType option) \<Rightarrow> u32 \<Rightarrow> u32 \<Rightarrow> PairType option" where
  "dir_pair_test dec test vertex1 vertex2 = do {
     encode_type1 \<leftarrow> dec vertex1 True;
     encode_type2 \<leftarrow> dec vertex2 False;
     if encode_type1 then
       if encode_type2 then do {
         type1 \<leftarrow> test vertex1 vertex2 False;
         if type1 = Neighbor then Some type1
         else do { type2 \<leftarrow> test vertex2 vertex1 True; Some (min type1 type2) } }
       else test vertex1 vertex2 False
     else
       if encode_type2 then test vertex2 vertex1 True
       else do {
         type1 \<leftarrow> test vertex1 vertex2 False;
         type2 \<leftarrow> test vertex2 vertex1 True;
         Some (min type1 type2) } }"

definition DH_NEpairTest :: "config \<Rightarrow> dir_encoding \<Rightarrow> u32 \<Rightarrow> u32 \<Rightarrow> PairType option" where
  "DH_NEpairTest cfg d = dir_pair_test (DH_IsDecodable d) (DH_NonNeighborTest cfg d)"

section \<open>DirectedSIMD\<close>

definition DirectedSIMD :: "config \<Rightarrow> dir_encoding" where
  "DirectedSIMD cfg = \<lparr>out_bits = SIMDEncode cfg, in_bits = map (\<lambda>i. BitSetSIMD (PER_ENCODE_BIT_SIZE cfg)) [0..<VERTEX_SIZE cfg + 1]\<rparr>"

text \<open>What \<^verbatim>\<open>EncodeVertex\<close> does to the chosen bit set.\<close>

definition DS_encode_bits :: "config \<Rightarrow> u32 list \<Rightarrow> bitset \<Rightarrow> bitset option" where
  "DS_encode_bits cfg neighbors e =
     (if neighbors = [] then SetOne e 0
      else do {
        delta_infos \<leftarrow> ParseEncode neighbors;
        encode_byte_len \<leftarrow> (if delta_infos = [] then None
          else Some (total_bits (last delta_infos) + (length delta_infos + 3) div 4));
        if encode_byte_len \<le> max_bytes_len cfg then do {
          e \<leftarrow> SetOne e 0;
          e \<leftarrow> SetEncodeSize e (of_nat (length neighbors));
          (mem, _) \<leftarrow> EncodeArray (EncodeDeltas GenValue) neighbors (bs_data e) 1;
          Some (e\<lparr>bs_data := mem\<rparr>) }
        else Delta_DynamicChoose cfg DeltaSIMDEncode neighbors delta_infos e })"

definition DS_EncodeVertex_side :: "config \<Rightarrow> u32 \<Rightarrow> u32 list \<Rightarrow> bool \<Rightarrow> dir_encoding \<Rightarrow> dir_encoding option" where
  "DS_EncodeVertex_side cfg vertex_id neighbors out d = do {
     e \<leftarrow> aget (side out d) (unat vertex_id);
     e \<leftarrow> DS_encode_bits cfg neighbors e;
     st \<leftarrow> aput (side out d) (unat vertex_id) e;
     Some (set_side out d st) }"

definition DS_EncodeVertex :: "config \<Rightarrow> u32 \<Rightarrow> u32 list \<Rightarrow> u32 list \<Rightarrow> dir_encoding \<Rightarrow> dir_encoding option" where
  "DS_EncodeVertex cfg vertex_id out_neigh in_neigh d = do {
     d \<leftarrow> DS_EncodeVertex_side cfg vertex_id out_neigh True d;
     DS_EncodeVertex_side cfg vertex_id in_neigh False d }"

definition DS_IsDecodable :: "dir_encoding \<Rightarrow> u32 \<Rightarrow> bool \<Rightarrow> bool option" where
  "DS_IsDecodable d vertex out = do { e \<leftarrow> aget (side out d) (unat vertex); IsOne e 0 }"

text \<open>\<^verbatim>\<open>IsDecodable(vertex1, reverse)\<close> asks for the flag of the other array.\<close>

definition DS_NonNeighborTest :: "config \<Rightarrow> (nat \<Rightarrow> u8) \<Rightarrow> dir_encoding \<Rightarrow> u32 \<Rightarrow> u32 \<Rightarrow> bool \<Rightarrow> PairType option" where
  "DS_NonNeighborTest cfg pad d vertex1 vertex2 reverse = do {
     e \<leftarrow> aget (side (\<not> reverse) d) (unat vertex1);
     b \<leftarrow> DS_IsDecodable d vertex1 reverse;
     if b then FindDecodable DeltaSIMDEncode pad e vertex2 else FindNonDecodable cfg DeltaSIMDEncode pad e vertex2 }"

definition DS_NEpairTest :: "config \<Rightarrow> (nat \<Rightarrow> u8) \<Rightarrow> dir_encoding \<Rightarrow> u32 \<Rightarrow> u32 \<Rightarrow> PairType option" where
  "DS_NEpairTest cfg pad d = dir_pair_test (DS_IsDecodable d) (DS_NonNeighborTest cfg pad d)"

section \<open>Directed_Hyb_Vend\<close>

definition dir_degrees :: "nat \<Rightarrow> adjacency \<Rightarrow> adjacency \<Rightarrow> (nat \<times> nat list \<times> nat list) option" where
  "dir_degrees V adj in_adj =
     foldo (\<lambda>id (max_degree, degrees, vert). do {
         ns \<leftarrow> aget adj id;
         is \<leftarrow> aget in_adj id;
         vert \<leftarrow> aput vert id id;
         degrees \<leftarrow> aput degrees id (length ns + length is);
         Some (max (length ns + length is) max_degree, degrees, vert) }) [1..<length adj] (0, replicate (V + 1) 0, replicate (V + 1) 0)"

definition dir_kcore_step :: "(u32 \<Rightarrow> u32 list \<Rightarrow> u32 list \<Rightarrow> 's \<Rightarrow> 's option) \<Rightarrow> adjacency \<Rightarrow> adjacency \<Rightarrow> nat \<Rightarrow>
    kcore \<times> bool list \<times> 's \<Rightarrow> (kcore \<times> bool list \<times> 's) option" where
  "dir_kcore_step enc adj in_adj idx = (\<lambda>(s, filtered, st). do {
     vertex \<leftarrow> aget (kc_vert s) idx;
     vertex_degree \<leftarrow> aget (kc_degrees s) vertex;
     ns \<leftarrow> aget adj vertex;
     (neighbors, s) \<leftarrow> foldo (kcore_neighbor vertex_degree filtered) ns ([], s);
     is \<leftarrow> aget in_adj vertex;
     (in_neighbors, s) \<leftarrow> foldo (kcore_neighbor vertex_degree filtered) is ([], s);
     filtered \<leftarrow> aput filtered vertex True;
     st \<leftarrow> enc (of_nat vertex) neighbors in_neighbors st;
     Some (s, filtered, st) })"

function dir_kcore_loop :: "(u32 \<Rightarrow> u32 list \<Rightarrow> u32 list \<Rightarrow> 's \<Rightarrow> 's option) \<Rightarrow> adjacency \<Rightarrow> adjacency \<Rightarrow> nat \<Rightarrow> nat \<Rightarrow> nat \<Rightarrow>
    kcore \<times> bool list \<times> 's \<Rightarrow> (nat \<times> kcore \<times> bool list \<times> 's) option" where
  "dir_kcore_loop enc adj in_adj V max_kcore idx s = do {
     b \<leftarrow> aget (kc_bin (fst s)) (max_kcore + 1);
     if idx < b then
       if V < idx then None
       else do {
         s \<leftarrow> dir_kcore_step enc adj in_adj idx s;
         dir_kcore_loop enc adj in_adj V max_kcore (idx + 1) s }
     else Some (idx, s) }"
  by pat_completeness auto
termination
  by (relation "measure (\<lambda>(enc, adj, in_adj, V, max_kcore, idx, s). Suc V - idx)") auto

declare dir_kcore_loop.simps [simp del]

definition Directed_Hyb_Vend_BuildEncoding :: "(nat list \<Rightarrow> nat list \<Rightarrow> nat list) \<Rightarrow> (u32 \<Rightarrow> u32 list \<Rightarrow> u32 list \<Rightarrow> 's \<Rightarrow> 's option) \<Rightarrow>
    nat \<Rightarrow> nat \<Rightarrow> adjacency \<Rightarrow> adjacency \<Rightarrow> 's \<Rightarrow> 's option" where
  "Directed_Hyb_Vend_BuildEncoding srt enc max_kcore V adj in_adj st = do {
     (max_degree, degrees, vert) \<leftarrow> dir_degrees V adj in_adj;
     let vert = hd vert # srt degrees (tl vert);
     (pos, bin) \<leftarrow> kcore_pos V max_degree degrees vert;
     bin \<leftarrow> fill_bins max_degree bin 1;
     (idx, s, filtered, st) \<leftarrow> dir_kcore_loop enc adj in_adj V max_kcore 0
       (\<lparr>kc_degrees = degrees, kc_pos = pos, kc_vert = vert, kc_bin = bin\<rparr>, replicate (V + 1) False, st);
     foldo (\<lambda>idx st. do {
         vertex \<leftarrow> aget (kc_vert s) idx;
         ns \<leftarrow> aget adj vertex;
         neighbors \<leftarrow> unfiltered filtered ns;
         is \<leftarrow> aget in_adj vertex;
         in_neigh \<leftarrow> unfiltered filtered is;
         enc (of_nat vertex) neighbors in_neigh st }) [idx..<V + 1] st }"

section \<open>DirSIMDVend\<close>

definition dir_encode_list :: "nat \<Rightarrow> adjacency \<Rightarrow> adjacency \<Rightarrow> u32 list option" where
  "dir_encode_list max_len adj in_adj =
     foldo (\<lambda>id ids. do {
         ns \<leftarrow> aget adj (unat id);
         len1 \<leftarrow> GetRequiredBytes GenValue (aget ns) (length ns);
         is \<leftarrow> aget in_adj (unat id);
         len2 \<leftarrow> GetRequiredBytes GenValue (aget is) (length is);
         Some (if len1 + len2 \<le> max_len then ids @ [id] else ids) }) (map of_nat [1..<length adj]) []"

definition dir_first_round :: "(u32 \<Rightarrow> u32 list \<Rightarrow> u32 list \<Rightarrow> 's \<Rightarrow> 's option) \<Rightarrow> adjacency \<Rightarrow> adjacency \<Rightarrow> u32 list \<Rightarrow>
    u32 list \<times> bool list \<times> 's \<Rightarrow> (u32 list \<times> bool list \<times> 's) option" where
  "dir_first_round enc adj in_adj =
     foldo (\<lambda>vertex (related, filtered, st). do {
         ns \<leftarrow> aget adj (unat vertex);
         is \<leftarrow> aget in_adj (unat vertex);
         st \<leftarrow> enc vertex ns is st;
         filtered \<leftarrow> aput filtered (unat vertex) True;
         Some (related @ ns @ is, filtered, st) })"

definition dir_round_step :: "(u32 \<Rightarrow> u32 list \<Rightarrow> u32 list \<Rightarrow> 's \<Rightarrow> 's option) \<Rightarrow> nat \<Rightarrow> adjacency \<Rightarrow> adjacency \<Rightarrow>
    u32 \<Rightarrow> u32 list \<times> bool list \<times> 's \<Rightarrow> (u32 list \<times> bool list \<times> 's) option" where
  "dir_round_step enc max_len adj in_adj vertex = (\<lambda>(next_list, filtered, st). do {
     b \<leftarrow> aget filtered (unat vertex);
     if b then Some (next_list, filtered, st)
     else do {
       ns \<leftarrow> aget adj (unat vertex);
       neighbors \<leftarrow> unfiltered filtered ns;
       is \<leftarrow> aget in_adj (unat vertex);
       in_neighs \<leftarrow> unfiltered filtered is;
       len1 \<leftarrow> GetRequiredBytes GenValue (aget neighbors) (length neighbors);
       len2 \<leftarrow> GetRequiredBytes GenValue (aget in_neighs) (length in_neighs);
       if len1 + len2 \<le> max_len then do {
         st \<leftarrow> enc vertex neighbors in_neighs st;
         filtered \<leftarrow> aput filtered (unat vertex) True;
         Some (next_list @ neighbors @ in_neighs, filtered, st) }
       else Some (next_list, filtered, st) } })"

fun dir_rounds :: "(u32 \<Rightarrow> u32 list \<Rightarrow> u32 list \<Rightarrow> 's \<Rightarrow> 's option) \<Rightarrow> nat \<Rightarrow> (u32 list \<Rightarrow> u32 list) \<Rightarrow> adjacency \<Rightarrow> adjacency \<Rightarrow>
    nat \<Rightarrow> u32 list \<times> bool list \<times> 's \<Rightarrow> (bool list \<times> 's) option" where
  "dir_rounds enc max_len ord adj in_adj 0 (related, filtered, st) = (if related = [] then Some (filtered, st) else None)"
| "dir_rounds enc max_len ord adj in_adj (Suc fuel) (related, filtered, st) =
     (if related = [] then Some (filtered, st)
      else do {
        s \<leftarrow> foldo (dir_round_step enc max_len adj in_adj) (ord related) ([], filtered, st);
        dir_rounds enc max_len ord adj in_adj fuel s })"

definition DirSIMDVend_BuildEncoding :: "config \<Rightarrow> (u32 list \<Rightarrow> u32 list) \<Rightarrow> adjacency \<Rightarrow> adjacency \<Rightarrow> dir_encoding \<Rightarrow> dir_encoding option" where
  "DirSIMDVend_BuildEncoding cfg ord adj in_adj d = do {
     max_len \<leftarrow> SIMD_GetBytesSize (out_bits d);
     ids \<leftarrow> dir_encode_list max_len adj in_adj;
     s \<leftarrow> dir_first_round (DS_EncodeVertex cfg) adj in_adj ids ([], replicate (VERTEX_SIZE cfg + 1) False, d);
     (filtered, d) \<leftarrow> dir_rounds (DS_EncodeVertex cfg) max_len ord adj in_adj (VERTEX_SIZE cfg + 2) s;
     foldo (\<lambda>vertex d. do {
         b \<leftarrow> aget filtered (unat vertex);
         if b then Some d
         else do {
           ns \<leftarrow> aget adj (unat vertex);
           neighbors \<leftarrow> unfiltered filtered ns;
           is \<leftarrow> aget in_adj (unat vertex);
           in_neighs \<leftarrow> unfiltered filtered is;
           DS_EncodeVertex cfg vertex neighbors in_neighs d } }) (map of_nat [1..<VERTEX_SIZE cfg + 1]) d }"

end
