(* ===== verification/Directed_Spec.thy ===== *)
theory Directed_Spec
  imports Directed
begin

text \<open>
  Directed graphs: the hybrid encoding answers truthfully for arcs, the delta encoding does not, since it
  takes the flag that tells complete from partial encodings from the other direction.
\<close>

section \<open>The hybrid encoding\<close>

lemma set_side_simps [simp]:
  "side out (set_side out d st) = st" "side (\<not> out) (set_side out d st) = side (\<not> out) d"
  "out_bits (set_side False d st) = out_bits d" "in_bits (set_side True d st) = in_bits d"
  "out_bits (set_side True d st) = st" "in_bits (set_side False d st) = st"
  by (cases out; simp add: side_def set_side_def)+

lemma DH_EncodeVertex_side_eq:
  "DH_EncodeVertex_side cfg v ns out d = map_option (set_side out d) (EncodeVertex cfg v ns (side out d))"
  unfolding DH_EncodeVertex_side_def EncodeVertex_def DH_DynamicChoose_def DynamicChoose_def
  by (auto split: bind_splits option.splits simp: Option.bind_assoc map_option_bind case_prod_unfold)

lemma DH_NonNeighborTest_eq:
  assumes "wf_bs (side (\<not> reverse) d ! unat v)" "1 \<le> bs_size (side (\<not> reverse) d ! unat v)" "unat v < length (side (\<not> reverse) d)"
  shows "DH_NonNeighborTest cfg d v u reverse = NonNeighborTest cfg (side (\<not> reverse) d) v u"
proof -
  let ?e = "side (\<not> reverse) d ! unat v"
  have m: "GetBlockModel (side (\<not> reverse) d) v = GetBlockModel_enc ?e"
    using assms GetBlockModel_enc_eq [OF assms(1,2)] by (simp add: GetBlockModel_def)
  have "aget (side (\<not> reverse) d) (unat v) = Some ?e" using assms(3) by simp
  then show ?thesis unfolding DH_NonNeighborTest_def NonNeighborTest_def IsDecodable_def m by simp
qed

text \<open>Encoding both directions of every vertex is encoding each direction.\<close>

lemma DH_build:
  "foldo (\<lambda>v d. DH_EncodeVertex cfg v (outs v) (ins v) d) vs d =
     do { a \<leftarrow> build_all (EncodeVertex cfg) outs vs (out_bits d);
          b \<leftarrow> build_all (EncodeVertex cfg) ins vs (in_bits d);
          Some (d\<lparr>out_bits := a, in_bits := b\<rparr>) }"
  unfolding build_all_def
proof (induction vs arbitrary: d)
  case (Cons v vs)
  then show ?case
    by (auto simp: DH_EncodeVertex_def DH_EncodeVertex_side_eq side_def set_side_def split: option.splits bind_splits)
qed simp

text \<open>A combination of truthful tests is truthful.\<close>

lemma dir_pair_sound:
  assumes "\<exists>b. dec v True = Some b" "\<exists>b. dec u False = Some b"
    "\<exists>r. test v u False = Some r \<and> answer_ok r arc" "\<exists>r. test u v True = Some r \<and> answer_ok r arc"
  shows "\<exists>r. dir_pair_test dec test v u = Some r \<and> answer_ok r arc"
  using assms answer_ok_min by (auto simp: dir_pair_test_def)

text \<open>Each direction of the graph, encoded on its own.\<close>

lemma direction_built:
  assumes "readable_config cfg" "\<And>v. is_vertex cfg v \<Longrightarrow> good_ids cfg (adj v)"
  shows "\<exists>st. build_all (EncodeVertex cfg) adj (vertex_list cfg) (EncodeBitSet cfg) = Some st \<and> wf_encoding cfg st \<and>
    (\<forall>v. is_vertex cfg v \<longrightarrow> encodes cfg (st ! unat v) (adj v))"
proof -
  note vs = vertex_list_all [OF good_configD(1) [OF readable_configD(1) [OF assms(1)]]]
  note wf = EncodeBitSet_wf [OF good_configD(1) [OF readable_configD(1) [OF assms(1)]]]
  have "\<exists>s'. build_all (\<lambda>v ns st. map_option (Pair (fst st)) (EncodeVertex (fst st) v ns (snd st))) adj (vertex_list cfg) (cfg, EncodeBitSet cfg) = Some s' \<and>
      (readable_config (fst s') \<and> wf_encoding (fst s') (snd s')) \<and> fst s' = fst (cfg, EncodeBitSet cfg) \<and>
      (\<forall>v \<in> set (vertex_list cfg). encodes (fst s') (snd s' ! unat v) (adj v)) \<and>
      (\<forall>w ms. is_vertex (fst (cfg, EncodeBitSet cfg)) w \<longrightarrow> w \<notin> set (vertex_list cfg) \<longrightarrow>
         encodes (fst (cfg, EncodeBitSet cfg)) (snd (cfg, EncodeBitSet cfg) ! unat w) ms \<longrightarrow> encodes (fst s') (snd s' ! unat w) ms)"
    by (rule hybrid.build_law) (use assms wf vs in auto)
  then show ?thesis unfolding build_all_pair using vs by auto
qed

lemma DH_test_sound:
  assumes "readable_config cfg" "wf_encoding cfg (side (\<not> reverse) d)" "is_vertex cfg v" "is_vertex cfg u"
    "encodes cfg (side (\<not> reverse) d ! unat v) ns" "good_ids cfg ns"
  shows "\<exists>r. DH_NonNeighborTest cfg d v u reverse = Some r \<and> answer_ok r (u \<in> set ns)"
    "\<exists>b. DH_IsDecodable d v (\<not> reverse) = Some b"
proof -
  note i = is_vertex_index [OF assms(2,3)]
  have "wf_enc cfg (side (\<not> reverse) d ! unat v)" using assms(2) i by (simp add: wf_encoding_def)
  then have e: "wf_bs (side (\<not> reverse) d ! unat v)" "1 \<le> bs_size (side (\<not> reverse) d ! unat v)"
    using wf_configD(13) [OF good_configD(1) [OF readable_configD(1) [OF assms(1)]]] by (simp_all add: wf_enc_def)
  show "\<exists>r. DH_NonNeighborTest cfg d v u reverse = Some r \<and> answer_ok r (u \<in> set ns)"
    unfolding DH_NonNeighborTest_eq [OF e i] using hybrid.test_law [of "(cfg, side (\<not> reverse) d)" v u ns] assms by simp
  show "\<exists>b. DH_IsDecodable d v (\<not> reverse) = Some b" using e i by (simp add: DH_IsDecodable_def)
qed

text \<open>C12. The hybrid encoding of a directed graph is sound. Encoding the outgoing and the incoming neighbours of
  every vertex, starting from the constructor of \<^verbatim>\<open>DirectedHybrid\<close>, succeeds, and then \<^verbatim>\<open>NEpairTest\<close> answers
  every pair truthfully: never \<^verbatim>\<open>NonNeighbor\<close> for an arc from the first vertex to the second, never \<^verbatim>\<open>Neighbor\<close> where there is none.
  The ids have at least eight bits and the count can be read, as in the undirected encoding.\<close>

theorem directed_hybrid_sound:
  assumes "readable_config cfg" "\<And>v. is_vertex cfg v \<Longrightarrow> good_ids cfg (outs v) \<and> good_ids cfg (ins v)"
    "\<And>u v. is_vertex cfg u \<Longrightarrow> is_vertex cfg v \<Longrightarrow> u \<in> set (outs v) \<longleftrightarrow> v \<in> set (ins u)"
  shows "\<exists>d. foldo (\<lambda>v d. DH_EncodeVertex cfg v (outs v) (ins v) d) (vertex_list cfg) (DirectedHybrid cfg) = Some d \<and>
    (\<forall>u v. is_vertex cfg u \<longrightarrow> is_vertex cfg v \<longrightarrow>
       (\<exists>r. DH_NEpairTest cfg d v u = Some r \<and> answer_ok r (u \<in> set (outs v))))"
proof -
  obtain a b where a: "build_all (EncodeVertex cfg) outs (vertex_list cfg) (EncodeBitSet cfg) = Some a" "wf_encoding cfg a"
      "\<And>v. is_vertex cfg v \<Longrightarrow> encodes cfg (a ! unat v) (outs v)"
    and b: "build_all (EncodeVertex cfg) ins (vertex_list cfg) (EncodeBitSet cfg) = Some b" "wf_encoding cfg b"
      "\<And>v. is_vertex cfg v \<Longrightarrow> encodes cfg (b ! unat v) (ins v)"
    using direction_built [OF assms(1), of outs] direction_built [OF assms(1), of ins] assms(2) by blast
  let ?d = "\<lparr>out_bits = a, in_bits = b\<rparr>"
  have "foldo (\<lambda>v d. DH_EncodeVertex cfg v (outs v) (ins v) d) (vertex_list cfg) (DirectedHybrid cfg) = Some ?d"
    using a(1) b(1) by (simp add: DH_build DirectedHybrid_def EncodeBitSet_def)
  moreover have "\<exists>r. DH_NEpairTest cfg ?d v u = Some r \<and> answer_ok r (u \<in> set (outs v))" if uv: "is_vertex cfg u" "is_vertex cfg v" for u v
    unfolding DH_NEpairTest_def
    using DH_test_sound [OF assms(1), of False ?d v u "outs v"] DH_test_sound [OF assms(1), of True ?d u v "ins u"]
      a(2,3) b(2,3) uv assms(2,3)
    by (intro dir_pair_sound) (simp_all add: side_def)
  ultimately show ?thesis by blast
qed

text \<open>The arcs from the smaller to the larger end of the edges of the star.\<close>

definition demo_outs :: "u32 \<Rightarrow> u32 list" where
  "demo_outs v = filter (\<lambda>u. v < u) (star_adj v)"

definition demo_ins :: "u32 \<Rightarrow> u32 list" where
  "demo_ins v = filter (\<lambda>u. u < v) (star_adj v)"

lemma directed_hybrid_sound_witness:
  "13 \<in> set (demo_outs 1) \<and>
   (\<exists>d. foldo (\<lambda>v d. DH_EncodeVertex byte_config v (demo_outs v) (demo_ins v) d) (vertex_list byte_config) (DirectedHybrid byte_config) = Some d \<and>
     (\<exists>r. DH_NEpairTest byte_config d 1 13 = Some r \<and> r \<noteq> NonNeighbor) \<and> (\<exists>r. DH_NEpairTest byte_config d 13 1 = Some r \<and> r \<noteq> Neighbor))"
proof -
  have v: "is_vertex byte_config 1" "is_vertex byte_config 13" by (simp_all add: is_vertex_def byte_config_def)
  have e: "13 \<in> set (demo_outs 1)" "1 \<notin> set (demo_outs 13)" by (simp_all add: demo_outs_def star_adj_def)
  have ids: "good_ids byte_config (demo_outs v) \<and> good_ids byte_config (demo_ins v)" for v
    using star_adj_ids [of v] order.trans [OF length_filter_le]
    by (auto simp: demo_outs_def demo_ins_def good_ids_def intro: sorted_wrt_filter)
  have arcs: "u \<in> set (demo_outs v) \<longleftrightarrow> v \<in> set (demo_ins u)" for u v
    using star_adj_sym [of u v] by (auto simp: demo_outs_def demo_ins_def)
  from directed_hybrid_sound [OF byte_config_readable ids arcs] show ?thesis using e v by (fastforce simp: answer_ok_def)
qed

section \<open>The delta encoding\<close>

lemma base_class_simps:
  "dc_encode_array DeltaSIMDEncode = EncodeArray (EncodeDeltas GenValue)"
  "dc_bytes DeltaSIMDEncode ns infos = (if infos = [] then None else Some (total_bits (last infos) + (length infos + 3) div 4))"
  by (simp_all add: DeltaSIMDEncode_def)

lemma EncodeVertex_bits:
  "Delta_EncodeVertex DeltaSIMDEncode cfg v ns st = do { e \<leftarrow> aget st (unat v); e \<leftarrow> DS_encode_bits cfg ns e; aput st (unat v) e }"
  unfolding Delta_EncodeVertex_def DS_encode_bits_def base_class_simps ..

lemma fresh_BitSetSIMD:
  assumes "wf_config cfg"
  shows "fresh cfg (BitSetSIMD (PER_ENCODE_BIT_SIZE cfg))"
  using wf_configD(1) [OF assms] by (simp add: fresh_def wf_enc_def)

text \<open>A list that does not fit is stored in part, and some neighbour is not among the stored ones.\<close>

lemma partial_misses:
  assumes "delta_config cfg" "delta_ids cfg ns" "max_bytes_len cfg < delta_len GenValue ns"
  shows "\<exists>e x. DS_encode_bits cfg ns (BitSetSIMD (PER_ENCODE_BIT_SIZE cfg)) = Some e \<and> wf_enc cfg e \<and> \<not> bitat e 0 \<and> x \<in> set ns \<and>
    (\<forall>pad. FindDecodable DeltaSIMDEncode pad e x = Some NonNeighbor)"
proof -
  let ?st = "EncodeBitSet cfg"
  note cfg = delta_configD [OF assms(1)]
  have new: "?st ! 0 = BitSetSIMD (PER_ENCODE_BIT_SIZE cfg)" "0 < length ?st" by (simp_all add: EncodeBitSet_def del: upt_Suc)
  have "fresh cfg (?st ! unat (0 :: u32))" unfolding unat_0 new(1) using fresh_BitSetSIMD [OF cfg(1)] .
  from enc_base.vertex_encodes [OF assms(1,2) _ this] new obtain e where
    e: "Delta_EncodeVertex DeltaSIMDEncode cfg 0 ns ?st = Some (?st[0 := e])" "delta_encodes GenValue cfg e ns" by auto
  have bits: "DS_encode_bits cfg ns (BitSetSIMD (PER_ENCODE_BIT_SIZE cfg)) = Some e"
    using e(1) new unfolding EncodeVertex_bits
    by (auto simp: aput_def bind_eq_Some_conv split: if_splits dest: arg_cong [where f = "\<lambda>st. st ! 0"])
  have wf: "wf_enc cfg e" using e(2) by (simp add: delta_encodes_def)
  then have len: "length (bs_data e) = 1 + max_bytes_len cfg" using wf_encD(2) [OF cfg(1) wf] cfg(5) by (simp add: wf_enc_def wf_bs_def)
  have "\<not> delta_region GenValue e ns" using assms(3) len by (auto simp: delta_region_def enc_at_def delta_len_def)
  with e(2) obtain a m c where m: "ns = a @ m @ c" "\<not> bitat e 0" "delta_region GenValue e m" "delta_hash_begin GenValue m \<le> PER_ENCODE_BIT_SIZE cfg"
    by (auto simp: delta_encodes_def delta_hashed_def)
  have "m \<noteq> ns" using m(4) assms(3) cfg(5) by (auto simp: delta_hash_begin_def)
  then have "set (a @ c) \<noteq> {}" using m(1) by auto
  then obtain x where "x \<in> set (a @ c)" by (metis ex_in_conv)
  then have x: "x \<in> set ns" "x \<notin> set m" using m(1) assms(2) by (auto simp: delta_ids_def)
  have "delta_ids cfg m" using assms(2) m(1) by (auto simp: delta_ids_def good_ids_def sorted_append)
  moreover have "unat x < 2 ^ 31" using x(1) assms(2) cfg(3) by (fastforce simp: delta_ids_def good_ids_def is_vertex_def)
  ultimately have "FindDecodable DeltaSIMDEncode pad e x = Some NonNeighbor" for pad
    using enc_base.FindDecodable_correct [OF assms(1) _ wf m(3)] x(2) by simp
  then show ?thesis using bits wf m(2) x(1) by blast
qed

lemma DS_encode_bits_Nil:
  assumes "wf_config cfg"
  shows "\<exists>e. DS_encode_bits cfg [] (BitSetSIMD (PER_ENCODE_BIT_SIZE cfg)) = Some e \<and> wf_enc cfg e \<and> bitat e 0"
  using wf_configD(1,13) [OF assms] by (simp add: DS_encode_bits_def wf_enc_def)

text \<open>C37. \<^verbatim>\<open>DirectedSIMD\<close> loses arcs. \<^verbatim>\<open>NonNeighborTest\<close> reads the neighbours of one direction but takes from the other direction the flag that says
  whether they are all stored. So whenever two lists do not fit, there are vertices \<open>s\<close> and \<open>t\<close> such that, with
  the arcs from \<open>s\<close> to all of \<open>bs\<close> and from all of \<open>as\<close> to \<open>t\<close> encoded, the arc from \<open>s\<close> to \<open>t\<close> is denied.\<close>

theorem directed_simd_loses_arc:
  assumes "delta_config cfg" "delta_ids cfg as" "delta_ids cfg bs" "set as \<inter> set bs = {}"
    "max_bytes_len cfg < delta_len GenValue as" "max_bytes_len cfg < delta_len GenValue bs"
  shows "\<exists>s \<in> set as. \<exists>t \<in> set bs. \<exists>d d'. DS_EncodeVertex cfg s bs [] (DirectedSIMD cfg) = Some d \<and>
    DS_EncodeVertex cfg t [] as d = Some d' \<and> (\<forall>pad. DS_NEpairTest cfg pad d' s t = Some NonNeighbor)"
proof -
  let ?new = "BitSetSIMD (PER_ENCODE_BIT_SIZE cfg)"
  note cfg = delta_configD [OF assms(1)]
  obtain ea s where s: "DS_encode_bits cfg as ?new = Some ea" "wf_enc cfg ea" "\<not> bitat ea 0" "s \<in> set as"
    "\<And>pad. FindDecodable DeltaSIMDEncode pad ea s = Some NonNeighbor" using partial_misses [OF assms(1,2,5)] by blast
  obtain eb t where t: "DS_encode_bits cfg bs ?new = Some eb" "wf_enc cfg eb" "\<not> bitat eb 0" "t \<in> set bs"
    "\<And>pad. FindDecodable DeltaSIMDEncode pad eb t = Some NonNeighbor" using partial_misses [OF assms(1,3,6)] by blast
  obtain e0 where e0: "DS_encode_bits cfg [] ?new = Some e0" "wf_enc cfg e0" "bitat e0 0" using DS_encode_bits_Nil [OF cfg(1)] by blast
  have v: "is_vertex cfg s" "is_vertex cfg t" using s(4) t(4) assms(2,3) by (auto simp: delta_ids_def good_ids_def is_vertex_def)
  have "s \<noteq> t" using s(4) t(4) assms(4) by blast
  then have ne: "unat s \<noteq> unat t" by (simp add: word_unat_eq_iff)
  have flag: "IsOne e 0 = Some (bitat e 0)" if "wf_enc cfg e" for e using that wf_configD(13) [OF cfg(1)] by (simp add: wf_enc_def)
  let ?st = "SIMDEncode cfg"
  have new: "?st ! unat s = ?new" "?st ! unat t = ?new" "unat s < length ?st" "unat t < length ?st"
    using v by (simp_all add: SIMDEncode_def is_vertex_def del: upt_Suc)
  let ?d = "\<lparr>out_bits = ?st[unat s := eb], in_bits = ?st[unat s := e0]\<rparr>"
  let ?d' = "\<lparr>out_bits = ?st[unat s := eb, unat t := e0], in_bits = ?st[unat s := e0, unat t := ea]\<rparr>"
  have D: "DirectedSIMD cfg = \<lparr>out_bits = ?st, in_bits = ?st\<rparr>" by (simp add: DirectedSIMD_def SIMDEncode_def)
  have "DS_EncodeVertex cfg s bs [] (DirectedSIMD cfg) = Some ?d"
    using t(1) e0(1) new unfolding D by (simp add: DS_EncodeVertex_def DS_EncodeVertex_side_def side_def set_side_def)
  moreover have "DS_EncodeVertex cfg t [] as ?d = Some ?d'"
    using s(1) e0(1) new ne by (simp add: DS_EncodeVertex_def DS_EncodeVertex_side_def side_def set_side_def)
  moreover have "DS_NEpairTest cfg pad ?d' s t = Some NonNeighbor" for pad
    using s t e0 new ne flag
    by (simp add: DS_NEpairTest_def dir_pair_test_def DS_IsDecodable_def DS_NonNeighborTest_def side_def)
  ultimately show ?thesis using s(4) t(4) by blast
qed

lemma directed_simd_loses_arc_witness:
  "\<exists>s \<in> {1, 2, 3}. \<exists>t \<in> {4, 5, 6}. \<exists>d d'. DS_EncodeVertex demo_config s [4, 5, 6] [] (DirectedSIMD demo_config) = Some d \<and>
    DS_EncodeVertex demo_config t [] [1, 2, 3] d = Some d' \<and> (\<forall>pad. DS_NEpairTest demo_config pad d' s t = Some NonNeighbor)"
proof -
  have "delta_ids demo_config [1, 2, 3]" "delta_ids demo_config [4, 5, 6]" by (simp_all add: delta_ids_def good_ids_def demo_config_def)
  moreover have "max_bytes_len demo_config < delta_len GenValue [1, 2, 3]" "max_bytes_len demo_config < delta_len GenValue [4, 5, 6]"
    by code_simp+
  ultimately show ?thesis using directed_simd_loses_arc [OF demo_delta(1), of "[1, 2, 3]" "[4, 5, 6]"] by simp
qed

end
