(* ===== verification/Compression.thy ===== *)
theory Compression
  imports Range_Encode Peel_Build
begin

text \<open>
  The compressed range encoding: the codecs of \<^verbatim>\<open>encode/single/compression.h\<close> (\<^verbatim>\<open>BitsComp\<close> with one block of
  \<^verbatim>\<open>VERTEX_BIT_SIZE\<close> bits for a neighbour, \<^verbatim>\<open>VbyteComp\<close> with one to four bytes, \<^verbatim>\<open>VbyteDeltaComp\<close> with the
  differences in as many bytes), \<^verbatim>\<open>RangeCompEncode\<close> of \<^verbatim>\<open>range_com_encode.h\<close> on top of them and
  \<^verbatim>\<open>RangeCompVend::BuildEncoding\<close>. The first word of a vertex is the flag of a complete encoding; behind it stand
  all neighbours, or the smallest and the largest of a run and then the rest of the run.
\<close>

datatype CompMethod = BITS | Vbyte | Delta

section \<open>BitsComp\<close>

definition BitsComp_GetRequiredBits :: "config \<Rightarrow> u32 list \<Rightarrow> nat" where
  "BitsComp_GetRequiredBits cfg list = (length list * VERTEX_BIT_SIZE cfg) mod 2 ^ 32"

definition BitsComp_Encode :: "nat \<Rightarrow> u32 list \<Rightarrow> bitset \<Rightarrow> nat \<Rightarrow> bitset option" where
  "BitsComp_Encode v_bit_size list encode shift = put_blocks BlockSet encode shift v_bit_size list"

definition BitsComp_choose :: "nat \<Rightarrow> u32 list \<Rightarrow> (u32 \<times> int) option" where
  "BitsComp_choose max_nums list =
     foldo (\<lambda>i (max_score, idx). do {
         hi \<leftarrow> aget list (wsub32 (i + max_nums) 1);
         lo \<leftarrow> aget list i;
         let score = hi - lo;
         Some (if max_score < score then (score, int i) else (max_score, idx)) })
       [0..<(wsub32 (length list) max_nums + 1) mod 2 ^ 32] (0, - 1)"

text \<open>The two writes of the smallest and the largest element do not advance \<^verbatim>\<open>shift\<close>.\<close>

definition BitsComp_DynamicEncode :: "nat \<Rightarrow> nat \<Rightarrow> u32 list \<Rightarrow> bitset \<Rightarrow> nat \<Rightarrow> bitset option" where
  "BitsComp_DynamicEncode v_bit_size max_nums list encode shift = do {
     (max_score, idx) \<leftarrow> BitsComp_choose max_nums list;
     assert_that (max_nums > 2);
     assert_that (0 \<le> idx);
     let idx = nat idx;
     lo \<leftarrow> aget list idx;
     encode \<leftarrow> BlockSet encode shift v_bit_size lo;
     hi \<leftarrow> aget list (idx + max_nums - 1);
     encode \<leftarrow> BlockSet encode shift v_bit_size hi;
     (encode, shift) \<leftarrow> foldo (\<lambda>i (encode, shift). do {
         v \<leftarrow> aget list (i + idx);
         encode \<leftarrow> BlockSet encode shift v_bit_size v;
         Some (encode, shift + v_bit_size) }) [1..<max_nums - 1] (encode, shift);
     Some encode }"

text \<open>The loop of \<^verbatim>\<open>Find\<close>. With blocks of no bits it would not end.\<close>

function BitsComp_scan :: "bitset \<Rightarrow> nat \<Rightarrow> nat \<Rightarrow> nat \<Rightarrow> u32 \<Rightarrow> PairType option" where
  "BitsComp_scan encode shift v_bit_size total_bits value =
     (if shift + v_bit_size < total_bits then
        if v_bit_size = 0 then None
        else do {
          compare \<leftarrow> BlockGet encode shift v_bit_size;
          if value = compare then Some Neighbor
          else if value < compare then Some NonNeighbor
          else BitsComp_scan encode (shift + v_bit_size) v_bit_size total_bits value }
      else Some NonNeighbor)"
  by pat_completeness auto
termination
  by (relation "measure (\<lambda>(encode, shift, v_bit_size, total_bits, value). total_bits - shift)") auto

declare BitsComp_scan.simps [simp del]

definition BitsComp_Find :: "nat \<Rightarrow> nat \<Rightarrow> u32 \<Rightarrow> bitset \<Rightarrow> nat \<Rightarrow> bool \<Rightarrow> PairType option" where
  "BitsComp_Find total_bits v_bit_size value encode shift not_partial =
     (if not_partial then BitsComp_scan encode shift v_bit_size total_bits value
      else do {
        mi \<leftarrow> BlockGet encode shift v_bit_size;
        let shift = shift + v_bit_size;
        ma \<leftarrow> BlockGet encode shift v_bit_size;
        let shift = shift + v_bit_size;
        if value = mi \<or> value = ma then Some Neighbor
        else if value < mi \<or> value > ma then Some Uncertain
        else BitsComp_scan encode shift v_bit_size total_bits value })"

section \<open>VbyteComp\<close>

definition vbyte_range :: "u32 list" where
  "vbyte_range = [127, 16383, 2097151]"

fun IntegerBytes_loop :: "u32 list \<Rightarrow> nat \<Rightarrow> u32 \<Rightarrow> nat" where
  "IntegerBytes_loop [] idx value = idx"
| "IntegerBytes_loop (r # rs) idx value = (if value \<le> r then idx else IntegerBytes_loop rs (idx + 1) value)"

definition IntegerBytes :: "u32 \<Rightarrow> nat" where
  "IntegerBytes value = IntegerBytes_loop vbyte_range 1 value"

definition GetAllBits :: "u32 list \<Rightarrow> nat list" where
  "GetAllBits list = map (\<lambda>v. IntegerBytes v * 8) list"

definition VbyteComp_GetRequiredBits :: "u32 list \<Rightarrow> nat" where
  "VbyteComp_GetRequiredBits list = sum_list (map (\<lambda>v. 8 * IntegerBytes v) list) mod 2 ^ 32"

definition compress :: "u32 \<Rightarrow> u32" where
  "compress value =
     (let bytes = IntegerBytes value in
      if bytes = 1 then value
      else if bytes = 2 then (push_bit 1 (value AND 0x3F80) OR 0x8000) OR (value AND 0x7F)
      else if bytes = 3 then
        (push_bit 2 (value AND 0x1FC000) OR 0x808000) OR push_bit 1 (value AND 0x3F80) OR (value AND 0x7F)
      else
        (push_bit 3 (value AND 0xFE00000) OR 0x80808000) OR push_bit 2 (value AND 0x1FC000) OR
          push_bit 1 (value AND 0x3F80) OR (value AND 0x7F))"

text \<open>\<^verbatim>\<open>decode\<close> reads bytes up to the first one below 128; \<open>len\<close> is the position of \<^verbatim>\<open>ptr\<close> in the array.\<close>

function decode_loop :: "u8 list \<Rightarrow> nat \<Rightarrow> u32 \<Rightarrow> (u32 \<times> nat) option" where
  "decode_loop data len res = do {
     b \<leftarrow> aget data len;
     let res = push_bit 7 res OR ucast (b AND 0x7F);
     if b AND 0x80 = 0 then Some (res, len + 1) else decode_loop data (len + 1) res }"
  by pat_completeness auto
termination
  by (relation "measure (\<lambda>(data, len, res). length data - len)") (auto simp: aget_def split: if_splits)

declare decode_loop.simps [simp del]

definition decode :: "u8 list \<Rightarrow> nat \<Rightarrow> (u32 \<times> nat) option" where
  "decode data len = decode_loop data len 0"

lemma decode_loop_step:
  "len < length data \<Longrightarrow> decode_loop data len res = (let res = push_bit 7 res OR ucast (data ! len AND 0x7F) in
     if data ! len AND 0x80 = 0 then Some (res, len + 1) else decode_loop data (len + 1) res)"
  by (subst decode_loop.simps) (simp add: Let_def)

lemma decode_loop_advances: "decode_loop data len res = Some (v, len') \<Longrightarrow> len < len' \<and> len' \<le> length data"
proof (induction "length data - len" arbitrary: len res rule: less_induct)
  case less
  show ?case
  proof (cases "len < length data")
    case True
    have "length data - (len + 1) < length data - len" using True by simp
    from less.hyps [OF this] less.prems True show ?thesis
      by (fastforce simp: decode_loop_step Let_def split: if_splits)
  next
    case False
    then show ?thesis using less.prems by (subst (asm) decode_loop.simps) (simp add: aget_def)
  qed
qed

lemma decode_advances: "decode data len = Some (v, len') \<Longrightarrow> len < len' \<and> len' \<le> length data"
  by (simp add: decode_def decode_loop_advances)

text \<open>The loop of \<^verbatim>\<open>Find\<close>; \<open>delta\<close> tells the one of \<^verbatim>\<open>VbyteDeltaComp\<close>, which adds the value before.\<close>

function vbyte_scan :: "bool \<Rightarrow> u8 list \<Rightarrow> nat \<Rightarrow> nat \<Rightarrow> u32 \<Rightarrow> u32 \<Rightarrow> PairType option" where
  "vbyte_scan delta data stop len pre value =
     (if len < stop then
        (case decode data len of None \<Rightarrow> None
         | Some (v, len') \<Rightarrow>
             let next = (if delta then v + pre else v) in
             if value = next then Some Neighbor
             else if value < next then Some NonNeighbor
             else vbyte_scan delta data stop len' next value)
      else Some NonNeighbor)"
  by pat_completeness auto
termination
  by (relation "measure (\<lambda>(delta, data, stop, len, pre, value). stop - len)") (auto dest: decode_advances)

declare vbyte_scan.simps [simp del]

definition vbyte_find :: "bool \<Rightarrow> nat \<Rightarrow> u32 \<Rightarrow> bitset \<Rightarrow> nat \<Rightarrow> bool \<Rightarrow> PairType option" where
  "vbyte_find delta total_bits value encode shift not_partial = (let len = shift div 8 in
     if not_partial then vbyte_scan delta (bs_data encode) (total_bits div 8) len 0 value
     else do {
       (mi, len) \<leftarrow> decode (bs_data encode) len;
       (ma, len) \<leftarrow> decode (bs_data encode) len;
       if value = mi \<or> value = ma then Some Neighbor
       else if value < mi \<or> value > ma then Some Uncertain
       else vbyte_scan delta (bs_data encode) (total_bits div 8) len mi value })"

definition VbyteComp_Find :: "nat \<Rightarrow> u32 \<Rightarrow> bitset \<Rightarrow> nat \<Rightarrow> bool \<Rightarrow> PairType option" where
  "VbyteComp_Find = vbyte_find False"

fun VbyteComp_put :: "bitset \<Rightarrow> nat \<Rightarrow> u32 list \<Rightarrow> nat list \<Rightarrow> bitset option" where
  "VbyteComp_put encode shift (x # xs) (b # bs) = do {
     encode \<leftarrow> BlockSet encode shift b (compress x);
     VbyteComp_put encode (shift + b) xs bs }"
| "VbyteComp_put encode shift _ _ = Some encode"

definition VbyteComp_Encode :: "u32 list \<Rightarrow> bitset \<Rightarrow> nat \<Rightarrow> bitset option" where
  "VbyteComp_Encode list encode shift = VbyteComp_put encode shift list (GetAllBits list)"

text \<open>The inner \<^verbatim>\<open>while\<close> loop of \<^verbatim>\<open>DynamicEncode\<close>: how many of the elements from \<open>i\<close> on fit.\<close>

fun fitting :: "nat \<Rightarrow> nat \<Rightarrow> nat list \<Rightarrow> nat \<Rightarrow> nat \<Rightarrow> nat" where
  "fitting shift total_bits [] bits_num block_size = block_size"
| "fitting shift total_bits (b # bs) bits_num block_size =
     (if bits_num + b + shift > total_bits then block_size
      else fitting shift total_bits bs (bits_num + b) (block_size + 1))"

text \<open>The score reads one element behind the block, and when the whole rest of the list fits, one behind the end of
  the vector; \<open>after\<close> is what stands there, one word for all vectors of a construction. A read behind a vector is undefined, and
  the code relies on its being harmless; the theorems hold for every \<open>after\<close>.\<close>

definition VbyteComp_choose :: "u32 \<Rightarrow> nat \<Rightarrow> u32 list \<Rightarrow> nat \<Rightarrow> (nat \<times> nat \<times> u32) option" where
  "VbyteComp_choose after total_bits list shift =
     foldo (\<lambda>i (best_block, idx, best_score). do {
         let block_size = fitting shift total_bits (drop i (GetAllBits list)) 0 0;
         hi \<leftarrow> aget (list @ [after]) (i + block_size);
         lo \<leftarrow> aget list i;
         let score = hi - lo;
         Some (if score \<ge> best_score then (block_size, i, score) else (best_block, idx, best_score)) })
       [0..<wsub32 (length list) 1] (0, 2 ^ 32 - 1, 0)"

definition VbyteComp_DynamicEncode :: "u32 \<Rightarrow> nat \<Rightarrow> u32 list \<Rightarrow> bitset \<Rightarrow> nat \<Rightarrow> bitset option" where
  "VbyteComp_DynamicEncode after total_bits list encode shift = do {
     let all_bits = GetAllBits list;
     (best_block, idx, best_score) \<leftarrow> VbyteComp_choose after total_bits list shift;
     assert_that (best_block \<ge> 2);
     b \<leftarrow> aget all_bits idx;
     v \<leftarrow> aget list idx;
     encode \<leftarrow> BlockSet encode shift b (compress v);
     let shift = shift + b;
     b \<leftarrow> aget all_bits (idx + best_block - 1);
     v \<leftarrow> aget list (idx + best_block - 1);
     encode \<leftarrow> BlockSet encode shift b (compress v);
     let shift = shift + b;
     (encode, shift) \<leftarrow> foldo (\<lambda>i (encode, shift). do {
         b \<leftarrow> aget all_bits (i + idx);
         v \<leftarrow> aget list (i + idx);
         encode \<leftarrow> BlockSet encode shift b (compress v);
         Some (encode, shift + b) }) [1..<best_block - 1] (encode, shift);
     Some encode }"

section \<open>VbyteDeltaComp\<close>

fun GetDeltas_loop :: "u32 \<Rightarrow> u32 list \<Rightarrow> u32 list" where
  "GetDeltas_loop pre [] = []"
| "GetDeltas_loop pre (x # xs) = (x - pre) # GetDeltas_loop x xs"

definition GetDeltas :: "u32 list \<Rightarrow> u32 list" where
  "GetDeltas list = (case list of [] \<Rightarrow> [] | x # xs \<Rightarrow> x # GetDeltas_loop x xs)"

text \<open>\<^verbatim>\<open>GetDeltaBits\<close> reads \<^verbatim>\<open>list[0]\<close> and \<^verbatim>\<open>list[1]\<close> before it looks at the size.\<close>

definition GetDeltaBits :: "u32 list \<Rightarrow> nat list option" where
  "GetDeltaBits list =
     (case list of x # y # ys \<Rightarrow> Some (map (\<lambda>d. IntegerBytes d * 8) (GetDeltas_loop x (y # ys))) | _ \<Rightarrow> None)"

definition VbyteDeltaComp_GetRequiredBits :: "u32 list \<Rightarrow> nat" where
  "VbyteDeltaComp_GetRequiredBits list = VbyteComp_GetRequiredBits (GetDeltas list)"

definition VbyteDeltaComp_Encode :: "u32 list \<Rightarrow> bitset \<Rightarrow> nat \<Rightarrow> bitset option" where
  "VbyteDeltaComp_Encode list encode shift = VbyteComp_Encode (GetDeltas list) encode shift"

text \<open>The loop over \<open>j\<close>, which a run that no longer fits leaves.\<close>

fun delta_extend :: "nat \<Rightarrow> nat \<Rightarrow> u32 list \<Rightarrow> nat list \<Rightarrow> nat list \<Rightarrow> nat \<Rightarrow> nat list \<Rightarrow> nat \<Rightarrow> nat \<times> nat \<times> u32 \<Rightarrow> (nat \<times> nat \<times> u32) option" where
  "delta_extend shift total_bits list all_bits delta_bits i [] bits_num best = Some best"
| "delta_extend shift total_bits list all_bits delta_bits i (j # js) bits_num (best_block, idx, best_score) = do {
     hi \<leftarrow> aget list j;
     lo \<leftarrow> aget list i;
     let score = hi - lo;
     b \<leftarrow> aget all_bits j;
     b' \<leftarrow> aget all_bits (j - 1);
     d \<leftarrow> aget delta_bits (j - 2);
     let bits_num = bits_num + b - b' + d;
     if bits_num + shift > total_bits then Some (best_block, idx, best_score)
     else delta_extend shift total_bits list all_bits delta_bits i js bits_num
       (if score > best_score then (j - i + 1, i, score) else (best_block, idx, best_score)) }"

definition VbyteDeltaComp_choose :: "nat \<Rightarrow> u32 list \<Rightarrow> nat list \<Rightarrow> nat list \<Rightarrow> nat \<Rightarrow> (nat \<times> nat \<times> u32) option" where
  "VbyteDeltaComp_choose total_bits list all_bits delta_bits shift =
     foldo (\<lambda>i (best_block, idx, best_score). do {
         b \<leftarrow> aget all_bits i;
         b' \<leftarrow> aget all_bits (i + 1);
         let bits_num = b + b';
         if bits_num + shift > total_bits then Some (best_block, idx, best_score)
         else do {
           hi \<leftarrow> aget list (i + 1);
           lo \<leftarrow> aget list i;
           let score = hi - lo;
           delta_extend shift total_bits list all_bits delta_bits i [i + 2..<length list - 1] bits_num
             (if score > best_score then (2, i, score) else (best_block, idx, best_score)) } })
       [0..<wsub32 (length list) 3] (0, 2 ^ 32 - 1, 0)"

definition VbyteDeltaComp_DynamicEncode :: "nat \<Rightarrow> u32 list \<Rightarrow> bitset \<Rightarrow> nat \<Rightarrow> bitset option" where
  "VbyteDeltaComp_DynamicEncode total_bits list encode shift = do {
     delta_bits \<leftarrow> GetDeltaBits list;
     let all_bits = GetAllBits list;
     (best_block, idx, best_score) \<leftarrow> VbyteDeltaComp_choose total_bits list all_bits delta_bits shift;
     assert_that (best_block \<ge> 2);
     b \<leftarrow> aget all_bits idx;
     v \<leftarrow> aget list idx;
     encode \<leftarrow> BlockSet encode shift b (compress v);
     let shift = shift + b;
     b \<leftarrow> aget all_bits (idx + best_block - 1);
     v \<leftarrow> aget list (idx + best_block - 1);
     encode \<leftarrow> BlockSet encode shift b (compress v);
     let shift = shift + b;
     (encode, shift) \<leftarrow> foldo (\<lambda>i (encode, shift). do {
         b \<leftarrow> aget delta_bits (idx + i - 1);
         v \<leftarrow> aget list (i + idx);
         w \<leftarrow> aget list (i + idx - 1);
         encode \<leftarrow> BlockSet encode shift b (compress (v - w));
         Some (encode, shift + b) }) [1..<best_block - 1] (encode, shift);
     Some encode }"

definition VbyteDeltaComp_Find :: "nat \<Rightarrow> u32 \<Rightarrow> bitset \<Rightarrow> nat \<Rightarrow> bool \<Rightarrow> PairType option" where
  "VbyteDeltaComp_Find = vbyte_find True"

section \<open>RangeCompEncode\<close>

text \<open>The virtual operations of \<^verbatim>\<open>Compression\<close>.\<close>

record codec =
  required_bits :: "u32 list \<Rightarrow> nat"
  encode_list_op :: "u32 list \<Rightarrow> bitset \<Rightarrow> nat \<Rightarrow> bitset option"
  dynamic_encode :: "u32 list \<Rightarrow> bitset \<Rightarrow> nat \<Rightarrow> bitset option"
  find_op :: "u32 \<Rightarrow> bitset \<Rightarrow> nat \<Rightarrow> bool \<Rightarrow> PairType option"

text \<open>The constructor chooses the codec; \<open>after\<close> is the memory behind a vector.\<close>

fun RangeCompEncode_codec :: "config \<Rightarrow> u32 \<Rightarrow> CompMethod \<Rightarrow> codec" where
  "RangeCompEncode_codec cfg after BITS =
     (let total = PER_ENCODE_BIT_SIZE cfg; v_bits = VERTEX_BIT_SIZE cfg; max_nums = wsub32 total 32 div v_bits in
      \<lparr>required_bits = BitsComp_GetRequiredBits cfg, encode_list_op = BitsComp_Encode v_bits,
       dynamic_encode = BitsComp_DynamicEncode v_bits max_nums, find_op = BitsComp_Find total v_bits\<rparr>)"
| "RangeCompEncode_codec cfg after Vbyte =
     \<lparr>required_bits = VbyteComp_GetRequiredBits, encode_list_op = VbyteComp_Encode,
      dynamic_encode = VbyteComp_DynamicEncode after (PER_ENCODE_BIT_SIZE cfg), find_op = VbyteComp_Find (PER_ENCODE_BIT_SIZE cfg)\<rparr>"
| "RangeCompEncode_codec cfg after Delta =
     \<lparr>required_bits = VbyteDeltaComp_GetRequiredBits, encode_list_op = VbyteDeltaComp_Encode,
      dynamic_encode = VbyteDeltaComp_DynamicEncode (PER_ENCODE_BIT_SIZE cfg), find_op = VbyteDeltaComp_Find (PER_ENCODE_BIT_SIZE cfg)\<rparr>"

definition comp_shift :: nat where
  "comp_shift = 32"

definition RangeComp_max_bits :: "config \<Rightarrow> nat" where
  "RangeComp_max_bits cfg = wsub32 (PER_ENCODE_BIT_SIZE cfg) 32"

definition RangeComp_EncodeVertex :: "codec \<Rightarrow> config \<Rightarrow> u32 \<Rightarrow> u32 list \<Rightarrow> encoding \<Rightarrow> encoding option" where
  "RangeComp_EncodeVertex c cfg vertex_id neighbors st = do {
     e \<leftarrow> aget st (unat vertex_id);
     let e = ClearBits e;
     e \<leftarrow> (if required_bits c neighbors \<le> RangeComp_max_bits cfg then do {
             e \<leftarrow> BlockSet e 0 comp_shift 1;
             encode_list_op c neighbors e comp_shift }
           else do {
             e \<leftarrow> BlockSet e 0 comp_shift 0;
             let nei_back = 0 # neighbors @ [vertex_id_upper cfg];
             dynamic_encode c nei_back e comp_shift });
     aput st (unat vertex_id) e }"

definition RangeComp_GetFlag :: "bitset \<Rightarrow> bool option" where
  "RangeComp_GetFlag e = do { v \<leftarrow> BlockGet e 0 comp_shift; Some (v \<noteq> 0) }"

definition RangeComp_SetFlag :: "bool \<Rightarrow> bitset \<Rightarrow> bitset option" where
  "RangeComp_SetFlag flag e = BlockSet e 0 comp_shift (if flag then 1 else 0)"

definition RangeComp_NonNeighborTest :: "codec \<Rightarrow> encoding \<Rightarrow> u32 \<Rightarrow> u32 \<Rightarrow> PairType option" where
  "RangeComp_NonNeighborTest c st vertex1 vertex2 = do {
     e \<leftarrow> aget st (unat vertex1);
     flag \<leftarrow> RangeComp_GetFlag e;
     find_op c vertex2 e comp_shift flag }"

text \<open>\<^verbatim>\<open>NEpairTest\<close>, \<^verbatim>\<open>InsertPair\<close>, \<^verbatim>\<open>RemoveNeighbor\<close> and \<^verbatim>\<open>DeletePair\<close> are those of \<^verbatim>\<open>RangeEncode\<close> with the overridden operations;
  \<^verbatim>\<open>GetEncodeType\<close> and \<^verbatim>\<open>GetAllNeighbors\<close> read words of 32 bits, as \<^verbatim>\<open>RangeEncode\<close> would have written them.\<close>

definition RangeComp_NEpairTest :: "codec \<Rightarrow> encoding \<Rightarrow> u32 \<Rightarrow> u32 \<Rightarrow> PairType option" where
  "RangeComp_NEpairTest c st vertex1 vertex2 = do {
     type1 \<leftarrow> RangeComp_NonNeighborTest c st vertex1 vertex2;
     type2 \<leftarrow> RangeComp_NonNeighborTest c st vertex2 vertex1;
     Some (if type1 < type2 then type1 else type2) }"

definition RangeComp_InsertPair :: "codec \<Rightarrow> config \<Rightarrow> (u32 \<Rightarrow> u32 list) \<Rightarrow> u32 \<Rightarrow> u32 \<Rightarrow> encoding \<Rightarrow> encoding option" where
  "RangeComp_InsertPair c cfg db vertex1 vertex2 st = do {
     t1 \<leftarrow> Range_GetEncodeType cfg st vertex1;
     t2 \<leftarrow> Range_GetEncodeType cfg st vertex2;
     let (vertex1, vertex2) =
       (if encode_type_code t1 > encode_type_code t2 then (vertex2, vertex1) else (vertex1, vertex2));
     neighbors \<leftarrow> Range_GetAllNeighbors cfg db st vertex1;
     RangeComp_EncodeVertex c cfg vertex1 (neighbors @ [vertex2]) st }"

definition RangeComp_RemoveNeighbor ::
    "codec \<Rightarrow> config \<Rightarrow> (u32 \<Rightarrow> u32 list) \<Rightarrow> u32 \<Rightarrow> u32 \<Rightarrow> encoding \<Rightarrow> (encoding \<times> bool) option" where
  "RangeComp_RemoveNeighbor c cfg db vertex1 vertex2 st = do {
     neighbors \<leftarrow> Range_GetAllNeighbors cfg db st vertex1;
     if vertex2 \<in> set neighbors then do {
       st \<leftarrow> RangeComp_EncodeVertex c cfg vertex1 (remove1 vertex2 neighbors) st;
       Some (st, True) }
     else Some (st, False) }"

definition RangeComp_DeletePair :: "codec \<Rightarrow> config \<Rightarrow> (u32 \<Rightarrow> u32 list) \<Rightarrow> u32 \<Rightarrow> u32 \<Rightarrow> encoding \<Rightarrow> encoding option" where
  "RangeComp_DeletePair c cfg db vertex1 vertex2 st = do {
     t \<leftarrow> RangeComp_NonNeighborTest c st vertex1 vertex2;
     st \<leftarrow> (if t \<noteq> NonNeighbor then map_option fst (RangeComp_RemoveNeighbor c cfg db vertex1 vertex2 st) else Some st);
     t \<leftarrow> RangeComp_NonNeighborTest c st vertex2 vertex1;
     if t \<noteq> NonNeighbor then map_option fst (RangeComp_RemoveNeighbor c cfg db vertex2 vertex1 st) else Some st }"

section \<open>RangeCompVend\<close>

definition RangeCompVend_BuildEncoding :: "codec \<Rightarrow> config \<Rightarrow> (u32 list \<Rightarrow> u32 list) \<Rightarrow> adjacency \<Rightarrow> encoding \<Rightarrow> encoding option" where
  "RangeCompVend_BuildEncoding c cfg ord adj st =
     peel_build (RangeComp_EncodeVertex c cfg) (\<lambda>ns. Some (required_bits c ns)) (RangeComp_max_bits cfg) ord (VERTEX_SIZE cfg) adj st"

end
