(* ===== verification/Compression_Laws.thy ===== *)
theory Compression_Laws
  imports Compression Delta_Encode_Laws
begin

text \<open>
  The codecs of the compressed range encoding: an integer of up to four bytes is decoded to itself, a search reads
  the values that were written, and the runs that \<^verbatim>\<open>DynamicEncode\<close> chooses fit.
\<close>

section \<open>One integer\<close>

definition digit7 :: "u32 \<Rightarrow> nat \<Rightarrow> u8" where
  "digit7 x k = ucast (drop_bit (7 * k) x AND 0x7F)"

definition vbytes :: "u32 \<Rightarrow> u8 list" where
  "vbytes x = map (\<lambda>k. if k = 0 then digit7 x k else digit7 x k OR 0x80) (rev [0..<IntegerBytes x])"

lemma bit_u32_times_2: "bit (x * 2 :: u32) n \<longleftrightarrow> 0 < n \<and> n < 32 \<and> bit x (n - 1)"
  using bit_double_iff [of x n] by (auto simp: mult.commute)

lemma u8_eqI:
  assumes "\<And>n. n \<in> {0, 1, 2, 3, 4, 5, 6, 7} \<Longrightarrow> bit (x :: u8) n = bit y n"
  shows "x = y"
proof (rule bit_word_eqI)
  fix n assume "n < LENGTH(8)"
  then have "n \<in> {0, 1, 2, 3, 4, 5, 6, 7 :: nat}" by auto
  then show "bit x n = bit y n" by (rule assms)
qed

lemma IntegerBytes_cases:
  "IntegerBytes x = (if x \<le> 127 then 1 else if x \<le> 16383 then 2 else if x \<le> 2097151 then 3 else 4)"
  by (simp add: IntegerBytes_def vbyte_range_def)

lemma IntegerBytes_bounds [simp]: "0 < IntegerBytes x" "IntegerBytes x \<le> 4" "IntegerBytes x \<noteq> 0"
  by (simp_all add: IntegerBytes_cases)

lemma IntegerBytes_zero [simp]: "IntegerBytes 0 = 1"
  by (simp add: IntegerBytes_cases)

lemma length_vbytes [simp]: "length (vbytes x) = IntegerBytes x"
  by (simp add: vbytes_def)

lemma vbytes_zero [simp]: "vbytes 0 = [0]"
  by (simp add: vbytes_def digit7_def)

lemma IntegerBytes_power: "unat x < 2 ^ 28 \<Longrightarrow> unat x < 2 ^ (7 * IntegerBytes x)"
  by (auto simp: IntegerBytes_cases word_le_nat_alt)

lemma compress_vbytes:
  "map (\<lambda>i. ucast (drop_bit (8 * (IntegerBytes x - 1 - i)) (compress x)) :: u8) [0..<IntegerBytes x] = vbytes x"
proof -
  have one: "ucast x = digit7 x 0" if "x \<le> 127"
    using that bit_u32_lt_two_power [of x 7 7] by (intro u8_eqI) (auto simp: digit7_def bit_simps word_le_nat_alt)
  show ?thesis
    by (auto simp: vbytes_def compress_def IntegerBytes_cases Let_def one digit7_def upt_rec bit_simps bit_u32_times_2 intro!: u8_eqI)
qed

lemma compress_bound: "unat (compress x) < 2 ^ (8 * IntegerBytes x)"
proof (rule u32_ltI_bits)
  fix k assume k: "8 * IntegerBytes x \<le> k"
  show "\<not> bit (compress x) k"
  proof (cases "IntegerBytes x = 1")
    case True
    then have "unat x < 2 ^ 7" by (auto simp: IntegerBytes_cases word_le_nat_alt split: if_splits)
    then show ?thesis using True k bit_u32_lt_two_power [of x 7 k] by (simp add: compress_def)
  next
    case False
    then consider "IntegerBytes x = 2" | "IntegerBytes x = 3" | "IntegerBytes x = 4"
      using IntegerBytes_bounds [of x] by linarith
    then show ?thesis
    proof cases
      case 1
      then have high: "\<And>c :: u32. unat c < 2 ^ 16 \<Longrightarrow> \<not> bit c k" using k by (simp add: bit_u32_lt_two_power [where n = 16])
      from high [of "0x7F00"] high [of "0x8000"] high [of "0x7F"] 1 show ?thesis by (simp add: compress_def bit_simps)
    next
      case 2
      then have high: "\<And>c :: u32. unat c < 2 ^ 24 \<Longrightarrow> \<not> bit c k" using k by (simp add: bit_u32_lt_two_power [where n = 24])
      from high [of "0x7F0000"] high [of "0x808000"] high [of "0x7F00"] high [of "0x7F"] 2 show ?thesis by (simp add: compress_def bit_simps)
    next
      case 3
      then show ?thesis using k by simp
    qed
  qed
qed

text \<open>Reading the digits from the highest one on.\<close>

lemma digit7_bits:
  "digit7 x k AND 0x80 = 0" "(digit7 x k OR 0x80) AND 0x80 \<noteq> 0" "(digit7 x k OR 0x80) AND 0x7F = digit7 x k" "digit7 x k AND 0x7F = digit7 x k"
proof -
  show a: "digit7 x k AND 0x80 = 0" by (rule u8_eqI) (auto simp: digit7_def bit_simps)
  show "(digit7 x k OR 0x80) AND 0x7F = digit7 x k" "digit7 x k AND 0x7F = digit7 x k"
    by (rule u8_eqI; auto simp: digit7_def bit_simps)+
  have "(digit7 x k OR 0x80) AND 0x80 = 0x80" by (rule u8_eqI) (auto simp: digit7_def bit_simps)
  then show "(digit7 x k OR 0x80) AND 0x80 \<noteq> 0" by simp
qed

lemma bit_digit7: "bit (digit7 x k) n \<longleftrightarrow> n < 7 \<and> bit x (7 * k + n)"
proof -
  have m: "(0x7F :: u32) = mask 7" by (simp add: mask_eq_exp_minus_1)
  show ?thesis unfolding digit7_def m take_bit_eq_mask [symmetric] by (auto simp: bit_simps)
qed

lemma digit7_shift: "push_bit 7 (drop_bit (7 * Suc k) x) OR ucast (digit7 x k) = drop_bit (7 * k) x"
proof (rule bit_word_eqI)
  fix n assume "n < LENGTH(32)"
  then show "bit (push_bit 7 (drop_bit (7 * Suc k) x) OR ucast (digit7 x k)) n = bit (drop_bit (7 * k) x) n"
    by (cases "n < 7") (auto simp: bit_digit7 bit_simps add.commute)
qed

lemma decode_digits:
  assumes "0 < n"
  shows "decode_loop (pre @ map (\<lambda>k. if k = 0 then digit7 x k else digit7 x k OR 0x80) (rev [0..<n]) @ rest) (length pre) (drop_bit (7 * n) x) =
    Some (x, length pre + n)"
  using assms
proof (induction n arbitrary: pre)
  case (Suc n)
  show ?case
  proof (cases "n = 0")
    case True
    then show ?thesis using digit7_shift [of 0 x] by (simp add: decode_loop_step Let_def digit7_bits)
  next
    case False
    from Suc.IH [of "pre @ [digit7 x n OR 0x80]"] False show ?thesis
      using digit7_shift [of n x] by (simp add: decode_loop_step Let_def digit7_bits)
  qed
qed simp

lemma decode_vbytes:
  assumes "unat x < 2 ^ 28"
  shows "decode (pre @ vbytes x @ rest) (length pre) = Some (x, length pre + IntegerBytes x)"
proof -
  have "drop_bit (7 * IntegerBytes x) x = 0"
    using bit_u32_lt_two_power [OF IntegerBytes_power [OF assms]] by (intro bit_word_eqI) (simp add: bit_simps)
  with decode_digits [of "IntegerBytes x" pre x rest] show ?thesis by (simp add: decode_def vbytes_def)
qed

section \<open>Sequences of integers\<close>

text \<open>A block of whole bytes is written without a look at the bits.\<close>

lemma BlockSet_aligned:
  assumes "wf_bs e" "bs_size e \<le> 256" "p + n \<le> bs_size e" "0 < n" "n \<le> 4" "unat w < 2 ^ (8 * n)"
  shows "\<exists>e'. BlockSet e (8 * p) (8 * n) w = Some e' \<and> wf_bs e' \<and> bs_size e' = bs_size e \<and>
    bs_data e' = take p (bs_data e) @ map (\<lambda>i. ucast (drop_bit (8 * (n - 1 - i)) w)) [0..<n] @ drop (p + n) (bs_data e)"
proof -
  obtain e' where e': "BlockSet e (8 * p) (8 * n) w = Some e'" "wf_bs e'" "bs_size e' = bs_size e"
    "\<And>q. q < 8 * bs_size e \<Longrightarrow> bitat e' q = (if 8 * p \<le> q \<and> q < 8 * p + 8 * n then bit w (8 * p + 8 * n - 1 - q) else bitat e q)"
    using bs.put_law [of e "8 * p" "8 * n" w] assms by auto
  have len: "length (bs_data e) = bs_size e" "length (bs_data e') = bs_size e" using assms(1) e'(2,3) by simp_all
  have byte: "bit (bs_data e' ! j) k = (if p \<le> j \<and> j < p + n then bit w (8 * (p + n - 1 - j) + k) else bit (bs_data e ! j) k)"
    if "j < bs_size e" "k < 8" for j k
  proof -
    have "bit (bs_data e' ! j) k = bitat e' (8 * j + (7 - k))" "bit (bs_data e ! j) k = bitat e (8 * j + (7 - k))"
      using that(2) bitat_byte [of "7 - k"] by (simp_all del: Nat.add_diff_assoc)
    moreover have "8 * j + (7 - k) < 8 * bs_size e" using that by linarith
    moreover have "8 * p \<le> 8 * j + (7 - k) \<and> 8 * j + (7 - k) < 8 * p + 8 * n \<longleftrightarrow> p \<le> j \<and> j < p + n" using that(2) by auto
    moreover have "8 * p + 8 * n - 1 - (8 * j + (7 - k)) = 8 * (p + n - 1 - j) + k" if "p \<le> j \<and> j < p + n" using that \<open>k < 8\<close> by arith
    ultimately show ?thesis using e'(4) by simp
  qed
  have "bs_data e' = take p (bs_data e) @ map (\<lambda>i. ucast (drop_bit (8 * (n - 1 - i)) w)) [0..<n] @ drop (p + n) (bs_data e)"
  proof (rule nth_equalityI)
    fix j assume "j < length (bs_data e')"
    then have j: "j < bs_size e" using len by simp
    show "bs_data e' ! j = (take p (bs_data e) @ map (\<lambda>i. ucast (drop_bit (8 * (n - 1 - i)) w)) [0..<n] @ drop (p + n) (bs_data e)) ! j"
    proof (rule bit_word_eqI)
      fix k assume "k < LENGTH(8)"
      then show "bit (bs_data e' ! j) k = bit ((take p (bs_data e) @ map (\<lambda>i. ucast (drop_bit (8 * (n - 1 - i)) w)) [0..<n] @ drop (p + n) (bs_data e)) ! j) k"
        using byte [OF j, of k] len assms(3) j by (auto simp: nth_append bit_simps add.commute)
    qed
  qed (use len assms(3) in simp)
  with e' show ?thesis by blast
qed

lemma BlockSet_vbyte:
  assumes "wf_bs e" "bs_size e \<le> 256" "p + IntegerBytes x \<le> bs_size e"
  shows "\<exists>e'. BlockSet e (8 * p) (IntegerBytes x * 8) (compress x) = Some e' \<and> wf_bs e' \<and> bs_size e' = bs_size e \<and>
    bs_data e' = take p (bs_data e) @ vbytes x @ drop (p + IntegerBytes x) (bs_data e)"
  using BlockSet_aligned [OF assms IntegerBytes_bounds(1,2) compress_bound] unfolding compress_vbytes by (simp add: mult.commute)

definition vbytes_len :: "u32 list \<Rightarrow> nat" where
  "vbytes_len xs = sum_list (map IntegerBytes xs)"

lemma vbytes_len_simps [simp]:
  "vbytes_len [] = 0" "vbytes_len (x # xs) = IntegerBytes x + vbytes_len xs" "vbytes_len (xs @ ys) = vbytes_len xs + vbytes_len ys"
  by (simp_all add: vbytes_len_def)

lemma length_concat_vbytes [simp]: "length (concat (map vbytes xs)) = vbytes_len xs"
  by (induction xs) simp_all

lemma VbyteComp_put_bytes:
  assumes "wf_bs e" "bs_size e \<le> 256" "p + vbytes_len xs \<le> bs_size e"
  shows "\<exists>e'. VbyteComp_put e (8 * p) xs (GetAllBits xs) = Some e' \<and> wf_bs e' \<and> bs_size e' = bs_size e \<and>
    bs_data e' = take p (bs_data e) @ concat (map vbytes xs) @ drop (p + vbytes_len xs) (bs_data e)"
  using assms
proof (induction xs arbitrary: e p)
  case Nil
  then show ?case by (simp add: GetAllBits_def)
next
  case (Cons x xs)
  from BlockSet_vbyte [of e p x] Cons.prems obtain e1 where e1: "BlockSet e (8 * p) (IntegerBytes x * 8) (compress x) = Some e1" "wf_bs e1"
    "bs_size e1 = bs_size e" "bs_data e1 = take p (bs_data e) @ vbytes x @ drop (p + IntegerBytes x) (bs_data e)" by auto
  from Cons.IH [of e1 "p + IntegerBytes x"] e1(2,3) Cons.prems obtain e2 where
    e2: "VbyteComp_put e1 (8 * (p + IntegerBytes x)) xs (GetAllBits xs) = Some e2" "wf_bs e2" "bs_size e2 = bs_size e"
    "bs_data e2 = take (p + IntegerBytes x) (bs_data e1) @ concat (map vbytes xs) @ drop (p + IntegerBytes x + vbytes_len xs) (bs_data e1)"
    by (auto simp: add.assoc)
  have "length (bs_data e) = bs_size e" "p < bs_size e"
    using Cons.prems(1,3) IntegerBytes_bounds(1) [of x] unfolding vbytes_len_simps by (simp, linarith)
  then have "bs_data e2 = take p (bs_data e) @ concat (map vbytes (x # xs)) @ drop (p + vbytes_len (x # xs)) (bs_data e)"
    using Cons.prems(3) by (auto simp: e2(4) e1(4) min_def ac_simps)
  then show ?case using e1(1) e2(1-3) by (simp add: GetAllBits_def algebra_simps)
qed

text \<open>The values that a search meets, and the search.\<close>

fun read_values :: "bool \<Rightarrow> u32 \<Rightarrow> u32 list \<Rightarrow> u32 list" where
  "read_values delta pre [] = []"
| "read_values delta pre (x # xs) = (let y = (if delta then x + pre else x) in y # read_values delta y xs)"

lemma read_values_plain [simp]: "read_values False pre xs = xs"
  by (induction xs arbitrary: pre) simp_all

lemma read_values_append: "read_values delta pre (xs @ ys) = read_values delta pre xs @ read_values delta (last (pre # read_values delta pre xs)) ys"
  by (induction xs arbitrary: pre) (auto simp: Let_def)

lemma read_values_deltas [simp]: "read_values True pre (GetDeltas_loop pre xs) = xs"
  by (induction xs arbitrary: pre) simp_all

lemma read_values_zeros: "read_values True pre (replicate n 0) = replicate n pre"
  by (induction n) simp_all

lemma vbyte_scan_values:
  assumes "\<forall>x \<in> set xs. unat x < 2 ^ 28" "stop = length pre + vbytes_len xs"
  shows "vbyte_scan delta (pre @ concat (map vbytes xs)) stop (length pre) y value =
    Some (if scan (read_values delta y xs) value then Neighbor else NonNeighbor)"
  using assms
proof (induction xs arbitrary: pre y)
  case Nil
  then show ?case by (subst vbyte_scan.simps) simp
next
  case (Cons x xs)
  have d: "decode (pre @ concat (map vbytes (x # xs))) (length pre) = Some (x, length pre + IntegerBytes x)"
    using decode_vbytes [of x pre "concat (map vbytes xs)"] Cons.prems(1) by simp
  have ih: "vbyte_scan delta (pre @ concat (map vbytes (x # xs))) stop (length pre + IntegerBytes x) z value =
      Some (if scan (read_values delta z xs) value then Neighbor else NonNeighbor)" for z
    using Cons.IH [of "pre @ vbytes x"] Cons.prems by simp
  have "length pre < stop" using Cons.prems(2) IntegerBytes_bounds(1) [of x] by simp
  then show ?case by (subst vbyte_scan.simps) (simp add: Let_def d [simplified] ih [simplified])
qed

section \<open>Searching\<close>

lemma vbyte_find_full:
  assumes "bs_data e = pre @ concat (map vbytes zs)" "\<forall>x \<in> set zs. unat x < 2 ^ 28"
    "length pre = 4" "tot div 8 = 4 + vbytes_len zs"
  shows "vbyte_find delta tot value e 32 True = Some (if scan (read_values delta 0 zs) value then Neighbor else NonNeighbor)"
  using vbyte_scan_values [OF assms(2), of "tot div 8" pre] assms by (simp add: vbyte_find_def)

lemma vbyte_find_partial:
  assumes "bs_data e = pre @ concat (map vbytes (mi # ma # zs))" "\<forall>x \<in> set (mi # ma # zs). unat x < 2 ^ 28"
    "length pre = 4" "tot div 8 = 4 + vbytes_len (mi # ma # zs)"
  shows "vbyte_find delta tot value e 32 False =
    Some (if value = mi \<or> value = ma then Neighbor else if value < mi \<or> value > ma then Uncertain
      else if scan (read_values delta mi zs) value then Neighbor else NonNeighbor)"
proof -
  have "decode (bs_data e) 4 = Some (mi, 4 + IntegerBytes mi)"
    using decode_vbytes [of mi pre] assms(1-3) by simp
  moreover have "decode (bs_data e) (4 + IntegerBytes mi) = Some (ma, 4 + IntegerBytes mi + IntegerBytes ma)"
    using decode_vbytes [of ma "pre @ vbytes mi"] assms(1-3) by simp
  moreover have "vbyte_scan delta (bs_data e) (tot div 8) (4 + IntegerBytes mi + IntegerBytes ma) mi value =
      Some (if scan (read_values delta mi zs) value then Neighbor else NonNeighbor)"
    using vbyte_scan_values [of zs "tot div 8" "pre @ vbytes mi @ vbytes ma"] assms by (simp add: add.assoc)
  ultimately show ?thesis by (simp add: vbyte_find_def)
qed

text \<open>In an ascending list a search stops where it should; the zeros behind the data do no harm.\<close>

lemma scan_values_full:
  assumes "sorted ns" "0 < value"
  shows "scan (read_values False 0 (ns @ replicate m 0)) value \<longleftrightarrow> value \<in> set ns"
    and "scan (read_values True 0 (GetDeltas ns @ replicate m 0)) value \<longleftrightarrow> value \<in> set ns"
proof -
  show "scan (read_values False 0 (ns @ replicate m 0)) value \<longleftrightarrow> value \<in> set ns"
    using assms by (simp add: scan_append_small scan_sorted)
  have "read_values True 0 (GetDeltas ns @ replicate m 0) = ns @ replicate m (last (0 # ns))"
    by (cases ns) (simp_all add: GetDeltas_def read_values_append read_values_zeros)
  moreover have "sorted (ns @ replicate m (last (0 # ns)))"
    using assms(1) by (induction ns) (auto simp: sorted_append sorted_replicate)
  moreover have "value \<in> set (ns @ replicate m (last (0 # ns))) \<longleftrightarrow> value \<in> set ns"
    using assms(2) by (cases ns) (auto simp: word_less_nat_alt)
  ultimately show "scan (read_values True 0 (GetDeltas ns @ replicate m 0)) value \<longleftrightarrow> value \<in> set ns"
    by (simp add: scan_sorted)
qed

lemma scan_values_run:
  assumes "sorted (x # mid)" "x < value"
  shows "scan (read_values False x (mid @ replicate m 0)) value \<longleftrightarrow> value \<in> set mid"
    and "scan (read_values True x (GetDeltas_loop x mid @ replicate m 0)) value \<longleftrightarrow> value \<in> set mid"
proof -
  have "0 < value" using assms(2) by (simp add: word_less_nat_alt)
  then show "scan (read_values False x (mid @ replicate m 0)) value \<longleftrightarrow> value \<in> set mid"
    using assms by (simp add: scan_append_small scan_sorted)
  have "read_values True x (GetDeltas_loop x mid @ replicate m 0) = mid @ replicate m (last (x # mid))"
    by (simp add: read_values_append read_values_zeros)
  moreover have "sorted (mid @ replicate m (last (x # mid)))"
    using assms(1) by (induction mid arbitrary: x) (auto simp: sorted_append sorted_replicate)
  moreover have "value \<in> set (mid @ replicate m (last (x # mid))) \<longleftrightarrow> value \<in> set mid"
    using assms(2) by (cases mid) auto
  ultimately show "scan (read_values True x (GetDeltas_loop x mid @ replicate m 0)) value \<longleftrightarrow> value \<in> set mid"
    by (simp add: scan_sorted)
qed

end
