(* ===== verification/Varint_Codec.thy ===== *)
theory Varint_Codec
  imports Compression_Laws Delta_Find
begin

text \<open>
  \<^verbatim>\<open>VarintCodec\<close> of \<^verbatim>\<open>encode/codec/varint_codec.h\<close>: integers, or their differences, in one to five bytes of seven bits, the lowest
  first; a byte of 128 or more is not the last one of its integer. The methods with \<^verbatim>\<open>UnDirect\<close> in their names reach the bytes
  through an array of pointers. \<open>is_delta\<close> is the field of the codec.
\<close>

section \<open>Encoding\<close>

definition varint_bound :: "u32 list" where
  "varint_bound = [push_bit 7 1, push_bit 14 1, push_bit 21 1, push_bit 28 1]"

definition mask_7_zero :: u32 where
  "mask_7_zero = push_bit 7 1"

definition varint_bytes :: "u32 \<Rightarrow> u8 list" where
  "varint_bytes val =
     (if val < varint_bound ! 0 then [ucast (val AND 0x7F)]
      else if val < varint_bound ! 1 then
        [ucast ((val AND 0x7F) OR mask_7_zero), ucast (drop_bit 7 val)]
      else if val < varint_bound ! 2 then
        [ucast ((val AND 0x7F) OR mask_7_zero), ucast ((drop_bit 7 val AND 0x7F) OR mask_7_zero), ucast (drop_bit 14 val)]
      else if val < varint_bound ! 3 then
        [ucast ((val AND 0x7F) OR mask_7_zero), ucast ((drop_bit 7 val AND 0x7F) OR mask_7_zero),
         ucast ((drop_bit 14 val AND 0x7F) OR mask_7_zero), ucast (drop_bit 21 val)]
      else
        [ucast ((val AND 0x7F) OR mask_7_zero), ucast ((drop_bit 7 val AND 0x7F) OR mask_7_zero),
         ucast ((drop_bit 14 val AND 0x7F) OR mask_7_zero), ucast ((drop_bit 21 val AND 0x7F) OR mask_7_zero), ucast (drop_bit 28 val)])"

fun Varint_EncodeArray_loop :: "bool \<Rightarrow> u32 \<Rightarrow> u32 list \<Rightarrow> u8 list" where
  "Varint_EncodeArray_loop is_delta prev [] = []"
| "Varint_EncodeArray_loop is_delta prev (x # xs) =
     (let val = (if is_delta then x - prev else x); prev = (if is_delta then x else prev) in
      varint_bytes val @ Varint_EncodeArray_loop is_delta prev xs)"

text \<open>The bytes that \<^verbatim>\<open>EncodeArray\<close> writes from \<^verbatim>\<open>out\<close> on; \<^verbatim>\<open>out_bytes_length\<close> is their number.\<close>

definition Varint_EncodeArray :: "bool \<Rightarrow> u32 list \<Rightarrow> u8 list" where
  "Varint_EncodeArray is_delta xs = Varint_EncodeArray_loop is_delta 0 xs"

text \<open>The same through pointers: the bytes go where the entries of \<open>out\<close> point to.\<close>

definition EncodeUnDirectArray :: "bool \<Rightarrow> u32 list \<Rightarrow> nat list \<Rightarrow> u8 list \<Rightarrow> (u8 list \<times> nat) option" where
  "EncodeUnDirectArray is_delta xs out mem = do {
     let bytes = Varint_EncodeArray is_delta xs;
     mem \<leftarrow> foldo (\<lambda>k mem. do { p \<leftarrow> aget out k; b \<leftarrow> aget bytes k; aput mem p b }) [0..<length bytes] mem;
     Some (mem, length bytes) }"

definition Varint_GetOneEncodeLength :: "u32 \<Rightarrow> nat" where
  "Varint_GetOneEncodeLength integer =
     (if integer < varint_bound ! 0 then 1 else if integer < varint_bound ! 1 then 2
      else if integer < varint_bound ! 2 then 3 else if integer < varint_bound ! 3 then 4 else 5)"

fun Varint_GetEncodeLength_loop :: "bool \<Rightarrow> u32 \<Rightarrow> u32 list \<Rightarrow> nat" where
  "Varint_GetEncodeLength_loop is_delta pre [] = 0"
| "Varint_GetEncodeLength_loop is_delta pre (x # xs) =
     Varint_GetOneEncodeLength (if is_delta then x - pre else x) + Varint_GetEncodeLength_loop is_delta (if is_delta then x else pre) xs"

definition Varint_GetEncodeLength :: "bool \<Rightarrow> u32 list \<Rightarrow> nat" where
  "Varint_GetEncodeLength is_delta xs = Varint_GetEncodeLength_loop is_delta 0 xs"

fun Varint_ParseEncode_loop :: "bool \<Rightarrow> nat \<Rightarrow> nat \<Rightarrow> u32 \<Rightarrow> u32 list \<Rightarrow> DeltaInfo list" where
  "Varint_ParseEncode_loop is_delta i sz pre [] = []"
| "Varint_ParseEncode_loop is_delta i sz pre (x # xs) =
     (let val = (if is_delta then x - pre else x); pre = (if is_delta then x else pre);
          len = Varint_GetOneEncodeLength val; sz = sz + len in
      \<lparr>delta_bits = (if i = 0 then 0 else len), val_bits = Varint_GetOneEncodeLength x, total_bits = sz\<rparr> #
        Varint_ParseEncode_loop is_delta (i + 1) sz pre xs)"

definition Varint_ParseEncode :: "bool \<Rightarrow> u32 list \<Rightarrow> DeltaInfo list" where
  "Varint_ParseEncode is_delta xs = Varint_ParseEncode_loop is_delta 0 0 0 xs"

section \<open>Decoding\<close>

text \<open>One integer while more than five bytes are left: at most five are read. The result holds the bytes behind it.\<close>

definition varint_fast :: "u8 list \<Rightarrow> (u32 \<times> u8 list) option" where
  "varint_fast bs = do {
     c \<leftarrow> aget bs 0;
     let v = ucast (c AND 0x7F);
     if c < 128 then Some (v, drop 1 bs)
     else do {
       c \<leftarrow> aget bs 1;
       let v = v OR push_bit 7 (ucast (c AND 0x7F));
       if c < 128 then Some (v, drop 2 bs)
       else do {
         c \<leftarrow> aget bs 2;
         let v = v OR push_bit 14 (ucast (c AND 0x7F));
         if c < 128 then Some (v, drop 3 bs)
         else do {
           c \<leftarrow> aget bs 3;
           let v = v OR push_bit 21 (ucast (c AND 0x7F));
           if c < 128 then Some (v, drop 4 bs)
           else do {
             c \<leftarrow> aget bs 4;
             Some (v OR push_bit 28 (ucast (c AND 0x0F)), drop 5 bs) } } } } }"

text \<open>One of the last integers, byte by byte; without a last byte there is no integer.\<close>

fun varint_slow :: "nat \<Rightarrow> u32 \<Rightarrow> u8 list \<Rightarrow> u32 option \<times> u8 list" where
  "varint_slow shift v [] = (None, [])"
| "varint_slow shift v (c # cs) =
     (let v = v + push_bit shift (ucast (c AND 127)) in
      if c < 128 then (Some v, cs) else varint_slow (shift + 7) v cs)"

lemma varint_fast_shorter: "varint_fast bs = Some (v, rest) \<Longrightarrow> length rest < length bs"
  by (cases bs) (auto simp: varint_fast_def aget_def Let_def split: if_splits)

lemma varint_slow_shorter: "varint_slow shift v bs = (r, rest) \<Longrightarrow> length rest \<le> length bs - 1"
proof (induction shift v bs rule: varint_slow.induct)
  case (2 shift v c cs)
  then show ?case by (fastforce simp: Let_def split: if_splits)
qed simp

lemma varint_slow_less: "(r, rest) = varint_slow shift v bs \<Longrightarrow> bs \<noteq> [] \<Longrightarrow> length rest < length bs"
  using varint_slow_shorter [of shift v bs r rest] by (cases bs) auto

function Varint_Decode_loop :: "bool \<Rightarrow> u32 \<Rightarrow> u8 list \<Rightarrow> u32 list option" where
  "Varint_Decode_loop is_delta prev bs =
     (if length bs > 5 then
        (case varint_fast bs of None \<Rightarrow> None
         | Some (v, rest) \<Rightarrow>
             let y = (if is_delta then v + prev else v) in
             map_option ((#) y) (Varint_Decode_loop is_delta (if is_delta then y else prev) rest))
      else if bs \<noteq> [] then
        (case varint_slow 0 0 bs of (None, rest) \<Rightarrow> Varint_Decode_loop is_delta prev rest
         | (Some v, rest) \<Rightarrow>
             let y = (if is_delta then v + prev else v) in
             map_option ((#) y) (Varint_Decode_loop is_delta (if is_delta then y else prev) rest))
      else Some [])"
  by pat_completeness auto
termination
  by (relation "measure (\<lambda>(is_delta, prev, bs). length bs)") (auto dest: varint_fast_shorter varint_slow_less)

declare Varint_Decode_loop.simps [simp del]

definition Varint_Decode :: "bool \<Rightarrow> u8 list \<Rightarrow> u32 list option" where
  "Varint_Decode is_delta bs = Varint_Decode_loop is_delta 0 bs"

definition DecodeUnDirectArray :: "bool \<Rightarrow> nat list \<Rightarrow> u8 list \<Rightarrow> u32 list option" where
  "DecodeUnDirectArray is_delta ptrs mem = do {
     bs \<leftarrow> foldo (\<lambda>k bs. do { p \<leftarrow> aget ptrs k; b \<leftarrow> aget mem p; Some (bs @ [b]) }) [0..<length ptrs] [];
     Varint_Decode is_delta bs }"

section \<open>Searching\<close>

text \<open>The two loops of \<^verbatim>\<open>Find\<close> behind the first integer. In the second one \<^verbatim>\<open>element < v\<close> compares with the difference.\<close>

function Varint_Find_loop :: "bool \<Rightarrow> u32 \<Rightarrow> u8 list \<Rightarrow> u32 \<Rightarrow> FindRes option" where
  "Varint_Find_loop is_delta prev bs element =
     (if length bs > 5 then
        (case varint_fast bs of None \<Rightarrow> None
         | Some (v, rest) \<Rightarrow>
             let y = (if is_delta then v + prev else v) in
             if element = y then Some EXIST else if element < y then Some NOT_EXIST
             else Varint_Find_loop is_delta (if is_delta then y else prev) rest element)
      else if bs \<noteq> [] then
        (case varint_slow 0 0 bs of (None, rest) \<Rightarrow> Varint_Find_loop is_delta prev rest element
         | (Some v, rest) \<Rightarrow>
             let prev = (if is_delta then v + prev else prev) in
             if element = (if is_delta then prev else v) then Some EXIST else if element < v then Some NOT_EXIST
             else Varint_Find_loop is_delta prev rest element)
      else if prev < element then Some GRATER_THAN_MAX else Some NOT_EXIST)"
  by pat_completeness auto
termination
  by (relation "measure (\<lambda>(is_delta, prev, bs, element). length bs)") (auto dest: varint_fast_shorter varint_slow_less)

declare Varint_Find_loop.simps [simp del]

definition Varint_Find :: "bool \<Rightarrow> u8 list \<Rightarrow> u32 \<Rightarrow> FindRes option" where
  "Varint_Find is_delta bs element =
     (if is_delta then do {
        (v, rest) \<leftarrow> varint_fast bs;
        let prev = v + 0;
        if element = prev then Some EXIST else if element < prev then Some LESS_THAN_MIN
        else Varint_Find_loop is_delta prev rest element }
      else Varint_Find_loop is_delta 0 bs element)"

section \<open>One integer\<close>

lemma length_varint_bytes [simp]: "length (varint_bytes v) = Varint_GetOneEncodeLength v"
  by (simp add: varint_bytes_def Varint_GetOneEncodeLength_def)

lemma Varint_length_bounds [simp]: "0 < Varint_GetOneEncodeLength v" "Varint_GetOneEncodeLength v \<le> 5"
  by (simp_all add: Varint_GetOneEncodeLength_def)

lemma Varint_length_power: "unat v < 2 ^ (7 * Varint_GetOneEncodeLength v)"
  using unat_u32_lt [of v] by (auto simp: Varint_GetOneEncodeLength_def varint_bound_def word_less_nat_alt)

lemma u8_less_128: "c < 128 \<longleftrightarrow> \<not> bit (c :: u8) 7"
proof -
  have "unat c < 2 ^ 8" using unsigned_less [of c, where ?'a = nat] by simp
  moreover have "bit c 7 \<longleftrightarrow> bit (unat c) 7" by (simp add: bit_unsigned_iff)
  moreover have "unat c div 128 = (if unat c < 128 then 0 else 1)" using \<open>unat c < 2 ^ 8\<close> by auto
  ultimately show ?thesis by (simp add: word_less_nat_alt bit_iff_odd [of "unat c"])
qed

text \<open>The bytes are the digits, the lowest first.\<close>

lemma varint_bytes_digits:
  "varint_bytes v = map (\<lambda>k. if k + 1 < Varint_GetOneEncodeLength v then digit7 v k OR 0x80 else digit7 v k) [0..<Varint_GetOneEncodeLength v]"
proof -
  have last: "ucast (drop_bit (7 * k) v) = digit7 v k" if "unat v < 2 ^ (7 * (k + 1))" for k
  proof (rule bit_word_eqI)
    fix n assume "n < LENGTH(8)"
    then show "bit (ucast (drop_bit (7 * k) v) :: u8) n = bit (digit7 v k) n"
      using bit_u32_lt_two_power [OF that, of "7 * k + n"] by (cases "n < 7") (auto simp: bit_digit7 bit_simps)
  qed
  have hi: "ucast ((drop_bit (7 * k) v AND 0x7F) OR mask_7_zero) = digit7 v k OR 0x80" for k
    unfolding digit7_def by (rule u8_eqI) (auto simp: mask_7_zero_def bit_simps)
  note his = hi [of 0, simplified] hi [of 1, simplified] hi [of 2, simplified] hi [of 3, simplified]
  have zero: "ucast (v AND 0x7F) = digit7 v 0" by (simp add: digit7_def)
  note lasts = last [of 1, simplified] last [of 2, simplified] last [of 3, simplified] last [of 4, simplified]
  note defs = varint_bytes_def Varint_GetOneEncodeLength_def varint_bound_def
  have len: "v < varint_bound ! 1 \<Longrightarrow> unat v < 16384" "v < varint_bound ! 2 \<Longrightarrow> unat v < 2097152"
    "v < varint_bound ! 3 \<Longrightarrow> unat v < 268435456" "unat v < 34359738368"
    using unat_u32_lt [of v] by (simp_all add: varint_bound_def word_less_nat_alt)
  consider "v < varint_bound ! 0" | "\<not> v < varint_bound ! 0" "v < varint_bound ! 1" | "\<not> v < varint_bound ! 0" "\<not> v < varint_bound ! 1" "v < varint_bound ! 2"
    | "\<not> v < varint_bound ! 0" "\<not> v < varint_bound ! 1" "\<not> v < varint_bound ! 2" "v < varint_bound ! 3"
    | "\<not> v < varint_bound ! 0" "\<not> v < varint_bound ! 1" "\<not> v < varint_bound ! 2" "\<not> v < varint_bound ! 3" by blast
  then show ?thesis
    by cases (simp_all add: varint_bytes_def Varint_GetOneEncodeLength_def his zero lasts len upt_rec, simp_all add: eval_nat_numeral)
qed

text \<open>What the digits give, with \<open>OR\<close> and with \<open>+\<close>.\<close>

lemma digit7_add: "take_bit (7 * k) v + push_bit (7 * k) (ucast (digit7 v k)) = take_bit (7 * Suc k) v"
  "take_bit (7 * k) v OR push_bit (7 * k) (ucast (digit7 v k)) = take_bit (7 * Suc k) v"
proof -
  have "\<not> bit (take_bit (7 * k) v) n \<or> \<not> bit (push_bit (7 * k) (ucast (digit7 v k)) :: u32) n" for n by (auto simp: bit_simps)
  then have "take_bit (7 * k) v + push_bit (7 * k) (ucast (digit7 v k)) = take_bit (7 * k) v OR push_bit (7 * k) (ucast (digit7 v k))"
    by (rule disjunctive_add)
  moreover show "take_bit (7 * k) v OR push_bit (7 * k) (ucast (digit7 v k)) = take_bit (7 * Suc k) v"
  proof (rule bit_word_eqI)
    fix n assume "n < LENGTH(32)"
    then show "bit (take_bit (7 * k) v OR push_bit (7 * k) (ucast (digit7 v k))) n = bit (take_bit (7 * Suc k) v) n"
      by (cases "n < 7 * k") (auto simp: bit_simps bit_digit7)
  qed
  ultimately show "take_bit (7 * k) v + push_bit (7 * k) (ucast (digit7 v k)) = take_bit (7 * Suc k) v" by simp
qed

lemma digit7_less: "digit7 v k < 128" "\<not> digit7 v k OR 0x80 < 128" "digit7 v k AND 0x7F = digit7 v k" "(digit7 v k OR 0x80) AND 0x7F = digit7 v k"
  "digit7 v 4 AND 0x0F = digit7 v 4"
proof -
  show "digit7 v k < 128" "\<not> digit7 v k OR 0x80 < 128" by (simp_all add: u8_less_128 bit_digit7 bit_simps)
  show "digit7 v k AND 0x7F = digit7 v k" "(digit7 v k OR 0x80) AND 0x7F = digit7 v k" by (fact digit7_bits)+
  show "digit7 v 4 AND 0x0F = digit7 v 4" by (rule u8_eqI) (auto simp: bit_digit7 bit_simps)
qed

lemma take_all_digits: "take_bit (7 * Varint_GetOneEncodeLength v) v = v"
proof (rule bit_word_eqI)
  fix n
  show "bit (take_bit (7 * Varint_GetOneEncodeLength v) v) n = bit v n"
    using bit_u32_lt_two_power [OF Varint_length_power [of v], of n] by (cases "n < 7 * Varint_GetOneEncodeLength v") (simp_all add: bit_simps)
qed

lemma varint_slow_digits:
  "j < n \<Longrightarrow> varint_slow (7 * j) (take_bit (7 * j) v) (map (\<lambda>k. if k + 1 < n then digit7 v k OR 0x80 else digit7 v k) [j..<n] @ rest) =
     (Some (take_bit (7 * n) v), rest)"
proof (induction "n - j" arbitrary: j)
  case (Suc d)
  have step: "take_bit (7 * j) v + push_bit (7 * j) (ucast (digit7 v j)) = take_bit (7 * Suc j) v" by (rule digit7_add)
  show ?case
  proof (cases "j + 1 < n")
    case True
    with Suc(1) [of "Suc j"] Suc(2) step show ?thesis by (simp add: upt_conv_Cons digit7_less add.commute)
  next
    case False
    then have "n = Suc j" using Suc.prems by simp
    then show ?thesis using step by (simp add: digit7_less)
  qed
qed simp

lemma varint_slow_bytes: "varint_slow 0 0 (varint_bytes v @ rest) = (Some v, rest)"
  unfolding varint_bytes_digits [of v] using varint_slow_digits [of 0 "Varint_GetOneEncodeLength v" v rest] by (simp add: take_all_digits)

lemma varint_fast_bytes: "varint_fast (varint_bytes v @ rest) = Some (v, rest)"
proof -
  have ors: "ucast (digit7 v 0) = take_bit 7 v" "take_bit 7 v OR push_bit 7 (ucast (digit7 v 1)) = take_bit 14 v"
    "take_bit 14 v OR push_bit 14 (ucast (digit7 v 2)) = take_bit 21 v" "take_bit 21 v OR push_bit 21 (ucast (digit7 v 3)) = take_bit 28 v"
    "take_bit 28 v OR push_bit 28 (ucast (digit7 v 4)) = take_bit 35 v"
    using digit7_add(2) [of 0 v] digit7_add(2) [of 1 v] digit7_add(2) [of 2 v] digit7_add(2) [of 3 v] digit7_add(2) [of 4 v] by simp_all
  consider "Varint_GetOneEncodeLength v = 1" | "Varint_GetOneEncodeLength v = 2" | "Varint_GetOneEncodeLength v = 3"
    | "Varint_GetOneEncodeLength v = 4" | "Varint_GetOneEncodeLength v = 5"
    using Varint_length_bounds [of v] by linarith
  then show ?thesis
  proof cases
    case 1
    then show ?thesis using take_all_digits [of v] ors(1) by (simp add: varint_fast_def varint_bytes_digits Let_def digit7_less)
  next
    case 2
    then show ?thesis using take_all_digits [of v] ors by (simp add: varint_fast_def varint_bytes_digits Let_def digit7_less upt_rec)
  next
    case 3
    then show ?thesis using take_all_digits [of v] ors by (simp add: varint_fast_def varint_bytes_digits Let_def digit7_less upt_rec eval_nat_numeral)
  next
    case 4
    then show ?thesis using take_all_digits [of v] ors by (simp add: varint_fast_def varint_bytes_digits Let_def digit7_less upt_rec eval_nat_numeral)
  next
    case 5
    then show ?thesis using take_all_digits [of v] ors digit7_less(5) [of v] by (simp add: varint_fast_def varint_bytes_digits Let_def digit7_less upt_rec eval_nat_numeral)
  qed
qed

section \<open>Sequences\<close>

lemma Varint_GetEncodeLength_loop: "length (Varint_EncodeArray_loop d prev xs) = Varint_GetEncodeLength_loop d prev xs"
  by (induction xs arbitrary: prev) (simp_all add: Let_def)

text \<open>Both loops read the next integer, whichever of them is running.\<close>

lemma varint_next:
  fixes v :: u32 and rest :: "u8 list"
  defines "bs \<equiv> varint_bytes v @ rest"
  shows "Varint_Decode_loop d prev bs = (let y = (if d then v + prev else v) in map_option ((#) y) (Varint_Decode_loop d (if d then y else prev) rest))"
    and "Varint_Find_loop d prev bs e = (let y = (if d then v + prev else v) in
      if e = y then Some EXIST else if e < (if 5 < length bs then y else v) then Some NOT_EXIST
      else Varint_Find_loop d (if d then y else prev) rest e)"
proof -
  have "bs \<noteq> []" by (simp add: bs_def varint_bytes_def)
  moreover have "varint_fast bs = Some (v, rest)" "varint_slow 0 0 bs = (Some v, rest)" unfolding bs_def by (fact varint_fast_bytes varint_slow_bytes)+
  ultimately show "Varint_Decode_loop d prev bs = (let y = (if d then v + prev else v) in map_option ((#) y) (Varint_Decode_loop d (if d then y else prev) rest))"
    "Varint_Find_loop d prev bs e = (let y = (if d then v + prev else v) in
      if e = y then Some EXIST else if e < (if 5 < length bs then y else v) then Some NOT_EXIST
      else Varint_Find_loop d (if d then y else prev) rest e)"
    by (subst Varint_Decode_loop.simps Varint_Find_loop.simps; simp add: Let_def)+
qed

lemma Varint_Decode_loop_encoded: "Varint_Decode_loop d prev (Varint_EncodeArray_loop d prev xs) = Some xs"
proof (induction xs arbitrary: prev)
  case Nil
  then show ?case by (subst Varint_Decode_loop.simps) simp
next
  case (Cons x xs)
  then show ?case by (cases d) (simp_all add: Let_def varint_next)
qed

lemma Varint_Find_passed:
  assumes "sorted (prev # xs)" "e < prev"
  shows "Varint_Find_loop True prev (Varint_EncodeArray_loop True prev xs) e = Some NOT_EXIST"
  using assms
proof (induction xs arbitrary: prev)
  case Nil
  then show ?case by (subst Varint_Find_loop.simps) (auto simp: Let_def)
next
  case (Cons x xs)
  then have "e < x" "e \<noteq> x" by auto
  with Cons show ?case by (simp add: Let_def varint_next)
qed

lemma Varint_Find_delta:
  assumes "sorted (prev # xs)" "prev < e"
  shows "Varint_Find_loop True prev (Varint_EncodeArray_loop True prev xs) e =
    Some (if e \<in> set xs then EXIST else if last (prev # xs) < e then GRATER_THAN_MAX else NOT_EXIST)"
  using assms
proof (induction xs arbitrary: prev)
  case Nil
  then show ?case by (subst Varint_Find_loop.simps) simp
next
  case (Cons x xs)
  have srt: "sorted (x # xs)" "prev \<le> x" using Cons.prems(1) by auto
  have last: "x \<le> last (x # xs)" using srt(1) by (cases xs) (auto simp: last_in_set)
  consider "e = x" | "e < x" | "x < e" by (rule linorder_less_linear [THEN disjE]) auto
  then show ?case
  proof cases
    case 1
    then show ?thesis by (simp add: Let_def varint_next)
  next
    case 2
    then have "e \<notin> set (x # xs)" "\<not> last (x # xs) < e" using srt(1) last by auto
    with 2 show ?thesis using Varint_Find_passed [OF srt(1) 2] by (simp add: Let_def varint_next)
  next
    case 3
    have "x - prev \<le> x" using srt(2) by (simp add: word_le_nat_alt unat_sub)
    then have "\<not> e < x" "\<not> e < x - prev" "e \<noteq> x" using 3 by auto
    then show ?thesis using Cons.IH [OF srt(1) 3] by (simp add: Let_def varint_next)
  qed
qed

lemma Varint_Find_plain:
  assumes "sorted (m # xs)" "m \<le> e"
  shows "Varint_Find_loop False 0 (Varint_EncodeArray_loop False 0 xs) e =
    Some (if e \<in> set xs then EXIST else if xs = [] \<and> 0 < e \<or> xs \<noteq> [] \<and> last xs < e then GRATER_THAN_MAX else NOT_EXIST)"
  using assms
proof (induction xs arbitrary: m)
  case Nil
  then show ?case by (subst Varint_Find_loop.simps) simp
next
  case (Cons x xs)
  have srt: "sorted (x # xs)" using Cons.prems(1) by auto
  consider "e = x" | "e < x" | "x < e" by (rule linorder_less_linear [THEN disjE]) auto
  then show ?case
  proof cases
    case 1
    then show ?thesis by (simp add: Let_def varint_next)
  next
    case 2
    then have "e \<notin> set (x # xs)" using srt by auto
    moreover have "x \<le> last (x # xs)" using srt by (cases xs) (auto simp: last_in_set)
    ultimately show ?thesis using 2 by (auto simp: Let_def varint_next)
  next
    case 3
    then have "0 < e" by (simp add: word_less_nat_alt)
    then show ?thesis using 3 Cons.IH [OF srt] by (auto simp: Let_def varint_next)
  qed
qed

section \<open>Bytes behind pointers\<close>

lemma put_through:
  assumes "n \<le> length out" "distinct out" "\<forall>p \<in> set out. p < length mem" "n \<le> length bytes"
  shows "\<exists>mem'. foldo (\<lambda>k mem. do { p \<leftarrow> aget out k; b \<leftarrow> aget bytes k; aput mem p b }) [0..<n] mem = Some mem' \<and> length mem' = length mem \<and>
    (\<forall>k < n. mem' ! (out ! k) = bytes ! k)"
  using assms(1,4)
proof (induction n)
  case (Suc n)
  then obtain mem' where m: "foldo (\<lambda>k mem. do { p \<leftarrow> aget out k; b \<leftarrow> aget bytes k; aput mem p b }) [0..<n] mem = Some mem'" "length mem' = length mem"
    "\<forall>k < n. mem' ! (out ! k) = bytes ! k" by auto
  have p: "out ! n < length mem'" using Suc.prems(1) assms(3) m(2) by simp
  have "mem'[out ! n := bytes ! n] ! (out ! k) = bytes ! k" if "k < Suc n" for k
    using that m(3) p Suc.prems(1) assms(2) by (cases "k = n") (auto simp: nth_list_update nth_eq_iff_index_eq)
  then show ?case using m p Suc.prems by (simp add: foldo_append)
qed simp

lemma get_through:
  assumes "\<forall>k < length ptrs. ptrs ! k < length mem"
  shows "foldo (\<lambda>k bs. do { p \<leftarrow> aget ptrs k; b \<leftarrow> aget mem p; Some (bs @ [b]) }) [0..<length ptrs] [] = Some (map ((!) mem) ptrs)"
proof -
  have "foldo (\<lambda>k bs. do { p \<leftarrow> aget ptrs k; b \<leftarrow> aget mem p; Some (bs @ [b]) }) [0..<n] [] = Some (map (\<lambda>k. mem ! (ptrs ! k)) [0..<n])" if "n \<le> length ptrs" for n
    using that assms by (induction n) (simp_all add: foldo_append)
  then have "foldo (\<lambda>k bs. do { p \<leftarrow> aget ptrs k; b \<leftarrow> aget mem p; Some (bs @ [b]) }) [0..<length ptrs] [] =
    Some (map (\<lambda>k. mem ! (ptrs ! k)) [0..<length ptrs])" by blast
  moreover have "map (\<lambda>k. mem ! (ptrs ! k)) [0..<length ptrs] = map ((!) mem) ptrs" by (rule nth_equalityI) simp_all
  ultimately show ?thesis by (rule trans [OF _ arg_cong [of _ _ Some]])
qed

text \<open>Bytes written through pointers that do not alias are the bytes read through the same pointers.\<close>

lemma undirect_roundtrip:
  fixes d :: bool and xs :: "u32 list"
  defines "n \<equiv> Varint_GetEncodeLength d xs"
  assumes "n \<le> length out" "distinct out" "\<forall>p \<in> set out. p < length mem"
  shows "\<exists>mem'. EncodeUnDirectArray d xs out mem = Some (mem', n) \<and> length mem' = length mem \<and> DecodeUnDirectArray d (take n out) mem' = Some xs"
proof -
  define bytes where "bytes = Varint_EncodeArray d xs"
  have len: "length bytes = n" unfolding bytes_def n_def Varint_EncodeArray_def Varint_GetEncodeLength_def by (rule Varint_GetEncodeLength_loop)
  obtain mem' where m: "foldo (\<lambda>k mem. do { p \<leftarrow> aget out k; b \<leftarrow> aget bytes k; aput mem p b }) [0..<n] mem = Some mem'"
    "length mem' = length mem" "\<forall>k < n. mem' ! (out ! k) = bytes ! k"
    using put_through [OF assms(2-4), of bytes] len by blast
  have "map ((!) mem') (take n out) = bytes" using m(3) len assms(2) by (intro nth_equalityI) simp_all
  moreover have "\<forall>k < length (take n out). take n out ! k < length mem'" using assms(2,4) m(2) by simp
  ultimately have "foldo (\<lambda>k bs. do { p \<leftarrow> aget (take n out) k; b \<leftarrow> aget mem' p; Some (bs @ [b]) }) [0..<length (take n out)] [] = Some bytes"
    using get_through by metis
  then have "DecodeUnDirectArray d (take n out) mem' = Varint_Decode d bytes" unfolding DecodeUnDirectArray_def by simp
  also have "\<dots> = Some xs" unfolding bytes_def Varint_Decode_def Varint_EncodeArray_def by (rule Varint_Decode_loop_encoded)
  finally show ?thesis using m len unfolding EncodeUnDirectArray_def bytes_def [symmetric] by (simp add: Let_def)
qed

section \<open>Properties\<close>

text \<open>C32.
  Decoding gives back the integers that were encoded, with or without differences and for every 32-bit value; the encoding takes as
  many bytes as \<^verbatim>\<open>GetEncodeLength\<close> says. Through an array of pointers that do not alias the same bytes are written and read back.
\<close>
theorem varint_roundtrip:
  assumes "Varint_GetEncodeLength d xs \<le> length out" "distinct out" "\<forall>p \<in> set out. p < length mem"
  shows "Varint_Decode d (Varint_EncodeArray d xs) = Some xs \<and>
    length (Varint_EncodeArray d xs) = Varint_GetEncodeLength d xs \<and>
    (\<exists>mem'. EncodeUnDirectArray d xs out mem = Some (mem', Varint_GetEncodeLength d xs) \<and> length mem' = length mem \<and>
      DecodeUnDirectArray d (take (Varint_GetEncodeLength d xs) out) mem' = Some xs)"
  using undirect_roundtrip [OF assms] Varint_Decode_loop_encoded [of d 0 xs] Varint_GetEncodeLength_loop [of d 0 xs]
  unfolding Varint_Decode_def Varint_EncodeArray_def Varint_GetEncodeLength_def by blast

theorem varint_roundtrip_witness:
  "Varint_Decode True (Varint_EncodeArray True [5, 300, 4000000000]) = Some [5, 300, 4000000000]"
  using varint_roundtrip [of True "[5, 300, 4000000000]" "[0..<8]" "replicate 8 0"]
  by (simp add: Varint_GetEncodeLength_def Varint_GetOneEncodeLength_def varint_bound_def)

text \<open>C33.
  The search in an encoded sorted sequence, which stops without decoding the rest: with differences it tells an element of the
  sequence, one before its first integer, one behind its last, and one missing in between. Without differences it never reports
  one before the first integer: \<^verbatim>\<open>NOT_EXIST\<close> stands for it too.
\<close>
theorem varint_find:
  assumes "sorted xs" "xs \<noteq> []"
  shows "Varint_Find True (Varint_EncodeArray True xs) e = Some (if e \<in> set xs then EXIST else if e < hd xs then LESS_THAN_MIN
      else if last xs < e then GRATER_THAN_MAX else NOT_EXIST) \<and>
    Varint_Find False (Varint_EncodeArray False xs) e =
      Some (if e \<in> set xs then EXIST else if last xs < e then GRATER_THAN_MAX else NOT_EXIST)"
proof
  obtain x ys where xs: "xs = x # ys" using assms(2) by (cases xs) auto
  have srt: "sorted (x # ys)" using assms(1) xs by simp
  have enc: "Varint_EncodeArray True (x # ys) = varint_bytes x @ Varint_EncodeArray_loop True x ys"
    by (simp add: Varint_EncodeArray_def Let_def)
  consider "e = x" | "e < x" | "x < e" by (rule linorder_less_linear [THEN disjE]) auto
  then show "Varint_Find True (Varint_EncodeArray True xs) e = Some (if e \<in> set xs then EXIST else if e < hd xs then LESS_THAN_MIN
      else if last xs < e then GRATER_THAN_MAX else NOT_EXIST)"
  proof cases
    case 2
    then have "e \<notin> set (x # ys)" using srt by auto
    with 2 show ?thesis by (simp add: Varint_Find_def enc varint_fast_bytes xs)
  next
    case 3
    then show ?thesis using Varint_Find_delta [OF srt 3] by (auto simp add: Varint_Find_def enc varint_fast_bytes xs)
  qed (simp add: Varint_Find_def enc varint_fast_bytes xs)
  have "sorted (0 # xs)" "(0 :: u32) \<le> e" using assms(1) by simp_all
  from Varint_Find_plain [OF this] show "Varint_Find False (Varint_EncodeArray False xs) e =
      Some (if e \<in> set xs then EXIST else if last xs < e then GRATER_THAN_MAX else NOT_EXIST)"
    using assms(2) by (simp add: Varint_Find_def Varint_EncodeArray_def)
qed

theorem varint_find_witness:
  "Varint_Find True (Varint_EncodeArray True [5, 300, 4000000000]) 301 = Some NOT_EXIST"
  using varint_find [of "[5, 300, 4000000000]" 301] by simp

end
