(* ===== verification/Compression_Runs.thy ===== *)
theory Compression_Runs
  imports Compression_Laws
begin

text \<open>The runs of neighbours that the two codecs with bytes choose for a vertex that does not fit, and what they write.\<close>

lemma put_loop:
  assumes "\<And>i e shift. i \<in> set is \<Longrightarrow> body i (e, shift) = do {
      e \<leftarrow> BlockSet e shift (IntegerBytes (h i) * 8) (compress (h i)); Some (e, shift + IntegerBytes (h i) * 8) }"
  shows "map_option fst (foldo body is (e, shift)) = VbyteComp_put e shift (map h is) (GetAllBits (map h is))"
  using assms
proof (induction "is" arbitrary: e shift)
  case (Cons i "is")
  then show ?case by (cases "BlockSet e shift (IntegerBytes (h i) * 8) (compress (h i))") (simp_all add: GetAllBits_def)
qed (simp add: GetAllBits_def)

text \<open>A loop that runs at least once and whose steps establish \<open>P\<close> from the start or keep it.\<close>

lemma foldo_establish:
  assumes "\<And>x s. x \<in> set xs \<Longrightarrow> P s \<or> Q s \<Longrightarrow> \<exists>s'. f x s = Some s' \<and> P s'" "Q s \<or> P s" "xs \<noteq> []"
  shows "\<exists>s'. foldo f xs s = Some s' \<and> P s'"
proof -
  have keep: "\<exists>s'. foldo f ys s = Some s' \<and> P s'" if "set ys \<subseteq> set xs" "P s" for ys s
    using that
  proof (induction ys arbitrary: s)
    case (Cons y ys)
    then obtain s' where "f y s = Some s'" "P s'" using assms(1) [of y s] by auto
    with Cons show ?case by simp
  qed simp
  obtain y ys where xs: "xs = y # ys" using assms(3) by (cases xs) auto
  obtain s' where "f y s = Some s'" "P s'" using assms(1) [of y s] assms(2) xs by auto
  with keep [of ys s'] xs show ?thesis by auto
qed

text \<open>A run \<open>x # mid @ [y]\<close> of a list.\<close>

lemma run_split:
  assumes "2 \<le> b" "idx + b \<le> length list"
  shows "list = take idx list @ list ! idx # take (b - 2) (drop (idx + 1) list) @ list ! (idx + b - 1) # drop (idx + b) list"
proof -
  have "drop idx list = list ! idx # drop (idx + 1) list" using assms by (simp add: Cons_nth_drop_Suc)
  moreover have "drop (idx + 1) list = take (b - 2) (drop (idx + 1) list) @ drop (idx + b - 1) list"
  proof -
    have "idx + b - 1 = b - 2 + (idx + 1)" using assms by simp
    then show ?thesis by (simp only: drop_drop [symmetric] append_take_drop_id)
  qed
  moreover have "drop (idx + b - 1) list = list ! (idx + b - 1) # drop (idx + b) list" using assms Cons_nth_drop_Suc [of "idx + b - 1" list] by simp
  ultimately show ?thesis by (metis append_take_drop_id)
qed

definition mid :: "u32 list \<Rightarrow> nat \<Rightarrow> nat \<Rightarrow> u32 list" where
  "mid list idx b = take (b - 2) (drop (idx + 1) list)"

lemma mid_nth: "2 \<le> b \<Longrightarrow> idx + b \<le> length list \<Longrightarrow> mid list idx b = map (\<lambda>i. list ! (i + idx)) [1..<b - 1]"
  by (rule nth_equalityI) (auto simp: mid_def add.commute)

lemma mid_Suc:
  assumes "2 \<le> b" "idx + b < length list"
  shows "mid list idx (b + 1) = mid list idx b @ [list ! (idx + b - 1)]"
proof -
  obtain c where c: "b = c + 2" using assms(1) by (metis le_add_diff_inverse2)
  then show ?thesis using assms by (simp add: mid_def take_Suc_conv_app_nth)
qed

lemma run_between:
  assumes "sorted_wrt (<) list" "2 \<le> b" "idx + b \<le> length list" "list ! idx < value" "value < list ! (idx + b - 1)"
  shows "value \<in> set list \<longleftrightarrow> value \<in> set (mid list idx b)"
proof -
  have s: "list = take idx list @ list ! idx # mid list idx b @ list ! (idx + b - 1) # drop (idx + b) list"
    using run_split [OF assms(2,3)] by (simp add: mid_def)
  have "sorted_wrt (<) (take idx list @ list ! idx # mid list idx b @ list ! (idx + b - 1) # drop (idx + b) list)"
    using assms(1) s by simp
  then have "\<forall>u \<in> set (take idx list). u < list ! idx" "\<forall>u \<in> set (drop (idx + b) list). list ! (idx + b - 1) < u"
    by (auto simp: sorted_wrt_append)
  then show ?thesis using assms(4,5) arg_cong [OF s, of set] by (auto dest: less_asym)
qed

text \<open>The elements that are written for a run, and the bytes they need.\<close>

definition run_values :: "bool \<Rightarrow> u32 list \<Rightarrow> nat \<Rightarrow> nat \<Rightarrow> u32 list" where
  "run_values delta list idx b = list ! idx # list ! (idx + b - 1) #
     (if delta then GetDeltas_loop (list ! idx) (mid list idx b) else mid list idx b)"

definition good_run :: "bool \<Rightarrow> nat \<Rightarrow> u32 list \<Rightarrow> nat \<times> nat \<times> u32 \<Rightarrow> bool" where
  "good_run delta tot list = (\<lambda>(b, idx, score). 2 \<le> b \<and> idx + b \<le> length list \<and> 32 + 8 * vbytes_len (run_values delta list idx b) \<le> tot)"

lemma fitting_room:
  assumes "bits + shift \<le> tot"
  shows "n \<le> fitting shift tot bs bits n \<and> fitting shift tot bs bits n \<le> n + length bs \<and>
    bits + sum_list (take (fitting shift tot bs bits n - n) bs) + shift \<le> tot"
  using assms
proof (induction bs arbitrary: bits n)
  case (Cons b bs)
  show ?case
  proof (cases "bits + b + shift \<le> tot")
    case True
    from Cons.IH [OF True, of "n + 1"] have ih: "n + 1 \<le> fitting shift tot bs (bits + b) (n + 1)"
      "fitting shift tot bs (bits + b) (n + 1) \<le> n + 1 + length bs"
      "bits + b + sum_list (take (fitting shift tot bs (bits + b) (n + 1) - (n + 1)) bs) + shift \<le> tot" by auto
    then obtain d where "fitting shift tot bs (bits + b) (n + 1) = n + 1 + d" by (metis le_add_diff_inverse)
    with ih True show ?thesis by (simp add: Suc_diff_le)
  qed (use Cons.prems in simp)
qed simp

lemma fitting_two: "a + b + shift \<le> tot \<Longrightarrow> 2 \<le> fitting shift tot (a # b # bs) 0 0"
  using fitting_room [of "a + b" shift tot 2 bs] by (simp add: numeral_2_eq_2)

lemma sum_GetAllBits: "sum_list (take b (drop i (GetAllBits list))) = 8 * vbytes_len (take b (drop i list))"
  by (simp add: GetAllBits_def vbytes_len_def take_map drop_map sum_list_const_mult comp_def flip: mult.commute [of 8])

lemma run_len:
  assumes "2 \<le> b" "idx + b \<le> length list"
  shows "vbytes_len (take b (drop idx list)) = vbytes_len (run_values False list idx b)"
proof -
  have "take b (drop idx list) = list ! idx # mid list idx b @ [list ! (idx + b - 1)]"
  proof -
    have "drop idx list = list ! idx # mid list idx b @ list ! (idx + b - 1) # drop (idx + b) list"
      using arg_cong [OF run_split [OF assms], of "drop idx"] assms by (simp add: mid_def)
    moreover have "length (mid list idx b) = b - 2" using assms by (simp add: mid_def)
    ultimately show ?thesis using assms(1) by (cases b) (auto simp: numeral_2_eq_2)
  qed
  then show ?thesis by (simp add: run_values_def)
qed

lemma VbyteComp_choose_good:
  assumes "2 \<le> length list" "length list < 2 ^ 32" "96 \<le> tot"
  shows "\<exists>r. VbyteComp_choose after tot list 32 = Some r \<and> good_run False tot list r"
proof -
  define step where "step = (\<lambda>i (best_block, idx, best_score). do {
         let block_size = fitting 32 tot (drop i (GetAllBits list)) 0 0;
         hi \<leftarrow> aget (list @ [after]) (i + block_size);
         lo \<leftarrow> aget list i;
         let score = hi - lo;
         Some (if score \<ge> best_score then (block_size, i, score) else (best_block, idx, best_score)) } :: (nat \<times> nat \<times> u32) option)"
  have step: "\<exists>s'. step i s = Some s' \<and> good_run False tot list s'"
    if i: "i + 1 < length list" and s: "good_run False tot list s \<or> snd (snd s) = 0" for i s
  proof -
    let ?b = "fitting 32 tot (drop i (GetAllBits list)) 0 0"
    have "drop i (GetAllBits list) = IntegerBytes (list ! i) * 8 # IntegerBytes (list ! (i + 1)) * 8 # drop (i + 2) (GetAllBits list)"
      using i by (simp add: GetAllBits_def Cons_nth_drop_Suc [symmetric] drop_map)
    moreover have "IntegerBytes (list ! i) * 8 + IntegerBytes (list ! (i + 1)) * 8 + 32 \<le> tot"
      using IntegerBytes_bounds(2) [of "list ! i"] IntegerBytes_bounds(2) [of "list ! (i + 1)"] assms(3) by linarith
    ultimately have two: "2 \<le> ?b" using fitting_two by metis
    have r: "?b \<le> length list - i" "8 * vbytes_len (take ?b (drop i list)) + 32 \<le> tot"
      using fitting_room [of 0 32 tot 0 "drop i (GetAllBits list)"] assms(3) sum_GetAllBits [of ?b i list]
      by (auto simp: GetAllBits_def)
    then have "i + ?b \<le> length list" using i by linarith
    with two r(2) run_len [OF two, of i list] have "good_run False tot list (?b, i, x)" for x by (simp add: good_run_def)
    then show ?thesis using s i \<open>i + ?b \<le> length list\<close> by (cases s) (auto simp: step_def Let_def)
  qed
  have "\<exists>r. foldo step [0..<wsub32 (length list) 1] (0, 2 ^ 32 - 1, 0) = Some r \<and> good_run False tot list r"
    by (rule foldo_establish [where Q = "\<lambda>s. snd (snd s) = 0"]) (use step assms(1) in auto)
  then show ?thesis unfolding VbyteComp_choose_def step_def .
qed

lemma GetDeltas_loop_snoc: "GetDeltas_loop pre (xs @ [y]) = GetDeltas_loop pre xs @ [y - last (pre # xs)]"
  by (induction xs arbitrary: pre) auto

lemma nth_GetDeltas_loop: "i < length xs \<Longrightarrow> GetDeltas_loop pre xs ! i = xs ! i - (pre # xs) ! i"
  by (induction xs arbitrary: pre i) (auto simp: nth_Cons split: nat.split)

lemma length_GetDeltas_loop [simp]: "length (GetDeltas_loop pre xs) = length xs"
  by (induction xs arbitrary: pre) simp_all

lemma GetDeltaBits_nth:
  assumes "2 \<le> length list"
  shows "\<exists>db. GetDeltaBits list = Some db \<and> length db = length list - 1 \<and>
    (\<forall>i < length list - 1. db ! i = IntegerBytes (list ! (i + 1) - list ! i) * 8)"
proof -
  obtain x y ys where l: "list = x # y # ys" using assms by (metis Suc_le_length_iff numeral_2_eq_2)
  then show ?thesis using nth_GetDeltas_loop [of _ "y # ys" x] by (auto simp: GetDeltaBits_def simp del: GetDeltas_loop.simps)
qed

text \<open>One more element: the old end becomes a difference.\<close>

lemma run_values_grow:
  assumes "2 \<le> b" "i + b < length list"
  shows "vbytes_len (run_values True list i (b + 1)) + IntegerBytes (list ! (i + b - 1)) =
    vbytes_len (run_values True list i b) + IntegerBytes (list ! (i + b)) + IntegerBytes (list ! (i + b - 1) - list ! (i + b - 2))"
proof -
  have m: "mid list i (b + 1) = mid list i b @ [list ! (i + b - 1)]" by (rule mid_Suc [OF assms])
  have "last (list ! i # mid list i b) = list ! (i + b - 2)"
  proof (cases "b = 2")
    case True
    then show ?thesis by (simp add: mid_def)
  next
    case False
    then have "mid list i b \<noteq> []" "length (mid list i b) = b - 2" using assms by (auto simp: mid_def)
    moreover have "Suc (i + b - 3) = i + b - 2" using assms(1) False by simp
    ultimately show ?thesis using assms False by (simp add: last_conv_nth) (simp add: mid_def)
  qed
  then show ?thesis by (simp add: run_values_def m [simplified] GetDeltas_loop_snoc)
qed

lemma delta_extend_good:
  assumes "length all_bits = length list" "\<forall>i < length list. all_bits ! i = IntegerBytes (list ! i) * 8"
    "length db = length list - 1" "\<forall>i < length list - 1. db ! i = IntegerBytes (list ! (i + 1) - list ! i) * 8"
  shows "2 \<le> b \<Longrightarrow> n < length list \<Longrightarrow> bits = 8 * vbytes_len (run_values True list i b) \<Longrightarrow> good_run True tot list s \<Longrightarrow>
    \<exists>s'. delta_extend 32 tot list all_bits db i [i + b..<n] bits s = Some s' \<and> good_run True tot list s'"
proof (induction "n - (i + b)" arbitrary: b bits s)
  case 0
  then show ?case by (cases s) simp
next
  case (Suc k)
  obtain bb idx sc where s: "s = (bb, idx, sc)" by (cases s)
  have j: "i + b < n" "i + b < length list" using Suc(2) Suc.prems(2) by linarith+
  then have upt: "[i + b..<n] = (i + b) # [i + (b + 1)..<n]" by (simp add: upt_conv_Cons)
  have get: "aget list (i + b) = Some (list ! (i + b))" "aget list i = Some (list ! i)"
    "aget all_bits (i + b) = Some (IntegerBytes (list ! (i + b)) * 8)"
    "aget all_bits (i + b - 1) = Some (IntegerBytes (list ! (i + b - 1)) * 8)"
    "aget db (i + b - 2) = Some (IntegerBytes (list ! (i + b - 1) - list ! (i + b - 2)) * 8)"
    using assms j Suc.prems(1) by (auto simp: numeral_2_eq_2 Suc_diff_Suc)
  define bits' where "bits' = bits + IntegerBytes (list ! (i + b)) * 8 - IntegerBytes (list ! (i + b - 1)) * 8
    + IntegerBytes (list ! (i + b - 1) - list ! (i + b - 2)) * 8"
  have bits': "bits' = 8 * vbytes_len (run_values True list i (b + 1))"
  proof -
    have "IntegerBytes (list ! (i + b - 1)) \<le> vbytes_len (run_values True list i b)" by (simp add: run_values_def)
    then show ?thesis using run_values_grow [OF Suc.prems(1) j(2)] Suc.prems(3) unfolding bits'_def by linarith
  qed
  show ?case
  proof (cases "bits' + 32 > tot")
    case True
    then show ?thesis using Suc.prems(4) by (simp add: upt s get Let_def bits'_def [symmetric] del: One_nat_def)
  next
    case False
    let ?s = "if list ! (i + b) - list ! i > sc then (i + b - i + 1, i, list ! (i + b) - list ! i) else (bb, idx, sc)"
    have "good_run True tot list ?s" using Suc.prems(1,4) j False bits' by (auto simp: good_run_def s)
    moreover have "k = n - (i + (b + 1))" using Suc(2) by simp
    ultimately obtain s' where "delta_extend 32 tot list all_bits db i [i + (b + 1)..<n] bits' ?s = Some s'" "good_run True tot list s'"
      using Suc(1) [of "b + 1" bits' ?s] Suc.prems(1,2) bits' by auto
    then show ?thesis using False by (simp add: upt s get Let_def bits'_def [symmetric] del: One_nat_def)
  qed
qed

lemma VbyteDeltaComp_choose_good:
  assumes "4 \<le> length list" "length list < 2 ^ 32" "96 \<le> tot" "sorted_wrt (<) list"
    "length db = length list - 1" "\<forall>i < length list - 1. db ! i = IntegerBytes (list ! (i + 1) - list ! i) * 8"
  shows "\<exists>r. VbyteDeltaComp_choose tot list (GetAllBits list) db 32 = Some r \<and> good_run True tot list r"
  unfolding VbyteDeltaComp_choose_def
proof (rule foldo_establish [where Q = "\<lambda>s. snd (snd s) = 0"])
  fix i and s :: "nat \<times> nat \<times> u32"
  assume "i \<in> set [0..<wsub32 (length list) 3]" and s: "good_run True tot list s \<or> snd (snd s) = 0"
  then have i: "i + 3 < length list" using assms(1) by auto
  obtain bb idx sc where ss: "s = (bb, idx, sc)" by (cases s)
  have all: "length (GetAllBits list) = length list" "\<forall>i < length list. GetAllBits list ! i = IntegerBytes (list ! i) * 8"
    by (simp_all add: GetAllBits_def)
  let ?bits = "IntegerBytes (list ! i) * 8 + IntegerBytes (list ! (i + 1)) * 8"
  have bits: "?bits = 8 * vbytes_len (run_values True list i 2)" by (simp add: run_values_def mid_def)
  have room: "?bits + 32 \<le> tot"
    using IntegerBytes_bounds(2) [of "list ! i"] IntegerBytes_bounds(2) [of "list ! (i + 1)"] assms(3) by linarith
  have pos: "list ! i < list ! (i + 1)" using assms(4) i by (simp add: sorted_wrt_iff_nth_less)
  then have "list ! (i + 1) - list ! i \<noteq> 0" by auto
  then have "list ! (i + 1) - list ! i > 0" by (simp add: word_gt_0)
  moreover have "good_run True tot list (2, i, x)" for x using i room bits by (simp add: good_run_def)
  ultimately have g: "good_run True tot list (if list ! (i + 1) - list ! i > sc then (2, i, list ! (i + 1) - list ! i) else (bb, idx, sc))"
    using s ss by auto
  have "\<exists>s'. delta_extend 32 tot list (GetAllBits list) db i [i + 2..<length list - 1] ?bits
      (if list ! (i + 1) - list ! i > sc then (2, i, list ! (i + 1) - list ! i) else (bb, idx, sc)) = Some s' \<and> good_run True tot list s'"
    by (rule delta_extend_good [OF all assms(5,6) _ _ bits g]) (use i in simp_all)
  then show "\<exists>s'. (case s of (best_block, idx, best_score) \<Rightarrow> do {
         b \<leftarrow> aget (GetAllBits list) i; b' \<leftarrow> aget (GetAllBits list) (i + 1);
         let bits_num = b + b';
         if bits_num + 32 > tot then Some (best_block, idx, best_score)
         else do {
           hi \<leftarrow> aget list (i + 1); lo \<leftarrow> aget list i;
           let score = hi - lo;
           delta_extend 32 tot list (GetAllBits list) db i [i + 2..<length list - 1] bits_num
             (if score > best_score then (2, i, score) else (best_block, idx, best_score)) } }) = Some s' \<and> good_run True tot list s'"
    using all room i by (simp add: ss Let_def del: One_nat_def split del: if_split)
qed (use assms(1) in auto)

text \<open>What is written for a run.\<close>

lemma bind_fst: "do { (a, b) \<leftarrow> x; Some a } = map_option fst x"
  by (cases x) auto

lemma VbyteComp_DynamicEncode_put:
  assumes "VbyteComp_choose after tot list 32 = Some (b, idx, sc)" "good_run False tot list (b, idx, sc)"
  shows "VbyteComp_DynamicEncode after tot list e 32 = VbyteComp_put e 32 (run_values False list idx b) (GetAllBits (run_values False list idx b))"
proof -
  have b: "2 \<le> b" "idx + b \<le> length list" using assms(2) by (simp_all add: good_run_def)
  have put: "map_option fst (foldo (\<lambda>i (encode, shift). do {
         b \<leftarrow> aget (GetAllBits list) (i + idx); v \<leftarrow> aget list (i + idx); encode \<leftarrow> BlockSet encode shift b (compress v);
         Some (encode, shift + b) }) [1..<b - 1] (e, shift)) =
      VbyteComp_put e shift (map (\<lambda>i. list ! (i + idx)) [1..<b - 1]) (GetAllBits (map (\<lambda>i. list ! (i + idx)) [1..<b - 1]))" for e shift
    by (rule put_loop) (use b in \<open>auto simp: GetAllBits_def\<close>)
  have "aget (GetAllBits list) i = Some (IntegerBytes (list ! i) * 8)" "aget list i = Some (list ! i)" if "i < length list" for i
    using that by (simp_all add: GetAllBits_def)
  from this [of idx] this [of "idx + b - 1"] b show ?thesis
    unfolding VbyteComp_DynamicEncode_def assms(1) Let_def bind_fst put mid_nth [OF b, symmetric]
    by (simp add: run_values_def GetAllBits_def bind_fst put [unfolded mid_nth [OF b, symmetric] GetAllBits_def] del: One_nat_def)
qed

lemma VbyteDeltaComp_DynamicEncode_put:
  assumes "GetDeltaBits list = Some db" "length db = length list - 1" "\<forall>i < length list - 1. db ! i = IntegerBytes (list ! (i + 1) - list ! i) * 8"
    "VbyteDeltaComp_choose tot list (GetAllBits list) db 32 = Some (b, idx, sc)" "good_run True tot list (b, idx, sc)"
  shows "VbyteDeltaComp_DynamicEncode tot list e 32 = VbyteComp_put e 32 (run_values True list idx b) (GetAllBits (run_values True list idx b))"
proof -
  have b: "2 \<le> b" "idx + b \<le> length list" using assms(5) by (simp_all add: good_run_def)
  have ds: "map (\<lambda>i. list ! (i + idx) - list ! (i + idx - 1)) [1..<b - 1] = GetDeltas_loop (list ! idx) (mid list idx b)"
  proof (rule nth_equalityI)
    fix i assume "i < length (map (\<lambda>i. list ! (i + idx) - list ! (i + idx - 1)) [1..<b - 1])"
    then show "map (\<lambda>i. list ! (i + idx) - list ! (i + idx - 1)) [1..<b - 1] ! i = GetDeltas_loop (list ! idx) (mid list idx b) ! i"
      using b by (auto simp: nth_GetDeltas_loop mid_nth [OF b] nth_Cons split: nat.split)
  qed (use b in \<open>simp add: mid_nth\<close>)
  have put: "map_option fst (foldo (\<lambda>i (encode, shift). do {
         b \<leftarrow> aget db (idx + i - 1); v \<leftarrow> aget list (i + idx); w \<leftarrow> aget list (i + idx - 1);
         encode \<leftarrow> BlockSet encode shift b (compress (v - w)); Some (encode, shift + b) }) [1..<b - 1] (e, shift)) =
      VbyteComp_put e shift (GetDeltas_loop (list ! idx) (mid list idx b)) (GetAllBits (GetDeltas_loop (list ! idx) (mid list idx b)))" for e shift
    unfolding ds [symmetric]
  proof (rule put_loop)
    fix i e shift assume "i \<in> set [1..<b - 1]"
    then have i: "idx + i - 1 < length list - 1" "i + idx < length list" "i + idx - 1 < length list" "idx + i - 1 + 1 = i + idx" using b by auto
    then have "aget db (idx + i - 1) = Some (IntegerBytes (list ! (i + idx) - list ! (i + idx - 1)) * 8)"
      using assms(2,3) by (simp add: add.commute)
    then show "(case (e, shift) of (encode, shift) \<Rightarrow> do {
         b \<leftarrow> aget db (idx + i - 1); v \<leftarrow> aget list (i + idx); w \<leftarrow> aget list (i + idx - 1);
         encode \<leftarrow> BlockSet encode shift b (compress (v - w)); Some (encode, shift + b) }) = do {
         e \<leftarrow> BlockSet e shift (IntegerBytes (list ! (i + idx) - list ! (i + idx - 1)) * 8) (compress (list ! (i + idx) - list ! (i + idx - 1)));
         Some (e, shift + IntegerBytes (list ! (i + idx) - list ! (i + idx - 1)) * 8) }" using i by simp
  qed
  have "aget (GetAllBits list) i = Some (IntegerBytes (list ! i) * 8)" "aget list i = Some (list ! i)" if "i < length list" for i
    using that by (simp_all add: GetAllBits_def)
  from this [of idx] this [of "idx + b - 1"] b show ?thesis
    unfolding VbyteDeltaComp_DynamicEncode_def assms(1) Let_def bind.bind_lunit assms(4) bind_fst put
    by (simp add: run_values_def GetAllBits_def bind_fst put [unfolded GetAllBits_def] del: One_nat_def)
qed

end
