(* ===== verification/Compression_Vertex.thy ===== *)
theory Compression_Vertex
  imports Compression_Runs
begin

text \<open>One vertex of the compressed range encoding: what its search answers after \<^verbatim>\<open>EncodeVertex\<close>.\<close>

definition comp_config :: "config \<Rightarrow> bool" where
  "comp_config cfg \<longleftrightarrow> wf_config cfg \<and> 3 \<le> K_SIZE cfg \<and> VERTEX_SIZE cfg < 2 ^ 27"

text \<open>The blocks of \<^verbatim>\<open>BitsComp\<close> need room for three of them and for \<^verbatim>\<open>VERTEX_SIZE + 1\<close>, and a rest behind the last one;
  narrower blocks than eight bits cannot be read (with such a rest they do not divide a byte).\<close>

definition bits_config :: "config \<Rightarrow> bool" where
  "bits_config cfg \<longleftrightarrow> comp_config cfg \<and> 8 \<le> VERTEX_BIT_SIZE cfg \<and> VERTEX_SIZE cfg + 1 < 2 ^ VERTEX_BIT_SIZE cfg \<and>
     2 < RangeComp_max_bits cfg div VERTEX_BIT_SIZE cfg \<and> RangeComp_max_bits cfg mod VERTEX_BIT_SIZE cfg \<noteq> 0"

fun method_ok :: "CompMethod \<Rightarrow> config \<Rightarrow> bool" where
  "method_ok BITS cfg = bits_config cfg"
| "method_ok _ cfg = comp_config cfg"

lemma comp_configD:
  assumes "comp_config cfg"
  shows "wf_config cfg" "RangeComp_max_bits cfg = 32 * (K_SIZE cfg - 1)" "64 \<le> RangeComp_max_bits cfg"
    "PER_ENCODE_BIT_SIZE cfg = RangeComp_max_bits cfg + 32" "96 \<le> PER_ENCODE_BIT_SIZE cfg" "VERTEX_SIZE cfg < 2 ^ 27" "K_SIZE cfg * 4 \<le> 256"
    "PER_ENCODE_BIT_SIZE cfg = 8 * (K_SIZE cfg * 4)"
  using assms wf_configD(1,2) [of cfg] by (auto simp: comp_config_def RangeComp_max_bits_def)

lemma method_ok_comp: "method_ok m cfg \<Longrightarrow> comp_config cfg"
  by (cases m) (simp_all add: bits_config_def)

section \<open>The flag\<close>

lemma flag_written:
  assumes "comp_config cfg" "wf_enc cfg e"
  shows "\<exists>e0 fb. BlockSet (ClearBits e) 0 comp_shift f = Some e0 \<and> wf_enc cfg e0 \<and> bs_data e0 = fb @ replicate (K_SIZE cfg * 4 - 4) 0 \<and>
    length fb = 4 \<and> BlockGet e0 0 comp_shift = Some f \<and> (\<forall>q. 32 \<le> q \<longrightarrow> q < PER_ENCODE_BIT_SIZE cfg \<longrightarrow> \<not> bitat e0 q)"
proof -
  note cfg = comp_configD [OF assms(1)]
  have e: "wf_bs (ClearBits e)" "bs_size (ClearBits e) = K_SIZE cfg * 4" "bs_data (ClearBits e) = replicate (K_SIZE cfg * 4) 0"
    using assms(2) by (simp_all add: wf_enc_def ClearBits_def wf_bs_def)
  have f: "unat f < 2 ^ (8 * 4)" using unat_u32_lt [of f] by simp
  have k: "4 \<le> K_SIZE cfg * 4" using cfg(3,2) by simp
  from BlockSet_aligned [of "ClearBits e" 0 4 f] e cfg(7) k f obtain e0 where
    e0: "BlockSet (ClearBits e) 0 32 f = Some e0" "wf_bs e0" "bs_size e0 = K_SIZE cfg * 4"
    "bs_data e0 = map (\<lambda>i. ucast (drop_bit (8 * (4 - 1 - i)) f)) [0..<4] @ replicate (K_SIZE cfg * 4 - 4) 0" by (auto simp del: BlockSet_correct)
  have get: "BlockGet e0 0 32 = Some f"
    using bs.get_after_put [of "ClearBits e" 0 32 f] e k f e0(1) by (auto simp del: BlockSet_correct)
  have zero: "\<not> bitat e0 q" if "32 \<le> q" "q < PER_ENCODE_BIT_SIZE cfg" for q
  proof -
    have "4 \<le> q div 8" "q div 8 - 4 < K_SIZE cfg * 4 - 4" using that cfg(8) by linarith+
    then have "bs_data e0 ! (q div 8) = 0" by (subst e0(4)) (simp add: nth_append del: upt_rec_numeral)
    then show ?thesis by (simp add: bitat_def)
  qed
  define fb :: "u8 list" where "fb = map (\<lambda>i. ucast (drop_bit (8 * (4 - 1 - i)) f)) [0..<4]"
  have "length fb = 4" by (simp add: fb_def)
  then show ?thesis unfolding comp_shift_def wf_enc_def using e0 [folded fb_def] get zero by blast
qed

text \<open>What is written behind the flag does not touch it.\<close>

lemma GetFlag_same:
  assumes "wf_enc cfg e0" "wf_enc cfg e" "comp_config cfg" "BlockGet e0 0 comp_shift = Some f" "\<And>q. q < 32 \<Longrightarrow> bitat e q = bitat e0 q"
  shows "RangeComp_GetFlag e = Some (f \<noteq> 0)"
proof -
  have "BlockGet e 0 32 = BlockGet e0 0 32"
    using assms(1,2,5) comp_configD(5,8) [OF assms(3)] by (intro bs.get_cong) (auto simp: wf_enc_def)
  then show ?thesis using assms(4) by (simp add: RangeComp_GetFlag_def comp_shift_def)
qed

section \<open>The codecs with bytes\<close>

lemma vbyte_written:
  assumes "comp_config cfg" "wf_enc cfg e0" "bs_data e0 = fb @ replicate (K_SIZE cfg * 4 - 4) 0" "length fb = 4"
    "8 * vbytes_len xs \<le> RangeComp_max_bits cfg" "BlockGet e0 0 comp_shift = Some f"
  shows "\<exists>e. VbyteComp_put e0 32 xs (GetAllBits xs) = Some e \<and> wf_enc cfg e \<and> RangeComp_GetFlag e = Some (f \<noteq> 0) \<and>
    (\<exists>m. bs_data e = fb @ concat (map vbytes (xs @ replicate m 0)) \<and> PER_ENCODE_BIT_SIZE cfg div 8 = 4 + vbytes_len (xs @ replicate m 0))"
proof -
  note cfg = comp_configD [OF assms(1)]
  have len: "vbytes_len xs \<le> K_SIZE cfg * 4 - 4" using assms(5) cfg(2) by simp
  have k: "4 \<le> K_SIZE cfg * 4" using cfg(3,2) by simp
  have e0: "wf_bs e0" "bs_size e0 = K_SIZE cfg * 4" using assms(2) by (simp_all add: wf_enc_def)
  have "4 + vbytes_len xs \<le> K_SIZE cfg * 4" using len k by simp
  with VbyteComp_put_bytes [of e0 4 xs] e0 cfg(7) obtain e where
    e: "VbyteComp_put e0 32 xs (GetAllBits xs) = Some e" "wf_bs e" "bs_size e = bs_size e0"
    "bs_data e = fb @ concat (map vbytes xs) @ drop (4 + vbytes_len xs) (fb @ replicate (K_SIZE cfg * 4 - 4) 0)"
    using assms(3,4) by auto
  define m where "m = K_SIZE cfg * 4 - 4 - vbytes_len xs"
  have zeros: "concat (map vbytes (replicate m 0)) = replicate m 0" "vbytes_len (replicate m 0) = m" by (induction m) simp_all
  have data: "bs_data e = fb @ concat (map vbytes (xs @ replicate m 0))"
    using e(4) assms(4) zeros(1) by (simp add: m_def)
  have wf: "wf_enc cfg e" using e(2,3) e0 by (simp add: wf_enc_def)
  have "bitat e q = bitat e0 q" if "q < 32" for q
  proof (rule bitat_bytes_same)
    have "q div 8 < 4" using that by linarith
    then show "bs_data e ! (q div 8) = bs_data e0 ! (q div 8)" using assms(3,4) by (simp add: data nth_append)
  qed
  from GetFlag_same [OF assms(2) wf assms(1,6) this] have "RangeComp_GetFlag e = Some (f \<noteq> 0)" .
  moreover have "PER_ENCODE_BIT_SIZE cfg div 8 = 4 + vbytes_len (xs @ replicate m 0)" using len k cfg(8) zeros(2) by (simp add: m_def)
  ultimately show ?thesis using e(1) wf data by blast
qed

text \<open>What a codec promises of a list of neighbours.\<close>

definition comp_encodes :: "codec \<Rightarrow> config \<Rightarrow> bitset \<Rightarrow> u32 list \<Rightarrow> bool" where
  "comp_encodes c cfg e ns \<longleftrightarrow> wf_enc cfg e \<and> (\<exists>flag. RangeComp_GetFlag e = Some flag \<and>
     (\<forall>u. is_vertex cfg u \<longrightarrow> (\<exists>r. find_op c u e comp_shift flag = Some r \<and> answer_ok r (u \<in> set ns) \<and> (flag \<longrightarrow> r \<noteq> Uncertain))))"

lemma deltas_small:
  "sorted (pre # xs) \<Longrightarrow> \<forall>x \<in> set xs. unat x < B \<Longrightarrow> \<forall>d \<in> set (GetDeltas_loop pre xs). unat d < B"
proof (induction xs arbitrary: pre)
  case (Cons x xs)
  have "unat (x - pre) \<le> unat x" using Cons.prems(1) by (simp add: unat_sub)
  then show ?case using Cons by auto
qed simp

abbreviation written_values :: "bool \<Rightarrow> u32 list \<Rightarrow> u32 list" where
  "written_values delta ns \<equiv> (if delta then GetDeltas ns else ns)"

lemma comp_ids_small:
  assumes "comp_config cfg" "delta_ids cfg ns"
  shows "sorted_wrt (<) (0 # ns @ [vertex_id_upper cfg])" "\<forall>x \<in> set (0 # ns @ [vertex_id_upper cfg]). unat x < 2 ^ 28"
    "\<forall>x \<in> set (written_values delta ns). unat x < 2 ^ 28" "length ns < 2 ^ 27" "sorted ns"
    "is_vertex cfg u \<Longrightarrow> u \<in> set (0 # ns @ [vertex_id_upper cfg]) \<longleftrightarrow> u \<in> set ns"
proof -
  note cfg = comp_configD [OF assms(1)]
  have up: "unat (vertex_id_upper cfg) = VERTEX_SIZE cfg + 1" using wf_configD(16) [OF cfg(1)] .
  have ns: "sorted ns" "distinct ns" "length ns \<le> VERTEX_SIZE cfg" "\<And>x. x \<in> set ns \<Longrightarrow> 0 < x \<and> unat x \<le> VERTEX_SIZE cfg"
    using assms(2) by (auto simp: delta_ids_def good_ids_def)
  show "sorted ns" by (rule ns(1))
  show "length ns < 2 ^ 27" using ns(3) cfg(6) by simp
  have "sorted_wrt (<) ns" using ns(1,2) by (simp add: strict_sorted_iff)
  then show "sorted_wrt (<) (0 # ns @ [vertex_id_upper cfg])"
    using ns(4) up by (auto simp: sorted_wrt_append word_less_nat_alt less_Suc_eq_le)
  show small: "\<forall>x \<in> set (0 # ns @ [vertex_id_upper cfg]). unat x < 2 ^ 28" using ns(4) up cfg(6) by fastforce
  show "\<forall>x \<in> set (written_values delta ns). unat x < 2 ^ 28"
  proof (cases ns)
    case (Cons x xs)
    then show ?thesis using small ns(1) deltas_small [of x xs "2 ^ 28"] by (auto simp: GetDeltas_def)
  qed (simp add: GetDeltas_def)
  show "is_vertex cfg u \<Longrightarrow> u \<in> set (0 # ns @ [vertex_id_upper cfg]) \<longleftrightarrow> u \<in> set ns" using up by (auto simp: is_vertex_def)
qed

lemma vbyte_full:
  assumes "comp_config cfg" "delta_ids cfg ns" "wf_enc cfg e0" "bs_data e0 = fb @ replicate (K_SIZE cfg * 4 - 4) 0" "length fb = 4"
    "BlockGet e0 0 comp_shift = Some 1" "8 * vbytes_len (written_values delta ns) \<le> RangeComp_max_bits cfg"
    "find_op c = vbyte_find delta (PER_ENCODE_BIT_SIZE cfg)"
  shows "\<exists>e. VbyteComp_Encode (written_values delta ns) e0 comp_shift = Some e \<and> comp_encodes c cfg e ns \<and> RangeComp_GetFlag e = Some True"
proof -
  obtain e m where e: "VbyteComp_put e0 32 (written_values delta ns) (GetAllBits (written_values delta ns)) = Some e" "wf_enc cfg e" "RangeComp_GetFlag e = Some True"
    "bs_data e = fb @ concat (map vbytes (written_values delta ns @ replicate m 0))"
    "PER_ENCODE_BIT_SIZE cfg div 8 = 4 + vbytes_len (written_values delta ns @ replicate m 0)"
    using vbyte_written [OF assms(1,3,4,5,7,6)] by auto
  note ids = comp_ids_small [OF assms(1,2)]
  have small: "\<forall>x \<in> set (written_values delta ns @ replicate m 0). unat x < 2 ^ 28" using ids(3) [of delta] by auto
  have "find_op c u e comp_shift True = Some (if u \<in> set ns then Neighbor else NonNeighbor)" if "is_vertex cfg u" for u
  proof -
    have "0 < u" using that by (simp add: is_vertex_def)
    then have "scan (read_values delta 0 (written_values delta ns @ replicate m 0)) u \<longleftrightarrow> u \<in> set ns"
      using scan_values_full [OF ids(5), of u m] by simp
    then show ?thesis using vbyte_find_full [OF e(4) small assms(5) e(5), of delta u] by (simp add: assms(8) comp_shift_def)
  qed
  then show ?thesis using e by (auto simp: VbyteComp_Encode_def comp_encodes_def comp_shift_def)
qed

lemma vbyte_partial:
  assumes "comp_config cfg" "delta_ids cfg ns" "wf_enc cfg e0" "bs_data e0 = fb @ replicate (K_SIZE cfg * 4 - 4) 0" "length fb = 4"
    "BlockGet e0 0 comp_shift = Some 0" "good_run delta (PER_ENCODE_BIT_SIZE cfg) (0 # ns @ [vertex_id_upper cfg]) (b, idx, sc)"
    "dynamic = VbyteComp_put e0 32 (run_values delta (0 # ns @ [vertex_id_upper cfg]) idx b) (GetAllBits (run_values delta (0 # ns @ [vertex_id_upper cfg]) idx b))"
    "find_op c = vbyte_find delta (PER_ENCODE_BIT_SIZE cfg)"
  shows "\<exists>e. dynamic = Some e \<and> comp_encodes c cfg e ns"
proof -
  define list where "list = 0 # ns @ [vertex_id_upper cfg]"
  have b: "2 \<le> b" "idx + b \<le> length list" "8 * vbytes_len (run_values delta list idx b) \<le> RangeComp_max_bits cfg"
    using assms(7) comp_configD(4) [OF assms(1)] by (simp_all add: good_run_def list_def)
  note ids = comp_ids_small [OF assms(1,2), folded list_def]
  let ?x = "list ! idx" and ?y = "list ! (idx + b - 1)"
  have split: "list = take idx list @ ?x # mid list idx b @ ?y # drop (idx + b) list"
    using run_split [OF b(1,2)] by (simp add: mid_def)
  have mem: "?x \<in> set list" "?y \<in> set list" "set (mid list idx b) \<subseteq> set list"
    using arg_cong [OF split, of set] by auto
  have "sorted_wrt (<) (take idx list @ ?x # mid list idx b @ ?y # drop (idx + b) list)" using ids(1) split by simp
  then have srt: "sorted (?x # mid list idx b)" by (auto simp: sorted_wrt_append strict_sorted_iff less_imp_le)
  obtain e m where e: "dynamic = Some e" "wf_enc cfg e" "RangeComp_GetFlag e = Some False"
    "bs_data e = fb @ concat (map vbytes (run_values delta list idx b @ replicate m 0))"
    "PER_ENCODE_BIT_SIZE cfg div 8 = 4 + vbytes_len (run_values delta list idx b @ replicate m 0)"
    using vbyte_written [OF assms(1,3,4,5) b(3) assms(6)] assms(8) by (auto simp: list_def)
  define zs where "zs = (if delta then GetDeltas_loop ?x (mid list idx b) else mid list idx b) @ replicate m 0"
  have zs: "run_values delta list idx b @ replicate m 0 = ?x # ?y # zs" by (simp add: run_values_def zs_def)
  have small: "\<forall>z \<in> set (?x # ?y # zs). unat z < 2 ^ 28"
    using ids(2) mem deltas_small [OF srt, of "2 ^ 28"] by (auto simp: zs_def)
  have "\<exists>r. find_op c u e comp_shift False = Some r \<and> answer_ok r (u \<in> set ns)" if u: "is_vertex cfg u" for u
  proof -
    have "scan (read_values delta ?x zs) u \<longleftrightarrow> u \<in> set ns" if "?x < u" "u < ?y"
      using scan_values_run [OF srt that(1), of m] run_between [OF ids(1) b(1,2) that] ids(6) [OF u] by (simp add: zs_def)
    then show ?thesis using vbyte_find_partial [OF e(4) [unfolded zs] small assms(5) e(5) [unfolded zs], of delta u] ids(6) [OF u] mem(1,2)
      by (auto simp: assms(9) comp_shift_def not_less order.order_iff_strict)
  qed
  then show ?thesis using e by (auto simp: comp_encodes_def)
qed

section \<open>The codec with blocks\<close>

lemma BitsComp_scan_values:
  assumes "wf_bs e" "0 < v" "v \<le> 32" "tot \<le> 8 * bs_size e" "shift + v * k < tot" "tot \<le> shift + v * k + v" "readables shift v k"
  shows "BitsComp_scan e shift v tot value = Some (if scan (blocks_val e shift v k) value then Neighbor else NonNeighbor)"
  using assms(5-7)
proof (induction k arbitrary: shift)
  case 0
  then show ?case by (subst BitsComp_scan.simps) simp
next
  case (Suc k)
  have "shift + v + v * k < tot" using Suc.prems(1) by simp
  then have get: "BlockGet e shift v = Some (block_val e shift v)" "shift + v < tot"
    using assms(1-4) Suc.prems(3) by (auto simp: readables_Suc intro!: BlockGet_correct)
  have "BitsComp_scan e (shift + v) v tot value = Some (if scan (blocks_val e (shift + v) v k) value then Neighbor else NonNeighbor)"
    by (rule Suc.IH) (use Suc.prems in \<open>simp_all add: algebra_simps readables_Suc\<close>)
  with get assms(2) show ?case by (subst BitsComp_scan.simps) (auto simp: blocks_val_Suc)
qed

lemma bits_configD:
  assumes "bits_config cfg"
  defines "m \<equiv> RangeComp_max_bits cfg div VERTEX_BIT_SIZE cfg"
  shows "comp_config cfg" "2 < m" "0 < VERTEX_BIT_SIZE cfg" "VERTEX_BIT_SIZE cfg \<le> 32" "VERTEX_SIZE cfg + 1 < 2 ^ VERTEX_BIT_SIZE cfg"
    "32 + VERTEX_BIT_SIZE cfg * m < PER_ENCODE_BIT_SIZE cfg" "PER_ENCODE_BIT_SIZE cfg < 32 + VERTEX_BIT_SIZE cfg * m + VERTEX_BIT_SIZE cfg"
    "8 \<le> VERTEX_BIT_SIZE cfg"
proof -
  show c: "comp_config cfg" and "2 < m" and "VERTEX_SIZE cfg + 1 < 2 ^ VERTEX_BIT_SIZE cfg" "8 \<le> VERTEX_BIT_SIZE cfg" using assms by (simp_all add: bits_config_def)
  show v: "0 < VERTEX_BIT_SIZE cfg" "VERTEX_BIT_SIZE cfg \<le> 32" using wf_configD(3,4) comp_configD(1) [OF c] by blast+
  have eq: "VERTEX_BIT_SIZE cfg * m + RangeComp_max_bits cfg mod VERTEX_BIT_SIZE cfg = RangeComp_max_bits cfg" by (simp add: m_def)
  have "0 < RangeComp_max_bits cfg mod VERTEX_BIT_SIZE cfg" using assms(1) by (simp add: bits_config_def)
  moreover have "RangeComp_max_bits cfg mod VERTEX_BIT_SIZE cfg < VERTEX_BIT_SIZE cfg" using v(1) by simp
  ultimately show "32 + VERTEX_BIT_SIZE cfg * m < PER_ENCODE_BIT_SIZE cfg" "PER_ENCODE_BIT_SIZE cfg < 32 + VERTEX_BIT_SIZE cfg * m + VERTEX_BIT_SIZE cfg"
    using eq comp_configD(4) [OF c] by linarith+
qed

text \<open>A list written into an empty array: the blocks are the list and zeros.\<close>

lemma bits_written:
  assumes "comp_config cfg" "wf_enc cfg e0" "\<And>q. 32 \<le> q \<Longrightarrow> \<not> (q < 32 + VERTEX_BIT_SIZE cfg * length xs) \<Longrightarrow> q < PER_ENCODE_BIT_SIZE cfg \<Longrightarrow> \<not> bitat e0 q"
    "BlockGet e0 0 comp_shift = Some f" "\<forall>x \<in> set xs. unat x < 2 ^ VERTEX_BIT_SIZE cfg" "length xs \<le> m" "32 + VERTEX_BIT_SIZE cfg * m \<le> PER_ENCODE_BIT_SIZE cfg"
  shows "\<exists>e. put_blocks BlockSet e0 32 (VERTEX_BIT_SIZE cfg) xs = Some e \<and> wf_enc cfg e \<and> RangeComp_GetFlag e = Some (f \<noteq> 0) \<and>
    blocks_val e 32 (VERTEX_BIT_SIZE cfg) m = xs @ replicate (m - length xs) 0"
proof -
  let ?v = "VERTEX_BIT_SIZE cfg"
  note cfg = comp_configD [OF assms(1)]
  have v: "0 < ?v" "?v \<le> 32" using wf_configD(3,4) cfg(1) by blast+
  have e0: "wf_bs e0" "bs_size e0 = K_SIZE cfg * 4" using assms(2) by (simp_all add: wf_enc_def)
  have "?v * length xs \<le> ?v * m" using assms(6) by simp
  then have fit: "32 + ?v * length xs \<le> 8 * bs_size e0" unfolding e0(2) using assms(7) cfg(8) by linarith
  obtain e where e: "put_blocks BlockSet e0 32 ?v xs = Some e" "wf_bs e" "bs_size e = bs_size e0"
    "\<And>q. q < 8 * bs_size e0 \<Longrightarrow> \<not> (32 \<le> q \<and> q < 32 + ?v * length xs) \<Longrightarrow> bitat e q = bitat e0 q" "blocks_val e 32 ?v (length xs) = xs"
    using put_blocks_BlockSet [OF e0(1) fit v] e0(2) cfg(7) assms(5) by auto
  have wf: "wf_enc cfg e" using e(2,3) e0 by (simp add: wf_enc_def)
  have "RangeComp_GetFlag e = Some (f \<noteq> 0)"
    by (rule GetFlag_same [OF assms(2) wf assms(1,4)]) (use e(4) e0 cfg(5,8) in auto)
  moreover have "blocks_val e (32 + length xs * ?v) ?v (m - length xs) = replicate (m - length xs) 0"
  proof (rule blocks_val_zero)
    fix q assume q: "32 + length xs * ?v \<le> q" "q < 32 + length xs * ?v + (m - length xs) * ?v"
    have "length xs * ?v + (m - length xs) * ?v = ?v * m" using assms(6) by (simp add: add_mult_distrib [symmetric])
    then have "q < PER_ENCODE_BIT_SIZE cfg" using q(2) assms(7) by linarith
    then show "\<not> bitat e q" using q(1) e(4) [of q] assms(3) [of q] e0(2) cfg(8) by (simp add: mult.commute)
  qed
  then have "blocks_val e 32 ?v m = xs @ replicate (m - length xs) 0"
    using blocks_val_add [of e 32 ?v "length xs" "m - length xs"] assms(6) e(5) by simp
  ultimately show ?thesis using e(1) wf by blast
qed

lemma bits_full:
  assumes "bits_config cfg" "delta_ids cfg ns" "wf_enc cfg e0" "\<And>q. 32 \<le> q \<Longrightarrow> q < PER_ENCODE_BIT_SIZE cfg \<Longrightarrow> \<not> bitat e0 q"
    "BlockGet e0 0 comp_shift = Some 1" "length ns \<le> RangeComp_max_bits cfg div VERTEX_BIT_SIZE cfg"
    "find_op c = BitsComp_Find (PER_ENCODE_BIT_SIZE cfg) (VERTEX_BIT_SIZE cfg)"
  shows "\<exists>e. BitsComp_Encode (VERTEX_BIT_SIZE cfg) ns e0 comp_shift = Some e \<and> comp_encodes c cfg e ns \<and> RangeComp_GetFlag e = Some True"
proof -
  let ?m = "RangeComp_max_bits cfg div VERTEX_BIT_SIZE cfg"
  note cfg = bits_configD [OF assms(1)]
  have "\<forall>x \<in> set ns. unat x < 2 ^ VERTEX_BIT_SIZE cfg" using assms(2) by (simp add: delta_ids_def good_ids_def)
  then obtain e where e: "put_blocks BlockSet e0 32 (VERTEX_BIT_SIZE cfg) ns = Some e" "wf_enc cfg e" "RangeComp_GetFlag e = Some True"
    "blocks_val e 32 (VERTEX_BIT_SIZE cfg) ?m = ns @ replicate (?m - length ns) 0"
    using bits_written [OF cfg(1) assms(3) _ assms(5) _ assms(6)] assms(4) cfg(6) by auto
  have "find_op c u e comp_shift True = Some (if u \<in> set ns then Neighbor else NonNeighbor)" if "is_vertex cfg u" for u
  proof -
    have "scan (ns @ replicate (?m - length ns) 0) u \<longleftrightarrow> u \<in> set ns"
      using that comp_ids_small(5) [OF cfg(1) assms(2)] by (simp add: is_vertex_def scan_append_small scan_sorted)
    then show ?thesis
      using BitsComp_scan_values [of e "VERTEX_BIT_SIZE cfg" "PER_ENCODE_BIT_SIZE cfg" 32 ?m u] e(2,4) cfg(3,4,6-8) comp_configD(8) [OF cfg(1)]
      by (simp add: assms(7) BitsComp_Find_def comp_shift_def wf_enc_def)
  qed
  then show ?thesis using e by (auto simp: BitsComp_Encode_def comp_encodes_def comp_shift_def)
qed

end
