(* ===== verification/Compression_Spec.thy ===== *)
theory Compression_Spec
  imports Compression_Vertex Delta_Vend Range_Spec
begin

text \<open>
  The compressed range encoding is an encoder that peels, for all three codecs, and its construction is sound. Faults: the
  last block of \<^verbatim>\<open>BitsComp\<close> when the blocks fill the array, and the update that \<^verbatim>\<open>RangeCompEncode\<close> inherits.
\<close>

section \<open>A run of blocks\<close>

lemma BitsComp_choose_ok:
  assumes "sorted_wrt (<) list" "2 \<le> m" "m \<le> length list" "length list < 2 ^ 31" "m < 2 ^ 31"
  shows "\<exists>sc idx. BitsComp_choose m list = Some (sc, int idx) \<and> idx + m \<le> length list"
proof -
  have range: "(wsub32 (length list) m + 1) mod 2 ^ 32 = length list - m + 1" using assms(3,4) by simp
  have "\<exists>r. BitsComp_choose m list = Some r \<and> (0 \<le> snd r \<and> snd r + int m \<le> int (length list))"
    unfolding BitsComp_choose_def range
  proof (rule foldo_establish [where Q = "\<lambda>s. fst s = 0"])
    fix i and s :: "u32 \<times> int"
    assume "i \<in> set [0..<length list - m + 1]" and s: "(0 \<le> snd s \<and> snd s + int m \<le> int (length list)) \<or> fst s = 0"
    then have i: "i + m - 1 < length list" "i < i + m - 1" "i + m \<le> length list" using assms(2,3) by auto
    then have "list ! i < list ! (i + m - 1)" using assms(1) by (simp add: sorted_wrt_iff_nth_less)
    then have "list ! (i + m - 1) - list ! i \<noteq> 0" by auto
    then have "0 < list ! (i + m - 1) - list ! i" by (simp add: word_gt_0)
    then show "\<exists>s'. (case s of (max_score, idx) \<Rightarrow> do {
         hi \<leftarrow> aget list (wsub32 (i + m) 1); lo \<leftarrow> aget list i;
         let score = hi - lo;
         Some (if max_score < score then (score, int i) else (max_score, idx)) }) = Some s' \<and> (0 \<le> snd s' \<and> snd s' + int m \<le> int (length list))"
      using i s assms(2) by (cases s) (auto simp: Let_def)
  qed (use assms(3) in auto)
  then obtain sc idx where "BitsComp_choose m list = Some (sc, idx)" "0 \<le> idx" "idx + int m \<le> int (length list)" by auto
  moreover from this obtain k where "idx = int k" by (metis nonneg_int_cases)
  ultimately show ?thesis by auto
qed

lemma bits_put_loop:
  "map_option fst (foldo (\<lambda>i (e, shift). do { v \<leftarrow> Some (h i); e \<leftarrow> BlockSet e shift n v; Some (e, shift + n) }) js (e, shift)) =
     put_blocks BlockSet e shift n (map h js)"
proof (induction js arbitrary: e shift)
  case (Cons i js)
  then show ?case by (cases "BlockSet e shift n (h i)") simp_all
qed simp

text \<open>The two writes before the loop are overwritten by it; what remains is the inside of the run.\<close>

lemma bits_dynamic:
  assumes "bits_config cfg" "wf_enc cfg e0" "\<And>q. 32 \<le> q \<Longrightarrow> q < PER_ENCODE_BIT_SIZE cfg \<Longrightarrow> \<not> bitat e0 q" "BlockGet e0 0 comp_shift = Some 0"
    "sorted_wrt (<) list" "\<forall>x \<in> set list. unat x < 2 ^ VERTEX_BIT_SIZE cfg" "length list < 2 ^ 31"
    "m = RangeComp_max_bits cfg div VERTEX_BIT_SIZE cfg" "m \<le> length list"
  shows "\<exists>e idx. BitsComp_DynamicEncode (VERTEX_BIT_SIZE cfg) m list e0 32 = Some e \<and> wf_enc cfg e \<and> RangeComp_GetFlag e = Some False \<and>
    idx + m \<le> length list \<and> blocks_val e 32 (VERTEX_BIT_SIZE cfg) m = mid list idx m @ [0, 0]"
proof -
  let ?v = "VERTEX_BIT_SIZE cfg"
  note cfg = bits_configD [OF assms(1), folded assms(8)]
  note comp = comp_configD [OF cfg(1)]
  have m: "2 \<le> m" "m < 2 ^ 31" using cfg(2) assms(7,9) by linarith+
  obtain sc idx where idx: "BitsComp_choose m list = Some (sc, int idx)" "idx + m \<le> length list"
    using BitsComp_choose_ok [OF assms(5) m(1) assms(9,7) m(2)] by blast
  have len: "length (mid list idx m) = m - 2" using idx(2) by (simp add: mid_def)
  have e0: "wf_bs e0" "bs_size e0 = K_SIZE cfg * 4" using assms(2) by (simp_all add: wf_enc_def)
  have "?v * 1 \<le> ?v * m" using m(1) by (intro mult_le_mono2) simp
  then have fit: "32 + ?v \<le> 8 * bs_size e0" unfolding e0(2) using cfg(6) comp(8) by linarith
  have small: "unat (list ! i) < 2 ^ ?v" if "i < length list" for i using that assms(6) by simp
  have lim: "32 < (2048 :: nat)" by simp
  obtain e1 where e1: "BlockSet e0 32 ?v (list ! idx) = Some e1" "bs.same_outside 32 ?v e0 e1"
    using bs.put_holds [OF e0(1) fit cfg(3,4) lim, of "list ! idx"] small [of idx] idx(2) m(1) by auto
  then have wf1: "wf_bs e1" "32 + ?v \<le> 8 * bs_size e1" using fit by (simp_all add: bs.same_outside_def)
  obtain e2 where e2: "BlockSet e1 32 ?v (list ! (idx + m - 1)) = Some e2" "bs.same_outside 32 ?v e1 e2"
    using bs.put_holds [OF wf1 cfg(3,4) lim, of "list ! (idx + m - 1)"] small [of "idx + m - 1"] idx(2) m(1) by auto
  have out: "wf_enc cfg e2" "\<And>q. q < 8 * bs_size e0 \<Longrightarrow> \<not> (32 \<le> q \<and> q < 32 + ?v) \<Longrightarrow> bitat e2 q = bitat e0 q"
    using e0 e1(2) e2(2) by (auto simp: bs.same_outside_def wf_enc_def)
  have get: "BlockGet e2 0 comp_shift = Some 0"
    using bs.get_cong [of e0 e2 0 32] out e0 assms(4) comp(5,8) by (auto simp: wf_enc_def comp_shift_def)
  have zero: "\<not> bitat e2 q" if "32 \<le> q" "\<not> q < 32 + ?v * length (mid list idx m)" "q < PER_ENCODE_BIT_SIZE cfg" for q
  proof -
    have "?v * 1 \<le> ?v * length (mid list idx m)" using cfg(2) len by (intro mult_le_mono2) simp
    then have "\<not> q < 32 + ?v" using that(2) by linarith
    then show ?thesis using that assms(3) [of q] out(2) [of q] comp(8) e0(2) by simp
  qed
  have "\<forall>x \<in> set (mid list idx m). unat x < 2 ^ ?v" using assms(6) by (auto simp: mid_def dest: in_set_takeD in_set_dropD)
  with bits_written [of cfg e2 "mid list idx m" 0 m] zero get cfg(1) out(1) len cfg(6) obtain e where
    e: "put_blocks BlockSet e2 32 ?v (mid list idx m) = Some e" "wf_enc cfg e" "RangeComp_GetFlag e = Some False"
    "blocks_val e 32 ?v m = mid list idx m @ replicate 2 0" using m(1) by auto
  have "foldo (\<lambda>i (encode, shift). do { v \<leftarrow> aget list (i + idx); encode \<leftarrow> BlockSet encode shift ?v v; Some (encode, shift + ?v) }) [1..<m - 1] (e2, 32) =
      foldo (\<lambda>i (encode, shift). do { v \<leftarrow> Some (list ! (i + idx)); encode \<leftarrow> BlockSet encode shift ?v v; Some (encode, shift + ?v) }) [1..<m - 1] (e2, 32)"
    by (rule foldo_cong) (use idx(2) in auto)
  then have "BitsComp_DynamicEncode ?v m list e0 32 = Some e"
    using bits_put_loop [where n = ?v and h = "\<lambda>i. list ! (i + idx)" and js = "[1..<m - 1]" and e = e2 and shift = 32] idx cfg(2) e1(1) e2(1) e(1)
    by (auto simp: BitsComp_DynamicEncode_def Let_def mid_nth [OF m(1) idx(2)] bind_fst)
  then show ?thesis using e idx(2) by (auto simp: numeral_2_eq_2)
qed

lemma bits_partial:
  assumes "bits_config cfg" "delta_ids cfg ns" "wf_enc cfg e0" "\<And>q. 32 \<le> q \<Longrightarrow> q < PER_ENCODE_BIT_SIZE cfg \<Longrightarrow> \<not> bitat e0 q"
    "BlockGet e0 0 comp_shift = Some 0" "m = RangeComp_max_bits cfg div VERTEX_BIT_SIZE cfg" "m \<le> length ns"
    "find_op c = BitsComp_Find (PER_ENCODE_BIT_SIZE cfg) (VERTEX_BIT_SIZE cfg)"
  shows "\<exists>e. BitsComp_DynamicEncode (VERTEX_BIT_SIZE cfg) m (0 # ns @ [vertex_id_upper cfg]) e0 comp_shift = Some e \<and> comp_encodes c cfg e ns"
proof -
  let ?v = "VERTEX_BIT_SIZE cfg"
  define list where "list = 0 # ns @ [vertex_id_upper cfg]"
  note cfg = bits_configD [OF assms(1), folded assms(6)]
  note comp = comp_configD [OF cfg(1)]
  note ids = comp_ids_small [OF cfg(1) assms(2), folded list_def]
  have "\<forall>x \<in> set list. unat x < 2 ^ ?v"
    using assms(2) cfg(5) wf_configD(16) [OF comp(1)] by (auto simp: list_def delta_ids_def good_ids_def)
  moreover have "length list < 2 ^ 31" "m \<le> length list" using ids(4) assms(7) by (simp_all add: list_def)
  ultimately obtain e idx where e: "BitsComp_DynamicEncode ?v m list e0 32 = Some e" "wf_enc cfg e" "RangeComp_GetFlag e = Some False"
    "idx + m \<le> length list" "blocks_val e 32 ?v m = mid list idx m @ [0, 0]"
    using bits_dynamic [OF assms(1,3,4,5) ids(1) _ _ assms(6)] by blast
  have "m = (m - 3) + 3" using cfg(2) by simp
  then obtain k where k: "m = k + 3" by blast
  have val: "block_val e 32 ?v = list ! (idx + 1)" "block_val e (32 + ?v) ?v = (if k = 0 then 0 else list ! (idx + 2))"
    using arg_cong [OF e(5), of "\<lambda>l. l ! 0"] arg_cong [OF e(5), of "\<lambda>l. l ! 1"] e(4) by (auto simp: k mid_def nth_append)
  have rest: "blocks_val e (32 + ?v + ?v) ?v (k + 1) = drop 2 (mid list idx m @ [0, 0])"
  proof -
    have "blocks_val e 32 ?v m = blocks_val e 32 ?v 2 @ blocks_val e (32 + ?v + ?v) ?v (k + 1)"
      using blocks_val_add [of e 32 ?v 2 "k + 1"] by (simp add: k ac_simps numeral_3_eq_3)
    then show ?thesis using e(5) by (metis append_eq_conv_conj length_blocks_val)
  qed
  have mids: "set (mid list idx m) \<subseteq> set list" by (auto simp: mid_def dest: in_set_takeD in_set_dropD)
  have get: "BlockGet e 32 ?v = Some (block_val e 32 ?v)" "BlockGet e (32 + ?v) ?v = Some (block_val e (32 + ?v) ?v)"
    using e(2) cfg(3,4,6,8) comp(8) by (auto simp: k wf_enc_def algebra_simps intro!: BlockGet_correct)
  have srch: "BitsComp_scan e (32 + ?v + ?v) ?v (PER_ENCODE_BIT_SIZE cfg) u =
      Some (if scan (drop 2 (mid list idx m @ [0, 0])) u then Neighbor else NonNeighbor)" for u
  proof -
    have "32 + ?v + ?v + ?v * (k + 1) < PER_ENCODE_BIT_SIZE cfg" "PER_ENCODE_BIT_SIZE cfg \<le> 32 + ?v + ?v + ?v * (k + 1) + ?v"
      using cfg(6,7) by (simp_all add: k algebra_simps)
    from BitsComp_scan_values [OF _ cfg(3,4) _ this, of e u] e(2) comp(8) cfg(8) show ?thesis unfolding rest by (simp add: wf_enc_def)
  qed
  have "\<exists>r. find_op c u e comp_shift False = Some r \<and> answer_ok r (u \<in> set ns)" if u: "is_vertex cfg u" for u
  proof -
    have u0: "0 < u" using u by (simp add: is_vertex_def)
    have inner: "u \<notin> set list" if "list ! (idx + 1) < u" "u < list ! (idx + 2)" "k \<noteq> 0"
      using run_between [OF ids(1), of 2 "idx + 1" u] that e(4) by (simp add: k mid_def)
    have "\<not> scan (drop 2 (mid list idx m @ [0, 0])) u" if "u \<notin> set list"
    proof
      assume "scan (drop 2 (mid list idx m @ [0, 0])) u"
      from in_set_dropD [OF scan_imp_mem [OF this]] show False using that mids u0 by auto
    qed
    moreover have "list ! (idx + 1) \<in> set list" "k \<noteq> 0 \<Longrightarrow> list ! (idx + 2) \<in> set list" using e(4) by (simp_all add: k)
    ultimately show ?thesis using inner u0 ids(6) [OF u] get val srch [of u]
      by (auto simp: assms(8) BitsComp_Find_def comp_shift_def Let_def not_less order.order_iff_strict simp del: drop_append)
  qed
  then show ?thesis using e(1-3) by (auto simp: comp_encodes_def list_def comp_shift_def)
qed

section \<open>The vertex\<close>

lemma wrap_small: "8 * vbytes_len xs < 2 ^ 32 \<Longrightarrow> VbyteComp_GetRequiredBits xs = 8 * vbytes_len xs"
  by (simp add: VbyteComp_GetRequiredBits_def vbytes_len_def sum_list_const_mult)

lemma vbytes_len_le: "vbytes_len xs \<le> 4 * length xs"
  using sum_list_mono [of xs IntegerBytes "\<lambda>_. 4"] by (simp add: vbytes_len_def sum_list_triv)

lemma length_GetDeltas [simp]: "length (GetDeltas ns) = length ns"
  by (cases ns) (simp_all add: GetDeltas_def)

text \<open>Whatever stands behind the vectors: encoding a vertex has a result, and its search is right.\<close>

lemma comp_vertex:
  assumes "method_ok m cfg" "delta_ids cfg ns" "wf_enc cfg e" "c = RangeCompEncode_codec cfg after m"
  shows "\<exists>e'. (if required_bits c ns \<le> RangeComp_max_bits cfg
       then do { e \<leftarrow> BlockSet (ClearBits e) 0 comp_shift 1; encode_list_op c ns e comp_shift }
       else do { e \<leftarrow> BlockSet (ClearBits e) 0 comp_shift 0; dynamic_encode c (0 # ns @ [vertex_id_upper cfg]) e comp_shift }) = Some e' \<and>
     comp_encodes c cfg e' ns \<and> (required_bits c ns \<le> RangeComp_max_bits cfg \<longrightarrow> RangeComp_GetFlag e' = Some True)"
proof -
  define list where "list = 0 # ns @ [vertex_id_upper cfg]"
  have ok: "comp_config cfg" by (rule method_ok_comp [OF assms(1)])
  note cfg = comp_configD [OF ok]
  note ids = comp_ids_small [OF ok assms(2), folded list_def]
  obtain e1 fb1 where 1: "BlockSet (ClearBits e) 0 comp_shift 1 = Some e1" "wf_enc cfg e1" "bs_data e1 = fb1 @ replicate (K_SIZE cfg * 4 - 4) 0"
    "length fb1 = 4" "BlockGet e1 0 comp_shift = Some 1" "\<And>q. 32 \<le> q \<Longrightarrow> q < PER_ENCODE_BIT_SIZE cfg \<Longrightarrow> \<not> bitat e1 q"
    using flag_written [OF ok assms(3)] by blast
  obtain e0 fb0 where 0: "BlockSet (ClearBits e) 0 comp_shift 0 = Some e0" "wf_enc cfg e0" "bs_data e0 = fb0 @ replicate (K_SIZE cfg * 4 - 4) 0"
    "length fb0 = 4" "BlockGet e0 0 comp_shift = Some 0" "\<And>q. 32 \<le> q \<Longrightarrow> q < PER_ENCODE_BIT_SIZE cfg \<Longrightarrow> \<not> bitat e0 q"
    using flag_written [OF ok assms(3)] by blast
  note full = vbyte_full [OF ok assms(2) 1(2-5)] and partial = vbyte_partial [OF ok assms(2) 0(2-5), folded list_def]
  have l: "2 \<le> length list" "length list < 2 ^ 32" using ids(4) by (simp_all add: list_def)
  have req: "VbyteComp_GetRequiredBits (written_values delta ns) = 8 * vbytes_len (written_values delta ns)" for delta
    using vbytes_len_le [of "written_values delta ns"] ids(4) by (intro wrap_small) (auto split: if_splits)
  show ?thesis
  proof (cases m)
    case BITS
    have b: "bits_config cfg" using assms(1) BITS by simp
    note bits = bits_configD [OF b]
    have "length ns * VERTEX_BIT_SIZE cfg \<le> length ns * 32" using bits(4) by simp
    also have "\<dots> < 2 ^ 32" using ids(4) by simp
    finally have "length ns * VERTEX_BIT_SIZE cfg < 2 ^ 32" .
    then have r: "required_bits c ns = length ns * VERTEX_BIT_SIZE cfg" by (simp add: assms(4) BITS Let_def BitsComp_GetRequiredBits_def)
    have iff: "required_bits c ns \<le> RangeComp_max_bits cfg \<longleftrightarrow> length ns \<le> RangeComp_max_bits cfg div VERTEX_BIT_SIZE cfg"
      using bits(3) by (simp add: r less_eq_div_iff_mult_less_eq)
    have ops: "find_op c = BitsComp_Find (PER_ENCODE_BIT_SIZE cfg) (VERTEX_BIT_SIZE cfg)" "encode_list_op c = BitsComp_Encode (VERTEX_BIT_SIZE cfg)"
      "dynamic_encode c = BitsComp_DynamicEncode (VERTEX_BIT_SIZE cfg) (RangeComp_max_bits cfg div VERTEX_BIT_SIZE cfg)"
      by (simp_all add: assms(4) BITS Let_def RangeComp_max_bits_def)
    show ?thesis unfolding iff
      using bits_full [OF b assms(2) 1(2,6,5) _ ops(1)] bits_partial [OF b assms(2) 0(2,6,5) refl _ ops(1)] 1(1) 0(1) ops(2,3)
      by (cases "length ns \<le> RangeComp_max_bits cfg div VERTEX_BIT_SIZE cfg") auto
  next
    case Vbyte
    then have ops: "required_bits c ns = 8 * vbytes_len ns" "find_op c = vbyte_find False (PER_ENCODE_BIT_SIZE cfg)"
      "encode_list_op c = VbyteComp_Encode" "dynamic_encode c = VbyteComp_DynamicEncode after (PER_ENCODE_BIT_SIZE cfg)"
      using req [of False] by (simp_all add: assms(4) VbyteComp_Find_def)
    obtain b idx sc where r: "VbyteComp_choose after (PER_ENCODE_BIT_SIZE cfg) list 32 = Some (b, idx, sc)" "good_run False (PER_ENCODE_BIT_SIZE cfg) list (b, idx, sc)"
      using VbyteComp_choose_good [OF l cfg(5)] by (metis prod_cases3)
    from partial [OF r(2) VbyteComp_DynamicEncode_put [OF r] ops(2)] full [of False c] ops 1(1) 0(1) show ?thesis
      unfolding list_def [symmetric] by (auto simp: comp_shift_def)
  next
    case Delta
    then have ops: "required_bits c ns = 8 * vbytes_len (GetDeltas ns)" "find_op c = vbyte_find True (PER_ENCODE_BIT_SIZE cfg)"
      "encode_list_op c ns = VbyteComp_Encode (GetDeltas ns)" "dynamic_encode c = VbyteDeltaComp_DynamicEncode (PER_ENCODE_BIT_SIZE cfg)"
      using req [of True] by (auto simp: assms(4) VbyteDeltaComp_Find_def VbyteDeltaComp_Encode_def VbyteDeltaComp_GetRequiredBits_def intro!: ext)
    have "\<exists>e'. dynamic_encode c list e0 comp_shift = Some e' \<and> comp_encodes c cfg e' ns" if "RangeComp_max_bits cfg < required_bits c ns"
    proof -
      have four: "4 \<le> length list" using that ops(1) cfg(3) vbytes_len_le [of "GetDeltas ns"] by (simp add: list_def)
      obtain db where db: "GetDeltaBits list = Some db" "length db = length list - 1" "\<forall>i < length list - 1. db ! i = IntegerBytes (list ! (i + 1) - list ! i) * 8"
        using GetDeltaBits_nth [OF l(1)] by blast
      obtain b idx sc where r: "VbyteDeltaComp_choose (PER_ENCODE_BIT_SIZE cfg) list (GetAllBits list) db 32 = Some (b, idx, sc)"
        "good_run True (PER_ENCODE_BIT_SIZE cfg) list (b, idx, sc)"
        using VbyteDeltaComp_choose_good [OF four l(2) cfg(5) ids(1) db(2,3)] by (metis prod_cases3)
      from partial [OF r(2) VbyteDeltaComp_DynamicEncode_put [OF db r] ops(2)] show ?thesis by (simp add: ops(4) comp_shift_def)
    qed
    with full [of True c] ops(1-3) 1(1) 0(1) show ?thesis unfolding list_def [symmetric] by (auto simp: not_le)
  qed
qed

lemma EncodeVertex_comp:
  assumes "method_ok m cfg" "wf_encoding cfg st" "is_vertex cfg v" "delta_ids cfg ns" "c = RangeCompEncode_codec cfg after m"
  shows "\<exists>e. RangeComp_EncodeVertex c cfg v ns st = Some (st[unat v := e]) \<and> comp_encodes c cfg e ns \<and>
    (required_bits c ns \<le> RangeComp_max_bits cfg \<longrightarrow> RangeComp_GetFlag e = Some True)"
proof -
  have v: "unat v < length st" by (rule is_vertex_index [OF assms(2,3)])
  then have "wf_enc cfg (st ! unat v)" using assms(2) by (simp add: wf_encoding_def)
  from comp_vertex [OF assms(1,4) this assms(5)] show ?thesis
    using v by (cases "required_bits c ns \<le> RangeComp_max_bits cfg") (auto simp: RangeComp_EncodeVertex_def Let_def bind_eq_Some_conv)
qed

lemma NonNeighborTest_comp:
  assumes "comp_encodes c cfg (st ! unat v) ns" "unat v < length st" "is_vertex cfg u"
  shows "\<exists>r. RangeComp_NonNeighborTest c st v u = Some r \<and> answer_ok r (u \<in> set ns) \<and>
    (RangeComp_GetFlag (st ! unat v) = Some True \<longrightarrow> r = (if u \<in> set ns then Neighbor else NonNeighbor))"
proof -
  obtain flag r where "RangeComp_GetFlag (st ! unat v) = Some flag" "find_op c u (st ! unat v) comp_shift flag = Some r"
    "answer_ok r (u \<in> set ns)" "flag \<longrightarrow> r \<noteq> Uncertain"
    using assms(1,3) by (auto simp: comp_encodes_def)
  then show ?thesis using assms(2) by (cases r) (auto simp: RangeComp_NonNeighborTest_def)
qed

interpretation comp: peel_encoder "\<lambda>c. c = cfg \<and> method_ok m cfg" delta_ids "\<lambda>cfg e. True"
  "\<lambda>cfg v e ns. comp_encodes (RangeCompEncode_codec cfg after m) cfg e ns"
  "\<lambda>cfg. RangeComp_EncodeVertex (RangeCompEncode_codec cfg after m) cfg"
  "\<lambda>cfg. RangeComp_NonNeighborTest (RangeCompEncode_codec cfg after m)"
  "\<lambda>ns. Some (required_bits (RangeCompEncode_codec cfg after m) ns)" "required_bits (RangeCompEncode_codec cfg after m)"
  RangeComp_max_bits "\<lambda>e. RangeComp_GetFlag e = Some True" for cfg m after
proof
  show "wf_config c" if "c = cfg \<and> method_ok m cfg" for c using that method_ok_comp comp_configD(1) by blast
next
  fix c st v ns
  assume "c = cfg \<and> method_ok m cfg" "wf_encoding c st" "is_vertex c v" "delta_ids c ns"
  then show "\<exists>e. RangeComp_EncodeVertex (RangeCompEncode_codec c after m) c v ns st = Some (st[unat v := e]) \<and> wf_enc c e \<and>
      comp_encodes (RangeCompEncode_codec c after m) c e ns"
    using EncodeVertex_comp [of m c st v ns "RangeCompEncode_codec c after m" after] by (auto simp: comp_encodes_def)
next
  fix c st v u ns
  assume "wf_encoding c st" "is_vertex c v" "is_vertex c u" "comp_encodes (RangeCompEncode_codec c after m) c (st ! unat v) ns"
  then show "\<exists>r. RangeComp_NonNeighborTest (RangeCompEncode_codec c after m) st v u = Some r \<and> answer_ok r (u \<in> set ns)"
    using NonNeighborTest_comp [OF _ is_vertex_index] by blast
next
  fix c st v ns st'
  assume "c = cfg \<and> method_ok m cfg" "wf_encoding c st" "is_vertex c v" "delta_ids c ns"
    "required_bits (RangeCompEncode_codec cfg after m) ns \<le> RangeComp_max_bits c"
    "RangeComp_EncodeVertex (RangeCompEncode_codec c after m) c v ns st = Some st'"
  then show "RangeComp_GetFlag (st' ! unat v) = Some True"
    using EncodeVertex_comp [of m c st v ns "RangeCompEncode_codec c after m" after] is_vertex_index by auto
next
  fix c ns P assume "delta_ids c ns"
  then show "delta_ids c (filter P ns)"
    using order.trans [OF length_filter_le] by (auto simp: delta_ids_def good_ids_def intro: sorted_wrt_filter)
qed simp_all

section \<open>The whole construction\<close>

text \<open>A test of a pair of which at least one end holds the edge, and a complete one if only one does.\<close>

lemma comp_pair:
  assumes "comp_encodes c cfg (st ! unat v) a" "comp_encodes c cfg (st ! unat u) b" "unat v < length st" "unat u < length st"
    "is_vertex cfg v" "is_vertex cfg u" "u \<in> set a \<Longrightarrow> adj" "v \<in> set b \<Longrightarrow> adj"
    "adj \<Longrightarrow> u \<notin> set a \<Longrightarrow> RangeComp_GetFlag (st ! unat u) = Some True \<and> v \<in> set b"
    "adj \<Longrightarrow> v \<notin> set b \<Longrightarrow> RangeComp_GetFlag (st ! unat v) = Some True \<and> u \<in> set a"
  shows "\<exists>r. RangeComp_NEpairTest c st v u = Some r \<and> answer_ok r adj"
proof -
  obtain r1 r2 where r: "RangeComp_NonNeighborTest c st v u = Some r1" "answer_ok r1 (u \<in> set a)"
      "RangeComp_GetFlag (st ! unat v) = Some True \<longrightarrow> r1 = (if u \<in> set a then Neighbor else NonNeighbor)"
    "RangeComp_NonNeighborTest c st u v = Some r2" "answer_ok r2 (v \<in> set b)"
      "RangeComp_GetFlag (st ! unat u) = Some True \<longrightarrow> r2 = (if v \<in> set b then Neighbor else NonNeighbor)"
    using NonNeighborTest_comp [OF assms(1,3,6)] NonNeighborTest_comp [OF assms(2,4,5)] by blast
  have "answer_ok (if r1 < r2 then r1 else r2) adj"
  proof -
    consider "adj \<longleftrightarrow> u \<in> set a" "adj \<longleftrightarrow> v \<in> set b" | "adj" "u \<notin> set a" | "adj" "v \<notin> set b" using assms(7,8) by blast
    then show ?thesis
    proof cases
      case 1
      then show ?thesis using r(2,5) by simp
    next
      case 2
      then have "r2 = Neighbor" using r(6) assms(9) by auto
      then show ?thesis using 2(1) by (cases r1) (simp_all add: less_PairType_def)
    next
      case 3
      then have "r1 = Neighbor" using r(3) assms(10) by auto
      then show ?thesis using 3(1) by (cases r2) (simp_all add: less_PairType_def)
    qed
  qed
  then show ?thesis using r(1,4) by (simp add: RangeComp_NEpairTest_def)
qed

lemma comp_vend_build:
  assumes "method_ok m cfg" "undirected cfg adj" "\<And>v. is_vertex cfg v \<Longrightarrow> delta_ids cfg (adj ! unat v)" "traversal ord"
    "c = RangeCompEncode_codec cfg after m"
  shows "\<exists>st. RangeCompVend_BuildEncoding c cfg ord adj (EncodeBitSet cfg) = Some st \<and> wf_encoding cfg st \<and>
    (\<forall>u v. is_vertex cfg u \<longrightarrow> is_vertex cfg v \<longrightarrow>
       (\<exists>r. RangeComp_NEpairTest c st v u = Some r \<and> answer_ok r (u \<in> set (adj ! unat v))))"
proof -
  obtain st fl L where st: "RangeCompVend_BuildEncoding c cfg ord adj (EncodeBitSet cfg) = Some st" "wf_encoding cfg st"
    "\<And>v. is_vertex cfg v \<Longrightarrow> comp.stores after m cfg adj L fl st v \<and> (fl ! unat v \<longrightarrow> RangeComp_GetFlag (st ! unat v) = Some True)"
    unfolding RangeCompVend_BuildEncoding_def assms(5) using comp.peel_build_ok [of cfg cfg m adj ord after] assms(1-4) by blast
  have "\<exists>r. RangeComp_NEpairTest c st v u = Some r \<and> answer_ok r (u \<in> set (adj ! unat v))"
    if u: "is_vertex cfg u" and v: "is_vertex cfg v" for u v
  proof (rule comp_pair [where cfg = cfg, OF _ _ is_vertex_index [OF st(2) v] is_vertex_index [OF st(2) u] v u])
    have sym: "v \<in> set (adj ! unat u) \<longleftrightarrow> u \<in> set (adj ! unat v)" using undirectedD(3) [OF assms(2)] u v by blast
    note sv = st(3) [OF v, unfolded comp.stores_def] and su = st(3) [OF u, unfolded comp.stores_def]
    show "comp_encodes c cfg (st ! unat v) (L v)" "comp_encodes c cfg (st ! unat u) (L u)" using sv su assms(5) by blast+
    show "u \<in> set (L v) \<Longrightarrow> u \<in> set (adj ! unat v)" "v \<in> set (L u) \<Longrightarrow> u \<in> set (adj ! unat v)" using sv su sym by blast+
    show "RangeComp_GetFlag (st ! unat u) = Some True \<and> v \<in> set (L u)" if "u \<in> set (adj ! unat v)" "u \<notin> set (L v)" using that sv su by blast
    show "RangeComp_GetFlag (st ! unat v) = Some True \<and> u \<in> set (L v)" if "u \<in> set (adj ! unat v)" "v \<notin> set (L u)" using that sv su sym by blast
  qed
  then show ?thesis using st(1,2) by blast
qed

text \<open>C6. \<^verbatim>\<open>RangeCompVend\<close> is sound. For each of its three codecs and every undirected graph with ascending lists: \<^verbatim>\<open>BuildEncoding\<close>
  has a result, whatever stands in the memory behind the vectors that \<^verbatim>\<open>DynamicEncode\<close> reads, and the test of a pair never
  denies an edge nor claims one. For \<^verbatim>\<open>BitsComp\<close> the blocks must not fill the array to its last bit, and
  an id must have eight bits at least, since \<^verbatim>\<open>BlockGet\<close> does not read narrower blocks that lie in two bytes.\<close>

theorem comp_vend_sound:
  assumes "method_ok m cfg" "undirected cfg adj" "\<And>v. is_vertex cfg v \<Longrightarrow> delta_ids cfg (adj ! unat v)" "traversal ord"
    "c = RangeCompEncode_codec cfg after m"
  shows "\<exists>st. RangeCompVend_BuildEncoding c cfg ord adj (EncodeBitSet cfg) = Some st \<and> wf_encoding cfg st \<and>
    (\<forall>u v. is_vertex cfg u \<longrightarrow> is_vertex cfg v \<longrightarrow>
       (\<exists>r. RangeComp_NEpairTest c st v u = Some r \<and> answer_ok r (u \<in> set (adj ! unat v))))"
  by (rule comp_vend_build [OF assms])

lemma range_demo_graph:
  "comp_config range_demo" "undirected range_demo demo_graph" "is_vertex range_demo = is_vertex demo_config"
  "is_vertex range_demo v \<Longrightarrow> delta_ids range_demo (demo_graph ! unat v)"
proof -
  have same: "VERTEX_SIZE range_demo = VERTEX_SIZE demo_config" "VERTEX_BIT_SIZE range_demo = VERTEX_BIT_SIZE demo_config"
    by (simp_all add: range_demo_def demo_config_def)
  then show v: "is_vertex range_demo = is_vertex demo_config" by (simp add: is_vertex_def fun_eq_iff)
  show "comp_config range_demo" using range_configD(1) [OF range_demo_config] by (simp add: comp_config_def range_demo_def)
  show "undirected range_demo demo_graph" using demo_graph_undirected unfolding undirected_def v same .
  show "delta_ids range_demo (demo_graph ! unat v)" if "is_vertex range_demo v"
    using demo_delta(2) [of v] demo_graph_nth that v by (simp add: delta_ids_def good_ids_def same)
qed

lemma comp_vend_sound_witness:
  "10 \<in> set (demo_adj 1) \<and> (\<exists>st. RangeCompVend_BuildEncoding (RangeCompEncode_codec range_demo 0 Delta) range_demo remdups demo_graph (EncodeBitSet range_demo) = Some st \<and>
     (\<exists>r. RangeComp_NEpairTest (RangeCompEncode_codec range_demo 0 Delta) st 1 10 = Some r \<and> r \<noteq> NonNeighbor))"
proof -
  have v: "is_vertex range_demo 1" "is_vertex range_demo 10" by (simp_all add: is_vertex_def range_demo_def)
  have e: "10 \<in> set (demo_adj 1)" by (simp add: demo_adj_def)
  have "method_ok Delta range_demo" using range_demo_graph(1) by simp
  from comp_vend_sound [OF this range_demo_graph(2,4) traversal_remdups refl, of 0]
  obtain st where "RangeCompVend_BuildEncoding (RangeCompEncode_codec range_demo 0 Delta) range_demo remdups demo_graph (EncodeBitSet range_demo) = Some st"
    "\<And>u v. is_vertex range_demo u \<Longrightarrow> is_vertex range_demo v \<Longrightarrow>
       \<exists>r. RangeComp_NEpairTest (RangeCompEncode_codec range_demo 0 Delta) st v u = Some r \<and> answer_ok r (u \<in> set (demo_graph ! unat v))" by blast
  moreover from this(2) [OF v(2,1)] have "\<exists>r. RangeComp_NEpairTest (RangeCompEncode_codec range_demo 0 Delta) st 1 10 = Some r \<and> r \<noteq> NonNeighbor"
    using e demo_graph_nth [of 1] v(1) range_demo_graph(3) by (auto simp: answer_ok_def)
  ultimately show ?thesis using e by blast
qed

section \<open>Faults\<close>

text \<open>250 vertices, eight bits for each.\<close>

definition wide_demo :: config where
  "wide_demo = \<lparr>K_SIZE = 3, VERTEX_SIZE = 250, DEGREE = 4, B_FILTER_ENCODE_BITS = 750,
     PER_ENCODE_BIT_SIZE = 96, VERTEX_BIT_SIZE = 8, MAX_K_CORE_SIZE = 11, LOG_K = 4,
     MAX_INTEGER_SIZE = 11, BLOCK_BEGIN_INDEX = 7, BLOCK_NUMS = 23, ELEMENT_SIZE = 10,
     BIT_HASH_BEST_NUMS = 1, INT_HASH_BEST_NUMS = 1, COUNT_HASH_BEST_NUMS = 1, PREFIX_BIT_SIZE = 7, HSIMD = False\<rparr>"

text \<open>C40. \<^verbatim>\<open>BitsComp::Find\<close> stops one block too early when the blocks fill the array to its last bit: a vertex with exactly as
  many neighbours as fit is encoded completely, and its largest neighbour is denied. (The blocks can be read: they have eight
  bits or more, or divide a byte.)\<close>

theorem bits_last_lost:
  assumes "comp_config cfg" "RangeComp_max_bits cfg = VERTEX_BIT_SIZE cfg * length ns" "delta_ids cfg ns"
    "wf_encoding cfg st" "is_vertex cfg v" "c = RangeCompEncode_codec cfg after BITS"
    "8 \<le> VERTEX_BIT_SIZE cfg \<or> VERTEX_BIT_SIZE cfg dvd 8"
  shows "\<exists>st'. RangeComp_EncodeVertex c cfg v ns st = Some st' \<and> RangeComp_NonNeighborTest c st' v (last ns) = Some NonNeighbor"
proof -
  let ?n = "VERTEX_BIT_SIZE cfg"
  note cfg = comp_configD [OF assms(1)]
  note ids = comp_ids_small [OF assms(1,3)]
  have n: "0 < ?n" "?n \<le> 32" using wf_configD(3,4) cfg(1) by blast+
  have v: "unat v < length st" by (rule is_vertex_index [OF assms(4,5)])
  then have "wf_enc cfg (st ! unat v)" using assms(4) by (simp add: wf_encoding_def)
  then obtain e1 where 1: "BlockSet (ClearBits (st ! unat v)) 0 comp_shift 1 = Some e1" "wf_enc cfg e1" "BlockGet e1 0 comp_shift = Some 1"
    "\<And>q. 32 \<le> q \<Longrightarrow> q < PER_ENCODE_BIT_SIZE cfg \<Longrightarrow> \<not> bitat e1 q"
    using flag_written [OF assms(1)] by blast
  have "\<forall>x \<in> set ns. unat x < 2 ^ ?n" using assms(3) by (simp add: delta_ids_def good_ids_def)
  then obtain e where e: "put_blocks BlockSet e1 32 ?n ns = Some e" "wf_enc cfg e" "RangeComp_GetFlag e = Some True" "blocks_val e 32 ?n (length ns) = ns"
    using bits_written [OF assms(1) 1(2) _ 1(3), of ns "length ns"] 1(4) assms(2) cfg(4) by auto
  have ns: "ns \<noteq> []" using assms(2) cfg(3) by auto
  have "blocks_val e 32 ?n (length ns - 1) = butlast ns"
    using arg_cong [OF e(4), of butlast] ns blocks_val_add [of e 32 ?n "length ns - 1" 1] by (simp add: blocks_val_few butlast_append)
  moreover have "\<not> scan (butlast ns) (last ns)"
  proof
    assume "scan (butlast ns) (last ns)"
    then have "last ns \<in> set (butlast ns)" by (rule scan_imp_mem)
    moreover have "distinct (butlast ns @ [last ns])" using assms(3) ns by (simp add: delta_ids_def)
    ultimately show False by simp
  qed
  moreover have "32 + ?n * (length ns - 1) < PER_ENCODE_BIT_SIZE cfg" "PER_ENCODE_BIT_SIZE cfg \<le> 32 + ?n * (length ns - 1) + ?n"
    using assms(2) cfg(4) n(1) ns by (cases ns; simp)+
  moreover have "readables 32 ?n (length ns - 1)" using assms(7) readable_dvd [of ?n 32] by (auto simp: readables_def)
  ultimately have "BitsComp_scan e 32 ?n (PER_ENCODE_BIT_SIZE cfg) (last ns) = Some NonNeighbor"
    using BitsComp_scan_values [of e ?n "PER_ENCODE_BIT_SIZE cfg" 32 "length ns - 1" "last ns"] e(2) n cfg(8) by (simp add: wf_enc_def)
  moreover have "required_bits c ns \<le> RangeComp_max_bits cfg" by (simp add: assms(2,6) Let_def BitsComp_GetRequiredBits_def mult.commute)
  ultimately show ?thesis using v 1(1) e(1,3)
    by (auto simp: RangeComp_EncodeVertex_def RangeComp_NonNeighborTest_def assms(6) Let_def BitsComp_Encode_def BitsComp_Find_def comp_shift_def)
qed

lemma bits_last_lost_witness:
  "\<exists>st'. RangeComp_EncodeVertex (RangeCompEncode_codec wide_demo 0 BITS) wide_demo 1 [2, 3, 4, 5, 6, 7, 8, 9] (EncodeBitSet wide_demo) = Some st' \<and>
    RangeComp_NonNeighborTest (RangeCompEncode_codec wide_demo 0 BITS) st' 1 9 = Some NonNeighbor"
proof -
  have cfg: "comp_config wide_demo" by (simp add: comp_config_def wf_config_def wide_demo_def)
  have "RangeComp_max_bits wide_demo = VERTEX_BIT_SIZE wide_demo * length [2, 3, 4, 5, 6, 7, 8, 9 :: u32]"
    by (simp add: RangeComp_max_bits_def wide_demo_def)
  moreover have "delta_ids wide_demo [2, 3, 4, 5, 6, 7, 8, 9]" by (simp add: delta_ids_def good_ids_def wide_demo_def)
  moreover have "is_vertex wide_demo 1" by (simp add: is_vertex_def wide_demo_def)
  moreover have "8 \<le> VERTEX_BIT_SIZE wide_demo" by (simp add: wide_demo_def)
  ultimately show ?thesis using bits_last_lost [OF cfg _ _ EncodeBitSet_wf(1) [OF comp_configD(1) [OF cfg]] _ refl] by fastforce
qed

definition bytes12 :: "u8 list \<Rightarrow> bitset" where
  "bytes12 bs = \<lparr>bs_size = 12, bs_data = bs\<rparr>"

lemma demo_steps:
  "ClearBits (bytes12 [0, 0, 0, f, a, b, c, d, x, 0, 0, 0]) = bytes12 [0, 0, 0, 0, 0, 0, 0, 0, 0, 0, 0, 0]"
  "BlockSet (bytes12 [0, 0, 0, 0, 0, 0, 0, 0, 0, 0, 0, 0]) 0 32 1 = Some (bytes12 [0, 0, 0, 1, 0, 0, 0, 0, 0, 0, 0, 0])"
  "BlockGet (bytes12 [0, 0, 0, 1, a, b, c, d, x, 0, 0, 0]) 0 32 = Some 1"
  "VbyteComp_Encode [2] (bytes12 [0, 0, 0, 1, 0, 0, 0, 0, 0, 0, 0, 0]) 32 = Some (bytes12 [0, 0, 0, 1, 2, 0, 0, 0, 0, 0, 0, 0])"
  "VbyteComp_Encode [] (bytes12 [0, 0, 0, 1, 0, 0, 0, 0, 0, 0, 0, 0]) 32 = Some (bytes12 [0, 0, 0, 1, 0, 0, 0, 0, 0, 0, 0, 0])"
  "VbyteComp_Encode [33554432, 3] (bytes12 [0, 0, 0, 1, 0, 0, 0, 0, 0, 0, 0, 0]) 32 = Some (bytes12 [0, 0, 0, 1, 0x90, 0x80, 0x80, 0, 3, 0, 0, 0])"
  "VbyteComp_Find 96 2 (bytes12 [0, 0, 0, 1, 2, 0, 0, 0, 0, 0, 0, 0]) 32 True = Some Neighbor"
  "VbyteComp_Find 96 2 (bytes12 [0, 0, 0, 1, 0x90, 0x80, 0x80, 0, 3, 0, 0, 0]) 32 True = Some NonNeighbor"
  "BlockGet (bytes12 [0, 0, 0, 1, 2, 0, 0, 0, 0, 0, 0, 0]) 32 32 = Some 33554432" "BlockGet (bytes12 [0, 0, 0, 1, 2, 0, 0, 0, 0, 0, 0, 0]) 64 32 = Some 0"
  "BlockGet (bytes12 [0, 0, 0, 1, 0, 0, 0, 0, 0, 0, 0, 0]) 64 32 = Some 0"
  by code_simp+

lemma demo_sizes:
  "RangeComp_max_bits range_demo = 64" "PER_ENCODE_BIT_SIZE range_demo = 96" "max_int_size range_demo = 2"
  "VbyteComp_GetRequiredBits [2] = 8" "VbyteComp_GetRequiredBits [] = 0" "VbyteComp_GetRequiredBits [33554432, 3] = 40"
  by (simp_all add: RangeComp_max_bits_def range_demo_def max_int_size_def VbyteComp_GetRequiredBits_def IntegerBytes_cases)

text \<open>\<^verbatim>\<open>InsertPair\<close>, inherited from \<^verbatim>\<open>RangeEncode\<close>, reads the compressed bytes as words of 32 bits: after the insertion of
  another neighbour the old one is denied.\<close>

theorem comp_insert_loses:
  "do { st \<leftarrow> RangeComp_EncodeVertex (RangeCompEncode_codec range_demo after Vbyte) range_demo 1 [2] (EncodeBitSet range_demo);
        st \<leftarrow> RangeComp_EncodeVertex (RangeCompEncode_codec range_demo after Vbyte) range_demo 3 [] st;
        t \<leftarrow> RangeComp_NonNeighborTest (RangeCompEncode_codec range_demo after Vbyte) st 1 2;
        st \<leftarrow> RangeComp_InsertPair (RangeCompEncode_codec range_demo after Vbyte) range_demo db 1 3 st;
        t' \<leftarrow> RangeComp_NonNeighborTest (RangeCompEncode_codec range_demo after Vbyte) st 1 2;
        Some (t, t') } = Some (Neighbor, NonNeighbor)"
proof -
  have new: "EncodeBitSet range_demo = replicate 11 (bytes12 [0, 0, 0, 0, 0, 0, 0, 0, 0, 0, 0, 0])" by code_simp
  note steps = RangeComp_EncodeVertex_def RangeComp_NonNeighborTest_def RangeComp_InsertPair_def Range_GetEncodeType_def GetFlag_def Range_GetAllNeighbors_def
    GetBlockInt_def RangeComp_GetFlag_def
  show ?thesis
    by (simp add: new steps demo_steps demo_sizes Let_def comp_shift_def upt_rec)
qed

end
