(* ===== verification/Graph_File.thy ===== *)
theory Graph_File
  imports Peel_Build
begin

text \<open>
  The text files of the program: the graph that \<^verbatim>\<open>Graph::LoadData\<close> reads, one edge on a line, and the list of
  pairs that \<^verbatim>\<open>PairList\<close> writes and reads. A file is the string of its characters. The functions of the C and
  C++ libraries are written out as far as the program uses them: \<^verbatim>\<open>std::to_string\<close> and \<^verbatim>\<open>operator<<\<close> of an
  unsigned integer, \<^verbatim>\<open>fgets\<close>, \<^verbatim>\<open>sscanf\<close> with the format \<^verbatim>\<open>"%d %d"\<close>, \<^verbatim>\<open>std::getline\<close> and \<^verbatim>\<open>operator>>\<close>.
\<close>

section \<open>Numbers in text\<close>

definition digit_char :: "nat \<Rightarrow> char" where
  "digit_char d = char_of (48 + d)"

definition is_digit :: "char \<Rightarrow> bool" where
  "is_digit c \<longleftrightarrow> 48 \<le> (of_char c :: nat) \<and> (of_char c :: nat) \<le> 57"

definition is_space :: "char \<Rightarrow> bool" where
  "is_space c \<longleftrightarrow> (of_char c :: nat) = 32 \<or> (9 \<le> (of_char c :: nat) \<and> (of_char c :: nat) \<le> 13)"

definition newline :: char where
  "newline = char_of (10 :: nat)"

definition tab :: char where
  "tab = char_of (9 :: nat)"

fun decimal :: "nat \<Rightarrow> string" where
  "decimal n = (if n < 10 then [digit_char n] else decimal (n div 10) @ [digit_char (n mod 10)])"

declare decimal.simps [simp del]

definition to_string :: "u32 \<Rightarrow> string" where
  "to_string n = decimal (unat n)"

definition dec_val :: "string \<Rightarrow> nat" where
  "dec_val ds = foldl (\<lambda>a c. a * 10 + (of_char c - 48)) 0 ds"

text \<open>White space, an optional sign and digits: the integer and what follows it.\<close>

definition scan_int :: "string \<Rightarrow> (int \<times> string) option" where
  "scan_int s =
     (let s = dropWhile is_space s;
          neg = (s \<noteq> [] \<and> hd s = CHR ''-'');
          s = (if s \<noteq> [] \<and> (hd s = CHR ''-'' \<or> hd s = CHR ''+'') then tl s else s);
          ds = takeWhile is_digit s
      in if ds = [] then None else Some (if neg then - int (dec_val ds) else int (dec_val ds), dropWhile is_digit s))"

text \<open>\<^verbatim>\<open>sscanf(line, "%d %d", \<dots>)\<close>: \<open>Some None\<close> if fewer than two numbers are found; a number that is no \<^verbatim>\<open>int\<close> has no
  defined result.\<close>

definition is_int32 :: "int \<Rightarrow> bool" where
  "is_int32 i \<longleftrightarrow> - (2 ^ 31) \<le> i \<and> i < 2 ^ 31"

definition sscanf_pair :: "string \<Rightarrow> (u32 \<times> u32) option option" where
  "sscanf_pair line =
     (case scan_int line of
        None \<Rightarrow> Some None
      | Some (a, rest) \<Rightarrow>
          if \<not> is_int32 a then None
          else case scan_int rest of
            None \<Rightarrow> Some None
          | Some (b, _) \<Rightarrow> if \<not> is_int32 b then None else Some (Some (word_of_int a, word_of_int b)))"

text \<open>\<^verbatim>\<open>fgets\<close> into an array of 256 characters: up to and including the next newline, at most 255 characters.\<close>

definition fgets_line :: "string \<Rightarrow> string \<times> string" where
  "fgets_line s =
     (let a = takeWhile (\<lambda>c. c \<noteq> newline) (take 255 s)
      in if length a < length (take 255 s) then (a @ [newline], drop (Suc (length a)) s) else (a, drop (length a) s))"

function fgets_lines :: "string \<Rightarrow> string list" where
  "fgets_lines s = (if s = [] then [] else case fgets_line s of (line, rest) \<Rightarrow> line # fgets_lines rest)"
  by pat_completeness auto
termination
proof (relation "measure length"; clarsimp)
  fix s :: string and line rest assume "s \<noteq> []" "(line, rest) = fgets_line s"
  then show "length rest < length s"
    by (cases s) (auto simp: fgets_line_def Let_def split: if_splits)
qed

declare fgets_lines.simps [simp del]

section \<open>Graph::LoadData\<close>

definition resize :: "nat \<Rightarrow> 'a \<Rightarrow> 'a list \<Rightarrow> 'a list" where
  "resize n x xs = take n xs @ replicate (n - length xs) x"

definition push_at :: "adjacency \<Rightarrow> u32 \<Rightarrow> u32 \<Rightarrow> adjacency option" where
  "push_at adj v x = do { ns \<leftarrow> aget adj (unat v); aput adj (unat v) (ns @ [x]) }"

text \<open>The body of the loop, with \<^verbatim>\<open>UNDIRECTED == 1\<close>; \<^verbatim>\<open>at\<close> throws outside of the array.\<close>

definition load_line :: "bool \<Rightarrow> string \<Rightarrow> adjacency \<times> adjacency \<Rightarrow> (adjacency \<times> adjacency) option" where
  "load_line directed line = (\<lambda>(adj, in_adj). do {
     r \<leftarrow> sscanf_pair line;
     (case r of
        None \<Rightarrow> Some (adj, in_adj)
      | Some (vertex1, vertex2) \<Rightarrow> do {
          adj \<leftarrow> push_at adj vertex1 vertex2;
          in_adj \<leftarrow> (if directed then push_at in_adj vertex2 vertex1 else Some in_adj);
          adj \<leftarrow> push_at adj vertex2 vertex1;
          Some (adj, in_adj) }) })"

definition sort_lists :: "nat \<Rightarrow> adjacency \<Rightarrow> adjacency option" where
  "sort_lists V adj = foldo (\<lambda>i adj. do { ns \<leftarrow> aget adj i; aput adj i (sort ns) }) [1..<V + 1] adj"

definition LoadData :: "config \<Rightarrow> bool \<Rightarrow> string \<Rightarrow> adjacency \<times> adjacency \<Rightarrow> (adjacency \<times> adjacency) option" where
  "LoadData cfg directed file = (\<lambda>(adj, in_adj). do {
     let adj = resize (VERTEX_SIZE cfg + 1) [] adj;
     let in_adj = (if directed then resize (VERTEX_SIZE cfg + 1) [] in_adj else in_adj);
     (adj, in_adj) \<leftarrow> foldo (load_line directed) (fgets_lines file) (adj, in_adj);
     adj \<leftarrow> sort_lists (VERTEX_SIZE cfg) adj;
     in_adj \<leftarrow> (if directed then sort_lists (VERTEX_SIZE cfg) in_adj else Some in_adj);
     Some (adj, in_adj) })"

section \<open>PairList\<close>

definition ListPersistent :: "(u32 \<times> u32) list \<Rightarrow> string option" where
  "ListPersistent pair_list = do {
     assert_that (pair_list \<noteq> []);
     Some (concat (map (\<lambda>(a, b). to_string a @ [tab] @ to_string b @ [newline]) pair_list)) }"

function getlines :: "string \<Rightarrow> string list" where
  "getlines s = (if s = [] then []
     else let l = takeWhile (\<lambda>c. c \<noteq> newline) s in l # getlines (drop (Suc (length l)) s))"
  by pat_completeness auto
termination by (relation "measure length") auto

declare getlines.simps [simp del]

text \<open>\<^verbatim>\<open>operator>>\<close> for \<^verbatim>\<open>uint32_t\<close>: the value that is stored, and what follows unless the stream fails.\<close>

definition extract_u32 :: "string \<Rightarrow> u32 \<times> string option" where
  "extract_u32 s =
     (case scan_int s of
        None \<Rightarrow> (0, None)
      | Some (i, rest) \<Rightarrow> if \<bar>i\<bar> < 2 ^ 32 then (word_of_int i, Some rest) else (- 1, None))"

text \<open>A failed stream leaves the second variable as the line before has set it.\<close>

definition load_pair :: "string \<Rightarrow> u32 \<times> u32 \<times> (u32 \<times> u32) list \<Rightarrow> u32 \<times> u32 \<times> (u32 \<times> u32) list" where
  "load_pair line = (\<lambda>(vertex1, vertex2, pair_list).
     (case extract_u32 line of
        (vertex1, None) \<Rightarrow> (vertex1, vertex2, pair_list @ [(vertex1, vertex2)])
      | (vertex1, Some rest) \<Rightarrow> (vertex1, fst (extract_u32 rest), pair_list @ [(vertex1, fst (extract_u32 rest))])))"

definition LoadPairList :: "u32 \<times> u32 \<Rightarrow> string \<Rightarrow> (u32 \<times> u32) list \<Rightarrow> (u32 \<times> u32) list" where
  "LoadPairList uninit file pair_list = snd (snd (fold load_pair (getlines file) (fst uninit, snd uninit, pair_list)))"

section \<open>Printed numbers are read back\<close>

lemma of_char_digit [simp]: "d < 10 \<Longrightarrow> (of_char (digit_char d) :: nat) = 48 + d"
  by (simp add: digit_char_def)

lemma is_digit_digit [simp]: "d < 10 \<Longrightarrow> is_digit (digit_char d)"
  by (simp add: is_digit_def)

lemma decimal_digits: "\<forall>c \<in> set (decimal n). is_digit c"
proof (induction n rule: decimal.induct)
  case (1 n)
  then show ?case by (subst decimal.simps) auto
qed

lemma decimal_not_Nil [simp]: "decimal n \<noteq> []"
  by (subst decimal.simps) simp

lemma dec_val_decimal [simp]: "dec_val (decimal n) = n"
proof (induction n rule: decimal.induct)
  case (1 n)
  show ?case
  proof (cases "n < 10")
    case False
    then have "dec_val (decimal n) = dec_val (decimal (n div 10)) * 10 + n mod 10"
      by (subst decimal.simps) (simp add: dec_val_def)
    then show ?thesis using 1 False by simp
  qed (subst decimal.simps, simp add: dec_val_def)
qed

lemma length_decimal: "n < 10 ^ k \<Longrightarrow> 0 < k \<Longrightarrow> length (decimal n) \<le> k"
proof (induction k arbitrary: n)
  case (Suc k)
  show ?case
  proof (cases "n < 10")
    case False
    then have "0 < k" using Suc.prems(1) by (cases k) auto
    moreover have "n div 10 < 10 ^ k" using Suc.prems(1) by (simp add: less_mult_imp_div_less mult.commute)
    ultimately show ?thesis using Suc.IH False by (subst decimal.simps) simp
  qed (subst decimal.simps, simp)
qed simp

lemma to_string_facts:
  "to_string v \<noteq> []" "\<forall>c \<in> set (to_string v). is_digit c" "dec_val (to_string v) = unat v" "length (to_string v) \<le> 10"
  using decimal_digits unat_u32_lt [of v] by (simp_all add: to_string_def length_decimal)

lemma to_string_inj: "to_string a = to_string b \<longleftrightarrow> a = b"
  by (metis to_string_facts(3) word_unat_eq_iff)

lemma space_not_digit: "is_digit c \<Longrightarrow> \<not> is_space c" "is_digit c \<Longrightarrow> c \<noteq> CHR ''-'' \<and> c \<noteq> CHR ''+'' \<and> c \<noteq> newline"
  by (auto simp: is_digit_def is_space_def newline_def)

lemma scan_int_to_string:
  assumes "\<forall>c \<in> set w. is_space c" "s = [] \<or> \<not> is_digit (hd s)"
  shows "scan_int (w @ to_string v @ s) = Some (int (unat v), s)"
proof -
  obtain c cs where c: "to_string v = c # cs" "is_digit c" using to_string_facts(1,2) [of v] by (cases "to_string v") auto
  have "dropWhile is_space (w @ to_string v @ s) = to_string v @ s" using assms(1) c space_not_digit by (simp add: dropWhile_append2)
  moreover have "takeWhile is_digit (to_string v @ s) = to_string v" "dropWhile is_digit (to_string v @ s) = s"
    using to_string_facts(2) [of v] assms(2) by (cases s; simp add: takeWhile_append2 dropWhile_append2)+
  ultimately show ?thesis using c space_not_digit(2) [OF c(2)] to_string_facts(3) [of v] by (simp add: scan_int_def Let_def)
qed

lemma fgets_lines_line:
  assumes "newline \<notin> set l" "length l < 255"
  shows "fgets_lines (l @ newline # rest) = (l @ [newline]) # fgets_lines rest"
proof -
  have t: "take 255 (l @ newline # rest) = l @ newline # take (254 - length l) rest"
    using assms(2) by (simp add: take_Cons' numeral_eq_Suc)
  have "takeWhile (\<lambda>c. c \<noteq> newline) (l @ newline # xs) = l" for xs using assms(1) by (induction l) auto
  then have "fgets_line (l @ newline # rest) = (l @ [newline], rest)" unfolding fgets_line_def t by (simp add: Let_def)
  then show ?thesis by (subst fgets_lines.simps) simp
qed

lemma getlines_line:
  assumes "newline \<notin> set l"
  shows "getlines (l @ newline # rest) = l # getlines rest"
proof -
  have "takeWhile (\<lambda>c. c \<noteq> newline) (l @ newline # rest) = l" using assms by (induction l) auto
  then show ?thesis by (subst getlines.simps) simp
qed

lemma newline_other: "newline \<noteq> CHR '' ''" "newline \<noteq> tab"
proof -
  have "(of_char newline :: nat) \<noteq> of_char (CHR '' '')" "(of_char newline :: nat) \<noteq> of_char tab" by (simp_all add: newline_def tab_def)
  then show "newline \<noteq> CHR '' ''" "newline \<noteq> tab" by metis+
qed

lemma newline_not_in_number: "newline \<notin> set (to_string v)"
  using to_string_facts(2) [of v] space_not_digit(2) by blast

section \<open>Reading a printed graph\<close>

definition edge_line :: "u32 \<times> u32 \<Rightarrow> string" where
  "edge_line e = to_string (fst e) @ CHR '' '' # to_string (snd e)"

text \<open>The text of a list of edges.\<close>

definition edge_text :: "(u32 \<times> u32) list \<Rightarrow> string" where
  "edge_text es = concat (map (\<lambda>e. edge_line e @ [newline]) es)"

lemma fgets_edge_text: "fgets_lines (edge_text es) = map (\<lambda>e. edge_line e @ [newline]) es"
proof (induction es)
  case (Cons e es)
  have "newline \<notin> set (edge_line e)" using newline_not_in_number newline_other(1) by (simp add: edge_line_def)
  moreover have "length (edge_line e) < 255" using to_string_facts(4) [of "fst e"] to_string_facts(4) [of "snd e"] by (simp add: edge_line_def)
  ultimately show ?case using fgets_lines_line [of "edge_line e" "edge_text es"] Cons by (simp add: edge_text_def)
qed (simp add: edge_text_def fgets_lines.simps)

lemma is_int32_nat: "n < 2 ^ 31 \<Longrightarrow> is_int32 (int n)"
  by (simp add: is_int32_def)

lemma sscanf_edge_line:
  assumes "unat a < 2 ^ 31" "unat b < 2 ^ 31"
  shows "sscanf_pair (edge_line (a, b) @ [newline]) = Some (Some (a, b))"
proof -
  have "scan_int ([] @ to_string a @ (CHR '' '' # to_string b @ [newline])) = Some (int (unat a), CHR '' '' # to_string b @ [newline])"
    by (rule scan_int_to_string) (simp_all add: is_digit_def)
  moreover have "scan_int ([CHR '' ''] @ to_string b @ [newline]) = Some (int (unat b), [newline])"
    by (rule scan_int_to_string) (simp_all add: is_space_def is_digit_def newline_def)
  moreover have "is_int32 (int (unat a))" "is_int32 (int (unat b))" using assms by (simp_all only: is_int32_nat)
  ultimately show ?thesis by (simp add: sscanf_pair_def edge_line_def)
qed

text \<open>The neighbours of vertex \<open>i\<close>, in the order of the file.\<close>

definition nbrs :: "(u32 \<times> u32) list \<Rightarrow> nat \<Rightarrow> u32 list" where
  "nbrs es i = concat (map (\<lambda>(a, b). (if unat a = i then [b] else []) @ (if unat b = i then [a] else [])) es)"

lemma nbrs_simps [simp]: "nbrs [] i = []"
  "nbrs ((a, b) # es) i = (if unat a = i then [b] else []) @ (if unat b = i then [a] else []) @ nbrs es i"
  by (simp_all add: nbrs_def)

lemma push_at_map:
  "unat v < n \<Longrightarrow> push_at (map f [0..<n]) v x = Some (map (\<lambda>i. f i @ (if unat v = i then [x] else [])) [0..<n])"
  by (auto simp: push_at_def intro!: nth_equalityI simp: nth_list_update)

lemma load_lines:
  assumes "\<forall>(a, b) \<in> set es. unat a < n \<and> unat b < n" "n \<le> 2 ^ 31"
  shows "foldo (load_line False) (map (\<lambda>e. edge_line e @ [newline]) es) (map f [0..<n], in_adj) =
    Some (map (\<lambda>i. f i @ nbrs es i) [0..<n], in_adj)"
  using assms(1)
proof (induction es arbitrary: f)
  case (Cons e es)
  obtain a b where e: "e = (a, b)" by fastforce
  with Cons.prems have ab: "unat a < n" "unat b < n" by auto
  then have "sscanf_pair (edge_line (a, b) @ [newline]) = Some (Some (a, b))" using assms(2) by (intro sscanf_edge_line) linarith+
  then have "load_line False (edge_line e @ [newline]) (map f [0..<n], in_adj) =
      Some (map (\<lambda>i. (f i @ (if unat a = i then [b] else [])) @ (if unat b = i then [a] else [])) [0..<n], in_adj)"
    using ab by (simp add: load_line_def e push_at_map del: append_assoc)
  then show ?case using Cons.IH [of "\<lambda>i. (f i @ (if unat a = i then [b] else [])) @ (if unat b = i then [a] else [])"] Cons.prems
    by (simp add: e)
qed simp

lemma sort_lists_map:
  "m \<le> V \<Longrightarrow> foldo (\<lambda>i adj. do { ns \<leftarrow> aget adj i; aput adj i (sort ns) }) [1..<m + 1] (map f [0..<V + 1]) =
    Some (map (\<lambda>i. if 0 < i \<and> i \<le> m then sort (f i) else f i) [0..<V + 1])"
proof (induction m)
  case (Suc m)
  have "[1..<Suc m + 1] = [1..<m + 1] @ [Suc m]" by simp
  moreover have "(map (\<lambda>i. if 0 < i \<and> i \<le> m then sort (f i) else f i) [0..<V + 1])[Suc m := sort (f (Suc m))] =
      map (\<lambda>i. if 0 < i \<and> i \<le> Suc m then sort (f i) else f i) [0..<V + 1]"
    using Suc.prems by (intro nth_equalityI) (auto simp: nth_list_update le_Suc_eq simp del: upt_Suc)
  ultimately show ?case using Suc by (simp add: foldo_append del: upt_Suc)
qed (auto intro!: map_cong)

lemma LoadData_eq:
  assumes "\<forall>(a, b) \<in> set es. unat a \<le> VERTEX_SIZE cfg \<and> unat b \<le> VERTEX_SIZE cfg" "VERTEX_SIZE cfg < 2 ^ 31"
    "resize (VERTEX_SIZE cfg + 1) [] adj = map f [0..<VERTEX_SIZE cfg + 1]"
  shows "LoadData cfg False (edge_text es) (adj, in_adj) =
    Some (map (\<lambda>i. if 0 < i then sort (f i @ nbrs es i) else f i @ nbrs es i) [0..<VERTEX_SIZE cfg + 1], in_adj)"
proof -
  have "foldo (load_line False) (fgets_lines (edge_text es)) (map f [0..<VERTEX_SIZE cfg + 1], in_adj) =
      Some (map (\<lambda>i. f i @ nbrs es i) [0..<VERTEX_SIZE cfg + 1], in_adj)"
    unfolding fgets_edge_text using assms(1,2) by (intro load_lines) fastforce+
  moreover have "sort_lists (VERTEX_SIZE cfg) (map (\<lambda>i. f i @ nbrs es i) [0..<VERTEX_SIZE cfg + 1]) =
      Some (map (\<lambda>i. if 0 < i then sort (f i @ nbrs es i) else f i @ nbrs es i) [0..<VERTEX_SIZE cfg + 1])"
    unfolding sort_lists_def sort_lists_map [OF order_refl] by (simp del: upt_Suc)
  ultimately show ?thesis unfolding LoadData_def Let_def assms(3) split by (simp add: assms(3) del: upt_Suc One_nat_def add_Suc_right)
qed

section \<open>The loaded graph\<close>

definition is_edge :: "(u32 \<times> u32) list \<Rightarrow> u32 \<Rightarrow> u32 \<Rightarrow> bool" where
  "is_edge es u v \<longleftrightarrow> (u, v) \<in> set es \<or> (v, u) \<in> set es"

text \<open>Every edge once and no loops.\<close>

definition simple_edges :: "config \<Rightarrow> (u32 \<times> u32) list \<Rightarrow> bool" where
  "simple_edges cfg es \<longleftrightarrow> (\<forall>(a, b) \<in> set es. is_vertex cfg a \<and> is_vertex cfg b \<and> a \<noteq> b) \<and>
     distinct (map (\<lambda>(a, b). (min a b, max a b)) es)"

definition loaded :: "config \<Rightarrow> (u32 \<times> u32) list \<Rightarrow> adjacency" where
  "loaded cfg es = map (\<lambda>i. if 0 < i then sort (nbrs es i) else nbrs es i) [0..<VERTEX_SIZE cfg + 1]"

lemma set_nbrs: "u \<in> set (nbrs es (unat v)) \<longleftrightarrow> is_edge es v u"
  by (induction es) (auto simp: is_edge_def word_unat_eq_iff)

lemma distinct_nbrs:
  assumes "simple_edges cfg es"
  shows "distinct (nbrs es (unat v))"
  using assms
proof (induction es)
  case (Cons e es)
  obtain a b where e: "e = (a, b)" by fastforce
  have "simple_edges cfg es" using Cons.prems by (simp add: simple_edges_def)
  moreover have "a \<noteq> b" using Cons.prems by (simp add: simple_edges_def e)
  moreover have "\<not> is_edge es a b"
  proof
    assume "is_edge es a b"
    then have "(min a b, max a b) \<in> set (map (\<lambda>(a, b). (min a b, max a b)) es)"
      unfolding is_edge_def by (force simp: min_def max_def)
    then show False using Cons.prems by (simp add: simple_edges_def e)
  qed
  moreover have "\<not> is_edge es b a" using calculation(3) by (auto simp: is_edge_def)
  ultimately show ?case using Cons.IH by (auto simp: e set_nbrs word_unat_eq_iff [symmetric] dest!: sym [of _ "unat v"])
qed simp

lemma loaded_nth:
  assumes "is_vertex cfg v"
  shows "loaded cfg es ! unat v = sort (nbrs es (unat v))"
  using assms by (simp add: loaded_def is_vertex_def word_less_nat_alt del: upt_Suc)

lemma loaded_undirected:
  assumes "simple_edges cfg es"
  shows "undirected cfg (loaded cfg es)"
proof -
  have "is_vertex cfg u \<and> is_edge es u v" if "is_edge es v u" for u v
    using that assms by (auto simp: is_edge_def simple_edges_def)
  then show ?thesis unfolding undirected_def by (auto simp: loaded_nth set_nbrs) (simp add: loaded_def)
qed

lemma loaded_ids:
  assumes "simple_edges cfg es" "is_vertex cfg v" "wf_config cfg" "VERTEX_SIZE cfg < 2 ^ VERTEX_BIT_SIZE cfg"
  shows "good_ids cfg (loaded cfg es ! unat v)" "distinct (loaded cfg es ! unat v)"
proof -
  have d: "distinct (nbrs es (unat v))" using distinct_nbrs [OF assms(1)] .
  have vs: "set (nbrs es (unat v)) \<subseteq> set (vertex_list cfg)" unfolding vertex_list_all(1) [OF assms(3)]
    using assms(1) by (auto simp: set_nbrs is_edge_def simple_edges_def)
  have "length (nbrs es (unat v)) = card (set (nbrs es (unat v)))" using d by (simp add: distinct_card)
  also have "\<dots> \<le> card (set (vertex_list cfg))" using vs by (intro card_mono) simp_all
  also have "\<dots> \<le> length (vertex_list cfg)" by (rule card_length)
  also have "\<dots> = VERTEX_SIZE cfg" by (simp add: vertex_list_def del: upt_Suc)
  finally show "good_ids cfg (loaded cfg es ! unat v)"
    using vs assms(4) unfolding vertex_list_all(1) [OF assms(3)] by (force simp: loaded_nth [OF assms(2)] good_ids_def is_vertex_def)
  show "distinct (loaded cfg es ! unat v)" using d by (simp add: loaded_nth [OF assms(2)])
qed

lemma resize_Nil: "resize n x [] = map (\<lambda>i. x) [0..<n]"
  by (simp add: resize_def map_replicate_const)

lemma LoadData_loaded:
  assumes "simple_edges cfg es" "VERTEX_SIZE cfg < 2 ^ 31"
  shows "LoadData cfg False (edge_text es) ([], in_adj) = Some (loaded cfg es, in_adj)"
proof -
  have "\<forall>(a, b) \<in> set es. unat a \<le> VERTEX_SIZE cfg \<and> unat b \<le> VERTEX_SIZE cfg"
    using assms(1) by (auto simp: simple_edges_def is_vertex_def)
  from LoadData_eq [OF this assms(2) resize_Nil] show ?thesis by (simp add: loaded_def del: upt_Suc)
qed

section \<open>Pairs\<close>

lemma load_pair_line:
  "load_pair (to_string a @ tab # to_string b) (v1, v2, ps) = (a, b, ps @ [(a, b)])"
proof -
  have "scan_int ([] @ to_string a @ (tab # to_string b)) = Some (int (unat a), tab # to_string b)"
    by (rule scan_int_to_string) (simp_all add: is_digit_def tab_def)
  moreover have "scan_int ([tab] @ to_string b @ []) = Some (int (unat b), [])"
    by (rule scan_int_to_string) (simp_all add: is_space_def tab_def)
  moreover have "\<bar>int (unat w)\<bar> < 2 ^ 32" for w :: u32 using unsigned_less [where ?'a = int, of w] by simp
  ultimately show ?thesis by (simp add: load_pair_def extract_u32_def)
qed

lemma LoadPairList_lines:
  "fold load_pair (getlines (concat (map (\<lambda>(a, b). to_string a @ [tab] @ to_string b @ [newline]) ps))) (v1, v2, qs) =
    (if ps = [] then v1 else fst (last ps), if ps = [] then v2 else snd (last ps), qs @ ps)"
proof (induction ps arbitrary: v1 v2 qs)
  case (Cons p ps)
  obtain a b where p: "p = (a, b)" by fastforce
  let ?rest = "concat (map (\<lambda>(a, b). to_string a @ [tab] @ to_string b @ [newline]) ps)"
  have "newline \<notin> set (to_string a @ tab # to_string b)" using newline_not_in_number newline_other(2) by auto
  from getlines_line [OF this, of ?rest] show ?case using Cons.IH by (simp add: p load_pair_line)
qed (simp add: getlines.simps)

text \<open>A list of pairs that \<^verbatim>\<open>ListPersistent\<close> has written is read back by \<^verbatim>\<open>LoadPairList\<close>, whatever its two
  variables hold before the first line.\<close>

lemma pair_list_roundtrip:
  assumes "ps \<noteq> []"
  shows "\<exists>file. ListPersistent ps = Some file \<and> LoadPairList uninit file [] = ps"
  using assms LoadPairList_lines [of ps "fst uninit" "snd uninit" "[]"] by (simp add: ListPersistent_def LoadPairList_def)

end
