(* ===== verification/Graph_Store.thy ===== *)
theory Graph_Store
  imports Graph_File
begin

text \<open>
  The graph database: \<^verbatim>\<open>RocksDb\<close> and the operations of \<^verbatim>\<open>Graph\<close> and \<^verbatim>\<open>LargeGraph\<close> on it. The key-value store itself is
  not part of the program; a record of its operations is an argument of the definitions, and \<open>kv_laws\<close> says
  what its documentation promises.
\<close>

section \<open>The key-value store\<close>

text \<open>What \<^verbatim>\<open>DB::Get\<close> leaves: the status \<^verbatim>\<open>NotFound\<close>, or another status and the string.\<close>

datatype kv_status = IsNotFound | KvData "u8 list"

record 'd kv_store =
  kv_get :: "'d \<Rightarrow> string \<Rightarrow> kv_status"
  kv_put :: "string \<Rightarrow> u8 list \<Rightarrow> 'd \<Rightarrow> 'd \<times> bool"
  kv_items :: "'d \<Rightarrow> (string \<times> u8 list) list"

text \<open>A write is acknowledged and seen by the following reads; an iterator meets every key once, with its value.\<close>

definition kv_laws :: "'d kv_store \<Rightarrow> bool" where
  "kv_laws K \<longleftrightarrow> (\<forall>d k v. snd (kv_put K k v d)) \<and>
     (\<forall>d k v k'. kv_get K (fst (kv_put K k v d)) k' = (if k' = k then KvData v else kv_get K d k')) \<and>
     (\<forall>d. distinct (map fst (kv_items K d)) \<and> (\<forall>k v. (k, v) \<in> set (kv_items K d) \<longleftrightarrow> kv_get K d k = KvData v))"

definition kv_empty :: "'d kv_store \<Rightarrow> 'd \<Rightarrow> bool" where
  "kv_empty K d \<longleftrightarrow> (\<forall>k. kv_get K d k = IsNotFound)"

section \<open>RocksDb\<close>

text \<open>A value is the array of its words in memory, least significant byte first.\<close>

definition word_bytes :: "u32 \<Rightarrow> u8 list" where
  "word_bytes v = [ucast v, ucast (drop_bit 8 v), ucast (drop_bit 16 v), ucast (drop_bit 24 v)]"

definition ValueToString :: "u32 list \<Rightarrow> u8 list" where
  "ValueToString value = concat (map word_bytes value)"

definition ValueToString_one :: "u32 \<Rightarrow> u8 list" where
  "ValueToString_one value = word_bytes value"

definition bytes_word :: "u8 list \<Rightarrow> u32" where
  "bytes_word bs = ucast (bs ! 0) OR push_bit 8 (ucast (bs ! 1)) OR push_bit 16 (ucast (bs ! 2)) OR push_bit 24 (ucast (bs ! 3))"

definition StringToValue :: "u8 list \<Rightarrow> u32 list" where
  "StringToValue data = map (\<lambda>i. bytes_word (take 4 (drop (4 * i) data))) [0..<length data div 4]"

text \<open>\<^verbatim>\<open>StringToValue\<close> of a key: \<^verbatim>\<open>std::stoul\<close> throws if there is no number or none of 64 bits.\<close>

definition StringToValue_key :: "string \<Rightarrow> u32 option" where
  "StringToValue_key data =
     (case scan_int data of None \<Rightarrow> None | Some (i, _) \<Rightarrow> if \<bar>i\<bar> < 2 ^ 64 then Some (word_of_int i) else None)"

text \<open>\<^verbatim>\<open>Get\<close> leaves the vector alone if the key is not found.\<close>

definition RocksDb_Get :: "'d kv_store \<Rightarrow> 'd \<Rightarrow> u32 \<Rightarrow> u32 list \<Rightarrow> bool \<times> u32 list" where
  "RocksDb_Get K d key value =
     (case kv_get K d (to_string key) of IsNotFound \<Rightarrow> (False, value) | KvData data \<Rightarrow> (True, StringToValue data))"

definition RocksDb_Put :: "'d kv_store \<Rightarrow> u32 \<Rightarrow> u32 list \<Rightarrow> 'd \<Rightarrow> 'd \<times> bool" where
  "RocksDb_Put K key value d = (if value = [] then (d, True) else kv_put K (to_string key) (ValueToString value) d)"

definition RocksDb_Put_one :: "'d kv_store \<Rightarrow> u32 \<Rightarrow> u32 \<Rightarrow> 'd \<Rightarrow> 'd \<times> bool" where
  "RocksDb_Put_one K key value d = kv_put K (to_string key) (ValueToString_one value) d"

definition RocksDb_BatchWrite :: "'d kv_store \<Rightarrow> u32 list \<Rightarrow> u32 list list \<Rightarrow> 'd \<Rightarrow> 'd option" where
  "RocksDb_BatchWrite K keys values d = do {
     assert_that (length keys = length values);
     Some (fold (\<lambda>(key, value) d. fst (kv_put K (to_string key) (ValueToString value) d)) (zip keys values) d) }"

text \<open>\<^verbatim>\<open>InitIter\<close> and the calls of \<^verbatim>\<open>Next\<close> up to the one that returns \<^verbatim>\<open>false\<close>: the keys and values they leave.\<close>

definition RocksDb_scan :: "'d kv_store \<Rightarrow> 'd \<Rightarrow> (u32 \<times> u32 list) list option" where
  "RocksDb_scan K d =
     foldo (\<lambda>(k, v) out. do { key \<leftarrow> StringToValue_key k; Some (out @ [(key, StringToValue v)]) }) (kv_items K d) []"

section \<open>Graph\<close>

text \<open>The loop of \<^verbatim>\<open>SaveData\<close> over a \<^verbatim>\<open>uint32_t\<close> ends only if \<^verbatim>\<open>VERTEX_SIZE\<close> is not the largest of them.\<close>

definition SaveData :: "config \<Rightarrow> 'd kv_store \<Rightarrow> adjacency \<Rightarrow> 'd \<Rightarrow> 'd option" where
  "SaveData cfg K adj d = do {
     assert_that (adj \<noteq> []);
     assert_that (VERTEX_SIZE cfg < 2 ^ 32 - 1);
     foldo (\<lambda>id d. do {
         ns \<leftarrow> aget adj id;
         if ns = [] then Some d
         else Some (fst (RocksDb_Put K (of_nat id) (snd (RocksDb_Get K d (of_nat id) []) @ ns) d)) }) [1..<VERTEX_SIZE cfg + 1] d }"

definition DbInsert :: "'d kv_store \<Rightarrow> u32 \<Rightarrow> u32 \<Rightarrow> 'd \<Rightarrow> 'd" where
  "DbInsert K vertex1 vertex2 d =
     (let neighbors = snd (RocksDb_Get K d vertex1 []) @ [vertex2];
          d = fst (RocksDb_Put K vertex1 neighbors d);
          neighbors = snd (RocksDb_Get K d vertex2 neighbors) @ [vertex1]
      in fst (RocksDb_Put K vertex2 neighbors d))"

definition DbDelete :: "'d kv_store \<Rightarrow> u32 \<Rightarrow> u32 \<Rightarrow> 'd \<Rightarrow> 'd" where
  "DbDelete K vertex1 vertex2 d =
     (let neighbors = snd (RocksDb_Get K d vertex1 []);
          d = (if vertex2 \<in> set neighbors then fst (RocksDb_Put K vertex1 (remove1 vertex2 neighbors) d) else d);
          neighbors = snd (RocksDb_Get K d vertex2 [])
      in if vertex1 \<in> set neighbors then fst (RocksDb_Put K vertex2 (remove1 vertex1 neighbors) d) else d)"

text \<open>\<^verbatim>\<open>std::binary_search\<close> requires a range that is partitioned with respect to the value; without it there is no
  defined result.\<close>

definition binary_search :: "u32 list \<Rightarrow> u32 \<Rightarrow> bool option" where
  "binary_search xs v =
     (if list_all (\<lambda>x. \<not> x < v) (dropWhile (\<lambda>x. x < v) xs) \<and> list_all (\<lambda>x. v < x) (dropWhile (\<lambda>x. \<not> v < x) xs)
      then Some (v \<in> set xs) else None)"

text \<open>\<^verbatim>\<open>DbQuery\<close> with \<^verbatim>\<open>DB_QUERY == 1\<close> and a \<^verbatim>\<open>db_type_\<close> of 0, the only one left.\<close>

definition DbQuery :: "'d kv_store \<Rightarrow> 'd \<Rightarrow> u32 \<Rightarrow> u32 \<Rightarrow> bool option" where
  "DbQuery K d vertex1 vertex2 = binary_search (snd (RocksDb_Get K d vertex1 [])) vertex2"

definition GetNeighborSize :: "'d kv_store \<Rightarrow> 'd \<Rightarrow> u32 \<Rightarrow> nat" where
  "GetNeighborSize K d vertex = length (snd (RocksDb_Get K d vertex []))"

definition TestEdgeByAdj :: "adjacency \<Rightarrow> u32 \<Rightarrow> u32 \<Rightarrow> bool option" where
  "TestEdgeByAdj adj vertex1 vertex2 = do {
     n1 \<leftarrow> aget adj (unat vertex1);
     n2 \<leftarrow> aget adj (unat vertex2);
     let (vertex1, vertex2) = (if length n1 > length n2 then (vertex2, vertex1) else (vertex1, vertex2));
     ns \<leftarrow> aget adj (unat vertex1);
     binary_search ns vertex2 }"

definition LoadDataFromDb :: "config \<Rightarrow> 'd kv_store \<Rightarrow> 'd \<Rightarrow> adjacency \<Rightarrow> adjacency option" where
  "LoadDataFromDb cfg K d adj = do {
     let adj = resize ((VERTEX_SIZE cfg + 1) mod 2 ^ 32) [] adj;
     items \<leftarrow> RocksDb_scan K d;
     foldo (\<lambda>(vertex, neighbors) adj. aput adj (unat vertex) (sort neighbors)) items adj }"

section \<open>LargeGraph\<close>

text \<open>\<^verbatim>\<open>adj\<close> is the sequence of the entries in the order in which the map is traversed.\<close>

definition UpdateEdges :: "'d kv_store \<Rightarrow> (u32 \<times> u32 list) list \<Rightarrow> 'd \<Rightarrow> 'd option" where
  "UpdateEdges K adj d = RocksDb_BatchWrite K (map fst adj)
     (map (\<lambda>(key, ns). case RocksDb_Get K d key [] of (True, old) \<Rightarrow> old @ ns | (False, _) \<Rightarrow> ns) adj) d"

definition InitGraph :: "config \<Rightarrow> 'd kv_store \<Rightarrow> 'd \<Rightarrow> adjacency option" where
  "InitGraph cfg K d = do {
     let adj = resize (VERTEX_SIZE cfg + 1) [] [];
     items \<leftarrow> RocksDb_scan K d;
     foldo (\<lambda>(vertex, neighbors) adj. aput adj (unat vertex) neighbors) items adj }"

text \<open>What \<^verbatim>\<open>LoadAndSaveData\<close> still does: it counts the edges and the vertices of the file.\<close>

definition LargeGraph_LoadAndSaveData :: "string \<Rightarrow> (nat \<times> u32 set) option" where
  "LargeGraph_LoadAndSaveData file =
     foldo (\<lambda>line (idx, vset). do {
         r \<leftarrow> sscanf_pair line;
         Some (case r of None \<Rightarrow> (idx, vset) | Some (vertex1, vertex2) \<Rightarrow> (idx + 1, insert vertex2 (insert vertex1 vset))) })
       (fgets_lines file) (0, {})"

end
