(* ===== verification/Graph_Store_Laws.thy ===== *)
theory Graph_Store_Laws
  imports Graph_Store
begin

text \<open>
  Laws of the graph database: lists of neighbours survive the way through the byte strings, the lists that
  \<^verbatim>\<open>SaveData\<close> writes are those that \<^verbatim>\<open>LoadDataFromDb\<close> reads, and what the updates do to a stored list.
\<close>

section \<open>Bytes\<close>

lemma bytes_word_bytes: "bytes_word (word_bytes v) = v"
proof (rule bit_word_eqI)
  fix n assume "n < LENGTH(32)"
  then consider "n < 8" | "8 \<le> n" "n < 16" | "16 \<le> n" "n < 24" | "24 \<le> n" "n < 32" by fastforce
  then show "bit (bytes_word (word_bytes v)) n = bit v n"
    by cases (auto simp: bytes_word_def word_bytes_def bit_or_iff bit_push_bit_iff bit_ucast_iff bit_drop_bit_eq)
qed

lemma length_word_bytes [simp]: "length (word_bytes v) = 4"
  by (simp add: word_bytes_def)

lemma length_ValueToString [simp]: "length (ValueToString xs) = 4 * length xs"
  by (induction xs) (simp_all add: ValueToString_def)

lemma ValueToString_nth:
  "i < length xs \<Longrightarrow> take 4 (drop (4 * i) (ValueToString xs)) = word_bytes (xs ! i)"
proof (induction xs arbitrary: i)
  case (Cons x xs)
  have "ValueToString (x # xs) = word_bytes x @ ValueToString xs" by (simp add: ValueToString_def)
  then show ?case using Cons by (cases i) simp_all
qed simp

lemma StringToValue_ValueToString [simp]: "StringToValue (ValueToString xs) = xs"
  by (rule nth_equalityI) (simp_all add: StringToValue_def ValueToString_nth bytes_word_bytes)

lemma StringToValue_key_to_string [simp]: "StringToValue_key (to_string k) = Some k"
proof -
  have "scan_int ([] @ to_string k @ []) = Some (int (unat k), [])" by (rule scan_int_to_string) simp_all
  moreover have "\<bar>int (unat k)\<bar> < 2 ^ 64" using unsigned_less [where ?'a = int, of k] by simp
  ultimately show ?thesis by (simp add: StringToValue_key_def)
qed

section \<open>Reading what was written\<close>

lemma kv_lawsD:
  assumes "kv_laws K"
  shows "snd (kv_put K k v d)" "kv_get K (fst (kv_put K k v d)) k' = (if k' = k then KvData v else kv_get K d k')"
    "distinct (map fst (kv_items K d))" "(k, v) \<in> set (kv_items K d) \<longleftrightarrow> kv_get K d k = KvData v"
  using assms unfolding kv_laws_def by blast+

lemma get_put:
  assumes "kv_laws K"
  shows "RocksDb_Get K (fst (RocksDb_Put K key xs d)) key' ys =
    (if key' = key \<and> xs \<noteq> [] then (True, xs) else RocksDb_Get K d key' ys)"
  by (simp add: RocksDb_Get_def RocksDb_Put_def kv_lawsD(2) [OF assms] to_string_inj)

text \<open>The lists of a graph in the database.\<close>

definition db_holds :: "'d kv_store \<Rightarrow> 'd \<Rightarrow> (u32 \<Rightarrow> u32 list) \<Rightarrow> bool" where
  "db_holds K d ls \<longleftrightarrow>
     (\<forall>k. kv_get K d (to_string k) = (if ls k = [] then IsNotFound else KvData (ValueToString (ls k)))) \<and>
     (\<forall>s. s \<notin> range to_string \<longrightarrow> kv_get K d s = IsNotFound)"

lemma db_holds_empty: "kv_empty K d \<Longrightarrow> db_holds K d (\<lambda>k. [])"
  by (simp add: kv_empty_def db_holds_def)

lemma db_holds_get:
  assumes "db_holds K d ls"
  shows "RocksDb_Get K d k ys = (ls k \<noteq> [], if ls k = [] then ys else ls k)"
  using assms by (simp add: db_holds_def RocksDb_Get_def)

lemma db_holds_put:
  assumes "kv_laws K" "db_holds K d ls"
  shows "db_holds K (fst (RocksDb_Put K k xs d)) (if xs = [] then ls else ls(k := xs))"
  using assms(2) by (auto simp: db_holds_def RocksDb_Put_def kv_lawsD(2) [OF assms(1)] to_string_inj)

text \<open>The updates of an edge, on the stored lists. The second list of an insertion is the first one if the
  second vertex has no entry.\<close>

lemma DbInsert_holds:
  assumes "kv_laws K" "db_holds K d ls" "u \<noteq> v"
  shows "db_holds K (DbInsert K u v d)
    (ls(u := ls u @ [v], v := (if ls v = [] then ls u @ [v] else ls v) @ [u]))"
proof -
  let ?d = "fst (RocksDb_Put K u (ls u @ [v]) d)"
  have 1: "db_holds K ?d (ls(u := ls u @ [v]))" using db_holds_put [OF assms(1,2), of u "ls u @ [v]"] by simp
  have "snd (RocksDb_Get K d u []) = ls u" by (simp add: db_holds_get [OF assms(2)])
  moreover have "snd (RocksDb_Get K ?d v (ls u @ [v])) = (if ls v = [] then ls u @ [v] else ls v)"
    using assms(3) by (simp add: db_holds_get [OF 1])
  ultimately show ?thesis using db_holds_put [OF assms(1) 1, of v "(if ls v = [] then ls u @ [v] else ls v) @ [u]"]
    by (simp add: DbInsert_def Let_def)
qed

definition stored_remove :: "u32 \<Rightarrow> u32 list \<Rightarrow> u32 list" where
  "stored_remove v xs = (if xs = [v] then xs else remove1 v xs)"

lemma DbDelete_holds:
  assumes "kv_laws K" "db_holds K d ls" "u \<noteq> v"
  shows "db_holds K (DbDelete K u v d) (ls(u := stored_remove v (ls u), v := stored_remove u (ls v)))"
proof -
  have rm: "(if remove1 x xs = [] then xs else remove1 x xs) = stored_remove x xs" if "x \<in> set xs" for x :: u32 and xs
    using that by (cases xs) (auto simp: stored_remove_def)
  have step: "db_holds K (if x \<in> set (snd (RocksDb_Get K d k [])) then fst (RocksDb_Put K k (remove1 x (snd (RocksDb_Get K d k []))) d) else d)
      (ls(k := stored_remove x (ls k)))" if "db_holds K d ls" for d ls k x
  proof -
    have "snd (RocksDb_Get K d k []) = ls k" by (simp add: db_holds_get [OF that])
    moreover have "stored_remove x (ls k) = ls k" if "x \<notin> set (ls k)" using that by (simp add: stored_remove_def remove1_idem)
    moreover have "(if remove1 x (ls k) = [] then ls else ls(k := remove1 x (ls k))) = ls(k := stored_remove x (ls k))" if "x \<in> set (ls k)"
      using rm [OF that] by auto
    ultimately show ?thesis using db_holds_put [OF assms(1) that, of k "remove1 x (ls k)"] that by auto
  qed
  from step [OF step [OF assms(2), of v u], of u v] assms(3) show ?thesis by (simp add: DbDelete_def Let_def)
qed

section \<open>SaveData and LoadDataFromDb\<close>

text \<open>The lists of the vertices.\<close>

definition lists_of :: "config \<Rightarrow> adjacency \<Rightarrow> u32 \<Rightarrow> u32 list" where
  "lists_of cfg adj v = (if is_vertex cfg v then adj ! unat v else [])"

lemma SaveData_holds:
  assumes "kv_laws K" "db_holds K d ls" "length adj = VERTEX_SIZE cfg + 1" "VERTEX_SIZE cfg < 2 ^ 32 - 1"
  shows "\<exists>d'. SaveData cfg K adj d = Some d' \<and> db_holds K d' (\<lambda>v. ls v @ lists_of cfg adj v)"
proof -
  define f where "f = (\<lambda>id d. do { ns \<leftarrow> aget adj id; if ns = [] then Some d
      else Some (fst (RocksDb_Put K (of_nat id) (snd (RocksDb_Get K d (of_nat id) []) @ ns) d)) })"
  have "\<exists>d'. foldo f [1..<m + 1] d = Some d' \<and>
      db_holds K d' (\<lambda>v. ls v @ (if 0 < v \<and> unat v \<le> m then adj ! unat v else []))" if "m \<le> VERTEX_SIZE cfg" for m
    using that
  proof (induction m)
    case 0
    have "(\<lambda>v. ls v @ (if 0 < v \<and> unat v \<le> 0 then adj ! unat v else [])) = ls" by (intro ext) (auto simp: word_less_nat_alt)
    then show ?case using assms(2) by simp
  next
    case (Suc m)
    let ?L = "\<lambda>m v. ls v @ (if 0 < v \<and> unat v \<le> m then adj ! unat v else [])"
    from Suc obtain d1 where d1: "foldo f [1..<m + 1] d = Some d1" "db_holds K d1 (?L m)" by auto
    define k :: u32 where "k = of_nat (Suc m)"
    have "unat k = Suc m" using Suc.prems assms(4) unfolding k_def unat_of_nat by (simp del: of_nat_Suc)
    then have k: "unat k = Suc m" "0 < k" by (simp_all add: word_less_nat_alt)
    have other: "?L (Suc m) v = ?L m v" if "v \<noteq> k" for v using that k(1) by (auto simp: le_Suc_eq word_unat_eq_iff)
    have old: "?L m k = ls k" using k by simp
    have fs: "f (Suc m) d1 = (if adj ! Suc m = [] then Some d1 else Some (fst (RocksDb_Put K k (ls k @ adj ! Suc m) d1)))"
      using Suc.prems assms(3) db_holds_get [OF d1(2), of k "[]"] old unfolding f_def k_def [symmetric] by simp
    have upd: "(?L m)(k := ls k @ adj ! Suc m) = ?L (Suc m)" using other k by (intro ext) auto
    have same: "?L (Suc m) = ?L m" if "adj ! Suc m = []" using other old k that by (intro ext, case_tac "v = k") auto
    have "[1..<Suc m + 1] = [1..<m + 1] @ [Suc m]" by simp
    then have run: "foldo f [1..<Suc m + 1] d = f (Suc m) d1" by (simp only: foldo_append d1(1) bind.bind_lunit foldo_single)
    show ?case
    proof (cases "adj ! Suc m = []")
      case True
      then show ?thesis using run fs d1(2) same by simp
    next
      case False
      from db_holds_put [OF assms(1) d1(2), of k "ls k @ adj ! Suc m"] False upd run fs show ?thesis by simp
    qed
  qed
  moreover have "adj \<noteq> []" using assms(3) by auto
  ultimately show ?thesis using assms(4) unfolding SaveData_def f_def [symmetric] lists_of_def is_vertex_def by (simp del: upt_Suc)
qed

lemma scan_holds:
  assumes "kv_laws K" "db_holds K d ls"
  shows "\<exists>xs. RocksDb_scan K d = Some xs \<and> distinct (map fst xs) \<and> (\<forall>k v. (k, v) \<in> set xs \<longleftrightarrow> v = ls k \<and> ls k \<noteq> [])"
proof -
  have item: "\<exists>k. s = to_string k \<and> b = ValueToString (ls k) \<and> ls k \<noteq> []" if "(s, b) \<in> set (kv_items K d)" for s b
  proof -
    have g: "kv_get K d s = KvData b" using that by (simp add: kv_lawsD(4) [OF assms(1)])
    then have "s \<in> range to_string" using assms(2) unfolding db_holds_def by (metis kv_status.distinct(1))
    then obtain k where "s = to_string k" by blast
    then show ?thesis using g assms(2) by (auto simp: db_holds_def split: if_splits)
  qed
  have stored: "(to_string k, ValueToString (ls k)) \<in> set (kv_items K d)" if "ls k \<noteq> []" for k
    using that assms(2) by (simp add: kv_lawsD(4) [OF assms(1)] db_holds_def)
  let ?g = "\<lambda>(s, b). (the (StringToValue_key s), StringToValue b)"
  have "foldo (\<lambda>(k, v) out. do { key \<leftarrow> StringToValue_key k; Some (out @ [(key, StringToValue v)]) }) xs out = Some (out @ map ?g xs)"
    if "set xs \<subseteq> set (kv_items K d)" for xs out
    using that
  proof (induction xs arbitrary: out)
    case (Cons x xs)
    obtain k where "x = (to_string k, ValueToString (ls k))" using item [of "fst x" "snd x"] Cons.prems by (metis list.set_intros(1) prod.collapse subsetD)
    then show ?case using Cons by simp
  qed simp
  then have "RocksDb_scan K d = Some (map ?g (kv_items K d))" by (simp add: RocksDb_scan_def)
  moreover have "inj_on fst (set (kv_items K d))" "distinct (kv_items K d)" using kv_lawsD(3) [OF assms(1), of d] by (auto simp: distinct_map)
  then have "distinct (map fst (map ?g (kv_items K d)))"
    unfolding map_map distinct_map using item by (auto simp: inj_on_def) (metis option.sel StringToValue_key_to_string item)+
  moreover have "(k, v) \<in> set (map ?g (kv_items K d)) \<longleftrightarrow> v = ls k \<and> ls k \<noteq> []" for k v
    using item stored [of k] by (fastforce intro: rev_image_eqI)
  ultimately show ?thesis by blast
qed

lemma put_lists:
  assumes "distinct (map fst xs)" "\<forall>(k, v) \<in> set xs. unat k < length adj"
  shows "\<exists>adj'. foldo (\<lambda>(k, v) adj. aput adj (unat k) (f v)) xs adj = Some adj' \<and> length adj' = length adj \<and>
    (\<forall>(k, v) \<in> set xs. adj' ! unat k = f v) \<and> (\<forall>k. k \<notin> fst ` set xs \<longrightarrow> adj' ! unat (k :: u32) = adj ! unat k)"
  using assms
proof (induction xs arbitrary: adj)
  case (Cons x xs)
  obtain k v where x: "x = (k, v)" by fastforce
  have "\<forall>(w, v) \<in> set xs. unat w < length (adj[unat k := f v])" for v using Cons.prems(2) by auto
  with Cons.IH [of "adj[unat k := f v]"] Cons.prems(1) obtain adj' where "foldo (\<lambda>(k, v) adj. aput adj (unat k) (f v)) xs (adj[unat k := f v]) = Some adj'"
    "length adj' = length adj" "\<forall>(k, v) \<in> set xs. adj' ! unat k = f v"
    "\<forall>w. w \<notin> fst ` set xs \<longrightarrow> adj' ! unat w = adj[unat k := f v] ! unat w" by force
  moreover have "adj[unat k := f v] ! unat w = adj ! unat w" if "w \<noteq> k" for w using that by (simp add: nth_list_update word_unat_eq_iff)
  moreover have "k \<notin> fst ` set xs" "unat k < length adj" using Cons.prems by (auto simp: x)
  ultimately show ?case by (auto simp: x)
qed simp

lemma LoadDataFromDb_holds:
  assumes "kv_laws K" "db_holds K d ls" "\<And>v. ls v \<noteq> [] \<Longrightarrow> unat v \<le> VERTEX_SIZE cfg" "VERTEX_SIZE cfg < 2 ^ 32 - 1"
  shows "LoadDataFromDb cfg K d [] = Some (map (\<lambda>i. sort (ls (of_nat i))) [0..<VERTEX_SIZE cfg + 1])"
proof -
  obtain xs where xs: "RocksDb_scan K d = Some xs" "distinct (map fst xs)" "\<And>k v. (k, v) \<in> set xs \<longleftrightarrow> v = ls k \<and> ls k \<noteq> []"
    using scan_holds [OF assms(1,2)] by blast
  let ?adj = "replicate (VERTEX_SIZE cfg + 1) ([] :: u32 list)"
  have "\<forall>(k, v) \<in> set xs. unat k < length ?adj" using xs(3) assms(3) by (auto simp: less_Suc_eq_le)
  from put_lists [OF xs(2) this, of sort] obtain adj' where
    a: "foldo (\<lambda>(k, v) adj. aput adj (unat k) (sort v)) xs ?adj = Some adj'" "length adj' = VERTEX_SIZE cfg + 1"
    "\<forall>(k, v) \<in> set xs. adj' ! unat k = sort v" "\<forall>k. k \<notin> fst ` set xs \<longrightarrow> adj' ! unat k = ?adj ! unat k" by auto
  have "adj' = map (\<lambda>i. sort (ls (of_nat i))) [0..<VERTEX_SIZE cfg + 1]"
  proof (rule nth_equalityI)
    fix i assume "i < length adj'"
    then have i: "i < VERTEX_SIZE cfg + 1" using a(2) by simp
    define k :: u32 where "k = of_nat i"
    have k: "unat k = i" using i assms(4) by (simp add: k_def unat_of_nat)
    have "adj' ! unat k = sort (ls k)"
    proof (cases "ls k = []")
      case True
      then have "k \<notin> fst ` set xs" using xs(3) by auto
      then have "adj' ! unat k = ?adj ! unat k" using a(4) by blast
      also have "\<dots> = []" unfolding k using i by (rule nth_replicate)
      finally show ?thesis using True by simp
    qed (use a(3) xs(3) [of k "ls k"] in auto)
    then show "adj' ! i = map (\<lambda>i. sort (ls (of_nat i))) [0..<VERTEX_SIZE cfg + 1] ! i" using k i by (simp add: k_def del: upt_Suc)
  qed (use a(2) in simp)
  moreover have "(VERTEX_SIZE cfg + 1) mod 2 ^ 32 = VERTEX_SIZE cfg + 1" using assms(4) by (intro mod_less) simp
  ultimately show ?thesis using a(1) xs(1) by (simp only: LoadDataFromDb_def) (simp add: resize_def case_prod_unfold del: replicate.simps upt_Suc)
qed

end
