(* ===== verification/Executions.thy ===== *)
theory Executions
  imports Graph_Store_Laws Delta_Vend
begin

text \<open>
  The executions of the program: building the database and an encoding, querying, inserting and deleting pairs. They
  use a VEND through the interface of the class \<^verbatim>\<open>Vend\<close>, here a record of its operations; the file of an encoding
  is the list of its lines. \<^verbatim>\<open>Graph::Init\<close> is that of \<^verbatim>\<open>IN_MEMORY == 1\<close> and \<^verbatim>\<open>SAVE_ENCODE == 1\<close>.
\<close>

section \<open>Vend\<close>

record ('s, 'f) vend =
  v_BuildEncoding :: "adjacency \<Rightarrow> adjacency \<Rightarrow> 's option"
  v_EncodePersistent :: "'s \<Rightarrow> 'f list option"
  v_LoadEncode :: "'f list \<Rightarrow> 's option"
  v_Determine :: "'s \<Rightarrow> u32 \<Rightarrow> u32 \<Rightarrow> PairType option"
  v_Insert :: "u32 \<Rightarrow> u32 \<Rightarrow> 's \<Rightarrow> 's option"
  v_Delete :: "u32 \<Rightarrow> u32 \<Rightarrow> 's \<Rightarrow> 's option"

section \<open>Graph\<close>

record 's graph =
  g_adj :: adjacency
  g_in_adj :: adjacency
  g_vend :: "'s option"

text \<open>\<^verbatim>\<open>BuildEncode\<close> returns the encoding and the file that it writes.\<close>

definition BuildEncode :: "('s, 'f) vend \<Rightarrow> adjacency \<times> adjacency \<Rightarrow> ('s \<times> 'f list) option" where
  "BuildEncode V = (\<lambda>(adj, in_adj). do {
     s \<leftarrow> v_BuildEncoding V adj in_adj;
     f \<leftarrow> v_EncodePersistent V s;
     Some (s, f) })"

text \<open>\<open>db\<close> is \<^verbatim>\<open>None\<close> if no path was given: then \<^verbatim>\<open>LoadDataFromDb\<close> dereferences a null pointer. \<open>data\<close> is the graph file,
  \<open>enc\<close> the file of the encoding, if they exist. A missing file of an encoding is read as an empty one. Several constructors
  leave \<^verbatim>\<open>db_type_\<close> uninitialised; here it is 0, RocksDB, the only kind of database that is not commented out.\<close>

definition Graph_Init :: "config \<Rightarrow> 'd kv_store \<Rightarrow> bool \<Rightarrow> 'd option \<Rightarrow> ('s, 'f) vend option \<Rightarrow> string option \<Rightarrow> 'f list option \<Rightarrow>
    ('s graph \<times> 'f list option) option" where
  "Graph_Init cfg K directed db vend data enc = do {
     d \<leftarrow> db;
     adj \<leftarrow> LoadDataFromDb cfg K d [];
     (case vend of
        None \<Rightarrow> Some (\<lparr>g_adj = adj, g_in_adj = [], g_vend = None\<rparr>, enc)
      | Some V \<Rightarrow>
          (case (enc, data) of
             (None, Some file) \<Rightarrow> do {
               (adj, in_adj) \<leftarrow> LoadData cfg directed file (adj, []);
               (s, f) \<leftarrow> BuildEncode V (adj, in_adj);
               Some (\<lparr>g_adj = adj, g_in_adj = in_adj, g_vend = Some s\<rparr>, Some f) }
           | _ \<Rightarrow> do {
               s \<leftarrow> v_LoadEncode V (case enc of None \<Rightarrow> [] | Some f \<Rightarrow> f);
               Some (\<lparr>g_adj = adj, g_in_adj = [], g_vend = Some s\<rparr>, enc) })) }"

definition LoadAndSaveData :: "config \<Rightarrow> 'd kv_store \<Rightarrow> bool \<Rightarrow> string \<Rightarrow> 's graph \<Rightarrow> 'd \<Rightarrow> 'd option" where
  "LoadAndSaveData cfg K directed file g d = do {
     (adj, in_adj) \<leftarrow> LoadData cfg directed file (g_adj g, g_in_adj g);
     SaveData cfg K adj d }"

definition GetEdge :: "('s, 'f) vend \<Rightarrow> 's graph \<Rightarrow> u32 \<Rightarrow> u32 \<Rightarrow> PairType option" where
  "GetEdge V g vertex1 vertex2 = do { s \<leftarrow> g_vend g; v_Determine V s vertex1 vertex2 }"

definition AddEdge :: "('s, 'f) vend \<Rightarrow> u32 \<Rightarrow> u32 \<Rightarrow> 's graph \<Rightarrow> 's graph option" where
  "AddEdge V vertex1 vertex2 g = do { s \<leftarrow> g_vend g; s \<leftarrow> v_Insert V vertex1 vertex2 s; Some (g\<lparr>g_vend := Some s\<rparr>) }"

definition RemoveEdge :: "('s, 'f) vend \<Rightarrow> u32 \<Rightarrow> u32 \<Rightarrow> 's graph \<Rightarrow> 's graph option" where
  "RemoveEdge V vertex1 vertex2 g = do { s \<leftarrow> g_vend g; s \<leftarrow> v_Delete V vertex1 vertex2 s; Some (g\<lparr>g_vend := Some s\<rparr>) }"

section \<open>Executions\<close>

text \<open>\<^verbatim>\<open>BuildExecution::Execute\<close>: the database and the file of the encoding afterwards.\<close>

definition BuildExecution_Execute :: "config \<Rightarrow> 'd kv_store \<Rightarrow> ('s, 'f) vend option \<Rightarrow> string \<Rightarrow> 'd \<times> 'f list option \<Rightarrow> ('d \<times> 'f list option) option" where
  "BuildExecution_Execute cfg K vend file = (\<lambda>(d, enc). do {
     (g, enc) \<leftarrow> Graph_Init cfg K False (Some d) vend (Some file) enc;
     (case vend of
        None \<Rightarrow> do { d \<leftarrow> LoadAndSaveData cfg K False file g d; Some (d, enc) }
      | Some V \<Rightarrow> Some (d, enc)) })"

record query_result =
  filtered :: nat
  res :: nat
  true_false :: nat
  f_items :: nat

definition query_pair :: "('s, 'f) vend \<Rightarrow> 's graph \<Rightarrow> u32 \<times> u32 \<Rightarrow> query_result \<Rightarrow> query_result option" where
  "query_pair V g = (\<lambda>(vertex1, vertex2) q. do {
     type \<leftarrow> GetEdge V g vertex1 vertex2;
     if type \<noteq> Uncertain then
       let q = q\<lparr>filtered := filtered q + 1\<rparr> in
       Some (if type = Neighbor then q\<lparr>res := res q + 1\<rparr> else q\<lparr>true_false := true_false q + 1\<rparr>)
     else do {
       b \<leftarrow> TestEdgeByAdj (g_adj g) vertex1 vertex2;
       Some (if \<not> b then q\<lparr>f_items := f_items q + 1\<rparr> else q\<lparr>res := res q + 1\<rparr>) } })"

definition query_pair_adj :: "'s graph \<Rightarrow> u32 \<times> u32 \<Rightarrow> query_result \<Rightarrow> query_result option" where
  "query_pair_adj g = (\<lambda>(vertex1, vertex2) q. do {
     b \<leftarrow> TestEdgeByAdj (g_adj g) vertex1 vertex2;
     Some (if b then q\<lparr>res := res q + 1\<rparr> else q) })"

text \<open>\<^verbatim>\<open>QueryExecution::Execute\<close> with an existing list of pairs.\<close>

definition QueryExecution_Execute :: "config \<Rightarrow> 'd kv_store \<Rightarrow> ('s, 'f) vend option \<Rightarrow> 'd \<times> 'f list option \<Rightarrow> u32 \<times> u32 \<Rightarrow> string \<Rightarrow> query_result option" where
  "QueryExecution_Execute cfg K vend = (\<lambda>(d, enc) uninit pairs. do {
     (g, enc) \<leftarrow> Graph_Init cfg K False (Some d) vend None enc;
     let pair_list = LoadPairList uninit pairs [];
     let q = \<lparr>filtered = 0, res = 0, true_false = 0, f_items = 0\<rparr>;
     (case vend of
        Some V \<Rightarrow> foldo (query_pair V g) pair_list q
      | None \<Rightarrow> foldo (query_pair_adj g) pair_list q) })"

text \<open>The loops of \<^verbatim>\<open>InsertExecution\<close>, \<^verbatim>\<open>DeleteExecution\<close> and \<^verbatim>\<open>InsertDeleteExecution\<close>; the last two stop at the tenth pair if the
  VEND is the Bloom filter of bits.\<close>

definition InsertExecution_loop :: "('s, 'f) vend \<Rightarrow> (u32 \<times> u32) list \<Rightarrow> 's graph \<Rightarrow> 's graph option" where
  "InsertExecution_loop V = foldo (\<lambda>(vertex1, vertex2). AddEdge V vertex1 vertex2)"

fun DeleteExecution_loop :: "('s, 'f) vend \<Rightarrow> bool \<Rightarrow> nat \<Rightarrow> (u32 \<times> u32) list \<Rightarrow> 's graph \<Rightarrow> (nat \<times> 's graph) option" where
  "DeleteExecution_loop V is_bit batch [] g = Some (batch, g)"
| "DeleteExecution_loop V is_bit batch (p # ps) g =
     (let batch = batch + 1 in
      if is_bit \<and> batch \<ge> 10 then Some (batch, g)
      else do { g \<leftarrow> RemoveEdge V (fst p) (snd p) g; DeleteExecution_loop V is_bit batch ps g })"

fun InsertDeleteExecution_loop :: "('s, 'f) vend \<Rightarrow> bool \<Rightarrow> nat \<Rightarrow> (u32 \<times> u32) list \<Rightarrow> 's graph \<Rightarrow> (nat \<times> 's graph) option" where
  "InsertDeleteExecution_loop V is_bit batch [] g = Some (batch, g)"
| "InsertDeleteExecution_loop V is_bit batch (p # ps) g =
     (let batch = batch + 1 in
      if is_bit \<and> batch \<ge> 10 then Some (batch, g)
      else do {
        g \<leftarrow> RemoveEdge V (fst p) (snd p) g;
        g \<leftarrow> AddEdge V (fst p) (snd p) g;
        InsertDeleteExecution_loop V is_bit batch ps g })"

section \<open>The delta VEND\<close>

text \<open>Versions 0 to 2 have an empty \<^verbatim>\<open>InsertPair\<close> and inherit the empty \<^verbatim>\<open>DeletePair\<close>; \<open>dbq\<close> is the database that version 3
  asks for the neighbours of a vertex.\<close>

definition DeltaSIMDVEND :: "config \<Rightarrow> DeltaType \<Rightarrow> (u32 list \<Rightarrow> u32 list) \<Rightarrow> (nat \<Rightarrow> u8) \<Rightarrow> (u32 \<Rightarrow> u32 list) \<Rightarrow> (encoding, encode_line) vend" where
  "DeltaSIMDVEND cfg t ord pad dbq = \<lparr>
     v_BuildEncoding = (\<lambda>adj in_adj. DeltaSIMDVEND_BuildEncoding cfg t ord adj (SIMDEncode cfg)),
     v_EncodePersistent = (\<lambda>st. SIMD_EncodePersistent cfg st [] True),
     v_LoadEncode = (\<lambda>lines. map_option fst (SIMD_LoadFromDb lines True (SIMDEncode cfg, []))),
     v_Determine = DeltaSIMDVEND_Determine cfg t pad,
     v_Insert = (\<lambda>vertex1 vertex2 st. if t = V3 then V3_InsertPair pad cfg dbq vertex1 vertex2 st else Some st),
     v_Delete = (\<lambda>vertex1 vertex2 st. if t = V3 then V3_DeletePair pad cfg dbq vertex1 vertex2 st else Some st)\<rparr>"

end
