(* ===== verification/Executions_Spec.thy ===== *)
theory Executions_Spec
  imports Executions "HOL-Library.DAList"
begin

text \<open>
  The program as a whole: a graph file is read, encoded and stored, and a list of pairs is queried. The answers
  are exactly the edges of the file.
\<close>

section \<open>A store\<close>

text \<open>A store that keeps its entries in a list shows that the laws can hold.\<close>

definition list_store :: "(string, u8 list) alist kv_store" where
  "list_store = \<lparr>
     kv_get = (\<lambda>d k. case DAList.lookup d k of None \<Rightarrow> IsNotFound | Some v \<Rightarrow> KvData v),
     kv_put = (\<lambda>k v d. (DAList.update k v d, True)),
     kv_items = DAList.impl_of\<rparr>"

lemma list_store_simps:
  "kv_get list_store d k = (case DAList.lookup d k of None \<Rightarrow> IsNotFound | Some v \<Rightarrow> KvData v)"
  "kv_put list_store k v d = (DAList.update k v d, True)" "kv_items list_store d = DAList.impl_of d"
  by (simp_all add: list_store_def)

lemma list_store_laws: "kv_laws list_store"
proof -
  have "(k, v) \<in> set (DAList.impl_of d) \<longleftrightarrow> (case DAList.lookup d k of None \<Rightarrow> IsNotFound | Some v \<Rightarrow> KvData v) = KvData v"
    for k v and d :: "(string, u8 list) alist"
    by (auto simp: DAList.lookup_def map_of_eq_Some_iff split: option.splits)
      (metis impl_of_distinct map_of_is_SomeI option.distinct(1) option.inject)+
  then show ?thesis unfolding kv_laws_def list_store_simps by (simp add: lookup_update split: option.splits)
qed

lemma list_store_empty: "kv_empty list_store DAList.empty"
  by (simp add: kv_empty_def list_store_simps)

section \<open>Searching the adjacency list\<close>

lemma sorted_dropWhile:
  assumes "sorted (xs :: u32 list)" "\<And>x y. P x \<Longrightarrow> y \<le> x \<Longrightarrow> P y"
  shows "list_all (\<lambda>x. \<not> P x) (dropWhile P xs)"
  using assms(1)
proof (induction xs)
  case (Cons x xs)
  show ?case
  proof (cases "P x")
    case False
    then have "\<not> P y" if "y \<in> set xs" for y using that Cons.prems assms(2) by fastforce
    then show ?thesis using False by (simp add: list_all_iff)
  qed (use Cons in simp)
qed simp

lemma binary_search_sorted:
  assumes "sorted xs"
  shows "binary_search xs v = Some (v \<in> set xs)"
proof -
  have "list_all (\<lambda>x. \<not> x < v) (dropWhile (\<lambda>x. x < v) xs)" by (rule sorted_dropWhile [OF assms]) (rule le_less_trans)
  moreover have "list_all (\<lambda>x. \<not> \<not> v < x) (dropWhile (\<lambda>x. \<not> v < x) xs)"
    by (rule sorted_dropWhile [OF assms]) (metis le_less_trans not_le)
  ultimately show ?thesis by (simp add: binary_search_def)
qed

lemma TestEdgeByAdj_loaded:
  assumes "is_vertex cfg u" "is_vertex cfg v"
  shows "TestEdgeByAdj (loaded cfg es) u v = Some (is_edge es u v)"
proof -
  have "unat w < length (loaded cfg es)" if "is_vertex cfg w" for w using that by (simp add: loaded_def is_vertex_def)
  moreover have "is_edge es v u = is_edge es u v" by (auto simp: is_edge_def)
  ultimately show ?thesis using assms
    by (simp add: TestEdgeByAdj_def loaded_nth binary_search_sorted set_nbrs)
qed

section \<open>The loops over the pairs\<close>

lemma query_loop:
  assumes "\<And>u v. (u, v) \<in> set ps \<Longrightarrow> \<exists>r. GetEdge V g u v = Some r \<and> answer_ok r (E u v)"
    "\<And>u v. (u, v) \<in> set ps \<Longrightarrow> TestEdgeByAdj (g_adj g) u v = Some (E u v)"
  shows "\<exists>q'. foldo (query_pair V g) ps q = Some q' \<and> res q' = res q + length (filter (\<lambda>(u, v). E u v) ps) \<and>
    true_false q' + f_items q' = true_false q + f_items q + length (filter (\<lambda>(u, v). \<not> E u v) ps)"
  using assms
proof (induction ps arbitrary: q)
  case (Cons p ps)
  obtain u v where p: "p = (u, v)" by fastforce
  obtain r where r: "GetEdge V g u v = Some r" "answer_ok r (E u v)" using Cons.prems(1) [of u v] p by auto
  have t: "TestEdgeByAdj (g_adj g) u v = Some (E u v)" using Cons.prems(2) p by simp
  have "\<exists>q1. query_pair V g p q = Some q1 \<and> res q1 = res q + (if E u v then 1 else 0) \<and>
      true_false q1 + f_items q1 = true_false q + f_items q + (if E u v then 0 else 1)"
    using r t by (cases r) (auto simp: query_pair_def p Let_def)
  then obtain q1 where q1: "query_pair V g p q = Some q1" "res q1 = res q + (if E u v then 1 else 0)"
    "true_false q1 + f_items q1 = true_false q + f_items q + (if E u v then 0 else 1)" by blast
  from Cons.IH [of q1] Cons.prems obtain q' where "foldo (query_pair V g) ps q1 = Some q'" "res q' = res q1 + length (filter (\<lambda>(u, v). E u v) ps)"
    "true_false q' + f_items q' = true_false q1 + f_items q1 + length (filter (\<lambda>(u, v). \<not> E u v) ps)" by auto
  then show ?case using q1 by (simp add: p)
qed simp

lemma query_loop_adj:
  assumes "\<And>u v. (u, v) \<in> set ps \<Longrightarrow> TestEdgeByAdj (g_adj g) u v = Some (E u v)"
  shows "foldo (query_pair_adj g) ps q = Some (q\<lparr>res := res q + length (filter (\<lambda>(u, v). E u v) ps)\<rparr>)"
  using assms
proof (induction ps arbitrary: q)
  case (Cons p ps)
  obtain u v where "p = (u, v)" by fastforce
  then show ?case using Cons by (simp add: query_pair_adj_def)
qed simp

section \<open>Loading and saving\<close>

lemma length_loaded: "length (loaded cfg es) = VERTEX_SIZE cfg + 1"
  by (simp add: loaded_def)

lemma resize_same: "length xs = n \<Longrightarrow> resize n x xs = xs"
  by (simp add: resize_def)

lemma nbrs_0:
  assumes "simple_edges cfg es"
  shows "nbrs es 0 = []"
proof -
  have "\<not> is_edge es 0 u" for u using assms by (auto simp: is_edge_def simple_edges_def is_vertex_def)
  then have "set (nbrs es 0) = {}" using set_nbrs [of _ es 0] by (simp add: set_eq_iff)
  then show ?thesis by simp
qed

text \<open>The database with the lists of the file is loaded as the file is.\<close>

lemma LoadDataFromDb_loaded:
  assumes "kv_laws K" "db_holds K d (lists_of cfg (loaded cfg es))" "simple_edges cfg es" "VERTEX_SIZE cfg < 2 ^ 31"
  shows "LoadDataFromDb cfg K d [] = Some (loaded cfg es)"
proof -
  have "sort (lists_of cfg (loaded cfg es) (of_nat i)) = loaded cfg es ! i" if i: "i < VERTEX_SIZE cfg + 1" for i
  proof (cases "i = 0")
    case True
    then show ?thesis using nbrs_0 [OF assms(3)] by (simp add: lists_of_def is_vertex_def loaded_def del: upt_Suc)
  next
    case False
    have u: "unat (of_nat i :: u32) = i" using i assms(4) by (simp add: unat_of_nat)
    then have "is_vertex cfg (of_nat i)" using False i by (simp add: is_vertex_def word_less_nat_alt)
    from loaded_nth [OF this, of es] u this show ?thesis by (simp add: lists_of_def sorted_sort_id)
  qed
  then have "map (\<lambda>i. sort (lists_of cfg (loaded cfg es) (of_nat i))) [0..<VERTEX_SIZE cfg + 1] = loaded cfg es"
    by (intro nth_equalityI) (simp_all add: loaded_def del: upt_Suc)
  moreover have "unat v \<le> VERTEX_SIZE cfg" if "lists_of cfg (loaded cfg es) v \<noteq> []" for v
    using that by (simp add: lists_of_def is_vertex_def split: if_splits)
  ultimately show ?thesis using LoadDataFromDb_holds [OF assms(1,2)] assms(4) by simp
qed

lemma LoadDataFromDb_empty:
  assumes "kv_laws K" "kv_empty K d" "VERTEX_SIZE cfg < 2 ^ 31"
  shows "LoadDataFromDb cfg K d [] = Some (map (\<lambda>i. []) [0..<VERTEX_SIZE cfg + 1])"
  using LoadDataFromDb_holds [OF assms(1) db_holds_empty [OF assms(2)]] assms(3) by (simp del: upt_Suc)

lemma LoadData_again:
  assumes "simple_edges cfg es" "VERTEX_SIZE cfg < 2 ^ 31"
  shows "LoadData cfg False (edge_text es) (map f [0..<VERTEX_SIZE cfg + 1], in_adj) =
    Some (map (\<lambda>i. if 0 < i then sort (f i @ nbrs es i) else f i @ nbrs es i) [0..<VERTEX_SIZE cfg + 1], in_adj)"
proof -
  have "\<forall>(a, b) \<in> set es. unat a \<le> VERTEX_SIZE cfg \<and> unat b \<le> VERTEX_SIZE cfg"
    using assms(1) by (auto simp: simple_edges_def is_vertex_def)
  then show ?thesis by (rule LoadData_eq [OF _ assms(2)]) (rule resize_same, simp)
qed

lemma LoadData_empty:
  assumes "simple_edges cfg es" "VERTEX_SIZE cfg < 2 ^ 31"
  shows "LoadData cfg False (edge_text es) (map (\<lambda>i. []) [0..<VERTEX_SIZE cfg + 1], in_adj) = Some (loaded cfg es, in_adj)"
  unfolding LoadData_again [OF assms] loaded_def append_Nil ..

lemma build_empty:
  assumes "kv_laws K" "kv_empty K d" "simple_edges cfg es" "VERTEX_SIZE cfg < 2 ^ 31"
  shows "BuildExecution_Execute cfg K (Some V) (edge_text es) (d, None) =
    map_option (\<lambda>(s, f). (d, Some f)) (BuildEncode V (loaded cfg es, []))"
  unfolding BuildExecution_Execute_def Graph_Init_def
  by (auto simp: LoadDataFromDb_empty [OF assms(1,2,4)] LoadData_empty [OF assms(3,4)] map_option_case
      simp del: upt_Suc One_nat_def add_Suc_right split: bind_splits option.splits)

lemma save_empty:
  assumes "kv_laws K" "kv_empty K d" "simple_edges cfg es" "VERTEX_SIZE cfg < 2 ^ 31"
  shows "\<exists>d'. BuildExecution_Execute cfg K (None :: ('s, 'f) vend option) (edge_text es) (d, enc) = Some (d', enc) \<and>
    db_holds K d' (lists_of cfg (loaded cfg es))"
proof -
  obtain d' where "SaveData cfg K (loaded cfg es) d = Some d'" "db_holds K d' (lists_of cfg (loaded cfg es))"
    using SaveData_holds [OF assms(1) db_holds_empty [OF assms(2)], of "loaded cfg es" cfg] assms(4) by (auto simp: loaded_def simp del: upt_Suc)
  then show ?thesis unfolding BuildExecution_Execute_def Graph_Init_def LoadAndSaveData_def
    by (simp add: LoadDataFromDb_empty [OF assms(1,2,4)] LoadData_empty [OF assms(3,4)] del: upt_Suc One_nat_def add_Suc_right)
qed

text \<open>Without a VEND the type of its states does not matter.\<close>

lemma save_untyped:
  assumes "kv_laws K" "kv_empty K d" "simple_edges cfg es" "VERTEX_SIZE cfg < 2 ^ 31"
  shows "\<exists>d'. BuildExecution_Execute cfg K (None :: ('s, 'f) vend option) (edge_text es) (d, None) = Some (d', None) \<and>
    BuildExecution_Execute cfg K (None :: ('t, 'g) vend option) (edge_text es) (d, None) = Some (d', None)"
  unfolding BuildExecution_Execute_def Graph_Init_def LoadAndSaveData_def
  using SaveData_holds [OF assms(1) db_holds_empty [OF assms(2)], of "loaded cfg es" cfg] assms(4)
  by (auto simp: LoadDataFromDb_empty [OF assms(1,2,4)] LoadData_empty [OF assms(3,4)] length_loaded simp del: upt_Suc One_nat_def add_Suc_right)

section \<open>The contract of a VEND\<close>

text \<open>The lists of a simple graph.\<close>

definition simple_graph :: "config \<Rightarrow> adjacency \<Rightarrow> bool" where
  "simple_graph cfg adj \<longleftrightarrow> undirected cfg adj \<and>
     (\<forall>v. is_vertex cfg v \<longrightarrow> good_ids cfg (adj ! unat v) \<and> distinct (adj ! unat v) \<and> v \<notin> set (adj ! unat v))"

lemma simple_graphD:
  assumes "simple_graph cfg adj"
  shows "undirected cfg adj" "is_vertex cfg v \<Longrightarrow> good_ids cfg (adj ! unat v)" "is_vertex cfg v \<Longrightarrow> distinct (adj ! unat v)"
    "is_vertex cfg v \<Longrightarrow> v \<notin> set (adj ! unat v)"
  using assms unfolding simple_graph_def by blast+

lemma loaded_simple:
  assumes "simple_edges cfg es" "wf_config cfg" "VERTEX_SIZE cfg < 2 ^ VERTEX_BIT_SIZE cfg"
  shows "simple_graph cfg (loaded cfg es)"
proof -
  have "\<not> is_edge es v v" for v using assms(1) by (auto simp: is_edge_def simple_edges_def)
  then show ?thesis using loaded_ids [OF assms(1) _ assms(2,3)] loaded_undirected [OF assms(1)]
    by (simp add: simple_graph_def loaded_nth set_nbrs)
qed

text \<open>What the executions rely on: the encoding of a simple graph is built, it survives the way through its
  file, and \<^verbatim>\<open>Determine\<close> is truthful. \<open>ok\<close> is what the VEND asks of the configuration and \<open>encd\<close> says that a
  state encodes a graph.\<close>

locale sound_vend =
  fixes V :: "('s, 'f) vend"
    and cfg :: config
    and ok :: bool
    and encd :: "adjacency \<Rightarrow> 's \<Rightarrow> bool"
  assumes vend_build: "ok \<Longrightarrow> simple_graph cfg adj \<Longrightarrow> \<exists>s. v_BuildEncoding V adj in_adj = Some s \<and> encd adj s"
    and vend_reload: "ok \<Longrightarrow> encd adj s \<Longrightarrow> \<exists>f s'. v_EncodePersistent V s = Some f \<and> v_LoadEncode V f = Some s' \<and> encd adj s'"
    and vend_determine: "ok \<Longrightarrow> simple_graph cfg adj \<Longrightarrow> encd adj s \<Longrightarrow> is_vertex cfg u \<Longrightarrow> is_vertex cfg v \<Longrightarrow>
      \<exists>r. v_Determine V s u v = Some r \<and> answer_ok r (v \<in> set (adj ! unat u))"
begin

lemma query_exact:
  assumes "ok" "wf_config cfg" "VERTEX_SIZE cfg < 2 ^ 31" "VERTEX_SIZE cfg < 2 ^ VERTEX_BIT_SIZE cfg" "kv_laws K" "kv_empty K d"
    "simple_edges cfg es" "ps \<noteq> []" "\<forall>(u, v) \<in> set ps. is_vertex cfg u \<and> is_vertex cfg v" "ListPersistent ps = Some pairs"
  shows "\<exists>d' lines q. BuildExecution_Execute cfg K (Some V) (edge_text es) (d, None) = Some (d, Some lines) \<and>
    BuildExecution_Execute cfg K (None :: ('s, 'f) vend option) (edge_text es) (d, None) = Some (d', None) \<and>
    QueryExecution_Execute cfg K (Some V) (d', Some lines) uninit pairs = Some q \<and>
    res q = length (filter (\<lambda>(u, v). is_edge es u v) ps) \<and>
    true_false q + f_items q = length (filter (\<lambda>(u, v). \<not> is_edge es u v) ps) \<and>
    map_option res (QueryExecution_Execute cfg K (None :: ('s, 'f) vend option) (d', None) uninit pairs) = Some (res q)"
proof -
  note graph = loaded_simple [OF assms(7,2,4)]
  obtain s lines s' where s: "v_BuildEncoding V (loaded cfg es) [] = Some s" "v_EncodePersistent V s = Some lines"
    "v_LoadEncode V lines = Some s'" "encd (loaded cfg es) s'" using vend_build [OF assms(1) graph] vend_reload [OF assms(1)] by blast
  have build: "BuildExecution_Execute cfg K (Some V) (edge_text es) (d, None) = Some (d, Some lines)"
    unfolding build_empty [OF assms(5,6,7,3)] using s(1,2) by (simp add: BuildEncode_def)
  obtain d' where d': "BuildExecution_Execute cfg K (None :: ('s, 'f) vend option) (edge_text es) (d, None) = Some (d', None)"
    "db_holds K d' (lists_of cfg (loaded cfg es))" using save_empty [OF assms(5,6,7,3)] by blast
  note load = LoadDataFromDb_loaded [OF assms(5) d'(2) assms(7,3)]
  let ?g = "\<lparr>g_adj = loaded cfg es, g_in_adj = [], g_vend = Some s'\<rparr>"
  let ?q = "\<lparr>filtered = 0, res = 0, true_false = 0, f_items = 0\<rparr>"
  have edge: "TestEdgeByAdj (loaded cfg es) u v = Some (is_edge es u v)" if "(u, v) \<in> set ps" for u v
    using that assms(9) by (intro TestEdgeByAdj_loaded) auto
  have "\<exists>r. GetEdge V ?g u v = Some r \<and> answer_ok r (is_edge es u v)" if "(u, v) \<in> set ps" for u v
  proof -
    have "is_vertex cfg u" "is_vertex cfg v" using that assms(9) by auto
    from vend_determine [OF assms(1) graph s(4) this] show ?thesis by (simp add: GetEdge_def loaded_nth [OF \<open>is_vertex cfg u\<close>] set_nbrs)
  qed
  from query_loop [of ps V ?g "is_edge es" ?q, OF this] edge obtain q where
    q: "foldo (query_pair V ?g) ps ?q = Some q" "res q = length (filter (\<lambda>(u, v). is_edge es u v) ps)"
    "true_false q + f_items q = length (filter (\<lambda>(u, v). \<not> is_edge es u v) ps)" by auto
  have pairs: "LoadPairList uninit pairs [] = ps" using pair_list_roundtrip [OF assms(8), of uninit] assms(10) by simp
  have "QueryExecution_Execute cfg K (Some V) (d', Some lines) uninit pairs = Some q"
    using q(1) s(3) by (simp add: QueryExecution_Execute_def Graph_Init_def load pairs Let_def)
  moreover have "map_option res (QueryExecution_Execute cfg K (None :: ('s, 'f) vend option) (d', None) uninit pairs) = Some (res q)"
    using query_loop_adj [of ps "\<lparr>g_adj = loaded cfg es, g_in_adj = [], g_vend = None :: 's option\<rparr>" "is_edge es" ?q] edge q(2)
    by (simp add: QueryExecution_Execute_def Graph_Init_def load pairs Let_def)
  ultimately show ?thesis using build d'(1) q(2,3) by blast
qed

end

section \<open>Persistence of the delta encodings\<close>

lemma SIMD_EncodePersistent_eq: "SIMD_EncodePersistent cfg st ins True = EncodePersistent cfg st"
  by (simp add: SIMD_EncodePersistent_def EncodePersistent_def)

lemma SIMD_LoadFromDb_eq: "SIMD_LoadFromDb lines True (st, ins) = map_option (\<lambda>st. (st, ins)) (LoadFromDb lines st)"
  unfolding SIMD_LoadFromDb_def LoadFromDb_def
proof (induction lines arbitrary: st)
  case (Cons l lines)
  then show ?case by (cases l) (auto simp: map_option_case split: bind_splits option.splits)
qed simp

text \<open>A reloaded encoding agrees with the written one on the vertices.\<close>

lemma persist_reload:
  assumes "wf_config cfg" "wf_encoding cfg st" "wf_encoding cfg st0"
  shows "\<exists>lines st'. EncodePersistent cfg st = Some lines \<and> LoadFromDb lines st0 = Some st' \<and> wf_encoding cfg st' \<and>
    (\<forall>v. is_vertex cfg v \<longrightarrow> st' ! unat v = st ! unat v)"
proof -
  obtain st' where "LoadFromDb (map (\<lambda>i. (i, the (Dump (st ! i)))) [1..<VERTEX_SIZE cfg + 1]) st0 = Some st'"
    "wf_encoding cfg st'" "\<forall>i. 1 \<le> i \<longrightarrow> i \<le> VERTEX_SIZE cfg \<longrightarrow> st' ! i = st ! i"
    using LoadFromDb_lines [OF assms order_refl] by blast
  moreover have "1 \<le> unat v" if "is_vertex cfg v" for v using that by (simp add: is_vertex_def word_less_nat_alt)
  ultimately show ?thesis unfolding EncodePersistent_lines [OF assms(1,2)] by (auto simp: is_vertex_def)
qed

lemma delta_reload:
  assumes "delta_config cfg" "wf_encoding cfg st"
  shows "\<exists>lines st'. SIMD_EncodePersistent cfg st [] True = Some lines \<and> SIMD_LoadFromDb lines True (SIMDEncode cfg, []) = Some (st', []) \<and>
    wf_encoding cfg st' \<and> (\<forall>v. is_vertex cfg v \<longrightarrow> st' ! unat v = st ! unat v)"
proof -
  note cfg = delta_configD(1) [OF assms(1)]
  have new: "SIMDEncode cfg = EncodeBitSet cfg" by (simp add: SIMDEncode_def EncodeBitSet_def)
  show ?thesis unfolding SIMD_EncodePersistent_eq SIMD_LoadFromDb_eq new
    using persist_reload [OF cfg assms(2) EncodeBitSet_wf(1) [OF cfg]] by auto
qed

lemma Determine_same:
  assumes "t \<noteq> V3" "wf_encoding cfg st" "wf_encoding cfg st'" "is_vertex cfg u" "is_vertex cfg v"
    "st' ! unat u = st ! unat u" "st' ! unat v = st ! unat v"
  shows "DeltaSIMDVEND_Determine cfg t pad st' v u = DeltaSIMDVEND_Determine cfg t pad st v u"
proof -
  have "aget st' (unat w) = aget st (unat w)" if "w = u \<or> w = v" for w
    using that assms(2-7) by (auto simp: is_vertex_index)
  then show ?thesis using assms(1)
    by (cases t) (simp_all add: DeltaSIMDVEND_Determine_def Delta_NEpairTest_def Delta_IsDecodable_def Delta_NonNeighborTest_def)
qed

interpretation delta_program: sound_vend "DeltaSIMDVEND cfg t ord pad dbq" cfg "t \<noteq> V3 \<and> delta_config cfg \<and> traversal ord"
  "\<lambda>adj st. wf_encoding cfg st \<and> (\<forall>u v. is_vertex cfg u \<longrightarrow> is_vertex cfg v \<longrightarrow>
     (\<exists>r. DeltaSIMDVEND_Determine cfg t pad st v u = Some r \<and> answer_ok r (u \<in> set (adj ! unat v))))" for cfg t ord pad dbq
proof
  fix adj in_adj
  assume a: "t \<noteq> V3 \<and> delta_config cfg \<and> traversal ord" "simple_graph cfg adj"
  have "delta_ids cfg (adj ! unat v)" if "is_vertex cfg v" for v using simple_graphD(2,3) [OF a(2) that] by (simp add: delta_ids_def)
  from delta_vend_build [OF _ _ simple_graphD(1) [OF a(2)] this, of t ord] a(1) obtain st where
    "DeltaSIMDVEND_BuildEncoding cfg t ord adj (SIMDEncode cfg) = Some st" "wf_encoding cfg st"
    "\<And>u v. is_vertex cfg u \<Longrightarrow> is_vertex cfg v \<Longrightarrow> \<exists>r. DeltaSIMDVEND_Determine cfg t pad st v u = Some r \<and> answer_ok r (u \<in> set (adj ! unat v))"
    by blast
  then show "\<exists>s. v_BuildEncoding (DeltaSIMDVEND cfg t ord pad dbq) adj in_adj = Some s \<and> wf_encoding cfg s \<and> (\<forall>u v. is_vertex cfg u \<longrightarrow> is_vertex cfg v \<longrightarrow>
     (\<exists>r. DeltaSIMDVEND_Determine cfg t pad s v u = Some r \<and> answer_ok r (u \<in> set (adj ! unat v))))" by (simp add: DeltaSIMDVEND_def)
next
  fix adj st
  assume a: "t \<noteq> V3 \<and> delta_config cfg \<and> traversal ord" and st: "wf_encoding cfg st \<and> (\<forall>u v. is_vertex cfg u \<longrightarrow> is_vertex cfg v \<longrightarrow>
     (\<exists>r. DeltaSIMDVEND_Determine cfg t pad st v u = Some r \<and> answer_ok r (u \<in> set (adj ! unat v))))"
  obtain lines st' where l: "SIMD_EncodePersistent cfg st [] True = Some lines" "SIMD_LoadFromDb lines True (SIMDEncode cfg, []) = Some (st', [])"
    "wf_encoding cfg st'" "\<And>v. is_vertex cfg v \<Longrightarrow> st' ! unat v = st ! unat v" using delta_reload a st by blast
  have "DeltaSIMDVEND_Determine cfg t pad st' v u = DeltaSIMDVEND_Determine cfg t pad st v u" if "is_vertex cfg u" "is_vertex cfg v" for u v
    using Determine_same [of t cfg st st' u v pad] a st l(3,4) that by blast
  with l st show "\<exists>f s'. v_EncodePersistent (DeltaSIMDVEND cfg t ord pad dbq) st = Some f \<and> v_LoadEncode (DeltaSIMDVEND cfg t ord pad dbq) f = Some s' \<and>
    wf_encoding cfg s' \<and> (\<forall>u v. is_vertex cfg u \<longrightarrow> is_vertex cfg v \<longrightarrow>
     (\<exists>r. DeltaSIMDVEND_Determine cfg t pad s' v u = Some r \<and> answer_ok r (u \<in> set (adj ! unat v))))" by (simp add: DeltaSIMDVEND_def)
qed (simp add: DeltaSIMDVEND_def)

section \<open>The program\<close>

text \<open>C1. The program answers queries exactly. A file with the edges of a simple graph is encoded by \<^verbatim>\<open>BuildExecution\<close>
  with a delta VEND of version 0, 1 or 2 (the database being empty) and stored by \<^verbatim>\<open>BuildExecution\<close> with
  \<^verbatim>\<open>NoVend\<close>. Then \<^verbatim>\<open>QueryExecution\<close>, which loads the adjacency list from the database, the encoding and the
  list of pairs from their files, counts in \<^verbatim>\<open>res\<close> exactly the pairs that are edges of the file, and in
  \<^verbatim>\<open>true_false\<close> and \<^verbatim>\<open>f_items\<close> the others; without a VEND it counts the same edges.\<close>

theorem vend_query_exact:
  assumes "t \<noteq> V3" "delta_config cfg" "VERTEX_SIZE cfg < 2 ^ VERTEX_BIT_SIZE cfg" "traversal ord" "kv_laws K" "kv_empty K d"
    "simple_edges cfg es" "ps \<noteq> []" "\<forall>(u, v) \<in> set ps. is_vertex cfg u \<and> is_vertex cfg v" "ListPersistent ps = Some pairs"
  shows "\<exists>d' lines q. BuildExecution_Execute cfg K (Some (DeltaSIMDVEND cfg t ord pad dbq)) (edge_text es) (d, None) = Some (d, Some lines) \<and>
    BuildExecution_Execute cfg K (None :: (encoding, encode_line) vend option) (edge_text es) (d, None) = Some (d', None) \<and>
    QueryExecution_Execute cfg K (Some (DeltaSIMDVEND cfg t ord pad dbq)) (d', Some lines) uninit pairs = Some q \<and>
    res q = length (filter (\<lambda>(u, v). is_edge es u v) ps) \<and>
    true_false q + f_items q = length (filter (\<lambda>(u, v). \<not> is_edge es u v) ps) \<and>
    map_option res (QueryExecution_Execute cfg K (None :: (encoding, encode_line) vend option) (d', None) uninit pairs) = Some (res q)"
  using delta_program.query_exact [of t cfg ord K d es ps pairs pad dbq uninit] assms delta_configD(1,3) [OF assms(2)] by blast

definition demo_edges :: "(u32 \<times> u32) list" where
  "demo_edges = [(1, 10), (7, 2), (2, 3), (2, 10)]"

lemma demo_edges_simple: "simple_edges demo_config demo_edges" "VERTEX_SIZE demo_config < 2 ^ VERTEX_BIT_SIZE demo_config"
  by (simp_all add: simple_edges_def demo_edges_def is_vertex_def demo_config_def min_def max_def)

lemma vend_query_exact_witness:
  "\<exists>d' lines q pairs. ListPersistent [(1, 10), (3, 7), (2, 7)] = Some pairs \<and>
    BuildExecution_Execute demo_config list_store (Some (DeltaSIMDVEND demo_config V2 remdups (\<lambda>_. 0) (\<lambda>_. []))) (edge_text demo_edges) (DAList.empty, None) =
      Some (DAList.empty, Some lines) \<and>
    BuildExecution_Execute demo_config list_store (None :: (encoding, encode_line) vend option) (edge_text demo_edges) (DAList.empty, None) = Some (d', None) \<and>
    QueryExecution_Execute demo_config list_store (Some (DeltaSIMDVEND demo_config V2 remdups (\<lambda>_. 0) (\<lambda>_. []))) (d', Some lines) (0, 0) pairs = Some q \<and>
    res q = 2 \<and> true_false q + f_items q = 1"
proof -
  have ps: "\<forall>(u, v) \<in> set [(1, 10), (3, 7), (2, 7)]. is_vertex demo_config u \<and> is_vertex demo_config v"
    by (simp add: is_vertex_def demo_config_def)
  have "length (filter (\<lambda>(u, v). is_edge demo_edges u v) [(1, 10), (3, 7), (2, 7)]) = 2"
    "length (filter (\<lambda>(u, v). \<not> is_edge demo_edges u v) [(1, 10), (3, 7), (2, 7)]) = 1" by (simp_all add: is_edge_def demo_edges_def)
  moreover obtain pairs where "ListPersistent [(1, 10), (3, 7), (2, 7)] = Some pairs" by (simp add: ListPersistent_def)
  ultimately show ?thesis
    using vend_query_exact [OF _ demo_delta(1) demo_edges_simple(2) traversal_remdups list_store_laws list_store_empty demo_edges_simple(1) _ ps,
        of V2 pairs "\<lambda>_. 0" "\<lambda>_. []" "(0, 0)"] by fastforce
qed

section \<open>The database\<close>

text \<open>C8. A graph that \<^verbatim>\<open>SaveData\<close> writes into an empty database is the graph that \<^verbatim>\<open>LoadDataFromDb\<close> reads: the
  lists of all vertices, sorted, and every list that is not empty is what \<^verbatim>\<open>Get\<close> returns.\<close>

theorem save_load_roundtrip:
  assumes "kv_laws K" "kv_empty K d" "length adj = VERTEX_SIZE cfg + 1" "VERTEX_SIZE cfg < 2 ^ 32 - 1" "adj ! 0 = []"
  shows "\<exists>d'. SaveData cfg K adj d = Some d' \<and> LoadDataFromDb cfg K d' [] = Some (map sort adj) \<and>
    (\<forall>v ys. is_vertex cfg v \<longrightarrow> RocksDb_Get K d' v ys = (adj ! unat v \<noteq> [], if adj ! unat v = [] then ys else adj ! unat v))"
proof -
  obtain d' where d': "SaveData cfg K adj d = Some d'" "db_holds K d' (lists_of cfg adj)"
    using SaveData_holds [OF assms(1) db_holds_empty [OF assms(2)] assms(3,4)] by auto
  have "sort (lists_of cfg adj (of_nat i)) = sort (adj ! i)" if "i < VERTEX_SIZE cfg + 1" for i
  proof -
    have "unat (of_nat i :: u32) = i" using that assms(4) by (simp add: unat_of_nat)
    then show ?thesis using that assms(5) by (cases "i = 0") (simp_all add: lists_of_def is_vertex_def word_less_nat_alt)
  qed
  then have "map (\<lambda>i. sort (lists_of cfg adj (of_nat i))) [0..<VERTEX_SIZE cfg + 1] = map sort adj"
    using assms(3) by (intro nth_equalityI) (simp_all del: upt_Suc)
  moreover have "LoadDataFromDb cfg K d' [] = Some (map (\<lambda>i. sort (lists_of cfg adj (of_nat i))) [0..<VERTEX_SIZE cfg + 1])"
    by (rule LoadDataFromDb_holds [OF assms(1) d'(2) _ assms(4)]) (simp add: lists_of_def is_vertex_def split: if_splits)
  ultimately show ?thesis using d'(1) by (simp add: db_holds_get [OF d'(2)] lists_of_def)
qed

lemma save_load_roundtrip_witness:
  "\<exists>d'. SaveData demo_config list_store (loaded demo_config demo_edges) DAList.empty = Some d' \<and>
    LoadDataFromDb demo_config list_store d' [] = Some (map sort (loaded demo_config demo_edges))"
proof -
  have "loaded demo_config demo_edges ! 0 = []" using nbrs_0 [OF demo_edges_simple(1)] by (simp add: loaded_def del: upt_Suc)
  then show ?thesis using save_load_roundtrip [OF list_store_laws list_store_empty, of "loaded demo_config demo_edges" demo_config]
    by (auto simp: loaded_def demo_config_def simp del: upt_Suc)
qed

text \<open>C38. Faults of the updates of the database, for every store and every content \<open>ls\<close>: an edge to a vertex without
  an entry gives it the list of the other vertex, the last neighbour of a vertex cannot be deleted, and after
  the insertion of a neighbour below the one that is stored \<^verbatim>\<open>DbQuery\<close> searches a list that is not sorted.\<close>

theorem db_update_faults:
  assumes "kv_laws K" "db_holds K d ls" "u \<noteq> v"
  shows "(ls v = [] \<longrightarrow> RocksDb_Get K (DbInsert K u v d) v ys = (True, ls u @ [v, u])) \<and>
    (ls u = [v] \<longrightarrow> RocksDb_Get K (DbDelete K u v d) u ys = (True, [v])) \<and>
    (ls u = [x] \<and> v < x \<longrightarrow> DbQuery K (DbInsert K u v d) u v = None)"
  using db_holds_get [OF DbInsert_holds [OF assms]] db_holds_get [OF DbDelete_holds [OF assms]] assms(3)
  by (simp add: stored_remove_def DbQuery_def binary_search_def)

lemma db_update_faults_witness:
  "RocksDb_Get list_store (DbInsert list_store 1 2 DAList.empty) 2 [] = (True, [2, 1])"
  using db_update_faults [OF list_store_laws db_holds_empty [OF list_store_empty], of 1 2 "[]"] by simp

text \<open>C39. Building in the order of the program loads the graph twice: when the graph is already in the database,
  \<^verbatim>\<open>Init\<close> reads it from there and then appends the whole file to the same lists, so every VEND is built from lists in
  which each neighbour occurs two times.\<close>

theorem init_loads_twice:
  assumes "kv_laws K" "kv_empty K d" "simple_edges cfg es" "VERTEX_SIZE cfg < 2 ^ 31"
  shows "\<exists>d'. BuildExecution_Execute cfg K (None :: ('s, 'f) vend option) (edge_text es) (d, None) = Some (d', None) \<and>
    BuildExecution_Execute cfg K (Some (V :: ('s, 'f) vend)) (edge_text es) (d', None) =
      map_option (\<lambda>(s, f). (d', Some f)) (BuildEncode V (map (\<lambda>i. sort (nbrs es i @ nbrs es i)) [0..<VERTEX_SIZE cfg + 1], []))"
proof -
  obtain d' where d': "BuildExecution_Execute cfg K (None :: ('s, 'f) vend option) (edge_text es) (d, None) = Some (d', None)"
    "db_holds K d' (lists_of cfg (loaded cfg es))" using save_empty [OF assms] by blast
  have "map (\<lambda>i. if 0 < i then sort ((if 0 < i then sort (nbrs es i) else nbrs es i) @ nbrs es i)
      else (if 0 < i then sort (nbrs es i) else nbrs es i) @ nbrs es i) [0..<VERTEX_SIZE cfg + 1] =
    map (\<lambda>i. sort (nbrs es i @ nbrs es i)) [0..<VERTEX_SIZE cfg + 1]"
    using nbrs_0 [OF assms(3)] by (intro map_cong) (auto intro!: properties_for_sort)
  then have "LoadData cfg False (edge_text es) (loaded cfg es, []) = Some (map (\<lambda>i. sort (nbrs es i @ nbrs es i)) [0..<VERTEX_SIZE cfg + 1], [])"
    unfolding loaded_def LoadData_again [OF assms(3,4)] by simp
  then have "BuildExecution_Execute cfg K (Some V) (edge_text es) (d', None) =
      map_option (\<lambda>(s, f). (d', Some f)) (BuildEncode V (map (\<lambda>i. sort (nbrs es i @ nbrs es i)) [0..<VERTEX_SIZE cfg + 1], []))"
    using LoadDataFromDb_loaded [OF assms(1) d'(2) assms(3,4)]
    by (auto simp: BuildExecution_Execute_def Graph_Init_def map_option_case simp del: upt_Suc split: bind_splits option.splits)
  with d'(1) show ?thesis by blast
qed

lemma init_loads_twice_witness:
  "\<exists>d'. BuildExecution_Execute demo_config list_store (None :: (encoding, encode_line) vend option) (edge_text demo_edges) (DAList.empty, None) = Some (d', None) \<and>
    BuildExecution_Execute demo_config list_store (Some (DeltaSIMDVEND demo_config V0 remdups (\<lambda>_. 0) (\<lambda>_. []))) (edge_text demo_edges) (d', None) =
      map_option (\<lambda>(s, f). (d', Some f)) (BuildEncode (DeltaSIMDVEND demo_config V0 remdups (\<lambda>_. 0) (\<lambda>_. []))
        ([[], [10, 10], [3, 3, 7, 7, 10, 10], [2, 2], [], [], [], [2, 2], [], [], [1, 1, 2, 2]], []))"
proof -
  have "VERTEX_SIZE demo_config = 10" by (simp add: demo_config_def)
  moreover have "map (\<lambda>i. sort (nbrs demo_edges i @ nbrs demo_edges i)) [0..<10 + 1] =
      [[], [10, 10], [3, 3, 7, 7, 10, 10], [2, 2], [], [], [], [2, 2], [], [], [1, 1, 2, 2]]" by code_simp
  ultimately show ?thesis using init_loads_twice [OF list_store_laws list_store_empty demo_edges_simple(1)] by simp
qed

end
