(* ===== verification/Simple_Vends.thy ===== *)
theory Simple_Vends
  imports Executions_Spec Small_Spec Bloom_Spec
begin

text \<open>
  The VENDs that set marks: \<^verbatim>\<open>BitHashVend\<close> encodes every vertex, \<^verbatim>\<open>BFilterBitVend\<close> (with one of three filters) and
  \<^verbatim>\<open>BFilterIntVend\<close> enter every edge once. They are instances of the contract of a VEND.
\<close>

section \<open>BitHashVend\<close>

definition BitHashVend_BuildEncoding :: "config \<Rightarrow> adjacency \<Rightarrow> encoding \<Rightarrow> encoding option" where
  "BitHashVend_BuildEncoding cfg adj st =
     foldo (\<lambda>vertex1 st. do { neighbors \<leftarrow> aget adj vertex1; BH_EncodeVertex cfg (of_nat vertex1) neighbors st }) [1..<length adj] st"

definition BitHashVend :: "config \<Rightarrow> (u32 \<Rightarrow> u32 list) \<Rightarrow> (encoding, encode_line) vend" where
  "BitHashVend cfg dbq = \<lparr>
     v_BuildEncoding = (\<lambda>adj in_adj. BitHashVend_BuildEncoding cfg adj (EncodeBitSet cfg)),
     v_EncodePersistent = EncodePersistent cfg,
     v_LoadEncode = (\<lambda>lines. LoadFromDb lines (EncodeBitSet cfg)),
     v_Determine = BH_NEpairTest cfg,
     v_Insert = BH_InsertPair cfg,
     v_Delete = BH_DeletePair cfg dbq\<rparr>"

text \<open>The branch for a graph that is only in the database.\<close>

definition BitHashVend_BuildEncoding_db :: "config \<Rightarrow> 'd kv_store \<Rightarrow> 'd \<Rightarrow> encoding \<Rightarrow> encoding option" where
  "BitHashVend_BuildEncoding_db cfg K d st = do {
     items \<leftarrow> RocksDb_scan K d;
     foldo (\<lambda>(vertex1, neighbors). BH_EncodeVertex cfg vertex1 neighbors) items st }"

section \<open>The Bloom filters\<close>

text \<open>Each edge is entered from its smaller end.\<close>

definition edge_build :: "(u32 \<Rightarrow> u32 \<Rightarrow> 's \<Rightarrow> 's option) \<Rightarrow> adjacency \<Rightarrow> 's \<Rightarrow> 's option" where
  "edge_build EdgeSet adj f =
     foldo (\<lambda>vertex1 f. do {
         ns \<leftarrow> aget adj vertex1;
         foldo (\<lambda>vertex2 f. if of_nat vertex1 < vertex2 then EdgeSet (of_nat vertex1) vertex2 f else Some f) ns f })
       [1..<length adj] f"

definition edge_build_db :: "(u32 \<Rightarrow> u32 \<Rightarrow> 's \<Rightarrow> 's option) \<Rightarrow> 'd kv_store \<Rightarrow> 'd \<Rightarrow> 's \<Rightarrow> 's option" where
  "edge_build_db EdgeSet K d f = do {
     items \<leftarrow> RocksDb_scan K d;
     foldo (\<lambda>(vertex1, neighbors) f.
         foldo (\<lambda>vertex2 f. if vertex1 < vertex2 then EdgeSet vertex1 vertex2 f else Some f) neighbors f) items f }"

text \<open>\<^verbatim>\<open>Vend::LoadDbData\<close>: lists of vertices without an entry stay as they are.\<close>

definition LoadDbData :: "config \<Rightarrow> 'd kv_store \<Rightarrow> 'd \<Rightarrow> adjacency \<Rightarrow> adjacency option" where
  "LoadDbData cfg K d adj = do {
     let adj = resize (VERTEX_SIZE cfg + 1) [] adj;
     items \<leftarrow> RocksDb_scan K d;
     foldo (\<lambda>(key, value) adj. aput adj (unat key) value) items adj }"

text \<open>\<^verbatim>\<open>BFilterBitVend::Delete\<close>: a filter that cannot delete is cleared and built again.\<close>

definition BFilterBitVend_Delete :: "(u32 \<Rightarrow> u32 \<Rightarrow> bool) \<Rightarrow> (u32 \<Rightarrow> u32 \<Rightarrow> 's \<Rightarrow> 's option) \<Rightarrow> ('s \<Rightarrow> 's) \<Rightarrow> (u32 \<Rightarrow> u32 \<Rightarrow> 's \<Rightarrow> 's option) \<Rightarrow>
    adjacency option \<Rightarrow> u32 \<Rightarrow> u32 \<Rightarrow> 's \<Rightarrow> 's option" where
  "BFilterBitVend_Delete deletable delete clear edge_set db_adj vertex1 vertex2 f =
     (if deletable vertex1 vertex2 then delete vertex1 vertex2 f
      else do { adj \<leftarrow> db_adj; edge_build edge_set adj (clear f) })"

text \<open>The three filters of \<^verbatim>\<open>BFilterBitVend\<close>; \<open>db_adj\<close> is what \<^verbatim>\<open>LoadDbData\<close> leaves. \<^verbatim>\<open>CBFilterEncode\<close> and \<^verbatim>\<open>BBFilterEncode\<close> inherit the
  persistence of \<^verbatim>\<open>BFilterBitEncode\<close>.\<close>

definition BFilterBitVend :: "config \<Rightarrow> nat \<Rightarrow> adjacency option \<Rightarrow> (bitset bfilter, u32) vend" where
  "BFilterBitVend cfg n db_adj = \<lparr>
     v_BuildEncoding = (\<lambda>adj in_adj. edge_build BFBit_EdgeSet adj (BFilterBitEncode cfg n)),
     v_EncodePersistent = BFBit_EncodePersistent,
     v_LoadEncode = (\<lambda>file. BFBit_LoadFromDb file (BFilterBitEncode cfg n)),
     v_Determine = BFBit_NEpairTest,
     v_Insert = BFBit_InsertPair,
     v_Delete = BFilterBitVend_Delete (\<lambda>u v. False) (\<lambda>u v. Some) BFBit_Clear BFBit_EdgeSet db_adj\<rparr>"

definition BFilterBitVend_counting :: "config \<Rightarrow> nat \<Rightarrow> adjacency option \<Rightarrow> (bitset bfilter, u32) vend" where
  "BFilterBitVend_counting cfg element_nums db_adj = \<lparr>
     v_BuildEncoding = (\<lambda>adj in_adj. edge_build (CBF_EdgeSet element_nums (ELEMENT_SIZE cfg)) adj (CBFilterEncode cfg)),
     v_EncodePersistent = BFBit_EncodePersistent,
     v_LoadEncode = (\<lambda>file. BFBit_LoadFromDb file (CBFilterEncode cfg)),
     v_Determine = CBF_NEpairTest element_nums (ELEMENT_SIZE cfg),
     v_Insert = CBF_InsertPair element_nums (ELEMENT_SIZE cfg),
     v_Delete = BFilterBitVend_Delete CBF_IsDeletable (CBF_DeletePair element_nums (ELEMENT_SIZE cfg)) BFBit_Clear
       (CBF_EdgeSet element_nums (ELEMENT_SIZE cfg)) db_adj\<rparr>"

definition BFilterBitVend_blocked :: "config \<Rightarrow> adjacency option \<Rightarrow> (bitset bfilter, u32) vend" where
  "BFilterBitVend_blocked cfg db_adj = \<lparr>
     v_BuildEncoding = (\<lambda>adj in_adj. edge_build (BB_EdgeSet BLOCK_SIZE (BLOCK_NUMS cfg)) adj (BBFilterEncode cfg)),
     v_EncodePersistent = BFBit_EncodePersistent,
     v_LoadEncode = (\<lambda>file. BFBit_LoadFromDb file (BBFilterEncode cfg)),
     v_Determine = BB_NEpairTest BLOCK_SIZE (BLOCK_NUMS cfg),
     v_Insert = BB_InsertPair BLOCK_SIZE (BLOCK_NUMS cfg),
     v_Delete = BFilterBitVend_Delete (\<lambda>u v. False) (\<lambda>u v. Some) BFBit_Clear (BB_EdgeSet BLOCK_SIZE (BLOCK_NUMS cfg)) db_adj\<rparr>"

definition BFilterIntVend :: "config \<Rightarrow> (u32 list bfilter, u32) vend" where
  "BFilterIntVend cfg = \<lparr>
     v_BuildEncoding = (\<lambda>adj in_adj. edge_build BFInt_EdgeSet adj (BFilterIntEncode cfg)),
     v_EncodePersistent = BFInt_EncodePersistent,
     v_LoadEncode = (\<lambda>file. BFInt_LoadFromDb file (BFilterIntEncode cfg)),
     v_Determine = BFInt_NEpairTest,
     v_Insert = BFInt_InsertPair,
     v_Delete = BFInt_DeletePair\<rparr>"

section \<open>The bitmap is a sound VEND\<close>

lemma BitHash_build_eq:
  assumes "wf_config cfg" "length adj = VERTEX_SIZE cfg + 1"
  shows "BitHashVend_BuildEncoding cfg adj st = build_all (BH_EncodeVertex cfg) (\<lambda>v. adj ! unat v) (vertex_list cfg) st"
proof -
  have "foldo (\<lambda>i st. do { ns \<leftarrow> aget adj i; BH_EncodeVertex cfg (of_nat i) ns st }) is st =
      foldo (\<lambda>v st. BH_EncodeVertex cfg v (adj ! unat v) st) (map of_nat is) st" if "\<forall>i \<in> set is. i < length adj" for "is" st
    using that
  proof (induction "is" arbitrary: st)
    case (Cons i "is")
    have "unat (of_nat i :: u32) = i" using Cons.prems assms(2) wf_configD(15) [OF assms(1)] by (simp add: unat_of_nat)
    then show ?case using Cons by (cases "BH_EncodeVertex cfg (of_nat i) (adj ! i) st") simp_all
  qed simp
  from this [of "[1..<length adj]"] show ?thesis using assms(2)
    by (simp add: BitHashVend_BuildEncoding_def build_all_def vertex_list_def del: upt_Suc)
qed

lemma BH_self:
  assumes "wf_config cfg" "wf_encoding cfg st" "is_vertex cfg v"
  shows "\<exists>r. BH_NEpairTest cfg st v v = Some r \<and> r \<noteq> Neighbor"
  using BH_test_eq [OF assms] by (simp add: BH_NEpairTest_def)

interpretation bitmap_program: sound_vend "BitHashVend cfg dbq" cfg "wf_config cfg" "\<lambda>adj st. bh_graph cfg st (\<lambda>v. adj ! unat v)" for cfg dbq
proof
  fix adj in_adj
  assume a: "wf_config cfg" "simple_graph cfg adj"
  have "ids_ok cfg (adj ! unat v)" if "is_vertex cfg v" for v
    using undirectedD(2) [OF simple_graphD(1) [OF a(2)] that] by (simp add: ids_ok_def)
  moreover have "u \<in> set (adj ! unat v) \<longleftrightarrow> v \<in> set (adj ! unat u)" if "is_vertex cfg u" "is_vertex cfg v" for u v
    using undirectedD(3) [OF simple_graphD(1) [OF a(2)]] that by blast
  ultimately show "\<exists>s. v_BuildEncoding (BitHashVend cfg dbq) adj in_adj = Some s \<and> bh_graph cfg s (\<lambda>v. adj ! unat v)"
    using bithash.graph_built [OF a(1), of "\<lambda>v. adj ! unat v"] BitHash_build_eq [OF a(1) undirectedD(1) [OF simple_graphD(1) [OF a(2)]]]
    by (auto simp: BitHashVend_def bh_graph_def)
next
  fix adj st
  assume a: "wf_config cfg" "bh_graph cfg st (\<lambda>v. adj ! unat v)"
  then have "wf_encoding cfg st" by (simp add: bh_graph_def)
  from persist_reload [OF a(1) this EncodeBitSet_wf(1) [OF a(1)]] obtain lines st' where
    "EncodePersistent cfg st = Some lines" "LoadFromDb lines (EncodeBitSet cfg) = Some st'" "wf_encoding cfg st'"
    "\<And>v. is_vertex cfg v \<Longrightarrow> st' ! unat v = st ! unat v" by blast
  with a(2) show "\<exists>f s'. v_EncodePersistent (BitHashVend cfg dbq) st = Some f \<and> v_LoadEncode (BitHashVend cfg dbq) f = Some s' \<and>
    bh_graph cfg s' (\<lambda>v. adj ! unat v)" by (simp add: BitHashVend_def bh_graph_def)
next
  fix adj st u v
  assume a: "wf_config cfg" "simple_graph cfg adj" "bh_graph cfg st (\<lambda>v. adj ! unat v)" "is_vertex cfg u" "is_vertex cfg v"
  have sym: "v \<in> set (adj ! unat u) \<longleftrightarrow> u \<in> set (adj ! unat v)"
    using undirectedD(3) [OF simple_graphD(1) [OF a(2)]] a(4,5) by blast
  show "\<exists>r. v_Determine (BitHashVend cfg dbq) st u v = Some r \<and> answer_ok r (v \<in> set (adj ! unat u))"
  proof (cases "u = v")
    case True
    then show ?thesis using BH_self [OF a(1) _ a(4), of st] a(3) simple_graphD(4) [OF a(2,4)] by (auto simp: BitHashVend_def bh_graph_def answer_ok_def)
  qed (use bh_graph_tests [OF a(1,3,5,4) _ sym] in \<open>auto simp: BitHashVend_def\<close>)
qed

section \<open>The filter of bits is a sound VEND\<close>

definition graph_edges :: "adjacency \<Rightarrow> (u32 \<times> u32) list" where
  "graph_edges adj = concat (map (\<lambda>i. map (Pair (of_nat i)) (filter (\<lambda>v. of_nat i < v) (adj ! i))) [1..<length adj])"

lemma edge_build_eq: "edge_build S adj f = foldo (\<lambda>e. S (fst e) (snd e)) (graph_edges adj) f"
proof -
  have inner: "foldo (\<lambda>v f. if w < v then S w v f else Some f) ns f = foldo (\<lambda>e. S (fst e) (snd e)) (map (Pair w) (filter (\<lambda>v. w < v) ns)) f"
    for w ns f by (induction ns arbitrary: f) (auto split: bind_splits)
  have "foldo (\<lambda>i f. do { ns \<leftarrow> aget adj i; foldo (\<lambda>v f. if of_nat i < v then S (of_nat i) v f else Some f) ns f }) is f =
      foldo (\<lambda>e. S (fst e) (snd e)) (concat (map (\<lambda>i. map (Pair (of_nat i)) (filter (\<lambda>v. of_nat i < v) (adj ! i))) is)) f"
    if "\<forall>i \<in> set is. i < length adj" for "is" f
    using that by (induction "is" arbitrary: f) (auto simp: foldo_append inner intro!: Option.bind_cong)
  from this [of "[1..<length adj]"] show ?thesis by (simp add: edge_build_def graph_edges_def)
qed

lemma graph_edges_mem:
  assumes "undirected cfg adj" "wf_config cfg" "is_vertex cfg u" "is_vertex cfg v" "v \<in> set (adj ! unat u)" "u \<noteq> v"
  shows "(u, v) \<in> set (graph_edges adj) \<or> (v, u) \<in> set (graph_edges adj)"
proof -
  have mem: "(a, b) \<in> set (graph_edges adj)" if "is_vertex cfg a" "b \<in> set (adj ! unat a)" "a < b" for a b
  proof -
    have "unat a \<in> {1..<length adj}" using that(1) undirectedD(1) [OF assms(1)] by (simp add: is_vertex_def word_less_nat_alt)
    then show ?thesis using that(2,3) by (auto simp: graph_edges_def intro!: bexI [of _ "unat a"])
  qed
  have "u \<in> set (adj ! unat v)" using undirectedD(3) [OF assms(1,3,5)] .
  then show ?thesis using mem [of u v] mem [of v u] assms(3-6) by (cases "u < v") auto
qed

text \<open>What is entered into a filter leaves its size and its number of hash functions.\<close>

lemma BFBit_EdgeSet_fields:
  "foldo (\<lambda>e. BFBit_EdgeSet (fst e) (snd e)) es f = Some f' \<Longrightarrow> best_hash_nums f' = best_hash_nums f \<and> bf_hash_size f' = bf_hash_size f"
proof (induction es arbitrary: f)
  case (Cons e es)
  then obtain f1 where "BFBit_EdgeSet (fst e) (snd e) f = Some f1" "foldo (\<lambda>e. BFBit_EdgeSet (fst e) (snd e)) es f1 = Some f'"
    by (auto split: bind_splits)
  moreover from this(1) have "best_hash_nums f1 = best_hash_nums f" "bf_hash_size f1 = bf_hash_size f"
    by (auto simp: BFBit_EdgeSet_def Let_def split: bind_splits prod.splits)
  ultimately show ?case using Cons.IH [of f1] by simp
qed simp

definition bit_filter_holds :: "config \<Rightarrow> nat \<Rightarrow> adjacency \<Rightarrow> bitset bfilter \<Rightarrow> bool" where
  "bit_filter_holds cfg n adj f \<longleftrightarrow> wf_bfbit f \<and> best_hash_nums f = n \<and> bf_hash_size f = VERTEX_SIZE cfg * K_SIZE cfg * 32 \<and>
     (\<forall>a b. \<exists>r. BFBit_NEpairTest f a b = Some r \<and> r \<noteq> Neighbor \<and> ((a, b) \<in> set (graph_edges adj) \<or> (b, a) \<in> set (graph_edges adj) \<longrightarrow> r = Uncertain))"

lemma bit_filter_built:
  assumes "0 < VERTEX_SIZE cfg" "0 < K_SIZE cfg" "n \<le> 60"
  shows "\<exists>f. edge_build BFBit_EdgeSet adj (BFilterBitEncode cfg n) = Some f \<and> bit_filter_holds cfg n adj f"
proof -
  have "wf_bfbit (BFilterBitEncode cfg n)" using assms filter_arrays [of cfg n] by (simp add: wf_bfbit_def)
  from bfbit.insert_all [OF this, of "graph_edges adj"] bfbit.no_false_negatives [OF this, of "graph_edges adj"] obtain f where
    f: "foldo (\<lambda>e. BFBit_EdgeSet (fst e) (snd e)) (graph_edges adj) (BFilterBitEncode cfg n) = Some f" "wf_bfbit f"
    "\<And>e. \<exists>r. BFBit_NEpairTest f (fst e) (snd e) = Some r \<and> r \<noteq> Neighbor \<and> (e \<in> set (graph_edges adj) \<longrightarrow> r = Uncertain)" by auto
  have swap: "BFBit_NEpairTest f b a = BFBit_NEpairTest f a b" for a b by (auto simp: BFBit_NEpairTest_def ordered_def)
  have "\<exists>r. BFBit_NEpairTest f a b = Some r \<and> r \<noteq> Neighbor \<and> ((a, b) \<in> set (graph_edges adj) \<or> (b, a) \<in> set (graph_edges adj) \<longrightarrow> r = Uncertain)" for a b
    using f(3) [of "(a, b)"] f(3) [of "(b, a)"] swap [of a b] by auto
  then show ?thesis using f(1,2) BFBit_EdgeSet_fields [OF f(1)] by (simp add: edge_build_eq bit_filter_holds_def BFilterBitEncode_def)
qed

interpretation filter_program: sound_vend "BFilterBitVend cfg n db_adj" cfg "wf_config cfg \<and> n \<le> 60" "bit_filter_holds cfg n" for cfg n db_adj
proof
  fix adj in_adj
  assume "wf_config cfg \<and> n \<le> 60"
  then show "\<exists>s. v_BuildEncoding (BFilterBitVend cfg n db_adj) adj in_adj = Some s \<and> bit_filter_holds cfg n adj s"
    using bit_filter_built [of cfg n adj] wf_configD(13,14) [of cfg] by (simp add: BFilterBitVend_def)
next
  fix adj f
  assume a: "wf_config cfg \<and> n \<le> 60" "bit_filter_holds cfg n adj f"
  have "wf_bfbit (BFilterBitEncode cfg n)" using a wf_configD(13,14) [of cfg] filter_arrays [of cfg n] by (simp add: wf_bfbit_def)
  from bit_filter_reload [OF _ this, of f] a(2) obtain ws where
    "BFBit_EncodePersistent f = Some ws" "BFBit_LoadFromDb ws (BFilterBitEncode cfg n) = Some ((BFilterBitEncode cfg n)\<lparr>bf_encode := bf_encode f\<rparr>)"
    by (auto simp: bit_filter_holds_def BFilterBitEncode_def)
  moreover have "(BFilterBitEncode cfg n)\<lparr>bf_encode := bf_encode f\<rparr> = f" using a(2) by (simp add: bit_filter_holds_def BFilterBitEncode_def)
  ultimately show "\<exists>g s'. v_EncodePersistent (BFilterBitVend cfg n db_adj) f = Some g \<and> v_LoadEncode (BFilterBitVend cfg n db_adj) g = Some s' \<and> bit_filter_holds cfg n adj s'"
    using a(2) by (simp add: BFilterBitVend_def)
next
  fix adj f u v
  assume a: "wf_config cfg \<and> n \<le> 60" "simple_graph cfg adj" "bit_filter_holds cfg n adj f" "is_vertex cfg u" "is_vertex cfg v"
  obtain r where r: "BFBit_NEpairTest f u v = Some r" "r \<noteq> Neighbor" "(u, v) \<in> set (graph_edges adj) \<or> (v, u) \<in> set (graph_edges adj) \<longrightarrow> r = Uncertain"
    using a(3) unfolding bit_filter_holds_def by blast
  have "r = Uncertain" if "v \<in> set (adj ! unat u)"
    using r(3) graph_edges_mem [OF simple_graphD(1) [OF a(2)] _ a(4,5) that] a(1) simple_graphD(4) [OF a(2,4)] that by blast
  then show "\<exists>r. v_Determine (BFilterBitVend cfg n db_adj) f u v = Some r \<and> answer_ok r (v \<in> set (adj ! unat u))"
    using r(1,2) by (auto simp: BFilterBitVend_def answer_ok_def)
qed

section \<open>The program with marks\<close>

text \<open>C3. The program answers queries exactly with the bitmap and with the Bloom filter of bits, too, for every
  configuration of the program and up to 60 hash functions: although neither can confirm an edge, building,
  saving, loading and querying count exactly the pairs that are edges of the graph file.\<close>

theorem marks_query_exact:
  assumes "wf_config cfg" "VERTEX_SIZE cfg < 2 ^ 31" "VERTEX_SIZE cfg < 2 ^ VERTEX_BIT_SIZE cfg" "n \<le> 60" "kv_laws K" "kv_empty K d"
    "simple_edges cfg es" "ps \<noteq> []" "\<forall>(u, v) \<in> set ps. is_vertex cfg u \<and> is_vertex cfg v" "ListPersistent ps = Some pairs"
  shows "\<exists>d' lines ws q q'.
    BuildExecution_Execute cfg K (Some (BitHashVend cfg dbq)) (edge_text es) (d, None) = Some (d, Some lines) \<and>
    BuildExecution_Execute cfg K (Some (BFilterBitVend cfg n db_adj)) (edge_text es) (d, None) = Some (d, Some ws) \<and>
    BuildExecution_Execute cfg K (None :: (encoding, encode_line) vend option) (edge_text es) (d, None) = Some (d', None) \<and>
    QueryExecution_Execute cfg K (Some (BitHashVend cfg dbq)) (d', Some lines) uninit pairs = Some q \<and>
    QueryExecution_Execute cfg K (Some (BFilterBitVend cfg n db_adj)) (d', Some ws) uninit pairs = Some q' \<and>
    res q = length (filter (\<lambda>(u, v). is_edge es u v) ps) \<and> res q' = res q"
proof -
  have same: "\<exists>d'. BuildExecution_Execute cfg K (None :: (encoding, encode_line) vend option) (edge_text es) (d, None) = Some (d', None) \<and>
      BuildExecution_Execute cfg K (None :: (bitset bfilter, u32) vend option) (edge_text es) (d, None) = Some (d', None)"
    by (rule save_untyped [OF assms(5,6,7,2)])
  obtain d1 lines q where 1: "BuildExecution_Execute cfg K (Some (BitHashVend cfg dbq)) (edge_text es) (d, None) = Some (d, Some lines)"
    "BuildExecution_Execute cfg K (None :: (encoding, encode_line) vend option) (edge_text es) (d, None) = Some (d1, None)"
    "QueryExecution_Execute cfg K (Some (BitHashVend cfg dbq)) (d1, Some lines) uninit pairs = Some q"
    "res q = length (filter (\<lambda>(u, v). is_edge es u v) ps)"
    using bitmap_program.query_exact [OF assms(1,1,2,3,5-10)] by blast
  obtain d2 ws q' where 2: "BuildExecution_Execute cfg K (Some (BFilterBitVend cfg n db_adj)) (edge_text es) (d, None) = Some (d, Some ws)"
    "BuildExecution_Execute cfg K (None :: (bitset bfilter, u32) vend option) (edge_text es) (d, None) = Some (d2, None)"
    "QueryExecution_Execute cfg K (Some (BFilterBitVend cfg n db_adj)) (d2, Some ws) uninit pairs = Some q'"
    "res q' = length (filter (\<lambda>(u, v). is_edge es u v) ps)"
    using filter_program.query_exact [of cfg n K d es ps pairs db_adj uninit] assms by blast
  have "d1 = d2" using same 1(2) 2(2) by auto
  then show ?thesis using 1 2 by auto
qed

lemma marks_query_exact_witness:
  "\<exists>d' lines ws q q' pairs. ListPersistent [(10, 2), (3, 7)] = Some pairs \<and>
    BuildExecution_Execute demo_config list_store (Some (BitHashVend demo_config (\<lambda>_. []))) (edge_text demo_edges) (DAList.empty, None) = Some (DAList.empty, Some lines) \<and>
    BuildExecution_Execute demo_config list_store (Some (BFilterBitVend demo_config 3 None)) (edge_text demo_edges) (DAList.empty, None) = Some (DAList.empty, Some ws) \<and>
    QueryExecution_Execute demo_config list_store (Some (BitHashVend demo_config (\<lambda>_. []))) (d', Some lines) (0, 0) pairs = Some q \<and>
    QueryExecution_Execute demo_config list_store (Some (BFilterBitVend demo_config 3 None)) (d', Some ws) (0, 0) pairs = Some q' \<and>
    res q = 1 \<and> res q' = 1"
proof -
  have ps: "\<forall>(u, v) \<in> set [(10, 2), (3, 7)]. is_vertex demo_config u \<and> is_vertex demo_config v"
    by (simp add: is_vertex_def demo_config_def)
  have "length (filter (\<lambda>(u, v). is_edge demo_edges u v) [(10, 2), (3, 7)]) = 1" by (simp add: is_edge_def demo_edges_def)
  moreover obtain pairs where "ListPersistent [(10, 2), (3, 7)] = Some pairs" by (simp add: ListPersistent_def)
  ultimately show ?thesis
    using marks_query_exact [OF _ _ demo_edges_simple(2) _ list_store_laws list_store_empty demo_edges_simple(1) _ ps,
        of 3 pairs "\<lambda>_. []" None "(0, 0)"] delta_configD(1,3) [OF demo_delta(1)] by fastforce
qed

end
