(* ===== verification/Vend_Factory.thy ===== *)
theory Vend_Factory
  imports Compression_Spec Simple_Vends Range_Vend
begin

text \<open>
  \<^verbatim>\<open>vend/vend_factory.h\<close>: the kinds of VEND, the names of their files, and the object that the factory makes for each kind. The
  undirected classes not met so far are here: \<^verbatim>\<open>RangeVend\<close>, \<^verbatim>\<open>HybridVend\<close>, \<^verbatim>\<open>BloomVend\<close> and \<^verbatim>\<open>CountVend\<close>, which share one construction
  and differ in their encoder, and \<^verbatim>\<open>RangeCompVend\<close>. \<^verbatim>\<open>LargeGraph::Init\<close> uses the factory for graphs that are only in the
  database. At the end the program is run for a kind: build, store, query.
\<close>

section \<open>Kinds and files\<close>

datatype VendType = VT_BloomFilterInt | VT_CBloomFilter | VT_BBloomFilter | VT_BloomFilterBit | VT_Range | VT_HashBit | VT_Bloom | VT_Count
  | VT_Hybrid | VT_HybridDelta | VT_SIMDDelta | VT_SIMDDeltaV1 | VT_SIMDDeltaV2 | VT_SIMDDeltaV3 | VT_RangeVbyte | VT_RangeDelta | VT_RangeBits
  | VT_DirectHybrid | VT_DirectSIMD | VT_NoVend

fun VEND_STRING :: "VendType \<Rightarrow> string" where
  "VEND_STRING VT_BloomFilterBit = ''BloomFilterBit''"
| "VEND_STRING VT_BBloomFilter = ''BlockBloomFilter''"
| "VEND_STRING VT_CBloomFilter = ''CountBloomfilter''"
| "VEND_STRING VT_BloomFilterInt = ''BloomFilterInt''"
| "VEND_STRING VT_Range = ''Range''"
| "VEND_STRING VT_HashBit = ''HashBit''"
| "VEND_STRING VT_Hybrid = ''Hybrid''"
| "VEND_STRING VT_Bloom = ''Bloom''"
| "VEND_STRING VT_Count = ''Count''"
| "VEND_STRING VT_NoVend = ''NoVend''"
| "VEND_STRING VT_HybridDelta = ''HybridDelta''"
| "VEND_STRING VT_SIMDDelta = ''SIMDDelta''"
| "VEND_STRING VT_SIMDDeltaV1 = ''SIMDDeltaV1''"
| "VEND_STRING VT_SIMDDeltaV2 = ''SIMDDeltaV2''"
| "VEND_STRING VT_SIMDDeltaV3 = ''SIMDDeltaV3''"
| "VEND_STRING VT_RangeBits = ''RangeBits''"
| "VEND_STRING VT_RangeDelta = ''RangeDelta''"
| "VEND_STRING VT_RangeVbyte = ''RangeVbyte''"
| "VEND_STRING VT_DirectHybrid = ''DirHyb''"
| "VEND_STRING VT_DirectSIMD = ''DirectSIMD''"

definition GetVendPath :: "string \<Rightarrow> VendType \<Rightarrow> string" where
  "GetVendPath vend_prefix vend_type =
     (case vend_type of VT_NoVend \<Rightarrow> [] | _ \<Rightarrow> vend_prefix @ VEND_STRING vend_type @ ''.txt'')"

definition GetOutputPath :: "string \<Rightarrow> VendType \<Rightarrow> string" where
  "GetOutputPath output_prefix vend_type =
     (case vend_type of VT_NoVend \<Rightarrow> [] | _ \<Rightarrow> output_prefix @ VEND_STRING vend_type @ ''.csv'')"

text \<open>The second file of a directed VEND, from \<^verbatim>\<open>GetDirectEncode\<close>.\<close>

definition in_path :: "string \<Rightarrow> string" where
  "in_path encode_path = encode_path @ ''.in''"

text \<open>The plan of \<^verbatim>\<open>main\<close>, in its order.\<close>

definition main_types :: "VendType list" where
  "main_types = [VT_NoVend, VT_BloomFilterInt, VT_BBloomFilter, VT_CBloomFilter, VT_HashBit, VT_Hybrid, VT_BloomFilterBit, VT_Range,
     VT_Bloom, VT_Count, VT_HybridDelta, VT_SIMDDelta, VT_SIMDDeltaV1, VT_SIMDDeltaV2, VT_SIMDDeltaV3, VT_RangeBits, VT_RangeVbyte,
     VT_RangeDelta, VT_DirectHybrid, VT_DirectSIMD]"

section \<open>The classes\<close>

definition kcore_build :: "config \<Rightarrow> (nat list \<Rightarrow> nat list \<Rightarrow> nat list) \<Rightarrow> (u32 \<Rightarrow> u32 list \<Rightarrow> encoding \<Rightarrow> encoding option) \<Rightarrow> nat \<Rightarrow>
    adjacency option \<Rightarrow> (u32 \<times> u32 list) list \<Rightarrow> encoding option" where
  "kcore_build cfg srt enc int_size adj items = RangeVend_BuildEncoding srt enc int_size (VERTEX_SIZE cfg) adj items (EncodeBitSet cfg)"

definition RangeVend :: "config \<Rightarrow> (nat list \<Rightarrow> nat list \<Rightarrow> nat list) \<Rightarrow> (u32 \<Rightarrow> u32 list) \<Rightarrow> (encoding, encode_line) vend" where
  "RangeVend cfg srt dbq = \<lparr>
     v_BuildEncoding = (\<lambda>adj in_adj. kcore_build cfg srt (Range_EncodeVertex cfg) (max_int_size cfg) (Some adj) []),
     v_EncodePersistent = EncodePersistent cfg,
     v_LoadEncode = (\<lambda>lines. LoadFromDb lines (EncodeBitSet cfg)),
     v_Determine = Range_NEpairTest cfg,
     v_Insert = Range_InsertPair cfg dbq,
     v_Delete = Range_DeletePair cfg dbq\<rparr>"

definition HybridVend :: "config \<Rightarrow> (nat list \<Rightarrow> nat list \<Rightarrow> nat list) \<Rightarrow> (u32 \<Rightarrow> u32 list) \<Rightarrow> (encoding, encode_line) vend" where
  "HybridVend cfg srt dbq = \<lparr>
     v_BuildEncoding = (\<lambda>adj in_adj. kcore_build cfg srt (EncodeVertex cfg) (MAX_INTEGER_SIZE cfg) (Some adj) []),
     v_EncodePersistent = EncodePersistent cfg,
     v_LoadEncode = (\<lambda>lines. LoadFromDb lines (EncodeBitSet cfg)),
     v_Determine = NEpairTest cfg,
     v_Insert = InsertPair cfg dbq,
     v_Delete = DeletePair cfg dbq\<rparr>"

text \<open>\<^verbatim>\<open>BloomEncode\<close> and \<^verbatim>\<open>CountEncode\<close> inherit an empty \<^verbatim>\<open>DeletePair\<close>.\<close>

definition BloomVend :: "config \<Rightarrow> (nat list \<Rightarrow> nat list \<Rightarrow> nat list) \<Rightarrow> (encoding, encode_line) vend" where
  "BloomVend cfg srt = \<lparr>
     v_BuildEncoding = (\<lambda>adj in_adj. kcore_build cfg srt (Bloom_EncodeVertex cfg) (wsub32 (K_SIZE cfg) 1) (Some adj) []),
     v_EncodePersistent = EncodePersistent cfg,
     v_LoadEncode = (\<lambda>lines. LoadFromDb lines (EncodeBitSet cfg)),
     v_Determine = Bloom_NEpairTest cfg,
     v_Insert = Bloom_InsertPair,
     v_Delete = (\<lambda>vertex1 vertex2. Some)\<rparr>"

definition CountVend :: "config \<Rightarrow> (nat list \<Rightarrow> nat list \<Rightarrow> nat list) \<Rightarrow> (encoding, encode_line) vend" where
  "CountVend cfg srt = \<lparr>
     v_BuildEncoding = (\<lambda>adj in_adj. kcore_build cfg srt (Count_EncodeVertex cfg) (ELEMENT_SIZE cfg) (Some adj) []),
     v_EncodePersistent = EncodePersistent cfg,
     v_LoadEncode = (\<lambda>lines. LoadFromDb lines (EncodeBitSet cfg)),
     v_Determine = Count_NEpairTest cfg,
     v_Insert = Count_InsertPair,
     v_Delete = (\<lambda>vertex1 vertex2. Some)\<rparr>"

definition RangeCompVend :: "config \<Rightarrow> (u32 list \<Rightarrow> u32 list) \<Rightarrow> u32 \<Rightarrow> (u32 \<Rightarrow> u32 list) \<Rightarrow> CompMethod \<Rightarrow> (encoding, encode_line) vend" where
  "RangeCompVend cfg ord after dbq m = (let c = RangeCompEncode_codec cfg after m in \<lparr>
     v_BuildEncoding = (\<lambda>adj in_adj. RangeCompVend_BuildEncoding c cfg ord adj (EncodeBitSet cfg)),
     v_EncodePersistent = EncodePersistent cfg,
     v_LoadEncode = (\<lambda>lines. LoadFromDb lines (EncodeBitSet cfg)),
     v_Determine = RangeComp_NEpairTest c,
     v_Insert = RangeComp_InsertPair c cfg dbq,
     v_Delete = RangeComp_DeletePair c cfg dbq\<rparr>)"

section \<open>The factory\<close>

text \<open>What the source leaves open: the order of an \<^verbatim>\<open>unordered_set\<close> and of equal degrees in a sort, the memory behind an array
  of bytes and behind a vector.\<close>

record unspecified =
  u_ord :: "u32 list \<Rightarrow> u32 list"
  u_srt :: "nat list \<Rightarrow> nat list \<Rightarrow> nat list"
  u_pad :: "nat \<Rightarrow> u8"
  u_after :: u32

text \<open>The objects differ in the type of their encoding; \<open>NullVend\<close> is the null pointer.\<close>

datatype any_vend = EncodingVend "(encoding, encode_line) vend" | FilterVend "(bitset bfilter, u32) vend"
  | IntFilterVend "(u32 list bfilter, u32) vend" | NullVend

text \<open>\<open>dbq\<close> asks the database for the neighbours of a vertex, \<open>db_adj\<close> is what \<^verbatim>\<open>LoadDbData\<close> leaves. The constructor of
  \<^verbatim>\<open>HybridDeltaVend\<close> dereferences a null pointer; the directed kinds have no case and leave the pointer as it is.\<close>

fun GetEncode :: "config \<Rightarrow> unspecified \<Rightarrow> (u32 \<Rightarrow> u32 list) \<Rightarrow> adjacency option \<Rightarrow> VendType \<Rightarrow> any_vend option" where
  "GetEncode cfg U dbq db_adj VT_BloomFilterInt = Some (IntFilterVend (BFilterIntVend cfg))"
| "GetEncode cfg U dbq db_adj VT_BloomFilterBit = Some (FilterVend (BFilterBitVend cfg (BIT_HASH_BEST_NUMS cfg) db_adj))"
| "GetEncode cfg U dbq db_adj VT_CBloomFilter =
     do { n \<leftarrow> CBF_element_nums cfg; Some (FilterVend (BFilterBitVend_counting cfg n db_adj)) }"
| "GetEncode cfg U dbq db_adj VT_BBloomFilter = Some (FilterVend (BFilterBitVend_blocked cfg db_adj))"
| "GetEncode cfg U dbq db_adj VT_HashBit = Some (EncodingVend (BitHashVend cfg dbq))"
| "GetEncode cfg U dbq db_adj VT_Range = Some (EncodingVend (RangeVend cfg (u_srt U) dbq))"
| "GetEncode cfg U dbq db_adj VT_Hybrid = Some (EncodingVend (HybridVend cfg (u_srt U) dbq))"
| "GetEncode cfg U dbq db_adj VT_HybridDelta = None"
| "GetEncode cfg U dbq db_adj VT_Count = Some (EncodingVend (CountVend cfg (u_srt U)))"
| "GetEncode cfg U dbq db_adj VT_Bloom = Some (EncodingVend (BloomVend cfg (u_srt U)))"
| "GetEncode cfg U dbq db_adj VT_SIMDDelta = Some (EncodingVend (DeltaSIMDVEND cfg V0 (u_ord U) (u_pad U) dbq))"
| "GetEncode cfg U dbq db_adj VT_SIMDDeltaV1 = Some (EncodingVend (DeltaSIMDVEND cfg V1 (u_ord U) (u_pad U) dbq))"
| "GetEncode cfg U dbq db_adj VT_SIMDDeltaV2 = Some (EncodingVend (DeltaSIMDVEND cfg V2 (u_ord U) (u_pad U) dbq))"
| "GetEncode cfg U dbq db_adj VT_SIMDDeltaV3 = Some (EncodingVend (DeltaSIMDVEND cfg V3 (u_ord U) (u_pad U) dbq))"
| "GetEncode cfg U dbq db_adj VT_RangeBits = Some (EncodingVend (RangeCompVend cfg (u_ord U) (u_after U) dbq BITS))"
| "GetEncode cfg U dbq db_adj VT_RangeVbyte = Some (EncodingVend (RangeCompVend cfg (u_ord U) (u_after U) dbq Vbyte))"
| "GetEncode cfg U dbq db_adj VT_RangeDelta = Some (EncodingVend (RangeCompVend cfg (u_ord U) (u_after U) dbq Delta))"
| "GetEncode cfg U dbq db_adj VT_NoVend = Some NullVend"
| "GetEncode cfg U dbq db_adj VT_DirectHybrid = Some NullVend"
| "GetEncode cfg U dbq db_adj VT_DirectSIMD = Some NullVend"

text \<open>The overload for large graphs: no adjacency list, the constructions read the database. The kinds without a case leave
  the pointer as it is, and \<^verbatim>\<open>LoadDbData\<close> has no list to fill.\<close>

definition kcore_from_db :: "config \<Rightarrow> (nat list \<Rightarrow> nat list \<Rightarrow> nat list) \<Rightarrow> 'd kv_store \<Rightarrow> 'd \<Rightarrow>
    (u32 \<Rightarrow> u32 list \<Rightarrow> encoding \<Rightarrow> encoding option) \<Rightarrow> nat \<Rightarrow> (encoding, encode_line) vend \<Rightarrow> any_vend option" where
  "kcore_from_db cfg srt K d enc int_size V =
     Some (EncodingVend (V\<lparr>v_BuildEncoding := (\<lambda>adj in_adj. do { items \<leftarrow> RocksDb_scan K d; kcore_build cfg srt enc int_size None items })\<rparr>))"

definition filter_from_db :: "'d kv_store \<Rightarrow> 'd \<Rightarrow> (u32 \<Rightarrow> u32 \<Rightarrow> bitset bfilter \<Rightarrow> bitset bfilter option) \<Rightarrow> bitset bfilter \<Rightarrow>
    (bitset bfilter, u32) vend \<Rightarrow> any_vend option" where
  "filter_from_db K d edge_set f V = Some (FilterVend (V\<lparr>v_BuildEncoding := (\<lambda>adj in_adj. edge_build_db edge_set K d f)\<rparr>))"

fun GetEncode_large :: "config \<Rightarrow> unspecified \<Rightarrow> 'd kv_store \<Rightarrow> 'd \<Rightarrow> (u32 \<Rightarrow> u32 list) \<Rightarrow> VendType \<Rightarrow> any_vend option" where
  "GetEncode_large cfg U K d dbq VT_BloomFilterInt =
     Some (IntFilterVend ((BFilterIntVend cfg)\<lparr>v_BuildEncoding := (\<lambda>adj in_adj. edge_build_db BFInt_EdgeSet K d (BFilterIntEncode cfg))\<rparr>))"
| "GetEncode_large cfg U K d dbq VT_BloomFilterBit =
     filter_from_db K d BFBit_EdgeSet (BFilterBitEncode cfg (BIT_HASH_BEST_NUMS cfg)) (BFilterBitVend cfg (BIT_HASH_BEST_NUMS cfg) None)"
| "GetEncode_large cfg U K d dbq VT_CBloomFilter =
     do { n \<leftarrow> CBF_element_nums cfg; filter_from_db K d (CBF_EdgeSet n (ELEMENT_SIZE cfg)) (CBFilterEncode cfg) (BFilterBitVend_counting cfg n None) }"
| "GetEncode_large cfg U K d dbq VT_BBloomFilter =
     filter_from_db K d (BB_EdgeSet BLOCK_SIZE (BLOCK_NUMS cfg)) (BBFilterEncode cfg) (BFilterBitVend_blocked cfg None)"
| "GetEncode_large cfg U K d dbq VT_HashBit =
     Some (EncodingVend ((BitHashVend cfg dbq)\<lparr>v_BuildEncoding := (\<lambda>adj in_adj. BitHashVend_BuildEncoding_db cfg K d (EncodeBitSet cfg))\<rparr>))"
| "GetEncode_large cfg U K d dbq VT_Range = kcore_from_db cfg (u_srt U) K d (Range_EncodeVertex cfg) (max_int_size cfg) (RangeVend cfg (u_srt U) dbq)"
| "GetEncode_large cfg U K d dbq VT_Hybrid = kcore_from_db cfg (u_srt U) K d (EncodeVertex cfg) (MAX_INTEGER_SIZE cfg) (HybridVend cfg (u_srt U) dbq)"
| "GetEncode_large cfg U K d dbq VT_Count = kcore_from_db cfg (u_srt U) K d (Count_EncodeVertex cfg) (ELEMENT_SIZE cfg) (CountVend cfg (u_srt U))"
| "GetEncode_large cfg U K d dbq VT_Bloom = kcore_from_db cfg (u_srt U) K d (Bloom_EncodeVertex cfg) (wsub32 (K_SIZE cfg) 1) (BloomVend cfg (u_srt U))"
| "GetEncode_large cfg U K d dbq _ = Some NullVend"

text \<open>\<^verbatim>\<open>LargeGraph::Init\<close> with the object of the factory, \<^const>\<open>None\<close> for the null pointer: the encoding and its file afterwards. \<open>has_data\<close> says
  that the path of a graph file was given.\<close>

definition LargeGraph_Init :: "VendType \<Rightarrow> ('s, 'f) vend option \<Rightarrow> bool \<Rightarrow> 'f list option \<Rightarrow> ('s option \<times> 'f list option) option" where
  "LargeGraph_Init vend_type vend has_data enc =
     (if vend_type = VT_NoVend then Some (None, enc)
      else if enc = None \<and> has_data then do { V \<leftarrow> vend; (s, f) \<leftarrow> BuildEncode V ([], []); Some (Some s, Some f) }
      else do { V \<leftarrow> vend; s \<leftarrow> v_LoadEncode V (case enc of None \<Rightarrow> [] | Some f \<Rightarrow> f); Some (Some s, enc) })"

section \<open>The program for a kind\<close>

text \<open>Three runs of \<^verbatim>\<open>main\<close> on an empty database: build the encoding, store the graph (the kind \<^verbatim>\<open>NoVend\<close>), query a file of pairs.\<close>

definition program_answer :: "config \<Rightarrow> 'd kv_store \<Rightarrow> ('s, 'f) vend \<Rightarrow> string \<Rightarrow> 'd \<Rightarrow> u32 \<times> u32 \<Rightarrow> string \<Rightarrow> nat option" where
  "program_answer cfg K V file d uninit pairs = do {
     (d, enc) \<leftarrow> BuildExecution_Execute cfg K (Some V) file (d, None);
     (d', _) \<leftarrow> BuildExecution_Execute cfg K (None :: ('s, 'f) vend option) file (d, None);
     q \<leftarrow> QueryExecution_Execute cfg K (Some V) (d', enc) uninit pairs;
     Some (res q) }"

definition program :: "config \<Rightarrow> 'd kv_store \<Rightarrow> any_vend \<Rightarrow> string \<Rightarrow> 'd \<Rightarrow> u32 \<times> u32 \<Rightarrow> string \<Rightarrow> nat option" where
  "program cfg K V file d uninit pairs =
     (case V of EncodingVend V \<Rightarrow> program_answer cfg K V file d uninit pairs
      | FilterVend V \<Rightarrow> program_answer cfg K V file d uninit pairs
      | IntFilterVend V \<Rightarrow> program_answer cfg K V file d uninit pairs
      | NullVend \<Rightarrow> None)"

text \<open>The kinds that answer exactly, with what each asks of the configuration.\<close>

fun exact_kind :: "config \<Rightarrow> VendType \<Rightarrow> bool" where
  "exact_kind cfg VT_HashBit = wf_config cfg"
| "exact_kind cfg VT_BloomFilterBit = (wf_config cfg \<and> BIT_HASH_BEST_NUMS cfg \<le> 60)"
| "exact_kind cfg VT_SIMDDelta = delta_config cfg"
| "exact_kind cfg VT_SIMDDeltaV1 = delta_config cfg"
| "exact_kind cfg VT_SIMDDeltaV2 = delta_config cfg"
| "exact_kind cfg VT_RangeBits = method_ok BITS cfg"
| "exact_kind cfg VT_RangeVbyte = method_ok Vbyte cfg"
| "exact_kind cfg VT_RangeDelta = method_ok Delta cfg"
| "exact_kind cfg _ = False"

section \<open>RangeCompVend is a sound VEND\<close>

lemma comp_Determine_same:
  assumes "st' ! unat u = st ! unat u" "st' ! unat v = st ! unat v" "unat u < length st" "unat u < length st'" "unat v < length st" "unat v < length st'"
  shows "RangeComp_NEpairTest c st' v u = RangeComp_NEpairTest c st v u"
  using assms by (simp add: RangeComp_NEpairTest_def RangeComp_NonNeighborTest_def)

interpretation comp_program: sound_vend "RangeCompVend cfg ord after dbq m" cfg "method_ok m cfg \<and> traversal ord"
  "\<lambda>adj st. wf_encoding cfg st \<and> (\<forall>u v. is_vertex cfg u \<longrightarrow> is_vertex cfg v \<longrightarrow>
     (\<exists>r. RangeComp_NEpairTest (RangeCompEncode_codec cfg after m) st v u = Some r \<and> answer_ok r (u \<in> set (adj ! unat v))))" for cfg ord after dbq m
proof
  fix adj in_adj
  assume a: "method_ok m cfg \<and> traversal ord" "simple_graph cfg adj"
  have "delta_ids cfg (adj ! unat v)" if "is_vertex cfg v" for v using simple_graphD(2,3) [OF a(2) that] by (simp add: delta_ids_def)
  from comp_vend_build [OF _ simple_graphD(1) [OF a(2)] this _ refl, of m ord after] a(1)
  show "\<exists>s. v_BuildEncoding (RangeCompVend cfg ord after dbq m) adj in_adj = Some s \<and> wf_encoding cfg s \<and> (\<forall>u v. is_vertex cfg u \<longrightarrow> is_vertex cfg v \<longrightarrow>
     (\<exists>r. RangeComp_NEpairTest (RangeCompEncode_codec cfg after m) s v u = Some r \<and> answer_ok r (u \<in> set (adj ! unat v))))"
    by (simp add: RangeCompVend_def Let_def)
next
  fix adj st
  assume a: "method_ok m cfg \<and> traversal ord" and st: "wf_encoding cfg st \<and> (\<forall>u v. is_vertex cfg u \<longrightarrow> is_vertex cfg v \<longrightarrow>
     (\<exists>r. RangeComp_NEpairTest (RangeCompEncode_codec cfg after m) st v u = Some r \<and> answer_ok r (u \<in> set (adj ! unat v))))"
  have cfg: "wf_config cfg" using method_ok_comp comp_configD(1) a by blast
  obtain lines st' where l: "EncodePersistent cfg st = Some lines" "LoadFromDb lines (EncodeBitSet cfg) = Some st'"
    "wf_encoding cfg st'" "\<And>v. is_vertex cfg v \<Longrightarrow> st' ! unat v = st ! unat v"
    using persist_reload [OF cfg _ EncodeBitSet_wf(1) [OF cfg]] st by blast
  have "RangeComp_NEpairTest c st' v u = RangeComp_NEpairTest c st v u" if "is_vertex cfg u" "is_vertex cfg v" for c u v
    using that l(3,4) st by (intro comp_Determine_same) (blast intro: is_vertex_index)+
  with l st show "\<exists>f s'. v_EncodePersistent (RangeCompVend cfg ord after dbq m) st = Some f \<and> v_LoadEncode (RangeCompVend cfg ord after dbq m) f = Some s' \<and>
    wf_encoding cfg s' \<and> (\<forall>u v. is_vertex cfg u \<longrightarrow> is_vertex cfg v \<longrightarrow>
     (\<exists>r. RangeComp_NEpairTest (RangeCompEncode_codec cfg after m) s' v u = Some r \<and> answer_ok r (u \<in> set (adj ! unat v))))"
    by (simp add: RangeCompVend_def Let_def)
qed (simp add: RangeCompVend_def Let_def)

section \<open>Properties\<close>

lemma program_answer_exact:
  assumes "\<exists>d' lines q. BuildExecution_Execute cfg K (Some V) file (d, None) = Some (d, Some lines) \<and>
    BuildExecution_Execute cfg K (None :: ('s, 'f) vend option) file (d, None) = Some (d', None) \<and>
    QueryExecution_Execute cfg K (Some V) (d', Some lines) uninit pairs = Some q \<and> res q = n \<and> rest d' lines q"
  shows "program_answer cfg K (V :: ('s, 'f) vend) file d uninit pairs = Some n"
  using assms by (auto simp: program_answer_def)

text \<open>C2. The program answers queries exactly with every kind that \<open>exact_kind\<close> lists: the bitmap, the Bloom filter of bits, the
  delta codecs 0 to 2 and the three compressed range encodings. The factory makes the object, the encoding is built and
  saved, the graph stored, and the query counts exactly the pairs that are edges of the graph file, whatever order the hash
  sets have and whatever memory is read behind arrays. The blocks of the bit codec must have eight bits at least and must not
  fill the array to its last bit.\<close>

theorem factory_program_exact:
  assumes "exact_kind cfg t" "VERTEX_SIZE cfg < 2 ^ 31" "VERTEX_SIZE cfg < 2 ^ VERTEX_BIT_SIZE cfg" "traversal (u_ord U)" "kv_laws K" "kv_empty K d"
    "simple_edges cfg es" "ps \<noteq> []" "\<forall>(u, v) \<in> set ps. is_vertex cfg u \<and> is_vertex cfg v" "ListPersistent ps = Some pairs"
  shows "\<exists>V. GetEncode cfg U dbq db_adj t = Some V \<and>
    program cfg K V (edge_text es) d uninit pairs = Some (length (filter (\<lambda>(u, v). is_edge es u v) ps))"
proof -
  let ?n = "length (filter (\<lambda>(u, v). is_edge es u v) ps)"
  note rest = assms(2,3,5-10)
  have marks: "program_answer cfg K (BitHashVend cfg dbq) (edge_text es) d uninit pairs = Some ?n" if "wf_config cfg"
    by (rule program_answer_exact, rule bitmap_program.query_exact [OF that that rest])
  have bloom: "program_answer cfg K (BFilterBitVend cfg n db_adj) (edge_text es) d uninit pairs = Some ?n" if "wf_config cfg \<and> n \<le> 60" for n
    by (rule program_answer_exact, rule filter_program.query_exact [OF that conjunct1 [OF that] rest])
  have delta: "program_answer cfg K (DeltaSIMDVEND cfg v (u_ord U) pad dbq) (edge_text es) d uninit pairs = Some ?n" if "v \<noteq> V3" "delta_config cfg" for v pad
    by (rule program_answer_exact, rule delta_program.query_exact [OF _ delta_configD(1) [OF that(2)] rest]) (use that assms(4) in simp)
  have comp: "program_answer cfg K (RangeCompVend cfg (u_ord U) after dbq m) (edge_text es) d uninit pairs = Some ?n" if "method_ok m cfg" for m after
    by (rule program_answer_exact, rule comp_program.query_exact [OF _ comp_configD(1) [OF method_ok_comp [OF that]] rest]) (use that assms(4) in simp)
  show ?thesis using assms(1) by (cases t) (simp_all add: program_def marks bloom delta comp)
qed

lemma factory_program_exact_witness:
  "\<exists>V pairs. ListPersistent [(10, 2), (3, 7)] = Some pairs \<and>
    GetEncode range_demo \<lparr>u_ord = remdups, u_srt = stable_sort, u_pad = (\<lambda>_. 0), u_after = 0\<rparr> (\<lambda>_. []) None VT_RangeDelta = Some V \<and>
    program range_demo list_store V (edge_text demo_edges) DAList.empty (0, 0) pairs = Some 1"
proof -
  let ?U = "\<lparr>u_ord = remdups, u_srt = stable_sort, u_pad = (\<lambda>_. 0), u_after = 0\<rparr>"
  have same: "VERTEX_SIZE range_demo = VERTEX_SIZE demo_config" "VERTEX_BIT_SIZE range_demo = VERTEX_BIT_SIZE demo_config"
    by (simp_all add: range_demo_def demo_config_def)
  have kind: "exact_kind range_demo VT_RangeDelta" using range_demo_graph(1) by simp
  have es: "simple_edges range_demo demo_edges" using demo_edges_simple(1) by (simp add: simple_edges_def range_demo_graph(3))
  have ps: "\<forall>(u, v) \<in> set [(10, 2), (3, 7)]. is_vertex range_demo u \<and> is_vertex range_demo v" by (simp add: is_vertex_def range_demo_def)
  have n: "length (filter (\<lambda>(u, v). is_edge demo_edges u v) [(10, 2), (3, 7)]) = 1" by (simp add: is_edge_def demo_edges_def)
  have v: "VERTEX_SIZE range_demo < 2 ^ 31" "VERTEX_SIZE range_demo < 2 ^ VERTEX_BIT_SIZE range_demo" by (simp_all add: range_demo_def)
  obtain pairs where p: "ListPersistent [(10, 2), (3, 7)] = Some pairs" by (simp add: ListPersistent_def)
  have ord: "traversal (u_ord ?U)" by (simp add: traversal_remdups)
  show ?thesis using factory_program_exact [OF kind v ord list_store_laws list_store_empty es _ ps p, where dbq = "\<lambda>_. []" and db_adj = None and uninit = "(0, 0)"] n p
    by auto
qed

lemma main_types_all: "t \<in> set main_types"
  by (cases t) (simp_all add: main_types_def)

lemma inj_VEND_STRING: "VEND_STRING t = VEND_STRING t' \<Longrightarrow> t = t'"
proof -
  assume eq: "VEND_STRING t = VEND_STRING t'"
  have "distinct (map VEND_STRING main_types)" by code_simp
  then have "inj_on VEND_STRING (set main_types)" by (simp add: distinct_map)
  then show "t = t'" using eq main_types_all by (auto dest: inj_onD)
qed

text \<open>C31. No two kinds of VEND share a file: for every prefix the paths of different kinds differ, and the second file of a
  directed kind is not the file of another kind; so the loop of \<^verbatim>\<open>main\<close> over its plan never reads an encoding written by
  another kind. The plan holds every kind once.\<close>

theorem vend_paths_distinct:
  "(t \<noteq> VT_NoVend \<longrightarrow> GetVendPath p t = GetVendPath p t' \<longrightarrow> t = t') \<and>
   (t \<noteq> VT_NoVend \<longrightarrow> in_path (GetVendPath p t) \<noteq> GetVendPath p t' \<and> (in_path (GetVendPath p t) = in_path (GetVendPath p t') \<longrightarrow> t = t')) \<and>
   distinct main_types \<and> t \<in> set main_types"
proof -
  have path: "GetVendPath p k = (if k = VT_NoVend then [] else p @ VEND_STRING k @ ''.txt'')" for k by (cases k) (simp_all add: GetVendPath_def)
  have "distinct main_types" by code_simp
  moreover have "in_path (GetVendPath p t) \<noteq> GetVendPath p t'"
  proof
    assume "in_path (GetVendPath p t) = GetVendPath p t'"
    then have "last (in_path (GetVendPath p t)) = last (GetVendPath p t')" "GetVendPath p t' \<noteq> []" by (auto simp: in_path_def)
    then show False by (auto simp: path in_path_def split: if_splits)
  qed
  moreover have "t = t'" if "t \<noteq> VT_NoVend" "GetVendPath p t = GetVendPath p t'"
    using that inj_VEND_STRING [of t t'] by (auto simp: path split: if_splits)
  ultimately show ?thesis using main_types_all [of t] by (auto simp: in_path_def)
qed

lemma vend_paths_distinct_witness:
  "GetVendPath ''v_'' VT_Range \<noteq> GetVendPath ''v_'' VT_RangeBits \<and> in_path (GetVendPath ''v_'' VT_DirectSIMD) \<noteq> GetVendPath ''v_'' VT_SIMDDelta"
  using vend_paths_distinct [of VT_Range "''v_''" VT_RangeBits] vend_paths_distinct [of VT_DirectSIMD "''v_''" VT_SIMDDelta] by blast

text \<open>A large graph with a delta or a compressed kind: the factory leaves the pointer null, and there is nothing to build or load.\<close>

lemma large_graph_kinds:
  assumes "t \<in> {VT_SIMDDelta, VT_SIMDDeltaV1, VT_SIMDDeltaV2, VT_SIMDDeltaV3, VT_RangeBits, VT_RangeVbyte, VT_RangeDelta}"
  shows "GetEncode_large cfg U K d dbq t = Some NullVend \<and> LargeGraph_Init t (None :: ('s, 'f) vend option) has_data enc = None"
  using assms by (auto simp: LargeGraph_Init_def)

end
