(* ===== verification/Pair_Lists.thy ===== *)
theory Pair_Lists
  imports Executions_Spec
begin

text \<open>
  The experiments on random pairs: the lists of pairs that the executions create when no file holds them (\<^verbatim>\<open>CreateList\<close>), and the
  scores of \<^verbatim>\<open>ScoreExecution\<close> and \<^verbatim>\<open>FullScoreExecution\<close>. The numbers that an engine of \<^verbatim>\<open><random>\<close> or \<^verbatim>\<open>rand\<close> gives are a sequence, an
  argument; an index says how many have been taken. The loops run until enough pairs are found: \<^const>\<open>None\<close> stands for
  a loop that does not end. \<open>V\<close> is \<^verbatim>\<open>VERTEX_SIZE\<close>.
\<close>

section \<open>Random pairs\<close>

text \<open>\<^verbatim>\<open>u(e) % VERTEX_SIZE + 1\<close>.\<close>

definition to_vertex :: "nat \<Rightarrow> u32 \<Rightarrow> u32" where
  "to_vertex V x = of_nat (unat x mod V + 1)"

partial_function (option) random_pairs :: "(u32 \<Rightarrow> u32) \<Rightarrow> (nat \<Rightarrow> u32) \<Rightarrow> nat \<Rightarrow> nat \<Rightarrow> (u32 \<times> u32) list \<Rightarrow> (u32 \<times> u32) list option" where
  "random_pairs pick e vertex_size i pair_list =
     (if length pair_list < vertex_size then
        let vertex1 = pick (e i); vertex2 = pick (e (i + 1)) in
        if vertex1 = vertex2 then random_pairs pick e vertex_size (i + 2) pair_list
        else random_pairs pick e vertex_size (i + 2) (pair_list @ [(vertex1, vertex2)])
      else Some pair_list)"

text \<open>The engines of \<^verbatim>\<open>RandomQueryExecution\<close> and \<^verbatim>\<open>DeleteExecution\<close> give numbers from 1 to \<open>V\<close>; \<^verbatim>\<open>InsertExecution\<close> reduces them once more.\<close>

definition RandomQuery_CreateList :: "(nat \<Rightarrow> u32) \<Rightarrow> nat \<Rightarrow> (u32 \<times> u32) list \<Rightarrow> (u32 \<times> u32) list option" where
  "RandomQuery_CreateList e vertex_size = random_pairs (\<lambda>x. x) e vertex_size 0"

definition Delete_CreateList :: "(nat \<Rightarrow> u32) \<Rightarrow> nat \<Rightarrow> (u32 \<times> u32) list \<Rightarrow> (u32 \<times> u32) list option" where
  "Delete_CreateList e vertex_size = random_pairs (\<lambda>x. x) e vertex_size 0"

definition Insert_CreateList :: "nat \<Rightarrow> (nat \<Rightarrow> u32) \<Rightarrow> nat \<Rightarrow> (u32 \<times> u32) list \<Rightarrow> (u32 \<times> u32) list option" where
  "Insert_CreateList V e vertex_size = random_pairs (to_vertex V) e vertex_size 0"

section \<open>Pairs of two neighbours\<close>

text \<open>One round of \<^verbatim>\<open>QueryExecution::CreateList\<close> through the shuffled vertices; the first component says that the method has
  returned. \<open>get_neighbors\<close> is \<^verbatim>\<open>Graph::GetNeighbors\<close>.\<close>

fun walk_round :: "(u32 \<Rightarrow> u32 list) \<Rightarrow> (nat \<Rightarrow> u32) \<Rightarrow> nat \<Rightarrow> u32 list \<Rightarrow> nat \<times> (u32 \<times> u32) list \<Rightarrow> bool \<times> nat \<times> (u32 \<times> u32) list" where
  "walk_round get_neighbors e vertex_size [] (i, pair_list) = (False, i, pair_list)"
| "walk_round get_neighbors e vertex_size (vertex # vs) (i, pair_list) =
     (let neighbors = get_neighbors vertex; neighbor_size = length neighbors in
      if neighbor_size \<le> 1 then walk_round get_neighbors e vertex_size vs (i, pair_list)
      else
        let v1 = neighbors ! (unat (e i) mod neighbor_size); v2 = neighbors ! (unat (e (i + 1)) mod neighbor_size) in
        if v1 = v2 then walk_round get_neighbors e vertex_size vs (i + 2, pair_list)
        else
          let pair_list = pair_list @ [(v1, v2)] in
          if length pair_list \<ge> vertex_size then (True, i + 2, pair_list)
          else walk_round get_neighbors e vertex_size vs (i + 2, pair_list))"

partial_function (option) walk_rounds :: "(u32 \<Rightarrow> u32 list) \<Rightarrow> (nat \<Rightarrow> u32) \<Rightarrow> nat \<Rightarrow> u32 list \<Rightarrow> nat \<times> (u32 \<times> u32) list \<Rightarrow> (u32 \<times> u32) list option" where
  "walk_rounds get_neighbors e vertex_size random_array s =
     (if length (snd s) < vertex_size then
        let (returned, s) = walk_round get_neighbors e vertex_size random_array s in
        if returned then Some (snd s) else walk_rounds get_neighbors e vertex_size random_array s
      else Some (snd s))"

text \<open>\<open>shuffle\<close> is what \<^verbatim>\<open>std::shuffle\<close> does.\<close>

definition Query_CreateList :: "nat \<Rightarrow> (u32 list \<Rightarrow> u32 list) \<Rightarrow> (u32 \<Rightarrow> u32 list) \<Rightarrow> (nat \<Rightarrow> u32) \<Rightarrow> nat \<Rightarrow> (u32 \<times> u32) list \<Rightarrow> (u32 \<times> u32) list option" where
  "Query_CreateList V shuffle get_neighbors e vertex_size pair_list =
     walk_rounds get_neighbors e vertex_size (shuffle (map of_nat [1..<V + 1])) (0, pair_list)"

text \<open>\<^verbatim>\<open>ScoreExecution::CreateList\<close>: the loops over \<^verbatim>\<open>i\<close> and \<^verbatim>\<open>j\<close> leave the method when enough pairs are found. The state is a flag
  for this, the number of calls of \<^verbatim>\<open>rand\<close>, and the list.\<close>

type_synonym walk = "bool \<times> nat \<times> (u32 \<times> u32) list"

fun score_inner :: "u32 list \<Rightarrow> (nat \<Rightarrow> nat) \<Rightarrow> nat \<Rightarrow> nat \<Rightarrow> nat list \<Rightarrow> walk \<Rightarrow> walk" where
  "score_inner neighbors rand vertex_size i [] s = s"
| "score_inner neighbors rand vertex_size i (j # js) (returned, k, pair_list) =
     (if returned then (returned, k, pair_list)
      else if rand k mod 2 = 0 then score_inner neighbors rand vertex_size i js (False, k + 1, pair_list)
      else
        let pair_list = pair_list @ [(neighbors ! i, neighbors ! j)] in
        score_inner neighbors rand vertex_size i js (length pair_list \<ge> vertex_size, k + 1, pair_list))"

definition score_outer :: "u32 list \<Rightarrow> (nat \<Rightarrow> nat) \<Rightarrow> nat \<Rightarrow> nat \<Rightarrow> walk \<Rightarrow> walk" where
  "score_outer neighbors rand vertex_size i = (\<lambda>(returned, k, pair_list).
     if returned then (returned, k, pair_list)
     else if rand k mod 2 = 0 then (False, k + 1, pair_list)
     else score_inner neighbors rand vertex_size i (filter (\<lambda>j. odd (j - i)) [i + 1..<length neighbors]) (False, k + 1, pair_list))"

definition Score_CreateList :: "nat \<Rightarrow> (u32 list \<Rightarrow> u32 list) \<Rightarrow> (u32 \<Rightarrow> u32 list) \<Rightarrow> (nat \<Rightarrow> nat) \<Rightarrow> nat \<Rightarrow> (u32 \<times> u32) list \<Rightarrow> (u32 \<times> u32) list" where
  "Score_CreateList V shuffle get_neighbors rand vertex_size pair_list =
     snd (snd (fold (\<lambda>v s. fold (score_outer (get_neighbors v) rand vertex_size) [0..<length (get_neighbors v) - 1] s)
       (shuffle (map of_nat [1..<V + 1])) (False, 0, pair_list)))"

section \<open>Two random sets\<close>

text \<open>A loop that inserts into an \<^verbatim>\<open>unordered_set\<close>, here a list without repetition.\<close>

partial_function (option) draw_set :: "(u32 \<Rightarrow> bool) \<Rightarrow> (nat \<Rightarrow> u32) \<Rightarrow> nat \<Rightarrow> nat \<Rightarrow> u32 list \<Rightarrow> u32 list option" where
  "draw_set wanted e vertex_size i vs =
     (if length vs < vertex_size then
        draw_set wanted e vertex_size (i + 1) (if wanted (e i) then List.insert (e i) vs else vs)
      else Some vs)"

text \<open>The engine is seeded with the time twice: \<open>e\<close> and \<open>e'\<close> are the same sequence if both calls see the same second.\<close>

definition RandomCreate :: "nat \<Rightarrow> (nat \<Rightarrow> u32) \<Rightarrow> (nat \<Rightarrow> u32) \<Rightarrow> nat \<Rightarrow> nat \<Rightarrow> (u32 list \<times> u32 list) option" where
  "RandomCreate V e e' vertex_size1 vertex_size2 = do {
     vertex_list1 \<leftarrow> draw_set (\<lambda>id. True) (\<lambda>i. to_vertex V (e i)) vertex_size1 0 [];
     vertex_list2 \<leftarrow> draw_set (\<lambda>id. id \<notin> set vertex_list1) (\<lambda>i. to_vertex V (e' i)) vertex_size2 0 [];
     Some (vertex_list1, vertex_list2) }"

definition VERTETX_TEST_SIZE1 :: nat where
  "VERTETX_TEST_SIZE1 = 100000"

definition RandomScore_CreateList :: "nat \<Rightarrow> (u32 list \<Rightarrow> u32 list) \<Rightarrow> (nat \<Rightarrow> u32) \<Rightarrow> (nat \<Rightarrow> u32) \<Rightarrow> nat \<Rightarrow> (u32 \<times> u32) list \<Rightarrow> (u32 \<times> u32) list option" where
  "RandomScore_CreateList V ord e e' vertex_size pair_list = do {
     (vertex_list1, vertex_list2) \<leftarrow> RandomCreate V e e' VERTETX_TEST_SIZE1 (vertex_size div VERTETX_TEST_SIZE1);
     Some (pair_list @ concat (map (\<lambda>v1. map (\<lambda>v2. (v2, v1)) (ord vertex_list2)) (ord vertex_list1))) }"

section \<open>Scores\<close>

text \<open>\<open>gs\<close> are the functions \<^verbatim>\<open>GetEdge\<close> of the graphs, one for each plan.\<close>

definition score_pair :: "(u32 \<Rightarrow> u32 \<Rightarrow> PairType option) list \<Rightarrow> u32 \<times> u32 \<Rightarrow> 'w::len word list \<Rightarrow> 'w word list option" where
  "score_pair gs = (\<lambda>(vertex1, vertex2) scores.
     foldo (\<lambda>n scores. do {
         get_edge \<leftarrow> aget gs n;
         type \<leftarrow> get_edge vertex1 vertex2;
         c \<leftarrow> aget scores n;
         if type \<noteq> Uncertain then aput scores n (c + 1) else Some scores }) [0..<length gs] scores)"

definition ScoreExecution_Execute :: "(u32 \<Rightarrow> u32 \<Rightarrow> PairType option) list \<Rightarrow> (u32 \<times> u32) list \<Rightarrow> u32 list option" where
  "ScoreExecution_Execute gs pair_list = foldo (score_pair gs) pair_list (replicate (length gs) 0)"

definition SCORE_BATCH :: nat where
  "SCORE_BATCH = 1000000"

definition TOTAL_PAIRS_SIZE :: nat where
  "TOTAL_PAIRS_SIZE = 100000000"

partial_function (option) full_score :: "nat \<Rightarrow> (u32 \<Rightarrow> u32 \<Rightarrow> PairType option) list \<Rightarrow> (nat \<Rightarrow> u32) \<Rightarrow> nat \<Rightarrow> nat \<Rightarrow> 64 word list \<Rightarrow> 64 word list option" where
  "full_score V gs e i n scores =
     (if n \<le> TOTAL_PAIRS_SIZE then
        let random1 = to_vertex V (e i); random2 = to_vertex V (e (i + 1)) in
        if random1 = random2 then full_score V gs e (i + 2) n scores
        else do {
          let n = n + 1;
          scores \<leftarrow> score_pair gs (random1, random2) scores;
          if n mod SCORE_BATCH = 0 \<and> n \<ge> TOTAL_PAIRS_SIZE then Some scores
          else full_score V gs e (i + 2) n scores }
      else Some scores)"

definition FullScoreExecution_Execute :: "nat \<Rightarrow> (u32 \<Rightarrow> u32 \<Rightarrow> PairType option) list \<Rightarrow> (nat \<Rightarrow> u32) \<Rightarrow> 64 word list option" where
  "FullScoreExecution_Execute V gs e = full_score V gs e 0 0 (replicate (length gs) 0)"

section \<open>Random pairs are found\<close>

text \<open>Rounds with two equal numbers are skipped; a fair sequence has infinitely many others.\<close>

definition fair_pairs :: "(u32 \<Rightarrow> u32) \<Rightarrow> (nat \<Rightarrow> u32) \<Rightarrow> bool" where
  "fair_pairs pick e \<longleftrightarrow> (\<forall>i. \<exists>k \<ge> i. pick (e (2 * k)) \<noteq> pick (e (2 * k + 1)))"

lemma next_pair:
  assumes "fair_pairs pick e"
  obtains k where "i \<le> k" "pick (e (2 * k)) \<noteq> pick (e (2 * k + 1))" "\<And>j. i \<le> j \<Longrightarrow> j < k \<Longrightarrow> pick (e (2 * j)) = pick (e (2 * j + 1))"
proof -
  let ?P = "\<lambda>k. i \<le> k \<and> pick (e (2 * k)) \<noteq> pick (e (2 * k + 1))"
  have "\<exists>k. ?P k" using assms unfolding fair_pairs_def by blast
  then have ex: "?P (LEAST k. ?P k)" by (rule LeastI_ex)
  have min: "pick (e (2 * j)) = pick (e (2 * j + 1))" if "i \<le> j" "j < (LEAST k. ?P k)" for j using not_less_Least [OF that(2)] that(1) by blast
  show thesis by (rule that [OF conjunct1 [OF ex] conjunct2 [OF ex]]) (rule min)
qed

lemma random_pairs_skip:
  assumes "i \<le> k" "\<And>j. i \<le> j \<Longrightarrow> j < k \<Longrightarrow> pick (e (2 * j)) = pick (e (2 * j + 1))" "length ps < n"
  shows "random_pairs pick e n (2 * i) ps = random_pairs pick e n (2 * k) ps"
  using assms(1,2)
proof (induction "k - i" arbitrary: i)
  case (Suc d)
  then have "random_pairs pick e n (2 * i) ps = random_pairs pick e n (2 * Suc i) ps"
    using assms(3) Suc.prems(2) [of i] by (subst random_pairs.simps) (simp add: Let_def)
  also have "\<dots> = random_pairs pick e n (2 * k) ps" using Suc by (intro Suc(1)) auto
  finally show ?case .
qed simp

lemma full_score_skip:
  assumes "i \<le> k" "\<And>j. i \<le> j \<Longrightarrow> j < k \<Longrightarrow> to_vertex V (e (2 * j)) = to_vertex V (e (2 * j + 1))" "n \<le> TOTAL_PAIRS_SIZE"
  shows "full_score V gs e (2 * i) n sc = full_score V gs e (2 * k) n sc"
  using assms(1,2)
proof (induction "k - i" arbitrary: i)
  case (Suc d)
  then have "full_score V gs e (2 * i) n sc = full_score V gs e (2 * Suc i) n sc"
    using assms(3) Suc.prems(2) [of i] by (subst full_score.simps) (simp add: Let_def)
  also have "\<dots> = full_score V gs e (2 * k) n sc" using Suc by (intro Suc(1)) auto
  finally show ?case .
qed simp

text \<open>The pairs that are found, by \<^verbatim>\<open>CreateList\<close> and by the loop of the full score.\<close>

lemma random_pairs_found:
  assumes "fair_pairs pick e"
  shows "\<exists>ps. length ps = m \<and> (\<forall>(u, v) \<in> set ps. u \<noteq> v \<and> u \<in> range (pick \<circ> e) \<and> v \<in> range (pick \<circ> e)) \<and>
    (\<forall>qs. random_pairs pick e (length qs + m) (2 * i) qs = Some (qs @ ps)) \<and>
    (pick = to_vertex V \<longrightarrow> (\<forall>gs n sc. 0 < m \<longrightarrow> n + m = TOTAL_PAIRS_SIZE \<longrightarrow> full_score V gs e (2 * i) n sc = foldo (score_pair gs) ps sc))"
proof (induction m arbitrary: i)
  case 0
  have "random_pairs pick e (length qs) (2 * i) qs = Some qs" for qs by (subst random_pairs.simps) simp
  then show ?case by simp
next
  case (Suc m)
  obtain k where k: "i \<le> k" "pick (e (2 * k)) \<noteq> pick (e (2 * k + 1))" "\<And>j. i \<le> j \<Longrightarrow> j < k \<Longrightarrow> pick (e (2 * j)) = pick (e (2 * j + 1))"
    using next_pair [OF assms] by metis
  obtain ps where ps: "length ps = m" "\<forall>(u, v) \<in> set ps. u \<noteq> v \<and> u \<in> range (pick \<circ> e) \<and> v \<in> range (pick \<circ> e)"
    "\<And>qs. random_pairs pick e (length qs + m) (2 * Suc k) qs = Some (qs @ ps)"
    "\<And>gs n sc. pick = to_vertex V \<Longrightarrow> 0 < m \<Longrightarrow> n + m = TOTAL_PAIRS_SIZE \<Longrightarrow> full_score V gs e (2 * Suc k) n sc = foldo (score_pair gs) ps sc"
    using Suc [of "Suc k"] by blast
  let ?p = "(pick (e (2 * k)), pick (e (2 * k + 1)))"
  have "random_pairs pick e (length qs + Suc m) (2 * i) qs = Some (qs @ ?p # ps)" for qs
  proof -
    have "random_pairs pick e (length qs + Suc m) (2 * i) qs = random_pairs pick e (length qs + Suc m) (2 * k) qs"
      by (rule random_pairs_skip [where pick = pick and e = e, OF k(1,3)]) simp_all
    also have "\<dots> = random_pairs pick e (length (qs @ [?p]) + m) (2 * Suc k) (qs @ [?p])" using k(2) by (subst random_pairs.simps) (simp add: Let_def)
    also have "\<dots> = Some (qs @ ?p # ps)" unfolding ps(3) by simp
    finally show ?thesis .
  qed
  moreover have "full_score V gs e (2 * i) n sc = foldo (score_pair gs) (?p # ps) sc"
    if pick: "pick = to_vertex V" and n: "n + Suc m = TOTAL_PAIRS_SIZE" for gs n sc
  proof -
    have "full_score V gs e (2 * i) n sc = full_score V gs e (2 * k) n sc"
      by (rule full_score_skip [where e = e and V = V, OF k(1) k(3) [unfolded pick]]) (use n in simp_all)
    also have "\<dots> = foldo (score_pair gs) (?p # ps) sc"
    proof (cases "m = 0")
      case True
      then have "Suc n = TOTAL_PAIRS_SIZE" "TOTAL_PAIRS_SIZE mod SCORE_BATCH = 0" using n by (simp_all add: TOTAL_PAIRS_SIZE_def SCORE_BATCH_def)
      then show ?thesis using k(2) True ps(1) by (subst full_score.simps) (simp add: Let_def pick)
    next
      case False
      then show ?thesis using k(2) n ps(4) [OF pick, of "Suc n" gs] by (subst full_score.simps) (simp add: Let_def pick)
    qed
    finally show ?thesis .
  qed
  ultimately show ?case using ps(1,2) k(2) by (intro exI [of _ "?p # ps"]) auto
qed

text \<open>With one vertex there is no pair, and the loop does not end.\<close>

lemma random_pairs_none:
  assumes "\<And>i. pick (e i) = c" "length qs < n"
  shows "random_pairs pick e n i qs = None"
proof (rule ccontr)
  assume "random_pairs pick e n i qs \<noteq> None"
  then obtain r where r: "random_pairs pick e n i qs = Some r" by auto
  have "pick = pick' \<longrightarrow> e = e' \<longrightarrow> n = n' \<longrightarrow> n' \<le> length qs'" if "random_pairs pick' e' n' i' qs' = Some r'" for pick' e' n' i' qs' r'
    using that
  proof (rule random_pairs.raw_induct [where P = "\<lambda>pick' e' n' i' qs' r'. pick = pick' \<longrightarrow> e = e' \<longrightarrow> n = n' \<longrightarrow> n' \<le> length qs'", rotated])
    fix rec pick' e' n' i' qs' r'
    assume "\<And>pick' e' n' i' qs' r'. rec pick' e' n' i' qs' = Some r' \<Longrightarrow> pick = pick' \<longrightarrow> e = e' \<longrightarrow> n = n' \<longrightarrow> n' \<le> length qs'"
      "(if length qs' < n' then let vertex1 = pick' (e' i'); vertex2 = pick' (e' (i' + 1)) in
        if vertex1 = vertex2 then rec pick' e' n' (i' + 2) qs' else rec pick' e' n' (i' + 2) (qs' @ [(vertex1, vertex2)])
        else Some qs') = Some r'"
    then show "pick = pick' \<longrightarrow> e = e' \<longrightarrow> n = n' \<longrightarrow> n' \<le> length qs'"
      using assms(1) by (fastforce simp: Let_def split: if_splits)
  qed
  then show False using r assms(2) by fastforce
qed

section \<open>Pairs with a common neighbour\<close>

definition common_pairs :: "(u32 \<Rightarrow> u32 list) \<Rightarrow> (u32 \<times> u32) set" where
  "common_pairs get_neighbors = {(u, v). \<exists>w. u \<in> set (get_neighbors w) \<and> v \<in> set (get_neighbors w)}"

text \<open>What every step keeps: the pairs have a common neighbour, and there are fewer than asked for until the method returns.\<close>

definition walk_ok :: "(u32 \<Rightarrow> u32 list) \<Rightarrow> nat \<Rightarrow> walk \<Rightarrow> bool" where
  "walk_ok get_neighbors n = (\<lambda>(returned, k, ps). set ps \<subseteq> common_pairs get_neighbors \<and> (if returned then length ps = n else length ps < n))"

lemma score_inner_ok:
  assumes "i < length (nb w)" "\<forall>j \<in> set js. j < length (nb w)" "walk_ok nb n s"
  shows "walk_ok nb n (score_inner (nb w) rand n i js s)"
  using assms
proof (induction "nb w" rand n i js s rule: score_inner.induct)
  case (2 rand n i j js returned k ps)
  have "(nb w ! i, nb w ! j) \<in> common_pairs nb" using 2(3,4) by (auto simp: common_pairs_def intro!: exI [of _ w])
  then have new: "walk_ok nb n (n \<le> length (ps @ [(nb w ! i, nb w ! j)]), k + 1, ps @ [(nb w ! i, nb w ! j)])" if "\<not> returned"
    using 2(5) that by (auto simp: walk_ok_def)
  have skip: "walk_ok nb n (False, k + 1, ps)" if "\<not> returned" using 2(5) that by (simp add: walk_ok_def)
  note IH = 2(1) [OF _ _ 2(3) _ skip] 2(2) [OF _ _ refl 2(3) _ new]
  show ?case
  proof (cases returned)
    case False
    then show ?thesis using IH 2(4) by (cases "rand k mod 2 = 0") (simp_all add: Let_def)
  qed (use 2(5) in simp)
qed simp

lemma score_list_common:
  assumes "0 < n"
  shows "set (Score_CreateList V shuffle nb rand n []) \<subseteq> common_pairs nb \<and> length (Score_CreateList V shuffle nb rand n []) \<le> n"
proof -
  have outer: "walk_ok nb n (score_outer (nb w) rand n i s)" if "walk_ok nb n s" "i < length (nb w) - 1" for w i s
  proof -
    obtain returned k ps where s: "s = (returned, k, ps)" by (cases s)
    have "walk_ok nb n (score_inner (nb w) rand n i (filter (\<lambda>j. odd (j - i)) [i + 1..<length (nb w)]) (False, k + 1, ps))" if "\<not> returned"
      using that \<open>walk_ok nb n s\<close> \<open>i < length (nb w) - 1\<close> by (intro score_inner_ok) (auto simp: s walk_ok_def)
    then show ?thesis using that(1) by (cases "rand k mod 2 = 0") (simp_all add: score_outer_def s walk_ok_def)
  qed
  have inner: "walk_ok nb n (fold (score_outer (nb w) rand n) is s)" if "walk_ok nb n s" "set is \<subseteq> {0..<length (nb w) - 1}" for w "is" s
    using that by (induction "is" arbitrary: s) (simp_all add: outer)
  have "walk_ok nb n (fold (\<lambda>v s. fold (score_outer (nb v) rand n) [0..<length (nb v) - 1] s) vs s)" if "walk_ok nb n s" for vs s
    using that by (induction vs arbitrary: s) (simp_all add: inner)
  from this [of "(False, 0, [])" "shuffle (map of_nat [1..<V + 1])"] show ?thesis using assms
    unfolding Score_CreateList_def walk_ok_def by (auto split: prod.splits if_splits)
qed

lemma walk_round_ok:
  assumes "walk_ok nb n (False, i, ps)"
  shows "walk_ok nb n (walk_round nb e n vs (i, ps))"
  using assms
proof (induction nb e n vs "(i, ps)" arbitrary: i ps rule: walk_round.induct)
  case (2 nb e n vertex vs i ps)
  let ?l = "length (nb vertex)"
  let ?p = "(nb vertex ! (unat (e i) mod ?l), nb vertex ! (unat (e (i + 1)) mod ?l))"
  have new: "walk_ok nb n (n \<le> length (ps @ [?p]), i + 2, ps @ [?p])" if "1 < ?l"
  proof -
    have "?p \<in> common_pairs nb" using that by (auto simp: common_pairs_def intro!: exI [of _ vertex] nth_mem mod_less_divisor)
    then show ?thesis using "2.prems" by (auto simp: walk_ok_def)
  qed
  have skip: "walk_ok nb n (False, i', ps)" for i' using "2.prems" by (simp add: walk_ok_def)
  show ?case
  proof (cases "?l \<le> 1")
    case True
    then show ?thesis using "2.hyps"(1) [OF refl refl] skip by (simp add: Let_def)
  next
    case False
    then show ?thesis using "2.hyps"(2) [OF refl refl False refl refl _ skip] "2.hyps"(3) [OF refl refl False refl refl _ refl] new
      by (auto simp: Let_def)
  qed
qed simp

lemma walk_rounds_common:
  assumes "walk_rounds nb e n vs s = Some r" "walk_ok nb n (False, s)"
  shows "set r \<subseteq> common_pairs nb \<and> length r = n"
proof -
  let ?P = "\<lambda>nb e n vs s r. walk_ok nb n (False, s) \<longrightarrow> set r \<subseteq> common_pairs nb \<and> length r = n"
  have "?P nb e n vs s r"
  proof (rule walk_rounds.raw_induct [where P = ?P, OF _ assms(1)])
    fix rec nb e n vs s r
    assume IH: "\<And>nb e n vs s r. rec nb e n vs s = Some r \<Longrightarrow> ?P nb e n vs s r"
      and eq: "(if length (snd s) < n then let (returned, s) = walk_round nb e n vs s in if returned then Some (snd s) else rec nb e n vs s
        else Some (snd s)) = Some r"
    obtain i ps where s: "s = (i, ps)" by (cases s)
    obtain returned i' ps' where w: "walk_round nb e n vs s = (returned, i', ps')" by (cases "walk_round nb e n vs s")
    show "?P nb e n vs s r"
    proof
      assume ok: "walk_ok nb n (False, s)"
      then have ok': "walk_ok nb n (returned, i', ps')" using walk_round_ok [of nb n i ps e vs] w s by simp
      show "set r \<subseteq> common_pairs nb \<and> length r = n"
      proof (cases returned)
        case True
        then show ?thesis using eq ok ok' w s by (auto simp: walk_ok_def Let_def)
      next
        case False
        then show ?thesis using eq ok ok' w s IH [of nb e n vs "(i', ps')" r] by (auto simp: walk_ok_def Let_def)
      qed
    qed
  qed
  then show ?thesis using assms(2) by simp
qed

text \<open>If no vertex has two different neighbours, the loop of \<^verbatim>\<open>QueryExecution::CreateList\<close> does not end.\<close>

lemma walk_round_stuck:
  assumes "\<forall>v. \<forall>a \<in> set (nb v). \<forall>b \<in> set (nb v). a = b"
  shows "\<exists>i'. walk_round nb e n vs (i, ps) = (False, i', ps)"
proof (induction vs arbitrary: i)
  case (Cons v vs)
  have "nb v ! (unat (e i) mod length (nb v)) = nb v ! (unat (e (i + 1)) mod length (nb v))" if "1 < length (nb v)"
  proof -
    have "nb v ! (x mod length (nb v)) \<in> set (nb v)" for x using that by (intro nth_mem mod_less_divisor) linarith
    then show ?thesis using assms by blast
  qed
  then show ?case using Cons [of i] Cons [of "i + 2"] by (cases "length (nb v) \<le> 1") (simp_all add: Let_def)
qed simp

lemma walk_rounds_none:
  assumes "\<forall>v. \<forall>a \<in> set (nb v). \<forall>b \<in> set (nb v). a = b" "length (snd s) < n"
  shows "walk_rounds nb e n vs s = None"
proof (rule ccontr)
  assume "walk_rounds nb e n vs s \<noteq> None"
  then obtain r where r: "walk_rounds nb e n vs s = Some r" by auto
  let ?P = "\<lambda>nb' e' n' vs' s' r'. nb' = nb \<longrightarrow> n' \<le> length (snd s')"
  have "?P nb e n vs s r"
  proof (rule walk_rounds.raw_induct [where P = ?P, OF _ r])
    fix rec nb' e' n' vs' s' r'
    assume IH: "\<And>nb' e' n' vs' s' r'. rec nb' e' n' vs' s' = Some r' \<Longrightarrow> ?P nb' e' n' vs' s' r'"
      and eq: "(if length (snd s') < n' then let (returned, s') = walk_round nb' e' n' vs' s' in if returned then Some (snd s') else rec nb' e' n' vs' s'
        else Some (snd s')) = Some r'"
    obtain i ps where s: "s' = (i, ps)" by (cases s')
    obtain i' where "walk_round nb e' n' vs' s' = (False, i', ps)" using walk_round_stuck [OF assms(1)] s by blast
    then show "?P nb' e' n' vs' s' r'" using eq s IH [of nb' e' n' vs' "(i', ps)" r'] by (auto simp: Let_def split: if_splits)
  qed
  then show False using assms(2) by simp
qed

section \<open>The random sets are found\<close>

text \<open>A sequence in which every vertex comes again and again.\<close>

definition fair_draws :: "nat \<Rightarrow> (nat \<Rightarrow> u32) \<Rightarrow> bool" where
  "fair_draws V e \<longleftrightarrow> (\<forall>x \<in> {1..V}. \<forall>i. \<exists>k \<ge> i. to_vertex V (e k) = of_nat x)"

lemma draw_set_next:
  assumes "i \<le> k" "wanted (e k)" "e k \<notin> set vs" "length vs < n" "distinct vs" "\<forall>v \<in> set vs. wanted v"
  shows "\<exists>j v. wanted v \<and> v \<in> range e \<and> v \<notin> set vs \<and> draw_set wanted e n i vs = draw_set wanted e n j (v # vs)"
  using assms(1)
proof (induction "k - i" arbitrary: i)
  case 0
  then have "i = k" by simp
  then have "draw_set wanted e n i vs = draw_set wanted e n (i + 1) (e k # vs)" using assms(2-4) by (subst draw_set.simps) (simp add: List.insert_def)
  then show ?case using assms(2,3) by blast
next
  case (Suc d)
  show ?case
  proof (cases "wanted (e i) \<and> e i \<notin> set vs")
    case True
    then have "draw_set wanted e n i vs = draw_set wanted e n (i + 1) (e i # vs)" using assms(4) by (subst draw_set.simps) (simp add: List.insert_def)
    then show ?thesis using True by blast
  next
    case False
    then have "draw_set wanted e n i vs = draw_set wanted e n (i + 1) vs" using assms(4) by (subst draw_set.simps) (auto simp: List.insert_def)
    with Suc(1) [of "i + 1"] Suc(2,3) show ?thesis by simp
  qed
qed

lemma draw_set_found:
  assumes "\<And>vs i. distinct vs \<Longrightarrow> length vs < n \<Longrightarrow> \<exists>k \<ge> i. wanted (e k) \<and> e k \<notin> set vs" "distinct vs" "\<forall>v \<in> set vs. wanted v \<and> v \<in> range e" "length vs \<le> n"
  shows "\<exists>r. draw_set wanted e n i vs = Some r \<and> distinct r \<and> length r = n \<and> (\<forall>v \<in> set r. wanted v \<and> v \<in> range e)"
  using assms(2-4)
proof (induction "n - length vs" arbitrary: i vs)
  case 0
  then have "draw_set wanted e n i vs = Some vs" by (subst draw_set.simps) simp
  then show ?case using 0 by simp
next
  case (Suc d)
  then have "length vs < n" by simp
  then obtain k where "i \<le> k" "wanted (e k)" "e k \<notin> set vs" using assms(1) Suc.prems(1) by blast
  then obtain j v where v: "wanted v" "v \<in> range e" "v \<notin> set vs" "draw_set wanted e n i vs = draw_set wanted e n j (v # vs)"
    using draw_set_next [of i k wanted e vs n] \<open>length vs < n\<close> Suc.prems(1,2) by blast
  have "d = n - length (v # vs)" "length (v # vs) \<le> n" using Suc(2) by simp_all
  with Suc(1) [of "v # vs" j] v Suc.prems show ?case by simp
qed

text \<open>A set larger than the number of wanted vertices is never filled.\<close>

lemma draw_set_none:
  assumes "finite A" "card A < n" "\<And>i. wanted (e i) \<Longrightarrow> e i \<in> A" "distinct vs" "set vs \<subseteq> A"
  shows "draw_set wanted e n i vs = None"
proof (rule ccontr)
  assume "draw_set wanted e n i vs \<noteq> None"
  then obtain r where r: "draw_set wanted e n i vs = Some r" by auto
  let ?P = "\<lambda>wanted' e' n' i' vs' r'. wanted' = wanted \<longrightarrow> e' = e \<longrightarrow> distinct vs' \<longrightarrow> set vs' \<subseteq> A \<longrightarrow> distinct r' \<and> set r' \<subseteq> A \<and> n' \<le> length r'"
  have "?P wanted e n i vs r"
  proof (rule draw_set.raw_induct [where P = ?P, OF _ r])
    fix rec wanted' e' n' i' vs' r'
    assume IH: "\<And>wanted' e' n' i' vs' r'. rec wanted' e' n' i' vs' = Some r' \<Longrightarrow> ?P wanted' e' n' i' vs' r'"
      and eq: "(if length vs' < n' then rec wanted' e' n' (i' + 1) (if wanted' (e' i') then List.insert (e' i') vs' else vs') else Some vs') = Some r'"
    show "?P wanted' e' n' i' vs' r'"
    proof (cases "length vs' < n'")
      case True
      then show ?thesis using IH [of wanted' e' n' "i' + 1" "if wanted' (e' i') then List.insert (e' i') vs' else vs'" r'] eq assms(3)
        by (auto split: if_splits)
    qed (use eq in auto)
  qed
  with assms(4,5) have "distinct r" "set r \<subseteq> A" "n \<le> length r" by simp_all
  then have "n \<le> card A" using card_mono [OF assms(1), of "set r"] by (simp add: distinct_card)
  then show False using assms(2) by simp
qed

lemma to_vertex_range: "0 < V \<Longrightarrow> V < 2 ^ 32 \<Longrightarrow> \<exists>x \<in> {1..V}. to_vertex V y = of_nat x"
  by (rule bexI [of _ "unat y mod V + 1"]) (simp_all add: to_vertex_def Suc_leI)

lemma to_vertex_is_vertex:
  assumes "0 < VERTEX_SIZE cfg" "VERTEX_SIZE cfg < 2 ^ 32"
  shows "is_vertex cfg (to_vertex (VERTEX_SIZE cfg) y)"
proof -
  obtain x where x: "x \<in> {1..VERTEX_SIZE cfg}" "to_vertex (VERTEX_SIZE cfg) y = of_nat x" using to_vertex_range [OF assms] by blast
  then have "unat (of_nat x :: u32) = x" using assms(2) by (simp add: unat_of_nat)
  then show ?thesis using x by (auto simp: is_vertex_def word_less_nat_alt)
qed

definition all_vertices :: "nat \<Rightarrow> u32 set" where
  "all_vertices V = of_nat ` {1..V}"

lemma all_vertices_facts:
  assumes "V < 2 ^ 32"
  shows "finite (all_vertices V)" "card (all_vertices V) = V" "v \<in> all_vertices V \<longleftrightarrow> 1 \<le> unat v \<and> unat v \<le> V"
proof -
  have nat: "unat (of_nat x :: u32) = x" if "x \<in> {1..V}" for x using that assms by (simp add: unat_of_nat)
  then have "inj_on (of_nat :: nat \<Rightarrow> u32) {1..V}" by (rule inj_on_inverseI)
  then show "finite (all_vertices V)" "card (all_vertices V) = V" by (simp_all add: all_vertices_def card_image)
  show "v \<in> all_vertices V \<longleftrightarrow> 1 \<le> unat v \<and> unat v \<le> V" using nat by (auto simp: all_vertices_def intro!: image_eqI [of _ _ "unat v"])
qed

text \<open>Among more vertices than a list has elements there is one that it lacks, and it will be drawn.\<close>

lemma fair_fresh:
  assumes "fair_draws V e" "V < 2 ^ 32" "length ex < V"
  shows "\<exists>k \<ge> i. to_vertex V (e k) \<notin> set ex"
proof -
  have "card (set ex) < card (all_vertices V)" using card_length [of ex] assms(3) all_vertices_facts(2) [OF assms(2)] by linarith
  then have "\<not> all_vertices V \<subseteq> set ex" using card_mono [of "set ex" "all_vertices V"] by auto
  then obtain x where "x \<in> {1..V}" "(of_nat x :: u32) \<notin> set ex" unfolding all_vertices_def by blast
  then show ?thesis using assms(1) unfolding fair_draws_def by metis
qed

lemma draw_first:
  assumes "fair_draws V e" "V < 2 ^ 32" "0 < V" "n \<le> V"
  shows "\<exists>r. draw_set (\<lambda>id. True) (\<lambda>i. to_vertex V (e i)) n 0 [] = Some r \<and> distinct r \<and> length r = n \<and> set r \<subseteq> all_vertices V"
proof -
  have "\<exists>r. draw_set (\<lambda>id. True) (\<lambda>i. to_vertex V (e i)) n 0 [] = Some r \<and> distinct r \<and> length r = n \<and> (\<forall>v \<in> set r. True \<and> v \<in> range (\<lambda>i. to_vertex V (e i)))"
  proof (rule draw_set_found)
    show "\<exists>k \<ge> i. True \<and> to_vertex V (e k) \<notin> set vs" if "length vs < n" for vs i using fair_fresh [OF assms(1,2), of vs i] that assms(4) by auto
  qed simp_all
  then show ?thesis using to_vertex_range [OF assms(3,2)] by (fastforce simp: all_vertices_def)
qed

lemma draw_second:
  assumes "fair_draws V e" "V < 2 ^ 32" "0 < V" "distinct ex" "set ex \<subseteq> all_vertices V"
  shows "case draw_set (\<lambda>id. id \<notin> set ex) (\<lambda>i. to_vertex V (e i)) n 0 [] of
      None \<Rightarrow> V < length ex + n
    | Some r \<Rightarrow> length ex + n \<le> V \<and> distinct r \<and> length r = n \<and> set r \<subseteq> all_vertices V - set ex"
proof (cases "length ex + n \<le> V")
  case True
  have "\<exists>r. draw_set (\<lambda>id. id \<notin> set ex) (\<lambda>i. to_vertex V (e i)) n 0 [] = Some r \<and> distinct r \<and> length r = n \<and>
      (\<forall>v \<in> set r. v \<notin> set ex \<and> v \<in> range (\<lambda>i. to_vertex V (e i)))"
  proof (rule draw_set_found)
    show "\<exists>k \<ge> i. to_vertex V (e k) \<notin> set ex \<and> to_vertex V (e k) \<notin> set vs" if "length vs < n" for vs i
      using fair_fresh [OF assms(1,2), of "ex @ vs" i] that True by auto
  qed simp_all
  then show ?thesis using to_vertex_range [OF assms(3,2)] True by (fastforce simp: all_vertices_def)
next
  case False
  have "card (all_vertices V - set ex) = V - length ex"
    using assms(4,5) all_vertices_facts(2) [OF assms(2)] by (simp add: card_Diff_subset distinct_card)
  moreover have "length ex \<le> V"
    using assms(4) card_mono [OF all_vertices_facts(1) [OF assms(2)] assms(5)] all_vertices_facts(2) [OF assms(2)] by (simp add: distinct_card)
  ultimately have "draw_set (\<lambda>id. id \<notin> set ex) (\<lambda>i. to_vertex V (e i)) n 0 [] = None"
    using False to_vertex_range [OF assms(3,2)] all_vertices_facts(1) [OF assms(2)]
    by (intro draw_set_none [where A = "all_vertices V - set ex"]) (auto simp: all_vertices_def)
  then show ?thesis using False by simp
qed

section \<open>What the scores count\<close>

definition filtered_pairs :: "(u32 \<Rightarrow> u32 \<Rightarrow> PairType option) \<Rightarrow> (u32 \<times> u32) list \<Rightarrow> nat" where
  "filtered_pairs g ps = length (filter (\<lambda>(u, v). g u v \<noteq> Some Uncertain) ps)"

lemma score_pair_eq:
  assumes "length sc = length gs" "\<forall>g \<in> set gs. g u v \<noteq> None"
  shows "score_pair gs (u, v) sc = Some (map (\<lambda>n. sc ! n + of_nat (filtered_pairs (gs ! n) [(u, v)])) [0..<length gs])"
proof -
  have step: "\<exists>t. (gs ! n) u v = Some t" if "n < length gs" for n using assms(2) that by (meson nth_mem not_None_eq)
  let ?f = "\<lambda>n scores. do { get_edge \<leftarrow> aget gs n; type \<leftarrow> get_edge u v; c \<leftarrow> aget scores n; if type \<noteq> Uncertain then aput scores n (c + 1) else Some scores }"
  have "foldo ?f [0..<m] sc = Some (map (\<lambda>n. sc ! n + of_nat (filtered_pairs (gs ! n) [(u, v)])) [0..<m] @ drop m sc)" if "m \<le> length gs" for m
    using that
  proof (induction m)
    case (Suc m)
    obtain t where "(gs ! m) u v = Some t" using step [of m] Suc.prems by auto
    moreover have "drop m sc = sc ! m # drop (Suc m) sc" using Suc.prems assms(1) by (simp add: Cons_nth_drop_Suc)
    ultimately show ?case using Suc assms(1) by (simp add: foldo_append filtered_pairs_def nth_append list_update_append)
  qed simp
  from this [of "length gs"] show ?thesis using assms(1) by (simp add: score_pair_def)
qed

lemma scores_eq:
  assumes "length sc = length gs" "\<forall>g \<in> set gs. \<forall>(u, v) \<in> set ps. g u v \<noteq> None"
  shows "foldo (score_pair gs) ps sc = Some (map (\<lambda>n. sc ! n + of_nat (filtered_pairs (gs ! n) ps)) [0..<length gs])"
  using assms
proof (induction ps arbitrary: sc)
  case Nil
  then show ?case by (simp add: filtered_pairs_def) (metis map_nth)
next
  case (Cons p ps)
  obtain u v where p: "p = (u, v)" by (cases p)
  let ?sc = "map (\<lambda>n. sc ! n + of_nat (filtered_pairs (gs ! n) [(u, v)])) [0..<length gs]"
  have "score_pair gs (u, v) sc = Some ?sc" using Cons.prems p by (intro score_pair_eq) auto
  moreover have "foldo (score_pair gs) ps ?sc = Some (map (\<lambda>n. ?sc ! n + of_nat (filtered_pairs (gs ! n) ps)) [0..<length gs])"
    using Cons.prems by (intro Cons.IH) auto
  ultimately show ?case by (auto simp: p filtered_pairs_def)
qed

lemma scores_zero:
  assumes "\<forall>g \<in> set gs. \<forall>(u, v) \<in> set ps. g u v \<noteq> None"
  shows "foldo (score_pair gs) ps (replicate (length gs) (0 :: 'w::len word)) = Some (map (\<lambda>g. of_nat (filtered_pairs g ps)) gs)"
proof -
  have "map (\<lambda>n. replicate (length gs) (0 :: 'w word) ! n + of_nat (filtered_pairs (gs ! n) ps)) [0..<length gs] = map (\<lambda>g. of_nat (filtered_pairs g ps)) gs"
    by (rule nth_equalityI) simp_all
  then show ?thesis using scores_eq [of "replicate (length gs) (0 :: 'w word)" gs ps] assms by simp
qed

section \<open>Properties\<close>

text \<open>C7. \<^verbatim>\<open>RandomCreate\<close> ends if and only if the graph has at least as many vertices as are asked for, provided every vertex is
  drawn again and again; then it gives two disjoint sets of vertices of the sizes asked for. As \<^verbatim>\<open>RandomScoreExecution\<close> asks for
  100000 vertices in the first set, it never ends on a smaller graph.\<close>

theorem random_create_ends:
  assumes "0 < V" "V < 2 ^ 32" "fair_draws V e" "fair_draws V e'"
  shows "(case RandomCreate V e e' n1 n2 of
      None \<Rightarrow> V < n1 + n2
    | Some (l1, l2) \<Rightarrow> n1 + n2 \<le> V \<and> length l1 = n1 \<and> length l2 = n2 \<and> distinct (l1 @ l2) \<and> (\<forall>v \<in> set (l1 @ l2). 1 \<le> unat v \<and> unat v \<le> V)) \<and>
    (V < VERTETX_TEST_SIZE1 \<longrightarrow> RandomScore_CreateList V ord e e' n ps = None)"
proof -
  have none: "RandomCreate V e e' m1 m2 = None" if "V < m1" for m1 m2
  proof -
    have "draw_set (\<lambda>id. True) (\<lambda>i. to_vertex V (e i)) m1 0 [] = None"
      using that to_vertex_range [OF assms(1,2)] all_vertices_facts(1,2) [OF assms(2)] by (intro draw_set_none [where A = "all_vertices V"]) (auto simp: all_vertices_def)
    then show ?thesis by (simp add: RandomCreate_def)
  qed
  have "case RandomCreate V e e' n1 n2 of
      None \<Rightarrow> V < n1 + n2
    | Some (l1, l2) \<Rightarrow> n1 + n2 \<le> V \<and> length l1 = n1 \<and> length l2 = n2 \<and> distinct (l1 @ l2) \<and> (\<forall>v \<in> set (l1 @ l2). 1 \<le> unat v \<and> unat v \<le> V)"
  proof (cases "n1 \<le> V")
    case True
    then obtain l1 where l1: "draw_set (\<lambda>id. True) (\<lambda>i. to_vertex V (e i)) n1 0 [] = Some l1" "distinct l1" "length l1 = n1" "set l1 \<subseteq> all_vertices V"
      using draw_first [OF assms(3,2,1)] by blast
    from draw_second [OF assms(4,2,1) l1(2,4), of n2] l1 all_vertices_facts(3) [OF assms(2)] show ?thesis
      by (auto simp: RandomCreate_def split: option.splits)
  qed (use none in simp)
  then show ?thesis using none by (simp add: RandomScore_CreateList_def)
qed

lemma fair_draws_cyclic: "fair_draws 10 (\<lambda>i. of_nat (i mod 10))"
  unfolding fair_draws_def
proof (intro ballI allI)
  fix x i :: nat
  assume "x \<in> {1..10}"
  then obtain y where y: "x = y + 1" "y < 10" by (intro that [of "x - 1"]) auto
  then have "to_vertex 10 (of_nat ((10 * i + y) mod 10)) = of_nat x" by (simp add: to_vertex_def unat_of_nat)
  then show "\<exists>k \<ge> i. to_vertex 10 (of_nat (k mod 10)) = of_nat x" by (intro exI [of _ "10 * i + y"]) simp
qed

lemma random_create_ends_witness:
  "\<exists>l1 l2. RandomCreate 10 (\<lambda>i. of_nat (i mod 10)) (\<lambda>i. of_nat (i mod 10)) 4 3 = Some (l1, l2) \<and> distinct (l1 @ l2)"
  using random_create_ends [OF _ _ fair_draws_cyclic fair_draws_cyclic, of 4 3 "\<lambda>x. x" 0 "[]"] by (auto split: option.splits)

text \<open>The experiments on random pairs end and count what they say, if the graphs answer every pair of different vertices. If pairs of different numbers come again and again,
  \<^verbatim>\<open>FullScoreExecution\<close> ends after \<^verbatim>\<open>TOTAL_PAIRS_SIZE\<close> pairs of different vertices, the same that \<^verbatim>\<open>InsertExecution::CreateList\<close> would
  create, and the score of a plan is the number of those that its \<^verbatim>\<open>GetEdge\<close> answers without the database; so are the scores of
  \<^verbatim>\<open>ScoreExecution\<close> on that list. With one vertex \<^verbatim>\<open>CreateList\<close> never ends.\<close>

theorem full_score_counts:
  assumes "0 < V" "V < 2 ^ 32" "fair_pairs (to_vertex V) e" "\<forall>g \<in> set gs. \<forall>u \<in> all_vertices V. \<forall>v \<in> all_vertices V. u \<noteq> v \<longrightarrow> g u v \<noteq> None"
  shows "\<exists>ps. Insert_CreateList V e TOTAL_PAIRS_SIZE [] = Some ps \<and> length ps = TOTAL_PAIRS_SIZE \<and>
    (\<forall>(u, v) \<in> set ps. u \<noteq> v \<and> u \<in> all_vertices V \<and> v \<in> all_vertices V) \<and>
    FullScoreExecution_Execute V gs e = Some (map (\<lambda>g. of_nat (filtered_pairs g ps)) gs) \<and>
    ScoreExecution_Execute gs ps = Some (map (\<lambda>g. of_nat (filtered_pairs g ps)) gs) \<and>
    Insert_CreateList 1 e 1 [] = None"
proof -
  have total: "0 < TOTAL_PAIRS_SIZE" by (simp add: TOTAL_PAIRS_SIZE_def)
  from random_pairs_found [OF assms(3), of TOTAL_PAIRS_SIZE 0 V] obtain ps where
    ps: "length ps = TOTAL_PAIRS_SIZE" "\<forall>(u, v) \<in> set ps. u \<noteq> v \<and> u \<in> range (to_vertex V \<circ> e) \<and> v \<in> range (to_vertex V \<circ> e)"
    and found: "\<forall>qs. random_pairs (to_vertex V) e (length qs + TOTAL_PAIRS_SIZE) (2 * 0) qs = Some (qs @ ps)"
    and full: "\<forall>gs n sc. n + TOTAL_PAIRS_SIZE = TOTAL_PAIRS_SIZE \<longrightarrow> full_score V gs e (2 * 0) n sc = foldo (score_pair gs) ps sc"
    using total by auto
  have list: "Insert_CreateList V e TOTAL_PAIRS_SIZE [] = Some ps" using spec [OF found, of "[]"] by (simp add: Insert_CreateList_def)
  have "range (to_vertex V \<circ> e) \<subseteq> all_vertices V" using to_vertex_range [OF assms(1,2)] by (fastforce simp: all_vertices_def)
  then have verts: "\<forall>(u, v) \<in> set ps. u \<noteq> v \<and> u \<in> all_vertices V \<and> v \<in> all_vertices V" using ps(2) by blast
  then have total_gs: "\<forall>g \<in> set gs. \<forall>(u, v) \<in> set ps. g u v \<noteq> None" using assms(4) by fast
  have scores: "FullScoreExecution_Execute V gs e = Some (map (\<lambda>g. of_nat (filtered_pairs g ps)) gs)"
    "ScoreExecution_Execute gs ps = Some (map (\<lambda>g. of_nat (filtered_pairs g ps)) gs)"
    using full scores_zero [OF total_gs] by (simp_all add: FullScoreExecution_Execute_def ScoreExecution_Execute_def)
  have "Insert_CreateList 1 e 1 [] = None"
    unfolding Insert_CreateList_def by (rule random_pairs_none [where c = 1]) (simp_all add: to_vertex_def)
  then show ?thesis using list ps(1) verts scores by blast
qed

lemma fair_pairs_cyclic: "fair_pairs (to_vertex 10) (\<lambda>i. of_nat (i mod 10))"
  unfolding fair_pairs_def
proof
  fix i :: nat
  have k: "2 * (5 * i) mod 10 = 0" "(2 * (5 * i) + 1) mod 10 = 1" by simp_all
  have "to_vertex 10 (of_nat (2 * (5 * i) mod 10)) \<noteq> to_vertex 10 (of_nat ((2 * (5 * i) + 1) mod 10))"
    unfolding k by (simp add: to_vertex_def)
  then show "\<exists>k \<ge> i. to_vertex 10 (of_nat (2 * k mod 10)) \<noteq> to_vertex 10 (of_nat ((2 * k + 1) mod 10))" by (intro exI [of _ "5 * i"]) simp
qed

end
