(* ===== verification/Score_Runs.thy ===== *)
theory Score_Runs
  imports Pair_Lists Vend_Factory
begin

text \<open>
  \<^verbatim>\<open>execution/score_execution.h\<close>, \<^verbatim>\<open>execution/full_score_execution.h\<close>: the constructors, which open one graph for each kind of VEND
  that is compared; the methods \<^verbatim>\<open>Execute\<close> are in \<open>Pair_Lists\<close>. The graphs after the first of \<^verbatim>\<open>ScoreExecution\<close> and all of \<^verbatim>\<open>FullScoreExecution\<close> get no path of a database, and with \<^verbatim>\<open>IN_MEMORY\<close> equal to 1, as
  \<^verbatim>\<open>config.h\<close> sets it, \<^verbatim>\<open>Graph::Init\<close> reads the database of every graph.
\<close>

definition Vends :: "VendType list" where
  "Vends = [VT_SIMDDeltaV3, VT_BBloomFilter, VT_Hybrid, VT_CBloomFilter, VT_BloomFilterBit, VT_BloomFilterInt, VT_Range, VT_Bloom, VT_HashBit]"

definition PLAN_NUMS :: nat where
  "PLAN_NUMS = 9"

text \<open>The files of the encodings by their paths: lines for the encodings of vertices, words for the filters.\<close>

record encode_files =
  ef_lines :: "string \<Rightarrow> encode_line list option"
  ef_words :: "string \<Rightarrow> u32 list option"

text \<open>One graph of a plan, given by its \<^verbatim>\<open>GetEdge\<close>. There is no graph file, so \<^verbatim>\<open>Init\<close> loads the file of the encoding. The
  plan holds no kind for which the factory leaves the pointer null.\<close>

definition open_graph :: "config \<Rightarrow> 'd kv_store \<Rightarrow> 'd option \<Rightarrow> ('s, 'f) vend \<Rightarrow> 'f list option \<Rightarrow> (u32 \<Rightarrow> u32 \<Rightarrow> PairType option) option" where
  "open_graph cfg K db V enc = do { (g, _) \<leftarrow> Graph_Init cfg K False db (Some V) None enc; Some (GetEdge V g) }"

definition plan_graph :: "config \<Rightarrow> unspecified \<Rightarrow> 'd kv_store \<Rightarrow> encode_files \<Rightarrow> string \<Rightarrow> 'd option \<Rightarrow> VendType \<Rightarrow>
    (u32 \<Rightarrow> u32 \<Rightarrow> PairType option) option" where
  "plan_graph cfg U K files vend_prefix db t = do {
     let path = GetVendPath vend_prefix t;
     let dbq = (\<lambda>v. case db of None \<Rightarrow> [] | Some d \<Rightarrow> snd (RocksDb_Get K d v []));
     V \<leftarrow> GetEncode cfg U dbq None t;
     (case V of
        EncodingVend V \<Rightarrow> open_graph cfg K db V (ef_lines files path)
      | FilterVend V \<Rightarrow> open_graph cfg K db V (ef_words files path)
      | IntFilterVend V \<Rightarrow> open_graph cfg K db V (ef_words files path)
      | NullVend \<Rightarrow> None) }"

definition plan_graphs :: "config \<Rightarrow> unspecified \<Rightarrow> 'd kv_store \<Rightarrow> encode_files \<Rightarrow> string \<Rightarrow> (nat \<Rightarrow> 'd option) \<Rightarrow>
    (u32 \<Rightarrow> u32 \<Rightarrow> PairType option) list option" where
  "plan_graphs cfg U K files vend_prefix db =
     foldo (\<lambda>i graphs. do { t \<leftarrow> aget Vends i; g \<leftarrow> plan_graph cfg U K files vend_prefix (db i) t; Some (graphs @ [g]) }) [0..<PLAN_NUMS] []"

definition ScoreExecution :: "config \<Rightarrow> unspecified \<Rightarrow> 'd kv_store \<Rightarrow> encode_files \<Rightarrow> string \<Rightarrow> 'd \<Rightarrow> (u32 \<Rightarrow> u32 \<Rightarrow> PairType option) list option" where
  "ScoreExecution cfg U K files vend_prefix d = plan_graphs cfg U K files vend_prefix (\<lambda>i. if i = 0 then Some d else None)"

definition FullScoreExecution :: "config \<Rightarrow> unspecified \<Rightarrow> 'd kv_store \<Rightarrow> encode_files \<Rightarrow> string \<Rightarrow> (u32 \<Rightarrow> u32 \<Rightarrow> PairType option) list option" where
  "FullScoreExecution cfg U K files vend_prefix = plan_graphs cfg U K files vend_prefix (\<lambda>i. None)"

text \<open>No graph of a plan opens without a database, so neither experiment gets beyond its constructor: \<^verbatim>\<open>full_score_counts\<close> is
  about the loops alone, for graphs that were opened in another way.\<close>

lemma plan_graph_no_db: "plan_graph cfg U K files vend_prefix None t = None"
  by (simp add: plan_graph_def open_graph_def Graph_Init_def Let_def split: any_vend.splits bind_splits)

theorem score_executions_undefined:
  "ScoreExecution cfg U K files vend_prefix d = None \<and> FullScoreExecution cfg U K files vend_prefix = None"
proof -
  have "[0..<PLAN_NUMS] = 0 # 1 # [2..<PLAN_NUMS]" by (simp add: PLAN_NUMS_def upt_rec)
  then show ?thesis
    by (simp add: ScoreExecution_def FullScoreExecution_def plan_graphs_def plan_graph_no_db Vends_def aget_def split: bind_splits)
qed

end
