(* ===== verification/Utilities.thy ===== *)
theory Utilities
  imports Vend_Prelude
begin

text \<open>\<^verbatim>\<open>Utils::binary_erase\<close> of \<^verbatim>\<open>util/utils.h\<close>: erase a vertex from a sorted list. The indices are \<^verbatim>\<open>int\<close>; the lists are shorter than \<open>2 ^ 31\<close>.\<close>

function erase_loop :: "u32 list \<Rightarrow> u32 \<Rightarrow> int \<Rightarrow> int \<Rightarrow> (bool \<times> u32 list) option" where
  "erase_loop neighbors vertex lo hi =
     (if lo \<le> hi then do {
        let m = (lo + hi) div 2;
        x \<leftarrow> aget neighbors (nat m);
        if x = vertex then Some (True, take (nat m) neighbors @ drop (nat m + 1) neighbors)
        else if x < vertex then erase_loop neighbors vertex (m + 1) hi
        else erase_loop neighbors vertex lo (m - 1) }
      else Some (False, neighbors))"
  by pat_completeness auto
termination
  by (relation "measure (\<lambda>(neighbors, vertex, lo, hi). nat (hi + 1 - lo))") auto

declare erase_loop.simps [simp del]

definition binary_erase :: "u32 list \<Rightarrow> u32 \<Rightarrow> (bool \<times> u32 list) option" where
  "binary_erase neighbors vertex = erase_loop neighbors vertex 0 (int (length neighbors) - 1)"

lemma remove1_at:
  assumes "distinct xs" "i < length xs"
  shows "remove1 (xs ! i) xs = take i xs @ drop (i + 1) xs"
proof -
  have split: "xs = take i xs @ xs ! i # drop (i + 1) xs" using assms(2) by (simp add: id_take_nth_drop [symmetric])
  have "xs ! i \<notin> set (take i xs)" using assms by (metis split distinct_append disjoint_iff list.set_intros(1))
  then show ?thesis by (subst (2) split) (simp add: remove1_append)
qed

text \<open>Outside the range that is left there is nothing to find.\<close>

lemma erase_loop_eq:
  assumes "sorted_wrt (<) ns" "0 \<le> b" "e < int (length ns)" "\<And>i. i < length ns \<Longrightarrow> ns ! i = v \<Longrightarrow> b \<le> int i \<and> int i \<le> e"
  shows "erase_loop ns v b e = Some (v \<in> set ns, remove1 v ns)"
  using assms
proof (induction ns v b e rule: erase_loop.induct)
  case (1 ns v b e)
  show ?case
  proof (cases "b \<le> e")
    case False
    then have "v \<notin> set ns" using "1.prems"(4) by (force simp: in_set_conv_nth)
    then show ?thesis using False by (subst erase_loop.simps) (simp add: remove1_idem)
  next
    case True
    define m where "m = (b + e) div 2"
    have m: "b \<le> m" "m \<le> e" "nat m < length ns" using True "1.prems"(2,3) by (auto simp: m_def)
    have ord: "i < j \<Longrightarrow> j < length ns \<Longrightarrow> ns ! i < ns ! j" for i j using "1.prems"(1) by (simp add: sorted_wrt_iff_nth_less)
    have dist: "distinct ns" using "1.prems"(1) by (simp add: strict_sorted_iff)
    consider "ns ! nat m = v" | "ns ! nat m < v" | "v < ns ! nat m" by (rule linorder_less_linear [THEN disjE]) auto
    then show ?thesis
    proof cases
      case 1
      then show ?thesis using True m remove1_at [OF dist m(3)] nth_mem [OF m(3)] by (subst erase_loop.simps) (simp add: m_def Let_def)
    next
      case 2
      have "m + 1 \<le> int i" if "i < length ns" "ns ! i = v" for i
        using 2 that ord [of i "nat m"] m by (cases i "nat m" rule: linorder_cases) (auto dest: order.asym)
      then have "erase_loop ns v (m + 1) e = Some (v \<in> set ns, remove1 v ns)"
        using "1.IH"(1) [OF True m_def _ _] m 2 "1.prems" by auto
      then show ?thesis using True m 2 by (subst erase_loop.simps) (auto simp: m_def Let_def)
    next
      case 3
      have "int i \<le> m - 1" if "i < length ns" "ns ! i = v" for i
        using 3 that ord [of "nat m" i] m by (cases i "nat m" rule: linorder_cases) (auto dest: order.asym)
      then have "erase_loop ns v b (m - 1) = Some (v \<in> set ns, remove1 v ns)"
        using "1.IH"(2) [OF True m_def] m 3 "1.prems" by auto
      then show ?thesis using True m 3 by (subst erase_loop.simps) (auto simp: m_def Let_def)
    qed
  qed
qed

lemma binary_erase_sorted:
  assumes "sorted_wrt (<) ns"
  shows "binary_erase ns v = Some (v \<in> set ns, remove1 v ns)"
  unfolding binary_erase_def using assms by (intro erase_loop_eq) auto

end
