(* ===== verification/Spec2Isabelle.thy ===== *)
theory Spec2Isabelle
  imports Bit_Set_Spec Hybrid_Spec Range_Spec Bloom_Spec Small_Spec Delta_V3_Spec Directed_Spec Varint_Codec
    Vend_Factory Score_Runs Utilities
begin

text \<open>
  VEND keeps, for every vertex of a large graph, a short encoding in memory that answers most
  questions "is there no edge between these two vertices?" without asking the graph database. The
  answer of a test is \<^verbatim>\<open>Neighbor\<close>, \<^verbatim>\<open>NonNeighbor\<close> or \<^verbatim>\<open>Uncertain\<close>; only the last one costs an access to the
  database. The program is correct when the first two are never wrong, and this is what the
  development is about. All paths below are relative to \<^verbatim>\<open>src/src\<close>, and to \<^verbatim>\<open>src/src/include\<close> for headers.

  \<^bold>\<open>The parts of the program.\<close> From the bottom to the top:

  \<^item> \<^verbatim>\<open>common/config\<close>, \<^verbatim>\<open>common/hash_config\<close>: the numbers every layout is computed from. Theory
    \<open>Vend_Config\<close>; a record \<open>config\<close> takes the place of the globals, \<open>wf_config\<close> is what the
    initialisation establishes.
  \<^item> \<^verbatim>\<open>util/bitset_simd.h\<close>: an array of bytes addressed by bits. Theories \<open>Bit_Set\<close> (the operations),
    \<open>Bit_Set_Laws\<close> and \<open>Bit_Set_Words\<close> (what they do to the sequence of bits), \<open>Bit_Set_Spec\<close>. The
    locale \<open>bit_store\<close> of \<open>Block_Store\<close> is the contract its clients use.
  \<^item> \<^verbatim>\<open>encode/hash_count\<close>: scores of the blocks of neighbours a vertex may keep. Theory \<open>Hash_Count\<close>.
  \<^item> \<^verbatim>\<open>encode/single\<close>: the vertex encoders. Theories \<open>Hybrid_Encode\<close>, \<open>Hybrid_Laws\<close>, \<open>Hybrid_Spec\<close> for
    \<^verbatim>\<open>HybridEncode\<close> and its base classes; \<open>Range_Encode\<close>, \<open>Range_Laws\<close>, \<open>Range_Spec\<close> for
    \<^verbatim>\<open>RangeEncode\<close>; \<open>Small_Encoders\<close>, \<open>Small_Spec\<close> for \<^verbatim>\<open>BitHashEncode\<close>, \<^verbatim>\<open>BloomEncode\<close> and \<^verbatim>\<open>CountEncode\<close>;
    \<open>Directed\<close>, \<open>Directed_Spec\<close> for \<^verbatim>\<open>DirectedHybrid\<close> and \<^verbatim>\<open>DirectedSIMD\<close>; \<open>Compression\<close> (\<^verbatim>\<open>compression.h\<close> with its three codecs
    and \<^verbatim>\<open>RangeCompEncode\<close>), \<open>Compression_Laws\<close> (integers of seven bit bytes), \<open>Compression_Runs\<close> (the run of neighbours that is
    chosen), \<open>Compression_Vertex\<close> and \<open>Compression_Spec\<close> for the compressed range encodings.
  \<^item> \<^verbatim>\<open>encode/codec/SIMD\<close>, \<^verbatim>\<open>encode/SIMD\<close>: lists of neighbours as differences of one to four bytes in
    groups of four, searched with SIMD instructions. Theories \<open>Delta_Tables\<close> (the constant tables),
    \<open>Delta_Codec\<close> (the codecs 0 to 2), \<open>Delta_Laws\<close>, \<open>Delta_Find\<close>, \<open>Delta_Lengths\<close>; \<open>Delta_Encode\<close> (the encoders),
    \<open>Delta_Score\<close>, \<open>Delta_Encode_Laws\<close>, \<open>Delta_Choose\<close>, \<open>Delta_Spec\<close>; \<open>Delta_Tree\<close>, \<open>Delta_V3\<close>, \<open>Delta_V3_Laws\<close>,
    \<open>Delta_V3_Members\<close> and \<open>Delta_V3_Spec\<close> for the third version with its search trees. \<open>Varint_Codec\<close> is the byte codec of \<^verbatim>\<open>encode/codec/varint_codec.h\<close>.
  \<^item> \<^verbatim>\<open>encode/bfilter\<close>: Bloom filters over all edges. Theories \<open>Bloom_Filters\<close>, \<open>Bloom_Laws\<close>, \<open>Bloom_Spec\<close>.
  \<^item> \<^verbatim>\<open>vend\<close>: how the encoding of a graph is built and asked. Theories \<open>Peel_Build\<close> and \<open>Delta_Vend\<close>
    (peeling rounds, also those of \<^verbatim>\<open>RangeCompVend\<close>), \<open>Range_Vend\<close> (peeling by degree), \<open>Directed\<close> (the same for arcs), \<open>Simple_Vends\<close>
    (marks), \<open>Vend_Factory\<close> (the other undirected classes, the factory, the files of the kinds, \<^verbatim>\<open>LargeGraph::Init\<close>).
  \<^item> \<^verbatim>\<open>graph\<close>, \<^verbatim>\<open>dbengine\<close>: the graph file, the adjacency lists and the database. Theories \<open>Graph_File\<close>
    (characters and lines), \<open>Graph_Store\<close>, \<open>Graph_Store_Laws\<close>.
  \<^item> \<^verbatim>\<open>execution\<close>: building, querying, inserting and deleting. Theories \<open>Executions\<close>, \<open>Executions_Spec\<close>;
    \<open>Pair_Lists\<close> for the lists of random pairs and the scores, \<open>Score_Runs\<close> for the graphs that the scores compare.
  \<^item> \<^verbatim>\<open>util/utils.h\<close>: \<open>Utilities\<close>, the erasure from a sorted list.

  \<^bold>\<open>How the model follows the code.\<close> A class is a record or a list of bit sets, a method a function
  that returns the new state, an enumeration a datatype; an encoding is the array \<^verbatim>\<open>encode_bitset_\<close>. Bytes and
  32 bit integers are words; sizes, also those that the code keeps in an \<^verbatim>\<open>int\<close>, and bit positions are natural numbers, with \<open>wsub32\<close> and \<open>mod\<close> where the
  code can wrap. A step without a defined result (an index outside an array, a failed assertion, a
  division by zero, a function that ends without a value) is \<^term>\<open>None\<close>, so that every conclusion \<open>f x = Some y\<close>
  contains that the code stays inside its arrays and that its shifts are defined. Of the latter one case matters everywhere:
  \<^verbatim>\<open>BlockGet\<close> shifts by \<^verbatim>\<open>block_size - 8\<close> as an unsigned number, so a block of less than eight bits that lies in two bytes has no
  defined value. \<open>readable\<close> says which blocks have one; \<open>block_write_read\<close> shows that exactly those are read back, and the theorems
  on clients of blocks ask for ids of eight bits or for blocks that divide a byte (\<open>readable_config\<close>, \<open>bits_config\<close>). Loops over a known sequence are \<open>foldo\<close>; the loops
  over bytes and words are recursive functions with a measure; the rounds of \<open>peel_build\<close> have fuel
  \<open>VERTEX_SIZE + 2\<close>, which suffices since a round that peels no vertex is the last one (this is part of
  \<open>delta_vend_sound\<close>, which states that there is a result); the loop of the range construction runs once for each vertex. The
  loops that draw random numbers until they have enough are partial functions: \<^const>\<open>None\<close> is a loop that does not end, and
  \<open>random_create_ends\<close> and \<open>full_score_counts\<close> say when they do.

  \<^bold>\<open>Parameters.\<close> What the source leaves open is an argument: \<open>ord\<close>, the order in which an \<^verbatim>\<open>unordered_set\<close> is
  traversed (\<open>traversal\<close>: every element once); \<open>pad\<close>, the memory behind an array that a 16 byte load
  reads; \<open>after\<close>, the word behind a vector that \<^verbatim>\<open>DynamicEncode\<close> of \<^verbatim>\<open>VbyteComp\<close> reads; \<open>srt\<close>, what \<^verbatim>\<open>std::sort\<close> does
  with equal keys; the numbers of the random engines, of which only fairness is asked; the floating point hash counts; the
  RocksDB library,
  a record \<open>kv_store\<close> with the laws \<open>kv_laws\<close> of its documentation, which \<open>list_store\<close> shows to be satisfiable.

  \<^bold>\<open>Interfaces.\<close> \<open>bit_store\<close> (blocks of bits); \<open>vertex_encoder\<close> and its instance \<open>slot_encoder\<close> (encoding a vertex and
  testing a pair, from which the soundness of a whole graph follows once for all encoders); \<open>peel_encoder\<close>
  (what the peeling needs besides); \<open>delta_codec\<close> and \<open>delta_encoder\<close> (the three versions of the delta codec);
  \<open>edge_filter\<close> and \<open>counting_filter\<close> (filters of marks and of counters); \<open>sound_vend\<close> (what the executions
  need of a VEND). Each is interpreted on the definitions of the model.

  \<^bold>\<open>What is shown.\<close>

  \<^item> The program as a whole: a graph file is read, encoded and stored, a list of pairs is queried,
    and the answers are exactly the edges of the file (\<open>vend_query_exact\<close> for the delta encodings,
    \<open>marks_query_exact\<close> for the bitmap and the Bloom filter, \<open>factory_program_exact\<close> for every kind of \<open>exact_kind\<close>, the
    compressed range encodings among them, with the object that the factory makes).
  \<^item> For every encoder: the test after encoding tells the truth (\<open>*_graph_sound\<close>), complete
    vertices are answered exactly, and where the code has an update, what it keeps.
  \<^item> For the building blocks: blocks read back, SIMD and scalar search agree, codecs find exactly the
    encoded list, the tables are those of their formula, encodings and lists survive their files.
  \<^item> Where the code is not correct the fault is a theorem (kind error): an edge lost by the
    counting encoder, by the hybrid encoder when the number of vertices is a power of two (\<open>last_neighbor_lost\<close>), by the range
    construction, by the bit codec of the compressed encoding and by the directed delta encoder; tests of the hybrid encoding
    that are undefined since its count lies in two bytes (\<open>hybrid_count_undefined\<close>) and the range construction, undefined for
    graphs without a vertex of many neighbours (\<open>range_vend_sparse_undefined\<close>); insertions that lose an edge (\<open>comp_insert_loses\<close>)
    or have no effect, the third codec's search (\<open>v3_search_members\<close>), the updates of the database, the double loading of a
    graph, the constructors of the score experiments (\<open>score_executions_undefined\<close>).

  \<^bold>\<open>Not modelled.\<close> The vendored libraries, logging, timers, command line and console output have no state
  the encodings depend on. Random engines and shuffles are arguments. \<^verbatim>\<open>GetDirectEncode\<close> only chooses
  between the two directed classes, and \<^verbatim>\<open>main\<close> only starts the executions. The hybrid delta
  encoder is commented out in the source. OpenMP runs the last loop of a construction on distinct vertices, whose
  bit sets are disjoint; the model runs it in order.
\<close>

end
